(* ===== verification/Rust_Text.thy ===== *)
theory Rust_Text
  imports Prelude
begin

section \<open>Text as Rust sees it\<close>

text \<open>
  A Rust \<^verbatim>\<open>str\<close> is modelled as the list of its UTF-8 bytes, one \<^typ>\<open>char\<close> per
  byte. The operations of \<^verbatim>\<open>core::str\<close> the repository uses are written out over the
  bytes: \<open>trim\<close> removes every encoded Unicode white space character, \<open>lines\<close> splits at
  line feeds and drops one carriage return before each, \<open>split_once\<close>, \<open>matches().count()\<close>
  and the two-marker regular expressions search for byte strings. The case mapping of text
  outside ASCII needs the Unicode tables and is an argument.

  A diagnostic built with \<^verbatim>\<open>format!\<close> is kept as the list of its pieces, so that its
  literal text and its arguments are those of the source while the escaping rules of
  \<^verbatim>\<open>{:?}\<close> stay symbolic.
\<close>

subsection \<open>Diagnostics\<close>

datatype piece = Lit string | Disp string | Dbg string | DbgOpt "string option"

type_synonym message = "piece list"

subsection \<open>Searching\<close>

text \<open>\<^verbatim>\<open>str::strip_prefix\<close>.\<close>

fun strip_prefix :: "string \<Rightarrow> string \<Rightarrow> string option" where
  "strip_prefix [] s = Some s"
| "strip_prefix (p # ps) [] = None"
| "strip_prefix (p # ps) (c # cs) = (if p = c then strip_prefix ps cs else None)"

text \<open>The text before and after the first occurrence of a byte string.\<close>

fun split_at :: "string \<Rightarrow> string \<Rightarrow> (string \<times> string) option" where
  "split_at pat [] = (case strip_prefix pat [] of None \<Rightarrow> None | Some r \<Rightarrow> Some ([], r))"
| "split_at pat (c # cs) =
     (case strip_prefix pat (c # cs) of
        Some r \<Rightarrow> Some ([], r)
      | None \<Rightarrow> (case split_at pat cs of
                  None \<Rightarrow> None
                | Some (before, after) \<Rightarrow> Some (c # before, after)))"

text \<open>\<^verbatim>\<open>str::split_once\<close> with a one-byte separator.\<close>

definition split_once :: "char \<Rightarrow> string \<Rightarrow> (string \<times> string) option" where
  "split_once c s = split_at [c] s"

lemma strip_prefix_Some: "strip_prefix p s = Some r \<longleftrightarrow> s = p @ r"
  by (induction p s rule: strip_prefix.induct) auto

lemma strip_prefix_append [simp]: "strip_prefix p (p @ r) = Some r"
  by (simp add: strip_prefix_Some)

lemma strip_prefix_same [simp]: "strip_prefix p p = Some []"
  by (simp add: strip_prefix_Some)

lemma strip_prefix_None: "strip_prefix p s = None \<longleftrightarrow> (\<forall>r. s \<noteq> p @ r)"
  by (metis not_None_eq strip_prefix_Some)

lemma split_at_Some: "split_at pat s = Some (a, b) \<Longrightarrow> s = a @ pat @ b"
  by (induction pat s arbitrary: a rule: split_at.induct)
     (auto simp: strip_prefix_Some split: option.splits prod.splits)

lemma split_at_length: "split_at pat s = Some (a, b) \<Longrightarrow> length a + length pat + length b = length s"
  using split_at_Some by fastforce

lemma split_at_None: "split_at pat s = None \<longleftrightarrow> (\<forall>a b. s \<noteq> a @ pat @ b)"
proof
  show "split_at pat s = None \<Longrightarrow> \<forall>a b. s \<noteq> a @ pat @ b"
  proof (induction s)
    case Nil
    then show ?case by (auto simp: strip_prefix_None split: option.splits)
  next
    case (Cons c cs)
    then have "strip_prefix pat (c # cs) = None" "split_at pat cs = None"
      by (auto split: option.splits)
    with Cons.IH show ?case
      by (auto simp: strip_prefix_None Cons_eq_append_conv)
  qed
next
  assume "\<forall>a b. s \<noteq> a @ pat @ b"
  then show "split_at pat s = None"
    by (metis split_at_Some option.exhaust prod.exhaust)
qed

text \<open>The first occurrence really is the first: no occurrence starts inside the prefix.\<close>

lemma split_at_first:
  "split_at pat s = Some (a, b) \<Longrightarrow> i < length a \<Longrightarrow> strip_prefix pat (drop i s) = None"
  by (induction pat s arbitrary: a i rule: split_at.induct)
     (auto simp: nth_Cons' less_Suc_eq_0_disj split: option.splits prod.splits)

lemma split_at_append:
  assumes "\<forall>i<length a. strip_prefix pat (drop i (a @ pat @ b)) = None" and "pat \<noteq> []"
  shows "split_at pat (a @ pat @ b) = Some (a, b)"
  using assms
proof (induction a)
  case Nil
  then obtain c cs where "pat = c # cs" by (cases pat) auto
  then show ?case
    using strip_prefix_append [of pat b] by (simp del: strip_prefix_append)
next
  case (Cons c cs)
  have "strip_prefix pat (c # cs @ pat @ b) = None"
    using Cons.prems(1) by (metis append_Cons drop0 length_greater_0_conv list.distinct(1))
  moreover have "\<forall>i<length cs. strip_prefix pat (drop i (cs @ pat @ b)) = None"
    using Cons.prems(1) by (metis Suc_less_eq append_Cons drop_Suc_Cons length_Cons)
  ultimately show ?case using Cons.IH Cons.prems(2) by simp
qed

lemma split_once_append: "c \<notin> set a \<Longrightarrow> split_once c (a @ c # b) = Some (a, b)"
  unfolding split_once_def
  by (induction a) auto

lemma split_once_Some: "split_once c s = Some (a, b) \<Longrightarrow> s = a @ c # b \<and> c \<notin> set a"
  unfolding split_once_def
  by (induction "[c]" s arbitrary: a rule: split_at.induct)
     (auto split: option.splits prod.splits if_splits)

text \<open>
  The matches of the regular expression \<^verbatim>\<open>(?s)OPEN(.*?)CLOSE\<close> with two literal
  markers, in order, with their group 1: the leftmost opening marker that has a closing
  marker after it, up to the first such closing marker; the next match starts behind it.
\<close>

function captures :: "string \<Rightarrow> string \<Rightarrow> string \<Rightarrow> string list" where
  "captures opening closing s =
     (if opening = [] then []
      else case split_at opening s of
             None \<Rightarrow> []
           | Some (_, rest) \<Rightarrow>
               (case split_at closing rest of
                  None \<Rightarrow> []
                | Some (body, rest') \<Rightarrow> body # captures opening closing rest'))"
  by pat_completeness auto
termination
  by (relation "measure (\<lambda>(opening, closing, s). length s)")
     (auto dest!: split_at_length simp flip: length_greater_0_conv)

declare captures.simps [simp del]

text \<open>\<^verbatim>\<open>str::matches(pat).count()\<close>: occurrences that do not overlap.\<close>

function count_matches :: "string \<Rightarrow> string \<Rightarrow> nat" where
  "count_matches pat s =
     (if pat = [] then length s + 1
      else case split_at pat s of
             None \<Rightarrow> 0
           | Some (_, rest) \<Rightarrow> Suc (count_matches pat rest))"
  by pat_completeness auto
termination
  by (relation "measure (\<lambda>(pat, s). length s)") (auto dest!: split_at_length simp flip: length_greater_0_conv)

declare count_matches.simps [simp del]

subsection \<open>White space\<close>

definition ascii_ws :: "char list" where
  "ascii_ws = [CHR 0x09, CHR 0x0A, CHR 0x0B, CHR 0x0C, CHR 0x0D, CHR 0x20]"

text \<open>The UTF-8 encodings of the characters with the Unicode property White\_Space.\<close>

definition ws_encodings :: "string list" where
  "ws_encodings = map (\<lambda>c. [c]) ascii_ws @
     [[CHR 0xC2, CHR 0x85], [CHR 0xC2, CHR 0xA0], [CHR 0xE1, CHR 0x9A, CHR 0x80],
      [CHR 0xE2, CHR 0x80, CHR 0x80], [CHR 0xE2, CHR 0x80, CHR 0x81],
      [CHR 0xE2, CHR 0x80, CHR 0x82], [CHR 0xE2, CHR 0x80, CHR 0x83],
      [CHR 0xE2, CHR 0x80, CHR 0x84], [CHR 0xE2, CHR 0x80, CHR 0x85],
      [CHR 0xE2, CHR 0x80, CHR 0x86], [CHR 0xE2, CHR 0x80, CHR 0x87],
      [CHR 0xE2, CHR 0x80, CHR 0x88], [CHR 0xE2, CHR 0x80, CHR 0x89],
      [CHR 0xE2, CHR 0x80, CHR 0x8A], [CHR 0xE2, CHR 0x80, CHR 0xA8],
      [CHR 0xE2, CHR 0x80, CHR 0xA9], [CHR 0xE2, CHR 0x80, CHR 0xAF],
      [CHR 0xE2, CHR 0x81, CHR 0x9F], [CHR 0xE3, CHR 0x80, CHR 0x80]]"

fun strip_any :: "string list \<Rightarrow> string \<Rightarrow> string option" where
  "strip_any [] s = None"
| "strip_any (p # ps) s =
     (case strip_prefix p s of Some r \<Rightarrow> (if p = [] then strip_any ps s else Some r)
                            | None \<Rightarrow> strip_any ps s)"

lemma strip_any_length: "strip_any ps s = Some r \<Longrightarrow> length r < length s"
  by (induction ps s rule: strip_any.induct)
     (auto simp: strip_prefix_Some split: option.splits if_splits)

function strip_while :: "string list \<Rightarrow> string \<Rightarrow> string" where
  "strip_while ps s = (case strip_any ps s of None \<Rightarrow> s | Some r \<Rightarrow> strip_while ps r)"
  by pat_completeness auto
termination
  by (relation "measure (\<lambda>(ps, s). length s)") (auto dest: strip_any_length)

declare strip_while.simps [simp del]

definition trim_start :: "string \<Rightarrow> string" where
  "trim_start s = strip_while ws_encodings s"

definition trim_end :: "string \<Rightarrow> string" where
  "trim_end s = rev (strip_while (map rev ws_encodings) (rev s))"

text \<open>\<^verbatim>\<open>str::trim\<close>.\<close>

definition trim :: "string \<Rightarrow> string" where
  "trim s = trim_end (trim_start s)"

text \<open>\<^verbatim>\<open>s.chars().any(char::is_whitespace)\<close>: some encoded white space occurs.\<close>

definition has_ws :: "string \<Rightarrow> bool" where
  "has_ws s = (\<exists>p\<in>set ws_encodings. split_at p s \<noteq> None)"

text \<open>
  \<^verbatim>\<open>s.chars().count()\<close>: the bytes that do not continue an encoded character.
\<close>

definition chars_count :: "string \<Rightarrow> nat" where
  "chars_count s = length (filter (\<lambda>c. \<not> (128 \<le> (of_char c :: nat) \<and> (of_char c :: nat) < 192)) s)"

subsection \<open>Lines\<close>

fun strip_cr :: "string \<Rightarrow> string" where
  "strip_cr (c # cs) = (if c = CHR 0x0D then cs else c # cs)"
| "strip_cr [] = []"

fun lines_acc :: "string \<Rightarrow> string \<Rightarrow> string list" where
  "lines_acc acc [] = (if acc = [] then [] else [rev acc])"
| "lines_acc acc (c # cs) =
     (if c = CHR 0x0A then rev (strip_cr acc) # lines_acc [] cs else lines_acc (c # acc) cs)"

text \<open>\<^verbatim>\<open>str::lines\<close>.\<close>

definition str_lines :: "string \<Rightarrow> string list" where
  "str_lines s = lines_acc [] s"

subsection \<open>Case mapping\<close>

definition is_ascii :: "char \<Rightarrow> bool" where
  "is_ascii c \<longleftrightarrow> (of_char c :: nat) < 128"

definition ascii_lower :: "char \<Rightarrow> char" where
  "ascii_lower c = (let n = (of_char c :: nat) in if 65 \<le> n \<and> n \<le> 90 then char_of (n + 32) else c)"

text \<open>The upper-case letters are \<^verbatim>\<open>0x41\<close> to \<^verbatim>\<open>0x5A\<close>; bit 5 makes them lower-case.\<close>

lemma ascii_lower_bits [code]:
  "ascii_lower (Char b0 b1 b2 b3 b4 b5 b6 b7) =
     (if b6 \<and> \<not> b5 \<and> \<not> b7 \<and> (b0 \<or> b1 \<or> b2 \<or> b3 \<or> b4) \<and> \<not> (b4 \<and> b3 \<and> (b2 \<or> b1 \<and> b0))
      then Char b0 b1 b2 b3 b4 True b6 b7 else Char b0 b1 b2 b3 b4 b5 b6 b7)"
  by (cases b0; cases b1; cases b2; cases b3; cases b4; cases b5; cases b6; cases b7;
      simp add: ascii_lower_def of_char_def char_of_def bit_0)

text \<open>
  \<^verbatim>\<open>str::to_lowercase\<close>: bytewise on ASCII text; on any other text the Unicode tables
  decide, which are the argument \<open>ulow\<close>.
\<close>

definition to_lowercase :: "(string \<Rightarrow> string) \<Rightarrow> string \<Rightarrow> string" where
  "to_lowercase ulow s = (if list_all is_ascii s then map ascii_lower s else ulow s)"

subsection \<open>Numbers\<close>

definition digit :: "nat \<Rightarrow> char" where
  "digit d = char_of (48 + d)"

fun dec :: "nat \<Rightarrow> string" where
  "dec n = (if n < 10 then [digit n] else dec (n div 10) @ [digit (n mod 10)])"

declare dec.simps [simp del]

text \<open>\<^verbatim>\<open>to_string\<close> of an unsigned integer.\<close>

definition word_str :: "'a :: len word \<Rightarrow> string" where
  "word_str w = dec (unat w)"

definition digit_value :: "char \<Rightarrow> nat option" where
  "digit_value c = (let n = (of_char c :: nat) in if 48 \<le> n \<and> n \<le> 57 then Some (n - 48) else None)"

fun digits_value :: "nat \<Rightarrow> string \<Rightarrow> nat option" where
  "digits_value acc [] = Some acc"
| "digits_value acc (c # cs) =
     (case digit_value c of None \<Rightarrow> None | Some d \<Rightarrow> digits_value (10 * acc + d) cs)"

text \<open>
  \<^verbatim>\<open>str::parse::<u64>\<close>: an optional plus sign, at least one digit, a value that fits.
\<close>

definition parse_u64 :: "string \<Rightarrow> u64 option" where
  "parse_u64 s =
     (let ds = (case s of c # cs \<Rightarrow> (if c = CHR ''+'' then cs else s) | [] \<Rightarrow> [])
      in if ds = [] then None
         else case digits_value 0 ds of
                None \<Rightarrow> None
              | Some n \<Rightarrow> (if n < 2 ^ 64 then Some (of_nat n) else None))"

definition hex_digit :: "nat \<Rightarrow> char" where
  "hex_digit d = (if d < 10 then char_of (48 + d) else char_of (87 + d))"

text \<open>\<^verbatim>\<open>format!("{b:02x}")\<close> of one byte.\<close>

definition hex_byte :: "char \<Rightarrow> string" where
  "hex_byte b = (let n = (of_char b :: nat) in [hex_digit (n div 16), hex_digit (n mod 16)])"

text \<open>\<^verbatim>\<open>[String]::join\<close>.\<close>

fun join :: "string \<Rightarrow> string list \<Rightarrow> string" where
  "join sep [] = []"
| "join sep [x] = x"
| "join sep (x # xs) = x @ sep @ join sep xs"

subsection \<open>Facts about numbers\<close>

lemma digit_value_digit [simp]: "d < 10 \<Longrightarrow> digit_value (digit d) = Some d"
  by (simp add: digit_value_def digit_def)

lemma digits_value_append:
  "digits_value acc (xs @ ys) =
     (case digits_value acc xs of None \<Rightarrow> None | Some v \<Rightarrow> digits_value v ys)"
  by (induction acc xs rule: digits_value.induct) (auto split: option.splits)

lemma digits_value_dec [simp]: "digits_value 0 (dec n) = Some n"
proof (induction n rule: dec.induct)
  case (1 n)
  show ?case
  proof (cases "n < 10")
    case True
    then show ?thesis by (simp add: dec.simps [of n])
  next
    case False
    with 1 show ?thesis by (simp add: dec.simps [of n] digits_value_append)
  qed
qed

lemma dec_inject [simp]: "dec m = dec n \<longleftrightarrow> m = n"
  by (metis digits_value_dec option.inject)

lemma dec_not_Nil [simp]: "dec n \<noteq> []"
  by (subst dec.simps) simp

lemma digit_in: "d < 10 \<Longrightarrow> digit d \<in> set ''0123456789''"
proof -
  have "list_all (\<lambda>d. digit d \<in> set ''0123456789'') [0..<10]" by code_simp
  then show "d < 10 \<Longrightarrow> digit d \<in> set ''0123456789''" by (simp only: list_all_iff set_upt) simp
qed

lemma dec_digits: "set (dec n) \<subseteq> set ''0123456789''"
proof (induction n rule: dec.induct)
  case (1 n)
  show ?case
  proof (cases "n < 10")
    case True
    then show ?thesis using digit_in [of n] by (subst dec.simps) simp
  next
    case False
    then show ?thesis using digit_in [of "n mod 10"] 1 by (subst dec.simps) simp
  qed
qed

lemma word_str_inject [simp]: "word_str v = word_str w \<longleftrightarrow> v = w"
  by (simp add: word_str_def word_unat_eq_iff)

text \<open>\<^verbatim>\<open>parse::<u64>\<close> reads back what \<^verbatim>\<open>to_string\<close> printed.\<close>

lemma parse_u64_word_str [simp]: "parse_u64 (word_str (w :: u64)) = Some w"
proof -
  obtain c cs where cs: "dec (unat w) = c # cs"
    by (cases "dec (unat w)") auto
  with dec_digits [of "unat w"] have "c \<noteq> CHR ''+''" by auto
  moreover have "digits_value 0 (c # cs) = Some (unat w)"
    using cs digits_value_dec by metis
  moreover have "unat w < 2 ^ 64"
    using unsigned_less [of w] by simp
  ultimately show ?thesis
    by (simp add: parse_u64_def word_str_def cs Let_def del: digits_value.simps)
qed

end
