(* ===== verification/Host.thy ===== *)
theory Host
  imports Rust_Text
begin

section \<open>The host: files, clock, chat platform\<close>

text \<open>
  What the daemon shares with the outside world. A \<open>world\<close> holds the regular files and the
  directories by canonical path, the wall clock, the messages handed to the chat platform,
  and a schedule of I/O failures: every file-system call takes the next entry of the
  schedule and fails with its reason if the entry says so, so that a statement about every
  schedule covers every combination of failing calls. \<open>resolve\<close> is the meaning of a
  path name on this host (working directory, symbolic links); it does not change.

  The file operations below are the ones of \<^verbatim>\<open>std::fs\<close> the workflow modules call.
  \<open>write_atomic\<close> is the write-to-temporary-then-rename sequence that \<^verbatim>\<open>assignment.rs\<close>
  and \<^verbatim>\<open>ledger.rs\<close> both contain.
\<close>

subsection \<open>State\<close>

datatype fault = Proceed | Fail nat string \<comment> \<open>bytes already written when a write fails, and the reason\<close>

record channel_ref =
  cr_platform :: string
  cr_channel_id :: string
  cr_thread_id :: "string option"
  cr_parent_id :: "string option"
  cr_origin_event_id :: "string option"

text \<open>One message given to the chat adapter: the channel, the content and the user it may ping.\<close>

record outgoing =
  out_channel :: channel_ref
  out_content :: string
  out_target :: "string option"

record world =
  files :: "string \<Rightarrow> string option"
  dirs :: "string \<Rightarrow> bool"
  resolve :: "string \<Rightarrow> string"
  faults :: "fault list"
  clock :: "nat \<Rightarrow> int"
  ticks :: nat
  sent :: "outgoing list"

text \<open>\<^verbatim>\<open>Utc::now()\<close>; the clock may stand still or go back between two readings.\<close>

definition utc_now :: "world \<Rightarrow> int \<times> world" where
  "utc_now w = (clock w (ticks w), w\<lparr>ticks := Suc (ticks w)\<rparr>)"

text \<open>The outcome the schedule has for the next call.\<close>

definition next_fault :: "world \<Rightarrow> fault \<times> world" where
  "next_fault w = (case faults w of [] \<Rightarrow> (Proceed, w) | f # fs \<Rightarrow> (f, w\<lparr>faults := fs\<rparr>))"

subsection \<open>Paths\<close>

fun split_char :: "char \<Rightarrow> string \<Rightarrow> string list" where
  "split_char c [] = [[]]"
| "split_char c (x # xs) =
     (if x = c then [] # split_char c xs
      else case split_char c xs of [] \<Rightarrow> [[x]] | p # ps \<Rightarrow> (x # p) # ps)"

definition is_absolute :: "string \<Rightarrow> bool" where
  "is_absolute p \<longleftrightarrow> (case p of [] \<Rightarrow> False | c # _ \<Rightarrow> c = CHR ''/'')"

text \<open>
  \<^verbatim>\<open>Path::components\<close>: empty parts and, except at the start of a relative path, single
  dots do not count. Two paths are equal for Rust when their components are.
\<close>

definition components :: "string \<Rightarrow> bool \<times> string list" where
  "components p =
     (let parts = split_char (CHR ''/'') p;
          keep = (\<lambda>x. x \<noteq> [] \<and> x \<noteq> ''.'')
      in (is_absolute p,
          (if \<not> is_absolute p \<and> parts \<noteq> [] \<and> hd parts = ''.''
           then ''.'' # filter keep (tl parts) else filter keep parts)))"

definition path_eq :: "string \<Rightarrow> string \<Rightarrow> bool" where
  "path_eq p q \<longleftrightarrow> components p = components q"

text \<open>\<^verbatim>\<open>Path::join\<close> with a relative second part.\<close>

definition path_join :: "string \<Rightarrow> string \<Rightarrow> string" where
  "path_join p q = (if p \<noteq> [] \<and> last p \<noteq> CHR ''/'' then p @ ''/'' @ q else p @ q)"

text \<open>
  \<^verbatim>\<open>with_extension("json.tmp")\<close> on a name that ends in \<^verbatim>\<open>.json\<close>, as both callers have
  it: the extension is replaced.
\<close>

definition json_tmp :: "string \<Rightarrow> string" where
  "json_tmp p = p @ ''.tmp''"

subsection \<open>File operations\<close>

text \<open>\<^verbatim>\<open>fs::canonicalize\<close>: fails for a name nothing exists under.\<close>

definition canonicalize :: "string \<Rightarrow> world \<Rightarrow> (string + string) \<times> world" where
  "canonicalize p w =
     (case next_fault w of
        (Fail _ e, w1) \<Rightarrow> (Inl e, w1)
      | (Proceed, w1) \<Rightarrow>
          (let c = resolve w1 p
           in if dirs w1 c \<or> files w1 c \<noteq> None then (Inr c, w1)
              else (Inl ''No such file or directory (os error 2)'', w1)))"

text \<open>\<^verbatim>\<open>Path::is_dir\<close>: false when the metadata cannot be read.\<close>

definition path_is_dir :: "string \<Rightarrow> world \<Rightarrow> bool \<times> world" where
  "path_is_dir p w =
     (case next_fault w of (Fail _ _, w1) \<Rightarrow> (False, w1) | (Proceed, w1) \<Rightarrow> (dirs w1 p, w1))"

text \<open>\<^verbatim>\<open>Path::exists\<close>: false when the metadata cannot be read.\<close>

definition path_exists :: "string \<Rightarrow> world \<Rightarrow> bool \<times> world" where
  "path_exists p w =
     (case next_fault w of
        (Fail _ _, w1) \<Rightarrow> (False, w1)
      | (Proceed, w1) \<Rightarrow> (files w1 p \<noteq> None \<or> dirs w1 p, w1))"

text \<open>\<^verbatim>\<open>fs::read_to_string\<close>.\<close>

definition read_to_string :: "string \<Rightarrow> world \<Rightarrow> (string + string) \<times> world" where
  "read_to_string p w =
     (case next_fault w of
        (Fail _ e, w1) \<Rightarrow> (Inl e, w1)
      | (Proceed, w1) \<Rightarrow>
          (case files w1 p of
             Some d \<Rightarrow> (Inr d, w1)
           | None \<Rightarrow> (Inl ''not a readable file'', w1)))"

definition is_ancestor :: "string \<Rightarrow> string \<Rightarrow> bool" where
  "is_ancestor d p \<longleftrightarrow> d = p \<or> strip_prefix (d @ ''/'') p \<noteq> None"

text \<open>\<^verbatim>\<open>fs::create_dir_all\<close>: the directory and every missing ancestor.\<close>

definition create_dir_all :: "string \<Rightarrow> world \<Rightarrow> (string + unit) \<times> world" where
  "create_dir_all p w =
     (case next_fault w of
        (Fail _ e, w1) \<Rightarrow> (Inl e, w1)
      | (Proceed, w1) \<Rightarrow>
          (if files w1 (resolve w1 p) \<noteq> None then (Inl ''File exists (os error 17)'', w1)
           else (Inr (), w1\<lparr>dirs := (\<lambda>d. dirs w1 d \<or> is_ancestor d (resolve w1 p))\<rparr>)))"

text \<open>\<^verbatim>\<open>File::create\<close>: an existing file is emptied.\<close>

definition file_create :: "string \<Rightarrow> world \<Rightarrow> (string + unit) \<times> world" where
  "file_create p w =
     (case next_fault w of
        (Fail _ e, w1) \<Rightarrow> (Inl e, w1)
      | (Proceed, w1) \<Rightarrow> (Inr (), w1\<lparr>files := (files w1)(p := Some [])\<rparr>))"

text \<open>\<^verbatim>\<open>write_all\<close> on the file just created; a failing write leaves a prefix behind.\<close>

definition file_write_all :: "string \<Rightarrow> string \<Rightarrow> world \<Rightarrow> (string + unit) \<times> world" where
  "file_write_all p d w =
     (case next_fault w of
        (Fail n e, w1) \<Rightarrow> (Inl e, w1\<lparr>files := (files w1)(p := Some (take n d))\<rparr>)
      | (Proceed, w1) \<Rightarrow> (Inr (), w1\<lparr>files := (files w1)(p := Some d)\<rparr>))"

definition file_flush :: "world \<Rightarrow> (string + unit) \<times> world" where
  "file_flush w = (case next_fault w of (Fail _ e, w1) \<Rightarrow> (Inl e, w1) | (Proceed, w1) \<Rightarrow> (Inr (), w1))"

text \<open>\<^verbatim>\<open>fs::rename\<close>: replaces the target in one step or fails with nothing changed.\<close>

definition file_rename :: "string \<Rightarrow> string \<Rightarrow> world \<Rightarrow> (string + unit) \<times> world" where
  "file_rename p q w =
     (case next_fault w of
        (Fail _ e, w1) \<Rightarrow> (Inl e, w1)
      | (Proceed, w1) \<Rightarrow>
          (case files w1 p of
             None \<Rightarrow> (Inl ''No such file or directory (os error 2)'', w1)
           | Some d \<Rightarrow> (Inr (), w1\<lparr>files := (files w1)(p := None, q := Some d)\<rparr>)))"

text \<open>
  Create the temporary sibling, write, flush, rename onto the final path. The error is the
  path it names and its reason.
\<close>

definition write_atomic :: "string \<Rightarrow> string \<Rightarrow> world \<Rightarrow> (string \<times> message + unit) \<times> world" where
  "write_atomic final data w =
     (let tmp = json_tmp final
      in case file_create tmp w of
           (Inl e, w1) \<Rightarrow> (Inl (tmp, [Lit ''create tmp: '', Disp e]), w1)
         | (Inr _, w1) \<Rightarrow>
             (case file_write_all tmp data w1 of
                (Inl e, w2) \<Rightarrow> (Inl (tmp, [Lit ''write tmp: '', Disp e]), w2)
              | (Inr _, w2) \<Rightarrow>
                  (case file_flush w2 of
                     (Inl e, w3) \<Rightarrow> (Inl (tmp, [Lit ''flush tmp: '', Disp e]), w3)
                   | (Inr _, w3) \<Rightarrow>
                       (case file_rename tmp final w3 of
                          (Inl e, w4) \<Rightarrow> (Inl (final, [Lit ''rename tmp onto final: '', Disp e]), w4)
                        | (Inr _, w4) \<Rightarrow> (Inr (), w4)))))"

subsection \<open>What the operations leave alone\<close>

lemma utc_now_frame [frame]:
  "utc_now w = (t, w') \<Longrightarrow>
     files w' = files w \<and> dirs w' = dirs w \<and> resolve w' = resolve w \<and> faults w' = faults w
     \<and> clock w' = clock w \<and> sent w' = sent w"
  by (auto simp: utc_now_def)

lemma next_fault_frame [frame]:
  "next_fault w = (f, w') \<Longrightarrow>
     files w' = files w \<and> dirs w' = dirs w \<and> resolve w' = resolve w \<and> clock w' = clock w
     \<and> ticks w' = ticks w \<and> sent w' = sent w"
  by (auto simp: next_fault_def split: list.splits)

lemma canonicalize_frame [frame]:
  "canonicalize p w = (r, w') \<Longrightarrow>
     files w' = files w \<and> dirs w' = dirs w \<and> resolve w' = resolve w \<and> clock w' = clock w
     \<and> ticks w' = ticks w \<and> sent w' = sent w"
  by (auto simp: canonicalize_def Let_def dest!: next_fault_frame
      split: prod.splits fault.splits if_splits)

lemma canonicalize_resolves: "canonicalize p w = (Inr c, w') \<Longrightarrow> c = resolve w p"
  by (auto simp: canonicalize_def Let_def dest!: next_fault_frame
      split: prod.splits fault.splits if_splits)

lemma path_is_dir_frame [frame]:
  "path_is_dir p w = (r, w') \<Longrightarrow>
     files w' = files w \<and> dirs w' = dirs w \<and> resolve w' = resolve w \<and> clock w' = clock w
     \<and> ticks w' = ticks w \<and> sent w' = sent w"
  by (auto simp: path_is_dir_def dest!: next_fault_frame split: prod.splits fault.splits)

lemma path_exists_frame [frame]:
  "path_exists p w = (r, w') \<Longrightarrow>
     files w' = files w \<and> dirs w' = dirs w \<and> resolve w' = resolve w \<and> clock w' = clock w
     \<and> ticks w' = ticks w \<and> sent w' = sent w"
  by (auto simp: path_exists_def dest!: next_fault_frame split: prod.splits fault.splits)

lemma read_to_string_frame [frame]:
  "read_to_string p w = (r, w') \<Longrightarrow>
     files w' = files w \<and> dirs w' = dirs w \<and> resolve w' = resolve w \<and> clock w' = clock w
     \<and> ticks w' = ticks w \<and> sent w' = sent w"
  by (auto simp: read_to_string_def dest!: next_fault_frame
      split: prod.splits fault.splits option.splits)

lemma read_to_string_content: "read_to_string p w = (Inr d, w') \<Longrightarrow> files w p = Some d"
  by (auto simp: read_to_string_def dest!: next_fault_frame
      split: prod.splits fault.splits option.splits)

lemma create_dir_all_frame [frame]:
  "create_dir_all p w = (r, w') \<Longrightarrow>
     files w' = files w \<and> resolve w' = resolve w \<and> clock w' = clock w \<and> ticks w' = ticks w
     \<and> sent w' = sent w \<and> (\<forall>d. dirs w d \<longrightarrow> dirs w' d)"
  by (auto simp: create_dir_all_def dest!: next_fault_frame
      split: prod.splits fault.splits if_splits)

lemma file_create_frame:
  "file_create p w = (r, w') \<Longrightarrow>
     (\<forall>q. q \<noteq> p \<longrightarrow> files w' q = files w q) \<and> dirs w' = dirs w \<and> resolve w' = resolve w
     \<and> clock w' = clock w \<and> ticks w' = ticks w \<and> sent w' = sent w"
  by (auto simp: file_create_def dest!: next_fault_frame split: prod.splits fault.splits)

lemma file_write_all_frame:
  "file_write_all p d w = (r, w') \<Longrightarrow>
     (\<forall>q. q \<noteq> p \<longrightarrow> files w' q = files w q) \<and> dirs w' = dirs w \<and> resolve w' = resolve w
     \<and> clock w' = clock w \<and> ticks w' = ticks w \<and> sent w' = sent w
     \<and> (r = Inr () \<longrightarrow> files w' p = Some d)"
  by (auto simp: file_write_all_def dest!: next_fault_frame split: prod.splits fault.splits)

lemma file_flush_frame [frame]:
  "file_flush w = (r, w') \<Longrightarrow>
     files w' = files w \<and> dirs w' = dirs w \<and> resolve w' = resolve w \<and> clock w' = clock w
     \<and> ticks w' = ticks w \<and> sent w' = sent w"
  by (auto simp: file_flush_def dest!: next_fault_frame split: prod.splits fault.splits)

lemma file_rename_frame:
  "file_rename p q w = (r, w') \<Longrightarrow>
     dirs w' = dirs w \<and> resolve w' = resolve w \<and> clock w' = clock w \<and> ticks w' = ticks w
     \<and> sent w' = sent w
     \<and> (r = Inr () \<longrightarrow> files w' = (files w)(p := None, q := files w p))
     \<and> (r \<noteq> Inr () \<longrightarrow> files w' = files w)"
  by (auto simp: file_rename_def dest!: next_fault_frame
      split: prod.splits fault.splits option.splits)

lemma json_tmp_neq [simp]: "json_tmp p \<noteq> p" "p \<noteq> json_tmp p"
  by (simp_all add: json_tmp_def)

text \<open>
  The atomic write: nothing but the final file and its temporary sibling changes; an error
  leaves the final file as it was, success makes it hold exactly the data.
\<close>

lemma write_atomic_frame:
  assumes "write_atomic final data w = (r, w')"
  shows "dirs w' = dirs w \<and> resolve w' = resolve w \<and> clock w' = clock w \<and> ticks w' = ticks w
     \<and> sent w' = sent w"
  using assms unfolding write_atomic_def Let_def
  by (auto dest!: file_create_frame file_write_all_frame file_flush_frame file_rename_frame
      split: prod.splits sum.splits)

lemma write_atomic_files:
  assumes "write_atomic final data w = (r, w')"
  shows "(r = Inr () \<longrightarrow> files w' final = Some data)
     \<and> (r \<noteq> Inr () \<longrightarrow> files w' final = files w final)
     \<and> (\<forall>q. q \<noteq> final \<longrightarrow> q \<noteq> json_tmp final \<longrightarrow> files w' q = files w q)"
proof -
  let ?tmp = "json_tmp final"
  obtain r1 w1 where 1: "file_create ?tmp w = (r1, w1)" by fastforce
  obtain r2 w2 where 2: "file_write_all ?tmp data w1 = (r2, w2)" by fastforce
  obtain r3 w3 where 3: "file_flush w2 = (r3, w3)" by fastforce
  obtain r4 w4 where 4: "file_rename ?tmp final w3 = (r4, w4)" by fastforce
  note frames = file_create_frame [OF 1] file_write_all_frame [OF 2]
    file_flush_frame [OF 3] file_rename_frame [OF 4]
  show ?thesis
    using assms frames unfolding write_atomic_def Let_def 1 2 3 4
    by (auto simp: 1 2 3 4 split: sum.splits)
qed

lemma write_atomic_effect:
  assumes "write_atomic final data w = (r, w')"
  shows "(dirs w' = dirs w \<and> resolve w' = resolve w \<and> clock w' = clock w \<and> ticks w' = ticks w
     \<and> sent w' = sent w)
     \<and> (r = Inr () \<longrightarrow> files w' final = Some data)
     \<and> (r \<noteq> Inr () \<longrightarrow> files w' final = files w final)
     \<and> (\<forall>q. q \<noteq> final \<longrightarrow> q \<noteq> json_tmp final \<longrightarrow> files w' q = files w q)"
  using write_atomic_frame [OF assms] write_atomic_files [OF assms] by simp

lemma write_atomic_proceeds:
  "faults w = [] \<Longrightarrow> fst (write_atomic final data w) = Inr ()"
  by (simp add: write_atomic_def file_create_def file_write_all_def file_flush_def
      file_rename_def next_fault_def Let_def)

text \<open>Everything but the directories, the failure schedule and the clock position is unchanged.\<close>

definition host_same :: "world \<Rightarrow> world \<Rightarrow> bool" where
  "host_same w w' \<longleftrightarrow> files w' = files w \<and> resolve w' = resolve w \<and> clock w' = clock w \<and> sent w' = sent w"

lemma host_same_refl [simp]: "host_same w w"
  by (simp add: host_same_def)

lemma host_same_trans [trans]: "host_same u v \<Longrightarrow> host_same v w \<Longrightarrow> host_same u w"
  by (simp add: host_same_def)

end
