(* ===== verification/Workflow_State.thy ===== *)
theory Workflow_State
  imports Host
begin

section \<open>The workflow state machine\<close>

text \<open>
  \<^verbatim>\<open>workflow/state.rs\<close> and \<^verbatim>\<open>workflow/transition_id.rs\<close>: stages, roles, results and
  modes with their canonical spellings, the role expected at a stage, the table of legal
  transitions, and the transition id. SHA-256 comes from the \<^verbatim>\<open>sha2\<close> crate and is the
  argument \<open>sha\<close>, a function from bytes to the digest's bytes.
\<close>

subsection \<open>Stages, roles, results, modes\<close>

datatype workflow_stage =
    PrimaryActive
  | VerifierActive
  | FinalReviewerActive
  | PrimaryCorrectionPending
  | TechLeadWait
  | Blocked

datatype workflow_role = Primary | Verifier | FinalReviewer

datatype completion_result = Complete | Pass | FailResult

datatype workflow_mode = ThreeAgent | TwoAgentDegraded | SingleAgentEmergency

fun is_terminal :: "workflow_stage \<Rightarrow> bool" where
  "is_terminal TechLeadWait = True"
| "is_terminal Blocked = True"
| "is_terminal _ = False"

definition stage_from_canonical :: "string \<Rightarrow> workflow_stage option" where
  "stage_from_canonical s =
     (if s = ''PRIMARY_ACTIVE'' then Some PrimaryActive
      else if s = ''VERIFIER_ACTIVE'' then Some VerifierActive
      else if s = ''FINAL_REVIEWER_ACTIVE'' then Some FinalReviewerActive
      else if s = ''PRIMARY_CORRECTION_PENDING'' then Some PrimaryCorrectionPending
      else if s = ''TECH_LEAD_WAIT'' then Some TechLeadWait
      else if s = ''BLOCKED'' then Some Blocked
      else None)"

fun stage_str :: "workflow_stage \<Rightarrow> string" where
  "stage_str PrimaryActive = ''PRIMARY_ACTIVE''"
| "stage_str VerifierActive = ''VERIFIER_ACTIVE''"
| "stage_str FinalReviewerActive = ''FINAL_REVIEWER_ACTIVE''"
| "stage_str PrimaryCorrectionPending = ''PRIMARY_CORRECTION_PENDING''"
| "stage_str TechLeadWait = ''TECH_LEAD_WAIT''"
| "stage_str Blocked = ''BLOCKED''"

definition role_from_canonical :: "string \<Rightarrow> workflow_role option" where
  "role_from_canonical s =
     (if s = ''PRIMARY'' then Some Primary
      else if s = ''VERIFIER'' then Some Verifier
      else if s = ''FINAL_REVIEWER'' then Some FinalReviewer
      else None)"

fun role_str :: "workflow_role \<Rightarrow> string" where
  "role_str Primary = ''PRIMARY''"
| "role_str Verifier = ''VERIFIER''"
| "role_str FinalReviewer = ''FINAL_REVIEWER''"

definition result_from_canonical :: "string \<Rightarrow> completion_result option" where
  "result_from_canonical s =
     (if s = ''COMPLETE'' then Some Complete
      else if s = ''PASS'' then Some Pass
      else if s = ''FAIL'' then Some FailResult
      else None)"

fun result_str :: "completion_result \<Rightarrow> string" where
  "result_str Complete = ''COMPLETE''"
| "result_str Pass = ''PASS''"
| "result_str FailResult = ''FAIL''"

fun mode_str :: "workflow_mode \<Rightarrow> string" where
  "mode_str ThreeAgent = ''THREE_AGENT''"
| "mode_str TwoAgentDegraded = ''TWO_AGENT_DEGRADED''"
| "mode_str SingleAgentEmergency = ''SINGLE_AGENT_EMERGENCY''"

subsection \<open>Who may claim, and what follows\<close>

fun expected_role_for_stage :: "workflow_stage \<Rightarrow> workflow_role option" where
  "expected_role_for_stage PrimaryActive = Some Primary"
| "expected_role_for_stage PrimaryCorrectionPending = Some Primary"
| "expected_role_for_stage VerifierActive = Some Verifier"
| "expected_role_for_stage FinalReviewerActive = Some FinalReviewer"
| "expected_role_for_stage TechLeadWait = None"
| "expected_role_for_stage Blocked = None"

definition legal_next_stage ::
  "workflow_stage \<Rightarrow> workflow_role \<Rightarrow> completion_result \<Rightarrow> workflow_stage option" where
  "legal_next_stage current role res =
     (if is_terminal current then None
      else case (current, role, res) of
          (PrimaryActive, Primary, Complete) \<Rightarrow> Some VerifierActive
        | (VerifierActive, Verifier, Pass) \<Rightarrow> Some FinalReviewerActive
        | (VerifierActive, Verifier, FailResult) \<Rightarrow> Some PrimaryCorrectionPending
        | (FinalReviewerActive, FinalReviewer, Pass) \<Rightarrow> Some TechLeadWait
        | (FinalReviewerActive, FinalReviewer, FailResult) \<Rightarrow> Some PrimaryCorrectionPending
        | (PrimaryCorrectionPending, Primary, Complete) \<Rightarrow> Some VerifierActive
        | _ \<Rightarrow> None)"

subsection \<open>The transition id\<close>

definition id_payload ::
  "string \<Rightarrow> u64 \<Rightarrow> workflow_stage \<Rightarrow> workflow_role \<Rightarrow> completion_result \<Rightarrow> string" where
  "id_payload wid revision stage role res =
     wid @ ''|'' @ word_str revision @ ''|'' @ stage_str stage @ ''|'' @ role_str role @ ''|'' @ result_str res"

definition derive_transition_id ::
  "(string \<Rightarrow> string) \<Rightarrow> string \<Rightarrow> u64 \<Rightarrow> workflow_stage \<Rightarrow> workflow_role \<Rightarrow> completion_result \<Rightarrow> string" where
  "derive_transition_id sha wid revision stage role res =
     concat (map hex_byte (take 16 (sha (id_payload wid revision stage role res))))"

subsection \<open>Facts\<close>

lemmas canonical_defs = stage_from_canonical_def role_from_canonical_def result_from_canonical_def

lemma stage_roundtrip [simp]: "stage_from_canonical (stage_str s) = Some s"
  by (cases s) (simp_all add: stage_from_canonical_def)

lemma role_roundtrip [simp]: "role_from_canonical (role_str r) = Some r"
  by (cases r) (simp_all add: role_from_canonical_def)

lemma result_roundtrip [simp]: "result_from_canonical (result_str r) = Some r"
  by (cases r) (simp_all add: result_from_canonical_def)

lemma stage_from_canonical_Some: "stage_from_canonical s = Some x \<longleftrightarrow> s = stage_str x"
  by (cases x) (auto simp: stage_from_canonical_def)

lemma role_from_canonical_Some: "role_from_canonical s = Some x \<longleftrightarrow> s = role_str x"
  by (cases x) (auto simp: role_from_canonical_def)

lemma result_from_canonical_Some: "result_from_canonical s = Some x \<longleftrightarrow> s = result_str x"
  by (cases x) (auto simp: result_from_canonical_def)

lemma stage_str_inject [simp]: "stage_str a = stage_str b \<longleftrightarrow> a = b"
  by (metis option.inject stage_roundtrip)

lemma role_str_inject [simp]: "role_str a = role_str b \<longleftrightarrow> a = b"
  by (metis option.inject role_roundtrip)

lemma result_str_inject [simp]: "result_str a = result_str b \<longleftrightarrow> a = b"
  by (metis option.inject result_roundtrip)

lemma terminal_iff_no_role: "is_terminal s \<longleftrightarrow> expected_role_for_stage s = None"
  by (cases s) auto

lemma legal_next_stage_cases:
  "legal_next_stage s r c = Some t \<longleftrightarrow>
     (s, r, c, t) \<in> {(PrimaryActive, Primary, Complete, VerifierActive),
       (VerifierActive, Verifier, Pass, FinalReviewerActive),
       (VerifierActive, Verifier, FailResult, PrimaryCorrectionPending),
       (FinalReviewerActive, FinalReviewer, Pass, TechLeadWait),
       (FinalReviewerActive, FinalReviewer, FailResult, PrimaryCorrectionPending),
       (PrimaryCorrectionPending, Primary, Complete, VerifierActive)}"
  by (cases s; cases r; cases c) (auto simp: legal_next_stage_def)

lemma legal_next_role: "legal_next_stage s r c = Some t \<Longrightarrow> expected_role_for_stage s = Some r"
  by (auto simp: legal_next_stage_cases)

lemma legal_next_not_terminal: "legal_next_stage s r c = Some t \<Longrightarrow> \<not> is_terminal s"
  by (auto simp: legal_next_stage_cases)

lemma legal_next_terminal: "is_terminal s \<Longrightarrow> legal_next_stage s r c = None"
  by (simp add: legal_next_stage_def)

text \<open>Every non-terminal stage has a legal move for the role it expects.\<close>

lemma legal_next_exists:
  "expected_role_for_stage s = Some r \<Longrightarrow> \<exists>c t. legal_next_stage s r c = Some t"
  by (cases s) (auto simp: legal_next_stage_cases)

lemma length_hex_bytes: "length (concat (map hex_byte xs)) = 2 * length xs"
  by (induction xs) (auto simp: hex_byte_def Let_def)

lemma transition_id_length:
  "16 \<le> length (sha (id_payload wid n s r c)) \<Longrightarrow>
     length (derive_transition_id sha wid n s r c) = 32"
  by (simp add: derive_transition_id_def length_hex_bytes)

lemma hex_digit_set: "d < 16 \<Longrightarrow> hex_digit d \<in> set ''0123456789abcdef''"
proof -
  have "list_all (\<lambda>d. hex_digit d \<in> set ''0123456789abcdef'') [0..<16]" by code_simp
  then show "d < 16 \<Longrightarrow> hex_digit d \<in> set ''0123456789abcdef''"
    by (simp only: list_all_iff set_upt) simp
qed

text \<open>
  The hashed text determines every field, whatever bytes the workflow id holds: the four
  fields behind it contain no separator.
\<close>

lemma sep_unique:
  assumes "a @ c # x = b @ c # y" and "c \<notin> set x" and "c \<notin> set y"
  shows "a = b \<and> x = y"
proof -
  have split: "takeWhile (\<lambda>z. z \<noteq> c) (rev (u @ c # v)) = rev v" if "c \<notin> set v" for u v
    using that by (simp add: takeWhile_append)
  have "rev x = rev y"
    using split [OF assms(2)] split [OF assms(3)] assms(1) by metis
  then have "x = y" by simp
  with assms(1) show ?thesis by simp
qed

lemma no_sep_stage [simp]: "CHR ''|'' \<notin> set (stage_str s)"
  by (cases s) simp_all

lemma no_sep_role [simp]: "CHR ''|'' \<notin> set (role_str r)"
  by (cases r) simp_all

lemma no_sep_result [simp]: "CHR ''|'' \<notin> set (result_str c)"
  by (cases c) simp_all

lemma no_sep_word [simp]: "CHR ''|'' \<notin> set (word_str w)"
  using dec_digits [of "unat w"] by (auto simp: word_str_def)

lemma id_payload_inject:
  "id_payload wid n s r c = id_payload wid' n' s' r' c' \<longleftrightarrow>
     wid = wid' \<and> n = n' \<and> s = s' \<and> r = r' \<and> c = c'" (is "?l \<longleftrightarrow> ?r")
proof
  assume ?l
  then have 1: "(wid @ ''|'' @ word_str n @ ''|'' @ stage_str s @ ''|'' @ role_str r) @ CHR ''|'' # result_str c
      = (wid' @ ''|'' @ word_str n' @ ''|'' @ stage_str s' @ ''|'' @ role_str r') @ CHR ''|'' # result_str c'"
    by (simp add: id_payload_def)
  note 2 = sep_unique [OF 1, simplified]
  have 3: "(wid @ ''|'' @ word_str n @ ''|'' @ stage_str s) @ CHR ''|'' # role_str r
      = (wid' @ ''|'' @ word_str n' @ ''|'' @ stage_str s') @ CHR ''|'' # role_str r'"
    using 2 by simp
  note 4 = sep_unique [OF 3, simplified]
  have 5: "(wid @ ''|'' @ word_str n) @ CHR ''|'' # stage_str s
      = (wid' @ ''|'' @ word_str n') @ CHR ''|'' # stage_str s'"
    using 4 by simp
  note 6 = sep_unique [OF 5, simplified]
  have 7: "wid @ CHR ''|'' # word_str n = wid' @ CHR ''|'' # word_str n'"
    using 6 by simp
  note 8 = sep_unique [OF 7, simplified]
  from 2 4 6 8 show ?r by simp
qed simp

end
