(* ===== verification/Workflow_Assignment.thy ===== *)
theory Workflow_Assignment
  imports Workflow_State
begin

section \<open>The workflow assignment and its store\<close>

text \<open>
  \<^verbatim>\<open>workflow/assignment.rs\<close>: the trusted assignment record, its structural validation,
  the fail-closed load and the atomic save. JSON comes from \<^verbatim>\<open>serde_json\<close> and is a
  parameter (\<open>json_codec\<close>): a printer that may refuse a value and a parser that may
  refuse a text.
\<close>

subsection \<open>Data\<close>

record workflow_assignment =
  wa_schema_version :: string
  wa_workflow_id :: string
  wa_project_id :: string
  wa_project_root :: string
  wa_mode :: workflow_mode
  wa_primary :: string
  wa_verifier :: string
  wa_final_reviewer :: string
  wa_state :: workflow_stage
  wa_workflow_revision :: u64
  wa_defect_loop_count :: u32
  wa_language :: string
  wa_thread_id :: string
  wa_last_transition_id :: "string option"
  wa_last_delivery_message_id :: "string option"
  wa_unavailable_agents :: "string list"
  wa_authorized_by :: string
  wa_reason :: string
  wa_created_at :: int
  wa_updated_at :: int

definition SCHEMA_VERSION :: string where "SCHEMA_VERSION = ''v2''"

definition WORKFLOW_DIR :: string where "WORKFLOW_DIR = ''.openab''"

definition ASSIGNMENT_FILENAME :: string where
  "ASSIGNMENT_FILENAME = ''workflow_assignment.json''"

definition SUPPORTED_DEFECT_LOOP_MAX :: u32 where "SUPPORTED_DEFECT_LOOP_MAX = 1"

datatype assignment_error =
    AEmptyProjectRoot
  | AProjectRootUnreadable string string
  | AProjectRootNotDirectory string
  | AProjectRootNotAbsolute string
  | AProjectRootMismatch string string
  | AMalformed string
  | AUnsupportedSchemaVersion string
  | AMissingField string
  | ADefectLoopExceeded u32 u32
  | AIo string message

fun assignment_error_msg :: "assignment_error \<Rightarrow> message" where
  "assignment_error_msg AEmptyProjectRoot = [Lit ''project_root is empty'']"
| "assignment_error_msg (AProjectRootUnreadable p r) =
     [Lit ''project_root '', Dbg p, Lit '' cannot be canonicalized: '', Disp r]"
| "assignment_error_msg (AProjectRootNotDirectory p) =
     [Lit ''project_root '', Dbg p, Lit '' is not a directory'']"
| "assignment_error_msg (AProjectRootNotAbsolute p) =
     [Lit ''project_root '', Dbg p, Lit '' is not absolute'']"
| "assignment_error_msg (AProjectRootMismatch f c) =
     [Lit ''assignment project_root '', Dbg f, Lit '' does not match canonical '', Dbg c]"
| "assignment_error_msg (AMalformed r) = [Lit ''malformed assignment JSON: '', Disp r]"
| "assignment_error_msg (AUnsupportedSchemaVersion v) = [Lit ''unsupported schema_version '', Dbg v]"
| "assignment_error_msg (AMissingField n) = [Lit ''missing required field '', Dbg n]"
| "assignment_error_msg (ADefectLoopExceeded n m) =
     [Lit ''defect_loop_count '', Disp (word_str n), Lit '' exceeds supported maximum '', Disp (word_str m)]"
| "assignment_error_msg (AIo p r) = [Lit ''workflow assignment I/O error at '', Dbg p, Lit '': ''] @ r"

text \<open>\<^verbatim>\<open>serde_json\<close> on one type: \<open>to_string_pretty\<close> and \<open>from_str\<close>.\<close>

record 'a json_codec =
  to_json :: "'a \<Rightarrow> string + string"
  from_json :: "string \<Rightarrow> string + 'a"

text \<open>Documented behaviour of \<^verbatim>\<open>serde\<close>'s derived implementations: what prints parses back.\<close>

definition codec_ok :: "'a json_codec \<Rightarrow> bool" where
  "codec_ok c \<longleftrightarrow> (\<forall>a s. to_json c a = Inr s \<longrightarrow> from_json c s = Inr a)"

subsection \<open>Construction and validation\<close>

definition new_assignment ::
  "string \<Rightarrow> string \<Rightarrow> string \<Rightarrow> string \<Rightarrow> string \<Rightarrow> string \<Rightarrow> world \<Rightarrow> workflow_assignment \<times> world" where
  "new_assignment wid pid root primary verifier final_reviewer w =
     (let (now, w1) = utc_now w
      in (\<lparr>wa_schema_version = SCHEMA_VERSION, wa_workflow_id = wid, wa_project_id = pid,
           wa_project_root = root, wa_mode = ThreeAgent, wa_primary = primary,
           wa_verifier = verifier, wa_final_reviewer = final_reviewer, wa_state = PrimaryActive,
           wa_workflow_revision = 0, wa_defect_loop_count = 0, wa_language = ''en'',
           wa_thread_id = [], wa_last_transition_id = None, wa_last_delivery_message_id = None,
           wa_unavailable_agents = [], wa_authorized_by = [], wa_reason = [],
           wa_created_at = now, wa_updated_at = now\<rparr>, w1))"

definition require_non_empty :: "string \<Rightarrow> string \<Rightarrow> assignment_error + unit" where
  "require_non_empty field name = (if field = [] then Inl (AMissingField name) else Inr ())"

text \<open>The \<^verbatim>\<open>?\<close> operator.\<close>

definition try_then :: "('e + 'a) \<Rightarrow> ('a \<Rightarrow> 'e + 'b) \<Rightarrow> 'e + 'b" where
  "try_then r f = (case r of Inl e \<Rightarrow> Inl e | Inr a \<Rightarrow> f a)"

definition assignment_validate :: "workflow_assignment \<Rightarrow> assignment_error + unit" where
  "assignment_validate a =
     (if wa_schema_version a \<noteq> SCHEMA_VERSION
      then Inl (AUnsupportedSchemaVersion (wa_schema_version a))
      else try_then (require_non_empty (wa_workflow_id a) ''workflow_id'') (\<lambda>_.
           try_then (require_non_empty (wa_project_id a) ''project_id'') (\<lambda>_.
           if wa_project_root a = [] then Inl (AMissingField ''project_root'')
           else if \<not> is_absolute (wa_project_root a)
           then Inl (AProjectRootNotAbsolute (wa_project_root a))
           else try_then (require_non_empty (wa_primary a) ''primary'') (\<lambda>_.
                try_then (require_non_empty (wa_verifier a) ''verifier'') (\<lambda>_.
                try_then (require_non_empty (wa_final_reviewer a) ''final_reviewer'') (\<lambda>_.
                if SUPPORTED_DEFECT_LOOP_MAX < wa_defect_loop_count a
                then Inl (ADefectLoopExceeded (wa_defect_loop_count a) SUPPORTED_DEFECT_LOOP_MAX)
                else Inr ()))))))"

subsection \<open>The store\<close>

definition canonicalize_root :: "string \<Rightarrow> world \<Rightarrow> (assignment_error + string) \<times> world" where
  "canonicalize_root p w =
     (if p = [] then (Inl AEmptyProjectRoot, w)
      else case canonicalize p w of
             (Inl e, w1) \<Rightarrow> (Inl (AProjectRootUnreadable p e), w1)
           | (Inr canonical, w1) \<Rightarrow>
               (case path_is_dir canonical w1 of
                  (d, w2) \<Rightarrow>
                    if \<not> d then (Inl (AProjectRootNotDirectory canonical), w2)
                    else if \<not> is_absolute canonical then (Inl (AProjectRootNotAbsolute canonical), w2)
                    else (Inr canonical, w2)))"

definition assignment_file :: "string \<Rightarrow> string" where
  "assignment_file canonical = path_join (path_join canonical WORKFLOW_DIR) ASSIGNMENT_FILENAME"

definition assignment_path :: "string \<Rightarrow> world \<Rightarrow> (assignment_error + string) \<times> world" where
  "assignment_path root w =
     (case canonicalize_root root w of
        (Inl e, w1) \<Rightarrow> (Inl e, w1)
      | (Inr canonical, w1) \<Rightarrow> (Inr (assignment_file canonical), w1))"

definition load_assignment ::
  "workflow_assignment json_codec \<Rightarrow> string \<Rightarrow> world
     \<Rightarrow> (assignment_error + workflow_assignment option) \<times> world" where
  "load_assignment codec root w =
     (case canonicalize_root root w of
        (Inl e, w1) \<Rightarrow> (Inl e, w1)
      | (Inr canonical, w1) \<Rightarrow>
          (let path = assignment_file canonical
           in case path_exists path w1 of
                (False, w2) \<Rightarrow> (Inr None, w2)
              | (True, w2) \<Rightarrow>
                  (case read_to_string path w2 of
                     (Inl e, w3) \<Rightarrow> (Inl (AIo path [Disp e]), w3)
                   | (Inr data, w3) \<Rightarrow>
                       (case from_json codec data of
                          Inl e \<Rightarrow> (Inl (AMalformed e), w3)
                        | Inr a \<Rightarrow>
                            if \<not> path_eq (wa_project_root a) canonical
                            then (Inl (AProjectRootMismatch (wa_project_root a) canonical), w3)
                            else (case assignment_validate a of
                                    Inl e \<Rightarrow> (Inl e, w3)
                                  | Inr _ \<Rightarrow> (Inr (Some a), w3))))))"

definition save_assignment_atomic ::
  "workflow_assignment json_codec \<Rightarrow> string \<Rightarrow> workflow_assignment \<Rightarrow> world
     \<Rightarrow> (assignment_error + string) \<times> world" where
  "save_assignment_atomic codec root a w =
     (case canonicalize_root root w of
        (Inl e, w1) \<Rightarrow> (Inl e, w1)
      | (Inr canonical, w1) \<Rightarrow>
          (let (now, w2) = utc_now w1;
               to_save = a\<lparr>wa_project_root := canonical, wa_updated_at := now\<rparr>
           in case assignment_validate to_save of
                Inl e \<Rightarrow> (Inl e, w2)
              | Inr _ \<Rightarrow>
                  (let dir = path_join canonical WORKFLOW_DIR
                   in case create_dir_all dir w2 of
                        (Inl e, w3) \<Rightarrow> (Inl (AIo dir [Lit ''create_dir_all: '', Disp e]), w3)
                      | (Inr _, w3) \<Rightarrow>
                          (let final_path = path_join dir ASSIGNMENT_FILENAME
                           in case to_json codec to_save of
                                Inl e \<Rightarrow> (Inl (AMalformed e), w3)
                              | Inr data \<Rightarrow>
                                  (case write_atomic final_path data w3 of
                                     (Inl (p, r), w4) \<Rightarrow> (Inl (AIo p r), w4)
                                   | (Inr _, w4) \<Rightarrow> (Inr final_path, w4))))))"

subsection \<open>Validation accepts exactly the well-formed assignments\<close>

definition assignment_wf :: "workflow_assignment \<Rightarrow> bool" where
  "assignment_wf a \<longleftrightarrow>
     wa_schema_version a = ''v2'' \<and> wa_workflow_id a \<noteq> [] \<and> wa_project_id a \<noteq> []
     \<and> is_absolute (wa_project_root a) \<and> wa_primary a \<noteq> [] \<and> wa_verifier a \<noteq> []
     \<and> wa_final_reviewer a \<noteq> [] \<and> wa_defect_loop_count a \<le> 1"

lemma assignment_validate_iff: "assignment_validate a = Inr () \<longleftrightarrow> assignment_wf a"
  by (auto simp: assignment_validate_def assignment_wf_def try_then_def require_non_empty_def
      SCHEMA_VERSION_def SUPPORTED_DEFECT_LOOP_MAX_def is_absolute_def not_less
      split: list.splits)

lemma assignment_validate_Inl: "(\<exists>e. assignment_validate a = Inl e) \<longleftrightarrow> \<not> assignment_wf a"
  by (metis (full_types) assignment_validate_iff old.sum.exhaust old.unit.exhaust sum.distinct(1))

subsection \<open>Frames and results of the store operations\<close>

lemma canonicalize_root_frame [frame]:
  "canonicalize_root p w = (r, w') \<Longrightarrow>
     files w' = files w \<and> dirs w' = dirs w \<and> resolve w' = resolve w \<and> clock w' = clock w
     \<and> ticks w' = ticks w \<and> sent w' = sent w"
  by (auto simp: canonicalize_root_def dest!: canonicalize_frame path_is_dir_frame
      split: prod.splits sum.splits if_splits)

lemma canonicalize_root_resolves:
  "canonicalize_root p w = (Inr c, w') \<Longrightarrow> c = resolve w p \<and> is_absolute c"
  by (auto simp: canonicalize_root_def dest!: canonicalize_resolves
      split: prod.splits sum.splits if_splits)

lemma load_assignment_frame [frame]:
  "load_assignment codec root w = (r, w') \<Longrightarrow>
     files w' = files w \<and> dirs w' = dirs w \<and> resolve w' = resolve w \<and> clock w' = clock w
     \<and> ticks w' = ticks w \<and> sent w' = sent w"
  by (auto simp: load_assignment_def Let_def
      dest!: canonicalize_root_frame path_exists_frame read_to_string_frame
      split: prod.splits sum.splits if_splits bool.splits)

text \<open>A load that returns an assignment read it from the file of this very root.\<close>

lemma load_assignment_Some:
  assumes "load_assignment codec root w = (Inr (Some a), w')"
  shows "assignment_wf a \<and> path_eq (wa_project_root a) (resolve w root)
     \<and> (\<exists>d. files w (assignment_file (resolve w root)) = Some d \<and> from_json codec d = Inr a)"
proof -
  from assms obtain c w1 where c: "canonicalize_root root w = (Inr c, w1)"
    by (auto simp: load_assignment_def split: prod.splits sum.splits)
  note cr = canonicalize_root_resolves [OF c] canonicalize_root_frame [OF c]
  from assms c obtain w2 where e: "path_exists (assignment_file c) w1 = (True, w2)"
    by (auto simp: load_assignment_def Let_def split: prod.splits bool.splits)
  from assms c e obtain d w3 where d: "read_to_string (assignment_file c) w2 = (Inr d, w3)"
    by (auto simp: load_assignment_def Let_def split: prod.splits sum.splits)
  have "files w (assignment_file (resolve w root)) = Some d"
    using read_to_string_content [OF d] path_exists_frame [OF e] cr by simp
  moreover have "from_json codec d = Inr a \<and> path_eq (wa_project_root a) c
      \<and> assignment_validate a = Inr ()"
    using assms c e d by (auto simp: load_assignment_def Let_def split: sum.splits if_splits)
  ultimately show ?thesis using cr by (auto simp: assignment_validate_iff)
qed

lemma save_assignment_frame:
  "save_assignment_atomic codec root a w = (r, w') \<Longrightarrow>
     resolve w' = resolve w \<and> clock w' = clock w \<and> sent w' = sent w
     \<and> (\<forall>d. dirs w d \<longrightarrow> dirs w' d)"
  by (auto simp: save_assignment_atomic_def Let_def
      dest!: canonicalize_root_frame utc_now_frame create_dir_all_frame write_atomic_frame
      split: prod.splits sum.splits)

lemma save_assignment_files:
  assumes "save_assignment_atomic codec root a w = (r, w')"
  shows "(\<forall>p. r = Inr p \<longrightarrow> p = assignment_file (resolve w root) \<and>
            (\<exists>now d. files w' p = Some d
               \<and> to_json codec (a\<lparr>wa_project_root := resolve w root, wa_updated_at := now\<rparr>) = Inr d
               \<and> assignment_wf (a\<lparr>wa_project_root := resolve w root, wa_updated_at := now\<rparr>)))
     \<and> (\<forall>e. r = Inl e \<longrightarrow> files w' (assignment_file (resolve w root)) = files w (assignment_file (resolve w root)))
     \<and> (\<forall>q. q \<noteq> assignment_file (resolve w root) \<longrightarrow> q \<noteq> json_tmp (assignment_file (resolve w root))
            \<longrightarrow> files w' q = files w q)"
proof (cases "canonicalize_root root w")
  case (Pair rc w1)
  show ?thesis
  proof (cases rc)
    case (Inl e)
    with Pair assms show ?thesis
      by (auto simp: save_assignment_atomic_def dest: canonicalize_root_frame)
  next
    case (Inr c)
    with Pair have c: "canonicalize_root root w = (Inr c, w1)" by simp
    note cr = canonicalize_root_resolves [OF c] canonicalize_root_frame [OF c]
    obtain now w2 where u: "utc_now w1 = (now, w2)" by fastforce
    note uf = utc_now_frame [OF u]
    let ?s = "a\<lparr>wa_project_root := c, wa_updated_at := now\<rparr>"
    let ?dir = "path_join c WORKFLOW_DIR"
    show ?thesis
    proof (cases "assignment_validate ?s")
      case (Inl e)
      with c u assms cr uf show ?thesis by (auto simp: save_assignment_atomic_def)
    next
      case (Inr x)
      then have v: "assignment_validate ?s = Inr ()" by simp
      obtain rd w3 where d: "create_dir_all ?dir w2 = (rd, w3)" by fastforce
      note df = create_dir_all_frame [OF d]
      obtain rw w4 where wr: "\<And>data. to_json codec ?s = Inr data \<Longrightarrow>
          write_atomic (path_join ?dir ASSIGNMENT_FILENAME) data w3 = (rw, w4)"
        by (cases "to_json codec ?s") (auto, metis prod.exhaust)
      note wf = write_atomic_files [OF wr, folded assignment_file_def]
      show ?thesis
        using assms c u v d cr uf df wr wf
        by (auto simp: save_assignment_atomic_def Let_def assignment_file_def
            assignment_validate_iff split: sum.splits)
    qed
  qed
qed

end
