(* ===== verification/Workflow_Ledger.thy ===== *)
theory Workflow_Ledger
  imports Workflow_Assignment "HOL-Library.Multiset"
begin

section \<open>The transition ledger\<close>

text \<open>
  \<^verbatim>\<open>workflow/ledger.rs\<close>: the rows with their four-state lifecycle, the in-memory
  operations, pruning, and the load and the atomic save. The row list keeps its order and may
  hold duplicate ids when the file was written by something else, as the vector may.
\<close>

subsection \<open>Data\<close>

datatype transition_status = Reserved | Pending | Delivered | Failed

fun status_str :: "transition_status \<Rightarrow> string" where
  "status_str Reserved = ''RESERVED''"
| "status_str Pending = ''PENDING''"
| "status_str Delivered = ''DELIVERED''"
| "status_str Failed = ''FAILED''"

record ledger_entry =
  le_transition_id :: string
  le_workflow_id :: string
  le_workflow_revision :: u64
  le_current_stage :: workflow_stage
  le_role :: workflow_role
  le_result :: completion_result
  le_status :: transition_status
  le_openab_message_id :: "string option"
  le_target_user_id :: "string option"
  le_created_at :: int
  le_delivered_at :: "int option"

record transition_ledger =
  tl_entries :: "ledger_entry list"
  tl_path :: string

definition LEDGER_FILENAME :: string where "LEDGER_FILENAME = ''workflow_transitions.json''"

definition MAX_LEDGER_ENTRIES :: nat where "MAX_LEDGER_ENTRIES = 256"

datatype ledger_error =
    LEmptyProjectRoot
  | LProjectRootUnreadable string message
  | LProjectRootNotDirectory string
  | LProjectRootNotAbsolute string
  | LMalformed message
  | LIo string message
  | LAlreadyDelivered string
  | LFailedEntryExists string
  | LUnknownTransition string
  | LInvalidTransition string transition_status transition_status
  | LInvalidStateForRelease string transition_status

text \<open>\<^verbatim>\<open>{:?}\<close> of a status prints the variant's name.\<close>

fun status_dbg :: "transition_status \<Rightarrow> string" where
  "status_dbg Reserved = ''Reserved''"
| "status_dbg Pending = ''Pending''"
| "status_dbg Delivered = ''Delivered''"
| "status_dbg Failed = ''Failed''"

fun ledger_error_msg :: "ledger_error \<Rightarrow> message" where
  "ledger_error_msg LEmptyProjectRoot = [Lit ''project_root is empty'']"
| "ledger_error_msg (LProjectRootUnreadable p r) =
     [Lit ''project_root '', Dbg p, Lit '' cannot be canonicalized: ''] @ r"
| "ledger_error_msg (LProjectRootNotDirectory p) =
     [Lit ''project_root '', Dbg p, Lit '' is not a directory'']"
| "ledger_error_msg (LProjectRootNotAbsolute p) =
     [Lit ''project_root '', Dbg p, Lit '' is not absolute'']"
| "ledger_error_msg (LMalformed r) = [Lit ''malformed ledger JSON: ''] @ r"
| "ledger_error_msg (LIo p r) = [Lit ''workflow ledger I/O error at '', Dbg p, Lit '': ''] @ r"
| "ledger_error_msg (LAlreadyDelivered i) =
     [Lit ''transition_id '', Dbg i, Lit '' already delivered or pending'']"
| "ledger_error_msg (LFailedEntryExists i) =
     [Lit ''transition_id '', Dbg i, Lit '' has a FAILED row; reserve does not auto-retry'']"
| "ledger_error_msg (LUnknownTransition i) = [Lit ''transition_id '', Dbg i, Lit '' not present'']"
| "ledger_error_msg (LInvalidTransition i f t) =
     [Lit ''illegal state transition for '', Dbg i, Lit '': '', Lit (status_dbg f), Lit '' -> '',
      Lit (status_dbg t)]"
| "ledger_error_msg (LInvalidStateForRelease i s) =
     [Lit ''recovery attempted to release '', Dbg i, Lit '' in non-RESERVED state '',
      Lit (status_dbg s), Lit ''; release applies only to stale RESERVED rows'']"

text \<open>\<^verbatim>\<open>From<AssignmentError> for LedgerError\<close>.\<close>

fun ledger_error_of :: "assignment_error \<Rightarrow> ledger_error" where
  "ledger_error_of AEmptyProjectRoot = LEmptyProjectRoot"
| "ledger_error_of (AProjectRootUnreadable p r) =
     LProjectRootUnreadable p (assignment_error_msg (AProjectRootUnreadable p r))"
| "ledger_error_of (AProjectRootNotDirectory p) = LProjectRootNotDirectory p"
| "ledger_error_of (AProjectRootNotAbsolute p) = LProjectRootNotAbsolute p"
| "ledger_error_of (AMalformed r) = LMalformed (assignment_error_msg (AMalformed r))"
| "ledger_error_of e = LIo [] (assignment_error_msg e)"

subsection \<open>Load and save\<close>

definition ledger_file :: "string \<Rightarrow> string" where
  "ledger_file canonical = path_join (path_join canonical WORKFLOW_DIR) LEDGER_FILENAME"

definition ledger_load ::
  "ledger_entry list json_codec \<Rightarrow> string \<Rightarrow> world \<Rightarrow> (ledger_error + transition_ledger) \<times> world" where
  "ledger_load codec root w =
     (case canonicalize_root root w of
        (Inl e, w1) \<Rightarrow> (Inl (ledger_error_of e), w1)
      | (Inr canonical, w1) \<Rightarrow>
          (let path = ledger_file canonical
           in case path_exists path w1 of
                (False, w2) \<Rightarrow> (Inr \<lparr>tl_entries = [], tl_path = path\<rparr>, w2)
              | (True, w2) \<Rightarrow>
                  (case read_to_string path w2 of
                     (Inl e, w3) \<Rightarrow> (Inl (LIo path [Disp e]), w3)
                   | (Inr data, w3) \<Rightarrow>
                       (case from_json codec data of
                          Inl e \<Rightarrow> (Inl (LMalformed [Disp e]), w3)
                        | Inr es \<Rightarrow> (Inr \<lparr>tl_entries = es, tl_path = path\<rparr>, w3)))))"

text \<open>\<^verbatim>\<open>Path::parent\<close> of a path with at least two components: everything before the last slash.\<close>

definition path_parent :: "string \<Rightarrow> string" where
  "path_parent p = (let r = dropWhile (\<lambda>c. c \<noteq> CHR ''/'') (rev p)
                    in case r of [] \<Rightarrow> [] | _ # t \<Rightarrow> if t = [] then ''/'' else rev t)"

definition ledger_save_atomic ::
  "ledger_entry list json_codec \<Rightarrow> transition_ledger \<Rightarrow> world \<Rightarrow> (ledger_error + string) \<times> world" where
  "ledger_save_atomic codec l w =
     (case create_dir_all (path_parent (tl_path l)) w of
        (Inl e, w1) \<Rightarrow> (Inl (LIo (path_parent (tl_path l)) [Lit ''create_dir_all: '', Disp e]), w1)
      | (Inr _, w1) \<Rightarrow>
          (case to_json codec (tl_entries l) of
             Inl e \<Rightarrow> (Inl (LMalformed [Disp e]), w1)
           | Inr data \<Rightarrow>
               (case write_atomic (tl_path l) data w1 of
                  (Inl (p, r), w2) \<Rightarrow> (Inl (LIo p r), w2)
                | (Inr _, w2) \<Rightarrow> (Inr (tl_path l), w2))))"

subsection \<open>Looking rows up\<close>

definition has_id :: "string \<Rightarrow> ledger_entry \<Rightarrow> bool" where
  "has_id i = (\<lambda>e. le_transition_id e = i)"

definition ledger_lookup :: "transition_ledger \<Rightarrow> string \<Rightarrow> ledger_entry option" where
  "ledger_lookup l i = List.find (has_id i) (tl_entries l)"

definition status_of :: "transition_ledger \<Rightarrow> string \<Rightarrow> transition_status option" where
  "status_of l i = map_option le_status (ledger_lookup l i)"

subsection \<open>Mutations\<close>

definition ledger_reserve ::
  "(string \<Rightarrow> string) \<Rightarrow> string \<Rightarrow> u64 \<Rightarrow> workflow_stage \<Rightarrow> workflow_role \<Rightarrow> completion_result
     \<Rightarrow> transition_ledger \<Rightarrow> world \<Rightarrow> (ledger_error + ledger_entry) \<times> transition_ledger \<times> world" where
  "ledger_reserve sha wid revision stage role res l w =
     (let tid = derive_transition_id sha wid revision stage role res
      in case position (has_id tid) (tl_entries l) of
           Some idx \<Rightarrow>
             (let e = tl_entries l ! idx
              in case le_status e of
                   Reserved \<Rightarrow> (Inr e, l, w)
                 | Pending \<Rightarrow> (Inl (LAlreadyDelivered tid), l, w)
                 | Delivered \<Rightarrow> (Inl (LAlreadyDelivered tid), l, w)
                 | Failed \<Rightarrow> (Inl (LFailedEntryExists tid), l, w))
         | None \<Rightarrow>
             (let (now, w1) = utc_now w;
                  e = \<lparr>le_transition_id = tid, le_workflow_id = wid, le_workflow_revision = revision,
                       le_current_stage = stage, le_role = role, le_result = res,
                       le_status = Reserved, le_openab_message_id = None,
                       le_target_user_id = None, le_created_at = now, le_delivered_at = None\<rparr>
              in (Inr e, l\<lparr>tl_entries := tl_entries l @ [e]\<rparr>, w1)))"

fun legal_status_change :: "transition_status \<Rightarrow> transition_status \<Rightarrow> bool" where
  "legal_status_change Reserved Pending = True"
| "legal_status_change Reserved Failed = True"
| "legal_status_change Pending Delivered = True"
| "legal_status_change Pending Failed = True"
| "legal_status_change _ _ = False"

definition transition_status_to ::
  "string \<Rightarrow> transition_status \<Rightarrow> transition_ledger \<Rightarrow> (ledger_error + unit) \<times> transition_ledger" where
  "transition_status_to tid to l =
     (case ledger_lookup l tid of
        None \<Rightarrow> (Inl (LUnknownTransition tid), l)
      | Some e \<Rightarrow>
          if legal_status_change (le_status e) to
          then (Inr (), l\<lparr>tl_entries := update_first (has_id tid) (\<lambda>e. e\<lparr>le_status := to\<rparr>) (tl_entries l)\<rparr>)
          else (Inl (LInvalidTransition tid (le_status e) to), l))"

definition mark_pending ::
  "string \<Rightarrow> string option \<Rightarrow> transition_ledger \<Rightarrow> (ledger_error + unit) \<times> transition_ledger" where
  "mark_pending tid target l =
     (case transition_status_to tid Pending l of
        (Inl e, l1) \<Rightarrow> (Inl e, l1)
      | (Inr _, l1) \<Rightarrow>
          (Inr (), l1\<lparr>tl_entries := update_first (has_id tid)
                        (\<lambda>e. e\<lparr>le_target_user_id := target\<rparr>) (tl_entries l1)\<rparr>))"

definition delivery_time :: "ledger_entry \<Rightarrow> int" where
  "delivery_time e = (case le_delivered_at e of Some t \<Rightarrow> t | None \<Rightarrow> le_created_at e)"

definition is_delivered :: "ledger_entry \<Rightarrow> bool" where
  "is_delivered e \<longleftrightarrow> le_status e = Delivered"

text \<open>
  \<^verbatim>\<open>sort_by_key\<close> with \<^verbatim>\<open>Reverse\<close> is a stable sort by falling time, which
  \<^const>\<open>sort_key\<close> on the negated time is.
\<close>

definition prune_delivered :: "transition_ledger \<Rightarrow> transition_ledger" where
  "prune_delivered l =
     (let es = tl_entries l
      in if length es \<le> MAX_LEDGER_ENTRIES then l
         else let active = filter (\<lambda>e. \<not> is_delivered e) es;
                  delivered_capacity = MAX_LEDGER_ENTRIES - length active;
                  delivered = filter is_delivered es
              in if length delivered \<le> delivered_capacity then l
                 else l\<lparr>tl_entries := active @
                        take delivered_capacity (sort_key (\<lambda>e. - delivery_time e) delivered)\<rparr>)"

definition mark_delivered ::
  "string \<Rightarrow> string option \<Rightarrow> transition_ledger \<Rightarrow> world
     \<Rightarrow> (ledger_error + unit) \<times> transition_ledger \<times> world" where
  "mark_delivered tid mid l w =
     (case transition_status_to tid Delivered l of
        (Inl e, l1) \<Rightarrow> (Inl e, l1, w)
      | (Inr _, l1) \<Rightarrow>
          (let (now, w1) = utc_now w;
               l2 = l1\<lparr>tl_entries := update_first (has_id tid)
                      (\<lambda>e. e\<lparr>le_openab_message_id := mid, le_delivered_at := Some now\<rparr>) (tl_entries l1)\<rparr>
           in (Inr (), prune_delivered l2, w1)))"

definition mark_failed :: "string \<Rightarrow> transition_ledger \<Rightarrow> (ledger_error + unit) \<times> transition_ledger" where
  "mark_failed tid l = transition_status_to tid Failed l"

definition release_stale_reserved ::
  "string \<Rightarrow> transition_ledger \<Rightarrow> (ledger_error + unit) \<times> transition_ledger" where
  "release_stale_reserved tid l =
     (case position (has_id tid) (tl_entries l) of
        None \<Rightarrow> (Inr (), l)
      | Some idx \<Rightarrow>
          (let s = le_status (tl_entries l ! idx)
           in if s = Reserved then (Inr (), l\<lparr>tl_entries := remove_at idx (tl_entries l)\<rparr>)
              else (Inl (LInvalidStateForRelease tid s), l)))"

subsection \<open>The ledger as a map from ids to rows\<close>

lemma has_id_iff [simp]: "has_id i e \<longleftrightarrow> le_transition_id e = i"
  by (simp add: has_id_def)

text \<open>Writing through \<^verbatim>\<open>iter_mut().find\<close> changes the row that looking up finds, and no other.\<close>

lemma find_update_same:
  "(\<And>e. le_transition_id (f e) = le_transition_id e) \<Longrightarrow>
     List.find (has_id i) (update_first (has_id i) f es) = map_option f (List.find (has_id i) es)"
  by (rule find_update_first) simp

lemma find_update_other:
  "(\<And>e. le_transition_id (f e) = le_transition_id e) \<Longrightarrow> j \<noteq> i \<Longrightarrow>
     List.find (has_id j) (update_first (has_id i) f es) = List.find (has_id j) es"
  by (rule find_update_first_other) auto

lemmas find_update = find_update_same find_update_other

lemma lookup_None: "ledger_lookup l i = None \<longleftrightarrow> i \<notin> le_transition_id ` set (tl_entries l)"
  by (auto simp: ledger_lookup_def find_None_iff)

lemma status_of_None: "status_of l i = None \<longleftrightarrow> i \<notin> le_transition_id ` set (tl_entries l)"
  by (simp add: status_of_def lookup_None)

lemma lookup_Some: "ledger_lookup l i = Some e \<Longrightarrow> e \<in> set (tl_entries l) \<and> le_transition_id e = i"
  unfolding ledger_lookup_def by (drule find_Some_in) (simp add: has_id_def)

text \<open>Where no id occurs twice, looking up is membership.\<close>

definition distinct_ids :: "transition_ledger \<Rightarrow> bool" where
  "distinct_ids l \<longleftrightarrow> distinct (map le_transition_id (tl_entries l))"

lemma find_distinct:
  "distinct (map f xs) \<Longrightarrow> x \<in> set xs \<Longrightarrow> List.find (\<lambda>y. f y = f x) xs = Some x"
  by (induction xs) (auto simp: image_iff)

lemma lookup_in:
  "distinct_ids l \<Longrightarrow> e \<in> set (tl_entries l) \<Longrightarrow> ledger_lookup l (le_transition_id e) = Some e"
  unfolding distinct_ids_def ledger_lookup_def has_id_def by (rule find_distinct)

subsection \<open>Status changes\<close>

lemma transition_status_to_Inr:
  assumes "transition_status_to i to l = (Inr (), l')"
  shows "\<exists>e. ledger_lookup l i = Some e \<and> legal_status_change (le_status e) to
     \<and> l' = l\<lparr>tl_entries := update_first (has_id i) (\<lambda>e. e\<lparr>le_status := to\<rparr>) (tl_entries l)\<rparr>"
  using assms by (auto simp: transition_status_to_def split: option.splits if_splits)

lemma transition_status_to_Inl: "transition_status_to i to l = (Inl x, l') \<Longrightarrow> l' = l"
  by (auto simp: transition_status_to_def split: option.splits if_splits)

lemma transition_status_to_status_of:
  assumes "transition_status_to i to l = (Inr (), l')"
  shows "status_of l' = (status_of l)(i \<mapsto> to)
     \<and> (\<exists>s. status_of l i = Some s \<and> legal_status_change s to)"
proof -
  from transition_status_to_Inr [OF assms] obtain e where e: "ledger_lookup l i = Some e"
    "legal_status_change (le_status e) to"
    "l' = l\<lparr>tl_entries := update_first (has_id i) (\<lambda>e. e\<lparr>le_status := to\<rparr>) (tl_entries l)\<rparr>"
    by blast
  have "ledger_lookup l' i = Some (e\<lparr>le_status := to\<rparr>)"
    using e(1,3) by (simp add: find_update ledger_lookup_def)
  moreover have "ledger_lookup l' j = ledger_lookup l j" if "j \<noteq> i" for j
    using that e(3) by (simp add: find_update ledger_lookup_def)
  ultimately show ?thesis using e(1,2) by (auto simp: status_of_def fun_eq_iff)
qed

lemma transition_status_to_ids:
  "transition_status_to i to l = (r, l') \<Longrightarrow>
     map le_transition_id (tl_entries l') = map le_transition_id (tl_entries l) \<and> tl_path l' = tl_path l"
  by (auto simp: transition_status_to_def map_update_first split: option.splits if_splits)

lemma mark_pending_status_of:
  assumes "mark_pending i t l = (Inr (), l')"
  shows "status_of l' = (status_of l)(i \<mapsto> Pending) \<and> status_of l i = Some Reserved"
proof -
  from assms obtain l1 where 1: "transition_status_to i Pending l = (Inr (), l1)"
    and l': "l' = l1\<lparr>tl_entries := update_first (has_id i)
                        (\<lambda>e. e\<lparr>le_target_user_id := t\<rparr>) (tl_entries l1)\<rparr>"
    by (auto simp: mark_pending_def split: prod.splits sum.splits)
  have "status_of l' j = status_of l1 j" for j
    using l' by (cases "j = i")
      (simp_all add: status_of_def find_update ledger_lookup_def option.map_comp comp_def)
  moreover have "s = Reserved" if "legal_status_change s Pending" for s
    using that by (cases s) auto
  ultimately show ?thesis using transition_status_to_status_of [OF 1] by (auto simp: fun_eq_iff)
qed

lemma mark_pending_Inl: "mark_pending i t l = (Inl x, l') \<Longrightarrow> l' = l"
  by (auto simp: mark_pending_def dest: transition_status_to_Inl split: prod.splits sum.splits)

lemma mark_pending_ids:
  "mark_pending i t l = (r, l') \<Longrightarrow>
     map le_transition_id (tl_entries l') = map le_transition_id (tl_entries l) \<and> tl_path l' = tl_path l"
  by (auto simp: mark_pending_def map_update_first dest!: transition_status_to_ids
      split: prod.splits sum.splits)

lemma mark_failed_status_of:
  assumes "mark_failed i l = (Inr (), l')"
  shows "status_of l' = (status_of l)(i \<mapsto> Failed)
     \<and> (status_of l i = Some Reserved \<or> status_of l i = Some Pending)"
proof -
  have "s = Reserved \<or> s = Pending" if "legal_status_change s Failed" for s
    using that by (cases s) auto
  then show ?thesis
    using transition_status_to_status_of [OF assms [unfolded mark_failed_def]] by auto
qed

lemma mark_failed_ids:
  "mark_failed i l = (r, l') \<Longrightarrow>
     map le_transition_id (tl_entries l') = map le_transition_id (tl_entries l) \<and> tl_path l' = tl_path l"
  unfolding mark_failed_def by (rule transition_status_to_ids)

subsection \<open>Reserving and releasing\<close>

lemma reserve_cases:
  assumes "ledger_reserve sha wid n s r c l w = (res, l', w')"
  defines "i \<equiv> derive_transition_id sha wid n s r c"
  shows "(status_of l i = None \<and> (\<exists>e. res = Inr e \<and> le_transition_id e = i \<and> le_status e = Reserved
             \<and> le_workflow_revision e = n \<and> le_current_stage e = s \<and> le_role e = r \<and> le_result e = c
             \<and> le_workflow_id e = wid
             \<and> l' = l\<lparr>tl_entries := tl_entries l @ [e]\<rparr>))
       \<or> (status_of l i = Some Reserved \<and> l' = l \<and> w' = w
            \<and> (\<exists>e. res = Inr e \<and> ledger_lookup l i = Some e))
       \<or> (\<exists>s. status_of l i = Some s \<and> s \<noteq> Reserved \<and> l' = l \<and> w' = w
            \<and> res = Inl (if s = Failed then LFailedEntryExists i else LAlreadyDelivered i))"
proof (cases "position (has_id i) (tl_entries l)")
  case None
  then have "List.find (has_id i) (tl_entries l) = None" by (simp add: find_None_position)
  then have "status_of l i = None" by (simp add: status_of_def ledger_lookup_def)
  with None assms show ?thesis by (auto simp: ledger_reserve_def Let_def utc_now_def)
next
  case (Some idx)
  then have "ledger_lookup l i = Some (tl_entries l ! idx)"
    by (simp add: ledger_lookup_def position_find)
  with Some assms show ?thesis
    by (cases "le_status (tl_entries l ! idx)") (auto simp: ledger_reserve_def Let_def status_of_def)
qed

lemma reserve_status_of:
  assumes "ledger_reserve sha wid n s r c l w = (Inr e, l', w')"
  shows "le_transition_id e = derive_transition_id sha wid n s r c
     \<and> status_of l' = (status_of l)(le_transition_id e \<mapsto> Reserved)
     \<and> status_of l (le_transition_id e) \<in> {None, Some Reserved}"
proof -
  have new: "status_of (l\<lparr>tl_entries := tl_entries l @ [e]\<rparr>) = (status_of l)(le_transition_id e \<mapsto> Reserved)"
    if "status_of l (le_transition_id e) = None" "le_status e = Reserved"
  proof
    fix j
    show "status_of (l\<lparr>tl_entries := tl_entries l @ [e]\<rparr>) j
        = ((status_of l)(le_transition_id e \<mapsto> Reserved)) j"
      using that by (auto simp: status_of_def ledger_lookup_def find_append has_id_def split: option.splits)
  qed
  have old: "(status_of l)(i \<mapsto> Reserved) = status_of l" if "status_of l i = Some Reserved" for i
    using that by (simp add: fun_upd_idem)
  show ?thesis
    using reserve_cases [OF assms] new old lookup_Some by fastforce
qed

lemma reserve_frame:
  "ledger_reserve sha wid n s r c l w = (res, l', w') \<Longrightarrow>
     tl_path l' = tl_path l \<and> files w' = files w \<and> dirs w' = dirs w \<and> resolve w' = resolve w
     \<and> faults w' = faults w \<and> clock w' = clock w \<and> sent w' = sent w"
  by (auto simp: ledger_reserve_def Let_def utc_now_def split: option.splits transition_status.splits)

lemma remove_at_lookup:
  assumes "distinct (map f xs)" and "idx < length xs"
  shows "List.find (\<lambda>y. f y = j) (remove_at idx xs)
           = (if j = f (xs ! idx) then None else List.find (\<lambda>y. f y = j) xs)"
proof -
  let ?a = "take idx xs" and ?b = "drop (Suc idx) xs"
  have xs: "xs = ?a @ xs ! idx # ?b" using assms(2) by (simp add: id_take_nth_drop)
  have "distinct (map f ?a @ f (xs ! idx) # map f ?b)"
    using assms(1) xs by (metis list.simps(9) map_append)
  then have out: "f (xs ! idx) \<notin> f ` set ?a" "f (xs ! idx) \<notin> f ` set ?b" by simp_all
  show ?thesis
  proof (cases "j = f (xs ! idx)")
    case True
    then show ?thesis using out
      by (auto simp: remove_at_def find_None_iff image_iff)
  next
    case False
    then have "List.find (\<lambda>y. f y = j) xs
        = List.find (\<lambda>y. f y = j) (?a @ ?b)"
      by (subst xs) (simp add: find_append split: option.splits)
    with False show ?thesis by (simp add: remove_at_def)
  qed
qed

lemma release_cases:
  assumes "release_stale_reserved i l = (r, l')"
  shows "(status_of l i = None \<and> r = Inr () \<and> l' = l)
       \<or> (status_of l i = Some Reserved \<and> r = Inr ()
            \<and> (\<exists>idx. idx < length (tl_entries l) \<and> le_transition_id (tl_entries l ! idx) = i
                 \<and> l' = l\<lparr>tl_entries := remove_at idx (tl_entries l)\<rparr>))
       \<or> (\<exists>s. status_of l i = Some s \<and> s \<noteq> Reserved \<and> r = Inl (LInvalidStateForRelease i s) \<and> l' = l)"
proof (cases "position (has_id i) (tl_entries l)")
  case None
  then have "List.find (has_id i) (tl_entries l) = None" by (simp add: find_None_position)
  with None assms show ?thesis
    by (auto simp: release_stale_reserved_def status_of_def ledger_lookup_def)
next
  case (Some idx)
  then have "ledger_lookup l i = Some (tl_entries l ! idx)" "idx < length (tl_entries l)"
    "has_id i (tl_entries l ! idx)"
    by (auto simp: ledger_lookup_def position_find position_Some)
  with Some assms show ?thesis
    by (auto simp: release_stale_reserved_def Let_def status_of_def has_id_def split: if_splits)
qed

lemma release_status_of:
  assumes "release_stale_reserved i l = (Inr (), l')" and "distinct_ids l"
  shows "status_of l' = (status_of l)(i := None) \<and> status_of l i \<in> {None, Some Reserved}"
proof -
  from release_cases [OF assms(1)] consider
      "status_of l i = None" "l' = l"
    | idx where "status_of l i = Some Reserved" "idx < length (tl_entries l)"
        "le_transition_id (tl_entries l ! idx) = i" "l' = l\<lparr>tl_entries := remove_at idx (tl_entries l)\<rparr>"
    by fastforce
  then show ?thesis
  proof cases
    case 1
    then show ?thesis by (simp add: fun_upd_idem)
  next
    case 2
    have "ledger_lookup l' j = (if j = i then None else ledger_lookup l j)" for j
      using 2 assms(2) remove_at_lookup [of le_transition_id "tl_entries l" idx j]
      by (simp add: ledger_lookup_def has_id_def distinct_ids_def)
    with 2 show ?thesis by (auto simp: status_of_def fun_eq_iff)
  qed
qed

lemma release_path: "release_stale_reserved i l = (r, l') \<Longrightarrow> tl_path l' = tl_path l"
  using release_cases by fastforce

subsection \<open>Pruning\<close>

definition active_rows :: "transition_ledger \<Rightarrow> ledger_entry list" where
  "active_rows l = filter (\<lambda>e. \<not> is_delivered e) (tl_entries l)"

text \<open>Either nothing happens, or the active rows stay and the latest deliveries fill the rest.\<close>

lemma prune_cases:
  obtains (same) "prune_delivered l = l"
      "length (tl_entries l) \<le> MAX_LEDGER_ENTRIES \<or> tl_entries l = active_rows l"
  | (cut) k where "prune_delivered l = l\<lparr>tl_entries := active_rows l @
        take k (sort_key (\<lambda>e. - delivery_time e) (filter is_delivered (tl_entries l)))\<rparr>"
      "k = MAX_LEDGER_ENTRIES - length (active_rows l)"
      "k < length (filter is_delivered (tl_entries l))"
proof -
  let ?d = "filter is_delivered (tl_entries l)"
  let ?k = "MAX_LEDGER_ENTRIES - length (active_rows l)"
  have len: "length (tl_entries l) = length ?d + length (active_rows l)"
    using sum_length_filter_compl [of is_delivered "tl_entries l"] by (simp add: active_rows_def)
  consider "length (tl_entries l) \<le> MAX_LEDGER_ENTRIES"
    | "\<not> length (tl_entries l) \<le> MAX_LEDGER_ENTRIES" "length ?d \<le> ?k"
    | "\<not> length (tl_entries l) \<le> MAX_LEDGER_ENTRIES" "\<not> length ?d \<le> ?k" by blast
  then show thesis
  proof cases
    case 1
    with same show thesis by (simp add: prune_delivered_def)
  next
    case 2
    then have "length ?d = 0" using len by arith
    then have "active_rows l = tl_entries l"
      by (metis (mono_tags, lifting) active_rows_def filter_True filter_empty_conv length_0_conv)
    with 2 same show thesis by (simp add: prune_delivered_def active_rows_def)
  next
    case 3
    with cut show thesis by (simp add: prune_delivered_def active_rows_def Let_def)
  qed
qed

lemma filter_take_none: "\<forall>x\<in>set xs. \<not> P x \<Longrightarrow> filter P (take k xs) = []"
  by (auto simp: filter_empty_conv dest: in_set_takeD)

lemma prune_active_rows: "active_rows (prune_delivered l) = active_rows l"
proof (cases l rule: prune_cases)
  case same
  then show ?thesis by simp
next
  case (cut k)
  then show ?thesis
    by (simp add: active_rows_def filter_take_none)
qed

lemma prune_set: "set (tl_entries (prune_delivered l)) \<subseteq> set (tl_entries l)"
  by (cases l rule: prune_cases) (auto simp: active_rows_def dest!: in_set_takeD)

lemma prune_bound:
  "length (tl_entries (prune_delivered l)) \<le> max MAX_LEDGER_ENTRIES (length (active_rows l))"
proof (cases l rule: prune_cases)
  case same
  then show ?thesis by (metis max.coboundedI1 max.coboundedI2 order_refl)
next
  case (cut k)
  then show ?thesis by simp
qed

lemma prune_path [simp]: "tl_path (prune_delivered l) = tl_path l"
  by (cases l rule: prune_cases) auto

text \<open>What pruning drops was delivered no later than any delivery it keeps.\<close>

lemma prune_keeps_latest:
  assumes "e \<in> set (tl_entries l)" and "e \<notin> set (tl_entries (prune_delivered l))"
    and "d \<in> set (tl_entries (prune_delivered l))" and "is_delivered d"
  shows "is_delivered e \<and> delivery_time e \<le> delivery_time d"
proof (cases l rule: prune_cases)
  case same
  with assms show ?thesis by simp
next
  case (cut k)
  let ?s = "sort_key (\<lambda>e. - delivery_time e) (filter is_delivered (tl_entries l))"
  have e: "is_delivered e" using assms(1,2) cut by (auto simp: active_rows_def)
  have "e \<in> set ?s" using e assms(1) by simp
  then have "e \<in> set (take k ?s) \<or> e \<in> set (drop k ?s)"
    by (metis append_take_drop_id Un_iff set_append)
  then have "e \<in> set (drop k ?s)"
    using assms(2) cut(1) by simp
  moreover have "d \<in> set (take k ?s)"
    using assms(3,4) cut(1) by (auto simp: active_rows_def)
  moreover have "sorted (map (\<lambda>e. - delivery_time e) (take k ?s) @ map (\<lambda>e. - delivery_time e) (drop k ?s))"
    by (metis append_take_drop_id map_append sorted_sort_key)
  ultimately have "- delivery_time d \<le> - delivery_time e"
    by (auto simp: sorted_append)
  with e show ?thesis by simp
qed

lemma mset_partition: "mset (filter (\<lambda>x. \<not> P x) xs @ filter P xs) = mset xs"
  by (induction xs) auto

lemma prune_distinct_ids: "distinct_ids l \<Longrightarrow> distinct_ids (prune_delivered l)"
proof (cases l rule: prune_cases)
  case same
  then show "distinct_ids l \<Longrightarrow> distinct_ids (prune_delivered l)" by simp
next
  case (cut k)
  let ?s = "sort_key (\<lambda>e. - delivery_time e) (filter is_delivered (tl_entries l))"
  assume "distinct_ids l"
  have "mset (active_rows l @ ?s) = mset (tl_entries l)"
    using mset_partition [of is_delivered "tl_entries l"] by (simp add: active_rows_def)
  then have "mset (map le_transition_id (active_rows l @ ?s)) = mset (map le_transition_id (tl_entries l))"
    by (metis mset_map)
  with \<open>distinct_ids l\<close> have "distinct (map le_transition_id (active_rows l @ ?s))"
    unfolding distinct_ids_def by (metis mset_eq_imp_distinct_iff)
  then have "distinct (map le_transition_id (active_rows l) @ take k (map le_transition_id ?s))"
    by (metis append_take_drop_id append_assoc distinct_append map_append)
  with cut show ?thesis by (simp add: distinct_ids_def take_map)
qed

lemma prune_status_of:
  assumes "distinct_ids l"
  shows "status_of (prune_delivered l) i = status_of l i
       \<or> status_of l i = Some Delivered \<and> status_of (prune_delivered l) i = None"
proof (cases "ledger_lookup (prune_delivered l) i")
  case (Some e)
  then have "e \<in> set (tl_entries l)" "le_transition_id e = i"
    using lookup_Some prune_set by fastforce+
  then have "ledger_lookup l i = Some e" using lookup_in assms by blast
  with Some show ?thesis by (simp add: status_of_def)
next
  case None
  show ?thesis
  proof (cases "ledger_lookup l i")
    case (Some e)
    then have e: "e \<in> set (tl_entries l)" "le_transition_id e = i" using lookup_Some by auto
    have "is_delivered e"
    proof (rule ccontr)
      assume "\<not> is_delivered e"
      then have "e \<in> set (active_rows (prune_delivered l))"
        using e by (simp add: prune_active_rows) (simp add: active_rows_def)
      then have "e \<in> set (tl_entries (prune_delivered l))" by (simp add: active_rows_def)
      with None e(2) show False by (auto simp: lookup_None)
    qed
    with None Some show ?thesis by (simp add: status_of_def is_delivered_def)
  next
    case N: None
    with None show ?thesis by (simp add: status_of_def)
  qed
qed

subsection \<open>Delivering\<close>

lemma mark_delivered_cases:
  assumes "mark_delivered i m l w = (r, l', w')"
  shows "(\<exists>x. r = Inl x \<and> l' = l \<and> w' = w)
       \<or> (r = Inr () \<and> (\<exists>l1 now. transition_status_to i Delivered l = (Inr (), l1) \<and> utc_now w = (now, w')
            \<and> l' = prune_delivered (l1\<lparr>tl_entries := update_first (has_id i)
                 (\<lambda>e. e\<lparr>le_openab_message_id := m, le_delivered_at := Some now\<rparr>) (tl_entries l1)\<rparr>)))"
  using assms by (auto simp: mark_delivered_def Let_def dest: transition_status_to_Inl
      split: prod.splits sum.splits)

lemma mark_delivered_frame:
  "mark_delivered i m l w = (r, l', w') \<Longrightarrow>
     tl_path l' = tl_path l \<and> files w' = files w \<and> dirs w' = dirs w \<and> resolve w' = resolve w
     \<and> faults w' = faults w \<and> clock w' = clock w \<and> sent w' = sent w"
  by (drule mark_delivered_cases)
     (auto simp: utc_now_def dest!: transition_status_to_ids)

lemma mark_delivered_status_of:
  assumes "mark_delivered i m l w = (Inr (), l', w')" and "distinct_ids l"
  shows "status_of l i = Some Pending \<and> distinct_ids l'
     \<and> (\<forall>j. status_of l' j = ((status_of l)(i \<mapsto> Delivered)) j
          \<or> ((status_of l)(i \<mapsto> Delivered)) j = Some Delivered \<and> status_of l' j = None)"
proof -
  from mark_delivered_cases [OF assms(1)] obtain l1 now where
    1: "transition_status_to i Delivered l = (Inr (), l1)" and
    l': "l' = prune_delivered (l1\<lparr>tl_entries := update_first (has_id i)
           (\<lambda>e. e\<lparr>le_openab_message_id := m, le_delivered_at := Some now\<rparr>) (tl_entries l1)\<rparr>)"
    by blast
  let ?l2 = "l1\<lparr>tl_entries := update_first (has_id i)
           (\<lambda>e. e\<lparr>le_openab_message_id := m, le_delivered_at := Some now\<rparr>) (tl_entries l1)\<rparr>"
  have "map le_transition_id (tl_entries ?l2) = map le_transition_id (tl_entries l)"
    using transition_status_to_ids [OF 1] by (simp add: map_update_first)
  then have d2: "distinct_ids ?l2" using assms(2) by (simp add: distinct_ids_def)
  have "status_of ?l2 j = status_of l1 j" for j
    by (cases "j = i")
      (simp_all add: status_of_def find_update ledger_lookup_def option.map_comp comp_def)
  then have s2: "status_of ?l2 = (status_of l)(i \<mapsto> Delivered)"
    using transition_status_to_status_of [OF 1] by (auto simp: fun_eq_iff)
  have "s = Pending" if "legal_status_change s Delivered" for s
    using that by (cases s) auto
  then have "status_of l i = Some Pending" using transition_status_to_status_of [OF 1] by auto
  then show ?thesis
    using prune_status_of [OF d2] prune_distinct_ids [OF d2] s2 l' by auto
qed

text \<open>A pending row can always be delivered.\<close>

lemma mark_delivered_succeeds:
  "status_of l i = Some Pending \<Longrightarrow> \<exists>l' w'. mark_delivered i m l w = (Inr (), l', w')"
  by (auto simp: mark_delivered_def transition_status_to_def status_of_def utc_now_def Let_def
      split: option.splits)

lemma mark_pending_succeeds:
  "status_of l i = Some Reserved \<Longrightarrow> \<exists>l'. mark_pending i t l = (Inr (), l')"
  by (auto simp: mark_pending_def transition_status_to_def status_of_def split: option.splits)

lemma reserve_distinct_ids:
  assumes "ledger_reserve sha wid n s r c l w = (res, l', w')" and "distinct_ids l"
  shows "distinct_ids l'"
  using reserve_cases [OF assms(1)] assms(2)
  by (auto simp: distinct_ids_def status_of_None)

lemma release_distinct_ids:
  assumes "release_stale_reserved i l = (r, l')" and "distinct_ids l"
  shows "distinct_ids l'"
  using release_cases [OF assms(1)] assms(2)
  by (auto simp: distinct_ids_def map_remove_at distinct_remove_at)

lemma ids_distinct_ids:
  "map le_transition_id (tl_entries l') = map le_transition_id (tl_entries l) \<Longrightarrow>
     distinct_ids l' = distinct_ids l"
  by (simp add: distinct_ids_def)

subsection \<open>Load and save\<close>

lemma ledger_load_frame [frame]:
  "ledger_load codec root w = (r, w') \<Longrightarrow>
     files w' = files w \<and> dirs w' = dirs w \<and> resolve w' = resolve w \<and> clock w' = clock w
     \<and> ticks w' = ticks w \<and> sent w' = sent w"
  by (auto simp: ledger_load_def Let_def
      dest!: canonicalize_root_frame path_exists_frame read_to_string_frame
      split: prod.splits sum.splits if_splits bool.splits)

lemma ledger_load_path:
  "ledger_load codec root w = (Inr l, w') \<Longrightarrow> tl_path l = ledger_file (resolve w root)"
  by (auto simp: ledger_load_def Let_def dest!: canonicalize_root_resolves
      split: prod.splits sum.splits bool.splits)

lemma ledger_save_frame:
  "ledger_save_atomic codec l w = (r, w') \<Longrightarrow>
     resolve w' = resolve w \<and> clock w' = clock w \<and> ticks w' = ticks w \<and> sent w' = sent w
     \<and> (\<forall>d. dirs w d \<longrightarrow> dirs w' d)
     \<and> (\<forall>q. q \<noteq> tl_path l \<longrightarrow> q \<noteq> json_tmp (tl_path l) \<longrightarrow> files w' q = files w q)"
  by (auto simp: ledger_save_atomic_def
      dest!: create_dir_all_frame write_atomic_effect
      split: prod.splits sum.splits)

lemma ledger_save_files:
  assumes "ledger_save_atomic codec l w = (r, w')"
  shows "(\<forall>p. r = Inr p \<longrightarrow> p = tl_path l \<and>
            (\<exists>d. files w' p = Some d \<and> to_json codec (tl_entries l) = Inr d))
     \<and> (\<forall>e. r = Inl e \<longrightarrow> files w' (tl_path l) = files w (tl_path l))"
proof -
  obtain rd w1 where d: "create_dir_all (path_parent (tl_path l)) w = (rd, w1)" by fastforce
  note df = create_dir_all_frame [OF d]
  show ?thesis
  proof (cases "to_json codec (tl_entries l)")
    case (Inl e)
    with assms d df show ?thesis by (auto simp: ledger_save_atomic_def split: sum.splits)
  next
    case (Inr data)
    obtain rw w2 where wr: "write_atomic (tl_path l) data w1 = (rw, w2)" by fastforce
    note wf = write_atomic_files [OF wr]
    from assms d df Inr wr wf show ?thesis
      by (auto simp: ledger_save_atomic_def split: sum.splits)
  qed
qed

text \<open>The ledger file and the assignment file are different files, and so are their siblings.\<close>

lemma path_join_inject [simp]: "path_join p a = path_join p b \<longleftrightarrow> a = b"
  by (simp add: path_join_def)

lemma ledger_assignment_files [simp]:
  "ledger_file c \<noteq> assignment_file c" "assignment_file c \<noteq> ledger_file c"
  by (simp_all add: ledger_file_def assignment_file_def LEDGER_FILENAME_def ASSIGNMENT_FILENAME_def)

lemma json_tmp_inject [simp]: "json_tmp p = json_tmp q \<longleftrightarrow> p = q"
  by (simp add: json_tmp_def)

lemma json_tmp_path_join: "json_tmp (path_join p q) = path_join p (json_tmp q)"
  by (simp add: json_tmp_def path_join_def)

lemma ledger_assignment_tmp [simp]:
  "ledger_file c \<noteq> json_tmp (assignment_file c)" "assignment_file c \<noteq> json_tmp (ledger_file c)"
  "json_tmp (assignment_file c) \<noteq> ledger_file c" "json_tmp (ledger_file c) \<noteq> assignment_file c"
  by (simp_all add: ledger_file_def assignment_file_def json_tmp_path_join LEDGER_FILENAME_def
      ASSIGNMENT_FILENAME_def) (simp_all add: json_tmp_def)

end
