(* ===== verification/Workflow_Completion.thy ===== *)
theory Workflow_Completion
  imports Workflow_State
begin

section \<open>Completion claims\<close>

text \<open>
  \<^verbatim>\<open>workflow/completion.rs\<close>: the parser of the untrusted \<^verbatim>\<open><role_completion>\<close>
  block. The \<^verbatim>\<open>HashMap\<close> of fields is an association list in insertion order (the parser
  rejects a second insertion of a key, so no key occurs twice); where the source iterates
  over the map's keys, the order is the hash order, an argument \<open>ord\<close> that permutes a
  list of keys. \<open>ulow\<close> is the Unicode lower-case mapping outside ASCII.
\<close>

definition OPENING_MARKER :: string where "OPENING_MARKER = ''<role_completion>''"

definition CLOSING_MARKER :: string where "CLOSING_MARKER = ''</role_completion>''"

definition REQUIRED_FIELDS :: "string list" where
  "REQUIRED_FIELDS = [''role'', ''result'', ''workflow_id'', ''project_id'', ''project_root'']"

definition OPTIONAL_FIELDS :: "string list" where
  "OPTIONAL_FIELDS = [''scope'', ''timestamp'']"

definition FORBIDDEN_FIELDS :: "string list" where
  "FORBIDDEN_FIELDS = [''workflow_revision'', ''transition_id'', ''next_role'', ''next_stage'', ''target_user_id'']"

definition block_captures :: "string \<Rightarrow> string list" where
  "block_captures text = captures OPENING_MARKER CLOSING_MARKER text"

record parsed_claim =
  pc_role :: workflow_role
  pc_result :: completion_result
  pc_workflow_id :: string
  pc_project_id :: string
  pc_project_root :: string
  pc_scope :: "string option"
  pc_timestamp :: "string option"

datatype parse_outcome =
    NoClaim
  | ParsedClaim parsed_claim
  | AmbiguousMultipleClaims
  | MalformedBlock message

fun parse_lines ::
  "(string \<Rightarrow> string) \<Rightarrow> string list \<Rightarrow> (string \<times> string) list \<Rightarrow> message + (string \<times> string) list" where
  "parse_lines ulow [] kvs = Inr kvs"
| "parse_lines ulow (raw_line # rest) kvs =
     (let line = trim raw_line
      in if line = [] then parse_lines ulow rest kvs
         else case split_once (CHR '':'') line of
                None \<Rightarrow> Inl [Lit ''invalid line '', Dbg line]
              | Some (k, v) \<Rightarrow>
                  (let key = to_lowercase ulow (trim k); value = trim v
                   in if key = [] then Inl [Lit ''empty key in line '', Dbg raw_line]
                      else if map_of kvs key \<noteq> None then Inl [Lit ''duplicate key '', Dbg key]
                      else parse_lines ulow rest (kvs @ [(key, value)])))"

definition parse_block_fields ::
  "(string \<Rightarrow> string) \<Rightarrow> string \<Rightarrow> message + (string \<times> string) list" where
  "parse_block_fields ulow body = parse_lines ulow (str_lines body) []"

fun check_required :: "string list \<Rightarrow> (string \<times> string) list \<Rightarrow> message option" where
  "check_required [] kvs = None"
| "check_required (f # fs) kvs =
     (case map_of kvs f of
        Some v \<Rightarrow>
          if v \<noteq> [] then check_required fs kvs
          else Some [Lit ''required field '', Dbg f, Lit '' is empty'']
      | None \<Rightarrow> Some [Lit ''missing required field '', Dbg f])"

definition field_or_empty :: "(string \<times> string) list \<Rightarrow> string \<Rightarrow> string" where
  "field_or_empty kvs f = (case map_of kvs f of Some v \<Rightarrow> v | None \<Rightarrow> [])"

text \<open>
  The \<^verbatim>\<open>unwrap\<close> calls after the required-field loop cannot fail; \<^const>\<open>field_or_empty\<close>
  stands for them.
\<close>

definition parse_single_block ::
  "(string \<Rightarrow> string) \<Rightarrow> (string list \<Rightarrow> string list) \<Rightarrow> string \<Rightarrow> parse_outcome" where
  "parse_single_block ulow ord body =
     (case parse_block_fields ulow body of
        Inl reason \<Rightarrow> MalformedBlock reason
      | Inr kvs \<Rightarrow>
          (case List.find (\<lambda>f. map_of kvs f \<noteq> None) FORBIDDEN_FIELDS of
             Some f \<Rightarrow> MalformedBlock [Lit ''forbidden field '', Dbg f]
           | None \<Rightarrow>
               (case check_required REQUIRED_FIELDS kvs of
                  Some reason \<Rightarrow> MalformedBlock reason
                | None \<Rightarrow>
                    (case List.find (\<lambda>k. k \<notin> set REQUIRED_FIELDS \<and> k \<notin> set OPTIONAL_FIELDS)
                            (ord (map fst kvs)) of
                       Some k \<Rightarrow> MalformedBlock [Lit ''unknown field '', Dbg k]
                     | None \<Rightarrow>
                         (case role_from_canonical (field_or_empty kvs ''role'') of
                            None \<Rightarrow> MalformedBlock [Lit ''invalid role '', Dbg (field_or_empty kvs ''role'')]
                          | Some role \<Rightarrow>
                              (case result_from_canonical (field_or_empty kvs ''result'') of
                                 None \<Rightarrow> MalformedBlock [Lit ''invalid result '', Dbg (field_or_empty kvs ''result'')]
                               | Some res \<Rightarrow>
                                   ParsedClaim
                                     \<lparr>pc_role = role, pc_result = res,
                                      pc_workflow_id = field_or_empty kvs ''workflow_id'',
                                      pc_project_id = field_or_empty kvs ''project_id'',
                                      pc_project_root = field_or_empty kvs ''project_root'',
                                      pc_scope = map_of kvs ''scope'',
                                      pc_timestamp = map_of kvs ''timestamp''\<rparr>))))))"

definition parse_role_completion ::
  "(string \<Rightarrow> string) \<Rightarrow> (string list \<Rightarrow> string list) \<Rightarrow> string \<Rightarrow> parse_outcome" where
  "parse_role_completion ulow ord text =
     (case block_captures text of
        [] \<Rightarrow> NoClaim
      | [body] \<Rightarrow> parse_single_block ulow ord body
      | _ \<Rightarrow> AmbiguousMultipleClaims)"

subsection \<open>What an accepted block looks like\<close>

text \<open>The hash order is some order of the same keys.\<close>

definition key_order :: "(string list \<Rightarrow> string list) \<Rightarrow> bool" where
  "key_order ord \<longleftrightarrow> (\<forall>ks. set (ord ks) = set ks)"

lemma check_required_None:
  "check_required fs kvs = None \<longleftrightarrow> (\<forall>f\<in>set fs. \<exists>v. map_of kvs f = Some v \<and> v \<noteq> [])"
  by (induction fs) (auto split: option.splits if_splits)

lemma parse_lines_distinct:
  "parse_lines ulow ls kvs = Inr kvs' \<Longrightarrow> distinct (map fst kvs) \<Longrightarrow> distinct (map fst kvs')"
  by (induction ulow ls kvs rule: parse_lines.induct)
     (auto simp: Let_def map_of_eq_None_iff split: if_splits option.splits prod.splits)

text \<open>The fields a block may have for the parser to accept it.\<close>

definition accepted_fields :: "(string \<times> string) list \<Rightarrow> bool" where
  "accepted_fields kvs \<longleftrightarrow>
     fst ` set kvs \<subseteq> set REQUIRED_FIELDS \<union> set OPTIONAL_FIELDS
     \<and> (\<forall>f\<in>set REQUIRED_FIELDS. \<exists>v. map_of kvs f = Some v \<and> v \<noteq> [])
     \<and> role_from_canonical (field_or_empty kvs ''role'') \<noteq> None
     \<and> result_from_canonical (field_or_empty kvs ''result'') \<noteq> None"

lemma forbidden_disjoint: "set FORBIDDEN_FIELDS \<inter> (set REQUIRED_FIELDS \<union> set OPTIONAL_FIELDS) = {}"
  by (simp add: FORBIDDEN_FIELDS_def REQUIRED_FIELDS_def OPTIONAL_FIELDS_def)

definition claim_of_fields :: "(string \<times> string) list \<Rightarrow> parsed_claim \<Rightarrow> bool" where
  "claim_of_fields kvs c \<longleftrightarrow>
     accepted_fields kvs
     \<and> role_from_canonical (field_or_empty kvs ''role'') = Some (pc_role c)
     \<and> result_from_canonical (field_or_empty kvs ''result'') = Some (pc_result c)
     \<and> pc_workflow_id c = field_or_empty kvs ''workflow_id''
     \<and> pc_project_id c = field_or_empty kvs ''project_id''
     \<and> pc_project_root c = field_or_empty kvs ''project_root''
     \<and> pc_scope c = map_of kvs ''scope'' \<and> pc_timestamp c = map_of kvs ''timestamp''"

lemma parse_single_block_sound:
  assumes "key_order ord" and "parse_single_block ulow ord body = ParsedClaim c"
  shows "\<exists>kvs. parse_block_fields ulow body = Inr kvs \<and> claim_of_fields kvs c"
proof -
  from assms(2) obtain kvs where f: "parse_block_fields ulow body = Inr kvs"
    by (auto simp: parse_single_block_def split: sum.splits)
  have "List.find (\<lambda>k. k \<notin> set REQUIRED_FIELDS \<and> k \<notin> set OPTIONAL_FIELDS) (ord (map fst kvs)) = None"
    using assms(2) f by (auto simp: parse_single_block_def split: option.splits)
  then have "fst ` set kvs \<subseteq> set REQUIRED_FIELDS \<union> set OPTIONAL_FIELDS"
    using assms(1) by (auto simp: find_None_iff key_order_def)
  moreover have "check_required REQUIRED_FIELDS kvs = None"
    using assms(2) f by (auto simp: parse_single_block_def split: option.splits)
  ultimately have "claim_of_fields kvs c"
    using assms(2) f
    by (simp add: parse_single_block_def claim_of_fields_def accepted_fields_def check_required_None
        split: option.splits) auto
  with f show ?thesis by blast
qed

lemma parse_single_block_complete:
  assumes "key_order ord" and "parse_block_fields ulow body = Inr kvs" and "claim_of_fields kvs c"
  shows "parse_single_block ulow ord body = ParsedClaim c"
proof -
  have acc: "accepted_fields kvs" using assms(3) by (simp add: claim_of_fields_def)
  have "List.find (\<lambda>f. map_of kvs f \<noteq> None) FORBIDDEN_FIELDS = None"
  proof (rule ccontr)
    assume "List.find (\<lambda>f. map_of kvs f \<noteq> None) FORBIDDEN_FIELDS \<noteq> None"
    then obtain f where "f \<in> set FORBIDDEN_FIELDS" "map_of kvs f \<noteq> None"
      using find_Some_in by fastforce
    then have "f \<in> fst ` set kvs" by (metis map_of_eq_None_iff)
    then have "f \<in> set REQUIRED_FIELDS \<union> set OPTIONAL_FIELDS" using acc by (auto simp: accepted_fields_def)
    with \<open>f \<in> set FORBIDDEN_FIELDS\<close> forbidden_disjoint show False by blast
  qed
  moreover have "List.find (\<lambda>k. k \<notin> set REQUIRED_FIELDS \<and> k \<notin> set OPTIONAL_FIELDS) (ord (map fst kvs)) = None"
    using acc assms(1) by (auto simp: find_None_iff key_order_def accepted_fields_def)
  moreover have "check_required REQUIRED_FIELDS kvs = None"
    using acc by (simp add: check_required_None accepted_fields_def)
  ultimately show ?thesis
    using assms(2,3) by (simp add: parse_single_block_def claim_of_fields_def)
qed

lemma parse_claim_single: "parse_role_completion ulow ord text = ParsedClaim c \<Longrightarrow>
    \<exists>body. block_captures text = [body] \<and> parse_single_block ulow ord body = ParsedClaim c"
  by (auto simp: parse_role_completion_def split: list.splits)

lemma no_marker_no_claim:
  "split_at OPENING_MARKER text = None \<Longrightarrow> parse_role_completion ulow ord text = NoClaim"
  by (simp add: parse_role_completion_def block_captures_def captures.simps)

end
