(* ===== verification/Workflow_Validator.thy ===== *)
theory Workflow_Validator
  imports Workflow_Ledger Workflow_Completion
begin

section \<open>The trusted validator\<close>

text \<open>
  \<^verbatim>\<open>workflow/validator.rs\<close>: the ordered checks that turn an untrusted claim and the
  trusted assignment into one of five outcomes. Check 4 canonicalizes the claimed root, so
  the function takes the world and returns it.
\<close>

datatype replay_state = RNew | RAlreadyDelivered | RInFlight | RFailedPreviously

fun replay_from_status :: "transition_status option \<Rightarrow> replay_state" where
  "replay_from_status None = RNew"
| "replay_from_status (Some Delivered) = RAlreadyDelivered"
| "replay_from_status (Some Reserved) = RInFlight"
| "replay_from_status (Some Pending) = RInFlight"
| "replay_from_status (Some Failed) = RFailedPreviously"

datatype reject_reason =
    WorkflowIdMismatch
  | ProjectIdMismatch
  | ProjectRootMismatch
  | TerminalState
  | RoleMismatch
  | IllegalTransition
  | DefectLoopExhausted

fun reject_reason_str :: "reject_reason \<Rightarrow> string" where
  "reject_reason_str WorkflowIdMismatch = ''WORKFLOW_ID_MISMATCH''"
| "reject_reason_str ProjectIdMismatch = ''PROJECT_ID_MISMATCH''"
| "reject_reason_str ProjectRootMismatch = ''PROJECT_ROOT_MISMATCH''"
| "reject_reason_str TerminalState = ''TERMINAL_STATE''"
| "reject_reason_str RoleMismatch = ''ROLE_MISMATCH''"
| "reject_reason_str IllegalTransition = ''ILLEGAL_TRANSITION''"
| "reject_reason_str DefectLoopExhausted = ''DEFECT_LOOP_EXHAUSTED''"

datatype validation_outcome =
    VAccepted (va_current_stage: workflow_stage) (va_claimed_role: workflow_role)
      (va_claimed_result: completion_result) (va_next_stage: workflow_stage)
      (va_transition_id: string) (va_new_revision: u64)
  | VRejected reject_reason message
  | VAlreadyDelivered string
  | VInFlight string
  | VFailedPreviously string

fun outcome_is_accepted :: "validation_outcome \<Rightarrow> bool" where
  "outcome_is_accepted (VAccepted _ _ _ _ _ _) = True"
| "outcome_is_accepted _ = False"

fun outcome_is_rejected :: "validation_outcome \<Rightarrow> bool" where
  "outcome_is_rejected (VRejected _ _) = True"
| "outcome_is_rejected _ = False"

fun outcome_is_replay :: "validation_outcome \<Rightarrow> bool" where
  "outcome_is_replay (VAlreadyDelivered _) = True"
| "outcome_is_replay (VInFlight _) = True"
| "outcome_is_replay (VFailedPreviously _) = True"
| "outcome_is_replay _ = False"

fun outcome_transition_id :: "validation_outcome \<Rightarrow> string option" where
  "outcome_transition_id (VAccepted _ _ _ _ i _) = Some i"
| "outcome_transition_id (VAlreadyDelivered i) = Some i"
| "outcome_transition_id (VInFlight i) = Some i"
| "outcome_transition_id (VFailedPreviously i) = Some i"
| "outcome_transition_id (VRejected _ _) = None"

definition canonical_root_or_original :: "string \<Rightarrow> world \<Rightarrow> string \<times> world" where
  "canonical_root_or_original p w =
     (case canonicalize p w of (Inl _, w1) \<Rightarrow> (p, w1) | (Inr c, w1) \<Rightarrow> (c, w1))"

text \<open>Check 8b: the stage the transition is routed to.\<close>

definition effective_next_stage :: "workflow_assignment \<Rightarrow> workflow_stage \<Rightarrow> workflow_stage" where
  "effective_next_stage a next_stage =
     (if next_stage = PrimaryCorrectionPending \<and> SUPPORTED_DEFECT_LOOP_MAX \<le> wa_defect_loop_count a
      then Blocked else next_stage)"

text \<open>Checks 5 to 10, which do not touch the host.\<close>

definition validate_stage ::
  "(string \<Rightarrow> string) \<Rightarrow> parsed_claim \<Rightarrow> workflow_assignment \<Rightarrow> replay_state \<Rightarrow> validation_outcome" where
  "validate_stage sha c a replay =
     (if is_terminal (wa_state a)
      then VRejected TerminalState [Lit ''state='', Disp (stage_str (wa_state a))]
      else case expected_role_for_stage (wa_state a) of
             None \<Rightarrow> VRejected IllegalTransition
                       [Lit ''no expected role for stage '', Disp (stage_str (wa_state a))]
           | Some expected_role \<Rightarrow>
               if pc_role c \<noteq> expected_role
               then VRejected RoleMismatch
                      [Lit ''stage='', Disp (stage_str (wa_state a)), Lit '' expected='',
                       Disp (role_str expected_role), Lit '' claimed='', Disp (role_str (pc_role c))]
               else case legal_next_stage (wa_state a) (pc_role c) (pc_result c) of
                      None \<Rightarrow> VRejected IllegalTransition
                                [Lit ''no legal transition for stage='', Disp (stage_str (wa_state a)),
                                 Lit '' role='', Disp (role_str (pc_role c)),
                                 Lit '' result='', Disp (result_str (pc_result c))]
                    | Some next_stage \<Rightarrow>
                        (let tid = derive_transition_id sha (wa_workflow_id a)
                               (wa_workflow_revision a) (wa_state a) (pc_role c) (pc_result c)
                         in case replay of
                              RAlreadyDelivered \<Rightarrow> VAlreadyDelivered tid
                            | RInFlight \<Rightarrow> VInFlight tid
                            | RFailedPreviously \<Rightarrow> VFailedPreviously tid
                            | RNew \<Rightarrow> VAccepted (wa_state a) (pc_role c) (pc_result c)
                                        (effective_next_stage a next_stage) tid
                                        (wa_workflow_revision a + 1)))"

definition validate ::
  "(string \<Rightarrow> string) \<Rightarrow> parsed_claim \<Rightarrow> workflow_assignment \<Rightarrow> replay_state \<Rightarrow> world
     \<Rightarrow> validation_outcome \<times> world" where
  "validate sha c a replay w =
     (if pc_workflow_id c \<noteq> wa_workflow_id a
      then (VRejected WorkflowIdMismatch
              [Lit ''claim='', Dbg (pc_workflow_id c), Lit '' assignment='', Dbg (wa_workflow_id a)], w)
      else if pc_project_id c \<noteq> wa_project_id a
      then (VRejected ProjectIdMismatch
              [Lit ''claim='', Dbg (pc_project_id c), Lit '' assignment='', Dbg (wa_project_id a)], w)
      else case canonical_root_or_original (pc_project_root c) w of
             (claim_canonical, w1) \<Rightarrow>
               if \<not> path_eq claim_canonical (wa_project_root a)
               then (VRejected ProjectRootMismatch
                       [Lit ''claim='', Dbg (pc_project_root c), Lit '' (canonical='', Dbg claim_canonical,
                        Lit '') assignment='', Dbg (wa_project_root a)], w1)
               else (validate_stage sha c a replay, w1))"

subsection \<open>When a claim is accepted\<close>

lemma canonical_root_or_original_frame [frame]:
  "canonical_root_or_original p w = (r, w') \<Longrightarrow>
     files w' = files w \<and> dirs w' = dirs w \<and> resolve w' = resolve w \<and> clock w' = clock w
     \<and> ticks w' = ticks w \<and> sent w' = sent w"
  by (auto simp: canonical_root_or_original_def dest!: canonicalize_frame
      split: prod.splits sum.splits)

lemma validate_frame [frame]:
  "validate sha c a replay w = (r, w') \<Longrightarrow>
     files w' = files w \<and> dirs w' = dirs w \<and> resolve w' = resolve w \<and> clock w' = clock w
     \<and> ticks w' = ticks w \<and> sent w' = sent w"
  by (auto simp: validate_def dest!: canonical_root_or_original_frame split: prod.splits if_splits)

lemma validate_stage_accepted:
  "validate_stage sha c a replay = VAccepted s r x t i n \<longleftrightarrow>
     replay = RNew \<and> s = wa_state a \<and> r = pc_role c \<and> x = pc_result c
     \<and> (\<exists>u. legal_next_stage (wa_state a) (pc_role c) (pc_result c) = Some u
           \<and> t = effective_next_stage a u)
     \<and> i = derive_transition_id sha (wa_workflow_id a) (wa_workflow_revision a) (wa_state a)
             (pc_role c) (pc_result c)
     \<and> n = wa_workflow_revision a + 1"
  by (auto simp: validate_stage_def Let_def legal_next_terminal dest: legal_next_role
      split: option.splits replay_state.splits if_splits)

lemma validate_accepted:
  assumes "validate sha c a replay w = (VAccepted s r x t i n, w')"
  shows "pc_workflow_id c = wa_workflow_id a \<and> pc_project_id c = wa_project_id a
     \<and> path_eq (fst (canonical_root_or_original (pc_project_root c) w)) (wa_project_root a)
     \<and> validate_stage sha c a replay = VAccepted s r x t i n"
  using assms by (auto simp: validate_def split: prod.splits if_splits)

lemma validate_accepts:
  assumes "pc_workflow_id c = wa_workflow_id a" "pc_project_id c = wa_project_id a"
    "path_eq (fst (canonical_root_or_original (pc_project_root c) w)) (wa_project_root a)"
  shows "fst (validate sha c a replay w) = validate_stage sha c a replay"
  using assms by (auto simp: validate_def split: prod.splits)

text \<open>Whatever the host does, no reject carries the reason of check 8b.\<close>

lemma validate_never_exhausted: "fst (validate sha c a replay w) \<noteq> VRejected DefectLoopExhausted m"
  by (auto simp: validate_def validate_stage_def Let_def
      split: prod.splits option.splits replay_state.splits)

lemma effective_next_stage_cases:
  "effective_next_stage a t = t \<or> t = PrimaryCorrectionPending \<and> effective_next_stage a t = Blocked
     \<and> 1 \<le> wa_defect_loop_count a"
  by (simp add: effective_next_stage_def SUPPORTED_DEFECT_LOOP_MAX_def)

end
