(* ===== verification/Workflow_Identity.thy ===== *)
theory Workflow_Identity
  imports Workflow_Assignment
begin

section \<open>Agent identities\<close>

text \<open>
  \<^verbatim>\<open>workflow/identity.rs\<close>: the three logical names, the process environment that names
  this daemon (read once and cached), and the role an assignment gives an identity.
\<close>

datatype agent_identity = ArthurClaude | ArthurCodex | ArthurGemini

datatype identity_error =
    EnvUnset
  | EmptyAgentName
  | UnknownIdentity string
  | AssignmentMismatch string

record role_resolution =
  rr_role :: workflow_role
  rr_unavailable :: bool

fun identity_str :: "agent_identity \<Rightarrow> string" where
  "identity_str ArthurClaude = ''ArthurClaude''"
| "identity_str ArthurCodex = ''ArthurCodex''"
| "identity_str ArthurGemini = ''ArthurGemini''"

definition from_str_strict :: "string \<Rightarrow> identity_error + agent_identity" where
  "from_str_strict s =
     (if s = ''ArthurClaude'' then Inr ArthurClaude
      else if s = ''ArthurCodex'' then Inr ArthurCodex
      else if s = ''ArthurGemini'' then Inr ArthurGemini
      else Inl (UnknownIdentity s))"

fun default_role :: "agent_identity \<Rightarrow> workflow_role" where
  "default_role ArthurClaude = Primary"
| "default_role ArthurCodex = Verifier"
| "default_role ArthurGemini = FinalReviewer"

fun identity_error_msg :: "identity_error \<Rightarrow> message" where
  "identity_error_msg EnvUnset = [Lit ''ARTHUR_AGENT_NAME is unset'']"
| "identity_error_msg EmptyAgentName = [Lit ''ARTHUR_AGENT_NAME is empty'']"
| "identity_error_msg (UnknownIdentity n) = [Lit ''unknown logical identity '', Dbg n]"
| "identity_error_msg (AssignmentMismatch i) =
     [Lit ''logical identity '', Dbg i, Lit '' is not bound to any role in the workflow assignment'']"

text \<open>The value of \<^verbatim>\<open>ARTHUR_AGENT_NAME\<close>, absent when unset or not Unicode.\<close>

definition read_env :: "string option \<Rightarrow> identity_error + agent_identity" where
  "read_env var =
     (case var of
        None \<Rightarrow> Inl EnvUnset
      | Some name \<Rightarrow> if name = [] then Inl EmptyAgentName else from_str_strict name)"

text \<open>The \<^verbatim>\<open>OnceLock\<close> cache: the first answer of the process is every later answer.\<close>

type_synonym identity_cache = "(identity_error + agent_identity) option"

definition current_agent_identity_from_env ::
  "string option \<Rightarrow> identity_cache \<Rightarrow> (identity_error + agent_identity) \<times> identity_cache" where
  "current_agent_identity_from_env var cache =
     (case cache of
        Some cached \<Rightarrow> (cached, cache)
      | None \<Rightarrow> (let fresh = read_env var in (fresh, Some fresh)))"

definition resolve_role_from_assignment ::
  "agent_identity \<Rightarrow> workflow_assignment \<Rightarrow> identity_error + role_resolution" where
  "resolve_role_from_assignment identity a =
     (let name = identity_str identity;
          unavailable = (name \<in> set (wa_unavailable_agents a))
      in if wa_primary a = name then Inr \<lparr>rr_role = Primary, rr_unavailable = unavailable\<rparr>
         else if wa_verifier a = name then Inr \<lparr>rr_role = Verifier, rr_unavailable = unavailable\<rparr>
         else if wa_final_reviewer a = name then Inr \<lparr>rr_role = FinalReviewer, rr_unavailable = unavailable\<rparr>
         else Inl (AssignmentMismatch name))"

lemma identity_roundtrip [simp]: "from_str_strict (identity_str i) = Inr i"
  by (cases i) (simp_all add: from_str_strict_def)

lemma identity_str_inject [simp]: "identity_str a = identity_str b \<longleftrightarrow> a = b"
  by (cases a; cases b) simp_all

text \<open>The agent name an assignment puts in a role's slot.\<close>

fun slot :: "workflow_assignment \<Rightarrow> workflow_role \<Rightarrow> string" where
  "slot a Primary = wa_primary a"
| "slot a Verifier = wa_verifier a"
| "slot a FinalReviewer = wa_final_reviewer a"

lemma resolve_role_slot:
  "resolve_role_from_assignment i a = Inr r \<Longrightarrow> slot a (rr_role r) = identity_str i"
  by (auto simp: resolve_role_from_assignment_def Let_def split: if_splits)

lemma resolve_role_error:
  "resolve_role_from_assignment i a = Inl e \<longleftrightarrow>
     e = AssignmentMismatch (identity_str i) \<and> (\<forall>r. slot a r \<noteq> identity_str i)"
proof -
  have "(\<forall>r. slot a r \<noteq> n) \<longleftrightarrow> wa_primary a \<noteq> n \<and> wa_verifier a \<noteq> n \<and> wa_final_reviewer a \<noteq> n" for n
    by (metis slot.simps workflow_role.exhaust)
  then show ?thesis
    by (auto simp: resolve_role_from_assignment_def Let_def)
qed

text \<open>Where the slots name three different agents, an identity has at most one role, its own.\<close>

lemma resolve_role_unique:
  assumes "distinct [wa_primary a, wa_verifier a, wa_final_reviewer a]" and "slot a r = identity_str i"
  shows "\<exists>x. resolve_role_from_assignment i a = Inr x \<and> rr_role x = r"
  using assms by (cases r) (auto simp: resolve_role_from_assignment_def Let_def)

end
