(* ===== verification/Workflow_Context.thy ===== *)
theory Workflow_Context
  imports Workflow_Identity
begin

section \<open>The role gate and the workflow context\<close>

text \<open>
  \<^verbatim>\<open>workflow/context.rs\<close>: the gate that admits or suppresses an inbound message, the
  trusted context snapshot and its rendering, the injection decision, and the production
  adapter \<^verbatim>\<open>phase3_a13_decide\<close> that loads the assignment and reads the daemon's identity.
\<close>

datatype gate_reason =
    WorkflowRoleActive
  | WorkflowRoleNotActive
  | WorkflowTerminal
  | WorkflowAssignmentMissing
  | WorkflowIdentityUnknown
  | WorkflowBypassTechLead

fun gate_reason_str :: "gate_reason \<Rightarrow> string" where
  "gate_reason_str WorkflowRoleActive = ''WORKFLOW_ROLE_ACTIVE''"
| "gate_reason_str WorkflowRoleNotActive = ''WORKFLOW_ROLE_NOT_ACTIVE''"
| "gate_reason_str WorkflowTerminal = ''WORKFLOW_TERMINAL''"
| "gate_reason_str WorkflowAssignmentMissing = ''WORKFLOW_ASSIGNMENT_MISSING''"
| "gate_reason_str WorkflowIdentityUnknown = ''WORKFLOW_IDENTITY_UNKNOWN''"
| "gate_reason_str WorkflowBypassTechLead = ''WORKFLOW_BYPASS_TECH_LEAD''"

datatype context_reason =
    ContextInjected
  | ContextNoAssignment
  | ContextTerminal
  | ContextGateSuppressed

fun context_reason_str :: "context_reason \<Rightarrow> string" where
  "context_reason_str ContextInjected = ''CONTEXT_INJECTED''"
| "context_reason_str ContextNoAssignment = ''CONTEXT_NO_ASSIGNMENT''"
| "context_reason_str ContextTerminal = ''CONTEXT_TERMINAL''"
| "context_reason_str ContextGateSuppressed = ''CONTEXT_GATE_SUPPRESSED''"

datatype gate_decision = Admit gate_reason | Suppress gate_reason message

fun is_admit :: "gate_decision \<Rightarrow> bool" where
  "is_admit (Admit _) = True"
| "is_admit (Suppress _ _) = False"

fun is_suppress :: "gate_decision \<Rightarrow> bool" where
  "is_suppress (Suppress _ _) = True"
| "is_suppress (Admit _) = False"

fun decision_reason :: "gate_decision \<Rightarrow> gate_reason" where
  "decision_reason (Admit r) = r"
| "decision_reason (Suppress r _) = r"

record sender_identity =
  si_user_id :: u64
  si_display_name :: string

definition bool_str :: "bool \<Rightarrow> string" where
  "bool_str b = (if b then ''true'' else ''false'')"

fun role_dbg :: "workflow_role \<Rightarrow> string" where
  "role_dbg Primary = ''Primary''"
| "role_dbg Verifier = ''Verifier''"
| "role_dbg FinalReviewer = ''FinalReviewer''"

definition role_opt_dbg :: "workflow_role option \<Rightarrow> string" where
  "role_opt_dbg r = (case r of None \<Rightarrow> ''None'' | Some x \<Rightarrow> ''Some('' @ role_dbg x @ '')'')"

definition thread_state_msg :: "workflow_assignment \<Rightarrow> message" where
  "thread_state_msg a = [Lit ''thread='', Disp (wa_thread_id a), Lit '' state='', Disp (stage_str (wa_state a))]"

text \<open>Step 3 of the gate: the terminal stage suppresses with the sender in the detail.\<close>

definition terminal_suppress ::
  "workflow_assignment \<Rightarrow> sender_identity option \<Rightarrow> u64 set \<Rightarrow> gate_decision" where
  "terminal_suppress a sender tech_leads =
     Suppress WorkflowTerminal
       (case sender of
          Some i \<Rightarrow> thread_state_msg a @
            [Lit '' sender_user_id='', Disp (word_str (si_user_id i)),
             Lit '' tech_lead_authorized='', Disp (bool_str (si_user_id i \<in> tech_leads))]
        | None \<Rightarrow> thread_state_msg a @
            [Lit '' sender_user_id=<unknown> tech_lead_authorized=false''])"

text \<open>Step 4: a human who is not the Tech Lead has no role to match.\<close>

definition human_suppress :: "workflow_assignment \<Rightarrow> sender_identity option \<Rightarrow> gate_decision" where
  "human_suppress a sender =
     Suppress WorkflowRoleNotActive
       (case sender of
          Some i \<Rightarrow> thread_state_msg a @
            [Lit '' sender_user_id='', Disp (word_str (si_user_id i)),
             Lit '' is not in tech_lead_identities; non-Tech-Lead humans have no workflow role to match'']
        | None \<Rightarrow> thread_state_msg a @ [Lit '' non-bot sender has no resolvable identity''])"

text \<open>The role match for bot traffic.\<close>

definition role_match :: "agent_identity \<Rightarrow> workflow_assignment \<Rightarrow> gate_decision" where
  "role_match identity a =
     (case resolve_role_from_assignment identity a of
        Inl (AssignmentMismatch name) \<Rightarrow>
          Suppress WorkflowRoleNotActive
            [Lit ''thread='', Disp (wa_thread_id a), Lit '' identity='', Dbg name,
             Lit '' not bound to any assignment role slot'']
      | Inl e \<Rightarrow>
          Suppress WorkflowIdentityUnknown
            ([Lit ''thread='', Disp (wa_thread_id a), Lit '' identity='', Disp (identity_str identity),
              Lit '' resolution failed: ''] @ identity_error_msg e)
      | Inr resolution \<Rightarrow>
          (let expected = expected_role_for_stage (wa_state a)
           in if Some (rr_role resolution) = expected then Admit WorkflowRoleActive
              else Suppress WorkflowRoleNotActive
                     [Lit ''thread='', Disp (wa_thread_id a), Lit '' stage='', Disp (stage_str (wa_state a)),
                      Lit '' expected='', Disp (role_opt_dbg expected),
                      Lit '' identity='', Disp (identity_str identity),
                      Lit '' resolves_to='', Disp (role_str (rr_role resolution))]))"

definition decide_workflow_gate ::
  "agent_identity option \<Rightarrow> sender_identity option \<Rightarrow> bool \<Rightarrow> workflow_assignment option \<Rightarrow> u64 set
     \<Rightarrow> gate_decision" where
  "decide_workflow_gate identity sender sender_is_bot assignment tech_leads =
     (case assignment of
        None \<Rightarrow> Admit WorkflowAssignmentMissing
      | Some a \<Rightarrow>
          if \<not> sender_is_bot then
            (case sender of
               None \<Rightarrow> Suppress WorkflowIdentityUnknown
                         (thread_state_msg a @ [Lit '' non-bot sender has no resolvable user id''])
             | Some i \<Rightarrow>
                 if si_user_id i \<in> tech_leads then Admit WorkflowBypassTechLead
                 else if is_terminal (wa_state a) then terminal_suppress a sender tech_leads
                 else human_suppress a sender)
          else
            (case identity of
               None \<Rightarrow> Suppress WorkflowIdentityUnknown
                         (thread_state_msg a @ [Lit '' daemon ARTHUR_AGENT_NAME unset or unrecognised''])
             | Some i \<Rightarrow>
                 if is_terminal (wa_state a) then terminal_suppress a sender tech_leads
                 else role_match i a))"

definition is_tech_lead_authorized :: "sender_identity option \<Rightarrow> bool \<Rightarrow> u64 set \<Rightarrow> bool" where
  "is_tech_lead_authorized sender sender_is_bot tech_leads =
     (if sender_is_bot then False
      else case sender of Some i \<Rightarrow> si_user_id i \<in> tech_leads | None \<Rightarrow> False)"

text \<open>
  \<open>parse_sender\<close> is \<^verbatim>\<open>serde_json\<close> on the one-field struct: the value of
  \<^verbatim>\<open>sender_id\<close>, empty when the field is missing, or nothing for any other text.
\<close>

definition parse_sender_user_id_from_json :: "(string \<Rightarrow> string option) \<Rightarrow> string \<Rightarrow> u64 option" where
  "parse_sender_user_id_from_json parse_sender sender_json =
     (case parse_sender sender_json of None \<Rightarrow> None | Some sender_id \<Rightarrow> parse_u64 sender_id)"

subsection \<open>The context block\<close>

record workflow_context =
  wc_workflow_id :: string
  wc_project_id :: string
  wc_project_root :: string
  wc_assigned_role :: workflow_role
  wc_workflow_stage :: workflow_stage
  wc_language :: string
  wc_workflow_revision :: u64
  wc_defect_loop_count :: u32
  wc_transition_id :: "string option"
  wc_scope :: "string option"
  wc_unavailable_agents :: "string list"
  wc_authorized_by :: string
  wc_thread_id :: string
  wc_mode :: workflow_mode
  wc_last_committed_result :: "completion_result option"

definition build_workflow_context ::
  "workflow_assignment \<Rightarrow> workflow_role \<Rightarrow> string \<Rightarrow> string option \<Rightarrow> workflow_context" where
  "build_workflow_context a assigned_role thread_id scope =
     \<lparr>wc_workflow_id = wa_workflow_id a, wc_project_id = wa_project_id a,
      wc_project_root = wa_project_root a, wc_assigned_role = assigned_role,
      wc_workflow_stage = wa_state a, wc_language = wa_language a,
      wc_workflow_revision = wa_workflow_revision a,
      wc_defect_loop_count = wa_defect_loop_count a,
      wc_transition_id = wa_last_transition_id a, wc_scope = scope,
      wc_unavailable_agents = wa_unavailable_agents a, wc_authorized_by = wa_authorized_by a,
      wc_thread_id = thread_id, wc_mode = wa_mode a, wc_last_committed_result = None\<rparr>"

definition nl :: string where "nl = [CHR 0x0A]"

definition render_workflow_context_block :: "workflow_context \<Rightarrow> string" where
  "render_workflow_context_block ctx =
     ''<workflow_context>'' @ nl @
     ''workflow_id: '' @ wc_workflow_id ctx @ nl @
     ''project_id: '' @ wc_project_id ctx @ nl @
     ''project_root: '' @ wc_project_root ctx @ nl @
     ''assigned_role: '' @ role_str (wc_assigned_role ctx) @ nl @
     ''workflow_stage: '' @ stage_str (wc_workflow_stage ctx) @ nl @
     ''language: '' @ wc_language ctx @ nl @
     ''workflow_revision: '' @ word_str (wc_workflow_revision ctx) @ nl @
     ''defect_loop_count: '' @ word_str (wc_defect_loop_count ctx) @ nl @
     (case wc_transition_id ctx of
        Some tid \<Rightarrow> ''transition_id: '' @ tid @ nl | None \<Rightarrow> ''transition_id: <none>'' @ nl) @
     (case wc_scope ctx of Some s \<Rightarrow> ''scope: '' @ s @ nl | None \<Rightarrow> ''scope: <none>'' @ nl) @
     (if wc_unavailable_agents ctx = [] then ''unavailable_agents: []'' @ nl
      else ''unavailable_agents: ['' @ join '', '' (wc_unavailable_agents ctx) @ '']'' @ nl) @
     ''authorized_by: '' @ wc_authorized_by ctx @ nl @
     ''</workflow_context>''"

record context_decision =
  cd_reason :: context_reason
  cd_context :: "workflow_context option"

definition decide_context_injection ::
  "gate_decision \<Rightarrow> workflow_assignment option \<Rightarrow> string \<Rightarrow> string option \<Rightarrow> workflow_role \<Rightarrow> context_decision" where
  "decide_context_injection gate assignment thread_id scope assigned_role =
     (if is_suppress gate then \<lparr>cd_reason = ContextGateSuppressed, cd_context = None\<rparr>
      else case assignment of
             None \<Rightarrow> \<lparr>cd_reason = ContextNoAssignment, cd_context = None\<rparr>
           | Some a \<Rightarrow>
               if is_terminal (wa_state a) then \<lparr>cd_reason = ContextTerminal, cd_context = None\<rparr>
               else \<lparr>cd_reason = ContextInjected,
                     cd_context = Some (build_workflow_context a assigned_role thread_id scope)\<rparr>)"

definition phase3_a13_decide ::
  "workflow_assignment json_codec \<Rightarrow> string option \<Rightarrow> string option \<Rightarrow> u64 option \<Rightarrow> string \<Rightarrow> bool
     \<Rightarrow> string \<Rightarrow> u64 set \<Rightarrow> identity_cache \<Rightarrow> world
     \<Rightarrow> (gate_decision \<times> string option) \<times> identity_cache \<times> world" where
  "phase3_a13_decide codec env_var pinned_project_root sender_user_id sender_display_name
       sender_is_bot thread_id tech_leads cache w =
     (let (assignment, w1) =
            (case pinned_project_root of
               None \<Rightarrow> (None, w)
             | Some p \<Rightarrow> (case load_assignment codec p w of
                            (Inr (Some a), w1) \<Rightarrow> (Some a, w1)
                          | (Inr None, w1) \<Rightarrow> (None, w1)
                          | (Inl _, w1) \<Rightarrow> (None, w1)));
          (id_result, cache1) = current_agent_identity_from_env env_var cache;
          identity = (case id_result of Inr i \<Rightarrow> Some i | Inl _ \<Rightarrow> None);
          sender = map_option (\<lambda>uid. \<lparr>si_user_id = uid, si_display_name = sender_display_name\<rparr>) sender_user_id;
          gate = decide_workflow_gate identity sender sender_is_bot assignment tech_leads;
          resolved = (case (identity, assignment) of
                        (Some i, Some a) \<Rightarrow> (case resolve_role_from_assignment i a of
                                               Inr r \<Rightarrow> Some (rr_role r) | Inl _ \<Rightarrow> None)
                      | _ \<Rightarrow> None);
          assigned_role = (case resolved of
                             Some r \<Rightarrow> Some r
                           | None \<Rightarrow> (case assignment of
                                        Some a \<Rightarrow> expected_role_for_stage (wa_state a)
                                      | None \<Rightarrow> None));
          decision = decide_context_injection gate assignment thread_id None
                       (case assigned_role of Some r \<Rightarrow> r | None \<Rightarrow> Primary)
      in ((gate, map_option render_workflow_context_block (cd_context decision)), cache1, w1))"

subsection \<open>What the gate decides\<close>

lemma gate_admit_iff:
  "is_admit (decide_workflow_gate identity sender sender_is_bot (Some a) tech_leads) \<longleftrightarrow>
     (if sender_is_bot
      then (\<exists>i r. identity = Some i \<and> resolve_role_from_assignment i a = Inr r
               \<and> expected_role_for_stage (wa_state a) = Some (rr_role r))
      else is_tech_lead_authorized sender sender_is_bot tech_leads)"
  by (auto simp: decide_workflow_gate_def is_tech_lead_authorized_def terminal_suppress_def
      human_suppress_def role_match_def Let_def terminal_iff_no_role
      split: option.splits sum.splits identity_error.splits if_splits)

lemma suppress_not_admit: "is_suppress g \<longleftrightarrow> \<not> is_admit g"
  by (cases g) simp_all

text \<open>A display name never matters.\<close>

lemma gate_ignores_display_name:
  assumes "map_option si_user_id sender = map_option si_user_id sender'"
  shows "decide_workflow_gate identity sender from_bot a leads = decide_workflow_gate identity sender' from_bot a leads"
  using assms
  by (auto simp: decide_workflow_gate_def terminal_suppress_def human_suppress_def
      split: option.splits)

lemma context_injected_iff:
  "cd_context (decide_context_injection gate assignment thread scope role) \<noteq> None \<longleftrightarrow>
     is_admit gate \<and> (\<exists>a. assignment = Some a \<and> \<not> is_terminal (wa_state a))"
  by (auto simp: decide_context_injection_def suppress_not_admit split: option.splits)

end
