(* ===== verification/Workflow_Handoff.thy ===== *)
theory Workflow_Handoff
  imports Workflow_Context Workflow_Completion
begin

section \<open>Handoff rendering and the messenger\<close>

text \<open>
  \<^verbatim>\<open>workflow/handoff.rs\<close>: the activation body with the completion contract, and the
  production messenger over the chat adapter. The adapter's \<^verbatim>\<open>send_message_targeted\<close> is
  platform code behind a trait, an argument here: given how many messages went out before,
  and the channel, content and target of this one, it answers with an error text or with the
  id of the posted message.
\<close>

definition allowed_results :: "workflow_role \<Rightarrow> string" where
  "allowed_results r = (case r of Primary \<Rightarrow> ''COMPLETE'' | Verifier \<Rightarrow> ''PASS | FAIL''
                                | FinalReviewer \<Rightarrow> ''PASS'')"

definition result_hint :: "workflow_role \<Rightarrow> string" where
  "result_hint r = (case r of Primary \<Rightarrow> ''COMPLETE'' | Verifier \<Rightarrow> ''PASS'' | FinalReviewer \<Rightarrow> ''PASS'')"

text \<open>The template block inside the contract.\<close>

definition contract_template :: "workflow_context \<Rightarrow> string" where
  "contract_template ctx =
     ''<role_completion>'' @ nl @
     ''role: '' @ role_str (wc_assigned_role ctx) @ nl @
     ''result: '' @ result_hint (wc_assigned_role ctx) @ nl @
     ''workflow_id: '' @ wc_workflow_id ctx @ nl @
     ''project_id: '' @ wc_project_id ctx @ nl @
     ''project_root: '' @ wc_project_root ctx @ nl @
     ''</role_completion>'' @ nl"

definition contract_rules :: "string" where
  "contract_rules =
     ''forbidden_fields:'' @ nl @
     ''  - transition_id'' @ nl @
     ''  - workflow_revision'' @ nl @
     ''  - next_role'' @ nl @
     ''  - next_stage'' @ nl @
     ''  - target_user_id'' @ nl @
     ''constraints:'' @ nl @
     ''  - emit exactly one canonical completion block using output_template above'' @ nl @
     ''  - do NOT quote, discuss, describe, or reproduce the completion template in prose'' @ nl @
     ''  - answer only the assigned work; do NOT explain workflow mechanics'' @ nl @
     ''  - do NOT discuss completion contracts, parsers, routing, handoff rules, or authority'' @ nl @
     ''  - do NOT mention or display the completion tag name anywhere in prose'' @ nl @
     ''  - output the canonical completion block only once, as the final block'' @ nl @
     ''  - do NOT output HANDOFF or any agent-routing envelope'' @ nl @
     ''  - do NOT pick the next bot or mention it; OpenAB owns transition routing'' @ nl"

definition render_role_completion_contract :: "workflow_context \<Rightarrow> string" where
  "render_role_completion_contract ctx =
     ''<role_completion_contract>'' @ nl @
     ''role: '' @ role_str (wc_assigned_role ctx) @ nl @
     ''allowed_results: '' @ allowed_results (wc_assigned_role ctx) @ nl @
     ''output_template:'' @ nl @
     contract_template ctx @
     contract_rules @
     ''language: '' @ wc_language ctx @ nl @
     ''</role_completion_contract>''"

definition render_activation_body :: "workflow_context \<Rightarrow> string \<Rightarrow> string" where
  "render_activation_body ctx transition_id =
     ''<workflow_activation>'' @ nl @
     ''workflow_id: '' @ wc_workflow_id ctx @ nl @
     ''project_id: '' @ wc_project_id ctx @ nl @
     ''project_root: '' @ wc_project_root ctx @ nl @
     ''assigned_role: '' @ role_str (wc_assigned_role ctx) @ nl @
     ''workflow_stage: '' @ stage_str (wc_workflow_stage ctx) @ nl @
     ''language: '' @ wc_language ctx @ nl @
     ''workflow_revision: '' @ word_str (wc_workflow_revision ctx) @ nl @
     ''transition_id: '' @ transition_id @ nl @
     ''</workflow_activation>'' @ nl @
     render_role_completion_contract ctx"

datatype messenger_error = NoMessageIdReturned | Transport string

type_synonym chat_adapter = "nat \<Rightarrow> channel_ref \<Rightarrow> string \<Rightarrow> string option \<Rightarrow> string + string"

definition send_targeted_activation ::
  "chat_adapter \<Rightarrow> channel_ref \<Rightarrow> string \<Rightarrow> u64 \<Rightarrow> world
     \<Rightarrow> (messenger_error + string option) \<times> world" where
  "send_targeted_activation adapter channel body target_user_id w =
     (let target_text = word_str target_user_id;
          content = body @ nl @ ''<@'' @ word_str target_user_id @ ''>'';
          answer = adapter (length (sent w)) channel content (Some target_text);
          w1 = w\<lparr>sent := sent w @ [\<lparr>out_channel = channel, out_content = content,
                                   out_target = Some target_text\<rparr>]\<rparr>
      in case answer of
           Inl e \<Rightarrow> (Inl (Transport e), w1)
         | Inr message_id \<Rightarrow>
             if trim message_id = [] then (Inl NoMessageIdReturned, w1)
             else (Inr (Some message_id), w1))"

lemma send_targeted_activation_frame:
  "send_targeted_activation adapter channel body uid w = (r, w') \<Longrightarrow>
     files w' = files w \<and> dirs w' = dirs w \<and> resolve w' = resolve w \<and> faults w' = faults w
     \<and> clock w' = clock w \<and> ticks w' = ticks w
     \<and> sent w' = sent w @ [\<lparr>out_channel = channel,
                            out_content = body @ nl @ ''<@'' @ word_str uid @ ''>'',
                            out_target = Some (word_str uid)\<rparr>]"
  by (auto simp: send_targeted_activation_def Let_def split: sum.splits if_splits)

lemma send_targeted_activation_Some:
  "send_targeted_activation adapter channel body uid w = (Inr m, w') \<Longrightarrow> \<exists>i. m = Some i \<and> trim i \<noteq> []"
  by (auto simp: send_targeted_activation_def Let_def split: sum.splits if_splits)

end
