(* ===== verification/Workflow_Recovery.thy ===== *)
theory Workflow_Recovery
  imports Workflow_Ledger
begin

section \<open>Recovery after a crash\<close>

text \<open>
  \<^verbatim>\<open>workflow/recovery.rs\<close>: the classification of every ledger row against the
  assignment on disk. The last-resort \<^verbatim>\<open>unwrap\<close> of the ledger load can panic, which is a
  result of its own.
\<close>

datatype recovery_error = LedgerAndAssignmentUnreadable string string

fun recovery_error_msg :: "recovery_error \<Rightarrow> message" where
  "recovery_error_msg (LedgerAndAssignmentUnreadable l a) =
     [Lit ''recovery failed: ledger unreadable ('', Disp l, Lit ''); assignment unreadable ('', Disp a, Lit '')'']"

datatype recovery_outcome =
    ReleasedReserved string
  | UnknownDelivery string
  | ReconciledDelivered string
  | MismatchedAssignment string
  | DeliveredNoop string
  | FailedNoop string
  | Errored message message

record recovery_report =
  rp_released_reserved :: "string list"
  rp_unknown_delivery :: "string list"
  rp_reconciled_delivered :: "string list"
  rp_mismatched_assignment :: "string list"
  rp_delivered_noop :: nat
  rp_failed_noop :: nat
  rp_outcomes :: "recovery_outcome list"
  rp_persisted :: bool

definition empty_report :: recovery_report where
  "empty_report =
     \<lparr>rp_released_reserved = [], rp_unknown_delivery = [], rp_reconciled_delivered = [],
      rp_mismatched_assignment = [], rp_delivered_noop = 0, rp_failed_noop = 0,
      rp_outcomes = [], rp_persisted = False\<rparr>"

definition record_outcome :: "recovery_outcome \<Rightarrow> recovery_report \<Rightarrow> recovery_report" where
  "record_outcome outcome rp =
     (let rp1 = (case outcome of
          ReleasedReserved i \<Rightarrow> rp\<lparr>rp_released_reserved := rp_released_reserved rp @ [i]\<rparr>
        | UnknownDelivery i \<Rightarrow> rp\<lparr>rp_unknown_delivery := rp_unknown_delivery rp @ [i]\<rparr>
        | ReconciledDelivered i \<Rightarrow> rp\<lparr>rp_reconciled_delivered := rp_reconciled_delivered rp @ [i]\<rparr>
        | MismatchedAssignment i \<Rightarrow> rp\<lparr>rp_mismatched_assignment := rp_mismatched_assignment rp @ [i]\<rparr>
        | DeliveredNoop _ \<Rightarrow> rp\<lparr>rp_delivered_noop := Suc (rp_delivered_noop rp)\<rparr>
        | FailedNoop _ \<Rightarrow> rp\<lparr>rp_failed_noop := Suc (rp_failed_noop rp)\<rparr>
        | Errored _ _ \<Rightarrow> rp)
      in rp1\<lparr>rp_outcomes := rp_outcomes rp1 @ [outcome]\<rparr>)"

datatype next_stage_guess = GuessSome workflow_stage | IllFormed

definition legal_next_stage_for_entry :: "transition_ledger \<Rightarrow> string \<Rightarrow> next_stage_guess" where
  "legal_next_stage_for_entry l tid =
     (case ledger_lookup l tid of
        None \<Rightarrow> IllFormed
      | Some e \<Rightarrow>
          (case legal_next_stage (le_current_stage e) (le_role e) (le_result e) of
             Some s \<Rightarrow> GuessSome s
           | None \<Rightarrow> IllFormed))"

text \<open>A row whose snapshot status is \<open>RESERVED\<close>.\<close>

definition reconcile_reserved ::
  "string \<Rightarrow> transition_ledger \<Rightarrow> recovery_report \<Rightarrow> transition_ledger \<times> recovery_report" where
  "reconcile_reserved tid l rp =
     (case release_stale_reserved tid l of
        (Inr _, l1) \<Rightarrow> (l1, record_outcome (ReleasedReserved tid) rp)
      | (Inl e, l1) \<Rightarrow> (l1, record_outcome (Errored [Disp tid] (ledger_error_msg e)) rp))"

text \<open>A row whose snapshot status is \<open>PENDING\<close>.\<close>

definition reconcile_pending ::
  "workflow_assignment option \<Rightarrow> string \<Rightarrow> transition_ledger \<Rightarrow> recovery_report \<Rightarrow> world
     \<Rightarrow> transition_ledger \<times> recovery_report \<times> world" where
  "reconcile_pending assignment tid l rp w =
     (case legal_next_stage_for_entry l tid of
        IllFormed \<Rightarrow> (l, record_outcome (UnknownDelivery tid) rp, w)
      | GuessSome next_stage \<Rightarrow>
          (case assignment of
             None \<Rightarrow> (l, record_outcome (UnknownDelivery tid) rp, w)
           | Some a \<Rightarrow>
               (case ledger_lookup l tid of
                  None \<Rightarrow> (l, record_outcome (Errored [Disp tid] [Lit ''row vanished mid-iteration'']) rp, w)
                | Some row \<Rightarrow>
                    (let assignment_advanced =
                           (wa_state a = next_stage
                            \<and> wa_workflow_revision a = le_workflow_revision row + 1)
                     in if \<not> assignment_advanced then (l, record_outcome (UnknownDelivery tid) rp, w)
                        else case mark_delivered tid (wa_last_delivery_message_id a) l w of
                               (Inr _, l1, w1) \<Rightarrow> (l1, record_outcome (ReconciledDelivered tid) rp, w1)
                             | (Inl e, l1, w1) \<Rightarrow>
                                 (l1, record_outcome (Errored [Disp tid] (ledger_error_msg e)) rp, w1)))))"

fun reconcile_rows ::
  "workflow_assignment option \<Rightarrow> (string \<times> transition_status) list \<Rightarrow> transition_ledger
     \<Rightarrow> recovery_report \<Rightarrow> world \<Rightarrow> transition_ledger \<times> recovery_report \<times> world" where
  "reconcile_rows a [] l rp w = (l, rp, w)"
| "reconcile_rows a ((tid, Reserved) # rows) l rp w =
     (case reconcile_reserved tid l rp of (l1, rp1) \<Rightarrow> reconcile_rows a rows l1 rp1 w)"
| "reconcile_rows a ((tid, Pending) # rows) l rp w =
     (case reconcile_pending a tid l rp w of (l1, rp1, w1) \<Rightarrow> reconcile_rows a rows l1 rp1 w1)"
| "reconcile_rows a ((tid, Delivered) # rows) l rp w =
     reconcile_rows a rows l (record_outcome (DeliveredNoop tid) rp) w"
| "reconcile_rows a ((tid, Failed) # rows) l rp w =
     reconcile_rows a rows l (record_outcome (FailedNoop tid) rp) w"

definition ledger_snapshot :: "transition_ledger \<Rightarrow> (string \<times> transition_status) list" where
  "ledger_snapshot l = map (\<lambda>e. (le_transition_id e, le_status e)) (tl_entries l)"

text \<open>The codecs of the two files.\<close>

record store_codecs =
  sc_assignment :: "workflow_assignment json_codec"
  sc_ledger :: "ledger_entry list json_codec"

text \<open>
  The first load; when it fails, create the directory, load again, and when that fails too,
  load a third time and unwrap: nothing is the panic.
\<close>

definition recovery_load :: "store_codecs \<Rightarrow> string \<Rightarrow> world \<Rightarrow> transition_ledger option \<times> world" where
  "recovery_load cs root w =
     (case ledger_load (sc_ledger cs) root w of
        (Inr l, w1) \<Rightarrow> (Some l, w1)
      | (Inl _, w1) \<Rightarrow>
          (case create_dir_all (path_join root ''.openab'') w1 of
             (_, w2) \<Rightarrow>
               (case ledger_load (sc_ledger cs) root w2 of
                  (Inr l, w3) \<Rightarrow> (Some l, w3)
                | (Inl _, w3) \<Rightarrow>
                    (case ledger_load (sc_ledger cs) root w3 of
                       (Inr l, w4) \<Rightarrow> (Some l, w4)
                     | (Inl _, w4) \<Rightarrow> (None, w4)))))"

datatype 'a run = Returned 'a | Panicked

definition reconcile_project_workflow ::
  "store_codecs \<Rightarrow> string \<Rightarrow> world \<Rightarrow> (recovery_error + recovery_report) run \<times> world" where
  "reconcile_project_workflow cs root w =
     (case recovery_load cs root w of
        (None, w1) \<Rightarrow> (Panicked, w1)
      | (Some l, w1) \<Rightarrow>
          (case load_assignment (sc_assignment cs) root w1 of
             (loaded, w2) \<Rightarrow>
               (let assignment = (case loaded of Inr a \<Rightarrow> a | Inl _ \<Rightarrow> None)
                in case reconcile_rows assignment (ledger_snapshot l) l empty_report w2 of
                     (l1, rp, w3) \<Rightarrow>
                       (case ledger_save_atomic (sc_ledger cs) l1 w3 of
                          (Inr _, w4) \<Rightarrow> (Returned (Inr (rp\<lparr>rp_persisted := True\<rparr>)), w4)
                        | (Inl e, w4) \<Rightarrow>
                            (Returned (Inr (rp\<lparr>rp_outcomes := rp_outcomes rp @
                                 [Errored ([Lit ''ledger.save_atomic: ''] @ ledger_error_msg e) (ledger_error_msg e)],
                               rp_persisted := False\<rparr>)), w4)))))"

subsection \<open>What recovery touches\<close>

lemma reconcile_pending_host:
  "reconcile_pending a tid l rp w = (l', rp', w') \<Longrightarrow> host_same w w' \<and> tl_path l' = tl_path l"
  by (auto simp: reconcile_pending_def Let_def host_same_def dest!: mark_delivered_frame
      split: next_stage_guess.splits option.splits prod.splits sum.splits if_splits)

lemma reconcile_rows_host:
  "reconcile_rows a rows l rp w = (l', rp', w') \<Longrightarrow> host_same w w' \<and> tl_path l' = tl_path l"
proof (induction a rows l rp w rule: reconcile_rows.induct)
  case (2 a tid rows l rp w)
  then show ?case
    by (auto simp: reconcile_reserved_def split: prod.splits sum.splits dest!: release_path)
next
  case (3 a tid rows l rp w)
  then show ?case
    by (auto split: prod.splits dest!: reconcile_pending_host intro: host_same_trans)
qed auto

lemma ledger_load_host:
  "ledger_load codec root w = (r, w') \<Longrightarrow>
     host_same w w' \<and> (\<forall>l. r = Inr l \<longrightarrow> tl_path l = ledger_file (resolve w root))"
  using ledger_load_frame ledger_load_path by (fastforce simp: host_same_def)

lemma create_dir_all_host: "create_dir_all p w = (r, w') \<Longrightarrow> host_same w w'"
  by (drule create_dir_all_frame) (simp add: host_same_def)

lemma recovery_load_frame:
  "recovery_load cs root w = (r, w') \<Longrightarrow>
     host_same w w' \<and> (\<forall>l. r = Some l \<longrightarrow> tl_path l = ledger_file (resolve w root))"
  unfolding recovery_load_def
  by (auto simp: host_same_def split: prod.splits sum.splits
      dest!: ledger_load_host create_dir_all_host)

lemma load_assignment_host: "load_assignment codec root w = (r, w') \<Longrightarrow> host_same w w'"
  by (drule load_assignment_frame) (simp add: host_same_def)

text \<open>
  Recovery sends nothing and leaves the assignment file alone; the only files it can change
  are the ledger and its temporary sibling.
\<close>

lemma reconcile_effect:
  assumes "reconcile_project_workflow cs root w = (r, w')"
  shows "sent w' = sent w \<and> resolve w' = resolve w \<and> clock w' = clock w
     \<and> (\<forall>q. q \<noteq> ledger_file (resolve w root) \<longrightarrow> q \<noteq> json_tmp (ledger_file (resolve w root))
          \<longrightarrow> files w' q = files w q)"
proof (cases "recovery_load cs root w")
  case (Pair rl w1)
  note h1 = recovery_load_frame [OF Pair]
  show ?thesis
  proof (cases rl)
    case None
    with Pair assms h1 show ?thesis by (auto simp: reconcile_project_workflow_def host_same_def)
  next
    case (Some l)
    obtain la w2 where la: "load_assignment (sc_assignment cs) root w1 = (la, w2)" by fastforce
    obtain l1 rp w3 where rr: "reconcile_rows (case la of Inr a \<Rightarrow> a | Inl _ \<Rightarrow> None)
        (ledger_snapshot l) l empty_report w2 = (l1, rp, w3)" by (metis prod_cases3)
    obtain rs w4 where sv: "ledger_save_atomic (sc_ledger cs) l1 w3 = (rs, w4)" by fastforce
    have "w' = w4" using assms Pair Some la rr sv
      by (auto simp: reconcile_project_workflow_def split: sum.splits)
    then show ?thesis
      using h1 Some load_assignment_host [OF la] reconcile_rows_host [OF rr] ledger_save_frame [OF sv]
      by (auto simp: host_same_def)
  qed
qed

end
