(* ===== verification/Workflow_Service.thy ===== *)
theory Workflow_Service
  imports Workflow_Validator Workflow_Handoff Workflow_Recovery
begin

section \<open>The workflow service\<close>

text \<open>
  \<^verbatim>\<open>workflow/service.rs\<close>: one terminal turn of an agent, from the text of its reply to
  the committed transition. The commit protocol is cut at its documented steps: reserve and
  persist (A, B), the target (C), pending and persist (D, E), the message (F, G), the updated
  assignment (H, I) and its save (J), delivered and persist (K, L).
\<close>

datatype turn_outcome =
    NotTerminal
  | NoAssignment
  | NoCompletionClaim
  | AmbiguousClaim
  | MalformedClaim message
  | TurnAlreadyDelivered string
  | TurnInFlight string
  | TurnFailedPreviously string
  | TurnRejected reject_reason message
  | SendFailed string message
  | TurnAccepted (ta_transition_id: string) (ta_next_stage: workflow_stage)
      (ta_target_name: "string option") (ta_target_user: "u64 option") (ta_message_id: "string option")

record workflow_service =
  ws_tech_lead_user_ids :: "u64 set"
  ws_bot_user_ids :: "string \<Rightarrow> u64 option"
  ws_reconciled_projects :: "(bool \<times> string list) set"

definition new_service :: "u64 set \<Rightarrow> (string \<Rightarrow> u64 option) \<Rightarrow> workflow_service" where
  "new_service leads bots =
     \<lparr>ws_tech_lead_user_ids = leads, ws_bot_user_ids = bots, ws_reconciled_projects = {}\<rparr>"

text \<open>The third-party code the service runs on.\<close>

record externals =
  ex_sha :: "string \<Rightarrow> string"
  ex_lower :: "string \<Rightarrow> string"
  ex_key_order :: "string list \<Rightarrow> string list"
  ex_codecs :: store_codecs
  ex_adapter :: chat_adapter

subsection \<open>Recovery once per project\<close>

definition idempotent_report :: recovery_report where
  "idempotent_report = empty_report\<lparr>rp_persisted := True\<rparr>"

definition recover_project_workflow ::
  "externals \<Rightarrow> string \<Rightarrow> workflow_service \<Rightarrow> world
     \<Rightarrow> (recovery_error + recovery_report) run \<times> workflow_service \<times> world" where
  "recover_project_workflow ex root s w =
     (let key = components root;
          already = (key \<in> ws_reconciled_projects s);
          s1 = s\<lparr>ws_reconciled_projects := insert key (ws_reconciled_projects s)\<rparr>
      in if already then (Returned (Inr idempotent_report), s1, w)
         else case reconcile_project_workflow (ex_codecs ex) root w of
                (Panicked, w1) \<Rightarrow> (Panicked, s1, w1)
              | (Returned (Inl e), w1) \<Rightarrow> (Returned (Inl e), s1, w1)
              | (Returned (Inr report), w1) \<Rightarrow>
                  (if \<not> rp_persisted report
                   then (Returned (Inr report),
                         s1\<lparr>ws_reconciled_projects := ws_reconciled_projects s1 - {key}\<rparr>, w1)
                   else (Returned (Inr report), s1, w1)))"

subsection \<open>Helpers\<close>

text \<open>The ledger row of an accepted claim is keyed by this result, inferred from the role.\<close>

definition acceptance_pair_result :: "workflow_role \<Rightarrow> completion_result" where
  "acceptance_pair_result r = (case r of Primary \<Rightarrow> Complete | Verifier \<Rightarrow> Pass | FinalReviewer \<Rightarrow> Pass)"

definition claimed_role_for_state :: "workflow_stage \<Rightarrow> workflow_role" where
  "claimed_role_for_state s = (case expected_role_for_stage s of Some r \<Rightarrow> r | None \<Rightarrow> Primary)"

definition resolve_user_id :: "(string \<Rightarrow> u64 option) \<Rightarrow> string \<Rightarrow> u64 option" where
  "resolve_user_id bots name = bots name"

definition claim_scope :: "workflow_assignment \<Rightarrow> workflow_role \<Rightarrow> string option" where
  "claim_scope a r = None"

definition replay_of :: "externals \<Rightarrow> string \<Rightarrow> string \<Rightarrow> world \<Rightarrow> replay_state \<times> world" where
  "replay_of ex root tid w =
     (case ledger_load (sc_ledger (ex_codecs ex)) root w of
        (Inl _, w1) \<Rightarrow> (RNew, w1)
      | (Inr l, w1) \<Rightarrow>
          ((case status_of l tid of
              None \<Rightarrow> RNew
            | Some Delivered \<Rightarrow> RAlreadyDelivered
            | Some Reserved \<Rightarrow> RInFlight
            | Some Pending \<Rightarrow> RInFlight
            | Some Failed \<Rightarrow> RFailedPreviously), w1))"

subsection \<open>The commit protocol\<close>

text \<open>\<^verbatim>\<open>let _ = ledger.mark_failed(..); let _ = ledger.save_atomic();\<close>\<close>

definition fail_row :: "externals \<Rightarrow> string \<Rightarrow> transition_ledger \<Rightarrow> world \<Rightarrow> world" where
  "fail_row ex rid l w =
     (case mark_failed rid l of
        (_, l1) \<Rightarrow> snd (ledger_save_atomic (sc_ledger (ex_codecs ex)) l1 w))"

text \<open>Steps A and B. On success, the ledger in memory and the reserved id.\<close>

definition commit_reserve ::
  "externals \<Rightarrow> string \<Rightarrow> workflow_assignment \<Rightarrow> workflow_role \<Rightarrow> world
     \<Rightarrow> (turn_outcome + transition_ledger \<times> string) \<times> world" where
  "commit_reserve ex root a claimed_role w =
     (case ledger_load (sc_ledger (ex_codecs ex)) root w of
        (Inl e, w1) \<Rightarrow>
          (Inl (TurnRejected IllegalTransition ([Lit ''ledger load failed: ''] @ ledger_error_msg e)), w1)
      | (Inr l, w1) \<Rightarrow>
          (case ledger_reserve (ex_sha ex) (wa_workflow_id a) (wa_workflow_revision a) (wa_state a)
                  claimed_role (acceptance_pair_result claimed_role) l w1 of
             (Inl e, l1, w2) \<Rightarrow>
               (Inl (TurnRejected IllegalTransition ([Lit ''ledger reserve failed: ''] @ ledger_error_msg e)), w2)
           | (Inr entry, l1, w2) \<Rightarrow>
               (let reserved_id = le_transition_id entry
                in case ledger_save_atomic (sc_ledger (ex_codecs ex)) l1 w2 of
                     (Inl e, w3) \<Rightarrow>
                       (Inl (TurnRejected IllegalTransition
                          ([Lit ''ledger persistence failed after RESERVE: ''] @ ledger_error_msg e
                           @ [Lit ''; assignment not advanced''])),
                        fail_row ex reserved_id l1 w3)
                   | (Inr _, w3) \<Rightarrow> (Inr (l1, reserved_id), w3))))"

text \<open>Step C.\<close>

definition commit_target ::
  "workflow_service \<Rightarrow> workflow_assignment \<Rightarrow> workflow_stage \<Rightarrow> string option \<times> u64 option" where
  "commit_target s a next_stage =
     (case next_stage of
        VerifierActive \<Rightarrow> (Some (wa_verifier a), resolve_user_id (ws_bot_user_ids s) (wa_verifier a))
      | FinalReviewerActive \<Rightarrow>
          (Some (wa_final_reviewer a), resolve_user_id (ws_bot_user_ids s) (wa_final_reviewer a))
      | PrimaryCorrectionPending \<Rightarrow>
          (Some (wa_primary a), resolve_user_id (ws_bot_user_ids s) (wa_primary a))
      | PrimaryActive \<Rightarrow> (None, None)
      | TechLeadWait \<Rightarrow> (None, None)
      | Blocked \<Rightarrow> (None, None))"

definition send_required :: "u64 option \<Rightarrow> workflow_stage \<Rightarrow> bool" where
  "send_required target next_stage \<longleftrightarrow>
     target \<noteq> None \<and> next_stage \<noteq> TechLeadWait \<and> next_stage \<noteq> Blocked"

text \<open>Steps D and E.\<close>

definition commit_pending ::
  "externals \<Rightarrow> string \<Rightarrow> u64 option \<Rightarrow> transition_ledger \<Rightarrow> world
     \<Rightarrow> (turn_outcome + transition_ledger) \<times> world" where
  "commit_pending ex reserved_id target l w =
     (case mark_pending reserved_id (map_option word_str target) l of
        (Inl e, l1) \<Rightarrow>
          (Inl (TurnRejected IllegalTransition ([Lit ''ledger pending failed: ''] @ ledger_error_msg e)),
           fail_row ex reserved_id l1 w)
      | (Inr _, l1) \<Rightarrow>
          (case ledger_save_atomic (sc_ledger (ex_codecs ex)) l1 w of
             (Inl e, w1) \<Rightarrow>
               (Inl (TurnRejected IllegalTransition
                  ([Lit ''ledger pending persistence failed: ''] @ ledger_error_msg e)),
                fail_row ex reserved_id l1 w1)
           | (Inr _, w1) \<Rightarrow> (Inr l1, w1)))"

text \<open>The post-commit snapshot, before the message id is known.\<close>

definition commit_updated ::
  "workflow_assignment \<Rightarrow> workflow_role \<Rightarrow> workflow_stage \<Rightarrow> string \<Rightarrow> world
     \<Rightarrow> workflow_assignment \<times> world" where
  "commit_updated a claimed_role next_stage transition_id w =
     (let (now, w1) = utc_now w;
          updated = a\<lparr>wa_state := next_stage,
                      wa_workflow_revision := wa_workflow_revision a + 1,
                      wa_last_transition_id := Some transition_id,
                      wa_last_delivery_message_id := None,
                      wa_updated_at := now\<rparr>
      in ((if next_stage = PrimaryCorrectionPending
              \<and> (claimed_role = Verifier \<or> claimed_role = FinalReviewer)
           then updated\<lparr>wa_defect_loop_count := wa_defect_loop_count a + 1\<rparr>
           else updated), w1))"

text \<open>Steps F and G.\<close>

definition commit_send ::
  "externals \<Rightarrow> string \<Rightarrow> channel_ref \<Rightarrow> workflow_assignment \<Rightarrow> workflow_assignment \<Rightarrow> workflow_role
     \<Rightarrow> workflow_stage \<Rightarrow> string \<Rightarrow> string \<Rightarrow> string option \<Rightarrow> u64 option \<Rightarrow> transition_ledger \<Rightarrow> world
     \<Rightarrow> (turn_outcome + string option) \<times> world" where
  "commit_send ex session_key channel a updated claimed_role next_stage transition_id reserved_id
       target_name target l w =
     (if send_required target next_stage then
        (case target of
           None \<Rightarrow>
             (Inl (TurnRejected IllegalTransition
                [Lit ''no bot user_id configured for logical '', DbgOpt target_name,
                 Lit '' on transition '', Disp transition_id]),
              fail_row ex reserved_id l w)
         | Some target_uid \<Rightarrow>
             (let ctx_for_next = build_workflow_context updated (claimed_role_for_state next_stage)
                                   session_key (claim_scope a claimed_role);
                  body = render_activation_body ctx_for_next transition_id
              in case send_targeted_activation (ex_adapter ex) channel body target_uid w of
                   (Inr maybe_id, w1) \<Rightarrow> (Inr maybe_id, w1)
                 | (Inl NoMessageIdReturned, w1) \<Rightarrow>
                     (Inl (SendFailed transition_id [Lit ''no message id'']), fail_row ex reserved_id l w1)
                 | (Inl (Transport reason), w1) \<Rightarrow>
                     (Inl (SendFailed transition_id [Disp reason]), fail_row ex reserved_id l w1)))
      else (Inr None, w))"

text \<open>Steps J to L.\<close>

definition commit_finish ::
  "externals \<Rightarrow> string \<Rightarrow> workflow_assignment \<Rightarrow> workflow_stage \<Rightarrow> string \<Rightarrow> string
     \<Rightarrow> string option \<Rightarrow> u64 option \<Rightarrow> string option \<Rightarrow> transition_ledger \<Rightarrow> world
     \<Rightarrow> turn_outcome \<times> world" where
  "commit_finish ex root updated next_stage transition_id reserved_id target_name target message_id l w =
     (let (now, w1) = utc_now w;
          patched = updated\<lparr>wa_last_delivery_message_id := message_id, wa_updated_at := now\<rparr>
      in case save_assignment_atomic (sc_assignment (ex_codecs ex)) root patched w1 of
           (Inl e, w2) \<Rightarrow>
             (SendFailed transition_id
                [Lit ''assignment save failed after send; ledger remains PENDING with message_id '',
                 DbgOpt message_id], w2)
         | (Inr _, w2) \<Rightarrow>
             (case mark_delivered reserved_id message_id l w2 of
                (_, l1, w3) \<Rightarrow>
                  (case ledger_save_atomic (sc_ledger (ex_codecs ex)) l1 w3 of
                     (_, w4) \<Rightarrow>
                       (TurnAccepted transition_id next_stage target_name target message_id, w4))))"

definition commit_protocol ::
  "externals \<Rightarrow> workflow_service \<Rightarrow> string \<Rightarrow> string \<Rightarrow> channel_ref \<Rightarrow> workflow_assignment
     \<Rightarrow> workflow_role \<Rightarrow> workflow_stage \<Rightarrow> string \<Rightarrow> world \<Rightarrow> turn_outcome \<times> world" where
  "commit_protocol ex s session_key root channel a claimed_role next_stage transition_id w =
     (case commit_reserve ex root a claimed_role w of
        (Inl out, w1) \<Rightarrow> (out, w1)
      | (Inr (l1, reserved_id), w1) \<Rightarrow>
          (let (target_name, target) = commit_target s a next_stage
           in case commit_pending ex reserved_id target l1 w1 of
                (Inl out, w2) \<Rightarrow> (out, w2)
              | (Inr l2, w2) \<Rightarrow>
                  (let (updated, w3) = commit_updated a claimed_role next_stage transition_id w2
                   in case commit_send ex session_key channel a updated claimed_role next_stage
                             transition_id reserved_id target_name target l2 w3 of
                        (Inl out, w4) \<Rightarrow> (out, w4)
                      | (Inr message_id, w4) \<Rightarrow>
                          commit_finish ex root updated next_stage transition_id reserved_id
                            target_name target message_id l2 w4)))"

subsection \<open>One turn\<close>

text \<open>After recovery and with the trusted assignment: parse, look the row up, validate, commit.\<close>

definition run_claim ::
  "externals \<Rightarrow> workflow_service \<Rightarrow> string \<Rightarrow> string \<Rightarrow> channel_ref \<Rightarrow> workflow_assignment \<Rightarrow> string
     \<Rightarrow> world \<Rightarrow> turn_outcome \<times> world" where
  "run_claim ex s session_key root channel a text_buf w =
     (case parse_role_completion (ex_lower ex) (ex_key_order ex) text_buf of
        NoClaim \<Rightarrow> (NoCompletionClaim, w)
      | AmbiguousMultipleClaims \<Rightarrow> (AmbiguousClaim, w)
      | MalformedBlock reason \<Rightarrow> (MalformedClaim reason, w)
      | ParsedClaim claim \<Rightarrow>
          (let transition_id = derive_transition_id (ex_sha ex) (wa_workflow_id a)
                 (wa_workflow_revision a) (wa_state a) (pc_role claim) (pc_result claim)
           in case replay_of ex root transition_id w of
                (replay, w1) \<Rightarrow>
                  (case validate (ex_sha ex) claim a replay w1 of
                     (VAlreadyDelivered i, w2) \<Rightarrow> (TurnAlreadyDelivered i, w2)
                   | (VInFlight i, w2) \<Rightarrow> (TurnInFlight i, w2)
                   | (VFailedPreviously i, w2) \<Rightarrow> (TurnFailedPreviously i, w2)
                   | (VRejected reason detail, w2) \<Rightarrow> (TurnRejected reason detail, w2)
                   | (VAccepted _ claimed_role _ next_stage vid _, w2) \<Rightarrow>
                       commit_protocol ex s session_key root channel a claimed_role next_stage vid w2)))"

definition on_turn_complete ::
  "externals \<Rightarrow> string \<Rightarrow> string option \<Rightarrow> channel_ref \<Rightarrow> string \<Rightarrow> bool \<Rightarrow> workflow_service \<Rightarrow> world
     \<Rightarrow> turn_outcome run \<times> workflow_service \<times> world" where
  "on_turn_complete ex session_key pinned_root channel text_buf stop_reason_is_terminal s w =
     (if \<not> stop_reason_is_terminal then (Returned NotTerminal, s, w)
      else case pinned_root of
             None \<Rightarrow> (Returned NoAssignment, s, w)
           | Some root \<Rightarrow>
               (case recover_project_workflow ex root s w of
                  (Panicked, s1, w1) \<Rightarrow> (Panicked, s1, w1)
                | (Returned (Inl _), s1, w1) \<Rightarrow> (Returned NoAssignment, s1, w1)
                | (Returned (Inr _), s1, w1) \<Rightarrow>
                    (case load_assignment (sc_assignment (ex_codecs ex)) root w1 of
                       (Inl _, w2) \<Rightarrow> (Returned NoAssignment, s1, w2)
                     | (Inr None, w2) \<Rightarrow> (Returned NoAssignment, s1, w2)
                     | (Inr (Some a), w2) \<Rightarrow>
                         (case run_claim ex s1 session_key root channel a text_buf w2 of
                            (out, w3) \<Rightarrow> (Returned out, s1, w3)))))"

end
