(* ===== verification/Workflow_Turns.thy ===== *)
theory Workflow_Turns
  imports Workflow_Service
begin

section \<open>The effect of a whole turn\<close>

text \<open>
  The steps of the commit protocol put together: the only message a turn can send, the only
  content it can give the assignment file, and the outcomes that go with them. The last part
  runs a list of turns on one project.
\<close>

subsection \<open>What a turn does to the host\<close>

text \<open>
  Step by step along the commit protocol: which steps are quiet (they send nothing and keep
  the assignment file), what the sending step adds to the outbox, and what the last step
  writes. The abstract machine \<open>wf_step\<close> is the contract of a committed turn.
\<close>

subsection \<open>Quiet steps\<close>

definition quiet :: "string \<Rightarrow> world \<Rightarrow> world \<Rightarrow> bool" where
  "quiet root w w' \<longleftrightarrow>
     sent w' = sent w \<and> resolve w' = resolve w \<and> clock w' = clock w
     \<and> files w' (assignment_file (resolve w root)) = files w (assignment_file (resolve w root))"

lemma quiet_refl [simp]: "quiet root w w"
  by (simp add: quiet_def)

lemma quiet_trans [trans]: "quiet root u v \<Longrightarrow> quiet root v w \<Longrightarrow> quiet root u w"
  by (simp add: quiet_def)

lemma host_same_quiet: "host_same w w' \<Longrightarrow> quiet root w w'"
  by (simp add: host_same_def quiet_def)

lemma quiet_resolve: "quiet root w w' \<Longrightarrow> resolve w' root = resolve w root"
  by (simp add: quiet_def)

definition ledger_at :: "string \<Rightarrow> world \<Rightarrow> transition_ledger \<Rightarrow> bool" where
  "ledger_at root w l \<longleftrightarrow> tl_path l = ledger_file (resolve w root)"

lemma ledger_at_quiet: "ledger_at root w l \<Longrightarrow> quiet root w w' \<Longrightarrow> ledger_at root w' l"
  by (simp add: ledger_at_def quiet_def)

lemma ledger_save_quiet:
  "ledger_save_atomic codec l w = (r, w') \<Longrightarrow> ledger_at root w l \<Longrightarrow> quiet root w w'"
  by (drule ledger_save_frame) (auto simp: quiet_def ledger_at_def)

lemma fail_row_quiet: "ledger_at root w l \<Longrightarrow> quiet root w (fail_row ex rid l w)"
  by (auto simp: fail_row_def ledger_at_def dest!: mark_failed_ids split: prod.splits)
     (metis ledger_at_def ledger_save_quiet prod.collapse)

lemma utc_now_quiet: "utc_now w = (t, w') \<Longrightarrow> quiet root w w'"
  by (drule utc_now_frame) (simp add: quiet_def)

lemma reserve_quiet:
  "ledger_reserve sha wid n s r c l w = (res, l', w') \<Longrightarrow>
     quiet root w w' \<and> (ledger_at root w l \<longrightarrow> ledger_at root w' l')"
  by (drule reserve_frame) (simp add: quiet_def ledger_at_def)

lemma ledger_load_quiet:
  "ledger_load codec root w = (r, w') \<Longrightarrow> quiet root w w' \<and> (\<forall>l. r = Inr l \<longrightarrow> ledger_at root w' l)"
  using ledger_load_host by (fastforce simp: host_same_def quiet_def ledger_at_def)

lemma commit_reserve_quiet:
  assumes "commit_reserve ex root a role w = (r, w')"
  shows "quiet root w w' \<and> (\<forall>l i. r = Inr (l, i) \<longrightarrow> ledger_at root w' l)
     \<and> (\<forall>out. r = Inl out \<longrightarrow> (\<exists>m. out = TurnRejected IllegalTransition m))"
proof (cases "ledger_load (sc_ledger (ex_codecs ex)) root w")
  case (Pair rl w1)
  note q1 = ledger_load_quiet [OF Pair]
  show ?thesis
  proof (cases rl)
    case (Inl e)
    with Pair assms q1 show ?thesis by (auto simp: commit_reserve_def)
  next
    case (Inr l)
    obtain rr l1 w2 where rv: "ledger_reserve (ex_sha ex) (wa_workflow_id a) (wa_workflow_revision a)
        (wa_state a) role (acceptance_pair_result role) l w1 = (rr, l1, w2)" by (metis prod_cases3)
    note q2 = reserve_quiet [OF rv, of root]
    have q12: "quiet root w w2" using q1 q2 quiet_trans by blast
    have at: "ledger_at root w2 l1" using q1 q2 Inr by blast
    obtain rs w3 where sv: "ledger_save_atomic (sc_ledger (ex_codecs ex)) l1 w2 = (rs, w3)" by fastforce
    note q3 = ledger_save_quiet [OF sv at]
    have q13: "quiet root w w3" using q12 q3 quiet_trans by blast
    have at3: "ledger_at root w3 l1" using at q3 by (rule ledger_at_quiet)
    have qf: "quiet root w (fail_row ex i l1 w3)" for i
      using q13 fail_row_quiet [OF at3] quiet_trans by blast
    show ?thesis
      using assms Pair Inr rv sv q12 q13 at3 qf
      by (auto simp: commit_reserve_def Let_def split: sum.splits)
  qed
qed

lemma commit_pending_quiet:
  assumes "commit_pending ex rid target l w = (r, w')" and "ledger_at root w l"
  shows "quiet root w w' \<and> (\<forall>l'. r = Inr l' \<longrightarrow> ledger_at root w' l')
     \<and> (\<forall>out. r = Inl out \<longrightarrow> (\<exists>m. out = TurnRejected IllegalTransition m))"
proof -
  obtain rm l1 where mp: "mark_pending rid (map_option word_str target) l = (rm, l1)" by fastforce
  have at: "ledger_at root w l1" using mark_pending_ids [OF mp] assms(2) by (simp add: ledger_at_def)
  obtain rs w1 where sv: "ledger_save_atomic (sc_ledger (ex_codecs ex)) l1 w = (rs, w1)" by fastforce
  note q = ledger_save_quiet [OF sv at]
  have at1: "ledger_at root w1 l1" using at q by (rule ledger_at_quiet)
  have qf: "quiet root w (fail_row ex rid l1 w1)" using q fail_row_quiet [OF at1] quiet_trans by blast
  show ?thesis
    using assms mp sv q at1 qf fail_row_quiet [OF at]
    by (auto simp: commit_pending_def split: sum.splits)
qed

subsection \<open>The abstract machine\<close>

text \<open>
  A committed transition: a legal result for the role the stage expects, the stage routed
  through check 8b, the revision up by one, the defect counter up by one exactly on entry to
  the correction stage; the identity of the workflow and its slots stay.
\<close>

definition advanced ::
  "workflow_assignment \<Rightarrow> workflow_role \<Rightarrow> completion_result \<Rightarrow> workflow_assignment \<Rightarrow> bool" where
  "advanced a r c b \<longleftrightarrow>
     (\<exists>t. legal_next_stage (wa_state a) r c = Some t \<and> wa_state b = effective_next_stage a t)
     \<and> wa_workflow_revision b = wa_workflow_revision a + 1
     \<and> wa_defect_loop_count b =
         (if wa_state b = PrimaryCorrectionPending then wa_defect_loop_count a + 1
          else wa_defect_loop_count a)
     \<and> wa_workflow_id b = wa_workflow_id a \<and> wa_project_id b = wa_project_id a
     \<and> wa_primary b = wa_primary a \<and> wa_verifier b = wa_verifier a
     \<and> wa_final_reviewer b = wa_final_reviewer a \<and> wa_mode b = wa_mode a
     \<and> wa_language b = wa_language a \<and> wa_thread_id b = wa_thread_id a"

inductive wf_step :: "workflow_assignment \<Rightarrow> workflow_assignment \<Rightarrow> bool" where
  commit: "advanced a r c b \<Longrightarrow> wf_step a b"

inductive_cases wf_stepE: "wf_step a b"

inductive_simps wf_step_iff: "wf_step a b"

text \<open>How many more transitions an assignment can see.\<close>

definition wf_rank :: "workflow_assignment \<Rightarrow> nat" where
  "wf_rank a =
     (let fresh = (wa_defect_loop_count a = 0)
      in case wa_state a of
           PrimaryActive \<Rightarrow> (if fresh then 6 else 3)
         | PrimaryCorrectionPending \<Rightarrow> (if fresh then 6 else 3)
         | VerifierActive \<Rightarrow> (if fresh then 5 else 2)
         | FinalReviewerActive \<Rightarrow> (if fresh then 4 else 1)
         | TechLeadWait \<Rightarrow> 0
         | Blocked \<Rightarrow> 0)"

definition defect_bounded :: "workflow_assignment \<Rightarrow> bool" where
  "defect_bounded a \<longleftrightarrow> wa_defect_loop_count a \<le> SUPPORTED_DEFECT_LOOP_MAX"

lemma word_le_one: "(x :: u32) \<le> 1 \<Longrightarrow> x = 0 \<or> x = 1"
  by (simp add: word_le_nat_alt) (metis One_nat_def le_Suc_eq le_zero_eq unat_1 unat_eq_zero word_unat_eq_iff)

lemma advanced_rank:
  assumes "advanced a r c b"
  shows "wf_rank b < wf_rank a"
proof -
  from assms obtain t where t: "legal_next_stage (wa_state a) r c = Some t"
    "wa_state b = effective_next_stage a t" by (auto simp: advanced_def)
  have d: "wa_defect_loop_count b =
      (if wa_state b = PrimaryCorrectionPending then wa_defect_loop_count a + 1 else wa_defect_loop_count a)"
    using assms by (simp add: advanced_def)
  from t(1) show ?thesis
    unfolding legal_next_stage_cases using t(2) d
    by (auto simp: wf_rank_def Let_def effective_next_stage_def SUPPORTED_DEFECT_LOOP_MAX_def one_le_word
        split: if_splits)
qed

lemma advanced_defect:
  assumes "advanced a r c b" and "defect_bounded a"
  shows "defect_bounded b"
proof -
  have d: "wa_defect_loop_count b =
      (if wa_state b = PrimaryCorrectionPending then wa_defect_loop_count a + 1 else wa_defect_loop_count a)"
    using assms by (simp add: advanced_def)
  have "wa_defect_loop_count a = 0" if "wa_state b = PrimaryCorrectionPending"
    using that assms word_le_one [of "wa_defect_loop_count a"]
    by (auto simp: advanced_def effective_next_stage_def defect_bounded_def
        SUPPORTED_DEFECT_LOOP_MAX_def split: if_splits)
  with d assms(2) show ?thesis
    by (auto simp: defect_bounded_def SUPPORTED_DEFECT_LOOP_MAX_def)
qed

interpretation wf: ranked wf_step defect_bounded wf_rank
proof unfold_locales
  show "wf_step s t \<Longrightarrow> defect_bounded s \<Longrightarrow> defect_bounded t" for s t
    by (auto elim!: wf_stepE intro: advanced_defect)
  show "wf_step s t \<Longrightarrow> defect_bounded s \<Longrightarrow> wf_rank t < wf_rank s" for s t
    by (auto elim!: wf_stepE intro: advanced_rank)
qed

lemma wf_rank_bound: "wf_rank a \<le> 6"
  by (simp add: wf_rank_def Let_def split: workflow_stage.splits)

lemma wf_rank_terminal: "wf_rank a = 0 \<longleftrightarrow> is_terminal (wa_state a)"
  by (simp add: wf_rank_def Let_def split: workflow_stage.splits)

subsection \<open>Sending\<close>

text \<open>The message of an activation, as the adapter gets it.\<close>

definition activation ::
  "channel_ref \<Rightarrow> workflow_assignment \<Rightarrow> workflow_stage \<Rightarrow> string \<Rightarrow> string \<Rightarrow> u64 \<Rightarrow> outgoing" where
  "activation channel updated next_stage session_key tid uid =
     \<lparr>out_channel = channel,
      out_content = render_activation_body
          (build_workflow_context updated (claimed_role_for_state next_stage) session_key None) tid
        @ nl @ ''<@'' @ word_str uid @ ''>'',
      out_target = Some (word_str uid)\<rparr>"

definition keeps_assignment :: "string \<Rightarrow> world \<Rightarrow> world \<Rightarrow> bool" where
  "keeps_assignment root w w' \<longleftrightarrow>
     resolve w' = resolve w \<and> clock w' = clock w
     \<and> files w' (assignment_file (resolve w root)) = files w (assignment_file (resolve w root))"

lemma quiet_iff: "quiet root w w' \<longleftrightarrow> keeps_assignment root w w' \<and> sent w' = sent w"
  by (auto simp: quiet_def keeps_assignment_def)

lemma keeps_assignment_refl [simp]: "keeps_assignment root w w"
  by (simp add: keeps_assignment_def)

lemma keeps_assignment_trans [trans]:
  "keeps_assignment root u v \<Longrightarrow> keeps_assignment root v w \<Longrightarrow> keeps_assignment root u w"
  by (simp add: keeps_assignment_def)

lemma ledger_at_keeps: "ledger_at root w l \<Longrightarrow> keeps_assignment root w w' \<Longrightarrow> ledger_at root w' l"
  by (simp add: ledger_at_def keeps_assignment_def)

lemma send_activation_keeps:
  assumes "send_targeted_activation adapter channel
             (render_activation_body (build_workflow_context u (claimed_role_for_state s) key None) tid) uid w
           = (r, w')"
  shows "keeps_assignment root w w' \<and> sent w' = sent w @ [activation channel u s key tid uid]"
  using send_targeted_activation_frame [OF assms] by (simp add: keeps_assignment_def activation_def)

lemma commit_send_effect:
  assumes "commit_send ex key channel a u r s tid rid name target l w = (res, w')"
    and at: "ledger_at root w l"
  shows "keeps_assignment root w w'
     \<and> (case res of Inl out \<Rightarrow> \<exists>m. out = SendFailed tid m | Inr m \<Rightarrow> send_required target s \<longleftrightarrow> m \<noteq> None)
     \<and> (if send_required target s
        then sent w' = sent w @ [activation channel u s key tid (the target)]
        else sent w' = sent w \<and> res = Inr None)"
proof (cases "send_required target s")
  case False
  with assms show ?thesis by (auto simp: commit_send_def)
next
  case True
  then obtain uid where uid: "target = Some uid" by (auto simp: send_required_def)
  obtain rr w1 where snd: "send_targeted_activation (ex_adapter ex) channel
      (render_activation_body (build_workflow_context u (claimed_role_for_state s) key None) tid) uid w
      = (rr, w1)" by fastforce
  note k = send_activation_keeps [OF snd, of root]
  have at1: "ledger_at root w1 l" using at k ledger_at_keeps by blast
  note f = fail_row_quiet [OF at1, of ex rid, unfolded quiet_iff]
  have kf: "keeps_assignment root w (fail_row ex rid l w1)" using k f keeps_assignment_trans by blast
  show ?thesis
  proof (cases rr)
    case (Inl e)
    with assms(1) True uid snd k kf f show ?thesis
      by (cases e) (auto simp: commit_send_def Let_def claim_scope_def)
  next
    case (Inr m)
    then have "m \<noteq> None" using snd send_targeted_activation_Some by blast
    with Inr assms(1) True uid snd k show ?thesis
      by (auto simp: commit_send_def Let_def claim_scope_def)
  qed
qed

subsection \<open>Saving\<close>

text \<open>The assignment a committed turn leaves behind, but for the time stamps and the message id.\<close>

definition post_commit ::
  "workflow_assignment \<Rightarrow> workflow_role \<Rightarrow> workflow_stage \<Rightarrow> string \<Rightarrow> workflow_assignment" where
  "post_commit a r s tid =
     a\<lparr>wa_state := s, wa_workflow_revision := wa_workflow_revision a + 1,
       wa_last_transition_id := Some tid, wa_last_delivery_message_id := None,
       wa_defect_loop_count :=
         (if s = PrimaryCorrectionPending \<and> (r = Verifier \<or> r = FinalReviewer)
          then wa_defect_loop_count a + 1 else wa_defect_loop_count a)\<rparr>"

lemma commit_updated_effect:
  "commit_updated a r s tid w = (u, w') \<Longrightarrow>
     quiet root w w' \<and> (\<exists>t. u = (post_commit a r s tid)\<lparr>wa_updated_at := t\<rparr>)"
  by (cases a) (auto simp: commit_updated_def post_commit_def Let_def intro: utc_now_quiet
      split: prod.splits if_splits)

definition stored :: "workflow_assignment json_codec \<Rightarrow> string \<Rightarrow> world \<Rightarrow> workflow_assignment \<Rightarrow> bool" where
  "stored codec root w a \<longleftrightarrow>
     (\<exists>d. files w (assignment_file (resolve w root)) = Some d \<and> from_json codec d = Inr a)"

lemma stored_unique: "stored codec root w a \<Longrightarrow> stored codec root w b \<Longrightarrow> a = b"
  by (auto simp: stored_def)

lemma stored_keeps: "keeps_assignment root w w' \<Longrightarrow> stored codec root w' a = stored codec root w a"
  by (simp add: stored_def keeps_assignment_def)

lemma load_stored: "load_assignment codec root w = (Inr (Some a), w') \<Longrightarrow> stored codec root w a \<and> assignment_wf a"
  using load_assignment_Some by (auto simp: stored_def)

text \<open>What a finished commit has on disk.\<close>

definition saved ::
  "externals \<Rightarrow> string \<Rightarrow> world \<Rightarrow> workflow_assignment \<Rightarrow> string option \<Rightarrow> workflow_assignment \<Rightarrow> bool" where
  "saved ex root w' u m b \<longleftrightarrow>
     assignment_wf b
     \<and> (\<exists>t. b = u\<lparr>wa_last_delivery_message_id := m, wa_project_root := resolve w' root, wa_updated_at := t\<rparr>)
     \<and> (\<exists>d. files w' (assignment_file (resolve w' root)) = Some d
           \<and> to_json (sc_assignment (ex_codecs ex)) b = Inr d)"

lemma saved_stored: "codec_ok (sc_assignment (ex_codecs ex)) \<Longrightarrow> saved ex root w u m b \<Longrightarrow>
    stored (sc_assignment (ex_codecs ex)) root w b"
  by (auto simp: saved_def stored_def codec_ok_def)

lemma saved_keeps: "keeps_assignment root w w' \<Longrightarrow> saved ex root w' u m b = saved ex root w u m b"
  by (simp add: saved_def keeps_assignment_def)

lemma commit_finish_effect:
  assumes "commit_finish ex root u s tid rid name target m l w = (out, w')"
    and at: "ledger_at root w l"
  shows "sent w' = sent w \<and> resolve w' = resolve w \<and> clock w' = clock w
     \<and> ((out = TurnAccepted tid s name target m \<and> (\<exists>b. saved ex root w' u m b))
        \<or> ((\<exists>x. out = SendFailed tid x) \<and> keeps_assignment root w w'))"
proof -
  obtain now w1 where n: "utc_now w = (now, w1)" by fastforce
  note q1 = utc_now_quiet [OF n, of root]
  let ?p = "u\<lparr>wa_last_delivery_message_id := m, wa_updated_at := now\<rparr>"
  obtain rs w2 where sv: "save_assignment_atomic (sc_assignment (ex_codecs ex)) root ?p w1 = (rs, w2)"
    by fastforce
  note f2 = save_assignment_frame [OF sv] save_assignment_files [OF sv]
  obtain rd l1 w3 where md: "mark_delivered rid m l w2 = (rd, l1, w3)" by (metis prod_cases3)
  note f3 = mark_delivered_frame [OF md]
  obtain rl w4 where sl: "ledger_save_atomic (sc_ledger (ex_codecs ex)) l1 w3 = (rl, w4)" by fastforce
  have at3: "ledger_at root w3 l1"
    using at q1 f2 f3 by (simp add: ledger_at_def quiet_def)
  note q4 = ledger_save_quiet [OF sl at3]
  have q3: "keeps_assignment root w2 w4" using q4 f3 by (simp add: quiet_def keeps_assignment_def)
  show ?thesis
  proof (cases rs)
    case (Inl e)
    with assms(1) n sv q1 f2 show ?thesis
      by (auto simp: commit_finish_def keeps_assignment_def quiet_def)
  next
    case (Inr p)
    have res: "resolve w2 = resolve w1" using f2 by blast
    from f2 Inr obtain t d where t: "files w2 (assignment_file (resolve w1 root)) = Some d"
        "to_json (sc_assignment (ex_codecs ex)) (?p\<lparr>wa_project_root := resolve w1 root, wa_updated_at := t\<rparr>) = Inr d"
        "assignment_wf (?p\<lparr>wa_project_root := resolve w1 root, wa_updated_at := t\<rparr>)"
      by blast
    have "?p\<lparr>wa_project_root := resolve w1 root, wa_updated_at := t\<rparr>
        = u\<lparr>wa_last_delivery_message_id := m, wa_project_root := resolve w1 root, wa_updated_at := t\<rparr>"
      by (cases u) simp
    with t res have "saved ex root w2 u m
        (?p\<lparr>wa_project_root := resolve w1 root, wa_updated_at := t\<rparr>)"
      unfolding saved_def by metis
    then have "\<exists>b. saved ex root w4 u m b" using saved_keeps [OF q3] by blast
    with assms(1) n sv Inr md sl q1 f2 f3 q4 show ?thesis
      by (auto simp: commit_finish_def quiet_def)
  qed
qed

subsection \<open>The commit protocol as a whole\<close>

fun turn_accepted :: "turn_outcome \<Rightarrow> bool" where
  "turn_accepted (TurnAccepted _ _ _ _ _) = True"
| "turn_accepted _ = False"

text \<open>The outcomes of a turn that reached the messenger.\<close>

fun turn_reached_messenger :: "turn_outcome \<Rightarrow> bool" where
  "turn_reached_messenger (TurnAccepted _ _ _ _ _) = True"
| "turn_reached_messenger (SendFailed _ _) = True"
| "turn_reached_messenger _ = False"

text \<open>The messages a commit has for the outbox: at most one, to the bot of the next role.\<close>

definition commit_messages ::
  "workflow_service \<Rightarrow> string \<Rightarrow> channel_ref \<Rightarrow> workflow_assignment \<Rightarrow> workflow_role
     \<Rightarrow> workflow_stage \<Rightarrow> string \<Rightarrow> outgoing list" where
  "commit_messages s key channel a r t tid =
     (case commit_target s a t of
        (_, None) \<Rightarrow> []
      | (_, Some uid) \<Rightarrow>
          if send_required (Some uid) t then [activation channel (post_commit a r t tid) t key tid uid]
          else [])"

lemma activation_time [simp]:
  "activation channel (a\<lparr>wa_updated_at := now\<rparr>) t key tid uid = activation channel a t key tid uid"
  by (simp add: activation_def build_workflow_context_def)

lemma saved_time: "saved ex root w (a\<lparr>wa_updated_at := now\<rparr>) m b = saved ex root w a m b"
  by (simp add: saved_def)

lemma send_required_messages:
  "commit_target s a t = (name, target) \<Longrightarrow>
     commit_messages s key channel a r t tid =
       (if send_required target t then [activation channel (post_commit a r t tid) t key tid (the target)] else [])"
  by (auto simp: commit_messages_def send_required_def split: option.splits)

lemma commit_protocol_effect:
  assumes "commit_protocol ex s key root channel a r t tid w = (out, w')"
  shows "resolve w' = resolve w
     \<and> ((\<exists>name target m b. commit_target s a t = (name, target) \<and> out = TurnAccepted tid t name target m
            \<and> (send_required target t \<longleftrightarrow> m \<noteq> None) \<and> saved ex root w' (post_commit a r t tid) m b)
        \<or> (\<not> turn_accepted out \<and> keeps_assignment root w w'))
     \<and> sent w' = sent w @ (if turn_reached_messenger out
                           then commit_messages s key channel a r t tid else [])"
proof -
  obtain rr w1 where rv: "commit_reserve ex root a r w = (rr, w1)" by fastforce
  note q1 = commit_reserve_quiet [OF rv, unfolded quiet_iff]
  obtain name target where tg: "commit_target s a t = (name, target)" by fastforce
  note ms = send_required_messages [OF tg, of key channel r tid]
  show ?thesis
  proof (cases rr)
    case (Inl o1)
    with q1 assms rv show ?thesis by (auto simp: commit_protocol_def keeps_assignment_def)
  next
    case (Inr li)
    then obtain l1 rid where li: "rr = Inr (l1, rid)" by (cases li) auto
    have at1: "ledger_at root w1 l1" using q1 li by blast
    obtain rp w2 where pd: "commit_pending ex rid target l1 w1 = (rp, w2)" by fastforce
    note q2 = commit_pending_quiet [OF pd at1, unfolded quiet_iff]
    show ?thesis
    proof (cases rp)
      case (Inl o2)
      with q1 q2 assms rv li tg pd show ?thesis
        by (auto simp: commit_protocol_def keeps_assignment_def)
    next
      case (Inr l2)
      obtain u w3 where up: "commit_updated a r t tid w2 = (u, w3)" by fastforce
      note q3 = commit_updated_effect [OF up, of root, unfolded quiet_iff]
      then obtain now where u: "u = (post_commit a r t tid)\<lparr>wa_updated_at := now\<rparr>" by blast
      have at3: "ledger_at root w3 l2" using q2 q3 Inr ledger_at_keeps by blast
      obtain rs w4 where sn: "commit_send ex key channel a u r t tid rid name target l2 w3 = (rs, w4)"
        by fastforce
      note q4 = commit_send_effect [OF sn at3]
      have k4: "keeps_assignment root w w4"
        using q1 q2 q3 q4 by (simp add: keeps_assignment_def)
      have s3: "sent w3 = sent w" using q1 q2 q3 by simp
      have s4: "sent w4 = sent w @ commit_messages s key channel a r t tid"
        using q4 s3 ms u by (simp split: if_splits)
      show ?thesis
      proof (cases rs)
        case (Inl o4)
        have o: "out = o4 \<and> w' = w4"
          using assms rv li tg pd Inr up sn Inl by (simp add: commit_protocol_def)
        from q4 Inl obtain x where x: "o4 = SendFailed tid x" by auto
        show ?thesis
          unfolding o [THEN conjunct1] o [THEN conjunct2] x
          using k4 s4 by (simp add: keeps_assignment_def)
      next
        case rsm: (Inr m)
        have at4: "ledger_at root w4 l2" using at3 q4 ledger_at_keeps by blast
        have fin: "commit_finish ex root u t tid rid name target m l2 w4 = (out, w')"
          using assms rv li tg pd Inr up sn rsm by (simp add: commit_protocol_def)
        note q5 = commit_finish_effect [OF fin at4]
        have km: "send_required target t \<longleftrightarrow> m \<noteq> None" using q4 rsm by simp
        have rw: "resolve w' = resolve w" using q5 k4 by (simp add: keeps_assignment_def)
        from q5 consider b where "out = TurnAccepted tid t name target m" "saved ex root w' u m b"
          | x where "out = SendFailed tid x" "keeps_assignment root w4 w'" by blast
        then show ?thesis
        proof cases
          case 1
          then show ?thesis using q5 s4 tg km u saved_time rw by auto
        next
          case 2
          then show ?thesis using q5 s4 rw keeps_assignment_trans [OF k4] by auto
        qed
      qed
    qed
  qed
qed

subsection \<open>One turn\<close>

text \<open>A claim the validator let through: what it says agrees with the trusted assignment.\<close>

definition claim_granted ::
  "externals \<Rightarrow> workflow_assignment \<Rightarrow> string \<Rightarrow> parsed_claim \<Rightarrow> workflow_stage \<Rightarrow> string \<Rightarrow> bool" where
  "claim_granted ex a txt c t tid \<longleftrightarrow>
     parse_role_completion (ex_lower ex) (ex_key_order ex) txt = ParsedClaim c
     \<and> pc_workflow_id c = wa_workflow_id a \<and> pc_project_id c = wa_project_id a
     \<and> (\<exists>u. legal_next_stage (wa_state a) (pc_role c) (pc_result c) = Some u
           \<and> t = effective_next_stage a u)
     \<and> tid = derive_transition_id (ex_sha ex) (wa_workflow_id a) (wa_workflow_revision a)
               (wa_state a) (pc_role c) (pc_result c)"

lemma replay_of_quiet: "replay_of ex root tid w = (r, w') \<Longrightarrow> quiet root w w'"
  by (auto simp: replay_of_def dest!: ledger_load_quiet split: prod.splits sum.splits)

lemma validate_quiet: "validate sha c a r w = (out, w') \<Longrightarrow> quiet root w w'"
  by (drule validate_frame) (simp add: quiet_def)

lemma run_claim_cases:
  assumes "run_claim ex s key root channel a txt w = (out, w')"
  obtains (stopped) "\<not> turn_reached_messenger out" "quiet root w w'"
  | (granted) c t tid w2 where "claim_granted ex a txt c t tid" "quiet root w w2"
      "fst (replay_of ex root tid w) = RNew"
      "commit_protocol ex s key root channel a (pc_role c) t tid w2 = (out, w')"
proof (cases "parse_role_completion (ex_lower ex) (ex_key_order ex) txt")
  case (ParsedClaim c)
  let ?tid = "derive_transition_id (ex_sha ex) (wa_workflow_id a) (wa_workflow_revision a)
               (wa_state a) (pc_role c) (pc_result c)"
  obtain rp w1 where rp: "replay_of ex root ?tid w = (rp, w1)" by fastforce
  obtain v w2 where v: "validate (ex_sha ex) c a rp w1 = (v, w2)" by fastforce
  have q: "quiet root w w2" using replay_of_quiet [OF rp] validate_quiet [OF v] quiet_trans by blast
  show thesis
  proof (cases v)
    case (VAccepted st r x t i n)
    note acc = validate_accepted [OF v [unfolded VAccepted]]
    note stage = acc [THEN conjunct2, THEN conjunct2, THEN conjunct2, unfolded validate_stage_accepted]
    have "claim_granted ex a txt c t i" using acc stage ParsedClaim by (auto simp: claim_granted_def)
    moreover have "commit_protocol ex s key root channel a (pc_role c) t i w2 = (out, w')"
      using assms ParsedClaim rp v VAccepted stage by (simp add: run_claim_def Let_def)
    moreover have "fst (replay_of ex root i w) = RNew" using rp stage by simp
    ultimately show thesis using granted q by blast
  qed (use assms ParsedClaim rp v q stopped in \<open>auto simp: run_claim_def Let_def\<close>)
qed (use assms stopped in \<open>auto simp: run_claim_def\<close>)

text \<open>A granted claim makes the saved assignment a step of the abstract machine.\<close>

lemma granted_advanced:
  assumes "claim_granted ex a txt c t tid" and "saved ex root w (post_commit a (pc_role c) t tid) m b"
  shows "advanced a (pc_role c) (pc_result c) b"
proof -
  from assms(1) obtain u where u: "legal_next_stage (wa_state a) (pc_role c) (pc_result c) = Some u"
    "t = effective_next_stage a u" by (auto simp: claim_granted_def)
  have "pc_role c = Verifier \<or> pc_role c = FinalReviewer" if "t = PrimaryCorrectionPending"
    using that u by (auto simp: legal_next_stage_cases effective_next_stage_def split: if_splits)
  then show ?thesis
    using u assms(2) by (auto simp: advanced_def saved_def post_commit_def)
qed

text \<open>The result of a turn on the assignment the file held.\<close>

definition turn_result ::
  "externals \<Rightarrow> workflow_service \<Rightarrow> string \<Rightarrow> string \<Rightarrow> channel_ref \<Rightarrow> string \<Rightarrow> world
     \<Rightarrow> workflow_assignment \<Rightarrow> turn_outcome \<Rightarrow> world \<Rightarrow> bool" where
  "turn_result ex s key root channel txt w a out w' \<longleftrightarrow>
     (\<exists>c t tid. claim_granted ex a txt c t tid
        \<and> sent w' = sent w @ commit_messages s key channel a (pc_role c) t tid
        \<and> (turn_accepted out \<longrightarrow>
             (\<exists>name target m b. commit_target s a t = (name, target) \<and> out = TurnAccepted tid t name target m
                \<and> (send_required target t \<longleftrightarrow> m \<noteq> None)
                \<and> saved ex root w' (post_commit a (pc_role c) t tid) m b)))"

lemma run_claim_effect:
  assumes "run_claim ex s key root channel a txt w = (out, w')"
  shows "resolve w' = resolve w
     \<and> (if turn_reached_messenger out then turn_result ex s key root channel txt w a out w'
        else sent w' = sent w)
     \<and> (\<not> turn_accepted out \<longrightarrow> keeps_assignment root w w')"
  using assms
proof (cases rule: run_claim_cases)
  case stopped
  then show ?thesis by (cases out) (auto simp: quiet_iff keeps_assignment_def)
next
  case (granted c t tid w2)
  note e = commit_protocol_effect [OF granted(4)]
  have q: "resolve w2 = resolve w" "sent w2 = sent w" "keeps_assignment root w w2"
    using granted(2) by (auto simp: quiet_iff keeps_assignment_def)
  have acc: "turn_accepted out \<Longrightarrow> turn_reached_messenger out" by (cases out) auto
  have "turn_result ex s key root channel txt w a out w'" if "turn_reached_messenger out"
    unfolding turn_result_def
    by (rule exI [of _ c], rule exI [of _ t], rule exI [of _ tid]) (use e q granted(1) that in auto)
  moreover have "keeps_assignment root w w'" if "\<not> turn_accepted out"
    using e q that by (auto simp: keeps_assignment_def)
  ultimately show ?thesis using e q by auto
qed

lemma recover_quiet:
  assumes "recover_project_workflow ex root s w = (r, s', w')"
  shows "quiet root w w' \<and> ws_bot_user_ids s' = ws_bot_user_ids s"
proof (cases "components root \<in> ws_reconciled_projects s")
  case True
  with assms show ?thesis by (auto simp: recover_project_workflow_def Let_def)
next
  case False
  obtain rr w1 where rc: "reconcile_project_workflow (ex_codecs ex) root w = (rr, w1)" by fastforce
  have "w' = w1 \<and> ws_bot_user_ids s' = ws_bot_user_ids s"
    using assms False rc by (auto simp: recover_project_workflow_def Let_def
        split: run.splits sum.splits if_splits)
  then show ?thesis using reconcile_effect [OF rc] by (simp add: quiet_def)
qed

lemma commit_target_bots:
  "ws_bot_user_ids s' = ws_bot_user_ids s \<Longrightarrow> commit_target s' = commit_target s"
  by (intro ext) (simp add: commit_target_def split: workflow_stage.split)

lemma turn_result_cong:
  assumes "ws_bot_user_ids s' = ws_bot_user_ids s" and "sent w1 = sent w"
  shows "turn_result ex s' root key channel txt w1 a out w' = turn_result ex s root key channel txt w a out w'"
  using assms by (simp add: turn_result_def commit_messages_def commit_target_bots [OF assms(1)])

text \<open>Everything a turn can do to the outbox and to the assignment file.\<close>

lemma turn_effect:
  assumes "on_turn_complete ex key (Some root) channel txt fin s w = (r, s', w')"
  shows "resolve w' = resolve w \<and> ws_bot_user_ids s' = ws_bot_user_ids s
     \<and> (case r of
          Panicked \<Rightarrow> quiet root w w'
        | Returned out \<Rightarrow>
            (if turn_reached_messenger out
             then \<exists>a. stored (sc_assignment (ex_codecs ex)) root w a \<and> assignment_wf a
                    \<and> path_eq (wa_project_root a) (resolve w root)
                    \<and> turn_result ex s key root channel txt w a out w'
             else sent w' = sent w)
            \<and> (\<not> turn_accepted out \<longrightarrow> keeps_assignment root w w'))"
proof (cases fin)
  case False
  with assms show ?thesis by (auto simp: on_turn_complete_def)
next
  case True
  obtain rr s1 w1 where rc: "recover_project_workflow ex root s w = (rr, s1, w1)" by (metis prod_cases3)
  note q1 = recover_quiet [OF rc, unfolded quiet_iff]
  obtain la w2 where la: "load_assignment (sc_assignment (ex_codecs ex)) root w1 = (la, w2)" by fastforce
  have q2: "keeps_assignment root w1 w2 \<and> sent w2 = sent w1"
    using load_assignment_host [OF la] host_same_quiet quiet_iff by blast
  have k2: "keeps_assignment root w w2" using q1 q2 by (simp add: keeps_assignment_def)
  consider (stop) "r = Returned NoAssignment \<or> r = Panicked" "s' = s1" "w' = w1 \<or> w' = w2"
    | (run) a out where "la = Inr (Some a)" "r = Returned out" "s' = s1"
        "run_claim ex s1 key root channel a txt w2 = (out, w')"
    using assms True rc la
    by (auto simp: on_turn_complete_def split: run.splits sum.splits option.splits prod.splits)
  then show ?thesis
  proof cases
    case stop
    then show ?thesis using q1 q2 k2 by (auto simp: keeps_assignment_def quiet_iff)
  next
    case run
    note e = run_claim_effect [OF run(4)]
    have l: "load_assignment (sc_assignment (ex_codecs ex)) root w1 = (Inr (Some a), w2)"
      using la run(1) by simp
    have k1: "keeps_assignment root w w1" using q1 by simp
    then have "resolve w1 root = resolve w root" by (simp add: keeps_assignment_def)
    then have st: "stored (sc_assignment (ex_codecs ex)) root w a \<and> assignment_wf a
        \<and> path_eq (wa_project_root a) (resolve w root)"
      using load_stored [OF l] load_assignment_Some [OF l] stored_keeps [OF k1] by simp
    have tr: "turn_result ex s1 key root channel txt w2 a out w' = turn_result ex s key root channel txt w a out w'"
      using q1 q2 by (intro turn_result_cong) auto
    have kw: "keeps_assignment root w w'" if "\<not> turn_accepted out"
      using e that k2 by (simp add: keeps_assignment_def)
    show ?thesis
      using e st tr kw run(2,3) q1 q2 by (auto simp: keeps_assignment_def)
  qed
qed

subsection \<open>Turns in a row\<close>

text \<open>The turns of one project, one after the other; the host and the service carry over.\<close>

record turn_input =
  ti_session_key :: string
  ti_channel :: channel_ref
  ti_text :: string
  ti_terminal :: bool

fun run_turns ::
  "externals \<Rightarrow> string \<Rightarrow> turn_input list \<Rightarrow> workflow_service \<Rightarrow> world
     \<Rightarrow> turn_outcome run list \<times> workflow_service \<times> world" where
  "run_turns ex root [] s w = ([], s, w)"
| "run_turns ex root (i # inputs) s w =
     (case on_turn_complete ex (ti_session_key i) (Some root) (ti_channel i) (ti_text i) (ti_terminal i) s w of
        (r, s1, w1) \<Rightarrow>
          (case run_turns ex root inputs s1 w1 of (rs, s2, w2) \<Rightarrow> (r # rs, s2, w2)))"

fun run_accepted :: "turn_outcome run \<Rightarrow> bool" where
  "run_accepted (Returned out) = turn_accepted out"
| "run_accepted Panicked = False"

fun run_reached :: "turn_outcome run \<Rightarrow> bool" where
  "run_reached (Returned out) = turn_reached_messenger out"
| "run_reached Panicked = False"

lemma accepted_reached: "turn_accepted out \<Longrightarrow> turn_reached_messenger out"
  by (cases out) auto

text \<open>An accepted turn is one step of the abstract machine on the stored assignment.\<close>

lemma accepted_turn_step:
  assumes "on_turn_complete ex key (Some root) channel txt fin s w = (Returned out, s', w')"
    and "turn_accepted out" and "codec_ok (sc_assignment (ex_codecs ex))"
  shows "\<exists>a b. stored (sc_assignment (ex_codecs ex)) root w a \<and> assignment_wf a
     \<and> stored (sc_assignment (ex_codecs ex)) root w' b \<and> assignment_wf b \<and> wf_step a b"
proof -
  from turn_effect [OF assms(1)] assms(2) accepted_reached [OF assms(2)] obtain a where
    a: "stored (sc_assignment (ex_codecs ex)) root w a" "assignment_wf a"
      "turn_result ex s key root channel txt w a out w'" by auto
  then obtain c t tid m b where c: "claim_granted ex a txt c t tid"
      "saved ex root w' (post_commit a (pc_role c) t tid) m b"
    using assms(2) by (auto simp: turn_result_def)
  have "wf_step a b" using granted_advanced [OF c] by (rule wf_step.commit)
  moreover have "assignment_wf b" using c(2) by (simp add: saved_def)
  moreover have "stored (sc_assignment (ex_codecs ex)) root w' b"
    using saved_stored [OF assms(3) c(2)] .
  ultimately show ?thesis using a by blast
qed

text \<open>Any other turn leaves the stored assignment as it is.\<close>

lemma other_turn_keeps:
  assumes "on_turn_complete ex key (Some root) channel txt fin s w = (r, s', w')"
    and "\<not> run_accepted r"
  shows "keeps_assignment root w w'"
  using turn_effect [OF assms(1)] assms(2) by (cases r) (auto simp: quiet_iff)

lemma turn_resolve:
  "on_turn_complete ex key (Some root) channel txt fin s w = (r, s', w') \<Longrightarrow> resolve w' = resolve w"
  using turn_effect by blast

lemma run_turns_steps:
  assumes "run_turns ex root inputs s w = (rs, s', w')"
    and "codec_ok (sc_assignment (ex_codecs ex))"
    and "stored (sc_assignment (ex_codecs ex)) root w a"
  shows "\<exists>b. stored (sc_assignment (ex_codecs ex)) root w' b
           \<and> (wf_step ^^ length (filter run_accepted rs)) a b"
  using assms(1,3)
proof (induction inputs arbitrary: s w a rs)
  case Nil
  then show ?case by auto
next
  case (Cons i inputs)
  obtain r s1 w1 where t: "on_turn_complete ex (ti_session_key i) (Some root) (ti_channel i) (ti_text i)
      (ti_terminal i) s w = (r, s1, w1)" by (metis prod_cases3)
  obtain rs1 where rs: "run_turns ex root inputs s1 w1 = (rs1, s', w')" "rs = r # rs1"
    using Cons.prems(1) t by (auto split: prod.splits)
  show ?case
  proof (cases "run_accepted r")
    case True
    then obtain out where out: "r = Returned out" "turn_accepted out" by (cases r) auto
    from accepted_turn_step [OF t [unfolded out(1)] out(2) assms(2)] Cons.prems(2)
    obtain b where b: "stored (sc_assignment (ex_codecs ex)) root w1 b" "wf_step a b"
      using stored_unique by metis
    from Cons.IH [OF rs(1) b(1)] obtain z where
      z: "stored (sc_assignment (ex_codecs ex)) root w' z"
        "(wf_step ^^ length (filter run_accepted rs1)) b z" by blast
    have "(wf_step ^^ Suc (length (filter run_accepted rs1))) a z"
      using b(2) z(2) by (rule relpowp_Suc_I2)
    with z(1) show ?thesis using rs(2) True by auto
  next
    case False
    from Cons.prems(2) have "stored (sc_assignment (ex_codecs ex)) root w1 a"
      using stored_keeps [OF other_turn_keeps [OF t False]] by simp
    from Cons.IH [OF rs(1) this] show ?thesis using rs(2) False by simp
  qed
qed

lemma turn_messages:
  assumes "on_turn_complete ex key (Some root) channel txt fin s w = (r, s', w')"
  shows "length (sent w') \<le> length (sent w) + (if run_reached r then 1 else 0)"
proof -
  have "length (commit_messages s key channel a x t tid) \<le> 1" for a x t tid
    by (auto simp: commit_messages_def split: prod.splits option.splits)
  then show ?thesis
    using turn_effect [OF assms] by (cases r) (auto simp: turn_result_def quiet_iff split: if_splits)
qed

end
