(* ===== verification/Workflow_Progress.thy ===== *)
theory Workflow_Progress
  imports Workflow_Turns
begin

section \<open>Turns on a host where nothing fails\<close>

text \<open>
  The progress half of the service's contract: with no I/O failure on the schedule, a readable
  ledger, an adapter that answers with ids and a codec that prints, a granted claim that has no
  ledger row yet is accepted, and its row ends \<open>DELIVERED\<close>.
\<close>

subsection \<open>Calm hosts\<close>

definition calm :: "string \<Rightarrow> world \<Rightarrow> bool" where
  "calm root w \<longleftrightarrow>
     faults w = [] \<and> root \<noteq> [] \<and> is_absolute (resolve w root) \<and> dirs w (resolve w root)
     \<and> resolve w (path_join (resolve w root) WORKFLOW_DIR) = path_join (resolve w root) WORKFLOW_DIR
     \<and> files w (path_join (resolve w root) WORKFLOW_DIR) = None"

lemma next_fault_calm: "faults w = [] \<Longrightarrow> next_fault w = (Proceed, w)"
  by (simp add: next_fault_def)

lemma canonicalize_root_calm: "calm root w \<Longrightarrow> canonicalize_root root w = (Inr (resolve w root), w)"
  by (simp add: canonicalize_root_def canonicalize_def path_is_dir_def next_fault_calm calm_def Let_def)

lemma write_atomic_calm:
  "faults w = [] \<Longrightarrow>
     write_atomic p d w = (Inr (), w\<lparr>files := (files w)(json_tmp p := None, p := Some d)\<rparr>)"
  by (simp add: write_atomic_def file_create_def file_write_all_def file_flush_def file_rename_def
      next_fault_calm Let_def fun_upd_twist)

lemma path_parent_join: "CHR ''/'' \<notin> set q \<Longrightarrow> q \<noteq> [] \<Longrightarrow> path_parent (path_join (path_join c WORKFLOW_DIR) q)
     = path_join c WORKFLOW_DIR"
proof -
  assume q: "CHR ''/'' \<notin> set q" "q \<noteq> []"
  have "last (path_join c WORKFLOW_DIR) \<noteq> CHR ''/''" "path_join c WORKFLOW_DIR \<noteq> []"
    by (simp_all add: path_join_def WORKFLOW_DIR_def)
  then have j: "path_join (path_join c WORKFLOW_DIR) q = path_join c WORKFLOW_DIR @ CHR ''/'' # q"
    by (simp add: path_join_def)
  have "dropWhile (\<lambda>x. x \<noteq> CHR ''/'') (rev q @ CHR ''/'' # r) = CHR ''/'' # r" for r
    using q(1) by (subst dropWhile_append2) auto
  with \<open>path_join c WORKFLOW_DIR \<noteq> []\<close> show ?thesis
    by (simp add: path_parent_def j Let_def)
qed

lemma ledger_parent: "path_parent (ledger_file c) = path_join c WORKFLOW_DIR"
  unfolding ledger_file_def by (rule path_parent_join) (simp_all add: LEDGER_FILENAME_def)

lemma store_not_dir [simp]:
  "ledger_file c \<noteq> path_join c WORKFLOW_DIR" "assignment_file c \<noteq> path_join c WORKFLOW_DIR"
  "json_tmp (ledger_file c) \<noteq> path_join c WORKFLOW_DIR"
  "json_tmp (assignment_file c) \<noteq> path_join c WORKFLOW_DIR"
proof -
  have ne: "path_join c WORKFLOW_DIR \<noteq> []" "last (path_join c WORKFLOW_DIR) \<noteq> CHR ''/''" for c
    by (simp_all add: path_join_def WORKFLOW_DIR_def)
  show "ledger_file c \<noteq> path_join c WORKFLOW_DIR" "assignment_file c \<noteq> path_join c WORKFLOW_DIR"
    "json_tmp (ledger_file c) \<noteq> path_join c WORKFLOW_DIR"
    "json_tmp (assignment_file c) \<noteq> path_join c WORKFLOW_DIR"
    using ne [of c]
    by (simp_all add: ledger_file_def assignment_file_def json_tmp_def path_join_def [of "path_join c WORKFLOW_DIR"])
qed

lemmas store_dir_neq [simp] = store_not_dir [THEN not_sym]

text \<open>A calm step that stores a text under one of the two names.\<close>

definition stores :: "string \<Rightarrow> string \<Rightarrow> string \<Rightarrow> world \<Rightarrow> world \<Rightarrow> bool" where
  "stores root p d w w' \<longleftrightarrow>
     calm root w' \<and> resolve w' = resolve w \<and> sent w' = sent w
     \<and> files w' = (files w)(json_tmp p := None, p := Some d)"

lemma calm_ticks [simp]: "calm root (w\<lparr>ticks := n\<rparr>) = calm root w"
  by (simp add: calm_def)

lemma calm_sent [simp]: "calm root (w\<lparr>sent := ms\<rparr>) = calm root w"
  by (simp add: calm_def)

lemma ledger_save_calm:
  assumes "calm root w" and "ledger_at root w l" and "to_json codec (tl_entries l) = Inr d"
  shows "\<exists>w'. ledger_save_atomic codec l w = (Inr (tl_path l), w') \<and> stores root (tl_path l) d w w'"
proof -
  let ?p = "ledger_file (resolve w root)"
  have p: "tl_path l = ?p" using assms(2) by (simp add: ledger_at_def)
  show ?thesis
    using assms(1,3)
    by (auto simp: ledger_save_atomic_def create_dir_all_def p ledger_parent calm_def
        next_fault_calm write_atomic_calm stores_def)
qed

lemma save_assignment_calm:
  assumes "calm root w" and "assignment_wf a" and "\<And>x. \<exists>d. to_json codec x = Inr d"
  shows "\<exists>w' d t. save_assignment_atomic codec root a w = (Inr (assignment_file (resolve w root)), w')
     \<and> stores root (assignment_file (resolve w root)) d w w'
     \<and> to_json codec (a\<lparr>wa_project_root := resolve w root, wa_updated_at := t\<rparr>) = Inr d"
proof -
  obtain t w1 where u: "utc_now w = (t, w1)" by fastforce
  then have w1: "w1 = w\<lparr>ticks := Suc (ticks w)\<rparr>" by (simp add: utc_now_def)
  let ?a = "a\<lparr>wa_project_root := resolve w root, wa_updated_at := t\<rparr>"
  have v: "assignment_validate ?a = Inr ()"
    using assms(1,2) by (simp add: assignment_validate_iff assignment_wf_def calm_def)
  obtain d where d: "to_json codec ?a = Inr d" using assms(3) by blast
  show ?thesis
    using assms(1) v d u
    by (auto simp: save_assignment_atomic_def canonicalize_root_calm create_dir_all_def next_fault_calm
        write_atomic_calm stores_def calm_def w1 assignment_file_def [symmetric] Let_def
        intro!: exI [of _ d] exI [of _ t])
qed

text \<open>The rows a reader of the ledger file gets.\<close>

definition ledger_read :: "ledger_entry list json_codec \<Rightarrow> string \<Rightarrow> world \<Rightarrow> ledger_entry list \<Rightarrow> bool" where
  "ledger_read codec root w es \<longleftrightarrow>
     (case files w (ledger_file (resolve w root)) of
        Some d \<Rightarrow> from_json codec d = Inr es
      | None \<Rightarrow> \<not> dirs w (ledger_file (resolve w root)) \<and> es = [])"

definition ledger_of :: "string \<Rightarrow> world \<Rightarrow> ledger_entry list \<Rightarrow> transition_ledger" where
  "ledger_of root w es = \<lparr>tl_entries = es, tl_path = ledger_file (resolve w root)\<rparr>"

lemma ledger_of_simps [simp]:
  "tl_entries (ledger_of root w es) = es" "ledger_at root w (ledger_of root w es)"
  by (simp_all add: ledger_of_def ledger_at_def)

lemma ledger_load_calm:
  "calm root w \<Longrightarrow> ledger_read codec root w es \<Longrightarrow> ledger_load codec root w = (Inr (ledger_of root w es), w)"
  by (auto simp: ledger_load_def canonicalize_root_calm path_exists_def read_to_string_def
      next_fault_calm ledger_read_def ledger_of_def Let_def calm_def split: option.splits)

subsection \<open>The protocol, step by step\<close>

definition prints :: "'a json_codec \<Rightarrow> bool" where
  "prints codec \<longleftrightarrow> (\<forall>x. \<exists>d. to_json codec x = Inr d)"

definition answers :: "chat_adapter \<Rightarrow> bool" where
  "answers adapter \<longleftrightarrow> (\<forall>n c x t. \<exists>i. adapter n c x t = Inr i \<and> trim i \<noteq> [])"

lemma ledger_save_prints:
  assumes "calm root w" and "ledger_at root w l" and "prints codec"
  shows "\<exists>w' d. ledger_save_atomic codec l w = (Inr (tl_path l), w') \<and> calm root w'
     \<and> resolve w' = resolve w \<and> ledger_at root w' l
     \<and> files w' (ledger_file (resolve w root)) = Some d \<and> to_json codec (tl_entries l) = Inr d"
proof -
  obtain d where d: "to_json codec (tl_entries l) = Inr d" using assms(3) by (auto simp: prints_def)
  from ledger_save_calm [OF assms(1,2) d] obtain w' where
    "ledger_save_atomic codec l w = (Inr (tl_path l), w')" "stores root (tl_path l) d w w'" by blast
  then show ?thesis using d assms(2) by (auto simp: stores_def ledger_at_def)
qed

definition acceptance_id :: "externals \<Rightarrow> workflow_assignment \<Rightarrow> workflow_role \<Rightarrow> string" where
  "acceptance_id ex a r = derive_transition_id (ex_sha ex) (wa_workflow_id a) (wa_workflow_revision a)
     (wa_state a) r (acceptance_pair_result r)"

lemma commit_reserve_calm:
  assumes "calm root w" and "ledger_read (sc_ledger (ex_codecs ex)) root w es"
    and "prints (sc_ledger (ex_codecs ex))" and "distinct_ids (ledger_of root w es)"
    and "status_of (ledger_of root w es) (acceptance_id ex a r) \<in> {None, Some Reserved}"
  shows "\<exists>l1 w1. commit_reserve ex root a r w = (Inr (l1, acceptance_id ex a r), w1)
     \<and> calm root w1 \<and> ledger_at root w1 l1 \<and> distinct_ids l1
     \<and> status_of l1 (acceptance_id ex a r) = Some Reserved"
proof -
  let ?l = "ledger_of root w es"
  obtain res l1 w1 where rv: "ledger_reserve (ex_sha ex) (wa_workflow_id a) (wa_workflow_revision a)
      (wa_state a) r (acceptance_pair_result r) ?l w = (res, l1, w1)" by (metis prod_cases3)
  from reserve_cases [OF rv] assms(5) obtain e where e: "res = Inr e"
    by (fastforce simp: acceptance_id_def)
  note st = reserve_status_of [OF rv [unfolded e]]
  have w1: "calm root w1 \<and> resolve w1 = resolve w"
    using assms(1) rv by (auto simp: ledger_reserve_def Let_def utc_now_def
        split: option.splits transition_status.splits)
  have at: "ledger_at root w1 l1" using reserve_frame [OF rv] by (simp add: ledger_at_def ledger_of_def)
  obtain w2 d where sv: "ledger_save_atomic (sc_ledger (ex_codecs ex)) l1 w1 = (Inr (tl_path l1), w2)"
    "calm root w2" "ledger_at root w2 l1"
    using ledger_save_prints [OF w1 [THEN conjunct1] at assms(3)] by blast
  have "commit_reserve ex root a r w = (Inr (l1, le_transition_id e), w2)"
    using ledger_load_calm [OF assms(1,2)] rv e sv(1) by (simp add: commit_reserve_def Let_def)
  then show ?thesis
    using st sv reserve_distinct_ids [OF rv assms(4)] by (auto simp: acceptance_id_def)
qed

lemma commit_pending_calm:
  assumes "calm root w" and "ledger_at root w l" and "prints (sc_ledger (ex_codecs ex))"
    and "distinct_ids l" and "status_of l rid = Some Reserved"
  shows "\<exists>l1 w1. commit_pending ex rid target l w = (Inr l1, w1) \<and> calm root w1
     \<and> ledger_at root w1 l1 \<and> distinct_ids l1 \<and> status_of l1 rid = Some Pending"
proof -
  obtain l1 where mp: "mark_pending rid (map_option word_str target) l = (Inr (), l1)"
    using mark_pending_succeeds [OF assms(5)] by blast
  have at: "ledger_at root w l1" "distinct_ids l1"
    using mark_pending_ids [OF mp] assms(2,4) by (auto simp: ledger_at_def distinct_ids_def)
  obtain w1 d where sv: "ledger_save_atomic (sc_ledger (ex_codecs ex)) l1 w = (Inr (tl_path l1), w1)"
    "calm root w1" "ledger_at root w1 l1"
    using ledger_save_prints [OF assms(1) at(1) assms(3)] by blast
  then show ?thesis
    using mp at(2) mark_pending_status_of [OF mp] by (auto simp: commit_pending_def)
qed

lemma commit_send_calm:
  assumes "calm root w" and "answers (ex_adapter ex)"
  shows "\<exists>m w1. commit_send ex key channel a u r t tid rid name target l w = (Inr m, w1)
     \<and> calm root w1 \<and> resolve w1 = resolve w"
proof (cases "send_required target t")
  case False
  with assms show ?thesis by (simp add: commit_send_def)
next
  case True
  then obtain uid where uid: "target = Some uid" by (auto simp: send_required_def)
  let ?body = "render_activation_body
     (build_workflow_context u (claimed_role_for_state t) key (claim_scope a r)) tid"
  from assms(2) obtain i where i: "ex_adapter ex (length (sent w)) channel
      (?body @ nl @ ''<@'' @ word_str uid @ ''>'') (Some (word_str uid)) = Inr i" "trim i \<noteq> []"
    unfolding answers_def by blast
  then show ?thesis
    using True uid assms(1) by (simp add: commit_send_def send_targeted_activation_def Let_def)
qed

text \<open>The row is settled on disk: the ledger file holds a ledger where the id is delivered, or is
  pruned away; no active row is left under it.\<close>

definition settled :: "externals \<Rightarrow> string \<Rightarrow> world \<Rightarrow> string \<Rightarrow> bool" where
  "settled ex root w rid \<longleftrightarrow>
     (\<exists>l d. files w (ledger_file (resolve w root)) = Some d
        \<and> to_json (sc_ledger (ex_codecs ex)) (tl_entries l) = Inr d
        \<and> status_of l rid \<in> {None, Some Delivered})"

lemma commit_finish_calm:
  assumes "calm root w" and "ledger_at root w l" and "distinct_ids l"
    and "status_of l rid = Some Pending" and "assignment_wf u"
    and "prints (sc_ledger (ex_codecs ex))" and "prints (sc_assignment (ex_codecs ex))"
  shows "\<exists>w'. commit_finish ex root u t tid rid name target m l w = (TurnAccepted tid t name target m, w')
     \<and> settled ex root w' rid"
proof -
  obtain now w1 where n: "utc_now w = (now, w1)" by fastforce
  then have w1: "calm root w1 \<and> resolve w1 = resolve w"
    using assms(1) by (auto simp: utc_now_def)
  let ?p = "u\<lparr>wa_last_delivery_message_id := m, wa_updated_at := now\<rparr>"
  have wf: "assignment_wf ?p" using assms(5) by (simp add: assignment_wf_def)
  obtain w2 d where sv: "save_assignment_atomic (sc_assignment (ex_codecs ex)) root ?p w1
        = (Inr (assignment_file (resolve w1 root)), w2)"
    "stores root (assignment_file (resolve w1 root)) d w1 w2"
    using save_assignment_calm [OF w1 [THEN conjunct1] wf] assms(7) unfolding prints_def by blast
  obtain l3 w3 where md: "mark_delivered rid m l w2 = (Inr (), l3, w3)"
    using mark_delivered_succeeds [OF assms(4)] by blast
  have w3: "calm root w3 \<and> resolve w3 = resolve w \<and> ledger_at root w3 l3"
    using mark_delivered_frame [OF md] sv(2) w1 assms(2)
    by (auto simp: calm_def stores_def ledger_at_def)
  obtain w4 dl where sl: "ledger_save_atomic (sc_ledger (ex_codecs ex)) l3 w3 = (Inr (tl_path l3), w4)"
    "resolve w4 = resolve w3" "files w4 (ledger_file (resolve w3 root)) = Some dl"
    "to_json (sc_ledger (ex_codecs ex)) (tl_entries l3) = Inr dl"
    using ledger_save_prints [of root w3 l3 "sc_ledger (ex_codecs ex)"] w3 assms(6) by blast
  have "status_of l3 rid \<in> {None, Some Delivered}"
    using mark_delivered_status_of [OF md assms(3)] by (metis fun_upd_same insertI1 insertI2)
  then have "settled ex root w4 rid" unfolding settled_def using sl by metis
  then show ?thesis using n sv(1) md sl(1) by (simp add: commit_finish_def)
qed

lemma commit_updated_calm:
  "calm root w \<Longrightarrow> commit_updated a r t tid w = (u, w') \<Longrightarrow> calm root w' \<and> resolve w' = resolve w"
  by (auto simp: commit_updated_def utc_now_def Let_def)

text \<open>The assignment a granted claim leads to is well formed.\<close>

lemma post_commit_wf:
  assumes "assignment_wf a" and "claim_granted ex a txt c t tid"
  shows "assignment_wf (post_commit a (pc_role c) t tid)"
proof -
  have "wa_defect_loop_count a = 0" if "t = PrimaryCorrectionPending"
    using that assms word_le_one [of "wa_defect_loop_count a"]
    by (auto simp: claim_granted_def effective_next_stage_def assignment_wf_def
        SUPPORTED_DEFECT_LOOP_MAX_def split: if_splits)
  then show ?thesis
    using assms(1) by (auto simp: assignment_wf_def post_commit_def)
qed

lemma commit_protocol_calm:
  assumes "calm root w" and "ledger_read (sc_ledger (ex_codecs ex)) root w es"
    and "distinct_ids (ledger_of root w es)"
    and "status_of (ledger_of root w es) (acceptance_id ex a r) \<in> {None, Some Reserved}"
    and "prints (sc_ledger (ex_codecs ex))" and "prints (sc_assignment (ex_codecs ex))"
    and "answers (ex_adapter ex)" and wf: "assignment_wf (post_commit a r t tid)"
    and tg: "commit_target s a t = (name, target)"
  shows "\<exists>m w'. commit_protocol ex s key root channel a r t tid w = (TurnAccepted tid t name target m, w')
     \<and> settled ex root w' (acceptance_id ex a r)"
proof -
  let ?rid = "acceptance_id ex a r"
  obtain l1 w1 where 1: "commit_reserve ex root a r w = (Inr (l1, ?rid), w1)" "calm root w1"
    "ledger_at root w1 l1" "distinct_ids l1" "status_of l1 ?rid = Some Reserved"
    using commit_reserve_calm assms(1-5) by blast
  obtain l2 w2 where 2: "commit_pending ex ?rid target l1 w1 = (Inr l2, w2)" "calm root w2"
    "ledger_at root w2 l2" "distinct_ids l2" "status_of l2 ?rid = Some Pending"
    using commit_pending_calm [OF 1(2,3) assms(5) 1(4,5)] by blast
  obtain u w3 where 3: "commit_updated a r t tid w2 = (u, w3)" by fastforce
  note c3 = commit_updated_calm [OF 2(2) 3]
  obtain now where u: "u = (post_commit a r t tid)\<lparr>wa_updated_at := now\<rparr>"
    using commit_updated_effect [OF 3, of root] by blast
  obtain m w4 where 4: "commit_send ex key channel a u r t tid ?rid name target l2 w3 = (Inr m, w4)"
    "calm root w4" "resolve w4 = resolve w3"
    using commit_send_calm c3 assms(7) by metis
  have at4: "ledger_at root w4 l2" using 2(3) c3 4(3) by (simp add: ledger_at_def)
  have "assignment_wf u" using wf u by (simp add: assignment_wf_def)
  then obtain w5 where 5: "commit_finish ex root u t tid ?rid name target m l2 w4
      = (TurnAccepted tid t name target m, w5)" "settled ex root w5 ?rid"
    using commit_finish_calm [OF 4(2) at4 2(4,5) _ assms(5,6)] by blast
  have "commit_protocol ex s key root channel a r t tid w = (TurnAccepted tid t name target m, w5)"
    using 1(1) tg 2(1) 3 4(1) 5(1) by (simp add: commit_protocol_def)
  with 5(2) show ?thesis by blast
qed

text \<open>The claimed root names the project: a canonical spelling of it, or a name that does not exist.\<close>

lemma validate_calm:
  assumes "calm root w" and "claim_granted ex a txt c t tid"
    and "path_eq (pc_project_root c) (wa_project_root a)"
    and "resolve w (pc_project_root c) = pc_project_root c"
  shows "validate (ex_sha ex) c a RNew w
     = (VAccepted (wa_state a) (pc_role c) (pc_result c) t tid (wa_workflow_revision a + 1), w)"
proof -
  have "canonical_root_or_original (pc_project_root c) w = (pc_project_root c, w)"
    using assms(1,4) by (auto simp: canonical_root_or_original_def canonicalize_def next_fault_calm
        calm_def Let_def)
  moreover have "validate_stage (ex_sha ex) c a RNew
      = VAccepted (wa_state a) (pc_role c) (pc_result c) t tid (wa_workflow_revision a + 1)"
    using assms(2) by (auto simp: validate_stage_accepted claim_granted_def)
  ultimately show ?thesis using assms(2,3) by (auto simp: validate_def claim_granted_def)
qed

lemma run_claim_calm:
  assumes "calm root w" and "ledger_read (sc_ledger (ex_codecs ex)) root w es"
    and "distinct_ids (ledger_of root w es)"
    and "status_of (ledger_of root w es) tid = None"
    and "status_of (ledger_of root w es) (acceptance_id ex a (pc_role c)) \<in> {None, Some Reserved}"
    and "prints (sc_ledger (ex_codecs ex))" and "prints (sc_assignment (ex_codecs ex))"
    and "answers (ex_adapter ex)" and "assignment_wf a" and g: "claim_granted ex a txt c t tid"
    and "path_eq (pc_project_root c) (wa_project_root a)"
    and "resolve w (pc_project_root c) = pc_project_root c"
    and tg: "commit_target s a t = (name, target)"
  shows "\<exists>m w'. run_claim ex s key root channel a txt w = (TurnAccepted tid t name target m, w')
     \<and> settled ex root w' (acceptance_id ex a (pc_role c))"
proof -
  have rp: "replay_of ex root tid w = (RNew, w)"
    using ledger_load_calm [OF assms(1,2)] assms(4) by (simp add: replay_of_def)
  obtain m w' where cp: "commit_protocol ex s key root channel a (pc_role c) t tid w
      = (TurnAccepted tid t name target m, w')" "settled ex root w' (acceptance_id ex a (pc_role c))"
    using commit_protocol_calm [OF assms(1,2,3,5,6,7,8) post_commit_wf [OF assms(9) g] tg] by blast
  have "run_claim ex s key root channel a txt w = (TurnAccepted tid t name target m, w')"
    using g rp validate_calm [OF assms(1) g assms(11,12)] cp(1)
    by (auto simp: run_claim_def claim_granted_def Let_def)
  with cp(2) show ?thesis by blast
qed

end
