(* ===== verification/Workflow_Recovery_Facts.thy ===== *)
theory Workflow_Recovery_Facts
  imports Workflow_Recovery
begin

section \<open>What recovery does to every row\<close>

text \<open>
  The abstract verdict on a row of the ledger, given the assignment on disk, and the proof
  that the loop over the snapshot reaches exactly this verdict for every row and reports it.
\<close>

text \<open>The assignment on disk shows that the row's transition took place.\<close>

definition row_settles :: "workflow_assignment option \<Rightarrow> transition_ledger \<Rightarrow> string \<Rightarrow> bool" where
  "row_settles assignment l i \<longleftrightarrow>
     (case (assignment, ledger_lookup l i) of
        (Some a, Some e) \<Rightarrow>
          legal_next_stage (le_current_stage e) (le_role e) (le_result e) = Some (wa_state a)
          \<and> wa_workflow_revision a = le_workflow_revision e + 1
      | _ \<Rightarrow> False)"

definition recovered_status ::
  "workflow_assignment option \<Rightarrow> transition_ledger \<Rightarrow> string \<Rightarrow> transition_status option" where
  "recovered_status assignment l i =
     (case status_of l i of
        Some Reserved \<Rightarrow> None
      | Some Pending \<Rightarrow> Some (if row_settles assignment l i then Delivered else Pending)
      | s \<Rightarrow> s)"

definition row_verdict ::
  "workflow_assignment option \<Rightarrow> transition_ledger \<Rightarrow> string \<times> transition_status \<Rightarrow> recovery_outcome" where
  "row_verdict assignment l row =
     (case row of
        (i, Reserved) \<Rightarrow> ReleasedReserved i
      | (i, Pending) \<Rightarrow> (if row_settles assignment l i then ReconciledDelivered i else UnknownDelivery i)
      | (i, Delivered) \<Rightarrow> DeliveredNoop i
      | (i, Failed) \<Rightarrow> FailedNoop i)"

subsection \<open>Rows that are kept\<close>

text \<open>The row is the same before and after, or it was delivered and has been pruned.\<close>

definition kept :: "transition_ledger \<Rightarrow> transition_ledger \<Rightarrow> string \<Rightarrow> bool" where
  "kept l l' i \<longleftrightarrow>
     ledger_lookup l' i = ledger_lookup l i
     \<or> (\<exists>e. ledger_lookup l i = Some e \<and> is_delivered e) \<and> ledger_lookup l' i = None"

definition verdict_reached ::
  "workflow_assignment option \<Rightarrow> transition_ledger \<Rightarrow> transition_ledger \<Rightarrow> string \<Rightarrow> bool" where
  "verdict_reached a l l' i \<longleftrightarrow>
     status_of l' i = recovered_status a l i
     \<or> recovered_status a l i = Some Delivered \<and> status_of l' i = None"

lemma kept_refl [simp]: "kept l l i"
  by (simp add: kept_def)

lemma kept_trans:
  assumes "kept l l1 i" and "kept l1 l2 i"
  shows "kept l l2 i"
  using assms unfolding kept_def by (elim disjE conjE exE) simp_all

lemma kept_status: "kept l l' i \<Longrightarrow>
    status_of l' i = status_of l i \<or> status_of l i = Some Delivered \<and> status_of l' i = None"
  by (auto simp: kept_def status_of_def is_delivered_def)

lemma verdict_cong:
  "ledger_lookup l' i = ledger_lookup l i \<Longrightarrow>
     recovered_status a l' i = recovered_status a l i \<and> row_settles a l' i = row_settles a l i
     \<and> status_of l' i = status_of l i"
  by (simp add: recovered_status_def status_of_def row_settles_def)

lemma kept_verdict:
  assumes "kept l l1 i" and "verdict_reached a l1 l2 i"
  shows "verdict_reached a l l2 i"
  using assms(1) [unfolded kept_def]
proof (elim disjE conjE)
  assume "ledger_lookup l1 i = ledger_lookup l i"
  with assms(2) show ?thesis by (simp add: verdict_reached_def verdict_cong [of l1 i l])
next
  assume "\<exists>e. ledger_lookup l i = Some e \<and> is_delivered e" "ledger_lookup l1 i = None"
  then have "recovered_status a l i = Some Delivered" "recovered_status a l1 i = None"
    by (auto simp: recovered_status_def status_of_def is_delivered_def)
  with assms(2) show ?thesis by (auto simp: verdict_reached_def)
qed

lemma verdict_kept: "verdict_reached a l l1 i \<Longrightarrow> kept l1 l2 i \<Longrightarrow> verdict_reached a l l2 i"
  using kept_status by (fastforce simp: verdict_reached_def)

lemma prune_kept:
  assumes "distinct_ids l"
  shows "kept l (prune_delivered l) i"
proof (cases "ledger_lookup (prune_delivered l) i")
  case (Some e)
  then have "e \<in> set (tl_entries l)" "le_transition_id e = i"
    using lookup_Some prune_set by fastforce+
  then have "ledger_lookup l i = Some e" using lookup_in assms by blast
  with Some show ?thesis by (simp add: kept_def)
next
  case None
  with prune_status_of [OF assms, of i] show ?thesis
    by (auto simp: kept_def status_of_def is_delivered_def)
qed

lemma mark_delivered_kept:
  assumes "mark_delivered i m l w = (Inr (), l', w')" and "distinct_ids l" and "j \<noteq> i"
  shows "kept l l' j"
proof -
  from mark_delivered_cases [OF assms(1)] obtain l1 now where
    1: "transition_status_to i Delivered l = (Inr (), l1)" and
    l': "l' = prune_delivered (l1\<lparr>tl_entries := update_first (has_id i)
           (\<lambda>e. e\<lparr>le_openab_message_id := m, le_delivered_at := Some now\<rparr>) (tl_entries l1)\<rparr>)"
    by blast
  let ?l2 = "l1\<lparr>tl_entries := update_first (has_id i)
           (\<lambda>e. e\<lparr>le_openab_message_id := m, le_delivered_at := Some now\<rparr>) (tl_entries l1)\<rparr>"
  have "map le_transition_id (tl_entries ?l2) = map le_transition_id (tl_entries l)"
    using transition_status_to_ids [OF 1] by (simp add: map_update_first)
  then have "distinct_ids ?l2" using assms(2) by (simp add: distinct_ids_def)
  moreover have "ledger_lookup ?l2 j = ledger_lookup l j"
    using transition_status_to_Inr [OF 1] assms(3) by (auto simp: ledger_lookup_def find_update)
  ultimately show ?thesis using prune_kept [of ?l2 j] l' by (simp add: kept_def)
qed

lemma release_lookup:
  assumes "release_stale_reserved i l = (r, l')" and "distinct_ids l" and "status_of l i = Some Reserved"
  shows "r = Inr () \<and> status_of l' i = None \<and> (\<forall>j. j \<noteq> i \<longrightarrow> ledger_lookup l' j = ledger_lookup l j)"
proof -
  from release_cases [OF assms(1)] assms(3) obtain idx where
    i: "r = Inr ()" "idx < length (tl_entries l)" "le_transition_id (tl_entries l ! idx) = i"
      "l' = l\<lparr>tl_entries := remove_at idx (tl_entries l)\<rparr>" by auto
  have "ledger_lookup l' j = (if j = i then None else ledger_lookup l j)" for j
    using i assms(2) remove_at_lookup [of le_transition_id "tl_entries l" idx j]
    by (simp add: ledger_lookup_def has_id_def distinct_ids_def)
  then show ?thesis using i(1) by (simp add: status_of_def)
qed

subsection \<open>One row\<close>

lemma reconcile_reserved_row:
  assumes "reconcile_reserved i l rp = (l', rp')" and "distinct_ids l"
    and "status_of l i = Some Reserved"
  shows "distinct_ids l' \<and> verdict_reached a l l' i \<and> (\<forall>j. j \<noteq> i \<longrightarrow> kept l l' j)
     \<and> rp' = record_outcome (row_verdict a l (i, Reserved)) rp"
proof -
  obtain r l1 where rl: "release_stale_reserved i l = (r, l1)" by fastforce
  note lk = release_lookup [OF rl assms(2,3)]
  have "l' = l1 \<and> rp' = record_outcome (ReleasedReserved i) rp"
    using assms(1) rl lk by (auto simp: reconcile_reserved_def)
  then show ?thesis
    using lk release_distinct_ids [OF rl assms(2)] assms(3)
    by (auto simp: verdict_reached_def recovered_status_def kept_def row_verdict_def)
qed

lemma reconcile_pending_row:
  assumes "reconcile_pending a i l rp w = (l', rp', w')" and "distinct_ids l"
    and "status_of l i = Some Pending"
  shows "distinct_ids l' \<and> verdict_reached a l l' i \<and> (\<forall>j. j \<noteq> i \<longrightarrow> kept l l' j)
     \<and> rp' = record_outcome (row_verdict a l (i, Pending)) rp"
proof -
  obtain e where e: "ledger_lookup l i = Some e"
    using assms(3) by (auto simp: status_of_def)
  show ?thesis
  proof (cases "row_settles a l i")
    case False
    then have "l' = l \<and> rp' = record_outcome (UnknownDelivery i) rp"
      using assms(1) e by (auto simp: reconcile_pending_def legal_next_stage_for_entry_def
          row_settles_def Let_def split: option.splits if_splits)
    then show ?thesis using False assms(2,3)
      by (auto simp: verdict_reached_def recovered_status_def row_verdict_def)
  next
    case True
    then obtain a0 where a0: "a = Some a0"
      "legal_next_stage (le_current_stage e) (le_role e) (le_result e) = Some (wa_state a0)"
      "wa_workflow_revision a0 = le_workflow_revision e + 1"
      using e by (auto simp: row_settles_def split: option.splits)
    obtain l1 w1 where md: "mark_delivered i (wa_last_delivery_message_id a0) l w = (Inr (), l1, w1)"
      using mark_delivered_succeeds [OF assms(3)] by blast
    have "l' = l1 \<and> rp' = record_outcome (ReconciledDelivered i) rp"
      using assms(1) e a0 md by (simp add: reconcile_pending_def legal_next_stage_for_entry_def Let_def)
    moreover have "status_of l1 i = Some Delivered \<or> status_of l1 i = None"
      using mark_delivered_status_of [OF md assms(2)] by (metis fun_upd_same)
    then have "verdict_reached a l l1 i"
      using True assms(3) by (auto simp: verdict_reached_def recovered_status_def)
    moreover have "distinct_ids l1" using mark_delivered_status_of [OF md assms(2)] by blast
    moreover have "row_verdict a l (i, Pending) = ReconciledDelivered i"
      using True by (simp add: row_verdict_def)
    ultimately show ?thesis using mark_delivered_kept [OF md assms(2)] by simp
  qed
qed

subsection \<open>The loop\<close>

lemma row_verdict_kept:
  assumes "kept l l' i" and "status_of l i = Some s \<or> s \<noteq> Pending"
  shows "row_verdict a l' (i, s) = row_verdict a l (i, s)"
proof (cases s)
  case Pending
  then have "status_of l i = Some Pending" using assms(2) by simp
  then have "\<not> (\<exists>e. ledger_lookup l i = Some e \<and> is_delivered e)"
    by (auto simp: status_of_def is_delivered_def)
  then have "ledger_lookup l' i = ledger_lookup l i" using assms(1) unfolding kept_def by blast
  then have "row_settles a l' i = row_settles a l i" using verdict_cong by blast
  with Pending show ?thesis by (simp add: row_verdict_def)
qed (simp_all add: row_verdict_def)

text \<open>The rows still to process are as the snapshot saw them, unless pruned since.\<close>

definition fresh_rows :: "(string \<times> transition_status) list \<Rightarrow> transition_ledger \<Rightarrow> bool" where
  "fresh_rows rows l \<longleftrightarrow>
     (\<forall>(i, s)\<in>set rows. status_of l i = Some s \<or> s = Delivered \<and> status_of l i = None)"

lemma fresh_rows_kept:
  assumes "fresh_rows rows l" and "\<forall>i\<in>fst ` set rows. kept l l' i"
  shows "fresh_rows rows l'"
  unfolding fresh_rows_def
proof clarify
  fix i s
  assume row: "(i, s) \<in> set rows" "\<not> (s = Delivered \<and> status_of l' i = None)"
  then have "kept l l' i" using assms(2) by force
  moreover have "status_of l i = Some s \<or> s = Delivered \<and> status_of l i = None"
    using assms(1) row(1) by (auto simp: fresh_rows_def)
  ultimately show "status_of l' i = Some s" using row(2) kept_status [of l l' i] by auto
qed

definition report_with :: "recovery_outcome list \<Rightarrow> recovery_report \<Rightarrow> recovery_report" where
  "report_with outs rp = fold record_outcome outs rp"

lemma reconcile_rows_verdicts:
  assumes "reconcile_rows a rows l rp w = (l', rp', w')" and "distinct_ids l"
    and "distinct (map fst rows)" and "fresh_rows rows l"
  shows "distinct_ids l' \<and> (\<forall>i\<in>fst ` set rows. verdict_reached a l l' i)
     \<and> (\<forall>i. i \<notin> fst ` set rows \<longrightarrow> kept l l' i)
     \<and> rp' = report_with (map (row_verdict a l) rows) rp"
  using assms
proof (induction rows arbitrary: l rp w)
  case Nil
  then show ?case by (simp add: report_with_def)
next
  case (Cons row rows)
  obtain i s where row: "row = (i, s)" by (cases row)
  obtain l1 rp1 w1 where one: "reconcile_rows a rows l1 rp1 w1 = (l', rp', w')"
    "distinct_ids l1" "verdict_reached a l l1 i" "\<forall>j. j \<noteq> i \<longrightarrow> kept l l1 j"
    "rp1 = record_outcome (row_verdict a l (i, s)) rp"
  proof (cases s)
    case Reserved
    then have st: "status_of l i = Some Reserved" using Cons.prems(4) row by (auto simp: fresh_rows_def)
    obtain l1 rp1 where rr: "reconcile_reserved i l rp = (l1, rp1)" by fastforce
    then show thesis
      using that Cons.prems(1) row Reserved reconcile_reserved_row [OF rr Cons.prems(2) st, of a] by auto
  next
    case Pending
    then have st: "status_of l i = Some Pending" using Cons.prems(4) row by (auto simp: fresh_rows_def)
    obtain l1 rp1 w1 where rr: "reconcile_pending a i l rp w = (l1, rp1, w1)" by (metis prod_cases3)
    then show thesis
      using that Cons.prems(1) row Pending reconcile_pending_row [OF rr Cons.prems(2) st] by auto
  next
    case Delivered
    then have "status_of l i = Some Delivered \<or> status_of l i = None"
      using Cons.prems(4) row by (auto simp: fresh_rows_def)
    then have "verdict_reached a l l i" by (auto simp: verdict_reached_def recovered_status_def)
    then show thesis
      using that Cons.prems(1,2) row Delivered by (simp add: row_verdict_def)
  next
    case Failed
    then have st: "status_of l i = Some Failed" using Cons.prems(4) row by (auto simp: fresh_rows_def)
    then have "verdict_reached a l l i" by (simp add: verdict_reached_def recovered_status_def)
    then show thesis
      using that Cons.prems(1,2) row Failed by (simp add: row_verdict_def)
  qed
  have ni: "i \<notin> fst ` set rows" "distinct (map fst rows)" using Cons.prems(3) row by auto
  have kept1: "kept l l1 j" if "j \<in> fst ` set rows" for j using one(4) ni(1) that by metis
  have "fresh_rows rows l1"
    using fresh_rows_kept [of rows l l1] Cons.prems(4) kept1 by (auto simp: fresh_rows_def)
  note rest = Cons.IH [OF one(1,2) ni(2) this]
  have verdicts: "map (row_verdict a l1) rows = map (row_verdict a l) rows"
  proof (rule map_cong [OF refl])
    fix r assume r: "r \<in> set rows"
    obtain j t where jt: "r = (j, t)" by (cases r)
    have "status_of l j = Some t \<or> t \<noteq> Pending" using Cons.prems(4) r jt by (auto simp: fresh_rows_def)
    moreover have "kept l l1 j" using kept1 r jt by (metis fst_conv image_eqI)
    ultimately show "row_verdict a l1 r = row_verdict a l r" using row_verdict_kept jt by simp
  qed
  have "verdict_reached a l l' i" using verdict_kept one(3) rest ni(1) by blast
  moreover have "verdict_reached a l l' j" if "j \<in> fst ` set rows" for j
    using kept_verdict kept1 rest that by blast
  moreover have "kept l l' j" if "j \<noteq> i" "j \<notin> fst ` set rows" for j
    using kept_trans one(4) rest that by blast
  ultimately show ?case using rest one(5) verdicts row by (auto simp: report_with_def)
qed

subsection \<open>The whole recovery\<close>

lemma rp_outcomes_record [simp]: "rp_outcomes (record_outcome out rp) = rp_outcomes rp @ [out]"
  by (cases out) (simp_all add: record_outcome_def Let_def)

lemma rp_outcomes_report [simp]: "rp_outcomes (report_with outs rp) = rp_outcomes rp @ outs"
  unfolding report_with_def by (induction outs arbitrary: rp) simp_all

lemma snapshot_ids: "map fst (ledger_snapshot l) = map le_transition_id (tl_entries l)"
  by (simp add: ledger_snapshot_def)

lemma snapshot_fresh:
  assumes "distinct_ids l"
  shows "fresh_rows (ledger_snapshot l) l"
  unfolding fresh_rows_def
proof clarify
  fix i s
  assume "(i, s) \<in> set (ledger_snapshot l)"
  then obtain e where "e \<in> set (tl_entries l)" "le_transition_id e = i" "le_status e = s"
    by (auto simp: ledger_snapshot_def)
  then show "status_of l i = Some s"
    using lookup_in [OF assms] by (auto simp: status_of_def)
qed

lemma reconcile_ledger:
  assumes "reconcile_rows a (ledger_snapshot l) l rp w = (l', rp', w')" and "distinct_ids l"
  shows "distinct_ids l' \<and> (\<forall>i. verdict_reached a l l' i)
     \<and> rp' = report_with (map (row_verdict a l) (ledger_snapshot l)) rp"
proof -
  have "distinct (map fst (ledger_snapshot l))"
    using assms(2) by (simp add: snapshot_ids distinct_ids_def)
  note r = reconcile_rows_verdicts [OF assms this snapshot_fresh [OF assms(2)]]
  have "verdict_reached a l l' i" for i
  proof (cases "i \<in> fst ` set (ledger_snapshot l)")
    case True
    with r show ?thesis by blast
  next
    case False
    then have "status_of l i = None"
      by (simp add: status_of_None ledger_snapshot_def image_image)
    moreover have "kept l l' i" using r False by blast
    ultimately show ?thesis
      using kept_status [of l l' i] by (auto simp: verdict_reached_def recovered_status_def)
  qed
  with r show ?thesis by blast
qed

text \<open>The assignment recovery works with: what the store loads, nothing on any error.\<close>

definition recovery_assignment :: "store_codecs \<Rightarrow> string \<Rightarrow> world \<Rightarrow> workflow_assignment option" where
  "recovery_assignment cs root w =
     (case fst (load_assignment (sc_assignment cs) root w) of Inr a \<Rightarrow> a | Inl _ \<Rightarrow> None)"

lemma reconcile_returns:
  assumes "recovery_load cs root w = (Some l, w1)" and "distinct_ids l"
    and "reconcile_project_workflow cs root w = (r, w')"
  shows "\<exists>l' rp. r = Returned (Inr rp) \<and> distinct_ids l'
     \<and> (\<forall>i. verdict_reached (recovery_assignment cs root w1) l l' i)
     \<and> take (length (tl_entries l)) (rp_outcomes rp)
         = map (row_verdict (recovery_assignment cs root w1) l) (ledger_snapshot l)
     \<and> (rp_persisted rp \<longrightarrow>
          (\<exists>d. files w' (ledger_file (resolve w root)) = Some d \<and> to_json (sc_ledger cs) (tl_entries l') = Inr d))
     \<and> (\<not> rp_persisted rp \<longrightarrow>
          files w' (ledger_file (resolve w root)) = files w (ledger_file (resolve w root)))"
proof -
  let ?a = "recovery_assignment cs root w1"
  obtain la w2 where la: "load_assignment (sc_assignment cs) root w1 = (la, w2)" by fastforce
  then have a: "?a = (case la of Inr a \<Rightarrow> a | Inl _ \<Rightarrow> None)" by (simp add: recovery_assignment_def)
  obtain l1 rp w3 where rr: "reconcile_rows ?a (ledger_snapshot l) l empty_report w2 = (l1, rp, w3)"
    by (metis prod_cases3)
  obtain rs w4 where sv: "ledger_save_atomic (sc_ledger cs) l1 w3 = (rs, w4)" by fastforce
  note v = reconcile_ledger [OF rr assms(2)]
  note h1 = recovery_load_frame [OF assms(1)]
  note h2 = load_assignment_host [OF la]
  note h3 = reconcile_rows_host [OF rr]
  note f = ledger_save_files [OF sv]
  have p: "tl_path l1 = ledger_file (resolve w root)" using h1 h3 by simp
  have same: "files w3 = files w" using h1 h2 h3 by (simp add: host_same_def)
  have outs: "take (length (tl_entries l)) (rp_outcomes rp @ xs) = map (row_verdict ?a l) (ledger_snapshot l)" for xs
    using v by (simp add: empty_report_def ledger_snapshot_def)
  show ?thesis
  proof (cases rs)
    case (Inl e)
    with assms(3) have "r = Returned (Inr (rp\<lparr>rp_outcomes := rp_outcomes rp @
          [Errored ([Lit ''ledger.save_atomic: ''] @ ledger_error_msg e) (ledger_error_msg e)],
          rp_persisted := False\<rparr>)) \<and> w' = w4"
      using assms(1) la a rr sv by (simp add: reconcile_project_workflow_def)
    then show ?thesis using v outs f Inl p same by auto
  next
    case (Inr x)
    with assms(3) have "r = Returned (Inr (rp\<lparr>rp_persisted := True\<rparr>)) \<and> w' = w4"
      using assms(1) la a rr sv by (simp add: reconcile_project_workflow_def)
    then show ?thesis using v outs [of "[]"] f Inr p by auto
  qed
qed

text \<open>A ledger file that does not parse ends in the panic, on a host where nothing fails.\<close>

lemma reconcile_panics:
  assumes "recovery_load cs root w = (None, w1)"
  shows "reconcile_project_workflow cs root w = (Panicked, w1)"
  using assms by (simp add: reconcile_project_workflow_def)

end
