(* ===== verification/Workflow_Example.thy ===== *)
theory Workflow_Example
  imports Workflow_Progress Workflow_Recovery_Facts
begin

section \<open>A concrete host, service and project\<close>

text \<open>
  The fixture the witnesses evaluate on: a project at \<^verbatim>\<open>/p\<close> with a fresh assignment on
  disk, a chat platform that answers every message with an id, a codec given by a table, and
  stand-ins for the third-party functions.
\<close>

text \<open>A codec that knows finitely many values.\<close>

fun table_print :: "('a \<times> string) list \<Rightarrow> 'a \<Rightarrow> string + string" where
  "table_print [] x = Inl ''not in the table''"
| "table_print ((y, s) # t) x = (if x = y then Inr s else table_print t x)"

fun table_parse :: "('a \<times> string) list \<Rightarrow> string \<Rightarrow> string + 'a" where
  "table_parse [] d = Inl ''not in the table''"
| "table_parse ((y, s) # t) d = (if d = s then Inr y else table_parse t d)"

definition table_codec :: "('a \<times> string) list \<Rightarrow> 'a json_codec" where
  "table_codec t = \<lparr>to_json = table_print t, from_json = table_parse t\<rparr>"

lemma table_print_in: "table_print t x = Inr s \<Longrightarrow> s \<in> snd ` set t"
  by (induction t) (auto split: if_splits)

lemma table_codec_ok: "distinct (map snd t) \<Longrightarrow> codec_ok (table_codec t)"
proof -
  have "table_print t x = Inr s \<Longrightarrow> distinct (map snd t) \<Longrightarrow> table_parse t s = Inr x" for x s
    by (induction t) (auto split: if_splits dest: table_print_in)
  then show "distinct (map snd t) \<Longrightarrow> codec_ok (table_codec t)"
    by (simp add: codec_ok_def table_codec_def)
qed

definition x_root :: string where "x_root = ''/p''"

definition x_fresh :: workflow_assignment where
  "x_fresh =
     \<lparr>wa_schema_version = ''v2'', wa_workflow_id = ''w'', wa_project_id = ''q'',
      wa_project_root = x_root, wa_mode = ThreeAgent, wa_primary = ''ArthurClaude'',
      wa_verifier = ''ArthurCodex'', wa_final_reviewer = ''ArthurGemini'', wa_state = PrimaryActive,
      wa_workflow_revision = 0, wa_defect_loop_count = 0, wa_language = ''en'',
      wa_thread_id = ''t'', wa_last_transition_id = None, wa_last_delivery_message_id = None,
      wa_unavailable_agents = [], wa_authorized_by = ''lead'', wa_reason = [],
      wa_created_at = 0, wa_updated_at = 0\<rparr>"

text \<open>Stands for SHA-256: the last bytes first.\<close>

definition x_sha :: "string \<Rightarrow> string" where "x_sha s = rev s"

definition x_tid :: string where
  "x_tid = derive_transition_id x_sha ''w'' 0 PrimaryActive Primary Complete"

definition x_next :: workflow_assignment where
  "x_next = (post_commit x_fresh Primary VerifierActive x_tid)\<lparr>wa_last_delivery_message_id := Some ''m''\<rparr>"

definition x_row :: "transition_status \<Rightarrow> ledger_entry" where
  "x_row s =
     \<lparr>le_transition_id = x_tid, le_workflow_id = ''w'', le_workflow_revision = 0,
      le_current_stage = PrimaryActive, le_role = Primary, le_result = Complete, le_status = s,
      le_openab_message_id = (if s = Delivered then Some ''m'' else None),
      le_target_user_id = (if s = Reserved then None else Some ''2''),
      le_created_at = 0, le_delivered_at = (if s = Delivered then Some 0 else None)\<rparr>"

definition x_codecs :: store_codecs where
  "x_codecs =
     \<lparr>sc_assignment = table_codec [(x_fresh, ''fresh''), (x_next, ''next'')],
      sc_ledger = table_codec [([], ''none''), ([x_row Reserved], ''reserved''),
        ([x_row Pending], ''pending''), ([x_row Delivered], ''delivered'')]\<rparr>"

definition x_ex :: externals where
  "x_ex = \<lparr>ex_sha = x_sha, ex_lower = (\<lambda>s. s), ex_key_order = (\<lambda>ks. ks), ex_codecs = x_codecs,
           ex_adapter = (\<lambda>n channel content target. Inr ''m'')\<rparr>"

definition x_service :: workflow_service where
  "x_service = new_service {1} (\<lambda>name. if name = ''ArthurCodex'' then Some 2 else None)"

definition x_channel :: channel_ref where
  "x_channel = \<lparr>cr_platform = ''discord'', cr_channel_id = ''c'', cr_thread_id = None,
                cr_parent_id = None, cr_origin_event_id = None\<rparr>"

definition x_host :: "string \<Rightarrow> world" where
  "x_host stored_text =
     \<lparr>files = [''/p/.openab/workflow_assignment.json'' \<mapsto> stored_text],
      dirs = (\<lambda>d. d = ''/p''), resolve = (\<lambda>p. p), faults = [], clock = (\<lambda>_. 0), ticks = 0, sent = []\<rparr>"

text \<open>The reply of the Primary, with its completion block.\<close>

definition x_reply :: string where
  "x_reply = ''done'' @ nl @ ''<role_completion>'' @ nl @ ''role: PRIMARY'' @ nl @ ''result: COMPLETE''
     @ nl @ ''workflow_id: w'' @ nl @ ''project_id: q'' @ nl @ ''project_root: /p'' @ nl @ ''</role_completion>''"

definition x_turn :: "turn_outcome run \<times> workflow_service \<times> world" where
  "x_turn = on_turn_complete x_ex ''k'' (Some x_root) x_channel x_reply True x_service (x_host ''fresh'')"

subsection \<open>What the fixture computes\<close>

definition x_outcome :: turn_outcome where
  "x_outcome = TurnAccepted x_tid VerifierActive (Some ''ArthurCodex'') (Some 2) (Some ''m'')"

lemma x_turn_outcome: "fst x_turn = Returned x_outcome"
  by code_simp

lemma x_turn_eq:
  "on_turn_complete x_ex ''k'' (Some x_root) x_channel x_reply True x_service (x_host ''fresh'')
     = (Returned x_outcome, fst (snd x_turn), snd (snd x_turn))"
  using x_turn_outcome by (metis prod.collapse x_turn_def)

lemma x_codec_ok: "codec_ok (sc_assignment (ex_codecs x_ex))"
  by (simp add: x_ex_def x_codecs_def table_codec_ok)

lemma x_stored: "stored (sc_assignment (ex_codecs x_ex)) x_root (x_host ''fresh'') x_fresh"
proof -
  have "assignment_file x_root = ''/p/.openab/workflow_assignment.json''" by code_simp
  then show ?thesis
    by (simp add: stored_def x_host_def x_ex_def x_codecs_def table_codec_def)
qed

lemma x_fresh_wf: "assignment_wf x_fresh"
  by code_simp

text \<open>The same service with codecs that print every value.\<close>

definition total_codec :: "('a \<times> string) list \<Rightarrow> 'a json_codec" where
  "total_codec t =
     \<lparr>to_json = (\<lambda>x. case table_print t x of Inr s \<Rightarrow> Inr s | Inl _ \<Rightarrow> Inr ''other''), from_json = table_parse t\<rparr>"

lemma total_codec_prints: "prints (total_codec t)"
  by (auto simp: prints_def total_codec_def split: sum.splits)

definition x_total :: externals where
  "x_total = x_ex\<lparr>ex_codecs := \<lparr>sc_assignment = total_codec [(x_fresh, ''fresh'')], sc_ledger = total_codec []\<rparr>\<rparr>"

definition x_claim :: parsed_claim where
  "x_claim = \<lparr>pc_role = Primary, pc_result = Complete, pc_workflow_id = ''w'', pc_project_id = ''q'',
              pc_project_root = ''/p'', pc_scope = None, pc_timestamp = None\<rparr>"

lemma x_parse: "parse_role_completion (\<lambda>s. s) (\<lambda>ks. ks) x_reply = ParsedClaim x_claim"
  by code_simp

lemma x_granted: "claim_granted x_total x_fresh x_reply x_claim VerifierActive x_tid"
proof -
  have "legal_next_stage PrimaryActive Primary Complete = Some VerifierActive"
    by (simp add: legal_next_stage_cases)
  then show ?thesis
    by (simp add: claim_granted_def x_total_def x_ex_def x_parse)
       (simp add: x_claim_def x_fresh_def x_tid_def effective_next_stage_def)
qed

lemma x_calm: "calm x_root (x_host ''fresh'')"
  by (simp add: calm_def x_host_def x_root_def is_absolute_def path_join_def WORKFLOW_DIR_def)

lemma x_no_ledger: "ledger_read codec x_root (x_host ''fresh'') []"
  by (simp add: ledger_read_def x_host_def x_root_def ledger_file_def path_join_def
      WORKFLOW_DIR_def LEDGER_FILENAME_def)

lemma x_target: "commit_target x_service x_fresh VerifierActive = (Some ''ArthurCodex'', Some 2)"
  by (simp add: commit_target_def x_service_def x_fresh_def new_service_def resolve_user_id_def)

end
