(* ===== verification/Workflow_Properties.thy ===== *)
theory Workflow_Properties
  imports Workflow_Example
begin

section \<open>Properties of the workflow controller\<close>

text \<open>
  The statements a reader of the controller relies on, each over the model's definitions, with
  a concrete instance wherever a statement has hypotheses.
\<close>

subsection \<open>Turns\<close>

text \<open>C1: A turn that ends in \<open>Accepted\<close> took the assignment on disk, which was well formed,
  one step of the abstract workflow machine: a legal result for the role the stage expects, the
  routed next stage, the revision and defect counter as the machine has them. The new assignment
  is on disk, well formed, and carries the stage, transition id and message id of the outcome.\<close>

theorem accepted_turn_is_step:
  assumes "on_turn_complete ex key (Some root) channel txt fin s w
             = (Returned (TurnAccepted tid stage name target m), s', w')"
    and "codec_ok (sc_assignment (ex_codecs ex))"
  shows "\<exists>a b. stored (sc_assignment (ex_codecs ex)) root w a \<and> assignment_wf a
     \<and> stored (sc_assignment (ex_codecs ex)) root w' b \<and> assignment_wf b \<and> wf_step a b
     \<and> wa_state b = stage \<and> wa_last_transition_id b = Some tid \<and> wa_last_delivery_message_id b = m"
proof -
  from turn_effect [OF assms(1)] obtain a where
    a: "stored (sc_assignment (ex_codecs ex)) root w a" "assignment_wf a"
      "turn_result ex s key root channel txt w a (TurnAccepted tid stage name target m) w'" by auto
  then obtain c b where c: "claim_granted ex a txt c stage tid"
      "saved ex root w' (post_commit a (pc_role c) stage tid) m b"
    by (auto simp: turn_result_def)
  have "stored (sc_assignment (ex_codecs ex)) root w' b" using saved_stored [OF assms(2) c(2)] .
  moreover have "wf_step a b" using granted_advanced [OF c] by (rule wf_step.commit)
  moreover have "assignment_wf b \<and> wa_state b = stage \<and> wa_last_transition_id b = Some tid
      \<and> wa_last_delivery_message_id b = m"
    using c(2) by (auto simp: saved_def post_commit_def)
  ultimately show ?thesis using a(1,2) by blast
qed

theorem accepted_turn_is_step_witness:
  "\<exists>a b. stored (sc_assignment (ex_codecs x_ex)) x_root (x_host ''fresh'') a \<and> assignment_wf a
     \<and> stored (sc_assignment (ex_codecs x_ex)) x_root (snd (snd x_turn)) b \<and> assignment_wf b \<and> wf_step a b
     \<and> wa_state b = VerifierActive \<and> wa_last_transition_id b = Some x_tid
     \<and> wa_last_delivery_message_id b = Some ''m''"
  by (rule accepted_turn_is_step [OF x_turn_eq [unfolded x_outcome_def] x_codec_ok])

text \<open>C12: Whatever the host does, a turn that does not end in \<open>Accepted\<close> (a reject, a replay, a
  malformed claim, a failed send, a failed write, even a panic of recovery) leaves the assignment
  file exactly as it was.\<close>

theorem unaccepted_turn_keeps_file:
  assumes "on_turn_complete ex key (Some root) channel txt fin s w = (r, s', w')"
    and "\<not> run_accepted r"
  shows "files w' (assignment_file (resolve w root)) = files w (assignment_file (resolve w root))"
  using other_turn_keeps [OF assms] by (simp add: keeps_assignment_def)

theorem unaccepted_turn_keeps_file_witness:
  "files (snd (snd (on_turn_complete x_ex ''k'' (Some x_root) x_channel x_reply False x_service (x_host ''fresh''))))
     (assignment_file (resolve (x_host ''fresh'') x_root))
   = files (x_host ''fresh'') (assignment_file (resolve (x_host ''fresh'') x_root))"
  by (rule unaccepted_turn_keeps_file [of x_ex "''k''" x_root x_channel x_reply False x_service
        "x_host ''fresh''" "Returned NotTerminal" x_service])
    (simp_all add: on_turn_complete_def)

text \<open>C17: A turn gives the adapter at most one message, and gives it one only when the outcome is
  \<open>Accepted\<close> or \<open>SendFailed\<close>: the activation for the stage the transition is routed to, in
  the channel of the turn, rendered from the assignment after the commit, to the user id
  configured for the agent of that stage's role and to nobody else.\<close>

theorem turn_messages_exactly:
  assumes "on_turn_complete ex key (Some root) channel txt fin s w = (r, s', w')"
  shows "sent w' = sent w
     \<or> (\<exists>a c t tid uid. stored (sc_assignment (ex_codecs ex)) root w a \<and> claim_granted ex a txt c t tid
          \<and> run_reached r \<and> expected_role_for_stage t \<noteq> None
          \<and> ws_bot_user_ids s (slot a (the (expected_role_for_stage t))) = Some uid
          \<and> sent w' = sent w @ [activation channel (post_commit a (pc_role c) t tid) t key tid uid])"
proof (cases "run_reached r")
  case False
  then show ?thesis using turn_effect [OF assms] by (cases r) (auto simp: quiet_iff)
next
  case True
  then obtain out where out: "r = Returned out" "turn_reached_messenger out" by (cases r) auto
  with turn_effect [OF assms] obtain a where
    a: "stored (sc_assignment (ex_codecs ex)) root w a"
      "turn_result ex s key root channel txt w a out w'" by auto
  then obtain c t tid where c: "claim_granted ex a txt c t tid"
      "sent w' = sent w @ commit_messages s key channel a (pc_role c) t tid"
    by (auto simp: turn_result_def)
  show ?thesis
  proof (cases "commit_messages s key channel a (pc_role c) t tid")
    case Nil
    with c show ?thesis by simp
  next
    case (Cons m ms)
    then obtain uid where "commit_messages s key channel a (pc_role c) t tid
          = [activation channel (post_commit a (pc_role c) t tid) t key tid uid]"
        "ws_bot_user_ids s (slot a (the (expected_role_for_stage t))) = Some uid"
        "expected_role_for_stage t \<noteq> None"
      by (auto simp: commit_messages_def commit_target_def resolve_user_id_def
          split: workflow_stage.splits option.splits if_splits)
    then show ?thesis using True a(1) c by metis
  qed
qed

theorem turn_messages_exactly_witness:
  "(sent (snd (snd x_turn)) = sent (x_host ''fresh''))
     \<or> (\<exists>a c t tid uid. stored (sc_assignment (ex_codecs x_ex)) x_root (x_host ''fresh'') a
          \<and> claim_granted x_ex a x_reply c t tid
          \<and> run_reached (Returned x_outcome) \<and> expected_role_for_stage t \<noteq> None
          \<and> ws_bot_user_ids x_service (slot a (the (expected_role_for_stage t))) = Some uid
          \<and> sent (snd (snd x_turn)) = sent (x_host ''fresh'')
              @ [activation x_channel (post_commit a (pc_role c) t tid) t ''k'' tid uid])"
  by (rule turn_messages_exactly [OF x_turn_eq])

text \<open>C6: However many turns a project runs, whatever the agents answer and whatever fails in
  between, at most six of them are accepted: the abstract machine reaches a terminal stage. The
  stored assignment at the end is reached by exactly as many machine steps as turns were
  accepted.\<close>

theorem at_most_six_transitions:
  assumes "run_turns ex root inputs s w = (rs, s', w')"
    and "codec_ok (sc_assignment (ex_codecs ex))"
    and "stored (sc_assignment (ex_codecs ex)) root w a" and "assignment_wf a"
  shows "length (filter run_accepted rs) \<le> wf_rank a \<and> wf_rank a \<le> 6
     \<and> (\<exists>b. stored (sc_assignment (ex_codecs ex)) root w' b
           \<and> (wf_step ^^ length (filter run_accepted rs)) a b)"
proof -
  from run_turns_steps [OF assms(1-3)] obtain b where
    b: "stored (sc_assignment (ex_codecs ex)) root w' b"
      "(wf_step ^^ length (filter run_accepted rs)) a b" by blast
  have "defect_bounded a" using assms(4)
    by (simp add: assignment_wf_def defect_bounded_def SUPPORTED_DEFECT_LOOP_MAX_def)
  then have "length (filter run_accepted rs) \<le> wf_rank a" by (rule wf.run_bounded [OF b(2)])
  with b wf_rank_bound show ?thesis by blast
qed

definition x_inputs :: "turn_input list" where
  "x_inputs = [\<lparr>ti_session_key = ''k'', ti_channel = x_channel, ti_text = x_reply, ti_terminal = True\<rparr>]"

lemma x_run_turns: "run_turns x_ex x_root x_inputs x_service (x_host ''fresh'')
    = ([Returned x_outcome], fst (snd x_turn), snd (snd x_turn))"
  by (simp add: x_inputs_def x_turn_eq)

theorem at_most_six_transitions_witness:
  "length (filter run_accepted [Returned x_outcome]) \<le> wf_rank x_fresh \<and> wf_rank x_fresh \<le> 6
     \<and> (\<exists>b. stored (sc_assignment (ex_codecs x_ex)) x_root (snd (snd x_turn)) b
           \<and> (wf_step ^^ length (filter run_accepted [Returned x_outcome])) x_fresh b)"
  by (rule at_most_six_transitions [OF x_run_turns x_codec_ok x_stored x_fresh_wf])

text \<open>The abstract machine moves until it is done: from every non-terminal assignment a step
  exists, a terminal one has none, and every step keeps the defect counter within its maximum.\<close>

theorem machine_progress:
  "((\<exists>b. wf_step a b) \<longleftrightarrow> \<not> is_terminal (wa_state a))
     \<and> (wf_rank a = 0 \<longleftrightarrow> is_terminal (wa_state a))
     \<and> (defect_bounded a \<and> wf_step a b \<longrightarrow> defect_bounded b)"
proof -
  have "\<exists>b. wf_step a b" if nt: "\<not> is_terminal (wa_state a)"
  proof -
    obtain r where "expected_role_for_stage (wa_state a) = Some r"
      using nt by (cases "wa_state a") auto
    then obtain c t where "legal_next_stage (wa_state a) r c = Some t" using legal_next_exists by blast
    then have "advanced a r c
        (a\<lparr>wa_state := effective_next_stage a t, wa_workflow_revision := wa_workflow_revision a + 1,
           wa_defect_loop_count := (if effective_next_stage a t = PrimaryCorrectionPending
             then wa_defect_loop_count a + 1 else wa_defect_loop_count a)\<rparr>)"
      by (auto simp: advanced_def)
    then show ?thesis by (blast intro: wf_step.commit)
  qed
  moreover have "\<not> is_terminal (wa_state a)" if "wf_step a b" for b
    using that legal_next_not_terminal by (auto elim!: wf_stepE simp: advanced_def)
  ultimately show ?thesis using wf_rank_terminal wf.step_inv by blast
qed

theorem machine_progress_witness:
  "((\<exists>b. wf_step x_fresh b) \<longleftrightarrow> \<not> is_terminal (wa_state x_fresh))
     \<and> (wf_rank x_fresh = 0 \<longleftrightarrow> is_terminal (wa_state x_fresh))
     \<and> (\<exists>b. wf_step x_fresh b \<and> defect_bounded b)"
proof -
  obtain b where b: "wf_step x_fresh b"
    using machine_progress [of x_fresh x_fresh] by (auto simp: x_fresh_def)
  have "defect_bounded x_fresh" by (simp add: defect_bounded_def x_fresh_def)
  then show ?thesis using machine_progress [of x_fresh b] b by blast
qed

text \<open>C27: On a host where nothing fails, with an adapter that answers with message ids, a claim
  that names the workflow, the project and the root, from the role the stage expects with a legal
  result, and with no row for it in the ledger, is accepted: the turn ends in \<open>Accepted\<close> with the
  routed stage and the target of that stage, and no active row for the transition is left in the
  ledger on disk.\<close>

theorem granted_claim_is_accepted:
  assumes "calm root w" and "ledger_read (sc_ledger (ex_codecs ex)) root w es"
    and "distinct_ids (ledger_of root w es)"
    and "status_of (ledger_of root w es) tid = None"
    and "status_of (ledger_of root w es) (acceptance_id ex a (pc_role c)) \<in> {None, Some Reserved}"
    and "prints (sc_ledger (ex_codecs ex))" and "prints (sc_assignment (ex_codecs ex))"
    and "answers (ex_adapter ex)" and "assignment_wf a" and "claim_granted ex a txt c t tid"
    and "path_eq (pc_project_root c) (wa_project_root a)"
    and "resolve w (pc_project_root c) = pc_project_root c"
    and "commit_target s a t = (name, target)"
  shows "\<exists>m w'. run_claim ex s key root channel a txt w = (TurnAccepted tid t name target m, w')
     \<and> settled ex root w' (acceptance_id ex a (pc_role c))"
  using assms by (rule run_claim_calm)

theorem granted_claim_is_accepted_witness:
  "\<exists>m w'. run_claim x_total x_service ''k'' x_root x_channel x_fresh x_reply (x_host ''fresh'')
       = (TurnAccepted x_tid VerifierActive (Some ''ArthurCodex'') (Some 2) m, w')
     \<and> settled x_total x_root w' (acceptance_id x_total x_fresh (pc_role x_claim))"
proof (rule granted_claim_is_accepted [OF x_calm x_no_ledger])
  show "prints (sc_ledger (ex_codecs x_total))" "prints (sc_assignment (ex_codecs x_total))"
    by (simp_all add: x_total_def total_codec_prints)
  show "answers (ex_adapter x_total)"
  proof -
    have "trim ''m'' \<noteq> []" by code_simp
    then show ?thesis by (simp add: answers_def x_total_def x_ex_def)
  qed
  show "claim_granted x_total x_fresh x_reply x_claim VerifierActive x_tid" by (rule x_granted)
  show "commit_target x_service x_fresh VerifierActive = (Some ''ArthurCodex'', Some 2)" by (rule x_target)
  show "assignment_wf x_fresh" by (rule x_fresh_wf)
  show "path_eq (pc_project_root x_claim) (wa_project_root x_fresh)"
    by (simp add: x_claim_def x_fresh_def x_root_def path_eq_def)
  show "resolve (x_host ''fresh'') (pc_project_root x_claim) = pc_project_root x_claim"
    by (simp add: x_host_def)
qed (simp_all add: distinct_ids_def ledger_of_def status_of_def ledger_lookup_def)

text \<open>A transition already taken up is not taken up twice: when the ledger that the commit
  protocol loads has a row under the acceptance id of the claim that is pending, delivered or
  failed, the protocol rejects the turn at the reservation; nothing is written and nothing is
  sent.\<close>

theorem committed_row_blocks:
  assumes "ledger_load (sc_ledger (ex_codecs ex)) root w = (Inr l, w1)"
    and "status_of l (acceptance_id ex a r) = Some st" and "st \<noteq> Reserved"
  shows "\<exists>m. commit_protocol ex s key root channel a r t tid w = (TurnRejected IllegalTransition m, w1)
     \<and> files w1 = files w \<and> sent w1 = sent w"
proof -
  obtain res l1 w2 where rv: "ledger_reserve (ex_sha ex) (wa_workflow_id a) (wa_workflow_revision a)
      (wa_state a) r (acceptance_pair_result r) l w1 = (res, l1, w2)" by (metis prod_cases3)
  from reserve_cases [OF rv] assms(2,3) obtain e where "res = Inl e" "w2 = w1"
    by (auto simp: acceptance_id_def)
  then show ?thesis
    using assms(1) rv ledger_load_frame [OF assms(1)] by (auto simp: commit_protocol_def commit_reserve_def)
qed

definition x_ledger_host :: "string \<Rightarrow> world" where
  "x_ledger_host ledger_text =
     (x_host ''fresh'')\<lparr>files := [''/p/.openab/workflow_assignment.json'' \<mapsto> ''fresh'',
        ''/p/.openab/workflow_transitions.json'' \<mapsto> ledger_text]\<rparr>"

lemma x_ledger_calm: "calm x_root (x_ledger_host d)"
  by (simp add: calm_def x_ledger_host_def x_host_def x_root_def is_absolute_def path_join_def WORKFLOW_DIR_def)

lemma x_ledger_load:
  "from_json codec d = Inr es \<Longrightarrow>
     ledger_load codec x_root (x_ledger_host d) = (Inr (ledger_of x_root (x_ledger_host d) es), x_ledger_host d)"
  by (rule ledger_load_calm [OF x_ledger_calm])
     (simp add: ledger_read_def x_ledger_host_def x_host_def x_root_def ledger_file_def path_join_def
      WORKFLOW_DIR_def LEDGER_FILENAME_def)

lemma x_ledger_codec: "from_json (sc_ledger (ex_codecs x_ex)) ''delivered'' = Inr [x_row Delivered]"
  "from_json (sc_ledger (ex_codecs x_ex)) ''pending'' = Inr [x_row Pending]"
  "from_json (sc_ledger (ex_codecs x_ex)) ''garbage'' = Inl ''not in the table''"
  by (simp_all add: x_ex_def x_codecs_def table_codec_def)

theorem committed_row_blocks_witness:
  "\<exists>m. commit_protocol x_ex x_service ''k'' x_root x_channel x_fresh Primary VerifierActive x_tid
        (x_ledger_host ''delivered'') = (TurnRejected IllegalTransition m, x_ledger_host ''delivered'')
     \<and> files (x_ledger_host ''delivered'') = files (x_ledger_host ''delivered'')
     \<and> sent (x_ledger_host ''delivered'') = sent (x_ledger_host ''delivered'')"
  by (rule committed_row_blocks [OF x_ledger_load [OF x_ledger_codec(1)], of _ _ Delivered])
     (simp_all add: status_of_def ledger_lookup_def ledger_of_def x_row_def acceptance_id_def x_ex_def
       x_fresh_def x_tid_def acceptance_pair_result_def)






subsection \<open>Recovery\<close>

text \<open>Recovery gives every row of the ledger its verdict and nothing else: reserved rows are
  released, pending rows become delivered when the assignment on disk shows the transition and
  stay pending otherwise, delivered and failed rows stay (a delivered row may be pruned). The
  report lists the verdict of every row in ledger order. When it says persisted, the ledger file
  holds the result; when not, the file is as before.\<close>

theorem recovery_reaches_verdicts:
  assumes "recovery_load cs root w = (Some l, w1)" and "distinct_ids l"
    and "reconcile_project_workflow cs root w = (r, w')"
  shows "\<exists>l' rp. r = Returned (Inr rp) \<and> distinct_ids l'
     \<and> (\<forall>i. verdict_reached (recovery_assignment cs root w1) l l' i)
     \<and> take (length (tl_entries l)) (rp_outcomes rp)
         = map (row_verdict (recovery_assignment cs root w1) l) (ledger_snapshot l)
     \<and> (rp_persisted rp \<longrightarrow>
          (\<exists>d. files w' (ledger_file (resolve w root)) = Some d \<and> to_json (sc_ledger cs) (tl_entries l') = Inr d))
     \<and> (\<not> rp_persisted rp \<longrightarrow>
          files w' (ledger_file (resolve w root)) = files w (ledger_file (resolve w root)))"
  using assms by (rule reconcile_returns)

lemma x_recovery_load: "recovery_load x_codecs x_root (x_ledger_host ''pending'')
    = (Some (ledger_of x_root (x_ledger_host ''pending'') [x_row Pending]), x_ledger_host ''pending'')"
  using x_ledger_load [OF x_ledger_codec(2)] by (simp add: recovery_load_def x_ex_def)

theorem recovery_reaches_verdicts_witness:
  "\<exists>l' rp. fst (reconcile_project_workflow x_codecs x_root (x_ledger_host ''pending'')) = Returned (Inr rp)
     \<and> distinct_ids l'
     \<and> (\<forall>i. verdict_reached (recovery_assignment x_codecs x_root (x_ledger_host ''pending''))
              (ledger_of x_root (x_ledger_host ''pending'') [x_row Pending]) l' i)
     \<and> take 1 (rp_outcomes rp)
         = map (row_verdict (recovery_assignment x_codecs x_root (x_ledger_host ''pending''))
              (ledger_of x_root (x_ledger_host ''pending'') [x_row Pending]))
            (ledger_snapshot (ledger_of x_root (x_ledger_host ''pending'') [x_row Pending]))"
  using recovery_reaches_verdicts [OF x_recovery_load _ surjective_pairing]
  by (fastforce simp: distinct_ids_def)

text \<open>Whatever fails, and whether it returns or panics, recovery sends nothing and touches no
  file but the ledger and the ledger's temporary sibling; in particular not the assignment.\<close>

theorem recovery_touches_only_ledger:
  assumes "reconcile_project_workflow cs root w = (r, w')"
  shows "sent w' = sent w
     \<and> (\<forall>q. q \<noteq> ledger_file (resolve w root) \<and> q \<noteq> json_tmp (ledger_file (resolve w root))
          \<longrightarrow> files w' q = files w q)
     \<and> files w' (assignment_file (resolve w root)) = files w (assignment_file (resolve w root))"
  using reconcile_effect [OF assms] by simp

theorem recovery_touches_only_ledger_witness:
  "sent (snd (reconcile_project_workflow x_codecs x_root (x_ledger_host ''pending''))) = sent (x_ledger_host ''pending'')
     \<and> files (snd (reconcile_project_workflow x_codecs x_root (x_ledger_host ''pending''))) ''/q''
              = files (x_ledger_host ''pending'') ''/q''
     \<and> files (snd (reconcile_project_workflow x_codecs x_root (x_ledger_host ''pending'')))
          (assignment_file (resolve (x_ledger_host ''pending'') x_root))
       = files (x_ledger_host ''pending'') (assignment_file (resolve (x_ledger_host ''pending'') x_root))"
proof -
  have "ledger_file (resolve (x_ledger_host ''pending'') x_root) \<noteq> ''/q''"
    and "json_tmp (ledger_file (resolve (x_ledger_host ''pending'') x_root)) \<noteq> ''/q''"
    by (simp_all add: x_ledger_host_def x_host_def x_root_def ledger_file_def path_join_def
        WORKFLOW_DIR_def LEDGER_FILENAME_def json_tmp_def)
  then show ?thesis
    using recovery_touches_only_ledger [OF surjective_pairing, of x_codecs x_root "x_ledger_host ''pending''"]
    by metis
qed

text \<open>On a host where nothing fails, a ledger file that does not parse makes recovery panic
  instead of starting from an empty ledger; and the project is marked as recovered already, so
  the next turn of the same service does not run recovery again.\<close>

theorem malformed_ledger_panics:
  assumes "calm root w" and "files w (ledger_file (resolve w root)) = Some d"
    and "from_json (sc_ledger (ex_codecs ex)) d = Inl e"
    and "files w (resolve w (path_join root ''.openab'')) = None"
    and "components root \<notin> ws_reconciled_projects s"
  shows "fst (recover_project_workflow ex root s w) = Panicked
     \<and> components root \<in> ws_reconciled_projects (fst (snd (recover_project_workflow ex root s w)))"
proof -
  have load: "ledger_load (sc_ledger (ex_codecs ex)) root v = (Inl (LMalformed [Disp e]), v)"
    if "calm root v" "resolve v = resolve w" "files v = files w" for v
    using that assms(2,3) canonicalize_root_calm [OF that(1)]
    by (simp add: ledger_load_def path_exists_def read_to_string_def next_fault_calm calm_def Let_def)
  obtain v where v: "create_dir_all (path_join root ''.openab'') w = (Inr (), v)"
      "calm root v" "resolve v = resolve w" "files v = files w"
    using assms(1,4) by (simp add: create_dir_all_def next_fault_calm calm_def Let_def)
  have "recovery_load (ex_codecs ex) root w = (None, v)"
    using load [OF assms(1)] load [OF v(2-4)] v(1) by (simp add: recovery_load_def)
  then show ?thesis
    using reconcile_panics assms(5) by (simp add: recover_project_workflow_def Let_def)
qed

theorem malformed_ledger_panics_witness:
  "fst (recover_project_workflow x_ex x_root x_service (x_ledger_host ''garbage'')) = Panicked
     \<and> components x_root \<in> ws_reconciled_projects
          (fst (snd (recover_project_workflow x_ex x_root x_service (x_ledger_host ''garbage''))))"
proof (rule malformed_ledger_panics [OF x_ledger_calm _ x_ledger_codec(3)])
  show "files (x_ledger_host ''garbage'') (ledger_file (resolve (x_ledger_host ''garbage'') x_root)) = Some ''garbage''"
    by (simp add: x_ledger_host_def x_host_def x_root_def ledger_file_def path_join_def
        WORKFLOW_DIR_def LEDGER_FILENAME_def)
  show "files (x_ledger_host ''garbage'') (resolve (x_ledger_host ''garbage'') (path_join x_root ''.openab'')) = None"
    by (simp add: x_ledger_host_def x_host_def x_root_def path_join_def)
qed (simp add: x_service_def new_service_def)

end
