(* ===== verification/Workflow_Store_Properties.thy ===== *)
theory Workflow_Store_Properties
  imports Workflow_Ledger Workflow_Example
begin

section \<open>Properties of the two stores\<close>

text \<open>
  The assignment file and the ledger file: crash safety of the atomic writes, round trips, and
  the lifecycle of the ledger's rows as a step relation with its invariant.
\<close>

subsection \<open>The ledger as a state machine\<close>

text \<open>
  The five operations that change the ledger in memory as one step relation, the moves a row
  can make in a step, and the invariants along every run.
\<close>

inductive ledger_step :: "transition_ledger \<Rightarrow> transition_ledger \<Rightarrow> bool" where
  step_reserve: "ledger_reserve sha wid n s r c l w = (Inr e, l', w') \<Longrightarrow> ledger_step l l'"
| step_pending: "mark_pending i t l = (Inr (), l') \<Longrightarrow> ledger_step l l'"
| step_delivered: "mark_delivered i m l w = (Inr (), l', w') \<Longrightarrow> ledger_step l l'"
| step_failed: "mark_failed i l = (Inr (), l') \<Longrightarrow> ledger_step l l'"
| step_release: "release_stale_reserved i l = (Inr (), l') \<Longrightarrow> ledger_step l l'"

inductive_cases ledger_stepE: "ledger_step l l'"

text \<open>The moves of one row; nothing stands for no row.\<close>

fun row_move :: "transition_status option \<Rightarrow> transition_status option \<Rightarrow> bool" where
  "row_move None (Some Reserved) = True"
| "row_move (Some Reserved) (Some Pending) = True"
| "row_move (Some Reserved) (Some Failed) = True"
| "row_move (Some Reserved) None = True"
| "row_move (Some Pending) (Some Delivered) = True"
| "row_move (Some Pending) (Some Failed) = True"
| "row_move (Some Pending) None = True"
| "row_move (Some Delivered) None = True"
| "row_move s t = (s = t)"

lemma row_move_refl [simp]: "row_move s s"
  by (cases "(s, s)" rule: row_move.cases) auto

lemma ledger_step_distinct:
  assumes "ledger_step l l'" and "distinct_ids l"
  shows "distinct_ids l'"
  using assms(1)
proof (cases rule: ledger_step.cases)
  case step_reserve
  then show ?thesis using reserve_distinct_ids assms(2) by blast
next
  case step_pending
  then show ?thesis using mark_pending_ids assms(2) ids_distinct_ids by blast
next
  case step_delivered
  then show ?thesis using mark_delivered_status_of assms(2) by blast
next
  case step_failed
  then show ?thesis using mark_failed_ids assms(2) ids_distinct_ids by blast
next
  case step_release
  then show ?thesis using release_distinct_ids assms(2) by blast
qed

lemma mark_delivered_moves:
  assumes "mark_delivered i m l w = (Inr (), l', w')" and "distinct_ids l"
  shows "row_move (status_of l j) (status_of l' j)"
proof -
  note d = mark_delivered_status_of [OF assms]
  then have "status_of l' j = ((status_of l)(i \<mapsto> Delivered)) j
      \<or> ((status_of l)(i \<mapsto> Delivered)) j = Some Delivered \<and> status_of l' j = None" by blast
  with d show ?thesis by (cases "j = i") auto
qed

lemma release_moves:
  assumes "release_stale_reserved i l = (Inr (), l')" and "distinct_ids l"
  shows "row_move (status_of l j) (status_of l' j)"
  using release_status_of [OF assms] by auto

lemma mark_failed_moves:
  "mark_failed i l = (Inr (), l') \<Longrightarrow> row_move (status_of l j) (status_of l' j)"
  by (drule mark_failed_status_of) auto

lemma mark_pending_moves:
  "mark_pending i t l = (Inr (), l') \<Longrightarrow> row_move (status_of l j) (status_of l' j)"
  by (drule mark_pending_status_of) auto

lemma reserve_moves:
  "ledger_reserve sha wid n s r c l w = (Inr e, l', w') \<Longrightarrow> row_move (status_of l j) (status_of l' j)"
  by (drule reserve_status_of) auto

lemmas operation_moves = reserve_moves mark_pending_moves mark_delivered_moves mark_failed_moves release_moves

lemma ledger_step_moves:
  assumes "ledger_step l l'" and "distinct_ids l"
  shows "row_move (status_of l j) (status_of l' j)"
  using assms(1) by (cases rule: ledger_step.cases) (auto intro: operation_moves assms(2))

text \<open>A delivered row is a final one, unless it is pruned; a failed row is final.\<close>

definition ledger_inv :: "string \<Rightarrow> transition_ledger \<Rightarrow> bool" where
  "ledger_inv i l \<longleftrightarrow> distinct_ids l \<and> status_of l i = Some Failed"

interpretation ledger: preserved ledger_step distinct_ids
  by unfold_locales (rule ledger_step_distinct)

interpretation failed_row: preserved ledger_step "ledger_inv i" for i
proof unfold_locales
  fix l l'
  assume s: "ledger_step l l'" and i: "ledger_inv i l"
  then have "row_move (Some Failed) (status_of l' i)"
    using ledger_step_moves [OF s, of i] by (auto simp: ledger_inv_def)
  then have "status_of l' i = Some Failed" by (cases "status_of l' i") (auto elim: row_move.elims)
  with s i show "ledger_inv i l'" by (simp add: ledger_inv_def ledger_step_distinct)
qed

subsection \<open>The assignment file\<close>

text \<open>Whatever call fails on the way, saving an assignment leaves the file with its old
  content and an error, or with the printed form of the validated assignment and a success;
  there is no third possibility, and no file but the assignment and its temporary sibling
  changes.\<close>

theorem save_assignment_old_or_new:
  assumes "save_assignment_atomic codec root a w = (r, w')"
  shows "((\<exists>e. r = Inl e) \<and> files w' (assignment_file (resolve w root)) = files w (assignment_file (resolve w root))
       \<or> (\<exists>now d. r = Inr (assignment_file (resolve w root))
            \<and> files w' (assignment_file (resolve w root)) = Some d
            \<and> to_json codec (a\<lparr>wa_project_root := resolve w root, wa_updated_at := now\<rparr>) = Inr d
            \<and> assignment_wf (a\<lparr>wa_project_root := resolve w root, wa_updated_at := now\<rparr>)))
     \<and> (\<forall>q. q \<noteq> assignment_file (resolve w root) \<and> q \<noteq> json_tmp (assignment_file (resolve w root))
          \<longrightarrow> files w' q = files w q)"
  using save_assignment_files [OF assms] by (cases r) auto

text \<open>A write that fails in the middle: the temporary file is torn, the assignment is not.\<close>

definition x_torn_host :: world where
  "x_torn_host = (x_host ''fresh'')\<lparr>faults := replicate 4 Proceed @ [Fail 2 ''disk full'']\<rparr>"

theorem save_assignment_old_or_new_witness:
  "fst (save_assignment_atomic (sc_assignment x_codecs) x_root x_fresh x_torn_host)
       = Inl (AIo ''/p/.openab/workflow_assignment.json.tmp'' [Lit ''write tmp: '', Disp ''disk full''])
     \<and> files (snd (save_assignment_atomic (sc_assignment x_codecs) x_root x_fresh x_torn_host))
         (assignment_file (resolve x_torn_host x_root))
       = files x_torn_host (assignment_file (resolve x_torn_host x_root))"
proof -
  have "fst (save_assignment_atomic (sc_assignment x_codecs) x_root x_fresh x_torn_host)
       = Inl (AIo ''/p/.openab/workflow_assignment.json.tmp'' [Lit ''write tmp: '', Disp ''disk full''])"
    by code_simp
  with save_assignment_old_or_new [OF surjective_pairing] show ?thesis by fastforce
qed




text \<open>A load accepts a file only if the assignment in it is well formed and names the very
  root it was loaded from, and it never changes the host's files.\<close>

theorem load_is_fail_closed:
  assumes "load_assignment codec root w = (Inr (Some a), w')"
  shows "assignment_wf a \<and> path_eq (wa_project_root a) (resolve w root)
     \<and> (\<exists>d. files w (assignment_file (resolve w root)) = Some d \<and> from_json codec d = Inr a)
     \<and> files w' = files w"
  using load_assignment_Some [OF assms] load_assignment_frame [OF assms] by blast

lemma x_load: "fst (load_assignment (sc_assignment x_codecs) x_root (x_host ''fresh'')) = Inr (Some x_fresh)"
  by code_simp

theorem load_is_fail_closed_witness:
  "assignment_wf x_fresh \<and> path_eq (wa_project_root x_fresh) (resolve (x_host ''fresh'') x_root)
     \<and> (\<exists>d. files (x_host ''fresh'') (assignment_file (resolve (x_host ''fresh'') x_root)) = Some d
           \<and> from_json (sc_assignment x_codecs) d = Inr x_fresh)
     \<and> files (snd (load_assignment (sc_assignment x_codecs) x_root (x_host ''fresh''))) = files (x_host ''fresh'')"
  by (rule load_is_fail_closed) (use x_load in \<open>simp add: prod_eq_iff\<close>)

subsection \<open>The ledger\<close>

text \<open>C32: Along every run of ledger operations no transition id gets a second row, a row that has
  failed stays failed, and each single operation moves every row along an edge of the lifecycle
  (reserved, pending, delivered, with failure and release where the lifecycle has them).\<close>

theorem ledger_lifecycle:
  assumes "ledger_step\<^sup>*\<^sup>* l l'" and "distinct_ids l"
  shows "distinct_ids l' \<and> (status_of l i = Some Failed \<longrightarrow> status_of l' i = Some Failed)
     \<and> (ledger_step l' l'' \<longrightarrow> row_move (status_of l' i) (status_of l'' i))"
proof -
  have "distinct_ids l'" by (rule ledger.run_inv [OF assms])
  moreover have "status_of l i = Some Failed \<longrightarrow> status_of l' i = Some Failed"
    using failed_row.run_inv [OF assms(1), of i] assms(2) by (simp add: ledger_inv_def)
  ultimately show ?thesis using ledger_step_moves by blast
qed

definition x_rows :: "transition_status \<Rightarrow> transition_ledger" where
  "x_rows st = \<lparr>tl_entries = [(x_row Reserved)\<lparr>le_status := st\<rparr>], tl_path = []\<rparr>"

lemma x_rows_status: "status_of (x_rows st) x_tid = Some st"
  by (simp add: status_of_def ledger_lookup_def x_rows_def x_row_def)

lemma x_failed_step: "st \<in> {Reserved, Pending} \<Longrightarrow> ledger_step (x_rows st) (x_rows Failed)"
  by (rule step_failed [of x_tid])
     (auto simp: mark_failed_def transition_status_to_def ledger_lookup_def x_rows_def x_row_def)

theorem ledger_lifecycle_witness:
  "distinct_ids (x_rows Failed) \<and> row_move (Some Reserved) (Some Failed) \<and> status_of (x_rows Failed) x_tid = Some Failed"
proof -
  have d: "distinct_ids (x_rows st)" for st by (simp add: distinct_ids_def x_rows_def)
  have s: "ledger_step (x_rows Reserved) (x_rows Failed)" by (rule x_failed_step) simp
  have "row_move (status_of (x_rows Reserved) x_tid) (status_of (x_rows Failed) x_tid)"
    using ledger_lifecycle [OF rtranclp.rtrancl_refl d] s by blast
  moreover have "distinct_ids (x_rows Failed)"
    using ledger_lifecycle [OF r_into_rtranclp [where r = ledger_step, OF s] d] by blast
  ultimately show ?thesis by (simp only: x_rows_status)
qed

text \<open>A status change succeeds exactly when the row exists and the lifecycle has the edge; then
  it changes the status of that id and of no other; otherwise it reports the missing row or the
  illegal edge and the ledger is as before.\<close>

theorem status_change_exact:
  "case status_of l i of
     None \<Rightarrow> transition_status_to i to l = (Inl (LUnknownTransition i), l)
   | Some s \<Rightarrow>
       if legal_status_change s to
       then fst (transition_status_to i to l) = Inr ()
            \<and> status_of (snd (transition_status_to i to l)) = (status_of l)(i \<mapsto> to)
       else transition_status_to i to l = (Inl (LInvalidTransition i s to), l)"
proof (cases "ledger_lookup l i")
  case None
  then show ?thesis by (simp add: status_of_def transition_status_to_def)
next
  case (Some e)
  show ?thesis
  proof (cases "legal_status_change (le_status e) to")
    case True
    then obtain l' where l': "transition_status_to i to l = (Inr (), l')"
      using Some by (simp add: transition_status_to_def)
    then show ?thesis
      using Some True transition_status_to_status_of [OF l'] by (simp add: status_of_def)
  next
    case False
    then show ?thesis using Some by (simp add: status_of_def transition_status_to_def)
  qed
qed

text \<open>Pruning never drops a row that is not delivered and keeps their order, leaves at most 256
  rows unless more rows than that are still active, and the deliveries it drops are no later than
  the ones it keeps.\<close>

theorem prune_keeps_active_and_latest:
  "active_rows (prune_delivered l) = active_rows l
     \<and> length (tl_entries (prune_delivered l)) \<le> max 256 (length (active_rows l))
     \<and> set (tl_entries (prune_delivered l)) \<subseteq> set (tl_entries l)
     \<and> (\<forall>e\<in>set (tl_entries l) - set (tl_entries (prune_delivered l)).
          \<forall>d\<in>set (tl_entries (prune_delivered l)).
            is_delivered d \<longrightarrow> is_delivered e \<and> delivery_time e \<le> delivery_time d)"
  using prune_active_rows prune_bound [of l] prune_set prune_keeps_latest
  by (fastforce simp: MAX_LEDGER_ENTRIES_def)

theorem prune_keeps_active_and_latest_witness:
  "active_rows (prune_delivered \<lparr>tl_entries = [x_row Delivered], tl_path = []\<rparr>)
       = active_rows \<lparr>tl_entries = [x_row Delivered], tl_path = []\<rparr>
     \<and> length (tl_entries (prune_delivered \<lparr>tl_entries = [x_row Delivered], tl_path = []\<rparr>))
        \<le> max 256 (length (active_rows \<lparr>tl_entries = [x_row Delivered], tl_path = []\<rparr>))
     \<and> set (tl_entries (prune_delivered \<lparr>tl_entries = [x_row Delivered], tl_path = []\<rparr>))
        \<subseteq> set (tl_entries \<lparr>tl_entries = [x_row Delivered], tl_path = []\<rparr>)"
  using prune_keeps_active_and_latest by blast

text \<open>A ledger that was saved is the ledger the next load reads, whatever was on disk before.\<close>

theorem ledger_save_then_load:
  assumes "calm root w" and "ledger_at root w l" and "codec_ok codec"
    and "to_json codec (tl_entries l) = Inr d"
  shows "\<exists>w'. ledger_save_atomic codec l w = (Inr (tl_path l), w') \<and> ledger_load codec root w' = (Inr l, w')"
proof -
  obtain w' where w': "ledger_save_atomic codec l w = (Inr (tl_path l), w')" "stores root (tl_path l) d w w'"
    using ledger_save_calm [OF assms(1,2,4)] by blast
  have p: "tl_path l = ledger_file (resolve w' root)"
    using assms(2) w'(2) by (simp add: ledger_at_def stores_def)
  have "ledger_read codec root w' (tl_entries l)"
    using w'(2) assms(3,4) p by (simp add: ledger_read_def stores_def codec_ok_def)
  then have "ledger_load codec root w' = (Inr (ledger_of root w' (tl_entries l)), w')"
    using w'(2) by (intro ledger_load_calm) (simp_all add: stores_def)
  then show ?thesis using w'(1) p by (simp add: ledger_of_def)
qed

theorem ledger_save_then_load_witness:
  "\<exists>w'. ledger_save_atomic (sc_ledger x_codecs) (ledger_of x_root (x_host ''fresh'') [x_row Pending]) (x_host ''fresh'')
       = (Inr (tl_path (ledger_of x_root (x_host ''fresh'') [x_row Pending])), w')
     \<and> ledger_load (sc_ledger x_codecs) x_root w'
       = (Inr (ledger_of x_root (x_host ''fresh'') [x_row Pending]), w')"
  by (rule ledger_save_then_load [OF x_calm, of _ _ "''pending''"])
     (simp_all add: x_codecs_def table_codec_ok, simp add: table_codec_def x_row_def)

end
