(* ===== verification/Workflow_Decision_Properties.thy ===== *)
theory Workflow_Decision_Properties
  imports Workflow_Example
begin

section \<open>Properties of the decisions\<close>

text \<open>
  What the validator, the claim parser, the transition id, the role gate and the context
  injection decide, as exact conditions on their inputs.
\<close>

subsection \<open>The validator\<close>

text \<open>The validator accepts a claim exactly when the claim names the workflow, the project and
  (up to the canonical form) the root of the trusted assignment, the ledger does not know the
  transition, and the claimed role and result are a legal move from the current stage; what it
  accepts is that move, routed through the defect-loop limit, under the derived id and the next
  revision.\<close>

theorem validator_accepts_iff:
  "(\<exists>w'. validate sha c a replay w = (VAccepted s r x t i n, w')) \<longleftrightarrow>
     pc_workflow_id c = wa_workflow_id a \<and> pc_project_id c = wa_project_id a
     \<and> path_eq (fst (canonical_root_or_original (pc_project_root c) w)) (wa_project_root a)
     \<and> replay = RNew
     \<and> (\<exists>u. legal_next_stage (wa_state a) (pc_role c) (pc_result c) = Some u \<and> t = effective_next_stage a u)
     \<and> s = wa_state a \<and> r = pc_role c \<and> x = pc_result c
     \<and> i = derive_transition_id sha (wa_workflow_id a) (wa_workflow_revision a) (wa_state a) r x
     \<and> n = wa_workflow_revision a + 1"
  (is "?l \<longleftrightarrow> ?r")
proof
  assume ?l
  then obtain w' where v: "validate sha c a replay w = (VAccepted s r x t i n, w')" by blast
  from validate_accepted [OF v] show ?r unfolding validate_stage_accepted by auto
next
  assume ?r
  then have "validate_stage sha c a replay = VAccepted s r x t i n"
    unfolding validate_stage_accepted by auto
  moreover have "fst (validate sha c a replay w) = validate_stage sha c a replay"
    using \<open>?r\<close> by (intro validate_accepts) auto
  ultimately show ?l by (metis prod.collapse)
qed

text \<open>A failed review is routed by the defect counter: the first one goes to the correction
  stage, every later one to the terminal blocked stage; no reject of the validator ever carries
  the reason \<open>DefectLoopExhausted\<close>.\<close>

theorem defect_loop_routing:
  "effective_next_stage a PrimaryCorrectionPending
     = (if wa_defect_loop_count a = 0 then PrimaryCorrectionPending else Blocked)
   \<and> (\<forall>t. t \<noteq> PrimaryCorrectionPending \<longrightarrow> effective_next_stage a t = t)
   \<and> fst (validate sha c b replay w) \<noteq> VRejected DefectLoopExhausted m"
  using validate_never_exhausted by (simp add: effective_next_stage_def SUPPORTED_DEFECT_LOOP_MAX_def one_le_word)

theorem defect_loop_routing_witness:
  "effective_next_stage x_fresh PrimaryCorrectionPending
     = (if wa_defect_loop_count x_fresh = 0 then PrimaryCorrectionPending else Blocked)
   \<and> effective_next_stage x_fresh VerifierActive = VerifierActive
   \<and> fst (validate x_sha x_claim x_fresh RNew (x_host ''fresh'')) \<noteq> VRejected DefectLoopExhausted []"
  using defect_loop_routing [of x_fresh x_sha x_claim x_fresh RNew "x_host ''fresh''" "[]"]
    workflow_stage.distinct by blast

subsection \<open>Claims and ids\<close>

text \<open>The parser finds a claim exactly when the text has one completion block, the block's
  lines parse into fields, every field is a required or an optional one, the required ones are
  there and not empty, and role and result are canonical; the claim then says what the fields
  say. So a forbidden field, an unknown field, a missing field or a second block never gives a
  claim.\<close>

theorem parser_accepts_iff:
  assumes "key_order ord"
  shows "parse_role_completion ulow ord text = ParsedClaim c \<longleftrightarrow>
     (\<exists>body kvs. block_captures text = [body] \<and> parse_block_fields ulow body = Inr kvs
        \<and> claim_of_fields kvs c)"
proof
  assume "parse_role_completion ulow ord text = ParsedClaim c"
  then obtain body where "block_captures text = [body]" "parse_single_block ulow ord body = ParsedClaim c"
    using parse_claim_single by blast
  then show "\<exists>body kvs. block_captures text = [body] \<and> parse_block_fields ulow body = Inr kvs
        \<and> claim_of_fields kvs c"
    using parse_single_block_sound [OF assms] by blast
next
  assume "\<exists>body kvs. block_captures text = [body] \<and> parse_block_fields ulow body = Inr kvs
        \<and> claim_of_fields kvs c"
  then show "parse_role_completion ulow ord text = ParsedClaim c"
    using parse_single_block_complete [OF assms] by (auto simp: parse_role_completion_def)
qed

theorem parser_accepts_iff_witness:
  "parse_role_completion (\<lambda>s. s) (\<lambda>ks. ks) x_reply = ParsedClaim x_claim \<longleftrightarrow>
     (\<exists>body kvs. block_captures x_reply = [body] \<and> parse_block_fields (\<lambda>s. s) body = Inr kvs
        \<and> claim_of_fields kvs x_claim)"
  by (rule parser_accepts_iff) (simp add: key_order_def)

text \<open>The text that is hashed into a transition id determines all five of its inputs, so two
  different moves share an id only if the truncated hash collides; the id is 32 characters of
  lower-case hexadecimal.\<close>

theorem transition_id_text_injective:
  "(id_payload wid n s r c = id_payload wid' n' s' r' c' \<longleftrightarrow>
      wid = wid' \<and> n = n' \<and> s = s' \<and> r = r' \<and> c = c')
   \<and> (16 \<le> length (sha (id_payload wid n s r c)) \<longrightarrow>
        length (derive_transition_id sha wid n s r c) = 32)
   \<and> set (derive_transition_id sha wid n s r c) \<subseteq> set ''0123456789abcdef''"
proof -
  have byte: "(of_char b :: nat) div 16 < 16 \<and> (of_char b :: nat) mod 16 < 16" for b :: char
  proof -
    have "(of_char b :: nat) \<in> {0..<256}" using range_nat_of_char by blast
    then show ?thesis by (simp add: less_mult_imp_div_less)
  qed
  have "set (hex_byte b) \<subseteq> set ''0123456789abcdef''" for b :: char
  proof -
    define S where "S = set ''0123456789abcdef''"
    have "hex_digit ((of_char b :: nat) div 16) \<in> S" "hex_digit ((of_char b :: nat) mod 16) \<in> S"
      unfolding S_def using byte [of b] by (blast intro: hex_digit_set)+
    then show ?thesis unfolding S_def [symmetric] by (simp add: hex_byte_def Let_def)
  qed
  then have "set (derive_transition_id sha wid n s r c) \<subseteq> set ''0123456789abcdef''"
    by (auto simp: derive_transition_id_def simp del: set_simps)
  then show ?thesis using id_payload_inject transition_id_length by simp
qed

theorem transition_id_text_injective_witness:
  "(id_payload ''a|1'' 2 PrimaryActive Primary Complete = id_payload ''a'' 1 PrimaryActive Primary Complete \<longleftrightarrow>
      ''a|1'' = ''a'' \<and> (2 :: u64) = 1 \<and> PrimaryActive = PrimaryActive \<and> Primary = Primary \<and> Complete = Complete)
   \<and> length (derive_transition_id x_sha ''a|1'' 2 PrimaryActive Primary Complete) = 32
   \<and> set (derive_transition_id x_sha ''a|1'' 2 PrimaryActive Primary Complete) \<subseteq> set ''0123456789abcdef''"
proof -
  have "16 \<le> length (x_sha (id_payload ''a|1'' 2 PrimaryActive Primary Complete))"
    by (simp add: x_sha_def id_payload_def)
  then show ?thesis
    using transition_id_text_injective [of "''a|1''" 2 PrimaryActive Primary Complete "''a''" 1 PrimaryActive Primary
        Complete x_sha] by blast
qed

subsection \<open>The role gate\<close>

text \<open>With an assignment on file, the gate lets a bot's message through exactly when this
  daemon's identity resolves to the role that the current stage expects, and a human's message
  exactly when the sender's user id is a Tech Lead id; no display name ever matters.\<close>

theorem gate_admits_iff:
  "(is_admit (decide_workflow_gate identity sender sender_is_bot (Some a) leads) \<longleftrightarrow>
     (if sender_is_bot
      then (\<exists>i r. identity = Some i \<and> resolve_role_from_assignment i a = Inr r
               \<and> expected_role_for_stage (wa_state a) = Some (rr_role r))
      else (\<exists>u. sender = Some u \<and> si_user_id u \<in> leads)))
   \<and> is_suppress (decide_workflow_gate identity sender sender_is_bot (Some a) leads)
       = (\<not> is_admit (decide_workflow_gate identity sender sender_is_bot (Some a) leads))
   \<and> decide_workflow_gate identity (map_option (\<lambda>u. u\<lparr>si_display_name := name\<rparr>) sender) sender_is_bot b leads
       = decide_workflow_gate identity sender sender_is_bot b leads"
proof -
  have "decide_workflow_gate identity (map_option (\<lambda>u. u\<lparr>si_display_name := name\<rparr>) sender) sender_is_bot b leads
       = decide_workflow_gate identity sender sender_is_bot b leads"
    by (rule gate_ignores_display_name) (cases sender, simp_all)
  then show ?thesis
    unfolding gate_admit_iff suppress_not_admit
    by (auto simp: is_tech_lead_authorized_def split: option.splits)
qed

text \<open>In a running workflow with three different agents, exactly one of the three daemons is
  admitted to answer bot traffic, the one in the slot of the expected role; in a terminal stage
  none is.\<close>

theorem gate_admits_one_agent:
  assumes "distinct [wa_primary a, wa_verifier a, wa_final_reviewer a]"
  shows "is_admit (decide_workflow_gate (Some i) sender True (Some a) leads) \<longleftrightarrow>
     (\<exists>r. expected_role_for_stage (wa_state a) = Some r \<and> slot a r = identity_str i)"
proof
  assume "is_admit (decide_workflow_gate (Some i) sender True (Some a) leads)"
  then obtain x where x: "resolve_role_from_assignment i a = Inr x"
      "expected_role_for_stage (wa_state a) = Some (rr_role x)"
    by (auto simp: gate_admit_iff)
  then show "\<exists>r. expected_role_for_stage (wa_state a) = Some r \<and> slot a r = identity_str i"
    using resolve_role_slot by blast
next
  assume "\<exists>r. expected_role_for_stage (wa_state a) = Some r \<and> slot a r = identity_str i"
  then obtain r where r: "expected_role_for_stage (wa_state a) = Some r" "slot a r = identity_str i" by blast
  with resolve_role_unique [OF assms r(2)] show "is_admit (decide_workflow_gate (Some i) sender True (Some a) leads)"
    by (auto simp: gate_admit_iff)
qed

theorem gate_admits_one_agent_witness:
  "is_admit (decide_workflow_gate (Some ArthurClaude) None True (Some x_fresh) {1}) \<longleftrightarrow>
     (\<exists>r. expected_role_for_stage (wa_state x_fresh) = Some r \<and> slot x_fresh r = identity_str ArthurClaude)"
  by (rule gate_admits_one_agent) (simp add: x_fresh_def)

text \<open>The trusted context reaches the prompt exactly when the gate admits the message and the
  assignment is there and not terminal; deciding writes no file and sends nothing.\<close>

theorem context_only_when_admitted:
  assumes "phase3_a13_decide codec env root uid name from_bot thread leads cache w = ((gate, block), cache', w')"
  shows "(block \<noteq> None \<longrightarrow> is_admit gate
            \<and> (\<exists>p a. root = Some p \<and> stored codec p w a \<and> \<not> is_terminal (wa_state a)))
     \<and> files w' = files w \<and> sent w' = sent w"
proof -
  obtain loaded w1 where ld: "(case root of None \<Rightarrow> (Inr None, w) | Some p \<Rightarrow> load_assignment codec p w) = (loaded, w1)"
    by fastforce
  define assignment where "assignment = (case loaded of Inr (Some a) \<Rightarrow> Some a | _ \<Rightarrow> None)"
  have frame: "files w1 = files w \<and> sent w1 = sent w"
    using ld by (cases root) (auto dest!: load_assignment_frame)
  have pair: "(case root of None \<Rightarrow> (None, w)
       | Some p \<Rightarrow> (case load_assignment codec p w of (Inr (Some a), w1) \<Rightarrow> (Some a, w1)
                    | (Inr None, w1) \<Rightarrow> (None, w1) | (Inl _, w1) \<Rightarrow> (None, w1))) = (assignment, w1)"
    using ld unfolding assignment_def
    by (cases root) (auto split: prod.splits sum.splits option.splits)
  have st: "assignment = Some a \<Longrightarrow> \<exists>p. root = Some p \<and> stored codec p w a" for a
    using ld unfolding assignment_def
    by (cases root) (auto split: sum.splits option.splits dest: load_stored)
  obtain ir c1 where ir: "current_agent_identity_from_env env cache = (ir, c1)" by fastforce
  obtain d where d: "block = map_option render_workflow_context_block (cd_context d)"
      "\<exists>role. d = decide_context_injection gate assignment thread None role" and w': "w' = w1"
  proof -
    have "\<exists>role. block = map_option render_workflow_context_block
        (cd_context (decide_context_injection gate assignment thread None role)) \<and> w' = w1"
      using assms unfolding phase3_a13_decide_def pair ir Let_def prod.case prod.inject
      by (elim conjE, hypsubst, intro exI conjI) (rule refl)+
    then show thesis using that by blast
  qed
  have "is_admit gate \<and> (\<exists>p a. root = Some p \<and> stored codec p w a \<and> \<not> is_terminal (wa_state a))"
    if "block \<noteq> None"
  proof -
    obtain role where r: "d = decide_context_injection gate assignment thread None role" using d(2) by blast
    have "cd_context d \<noteq> None" using that d(1) by (cases "cd_context d") simp_all
    then have "is_admit gate \<and> (\<exists>a. assignment = Some a \<and> \<not> is_terminal (wa_state a))"
      unfolding r context_injected_iff .
    then show ?thesis using st by blast
  qed
  then show ?thesis using frame w' by blast
qed

definition x_decide :: "(gate_decision \<times> string option) \<times> identity_cache \<times> world" where
  "x_decide = phase3_a13_decide (sc_assignment x_codecs) (Some ''ArthurClaude'') (Some x_root) (Some 1) ''lead''
     False ''t'' {1} None (x_host ''fresh'')"

lemma x_block: "snd (fst x_decide) \<noteq> None"
  by code_simp

theorem context_only_when_admitted_witness:
  "snd (fst x_decide) \<noteq> None \<and> is_admit (fst (fst x_decide))
   \<and> files (snd (snd x_decide)) = files (x_host ''fresh'') \<and> sent (snd (snd x_decide)) = sent (x_host ''fresh'')"
proof -
  obtain gate block cache w' where d: "x_decide = ((gate, block), cache, w')"
    by (metis prod.exhaust)
  show ?thesis
    using context_only_when_admitted [OF d [unfolded x_decide_def]] x_block by (simp add: d)
qed

end
