(* ===== verification/Ordered_Table.thy ===== *)
theory Ordered_Table
  imports Prelude "HOL-Library.List_Lexorder" "HOL-Library.Char_ord"
begin

section \<open>Ordered tables\<close>

text \<open>
  \<^verbatim>\<open>std::collections::BTreeMap\<close> as the list of its pairs in key order, with the
  operations the control plane calls, and the interface its clients reason through: a table
  that is read, written and cleared at one key, and how much of it satisfies a predicate.
\<close>

subsection \<open>The interface\<close>

locale keyed_table =
  fixes get :: "'t \<Rightarrow> 'k \<Rightarrow> 'v option"
    and put :: "'k \<Rightarrow> 'v \<Rightarrow> 't \<Rightarrow> 't"
    and del :: "'k \<Rightarrow> 't \<Rightarrow> 't"
    and rows :: "'t \<Rightarrow> ('k \<times> 'v) list"
    and inv :: "'t \<Rightarrow> bool"
  assumes get_put: "get (put k v t) = (get t)(k \<mapsto> v)"
    and get_del: "get (del k t) = (get t)(k := None)"
    and inv_put: "inv t \<Longrightarrow> inv (put k v t)"
    and inv_del: "inv t \<Longrightarrow> inv (del k t)"
    and rows_get: "inv t \<Longrightarrow> (k, v) \<in> set (rows t) \<longleftrightarrow> get t k = Some v"
begin

text \<open>How many keys hold a value that satisfies the predicate.\<close>

definition load :: "('v \<Rightarrow> bool) \<Rightarrow> 't \<Rightarrow> nat" where
  "load P t = card {k. \<exists>v. get t k = Some v \<and> P v}"

lemma load_finite: "inv t \<Longrightarrow> finite {k. \<exists>v. get t k = Some v \<and> P v}"
proof -
  assume "inv t"
  then have "{k. \<exists>v. get t k = Some v \<and> P v} \<subseteq> fst ` set (rows t)"
    using rows_get by force
  then show ?thesis using finite_subset by blast
qed

lemma load_put_fresh:
  assumes "inv t" and "get t k = None"
  shows "load P (put k v t) = load P t + (if P v then 1 else 0)"
proof -
  have "{j. \<exists>x. get (put k v t) j = Some x \<and> P x}
      = (if P v then insert k {j. \<exists>x. get t j = Some x \<and> P x} else {j. \<exists>x. get t j = Some x \<and> P x})"
    using assms(2) by (auto simp: get_put)
  moreover have "k \<notin> {j. \<exists>x. get t j = Some x \<and> P x}" using assms(2) by simp
  ultimately show ?thesis using load_finite [OF assms(1)] by (simp add: load_def)
qed

lemma load_del:
  assumes "inv t" and "get t k = Some v"
  shows "load P t = load P (del k t) + (if P v then 1 else 0)"
proof -
  have "{j. \<exists>x. get t j = Some x \<and> P x}
      = (if P v then insert k {j. \<exists>x. get (del k t) j = Some x \<and> P x}
         else {j. \<exists>x. get (del k t) j = Some x \<and> P x})"
    using assms(2) by (auto simp: get_del)
  moreover have "k \<notin> {j. \<exists>x. get (del k t) j = Some x \<and> P x}" by (simp add: get_del)
  ultimately show ?thesis using load_finite [OF inv_del [OF assms(1)]] by (simp add: load_def)
qed

lemma load_zero: "(\<And>k v. get t k = Some v \<Longrightarrow> \<not> P v) \<Longrightarrow> load P t = 0"
proof -
  assume "\<And>k v. get t k = Some v \<Longrightarrow> \<not> P v"
  then have "{k. \<exists>v. get t k = Some v \<and> P v} = {}" by blast
  then show ?thesis unfolding load_def by (simp only: card.empty)
qed

lemma load_pos: "inv t \<Longrightarrow> get t k = Some v \<Longrightarrow> P v \<Longrightarrow> 0 < load P t"
  using load_del by fastforce

end

subsection \<open>The tree map\<close>

definition bt_get :: "('k \<times> 'v) list \<Rightarrow> 'k \<Rightarrow> 'v option" where
  "bt_get t k = map_of t k"

fun bt_insert :: "'k::linorder \<Rightarrow> 'v \<Rightarrow> ('k \<times> 'v) list \<Rightarrow> ('k \<times> 'v) list" where
  "bt_insert k v [] = [(k, v)]"
| "bt_insert k v ((j, u) # t) =
     (if k < j then (k, v) # (j, u) # t else if k = j then (k, v) # t else (j, u) # bt_insert k v t)"

definition bt_remove :: "'k \<Rightarrow> ('k \<times> 'v) list \<Rightarrow> ('k \<times> 'v) list" where
  "bt_remove k t = filter (\<lambda>e. fst e \<noteq> k) t"

definition bt_inv :: "('k::linorder \<times> 'v) list \<Rightarrow> bool" where
  "bt_inv t \<longleftrightarrow> sorted_wrt (<) (map fst t)"

lemma bt_get_insert: "bt_get (bt_insert k v t) = (bt_get t)(k \<mapsto> v)"
  unfolding bt_get_def by (induction k v t rule: bt_insert.induct) (auto simp: fun_eq_iff)

lemma bt_get_remove: "bt_get (bt_remove k t) = (bt_get t)(k := None)"
  unfolding bt_get_def bt_remove_def by (induction t) (auto simp: fun_eq_iff)

lemma bt_insert_keys: "set (map fst (bt_insert k v t)) = insert k (set (map fst t))"
  by (induction k v t rule: bt_insert.induct) auto

lemma bt_inv_insert: "bt_inv t \<Longrightarrow> bt_inv (bt_insert k v t)"
  unfolding bt_inv_def
proof (induction k v t rule: bt_insert.induct)
  case (2 k v j u t)
  then show ?case
    using bt_insert_keys [of k v t] by (auto simp: image_iff)
qed simp

lemma bt_inv_filter: "bt_inv t \<Longrightarrow> bt_inv (filter P t)"
  by (induction t) (auto simp: bt_inv_def)

lemma bt_inv_remove: "bt_inv t \<Longrightarrow> bt_inv (bt_remove k t)"
  unfolding bt_inv_def bt_remove_def
  by (induction t) auto

lemma bt_inv_distinct: "bt_inv t \<Longrightarrow> distinct (map fst t)"
  unfolding bt_inv_def by (simp add: strict_sorted_iff)

lemma bt_rows_get: "bt_inv t \<Longrightarrow> (k, v) \<in> set t \<longleftrightarrow> bt_get t k = Some v"
  unfolding bt_get_def using bt_inv_distinct by (metis map_of_SomeD map_of_is_SomeI)

lemma bt_get_filter:
  assumes "bt_inv t"
  shows "bt_get (filter (\<lambda>e. P (snd e)) t) k = (case bt_get t k of Some v \<Rightarrow> if P v then Some v else None | None \<Rightarrow> None)"
proof -
  have iff: "bt_get (filter (\<lambda>e. P (snd e)) t) k = Some v \<longleftrightarrow> bt_get t k = Some v \<and> P v" for v
    by (simp only: bt_rows_get [OF bt_inv_filter [OF assms], symmetric] bt_rows_get [OF assms, symmetric]
        set_filter mem_Collect_eq snd_conv)
  show ?thesis
  proof (cases "bt_get (filter (\<lambda>e. P (snd e)) t) k")
    case None
    then have "\<not> (bt_get t k = Some v \<and> P v)" for v using iff [of v] by simp
    then show ?thesis using None by (simp split: option.split)
  next
    case (Some v)
    then show ?thesis using iff [of v] by simp
  qed
qed

lemma bt_inv_Nil [simp]: "bt_inv []"
  by (simp add: bt_inv_def)

lemma bt_get_Nil [simp]: "bt_get [] k = None"
  by (simp add: bt_get_def)

interpretation tree: keyed_table bt_get bt_insert bt_remove "\<lambda>t. t" bt_inv
  by unfold_locales (simp_all add: bt_get_insert bt_get_remove bt_inv_insert bt_inv_remove bt_rows_get)

lemmas bt_simps [simp] = bt_get_insert bt_get_remove

text \<open>The count, as a program would take it.\<close>

definition bt_count :: "('v \<Rightarrow> bool) \<Rightarrow> ('k \<times> 'v) list \<Rightarrow> nat" where
  "bt_count P t = length (filter (\<lambda>e. P (snd e)) t)"

lemma bt_count_load: "bt_inv t \<Longrightarrow> bt_count P t = tree.load P t"
proof -
  assume i: "bt_inv t"
  have "{k. \<exists>v. bt_get t k = Some v \<and> P v} = fst ` set (filter (\<lambda>e. P (snd e)) t)"
    using bt_rows_get [OF i] by force
  moreover have "distinct (map fst (filter (\<lambda>e. P (snd e)) t))"
    using bt_inv_distinct [OF i] by (simp add: distinct_map_filter)
  then have "card (fst ` set (filter (\<lambda>e. P (snd e)) t)) = length (filter (\<lambda>e. P (snd e)) t)"
    by (metis distinct_card length_map set_map)
  ultimately show ?thesis by (simp add: tree.load_def bt_count_def)
qed

lemma bt_count_insert:
  "bt_inv t \<Longrightarrow> bt_get t k = None \<Longrightarrow> bt_count P (bt_insert k v t) = bt_count P t + (if P v then 1 else 0)"
  by (simp add: bt_count_load bt_inv_insert tree.load_put_fresh)

lemma bt_count_remove:
  "bt_inv t \<Longrightarrow> bt_get t k = Some v \<Longrightarrow> bt_count P t = bt_count P (bt_remove k t) + (if P v then 1 else 0)"
  using tree.load_del [of t k v P] by (simp add: bt_count_load bt_inv_remove)

lemma bt_count_zero: "(\<And>k v. (k, v) \<in> set t \<Longrightarrow> \<not> P v) \<Longrightarrow> bt_count P t = 0"
  by (auto simp: bt_count_def filter_empty_conv)

end
