(* ===== verification/Cp_Proto.thy ===== *)
theory Cp_Proto
  imports Rust_Text Ordered_Table
begin

section \<open>The control plane's wire types\<close>

text \<open>
  \<^verbatim>\<open>openab-cp/src/proto.rs\<close>: the frames of the control plane and its error
  codes. Times are nanoseconds on
  the UTC scale. The JSON rendering of a frame is \<^verbatim>\<open>serde_json\<close>'s and is a parameter of
  the components that send frames.
\<close>

subsection \<open>Frames\<close>

datatype agent_type = PrimaryAgent | WorkerAgent

fun agent_type_str :: "agent_type \<Rightarrow> string" where
  "agent_type_str PrimaryAgent = ''primary''"
| "agent_type_str WorkerAgent = ''worker''"

record error_object =
  eo_code :: int
  eo_message :: string

definition NOT_REGISTERED :: int where "NOT_REGISTERED = - 32001"
definition IDENTITY_MISMATCH :: int where "IDENTITY_MISMATCH = - 32002"
definition POLICY_DENIED :: int where "POLICY_DENIED = - 32003"
definition NO_TARGET :: int where "NO_TARGET = - 32004"
definition SATURATED :: int where "SATURATED = - 32005"
definition TARGET_DISCONNECTED :: int where "TARGET_DISCONNECTED = - 32007"
definition DUPLICATE_DELEGATION :: int where "DUPLICATE_DELEGATION = - 32008"
definition UNSUPPORTED_VERSION :: int where "UNSUPPORTED_VERSION = - 32009"
definition INVALID_PARAMS :: int where "INVALID_PARAMS = - 32602"
definition INVALID_REQUEST :: int where "INVALID_REQUEST = - 32600"
definition METHOD_NOT_FOUND :: int where "METHOD_NOT_FOUND = - 32601"

definition new_error :: "int \<Rightarrow> string \<Rightarrow> error_object" where
  "new_error code message = \<lparr>eo_code = code, eo_message = message\<rparr>"

type_synonym labels = "(string \<times> string) list" \<comment> \<open>in key order\<close>

record target_selector =
  ts_name :: "string option"
  ts_labels :: "labels option"

record delegate_params =
  dp_delegation_id :: string
  dp_target :: target_selector
  dp_prompt :: string
  dp_deadline :: int
  dp_parent_delegation_id :: "string option"
  dp_parent_admission :: "u64 option"

record delegate_forward =
  df_delegation_id :: string
  df_admission :: u64
  df_prompt :: string
  df_deadline :: int
  df_from :: string
  df_chain :: "string list"

record delegate_ack =
  da_delegation_id :: string
  da_admission :: u64
  da_assigned_to :: string

datatype delegation_status =
  CompletedStatus | FailedStatus | TimeoutStatus | CancelledStatus | TargetDisconnectedStatus

record delegate_result =
  dr_delegation_id :: string
  dr_admission :: u64
  dr_status :: delegation_status
  dr_result :: "string option"
  dr_error :: "string option"

record cancel_params =
  cp_delegation_id :: string
  cp_admission :: u64
  cp_reason :: string

text \<open>The requests the control plane sends, each with its request id.\<close>

datatype rpc_frame =
    DelegateFrame u64 delegate_forward
  | ResultFrame u64 delegate_result
  | CancelFrame u64 cancel_params

text \<open>\<^verbatim>\<open>serde_json::to_string\<close> of a request.\<close>

type_synonym wire = "rpc_frame \<Rightarrow> string"

subsection \<open>Identity\<close>

text \<open>\<^verbatim>\<open>format!("{}/{}", namespace, name)\<close>.\<close>

definition logical_id :: "string \<Rightarrow> string \<Rightarrow> string" where
  "logical_id namespace name = namespace @ ''/'' @ name"

subsection \<open>Facts\<close>

text \<open>Identities whose parts have no slash are told apart by their logical id.\<close>

lemma logical_id_inject:
  assumes "CHR ''/'' \<notin> set name" and "CHR ''/'' \<notin> set name'"
  shows "logical_id ns name = logical_id ns' name' \<longleftrightarrow> ns = ns' \<and> name = name'"
proof
  assume "logical_id ns name = logical_id ns' name'"
  then have eq: "ns @ CHR ''/'' # name = ns' @ CHR ''/'' # name'" by (simp add: logical_id_def)
  have split: "takeWhile (\<lambda>z. z \<noteq> CHR ''/'') (rev (u @ CHR ''/'' # v)) = rev v"
    if "CHR ''/'' \<notin> set v" for u v
    using that by (simp add: takeWhile_append)
  have "rev name = rev name'" using split [OF assms(1)] split [OF assms(2)] eq by metis
  then show "ns = ns' \<and> name = name'" using eq by simp
qed simp

end
