(* ===== verification/Cp_Registry.thy ===== *)
theory Cp_Registry
  imports Cp_Proto "HOL-Library.Product_Lexorder"
begin

section \<open>The registry and the outbound queues\<close>

text \<open>
  \<^verbatim>\<open>openab-cp/src/registry.rs\<close>: the queue of one connection, bounded in entries and in
  bytes, and the table of live instances by their handle. A queue is shared by all clones of its
  sender, so an instance holds the name of its connection and the queues are a store of their
  own; so are the shutdown signals.
\<close>

subsection \<open>One connection's queue\<close>

definition OUTBOUND_QUEUE :: nat where "OUTBOUND_QUEUE = 256"

record outbound =
  ob_frames :: "string list"
  ob_reserved :: nat
  ob_max :: nat
  ob_closed :: bool

datatype send_refused = SendClosed | SendFull

definition outbound_channel :: "nat \<Rightarrow> outbound" where
  "outbound_channel max_bytes = \<lparr>ob_frames = [], ob_reserved = 0, ob_max = max_bytes, ob_closed = False\<rparr>"

definition budget_reserve :: "nat \<Rightarrow> outbound \<Rightarrow> bool \<times> outbound" where
  "budget_reserve n q =
     (if ob_reserved q + n \<le> ob_max q then (True, q\<lparr>ob_reserved := ob_reserved q + n\<rparr>) else (False, q))"

definition budget_release :: "nat \<Rightarrow> outbound \<Rightarrow> outbound" where
  "budget_release n q = q\<lparr>ob_reserved := ob_reserved q - n\<rparr>"

text \<open>Bytes first, then the entry; a refused entry gives its bytes back.\<close>

definition try_send :: "string \<Rightarrow> outbound \<Rightarrow> (send_refused + unit) \<times> outbound" where
  "try_send text q =
     (let n = length text
      in case budget_reserve n q of
           (False, q1) \<Rightarrow> (Inl SendFull, q1)
         | (True, q1) \<Rightarrow>
             if ob_closed q1 then (Inl SendClosed, budget_release n q1)
             else if OUTBOUND_QUEUE \<le> length (ob_frames q1) then (Inl SendFull, budget_release n q1)
             else (Inr (), q1\<lparr>ob_frames := ob_frames q1 @ [text]\<rparr>))"

definition try_recv :: "outbound \<Rightarrow> string option \<times> outbound" where
  "try_recv q =
     (case ob_frames q of
        [] \<Rightarrow> (None, q)
      | text # rest \<Rightarrow> (Some text, budget_release (length text) (q\<lparr>ob_frames := rest\<rparr>)))"

text \<open>\<^verbatim>\<open>drop\<close> of the receiving half: close, then drain what is still queued.\<close>

fun drain :: "string list \<Rightarrow> outbound \<Rightarrow> outbound" where
  "drain [] q = q"
| "drain (text # rest) q = drain rest (budget_release (length text) (q\<lparr>ob_frames := rest\<rparr>))"

definition drop_receiver :: "outbound \<Rightarrow> outbound" where
  "drop_receiver q = (let q1 = q\<lparr>ob_closed := True\<rparr> in drain (ob_frames q1) q1)"

definition queue_inv :: "outbound \<Rightarrow> bool" where
  "queue_inv q \<longleftrightarrow> ob_reserved q = sum_list (map length (ob_frames q)) \<and> ob_reserved q \<le> ob_max q
     \<and> length (ob_frames q) \<le> OUTBOUND_QUEUE"

inductive queue_step :: "outbound \<Rightarrow> outbound \<Rightarrow> bool" where
  q_send: "queue_step q (snd (try_send text q))"
| q_recv: "queue_step q (snd (try_recv q))"
| q_drop: "queue_step q (drop_receiver q)"

inductive_cases queue_stepE: "queue_step q q'"

lemma try_send_queue:
  "queue_inv q \<Longrightarrow> queue_inv (snd (try_send text q))
     \<and> (fst (try_send text q) = Inr () \<longrightarrow> ob_frames (snd (try_send text q)) = ob_frames q @ [text])
     \<and> (fst (try_send text q) \<noteq> Inr () \<longrightarrow> snd (try_send text q) = q)"
  by (auto simp: try_send_def budget_reserve_def budget_release_def queue_inv_def Let_def)

lemma try_recv_queue: "queue_inv q \<Longrightarrow> queue_inv (snd (try_recv q))"
  by (auto simp: try_recv_def budget_release_def queue_inv_def split: list.splits)

lemma drain_empties:
  "ob_frames q = fs \<Longrightarrow> ob_reserved q = sum_list (map length fs) \<Longrightarrow>
     drain fs q = q\<lparr>ob_frames := [], ob_reserved := 0\<rparr>"
  by (induction fs arbitrary: q) (auto simp: budget_release_def)

lemma drop_receiver_frees: "queue_inv q \<Longrightarrow> drop_receiver q = q\<lparr>ob_frames := [], ob_reserved := 0, ob_closed := True\<rparr>"
  by (simp add: drop_receiver_def Let_def queue_inv_def drain_empties)

interpretation queue: preserved queue_step queue_inv
proof unfold_locales
  fix q q'
  assume "queue_step q q'" and "queue_inv q"
  then show "queue_inv q'"
    by (cases rule: queue_step.cases)
       (auto simp: try_send_queue try_recv_queue drop_receiver_frees, simp add: queue_inv_def)
qed

subsection \<open>Instances\<close>

record live_instance =
  in_handle :: u64
  in_namespace :: string
  in_name :: string
  in_agent_type :: agent_type
  in_instance_id :: string
  in_labels :: labels
  in_max_sessions :: u32
  in_active_sessions :: u32
  in_registered_at :: int
  in_last_heartbeat :: int
  in_tx :: nat

definition instance_logical_id :: "live_instance \<Rightarrow> string" where
  "instance_logical_id i = logical_id (in_namespace i) (in_name i)"

definition instance_saturated :: "live_instance \<Rightarrow> bool" where
  "instance_saturated i \<longleftrightarrow> in_max_sessions i \<le> in_active_sessions i"

definition matches_labels :: "labels \<Rightarrow> live_instance \<Rightarrow> bool" where
  "matches_labels want i \<longleftrightarrow> list_all (\<lambda>(k, v). bt_get (in_labels i) k = Some v) want"

subsection \<open>The registry\<close>

record reg_entry =
  en_inst :: "live_instance"
  en_shutdown :: nat

record registry =
  rg_inner :: "(u64 \<times> reg_entry) list"
  rg_next_handle :: u64

definition new_registry :: registry where
  "new_registry = \<lparr>rg_inner = [], rg_next_handle = 0\<rparr>"

definition register_conn :: "live_instance \<Rightarrow> nat \<Rightarrow> registry \<Rightarrow> u64 \<times> registry" where
  "register_conn i shutdown r =
     (let handle = rg_next_handle r + 1
      in (handle, r\<lparr>rg_next_handle := rg_next_handle r + 1,
                    rg_inner := bt_insert handle \<lparr>en_inst = i\<lparr>in_handle := handle\<rparr>, en_shutdown = shutdown\<rparr>
                                  (rg_inner r)\<rparr>))"

text \<open>The reasons the connection tasks will see, by the name of their signal.\<close>

type_synonym signals = "nat \<Rightarrow> string option"

definition signal_shutdown :: "u64 \<Rightarrow> string \<Rightarrow> registry \<Rightarrow> signals \<Rightarrow> bool \<times> signals" where
  "signal_shutdown handle reason r sig =
     (case bt_get (rg_inner r) handle of
        Some e \<Rightarrow> (True, sig(en_shutdown e \<mapsto> reason))
      | None \<Rightarrow> (False, sig))"

definition reg_get :: "registry \<Rightarrow> u64 \<Rightarrow> live_instance option" where
  "reg_get r handle = map_option en_inst (bt_get (rg_inner r) handle)"

definition deregister :: "u64 \<Rightarrow> registry \<Rightarrow> live_instance option \<times> registry" where
  "deregister handle r = (reg_get r handle, r\<lparr>rg_inner := bt_remove handle (rg_inner r)\<rparr>)"

text \<open>Write through \<^verbatim>\<open>get_mut\<close>.\<close>

definition update_instance :: "u64 \<Rightarrow> (live_instance \<Rightarrow> live_instance) \<Rightarrow> registry \<Rightarrow> registry" where
  "update_instance handle f r =
     (case bt_get (rg_inner r) handle of
        Some e \<Rightarrow> r\<lparr>rg_inner := bt_insert handle (e\<lparr>en_inst := f (en_inst e)\<rparr>) (rg_inner r)\<rparr>
      | None \<Rightarrow> r)"

definition heartbeat :: "u64 \<Rightarrow> int \<Rightarrow> registry \<Rightarrow> bool \<times> registry" where
  "heartbeat handle now r =
     (reg_get r handle \<noteq> None, update_instance handle (\<lambda>i. i\<lparr>in_last_heartbeat := now\<rparr>) r)"

definition expired :: "int \<Rightarrow> int \<Rightarrow> registry \<Rightarrow> u64 list" where
  "expired lease now r =
     map (\<lambda>e. in_handle (en_inst (snd e)))
       (filter (\<lambda>e. lease < max 0 (now - in_last_heartbeat (en_inst (snd e)))) (rg_inner r))"

datatype select_error = NoTarget | AllSaturated

text \<open>
  The comparison chains of the two selection modes as sort keys; the sort is stable, so among
  equals the lowest handle comes first.
\<close>

definition select_key :: "bool \<Rightarrow> live_instance \<Rightarrow> int \<times> int" where
  "select_key by_name i =
     (if by_name then (- in_registered_at i, uint (in_active_sessions i))
      else (uint (in_active_sessions i), - in_registered_at i))"

definition select_matches :: "string \<Rightarrow> string option \<Rightarrow> labels option \<Rightarrow> registry \<Rightarrow> live_instance list" where
  "select_matches namespace name wanted r =
     filter (\<lambda>i. case wanted of Some want \<Rightarrow> matches_labels want i | None \<Rightarrow> True)
       (filter (\<lambda>i. case name of Some n \<Rightarrow> in_name i = n | None \<Rightarrow> True)
         (filter (\<lambda>i. in_namespace i = namespace) (map (\<lambda>e. en_inst (snd e)) (rg_inner r))))"

definition select ::
  "string \<Rightarrow> string option \<Rightarrow> labels option \<Rightarrow> registry \<Rightarrow> select_error + live_instance" where
  "select namespace name wanted r =
     (let matches = select_matches namespace name wanted r
      in if matches = [] then Inl NoTarget
         else let free = filter (\<lambda>i. \<not> instance_saturated i) matches
              in if free = [] then Inl AllSaturated
                 else Inr (hd (sort_key (select_key (name \<noteq> None)) free)))"

text \<open>\<^verbatim>\<open>u32::saturating_add_signed\<close>.\<close>

definition saturating_add_signed :: "u32 \<Rightarrow> int \<Rightarrow> u32" where
  "saturating_add_signed x d =
     (let s = uint x + d in if s < 0 then 0 else if 2 ^ 32 \<le> s then - 1 else of_int s)"

definition adjust_sessions :: "u64 \<Rightarrow> int \<Rightarrow> registry \<Rightarrow> registry" where
  "adjust_sessions handle delta r =
     update_instance handle
       (\<lambda>i. i\<lparr>in_active_sessions := saturating_add_signed (in_active_sessions i) delta\<rparr>) r"

definition reg_list :: "string \<Rightarrow> registry \<Rightarrow> live_instance list" where
  "reg_list namespace r =
     filter (\<lambda>i. in_namespace i = namespace) (map (\<lambda>e. en_inst (snd e)) (rg_inner r))"

end
