(* ===== verification/Cp_Config.thy ===== *)
theory Cp_Config
  imports Cp_Proto
begin

section \<open>The control plane's configuration\<close>

text \<open>
  \<^verbatim>\<open>openab-cp/src/config.rs\<close>: the identities bound to the auth keys, the policy of a
  namespace, the bounds, how a configuration text becomes a checked configuration. TOML parsing
  is a parameter; the address grammar of \<^verbatim>\<open>std::net\<close> is written out, since it decides
  which binds are loopback.
\<close>

subsection \<open>Data\<close>

record bound_identity =
  bi_key :: string
  bi_namespace :: string
  bi_name :: string
  bi_agent_type :: agent_type
  bi_max_sessions_cap :: "u32 option"

record namespace_policy =
  np_max_depth :: u32
  np_allow_worker_initiation :: bool

definition default_policy :: namespace_policy where
  "default_policy = \<lparr>np_max_depth = 1, np_allow_worker_initiation = False\<rparr>"

record cp_config =
  cc_listen :: string
  cc_allow_insecure_bind :: bool
  cc_heartbeat_interval_secs :: u64
  cc_lease_expiry_secs :: u64
  cc_max_deadline_secs :: u64
  cc_max_result_bytes :: nat
  cc_max_frame_bytes :: nat
  cc_max_prompt_bytes :: nat
  cc_register_timeout_secs :: u64
  cc_max_connections_per_identity :: u32
  cc_write_timeout_secs :: u64
  cc_max_outbound_queue_bytes :: nat
  cc_max_inflight_delegations :: nat
  cc_default_max_delegated_sessions_cap :: u32
  cc_agents :: "bound_identity list"
  cc_namespaces :: "(string \<times> namespace_policy) list"

text \<open>The value of every field that the text leaves out.\<close>

definition default_config :: cp_config where
  "default_config =
     \<lparr>cc_listen = ''127.0.0.1:9800'', cc_allow_insecure_bind = False,
      cc_heartbeat_interval_secs = 15, cc_lease_expiry_secs = 45, cc_max_deadline_secs = 30 * 60,
      cc_max_result_bytes = 256 * 1024, cc_max_frame_bytes = 1024 * 1024,
      cc_max_prompt_bytes = 256 * 1024, cc_register_timeout_secs = 10,
      cc_max_connections_per_identity = 8, cc_write_timeout_secs = 30,
      cc_max_outbound_queue_bytes = 16 * 1024 * 1024, cc_max_inflight_delegations = 4096,
      cc_default_max_delegated_sessions_cap = 16, cc_agents = [], cc_namespaces = []\<rparr>"

subsection \<open>Addresses\<close>

text \<open>
  A reader takes text and gives a value and the text after it. \<open>read_number\<close> takes every digit
  there is and then counts them, so a number with too many is no number.
\<close>

definition hex_value :: "char \<Rightarrow> nat option" where
  "hex_value c =
     (let n = (of_char c :: nat)
      in if 48 \<le> n \<and> n \<le> 57 then Some (n - 48)
         else if 97 \<le> n \<and> n \<le> 102 then Some (n - 87)
         else if 65 \<le> n \<and> n \<le> 70 then Some (n - 55) else None)"

fun take_digits :: "(char \<Rightarrow> nat option) \<Rightarrow> string \<Rightarrow> nat list \<times> string" where
  "take_digits val [] = ([], [])"
| "take_digits val (c # cs) =
     (case val c of None \<Rightarrow> ([], c # cs)
                  | Some d \<Rightarrow> (case take_digits val cs of (ds, r) \<Rightarrow> (d # ds, r)))"

definition read_number ::
  "nat \<Rightarrow> (char \<Rightarrow> nat option) \<Rightarrow> nat \<Rightarrow> nat \<Rightarrow> bool \<Rightarrow> string \<Rightarrow> (nat \<times> string) option" where
  "read_number radix val max_digits max_value allow_zero_prefix s =
     (case take_digits val s of
        (ds, r) \<Rightarrow>
          (let v = foldl (\<lambda>a d. a * radix + d) 0 ds
           in if ds = [] \<or> max_digits < length ds \<or> max_value < v then None
              else if \<not> allow_zero_prefix \<and> hd ds = 0 \<and> 1 < length ds then None
              else Some (v, r)))"

definition read_separator ::
  "char \<Rightarrow> bool \<Rightarrow> (string \<Rightarrow> ('a \<times> string) option) \<Rightarrow> string \<Rightarrow> ('a \<times> string) option" where
  "read_separator sep first inner s =
     (if first then inner s
      else case s of [] \<Rightarrow> None | c # cs \<Rightarrow> if c = sep then inner cs else None)"

fun read_octets :: "nat \<Rightarrow> bool \<Rightarrow> string \<Rightarrow> (nat list \<times> string) option" where
  "read_octets 0 first s = Some ([], s)"
| "read_octets (Suc n) first s =
     (case read_separator (CHR ''.'') first (read_number 10 digit_value 3 255 False) s of
        None \<Rightarrow> None
      | Some (b, r) \<Rightarrow> map_option (\<lambda>(bs, r'). (b # bs, r')) (read_octets n False r))"

definition read_ipv4 :: "string \<Rightarrow> (nat list \<times> string) option" where
  "read_ipv4 s = read_octets 4 True s"

text \<open>Up to a number of groups; whether they ended in an embedded IPv4 address.\<close>

fun read_groups :: "nat \<Rightarrow> bool \<Rightarrow> string \<Rightarrow> nat list \<times> bool \<times> string" where
  "read_groups 0 first s = ([], False, s)"
| "read_groups (Suc n) first s =
     (case (if n = 0 then None else read_separator (CHR '':'') first read_ipv4 s) of
        Some (b, r) \<Rightarrow> ([b ! 0 * 256 + b ! 1, b ! 2 * 256 + b ! 3], True, r)
      | None \<Rightarrow>
          (case read_separator (CHR '':'') first (read_number 16 hex_value 4 65535 True) s of
             None \<Rightarrow> ([], False, s)
           | Some (g, r) \<Rightarrow> (case read_groups n False r of (gs, v4, r') \<Rightarrow> (g # gs, v4, r'))))"

definition read_ipv6 :: "string \<Rightarrow> (nat list \<times> string) option" where
  "read_ipv6 s =
     (case read_groups 8 True s of
        (hs, v4, r) \<Rightarrow>
          if length hs = 8 then Some (hs, r)
          else if v4 then None
          else case strip_prefix ''::'' r of
                 None \<Rightarrow> None
               | Some r1 \<Rightarrow>
                   (case read_groups (8 - (length hs + 1)) True r1 of
                      (ts, _, r2) \<Rightarrow> Some (hs @ replicate (8 - length hs - length ts) 0 @ ts, r2)))"

text \<open>\<^verbatim>\<open>host.parse::<IpAddr>().map(|ip| ip.is_loopback()).unwrap_or(false)\<close>.\<close>

definition ip_is_loopback :: "string \<Rightarrow> bool" where
  "ip_is_loopback host =
     (case read_ipv4 host of
        Some (b, r) \<Rightarrow> r = [] \<and> b ! 0 = 127
      | None \<Rightarrow> (case read_ipv6 host of
                  Some (g, r) \<Rightarrow> r = [] \<and> g = [0, 0, 0, 0, 0, 0, 0, 1]
                | None \<Rightarrow> False))"

text \<open>\<^verbatim>\<open>rsplit_once(':')\<close>, without the text after the colon.\<close>

definition before_last_colon :: "string \<Rightarrow> string option" where
  "before_last_colon s =
     (case dropWhile (\<lambda>c. c \<noteq> CHR '':'') (rev s) of [] \<Rightarrow> None | _ # h \<Rightarrow> Some (rev h))"

definition is_loopback :: "string \<Rightarrow> bool" where
  "is_loopback listen =
     (let host = (case before_last_colon listen of
                    Some h \<Rightarrow> rev (dropWhile (\<lambda>c. c = CHR '']'') (rev (dropWhile (\<lambda>c. c = CHR ''['') h)))
                  | None \<Rightarrow> listen)
      in host = ''localhost'' \<or> ip_is_loopback host)"

subsection \<open>Checking\<close>

fun check_agents ::
  "string list \<Rightarrow> (string \<times> string) list \<Rightarrow> bound_identity list \<Rightarrow> string + unit" where
  "check_agents seen_keys seen_names [] = Inr ()"
| "check_agents seen_keys seen_names (a # rest) =
     (if trim (bi_key a) = []
      then Inl (''agent '' @ bi_namespace a @ ''/'' @ bi_name a @ '' has an empty key'')
      else if bi_key a \<in> set seen_keys
      then Inl (''duplicate auth key (shared keys defeat per-agent revocation); offending identity: ''
                @ bi_namespace a @ ''/'' @ bi_name a)
      else if (bi_namespace a, bi_name a) \<in> set seen_names
      then Inl (''duplicate identity '' @ bi_namespace a @ ''/'' @ bi_name a
                @ [CHR 0x20, CHR 0xE2, CHR 0x80, CHR 0x94] @ '' replicas share one identity (one key), distinguished at registration by instance_id'')
      else check_agents (bi_key a # seen_keys) ((bi_namespace a, bi_name a) # seen_names) rest)"

definition config_validate :: "cp_config \<Rightarrow> string + unit" where
  "config_validate cfg =
     (case check_agents [] [] (cc_agents cfg) of
        Inl e \<Rightarrow> Inl e
      | Inr _ \<Rightarrow>
          if cc_lease_expiry_secs cfg \<le> cc_heartbeat_interval_secs cfg
          then Inl ''lease_expiry_secs must exceed heartbeat_interval_secs''
          else if cc_register_timeout_secs cfg = 0
          then Inl ''register_timeout_secs must be greater than 0''
          else if cc_max_connections_per_identity cfg = 0
          then Inl ''max_connections_per_identity must be at least 1''
          else if cc_write_timeout_secs cfg = 0
          then Inl ''write_timeout_secs must be greater than 0''
          else if cc_max_outbound_queue_bytes cfg \<le> cc_max_frame_bytes cfg
          then Inl (''max_outbound_queue_bytes ('' @ dec (cc_max_outbound_queue_bytes cfg)
                    @ '') must exceed max_frame_bytes ('' @ dec (cc_max_frame_bytes cfg)
                    @ '') '' @ [CHR 0xE2, CHR 0x80, CHR 0x94]
                    @ '' a queue that cannot hold one maximum-size frame refuses every peer'')
          else if cc_max_inflight_delegations cfg = 0
          then Inl ''max_inflight_delegations must be at least 1''
          else if cc_default_max_delegated_sessions_cap cfg = 0
          then Inl ''default_max_delegated_sessions_cap must be at least 1''
          else if \<not> cc_allow_insecure_bind cfg \<and> \<not> is_loopback (cc_listen cfg)
          then Inl (''listen = \"'' @ cc_listen cfg @ ''\" is not loopback and the CP terminates no TLS. ''
                    @ ''Put a TLS proxy (wss://) or a private network in front and set ''
                    @ ''allow_insecure_bind = true to acknowledge this'')
          else Inr ())"

text \<open>\<^verbatim>\<open>${VAR}\<close> becomes the variable's value, or nothing; an open brace stays as it is.\<close>

function expand_env :: "(string \<Rightarrow> string option) \<Rightarrow> string \<Rightarrow> string" where
  "expand_env env rest =
     (case split_at ''${'' rest of
        None \<Rightarrow> rest
      | Some (before, after) \<Rightarrow>
          (case split_once (CHR ''}'') after of
             None \<Rightarrow> before @ ''${'' @ after
           | Some (var, rest') \<Rightarrow>
               before @ (case env var of Some v \<Rightarrow> v | None \<Rightarrow> []) @ expand_env env rest'))"
  by pat_completeness auto
termination
  by (relation "measure (\<lambda>(env, s). length s)")
     (auto simp: split_once_def dest!: split_at_length)

declare expand_env.simps [simp del]

definition load_config ::
  "(string \<Rightarrow> string + cp_config) \<Rightarrow> (string \<Rightarrow> string option) \<Rightarrow> string + string \<Rightarrow> string + cp_config" where
  "load_config from_toml env file =
     (case file of
        Inl e \<Rightarrow> Inl e
      | Inr raw \<Rightarrow>
          (case from_toml (expand_env env raw) of
             Inl e \<Rightarrow> Inl e
           | Inr cfg \<Rightarrow> (case config_validate cfg of Inl e \<Rightarrow> Inl e | Inr _ \<Rightarrow> Inr cfg)))"

subsection \<open>Looking up\<close>

text \<open>The last entry whose key is the presented one; every entry is compared.\<close>

definition identity_for_key :: "cp_config \<Rightarrow> string \<Rightarrow> bound_identity option" where
  "identity_for_key cfg key =
     fold (\<lambda>a found. if bi_key a = key then Some a else found) (cc_agents cfg) None"

definition policy_for :: "cp_config \<Rightarrow> string \<Rightarrow> namespace_policy" where
  "policy_for cfg namespace =
     (case bt_get (cc_namespaces cfg) namespace of Some p \<Rightarrow> p | None \<Rightarrow> default_policy)"

definition effective_max_sessions :: "cp_config \<Rightarrow> bound_identity \<Rightarrow> u32 \<Rightarrow> u32" where
  "effective_max_sessions cfg identity advertised =
     min advertised (case bi_max_sessions_cap identity of
                       Some cap \<Rightarrow> cap | None \<Rightarrow> cc_default_max_delegated_sessions_cap cfg)"

subsection \<open>Facts\<close>

lemma identity_for_key_Some:
  assumes "distinct (map bi_key (cc_agents cfg))"
  shows "identity_for_key cfg key = Some a \<longleftrightarrow> a \<in> set (cc_agents cfg) \<and> bi_key a = key"
proof -
  have "fold (\<lambda>a found. if bi_key a = key then Some a else found) xs acc = Some a \<longleftrightarrow>
      (a \<in> set xs \<and> bi_key a = key) \<or> ((\<forall>b\<in>set xs. bi_key b \<noteq> key) \<and> acc = Some a)"
    if "distinct (map bi_key xs)" for xs acc
    using that
  proof (induction xs arbitrary: acc)
    case (Cons x xs)
    then show ?case by (cases "bi_key x = key") (auto simp: image_iff)
  qed simp
  from this [OF assms, of None] show ?thesis by (simp add: identity_for_key_def)
qed

lemma check_agents_iff:
  "check_agents ks ns as = Inr () \<longleftrightarrow>
     distinct (map bi_key as) \<and> set (map bi_key as) \<inter> set ks = {}
     \<and> distinct (map (\<lambda>a. (bi_namespace a, bi_name a)) as)
     \<and> set (map (\<lambda>a. (bi_namespace a, bi_name a)) as) \<inter> set ns = {}
     \<and> (\<forall>a\<in>set as. trim (bi_key a) \<noteq> [])"
  by (induction ks ns as rule: check_agents.induct) auto

lemma config_validate_iff:
  "config_validate cfg = Inr () \<longleftrightarrow>
     check_agents [] [] (cc_agents cfg) = Inr ()
     \<and> cc_heartbeat_interval_secs cfg < cc_lease_expiry_secs cfg
     \<and> cc_register_timeout_secs cfg \<noteq> 0 \<and> cc_max_connections_per_identity cfg \<noteq> 0
     \<and> cc_write_timeout_secs cfg \<noteq> 0 \<and> cc_max_frame_bytes cfg < cc_max_outbound_queue_bytes cfg
     \<and> cc_max_inflight_delegations cfg \<noteq> 0 \<and> cc_default_max_delegated_sessions_cap cfg \<noteq> 0
     \<and> (cc_allow_insecure_bind cfg \<or> is_loopback (cc_listen cfg))"
  by (auto simp: config_validate_def not_le split: sum.splits)

text \<open>One variable at a time.\<close>

lemma split_at_var: "split_at ''${'' a = None \<Longrightarrow> split_at ''${'' (a @ ''${'' @ c) = Some (a, c)"
proof (induction a)
  case (Cons x xs)
  then have "split_at ''${'' xs = None" and n: "strip_prefix ''${'' (x # xs) = None"
    by (auto split: option.splits)
  moreover have "strip_prefix ''${'' (x # xs @ ''${'' @ c) = None"
    using n by (cases xs) (auto split: if_splits)
  ultimately show ?case using Cons.IH by simp
qed simp

lemma expand_env_var:
  assumes "split_at ''${'' a = None" and "CHR ''}'' \<notin> set var"
  shows "expand_env env (a @ ''${'' @ var @ ''}'' @ b)
    = a @ (case env var of Some v \<Rightarrow> v | None \<Rightarrow> []) @ expand_env env b"
  using split_at_var [OF assms(1), of "var @ ''}'' @ b"] split_once_append [OF assms(2), of b]
  by (subst expand_env.simps) simp

lemma expand_env_plain: "split_at ''${'' a = None \<Longrightarrow> expand_env env a = a"
  by (subst expand_env.simps) simp

subsection \<open>Printed addresses\<close>

lemma take_digits_run:
  "list_all (\<lambda>c. val c \<noteq> None) xs \<Longrightarrow> r = [] \<or> val (hd r) = None \<Longrightarrow>
     take_digits val (xs @ r) = (map (\<lambda>c. the (val c)) xs, r)"
proof (induction xs)
  case Nil
  then show ?case by (cases r) auto
qed auto

lemma digits_value_run:
  "digits_value acc xs = Some v \<Longrightarrow>
     list_all (\<lambda>c. digit_value c \<noteq> None) xs
     \<and> foldl (\<lambda>a d. a * 10 + d) acc (map (\<lambda>c. the (digit_value c)) xs) = v"
  by (induction acc xs rule: digits_value.induct) (auto split: option.splits simp: mult.commute)

lemma dec_short: "n < 1000 \<Longrightarrow> length (dec n) \<le> 3 \<and> (1 < length (dec n) \<longrightarrow> digit_value (hd (dec n)) \<noteq> Some 0)"
proof -
  assume n: "n < 1000"
  consider (one) "n < 10" | (two) "10 \<le> n" "n < 100" | (three) "100 \<le> n" by linarith
  then show ?thesis
  proof cases
    case one
    then show ?thesis by (simp add: dec.simps [of n])
  next
    case two
    then have "dec n = [digit (n div 10), digit (n mod 10)]"
      by (simp add: dec.simps [of n] dec.simps [of "n div 10"])
    moreover have "n div 10 < 10" "n div 10 \<noteq> 0" using two by auto
    ultimately show ?thesis by simp
  next
    case three
    then have "\<not> n < 10" "\<not> n div 10 < 10" "n div 10 div 10 < 10" using n by linarith+
    then have "dec n = [digit (n div 10 div 10), digit (n div 10 mod 10), digit (n mod 10)]"
      by (simp only: dec.simps [of n] dec.simps [of "n div 10"] dec.simps [of "n div 10 div 10"]
            if_True if_False append.simps)
    moreover have "n div 10 div 10 < 10" "n div 10 div 10 \<noteq> 0" using n three by linarith+
    ultimately show ?thesis by simp
  qed
qed

lemma read_octet:
  assumes "n \<le> 255" and "r = [] \<or> digit_value (hd r) = None"
  shows "read_number 10 digit_value 3 255 False (dec n @ r) = Some (n, r)"
proof -
  have run: "list_all (\<lambda>c. digit_value c \<noteq> None) (dec n)"
      "foldl (\<lambda>a d. a * 10 + d) 0 (map (\<lambda>c. the (digit_value c)) (dec n)) = n"
    using digits_value_run [OF digits_value_dec] by blast+
  have short: "length (dec n) \<le> 3" "1 < length (dec n) \<Longrightarrow> digit_value (hd (dec n)) \<noteq> Some 0"
    using dec_short [of n] assms(1) by auto
  have "hd (map (\<lambda>c. the (digit_value c)) (dec n)) = the (digit_value (hd (dec n)))"
    by (simp add: hd_map)
  moreover have "digit_value (hd (dec n)) \<noteq> None"
    using run(1) by (cases "dec n") auto
  ultimately have "\<not> (hd (map (\<lambda>c. the (digit_value c)) (dec n)) = 0 \<and> 1 < length (dec n))"
    using short(2) by force
  then show ?thesis
    using take_digits_run [OF run(1) assms(2)] run(2) short(1) assms(1)
    by (simp add: read_number_def Let_def)
qed

definition ipv4_str :: "nat \<Rightarrow> nat \<Rightarrow> nat \<Rightarrow> nat \<Rightarrow> string" where
  "ipv4_str a b c d = dec a @ ''.'' @ dec b @ ''.'' @ dec c @ ''.'' @ dec d"

lemma digit_value_dot [simp]: "digit_value (CHR ''.'') = None"
  by (simp add: digit_value_def)

lemma read_ipv4_str:
  assumes "a \<le> 255" "b \<le> 255" "c \<le> 255" "d \<le> 255"
  shows "read_ipv4 (ipv4_str a b c d) = Some ([a, b, c, d], [])"
  using read_octet [OF assms(1), of "CHR ''.'' # dec b @ ''.'' @ dec c @ ''.'' @ dec d"]
    read_octet [OF assms(2), of "CHR ''.'' # dec c @ ''.'' @ dec d"]
    read_octet [OF assms(3), of "CHR ''.'' # dec d"] read_octet [OF assms(4), of "[]"]
  by (simp add: read_ipv4_def ipv4_str_def eval_nat_numeral read_separator_def)

lemma ipv4_str_chars: "set (ipv4_str a b c d) \<subseteq> set ''0123456789.''"
proof -
  have "set ''0123456789'' \<subseteq> set ''0123456789.''" by simp
  then have "set (dec n) \<subseteq> set ''0123456789.''" for n using dec_digits [of n] by (rule subset_trans [rotated])
  moreover have "set ''.'' \<subseteq> set ''0123456789.''" by simp
  ultimately show ?thesis unfolding ipv4_str_def set_append Un_subset_iff by blast
qed

lemma before_last_colon_append:
  assumes "CHR '':'' \<notin> set port"
  shows "before_last_colon (h @ CHR '':'' # port) = Some h"
proof -
  have "dropWhile (\<lambda>c. c \<noteq> CHR '':'') (rev port @ CHR '':'' # rev h) = CHR '':'' # rev h"
    using assms by (induction port rule: rev_induct) auto
  then show ?thesis by (simp add: before_last_colon_def)
qed

lemma dropWhile_none: "(\<forall>c\<in>set xs. \<not> P c) \<Longrightarrow> dropWhile P xs = xs"
  by (cases xs) auto

lemma is_loopback_ipv4:
  assumes "a \<le> 255" "b \<le> 255" "c \<le> 255" "d \<le> 255" and "CHR '':'' \<notin> set port"
  shows "is_loopback (ipv4_str a b c d @ CHR '':'' # port) \<longleftrightarrow> a = 127"
proof -
  let ?s = "ipv4_str a b c d"
  have "\<forall>x\<in>set ''0123456789.''. x \<noteq> CHR ''['' \<and> x \<noteq> CHR '']'' \<and> x \<noteq> CHR ''l''" by simp
  then have ch: "\<forall>x\<in>set ?s. x \<noteq> CHR ''['' \<and> x \<noteq> CHR '']'' \<and> x \<noteq> CHR ''l''"
    using ipv4_str_chars [of a b c d] by blast
  have "dropWhile (\<lambda>x. x = CHR ''['') ?s = ?s" and "dropWhile (\<lambda>x. x = CHR '']'') (rev ?s) = rev ?s"
    by (rule dropWhile_none, use ch in blast, rule dropWhile_none, use ch set_rev in fastforce)
  then have host: "rev (dropWhile (\<lambda>x. x = CHR '']'') (rev (dropWhile (\<lambda>x. x = CHR ''['') ?s))) = ?s"
    by (simp only: rev_rev_ident)
  have "CHR ''l'' \<notin> set ?s" using ch by blast
  then have "?s \<noteq> ''localhost''" by (metis list.set_intros(1))
  then show ?thesis
    unfolding is_loopback_def before_last_colon_append [OF assms(5)] option.case host Let_def
      ip_is_loopback_def read_ipv4_str [OF assms(1-4)] by simp
qed

end
