(* ===== verification/Cp_Policy.thy ===== *)
theory Cp_Policy
  imports Cp_Config
begin

section \<open>Delegation policy\<close>

text \<open>
  \<^verbatim>\<open>openab-cp/src/policy.rs\<close>: the checks on one delegation, all on data the control
  plane owns.
\<close>

record policy_input =
  pi_from_namespace :: string
  pi_from_name :: string
  pi_from_type :: agent_type
  pi_target_namespace :: string
  pi_target_name :: string
  pi_parent_chain :: "string list"
  pi_deadline :: int
  pi_parent_deadline :: "int option"
  pi_now :: int
  pi_max_deadline_secs :: u64

datatype policy_denial =
    WorkerInitiation
  | DepthExceeded u32 u32
  | Cycle string
  | CrossNamespace
  | DeadlinePast
  | DeadlineTooLong u64
  | DeadlineExceedsParent

fun denial_str :: "policy_denial \<Rightarrow> string" where
  "denial_str WorkerInitiation = ''workers may not initiate delegations in this namespace''"
| "denial_str (DepthExceeded m d) =
     ''delegation depth '' @ word_str d @ '' exceeds namespace max_depth '' @ word_str m"
| "denial_str (Cycle t) = ''cycle: '' @ t @ '' is already in the delegation chain''"
| "denial_str CrossNamespace = ''cross-namespace delegation is not granted''"
| "denial_str DeadlinePast = ''deadline is in the past''"
| "denial_str (DeadlineTooLong m) = ''deadline exceeds the CP cap of '' @ word_str m @ ''s''"
| "denial_str DeadlineExceedsParent = ''child deadline exceeds the parent's remaining budget''"

text \<open>
  \<^verbatim>\<open>num_seconds\<close> of the time left, which is positive where it is taken; the cap is cast
  to a signed integer, so a cap of \<open>2 ^ 63\<close> or more is negative there.
\<close>

definition policy_check :: "policy_input \<Rightarrow> namespace_policy \<Rightarrow> policy_denial + unit" where
  "policy_check i p =
     (if pi_from_type i = WorkerAgent \<and> \<not> np_allow_worker_initiation p then Inl WorkerInitiation
      else if pi_from_namespace i \<noteq> pi_target_namespace i then Inl CrossNamespace
      else let would_be = (of_nat (length (pi_parent_chain i)) :: u32) + 1
           in if np_max_depth p < would_be then Inl (DepthExceeded (np_max_depth p) would_be)
              else let target_id = logical_id (pi_target_namespace i) (pi_target_name i);
                       from_id = logical_id (pi_from_namespace i) (pi_from_name i)
                   in if target_id = from_id \<or> target_id \<in> set (pi_parent_chain i)
                      then Inl (Cycle target_id)
                      else if pi_deadline i \<le> pi_now i then Inl DeadlinePast
                      else let remaining = (pi_deadline i - pi_now i) div 1000000000
                           in if sint (pi_max_deadline_secs i) < remaining
                              then Inl (DeadlineTooLong (pi_max_deadline_secs i))
                              else case pi_parent_deadline i of
                                     Some parent \<Rightarrow>
                                       if parent < pi_deadline i then Inl DeadlineExceedsParent else Inr ()
                                   | None \<Rightarrow> Inr ())"

text \<open>What a delegation that passes has.\<close>

definition policy_allows :: "policy_input \<Rightarrow> namespace_policy \<Rightarrow> bool" where
  "policy_allows i p \<longleftrightarrow>
     (pi_from_type i = WorkerAgent \<longrightarrow> np_allow_worker_initiation p)
     \<and> pi_from_namespace i = pi_target_namespace i
     \<and> (of_nat (length (pi_parent_chain i)) :: u32) + 1 \<le> np_max_depth p
     \<and> logical_id (pi_target_namespace i) (pi_target_name i)
         \<notin> set (pi_parent_chain i @ [logical_id (pi_from_namespace i) (pi_from_name i)])
     \<and> pi_now i < pi_deadline i
     \<and> (pi_deadline i - pi_now i) div 1000000000 \<le> sint (pi_max_deadline_secs i)
     \<and> (\<forall>parent. pi_parent_deadline i = Some parent \<longrightarrow> pi_deadline i \<le> parent)"

lemma policy_check_iff: "policy_check i p = Inr () \<longleftrightarrow> policy_allows i p"
  by (auto simp: policy_check_def policy_allows_def Let_def not_less split: option.splits if_splits)

end
