(* ===== verification/Cp_Router.thy ===== *)
theory Cp_Router
  imports Cp_Registry Cp_Policy
begin

section \<open>The delegation router\<close>

text \<open>
  \<^verbatim>\<open>openab-cp/src/router.rs\<close>: the in-flight table keyed by namespace and delegation id,
  the admission counters, and the operations on them. Each definition is one critical section of
  the source or a sequence of them: the two phases of a completion are separate definitions,
  since other operations can run between them. \<open>wire\<close> is the JSON text of a frame.
\<close>

subsection \<open>State\<close>

record in_flight =
  if_namespace :: string
  if_delegation_id :: string
  if_from_logical :: string
  if_from_handle :: u64
  if_to_logical :: string
  if_to_handle :: u64
  if_deadline :: int
  if_chain :: "string list"
  if_generation :: u64

datatype delegation_key = DelegationKey (dk_namespace: string) (dk_delegation_id: string)

text \<open>The derived order: the namespace first, then the id.\<close>

instantiation delegation_key :: linorder
begin

definition less_eq_delegation_key :: "delegation_key \<Rightarrow> delegation_key \<Rightarrow> bool" where
  "less_eq_delegation_key a b \<longleftrightarrow>
     dk_namespace a < dk_namespace b
     \<or> dk_namespace a = dk_namespace b \<and> dk_delegation_id a \<le> dk_delegation_id b"

definition less_delegation_key :: "delegation_key \<Rightarrow> delegation_key \<Rightarrow> bool" where
  "less_delegation_key a b \<longleftrightarrow>
     dk_namespace a < dk_namespace b
     \<or> dk_namespace a = dk_namespace b \<and> dk_delegation_id a < dk_delegation_id b"

instance
proof
  fix x y z :: delegation_key
  show "x < y \<longleftrightarrow> x \<le> y \<and> \<not> y \<le> x"
    by (auto simp: less_eq_delegation_key_def less_delegation_key_def)
  show "x \<le> x" by (simp add: less_eq_delegation_key_def)
  show "x \<le> y \<Longrightarrow> y \<le> z \<Longrightarrow> x \<le> z"
    by (auto simp: less_eq_delegation_key_def)
  show "x \<le> y \<Longrightarrow> y \<le> x \<Longrightarrow> x = y"
    by (cases x; cases y) (auto simp: less_eq_delegation_key_def)
  show "x \<le> y \<or> y \<le> x" by (auto simp: less_eq_delegation_key_def)
qed

end

type_synonym inflight_table = "(delegation_key \<times> in_flight) list"

record router =
  ro_inflight :: inflight_table
  ro_admission :: "(string \<times> u64) list"

definition new_router :: router where
  "new_router = \<lparr>ro_inflight = [], ro_admission = []\<rparr>"

text \<open>What the operations share: the registry, the router, the queues by connection.\<close>

record cp_state =
  cs_registry :: registry
  cs_router :: router
  cs_queues :: "nat \<Rightarrow> outbound"

definition inflight_of :: "cp_state \<Rightarrow> inflight_table" where
  "inflight_of s = ro_inflight (cs_router s)"

definition set_inflight :: "inflight_table \<Rightarrow> cp_state \<Rightarrow> cp_state" where
  "set_inflight t s = s\<lparr>cs_router := (cs_router s)\<lparr>ro_inflight := t\<rparr>\<rparr>"

definition adjust :: "u64 \<Rightarrow> int \<Rightarrow> cp_state \<Rightarrow> cp_state" where
  "adjust handle delta s = s\<lparr>cs_registry := adjust_sessions handle delta (cs_registry s)\<rparr>"

text \<open>\<^verbatim>\<open>inst.tx.try_send(text)\<close>.\<close>

definition send_to :: "live_instance \<Rightarrow> string \<Rightarrow> cp_state \<Rightarrow> bool \<times> cp_state" where
  "send_to i text s =
     (case try_send text (cs_queues s (in_tx i)) of
        (Inr _, q) \<Rightarrow> (True, s\<lparr>cs_queues := (cs_queues s)(in_tx i := q)\<rparr>)
      | (Inl _, q) \<Rightarrow> (False, s\<lparr>cs_queues := (cs_queues s)(in_tx i := q)\<rparr>))"

subsection \<open>Admitting a delegation\<close>

datatype delegate_outcome = DelegateAccepted delegate_ack | DelegateRejected error_object

definition rejected :: "int \<Rightarrow> string \<Rightarrow> delegate_outcome" where
  "rejected code message = DelegateRejected (new_error code message)"

text \<open>The parent reference: both parts or neither, and the live admission this instance serves.\<close>

definition delegate_parent ::
  "string \<Rightarrow> u64 \<Rightarrow> delegate_params \<Rightarrow> inflight_table \<Rightarrow> error_object + string list \<times> int option" where
  "delegate_parent from_namespace from_handle params t =
     (case (dp_parent_delegation_id params, dp_parent_admission params) of
        (Some pid, Some padmission) \<Rightarrow>
          (case bt_get t (DelegationKey from_namespace pid) of
             Some p \<Rightarrow>
               if if_to_handle p = from_handle \<and> if_generation p = padmission
               then Inr (if_chain p, Some (if_deadline p))
               else Inl (new_error INVALID_PARAMS
                      (''parent delegation '' @ pid @ '' is not in flight for this instance''))
           | None \<Rightarrow> Inl (new_error INVALID_PARAMS
                      (''parent delegation '' @ pid @ '' is not in flight for this instance'')))
      | (Some _, None) \<Rightarrow>
          Inl (new_error INVALID_PARAMS
            (''parent_delegation_id requires parent_admission: name the ''
             @ ''admission token this instance was forwarded for that parent ''
             @ ''(a delegation id alone is reusable and cannot identify it)''))
      | (None, Some _) \<Rightarrow>
          Inl (new_error INVALID_PARAMS
            (''parent_admission is meaningless without parent_delegation_id: ''
             @ ''omit both for a root delegation, or send both''))
      | (None, None) \<Rightarrow> Inr ([], None))"

definition select_failure :: "select_error \<Rightarrow> delegate_outcome" where
  "select_failure e = (case e of
     NoTarget \<Rightarrow> rejected NO_TARGET ''no registered healthy runtime matches the target selector''
   | AllSaturated \<Rightarrow>
       rejected SATURATED ''all matching runtimes are at capacity (CP does not queue; retry later)'')"

text \<open>The counter of the namespace, created at zero; never bumped past the ceiling.\<close>

definition mint :: "string \<Rightarrow> (string \<times> u64) list \<Rightarrow> u64 option \<times> (string \<times> u64) list" where
  "mint namespace admission =
     (let counter = (case bt_get admission namespace of Some c \<Rightarrow> c | None \<Rightarrow> 0)
      in if - 1 - 1 \<le> counter then (None, bt_insert namespace counter admission)
         else (Some (counter + 1), bt_insert namespace (counter + 1) admission))"

definition remove_generation :: "delegation_key \<Rightarrow> u64 \<Rightarrow> inflight_table \<Rightarrow> in_flight option \<times> inflight_table" where
  "remove_generation key generation t =
     (case bt_get t key of
        Some e \<Rightarrow> if if_generation e = generation then (Some e, bt_remove key t) else (None, t)
      | None \<Rightarrow> (None, t))"

text \<open>The tail of an admission: stamp, reserve, record, send, roll back when the send fails.\<close>

definition delegate_admit ::
  "wire \<Rightarrow> string \<Rightarrow> string \<Rightarrow> u64 \<Rightarrow> delegate_params \<Rightarrow> u64 \<Rightarrow> string list \<Rightarrow> live_instance \<Rightarrow> u64
     \<Rightarrow> cp_state \<Rightarrow> delegate_outcome \<times> cp_state" where
  "delegate_admit wire from_namespace from_name from_handle params rpc parent_chain target generation s =
     (let from_logical = logical_id from_namespace from_name;
          chain = parent_chain @ [from_logical];
          text = wire (DelegateFrame rpc
                   \<lparr>df_delegation_id = dp_delegation_id params, df_admission = generation,
                    df_prompt = dp_prompt params, df_deadline = dp_deadline params,
                    df_from = from_logical, df_chain = chain\<rparr>);
          key = DelegationKey from_namespace (dp_delegation_id params);
          s1 = adjust (in_handle target) 1 s;
          entry = \<lparr>if_namespace = from_namespace, if_delegation_id = dp_delegation_id params,
                   if_from_logical = from_logical, if_from_handle = from_handle,
                   if_to_logical = instance_logical_id target, if_to_handle = in_handle target,
                   if_deadline = dp_deadline params, if_chain = chain, if_generation = generation\<rparr>;
          s2 = set_inflight (bt_insert key entry (inflight_of s1)) s1
      in case send_to target text s2 of
           (False, s3) \<Rightarrow>
             (rejected TARGET_DISCONNECTED ''target disconnected or unresponsive during routing'',
              (case remove_generation key generation (inflight_of s3) of
                 (Some _, t) \<Rightarrow> adjust (in_handle target) (- 1) (set_inflight t s3)
               | (None, t) \<Rightarrow> s3))
         | (True, s3) \<Rightarrow>
             (DelegateAccepted \<lparr>da_delegation_id = dp_delegation_id params, da_admission = generation,
                                da_assigned_to = instance_logical_id target\<rparr>, s3))"

definition delegate ::
  "wire \<Rightarrow> cp_config \<Rightarrow> int \<Rightarrow> string \<Rightarrow> string \<Rightarrow> agent_type \<Rightarrow> u64 \<Rightarrow> delegate_params \<Rightarrow> u64
     \<Rightarrow> cp_state \<Rightarrow> delegate_outcome \<times> cp_state" where
  "delegate wire cfg now from_namespace from_name from_type from_handle params rpc s =
     (if bt_get (inflight_of s) (DelegationKey from_namespace (dp_delegation_id params)) \<noteq> None
      then (rejected DUPLICATE_DELEGATION
              (''delegation '' @ dp_delegation_id params @ '' is already in flight''), s)
      else if cc_max_inflight_delegations cfg \<le> length (inflight_of s)
      then (rejected SATURATED
              (''control plane is at its global in-flight limit (max_inflight_delegations = ''
               @ dec (cc_max_inflight_delegations cfg) @ ''); retry later''), s)
      else if (ts_name (dp_target params) \<noteq> None) = (ts_labels (dp_target params) \<noteq> None)
      then (rejected INVALID_PARAMS ''target must set exactly one of `name` or `labels`'', s)
      else case delegate_parent from_namespace from_handle params (inflight_of s) of
             Inl e \<Rightarrow> (DelegateRejected e, s)
           | Inr (parent_chain, parent_deadline) \<Rightarrow>
               (case select from_namespace (ts_name (dp_target params)) (ts_labels (dp_target params))
                       (cs_registry s) of
                  Inl e \<Rightarrow> (select_failure e, s)
                | Inr target \<Rightarrow>
                    (case policy_check
                            \<lparr>pi_from_namespace = from_namespace, pi_from_name = from_name,
                             pi_from_type = from_type, pi_target_namespace = in_namespace target,
                             pi_target_name = in_name target, pi_parent_chain = parent_chain,
                             pi_deadline = dp_deadline params, pi_parent_deadline = parent_deadline,
                             pi_now = now, pi_max_deadline_secs = cc_max_deadline_secs cfg\<rparr>
                            (policy_for cfg from_namespace) of
                       Inl denial \<Rightarrow> (rejected POLICY_DENIED (denial_str denial), s)
                     | Inr _ \<Rightarrow>
                         (case mint from_namespace (ro_admission (cs_router s)) of
                            (None, adm) \<Rightarrow>
                              (rejected (- 32603) ''control plane admission token space exhausted; restart the CP'',
                               s\<lparr>cs_router := (cs_router s)\<lparr>ro_admission := adm\<rparr>\<rparr>)
                          | (Some generation, adm) \<Rightarrow>
                              delegate_admit wire from_namespace from_name from_handle params rpc
                                parent_chain target generation
                                (s\<lparr>cs_router := (cs_router s)\<lparr>ro_admission := adm\<rparr>\<rparr>)))))"

subsection \<open>Completing\<close>

datatype peek =
    Serving in_flight
  | Foreign u64
  | PeekStale u64 u64
  | PeekUnknown

definition peek_for_completion :: "string \<Rightarrow> string \<Rightarrow> u64 \<Rightarrow> u64 \<Rightarrow> inflight_table \<Rightarrow> peek" where
  "peek_for_completion namespace delegation_id serving_handle admission t =
     (case bt_get t (DelegationKey namespace delegation_id) of
        Some e \<Rightarrow>
          if if_to_handle e \<noteq> serving_handle then Foreign (if_to_handle e)
          else if if_generation e \<noteq> admission then PeekStale admission (if_generation e)
          else Serving e
      | None \<Rightarrow> PeekUnknown)"

datatype commit_outcome = Claimed | Vanished | Superseded u64

definition commit_completion :: "in_flight \<Rightarrow> cp_state \<Rightarrow> commit_outcome \<times> cp_state" where
  "commit_completion peeked s =
     (let key = DelegationKey (if_namespace peeked) (if_delegation_id peeked)
      in case bt_get (inflight_of s) key of
           Some e \<Rightarrow>
             if if_to_handle e = if_to_handle peeked \<and> if_generation e = if_generation peeked
             then (Claimed, adjust (if_to_handle e) (- 1) (set_inflight (bt_remove key (inflight_of s)) s))
             else (Superseded (if_generation e), s)
         | None \<Rightarrow> (Vanished, s))"

text \<open>\<^verbatim>\<open>str::is_char_boundary\<close>, and the greatest boundary up to an index.\<close>

definition is_char_boundary :: "string \<Rightarrow> nat \<Rightarrow> bool" where
  "is_char_boundary s i \<longleftrightarrow>
     i = 0 \<or> i = length s
     \<or> i < length s \<and> \<not> (128 \<le> (of_char (s ! i) :: nat) \<and> (of_char (s ! i) :: nat) < 192)"

fun back_to_boundary :: "string \<Rightarrow> nat \<Rightarrow> nat" where
  "back_to_boundary s 0 = 0"
| "back_to_boundary s (Suc n) = (if is_char_boundary s (Suc n) then Suc n else back_to_boundary s n)"

definition floor_char_boundary :: "string \<Rightarrow> nat \<Rightarrow> nat" where
  "floor_char_boundary s m = back_to_boundary s (min m (length s))"

definition truncation_marker :: "nat \<Rightarrow> string" where
  "truncation_marker n =
     [CHR 0x0A, CHR 0xE2, CHR 0x80, CHR 0xA6] @ ''[truncated by control plane: '' @ dec n @ '' bytes total]''"

definition truncate_result :: "nat \<Rightarrow> string \<Rightarrow> string" where
  "truncate_result max_bytes r =
     (if max_bytes < length r then
        let marker = truncation_marker (length r);
            budget = max_bytes - length marker;
            cut = floor_char_boundary r budget;
            out = take cut r @ marker
        in if max_bytes < length out then take (floor_char_boundary out max_bytes) out else out
      else r)"

datatype complete_outcome =
    DeliveredResult bool
  | DroppedResult
  | InitiatorStalled u64

text \<open>Phase 1: peek, build the frame, give it to the initiator's queue.\<close>

definition complete_deliver ::
  "wire \<Rightarrow> u64 \<Rightarrow> delegate_result \<Rightarrow> nat \<Rightarrow> u64 \<Rightarrow> cp_state \<Rightarrow> (complete_outcome + in_flight) \<times> cp_state" where
  "complete_deliver wire serving_handle params max_result_bytes rpc s =
     (case reg_get (cs_registry s) serving_handle of
        None \<Rightarrow> (Inl DroppedResult, s)
      | Some me \<Rightarrow>
          (case peek_for_completion (in_namespace me) (dr_delegation_id params) serving_handle
                  (dr_admission params) (inflight_of s) of
             Foreign _ \<Rightarrow> (Inl DroppedResult, s)
           | PeekStale _ _ \<Rightarrow> (Inl DroppedResult, s)
           | PeekUnknown \<Rightarrow> (Inl DroppedResult, s)
           | Serving entry \<Rightarrow>
               (let params1 = params\<lparr>dr_result := map_option (truncate_result max_result_bytes) (dr_result params)\<rparr>
                in case reg_get (cs_registry s) (if_from_handle entry) of
                     None \<Rightarrow> (Inl DroppedResult, s)
                   | Some initiator \<Rightarrow>
                       (case send_to initiator (wire (ResultFrame rpc params1)) s of
                          (False, s1) \<Rightarrow> (Inl (InitiatorStalled (if_from_handle entry)), s1)
                        | (True, s1) \<Rightarrow> (Inr entry, s1)))))"

definition complete ::
  "wire \<Rightarrow> u64 \<Rightarrow> delegate_result \<Rightarrow> nat \<Rightarrow> u64 \<Rightarrow> cp_state \<Rightarrow> complete_outcome \<times> cp_state" where
  "complete wire serving_handle params max_result_bytes rpc s =
     (case complete_deliver wire serving_handle params max_result_bytes rpc s of
        (Inl out, s1) \<Rightarrow> (out, s1)
      | (Inr entry, s1) \<Rightarrow>
          (case commit_completion entry s1 of
             (Claimed, s2) \<Rightarrow> (DeliveredResult True, s2)
           | (Vanished, s2) \<Rightarrow> (DeliveredResult False, s2)
           | (Superseded _, s2) \<Rightarrow> (DeliveredResult False, s2)))"

subsection \<open>Cancelling\<close>

datatype claim =
    Owned in_flight
  | WrongOwner string u64
  | ClaimStale string u64 u64
  | NotFound string
  | Unregistered

definition router_claim :: "u64 \<Rightarrow> string \<Rightarrow> u64 \<Rightarrow> cp_state \<Rightarrow> claim \<times> cp_state" where
  "router_claim handle delegation_id admission s =
     (case reg_get (cs_registry s) handle of
        None \<Rightarrow> (Unregistered, s)
      | Some i \<Rightarrow>
          (let key = DelegationKey (in_namespace i) delegation_id
           in case bt_get (inflight_of s) key of
                None \<Rightarrow> (NotFound (in_namespace i), s)
              | Some e \<Rightarrow>
                  if if_from_handle e \<noteq> handle then (WrongOwner (in_namespace i) (if_from_handle e), s)
                  else if if_generation e \<noteq> admission
                  then (ClaimStale (in_namespace i) admission (if_generation e), s)
                  else (Owned e, set_inflight (bt_remove key (inflight_of s)) s)))"

definition cancel_refused :: error_object where
  "cancel_refused = new_error POLICY_DENIED ''delegation is not in flight for this instance''"

definition cancel ::
  "wire \<Rightarrow> u64 \<Rightarrow> cancel_params \<Rightarrow> u64 \<Rightarrow> cp_state
     \<Rightarrow> (error_object + (live_instance \<times> string) option) \<times> cp_state" where
  "cancel wire from_handle params rpc s =
     (case router_claim from_handle (cp_delegation_id params) (cp_admission params) s of
        (Owned entry, s1) \<Rightarrow>
          (let s2 = adjust (if_to_handle entry) (- 1) s1
           in (Inr (map_option (\<lambda>t. (t, wire (CancelFrame rpc params)))
                     (reg_get (cs_registry s2) (if_to_handle entry))), s2))
      | (WrongOwner _ _, s1) \<Rightarrow> (Inl cancel_refused, s1)
      | (ClaimStale _ _ _, s1) \<Rightarrow> (Inl cancel_refused, s1)
      | (NotFound _, s1) \<Rightarrow> (Inl cancel_refused, s1)
      | (Unregistered, s1) \<Rightarrow> (Inl cancel_refused, s1))"

subsection \<open>Ending many\<close>

fun remove_all :: "'k list \<Rightarrow> ('k \<times> 'v) list \<Rightarrow> 'v list \<times> ('k \<times> 'v) list" where
  "remove_all [] t = ([], t)"
| "remove_all (k # ks) t =
     (case bt_get t k of
        None \<Rightarrow> remove_all ks t
      | Some v \<Rightarrow> (case remove_all ks (bt_remove k t) of (vs, t1) \<Rightarrow> (v # vs, t1)))"

definition extract_where :: "('v \<Rightarrow> bool) \<Rightarrow> ('k \<times> 'v) list \<Rightarrow> 'v list \<times> ('k \<times> 'v) list" where
  "extract_where P t = remove_all (map fst (filter (\<lambda>e. P (snd e)) t)) t"

text \<open>The frames for one entry of an instance that is gone.\<close>

definition fail_entry ::
  "wire \<Rightarrow> u64 \<Rightarrow> in_flight \<Rightarrow> u64 \<Rightarrow> cp_state \<Rightarrow> (live_instance \<times> string) list \<times> u64 \<times> cp_state" where
  "fail_entry wire handle e rpc s =
     (if if_to_handle e = handle then
        (case reg_get (cs_registry s) (if_from_handle e) of
           None \<Rightarrow> ([], rpc, s)
         | Some init \<Rightarrow>
             ([(init, wire (ResultFrame rpc
                 \<lparr>dr_delegation_id = if_delegation_id e, dr_admission = if_generation e,
                  dr_status = TargetDisconnectedStatus, dr_result = None,
                  dr_error = Some (if_to_logical e @ '' disconnected'')\<rparr>))], rpc + 1, s))
      else
        (let s1 = adjust (if_to_handle e) (- 1) s
         in case reg_get (cs_registry s1) (if_to_handle e) of
              None \<Rightarrow> ([], rpc, s1)
            | Some target \<Rightarrow>
                ([(target, wire (CancelFrame rpc
                    \<lparr>cp_delegation_id = if_delegation_id e, cp_admission = if_generation e,
                     cp_reason = ''initiator '' @ if_from_logical e @ '' disconnected''\<rparr>))], rpc + 1, s1)))"

fun fail_entries ::
  "wire \<Rightarrow> u64 \<Rightarrow> in_flight list \<Rightarrow> u64 \<Rightarrow> cp_state \<Rightarrow> (live_instance \<times> string) list \<times> u64 \<times> cp_state" where
  "fail_entries wire handle [] rpc s = ([], rpc, s)"
| "fail_entries wire handle (e # es) rpc s =
     (case fail_entry wire handle e rpc s of
        (fs, rpc1, s1) \<Rightarrow>
          (case fail_entries wire handle es rpc1 s1 of (gs, rpc2, s2) \<Rightarrow> (fs @ gs, rpc2, s2)))"

definition fail_instance ::
  "wire \<Rightarrow> u64 \<Rightarrow> u64 \<Rightarrow> cp_state \<Rightarrow> (live_instance \<times> string) list \<times> u64 \<times> cp_state" where
  "fail_instance wire handle rpc s =
     (case extract_where (\<lambda>e. if_to_handle e = handle \<or> if_from_handle e = handle) (inflight_of s) of
        (es, t) \<Rightarrow> fail_entries wire handle es rpc (set_inflight t s))"

text \<open>The frames for one overdue entry.\<close>

definition expire_entry ::
  "wire \<Rightarrow> in_flight \<Rightarrow> u64 \<Rightarrow> cp_state \<Rightarrow> (live_instance \<times> string) list \<times> u64 \<times> cp_state" where
  "expire_entry wire e rpc s =
     (let s1 = adjust (if_to_handle e) (- 1) s;
          (fs, rpc1) = (case reg_get (cs_registry s1) (if_from_handle e) of
             None \<Rightarrow> ([], rpc)
           | Some init \<Rightarrow>
               ([(init, wire (ResultFrame rpc
                   \<lparr>dr_delegation_id = if_delegation_id e, dr_admission = if_generation e,
                    dr_status = TimeoutStatus, dr_result = None, dr_error = Some ''deadline exceeded''\<rparr>))], rpc + 1));
          (gs, rpc2) = (case reg_get (cs_registry s1) (if_to_handle e) of
             None \<Rightarrow> ([], rpc1)
           | Some target \<Rightarrow>
               ([(target, wire (CancelFrame rpc1
                   \<lparr>cp_delegation_id = if_delegation_id e, cp_admission = if_generation e,
                    cp_reason = ''deadline exceeded''\<rparr>))], rpc1 + 1))
      in (fs @ gs, rpc2, s1))"

fun expire_entries ::
  "wire \<Rightarrow> in_flight list \<Rightarrow> u64 \<Rightarrow> cp_state \<Rightarrow> (live_instance \<times> string) list \<times> u64 \<times> cp_state" where
  "expire_entries wire [] rpc s = ([], rpc, s)"
| "expire_entries wire (e # es) rpc s =
     (case expire_entry wire e rpc s of
        (fs, rpc1, s1) \<Rightarrow>
          (case expire_entries wire es rpc1 s1 of (gs, rpc2, s2) \<Rightarrow> (fs @ gs, rpc2, s2)))"

definition sweep_deadlines ::
  "wire \<Rightarrow> int \<Rightarrow> u64 \<Rightarrow> cp_state \<Rightarrow> (live_instance \<times> string) list \<times> u64 \<times> cp_state" where
  "sweep_deadlines wire now rpc s =
     (case extract_where (\<lambda>e. if_deadline e \<le> now) (inflight_of s) of
        (es, t) \<Rightarrow> expire_entries wire es rpc (set_inflight t s))"

definition chain_of :: "string \<Rightarrow> string \<Rightarrow> cp_state \<Rightarrow> string list option" where
  "chain_of namespace delegation_id s =
     map_option if_chain (bt_get (inflight_of s) (DelegationKey namespace delegation_id))"

end
