(* ===== verification/Cp_Router_Facts.thy ===== *)
theory Cp_Router_Facts
  imports Cp_Router
begin

section \<open>The control plane's invariant\<close>

text \<open>
  The operations of the registry and the router as one step relation, and the invariant they
  keep: tables in order, handles and admission tokens never ahead of their counters, the
  session count of every live instance equal to the delegations routed to it and within its
  maximum, and every delegation's chain as the policy wants it.
\<close>

subsection \<open>The registry as a map\<close>

lemma reg_get_update:
  "reg_get (update_instance h f r) k = (if k = h then map_option f (reg_get r h) else reg_get r k)"
  by (auto simp: update_instance_def reg_get_def split: option.splits)

lemma reg_get_adjust:
  "reg_get (adjust_sessions h d r) k =
     (if k = h then map_option (\<lambda>i. i\<lparr>in_active_sessions := saturating_add_signed (in_active_sessions i) d\<rparr>) (reg_get r h)
      else reg_get r k)"
  by (simp add: adjust_sessions_def reg_get_update)

lemma reg_get_deregister [simp]:
  "reg_get (snd (deregister h r)) k = (if k = h then None else reg_get r k)"
  by (simp add: deregister_def reg_get_def)

lemma reg_get_register [simp]:
  "reg_get (snd (register_conn i c r)) k =
     (if k = rg_next_handle r + 1 then Some (i\<lparr>in_handle := rg_next_handle r + 1\<rparr>) else reg_get r k)"
  by (simp add: register_conn_def Let_def reg_get_def)

lemma register_next [simp]: "rg_next_handle (snd (register_conn i c r)) = rg_next_handle r + 1"
  by (simp add: register_conn_def Let_def)

lemma update_instance_next [simp]: "rg_next_handle (update_instance h f r) = rg_next_handle r"
  by (simp add: update_instance_def split: option.split)

lemma adjust_sessions_next [simp]: "rg_next_handle (adjust_sessions h d r) = rg_next_handle r"
  by (simp add: adjust_sessions_def)

lemma deregister_next [simp]: "rg_next_handle (snd (deregister h r)) = rg_next_handle r"
  by (simp add: deregister_def)

definition reg_inv :: "registry \<Rightarrow> bool" where
  "reg_inv r \<longleftrightarrow>
     bt_inv (rg_inner r)
     \<and> (\<forall>h i. reg_get r h = Some i \<longrightarrow> in_handle i = h \<and> unat h \<le> unat (rg_next_handle r))"

lemma reg_inv_update:
  assumes "reg_inv r" and "\<And>i. in_handle (f i) = in_handle i"
  shows "reg_inv (update_instance h f r)"
proof -
  have "bt_inv (rg_inner (update_instance h f r))"
    using assms(1) by (auto simp: reg_inv_def update_instance_def bt_inv_insert split: option.splits)
  then show ?thesis using assms by (auto simp: reg_inv_def reg_get_update)
qed

lemma reg_inv_adjust: "reg_inv r \<Longrightarrow> reg_inv (adjust_sessions h d r)"
  unfolding adjust_sessions_def by (rule reg_inv_update) simp_all

lemma reg_inv_deregister: "reg_inv r \<Longrightarrow> reg_inv (snd (deregister h r))"
proof -
  assume i: "reg_inv r"
  have "bt_inv (rg_inner (snd (deregister h r)))"
    using i by (simp add: reg_inv_def deregister_def bt_inv_remove)
  moreover have "reg_get r k = Some x" if "reg_get (snd (deregister h r)) k = Some x" for k x
    using that by (simp split: if_splits)
  ultimately show ?thesis
    using i unfolding reg_inv_def deregister_next by meson
qed

lemma reg_inv_register:
  assumes "reg_inv r" and "rg_next_handle r \<noteq> - 1"
  shows "reg_inv (snd (register_conn i c r))"
proof -
  have "unat (rg_next_handle r + 1) = unat (rg_next_handle r) + 1"
    by (rule unat_plus_one [OF assms(2)])
  moreover have "bt_inv (rg_inner (snd (register_conn i c r)))"
    using assms(1) by (simp add: reg_inv_def register_conn_def Let_def bt_inv_insert)
  moreover have "in_handle x = k \<and> unat k \<le> unat (rg_next_handle r)"
    if "reg_get r k = Some x" for k x
    using that assms(1) by (simp add: reg_inv_def)
  ultimately show ?thesis
    unfolding reg_inv_def register_next by (auto simp: le_SucI split: if_splits)
qed

subsection \<open>Where a selection comes from\<close>

lemma select_Inr:
  assumes "select ns name wanted r = Inr i"
  shows "i \<in> set (select_matches ns name wanted r) \<and> \<not> instance_saturated i"
proof -
  let ?free = "filter (\<lambda>i. \<not> instance_saturated i) (select_matches ns name wanted r)"
  from assms have ne: "?free \<noteq> []" and i: "i = hd (sort_key (select_key (name \<noteq> None)) ?free)"
    by (auto simp: select_def Let_def split: if_splits)
  from ne have "sort_key (select_key (name \<noteq> None)) ?free \<noteq> []" by (metis set_sort set_empty)
  then have "i \<in> set ?free" using i by (metis hd_in_set set_sort)
  then show ?thesis by simp
qed

lemma matches_registered:
  assumes "reg_inv r" and "i \<in> set (select_matches ns name wanted r)"
  shows "reg_get r (in_handle i) = Some i \<and> in_namespace i = ns
     \<and> (\<forall>n. name = Some n \<longrightarrow> in_name i = n) \<and> (\<forall>w. wanted = Some w \<longrightarrow> matches_labels w i)"
proof -
  from assms(2) obtain h e where he: "(h, e) \<in> set (rg_inner r)" "i = en_inst e" "in_namespace i = ns"
      "(\<forall>n. name = Some n \<longrightarrow> in_name i = n)" "(\<forall>w. wanted = Some w \<longrightarrow> matches_labels w i)"
    by (auto simp: select_matches_def split: option.splits)
  have b: "bt_inv (rg_inner r)" using assms(1) by (simp add: reg_inv_def)
  have "bt_get (rg_inner r) h = Some e" by (rule bt_rows_get [OF b, THEN iffD1, OF he(1)])
  then have "reg_get r h = Some i" using he(2) by (simp add: reg_get_def)
  moreover from this have "in_handle i = h" using assms(1) unfolding reg_inv_def by blast
  ultimately show ?thesis using he(3-5) by simp
qed

text \<open>The order of selection: nothing that is free and matches comes before the selected one.\<close>

lemma select_first:
  assumes "select ns name wanted r = Inr i" and "j \<in> set (select_matches ns name wanted r)"
    and "\<not> instance_saturated j"
  shows "select_key (name \<noteq> None) i \<le> select_key (name \<noteq> None) j"
proof -
  let ?k = "select_key (name \<noteq> None)"
  let ?free = "filter (\<lambda>i. \<not> instance_saturated i) (select_matches ns name wanted r)"
  from assms(1) have i: "i = hd (sort_key ?k ?free)"
    by (auto simp: select_def Let_def split: if_splits)
  have j: "j \<in> set (sort_key ?k ?free)" using assms(2,3) by simp
  have hd_least: "?k (hd ys) \<le> ?k j" if "sorted (map ?k ys)" and "j \<in> set ys" for ys
    using that by (cases ys) auto
  show ?thesis unfolding i by (rule hd_least [OF sorted_sort_key j])
qed

subsection \<open>The invariant\<close>

definition serving_count :: "u64 \<Rightarrow> cp_state \<Rightarrow> nat" where
  "serving_count h s = bt_count (\<lambda>e. if_to_handle e = h) (inflight_of s)"

definition counter_of :: "string \<Rightarrow> cp_state \<Rightarrow> nat" where
  "counter_of ns s = (case bt_get (ro_admission (cs_router s)) ns of Some c \<Rightarrow> unat c | None \<Rightarrow> 0)"

text \<open>An entry, on its own: its place in the table, its handles, its token, its chain.\<close>

definition entry_ok :: "cp_config \<Rightarrow> cp_state \<Rightarrow> delegation_key \<Rightarrow> in_flight \<Rightarrow> bool" where
  "entry_ok cfg s k e \<longleftrightarrow>
     k = DelegationKey (if_namespace e) (if_delegation_id e)
     \<and> unat (if_to_handle e) \<le> unat (rg_next_handle (cs_registry s))
     \<and> unat (if_from_handle e) \<le> unat (rg_next_handle (cs_registry s))
     \<and> 0 < unat (if_generation e) \<and> unat (if_generation e) \<le> counter_of (if_namespace e) s
     \<and> (\<forall>i. reg_get (cs_registry s) (if_to_handle e) = Some i \<longrightarrow>
           in_namespace i = if_namespace e \<and> instance_logical_id i = if_to_logical e)
     \<and> (\<forall>i. reg_get (cs_registry s) (if_from_handle e) = Some i \<longrightarrow>
           in_namespace i = if_namespace e \<and> instance_logical_id i = if_from_logical e)
     \<and> if_chain e \<noteq> [] \<and> last (if_chain e) = if_from_logical e
     \<and> distinct (if_chain e) \<and> if_to_logical e \<notin> set (if_chain e)
     \<and> length (if_chain e) \<le> unat (np_max_depth (policy_for cfg (if_namespace e)))"

definition core_inv :: "cp_config \<Rightarrow> cp_state \<Rightarrow> bool" where
  "core_inv cfg s \<longleftrightarrow>
     (\<forall>ns. np_max_depth (policy_for cfg ns) \<noteq> - 1)
     \<and> reg_inv (cs_registry s) \<and> bt_inv (inflight_of s)
     \<and> (\<forall>k e. bt_get (inflight_of s) k = Some e \<longrightarrow> entry_ok cfg s k e)"

text \<open>The session counts, with the releases that are still to come for entries already removed.\<close>

definition capacity_inv :: "in_flight list \<Rightarrow> cp_state \<Rightarrow> bool" where
  "capacity_inv pend s \<longleftrightarrow>
     (\<forall>h i. reg_get (cs_registry s) h = Some i \<longrightarrow>
        unat (in_active_sessions i) = serving_count h s + length (filter (\<lambda>e. if_to_handle e = h) pend)
        \<and> in_active_sessions i \<le> in_max_sessions i)"

definition cp_inv :: "cp_config \<Rightarrow> cp_state \<Rightarrow> bool" where
  "cp_inv cfg s \<longleftrightarrow> core_inv cfg s \<and> capacity_inv [] s"

subsection \<open>The simplest changes\<close>

lemma inflight_adjust [simp]: "inflight_of (adjust h d s) = inflight_of s"
  by (simp add: inflight_of_def adjust_def)

lemma inflight_set [simp]: "inflight_of (set_inflight t s) = t"
  by (simp add: inflight_of_def set_inflight_def)

lemma registry_set [simp]: "cs_registry (set_inflight t s) = cs_registry s"
  by (simp add: set_inflight_def)

lemma registry_adjust [simp]: "cs_registry (adjust h d s) = adjust_sessions h d (cs_registry s)"
  by (simp add: adjust_def)

lemma counter_simps [simp]:
  "counter_of ns (set_inflight t s) = counter_of ns s" "counter_of ns (adjust h d s) = counter_of ns s"
  by (simp_all add: counter_of_def set_inflight_def adjust_def)

lemma serving_adjust [simp]: "serving_count h (adjust k d s) = serving_count h s"
  by (simp add: serving_count_def)

text \<open>What a change that only touches session counts and queues leaves for an entry.\<close>

definition same_for_entries :: "cp_state \<Rightarrow> cp_state \<Rightarrow> bool" where
  "same_for_entries s s' \<longleftrightarrow>
     rg_next_handle (cs_registry s') = rg_next_handle (cs_registry s)
     \<and> (\<forall>h i'. reg_get (cs_registry s') h = Some i' \<longrightarrow>
          (\<exists>i. reg_get (cs_registry s) h = Some i \<and> in_namespace i = in_namespace i'
             \<and> instance_logical_id i = instance_logical_id i'))
     \<and> (\<forall>ns. counter_of ns s \<le> counter_of ns s')"

lemma entry_ok_same: "same_for_entries s s' \<Longrightarrow> entry_ok cfg s k e \<Longrightarrow> entry_ok cfg s' k e"
  unfolding same_for_entries_def entry_ok_def by (metis le_trans)

lemma same_adjust: "same_for_entries s (adjust h d s)"
  by (auto simp: same_for_entries_def reg_get_adjust instance_logical_id_def)

lemma same_set: "same_for_entries s (set_inflight t s)"
  by (simp add: same_for_entries_def)

lemma core_inv_same:
  assumes "core_inv cfg s" and "same_for_entries s s'" and "reg_inv (cs_registry s')"
    and "bt_inv (inflight_of s')" and "\<forall>k e. bt_get (inflight_of s') k = Some e \<longrightarrow> bt_get (inflight_of s) k = Some e"
  shows "core_inv cfg s'"
  using assms entry_ok_same [OF assms(2)] by (auto simp: core_inv_def)

lemma core_inv_adjust: "core_inv cfg s \<Longrightarrow> core_inv cfg (adjust h d s)"
  by (rule core_inv_same [OF _ same_adjust]) (auto simp: core_inv_def reg_inv_adjust)

lemma core_inv_remove: "core_inv cfg s \<Longrightarrow> core_inv cfg (set_inflight (bt_remove k (inflight_of s)) s)"
  by (rule core_inv_same [OF _ same_set]) (auto simp: core_inv_def bt_inv_remove)

subsection \<open>Releasing\<close>

lemma saturating_down: "0 < unat x \<Longrightarrow> unat (saturating_add_signed x (- 1)) = unat x - 1"
proof -
  assume x: "0 < unat x"
  have "0 < nat (uint x)" using x unfolding nat_uint_eq .
  then have "0 < uint x" by (simp only: zero_less_nat_eq)
  then have lo: "\<not> uint x + - 1 < 0" by linarith
  have "uint x < 2 ^ LENGTH(32)" by (rule unsigned_less)
  then have "uint x < 2 ^ 32" by simp
  then have hi: "\<not> 2 ^ 32 \<le> uint x + - 1" by linarith
  have "saturating_add_signed x (- 1) = of_int (uint x + - 1)"
    unfolding saturating_add_signed_def Let_def using lo hi by (simp only: if_False)
  also have "\<dots> = x - 1" by simp
  finally have e: "saturating_add_signed x (- 1) = x - 1" .
  have "x \<noteq> 0" using x by auto
  then show ?thesis unfolding e by (rule unat_minus_one)
qed

lemma saturating_up: "x < y \<Longrightarrow> unat (saturating_add_signed (x :: u32) 1) = unat x + 1"
proof -
  assume xy: "x < y"
  have "uint y < 2 ^ LENGTH(32)" by (rule unsigned_less)
  then have "uint y < 2 ^ 32" by simp
  moreover have "uint x < uint y" using xy by (simp only: word_less_def)
  ultimately have "uint x + 1 < 2 ^ 32" by linarith
  then have hi: "\<not> 2 ^ 32 \<le> uint x + 1" by linarith
  have "0 \<le> uint x" by simp
  then have lo: "\<not> uint x + 1 < 0" by linarith
  have "saturating_add_signed x 1 = of_int (uint x + 1)"
    unfolding saturating_add_signed_def Let_def using lo hi by (simp only: if_False)
  also have "\<dots> = x + 1" by simp
  finally have e: "saturating_add_signed x 1 = x + 1" .
  have "x \<noteq> - 1" using xy by (metis word_not_simps(3))
  then show ?thesis unfolding e by (rule unat_plus_one)
qed

lemma capacity_release:
  assumes "capacity_inv (e # pend) s"
  shows "capacity_inv pend (adjust (if_to_handle e) (- 1) s)"
  unfolding capacity_inv_def
proof (intro allI impI)
  fix h i'
  assume i': "reg_get (cs_registry (adjust (if_to_handle e) (- 1) s)) h = Some i'"
  show "unat (in_active_sessions i') = serving_count h (adjust (if_to_handle e) (- 1) s)
        + length (filter (\<lambda>e. if_to_handle e = h) pend) \<and> in_active_sessions i' \<le> in_max_sessions i'"
  proof (cases "h = if_to_handle e")
    case False
    then show ?thesis using i' assms by (simp add: reg_get_adjust capacity_inv_def)
  next
    case True
    with i' obtain i where i: "reg_get (cs_registry s) h = Some i"
        "i' = i\<lparr>in_active_sessions := saturating_add_signed (in_active_sessions i) (- 1)\<rparr>"
      by (auto simp: reg_get_adjust)
    have a: "unat (in_active_sessions i) = serving_count h s + 1 + length (filter (\<lambda>e. if_to_handle e = h) pend)"
        "in_active_sessions i \<le> in_max_sessions i"
      using assms i(1) True by (auto simp: capacity_inv_def)
    then show ?thesis using i(2) saturating_down [of "in_active_sessions i"]
      by (simp add: word_le_nat_alt)
  qed
qed

lemma capacity_remove:
  assumes "capacity_inv pend s" and "bt_inv (inflight_of s)" and "bt_get (inflight_of s) k = Some e"
  shows "capacity_inv (e # pend) (set_inflight (bt_remove k (inflight_of s)) s)"
proof -
  have "serving_count h s = serving_count h (set_inflight (bt_remove k (inflight_of s)) s)
      + (if if_to_handle e = h then 1 else 0)" for h
    using bt_count_remove [OF assms(2,3)] by (simp add: serving_count_def)
  then show ?thesis using assms(1) by (auto simp: capacity_inv_def)
qed

text \<open>Ending one delegation: its entry goes, its slot is free.\<close>

lemma release_inv:
  assumes "cp_inv cfg s" and "bt_get (inflight_of s) k = Some e"
  shows "cp_inv cfg (adjust (if_to_handle e) (- 1) (set_inflight (bt_remove k (inflight_of s)) s))"
proof -
  have c: "core_inv cfg s" and p: "capacity_inv [] s" using assms(1) by (auto simp: cp_inv_def)
  have "bt_inv (inflight_of s)" using c by (simp add: core_inv_def)
  then have "capacity_inv [] (adjust (if_to_handle e) (- 1) (set_inflight (bt_remove k (inflight_of s)) s))"
    by (intro capacity_release capacity_remove p assms(2))
  then show ?thesis using c by (simp add: cp_inv_def core_inv_adjust core_inv_remove)
qed

subsection \<open>What the invariant does not see\<close>

lemma cp_inv_cong:
  assumes "cs_registry s' = cs_registry s" and "cs_router s' = cs_router s"
  shows "cp_inv cfg s' = cp_inv cfg s"
  using assms
  by (simp add: cp_inv_def core_inv_def capacity_inv_def inflight_of_def entry_ok_def counter_of_def
        serving_count_def)

lemma send_to_same [simp]:
  "cs_registry (snd (send_to i text s)) = cs_registry s" "cs_router (snd (send_to i text s)) = cs_router s"
  by (simp_all add: send_to_def split: prod.splits sum.splits)

lemma inflight_send [simp]: "inflight_of (snd (send_to i text s)) = inflight_of s"
  by (simp add: inflight_of_def)

lemma send_inv: "cp_inv cfg (snd (send_to i text s)) = cp_inv cfg s"
  by (rule cp_inv_cong) simp_all

subsection \<open>Admission tokens\<close>

definition set_admission :: "(string \<times> u64) list \<Rightarrow> cp_state \<Rightarrow> cp_state" where
  "set_admission adm s = s\<lparr>cs_router := (cs_router s)\<lparr>ro_admission := adm\<rparr>\<rparr>"

lemma set_admission_simps [simp]:
  "cs_registry (set_admission adm s) = cs_registry s" "inflight_of (set_admission adm s) = inflight_of s"
  "ro_admission (cs_router (set_admission adm s)) = adm" "cs_queues (set_admission adm s) = cs_queues s"
  by (simp_all add: set_admission_def inflight_of_def)

lemma below_ceiling: "\<not> - 1 - 1 \<le> (c :: u64) \<Longrightarrow> unat (c + 1) = unat c + 1"
proof -
  assume "\<not> - 1 - 1 \<le> c"
  then have "c \<noteq> - 1" by (metis word_order.extremum)
  then show ?thesis by (rule unat_plus_one)
qed

lemma mint_counter:
  assumes "mint ns (ro_admission (cs_router s)) = (g, adm)"
  shows "counter_of ns' s \<le> counter_of ns' (set_admission adm s)"
    and "\<And>t. g = Some t \<Longrightarrow> unat t = counter_of ns s + 1 \<and> counter_of ns (set_admission adm s) = unat t"
  using assms below_ceiling
  by (auto simp: mint_def Let_def counter_of_def split: if_splits option.splits)

lemma core_inv_admission:
  assumes "core_inv cfg s" and "\<And>ns. counter_of ns s \<le> counter_of ns (set_admission adm s)"
  shows "core_inv cfg (set_admission adm s)"
proof (rule core_inv_same [OF assms(1)])
  show "same_for_entries s (set_admission adm s)"
    using assms(2) by (simp add: same_for_entries_def)
qed (use assms(1) in \<open>simp_all add: core_inv_def\<close>)

lemma capacity_admission [simp]: "capacity_inv pend (set_admission adm s) = capacity_inv pend s"
  by (simp add: capacity_inv_def serving_count_def)

subsection \<open>Admitting\<close>

text \<open>The entry an admission records, and the state with the slot reserved and the entry in.\<close>

definition admitted_entry ::
  "string \<Rightarrow> string \<Rightarrow> u64 \<Rightarrow> delegate_params \<Rightarrow> string list \<Rightarrow> live_instance \<Rightarrow> u64 \<Rightarrow> in_flight" where
  "admitted_entry ns name from_handle params parent_chain target generation =
     \<lparr>if_namespace = ns, if_delegation_id = dp_delegation_id params,
      if_from_logical = logical_id ns name, if_from_handle = from_handle,
      if_to_logical = instance_logical_id target, if_to_handle = in_handle target,
      if_deadline = dp_deadline params, if_chain = parent_chain @ [logical_id ns name],
      if_generation = generation\<rparr>"

definition entry_key :: "in_flight \<Rightarrow> delegation_key" where
  "entry_key e = DelegationKey (if_namespace e) (if_delegation_id e)"

definition recorded :: "in_flight \<Rightarrow> cp_state \<Rightarrow> cp_state" where
  "recorded e s =
     set_inflight (bt_insert (entry_key e) e (inflight_of s)) (adjust (if_to_handle e) 1 s)"

lemma recorded_inv:
  assumes "cp_inv cfg s" and "bt_get (inflight_of s) (entry_key e) = None"
    and "entry_ok cfg s (entry_key e) e"
    and "\<And>i. reg_get (cs_registry s) (if_to_handle e) = Some i \<Longrightarrow> \<not> instance_saturated i"
  shows "cp_inv cfg (recorded e s)"
proof -
  have c: "core_inv cfg s" and p: "capacity_inv [] s" using assms(1) by (auto simp: cp_inv_def)
  have b: "bt_inv (inflight_of s)" using c by (simp add: core_inv_def)
  have same: "same_for_entries s (recorded e s)"
    using same_adjust [of s "if_to_handle e" 1] by (simp add: same_for_entries_def recorded_def)
  have old: "entry_ok cfg s k x" if "bt_get (inflight_of (recorded e s)) k = Some x" for k x
    using that assms(3) c by (auto simp: recorded_def core_inv_def split: if_splits)
  have core: "core_inv cfg (recorded e s)"
    unfolding core_inv_def
    using c old entry_ok_same [OF same]
    by (simp add: core_inv_def recorded_def bt_inv_insert reg_inv_adjust)
  have count: "serving_count h (recorded e s) = serving_count h s + (if if_to_handle e = h then 1 else 0)" for h
    using bt_count_insert [OF b assms(2)] by (simp add: serving_count_def recorded_def)
  have "capacity_inv [] (recorded e s)"
    unfolding capacity_inv_def
  proof (intro allI impI)
    fix h i'
    assume i': "reg_get (cs_registry (recorded e s)) h = Some i'"
    show "unat (in_active_sessions i') = serving_count h (recorded e s) + length (filter (\<lambda>e. if_to_handle e = h) [])
        \<and> in_active_sessions i' \<le> in_max_sessions i'"
    proof (cases "h = if_to_handle e")
      case False
      then have "reg_get (cs_registry s) h = Some i'" using i' by (simp add: recorded_def reg_get_adjust)
      then show ?thesis using False p count [of h] by (simp add: capacity_inv_def)
    next
      case True
      then obtain i where i: "reg_get (cs_registry s) h = Some i"
          "i' = i\<lparr>in_active_sessions := saturating_add_signed (in_active_sessions i) 1\<rparr>"
        using i' by (auto simp: recorded_def reg_get_adjust)
      have lt: "in_active_sessions i < in_max_sessions i"
        using assms(4) i(1) True by (simp add: instance_saturated_def not_le)
      have "unat (in_active_sessions i) = serving_count h s" using p i(1) by (simp add: capacity_inv_def)
      then show ?thesis
        using i(2) True count [of h] saturating_up [OF lt] lt by (simp add: word_le_nat_alt word_less_nat_alt)
    qed
  qed
  then show ?thesis using core by (simp add: cp_inv_def)
qed

end
