(* ===== verification/Cp_Admission.thy ===== *)
theory Cp_Admission
  imports Cp_Router_Facts
begin

section \<open>Admitting a delegation\<close>

text \<open>
  What \<open>delegate\<close> decides, as one condition, and what it then does to the state: the entry it
  records satisfies the invariant, and a send that fails takes everything back.
\<close>

subsection \<open>The decision\<close>

definition admissible ::
  "cp_config \<Rightarrow> int \<Rightarrow> string \<Rightarrow> string \<Rightarrow> agent_type \<Rightarrow> u64 \<Rightarrow> delegate_params \<Rightarrow> cp_state
     \<Rightarrow> live_instance \<Rightarrow> string list \<Rightarrow> int option \<Rightarrow> u64 \<Rightarrow> (string \<times> u64) list \<Rightarrow> bool" where
  "admissible cfg now ns name ty from_handle params s target chain dl generation adm \<longleftrightarrow>
     bt_get (inflight_of s) (DelegationKey ns (dp_delegation_id params)) = None
     \<and> length (inflight_of s) < cc_max_inflight_delegations cfg
     \<and> (ts_name (dp_target params) \<noteq> None) \<noteq> (ts_labels (dp_target params) \<noteq> None)
     \<and> delegate_parent ns from_handle params (inflight_of s) = Inr (chain, dl)
     \<and> select ns (ts_name (dp_target params)) (ts_labels (dp_target params)) (cs_registry s) = Inr target
     \<and> policy_check
          \<lparr>pi_from_namespace = ns, pi_from_name = name, pi_from_type = ty,
           pi_target_namespace = in_namespace target, pi_target_name = in_name target,
           pi_parent_chain = chain, pi_deadline = dp_deadline params, pi_parent_deadline = dl,
           pi_now = now, pi_max_deadline_secs = cc_max_deadline_secs cfg\<rparr> (policy_for cfg ns) = Inr ()
     \<and> mint ns (ro_admission (cs_router s)) = (Some generation, adm)"

lemma delegate_admissible:
  "admissible cfg now ns name ty from_handle params s target chain dl generation adm \<Longrightarrow>
     delegate wire cfg now ns name ty from_handle params rpc s
       = delegate_admit wire ns name from_handle params rpc chain target generation (set_admission adm s)"
  unfolding admissible_def delegate_def by (auto simp: set_admission_def not_le)

lemma delegate_inadmissible:
  assumes "\<And>target chain dl generation adm.
     \<not> admissible cfg now ns name ty from_handle params s target chain dl generation adm"
  shows "\<exists>e. fst (delegate wire cfg now ns name ty from_handle params rpc s) = DelegateRejected e
     \<and> (snd (delegate wire cfg now ns name ty from_handle params rpc s) = s
        \<or> (\<exists>adm. mint ns (ro_admission (cs_router s)) = (None, adm)
             \<and> snd (delegate wire cfg now ns name ty from_handle params rpc s) = set_admission adm s))"
  using assms
  by (auto simp: delegate_def admissible_def set_admission_def rejected_def select_failure_def
      split: sum.splits option.splits prod.splits select_error.splits) blast+

subsection \<open>The admission\<close>

definition admission_frame ::
  "wire \<Rightarrow> string \<Rightarrow> string \<Rightarrow> delegate_params \<Rightarrow> u64 \<Rightarrow> string list \<Rightarrow> u64 \<Rightarrow> string" where
  "admission_frame wire ns name params rpc chain generation =
     wire (DelegateFrame rpc
       \<lparr>df_delegation_id = dp_delegation_id params, df_admission = generation,
        df_prompt = dp_prompt params, df_deadline = dp_deadline params,
        df_from = logical_id ns name, df_chain = chain @ [logical_id ns name]\<rparr>)"

text \<open>Taking an admission back: the entry, and the slot.\<close>

definition released :: "in_flight \<Rightarrow> cp_state \<Rightarrow> cp_state" where
  "released e s = adjust (if_to_handle e) (- 1) (set_inflight (bt_remove (entry_key e) (inflight_of s)) s)"

lemma delegate_admit_eq:
  "delegate_admit wire ns name from_handle params rpc chain target generation s =
     (let e = admitted_entry ns name from_handle params chain target generation;
          (sent, s3) = send_to target (admission_frame wire ns name params rpc chain generation) (recorded e s)
      in if sent
         then (DelegateAccepted \<lparr>da_delegation_id = dp_delegation_id params, da_admission = generation,
                                 da_assigned_to = instance_logical_id target\<rparr>, s3)
         else (rejected TARGET_DISCONNECTED ''target disconnected or unresponsive during routing'',
               released e s3))"
proof -
  let ?e = "admitted_entry ns name from_handle params chain target generation"
  let ?text = "admission_frame wire ns name params rpc chain generation"
  obtain sent s3 where send: "send_to target ?text (recorded ?e s) = (sent, s3)"
    by (cases "send_to target ?text (recorded ?e s)")
  have "inflight_of s3 = inflight_of (recorded ?e s)"
    using inflight_send [of target ?text "recorded ?e s"] by (simp add: send)
  then have "remove_generation (entry_key ?e) generation (inflight_of s3)
      = (Some ?e, bt_remove (entry_key ?e) (inflight_of s3))"
    by (simp add: remove_generation_def recorded_def) (simp add: admitted_entry_def)
  then show ?thesis
    using send
    by (simp add: delegate_admit_def Let_def recorded_def admitted_entry_def entry_key_def
        admission_frame_def released_def split: bool.split)
qed

lemma parent_chain_shape:
  assumes "delegate_parent ns from_handle params t = Inr (chain, dl)"
  shows "(chain = [] \<and> dl = None \<and> dp_parent_delegation_id params = None)
    \<or> (\<exists>pid p. dp_parent_delegation_id params = Some pid \<and> bt_get t (DelegationKey ns pid) = Some p
         \<and> if_to_handle p = from_handle \<and> dp_parent_admission params = Some (if_generation p)
         \<and> chain = if_chain p \<and> dl = Some (if_deadline p))"
  using assms by (auto simp: delegate_parent_def split: option.splits if_splits)

lemma select_target:
  assumes "reg_inv (cs_registry s)" and "select ns n w (cs_registry s) = Inr target"
  shows "reg_get (cs_registry s) (in_handle target) = Some target" and "in_namespace target = ns"
    and "\<not> instance_saturated target"
  using select_Inr [OF assms(2)] matches_registered [OF assms(1)] by blast+

lemma depth_nat:
  assumes "(of_nat n :: u32) + 1 \<le> d" and "n \<le> unat d" and "d \<noteq> - 1"
  shows "n + 1 \<le> unat d"
proof -
  have "unat d < 2 ^ LENGTH(32)" by (rule unsigned_less)
  then have "n < 2 ^ LENGTH(32)" using assms(2) by linarith
  then have n: "unat (of_nat n :: u32) = n" by (simp add: unat_of_nat)
  have "(of_nat n :: u32) \<noteq> - 1"
  proof
    assume m: "(of_nat n :: u32) = - 1"
    have "- 1 \<le> d" using assms(2) n m by (metis word_le_nat_alt)
    then show False using assms(3) word_order.extremum_unique by blast
  qed
  then have "unat ((of_nat n :: u32) + 1) = n + 1" using unat_plus_one n by metis
  then show ?thesis using assms(1) by (simp add: word_le_nat_alt)
qed

text \<open>The entry of an admission by a registered instance is as the invariant wants it.\<close>

lemma admitted_entry_ok:
  assumes "cp_inv cfg s"
    and "reg_get (cs_registry s) from_handle = Some me" and "in_namespace me = ns" and "in_name me = name"
    and "admissible cfg now ns name ty from_handle params s target chain dl generation adm"
  shows "entry_ok cfg (set_admission adm s)
    (DelegationKey ns (dp_delegation_id params)) (admitted_entry ns name from_handle params chain target generation)"
proof -
  have c: "core_inv cfg s" using assms(1) by (simp add: cp_inv_def)
  then have r: "reg_inv (cs_registry s)" by (simp add: core_inv_def)
  note adm = assms(5) [unfolded admissible_def]
  have me: "instance_logical_id me = logical_id ns name" "unat from_handle \<le> unat (rg_next_handle (cs_registry s))"
    using assms(2-4) r by (auto simp: instance_logical_id_def reg_inv_def)
  have sel: "select ns (ts_name (dp_target params)) (ts_labels (dp_target params)) (cs_registry s) = Inr target"
    using adm by blast
  note target = select_target [OF r sel]
  have th: "unat (in_handle target) \<le> unat (rg_next_handle (cs_registry s))"
    using target(1) r unfolding reg_inv_def by blast
  have pol: "policy_allows \<lparr>pi_from_namespace = ns, pi_from_name = name, pi_from_type = ty,
      pi_target_namespace = in_namespace target, pi_target_name = in_name target,
      pi_parent_chain = chain, pi_deadline = dp_deadline params, pi_parent_deadline = dl,
      pi_now = now, pi_max_deadline_secs = cc_max_deadline_secs cfg\<rparr> (policy_for cfg ns)"
    using adm policy_check_iff by blast
  have cyc: "instance_logical_id target \<notin> set (chain @ [logical_id ns name])"
    using pol target(2) by (simp add: policy_allows_def instance_logical_id_def)
  have par: "delegate_parent ns from_handle params (inflight_of s) = Inr (chain, dl)" using adm by blast
  have ch: "distinct (chain @ [logical_id ns name]) \<and> length chain \<le> unat (np_max_depth (policy_for cfg ns))"
    using parent_chain_shape [OF par]
  proof (elim disjE exE conjE)
    fix pid p
    assume p: "bt_get (inflight_of s) (DelegationKey ns pid) = Some p" "if_to_handle p = from_handle"
      "chain = if_chain p"
    have ok: "entry_ok cfg s (DelegationKey ns pid) p" using c p(1) unfolding core_inv_def by blast
    then have "if_to_logical p = logical_id ns name" "if_namespace p = ns"
      using p(2) assms(2) me(1) unfolding entry_ok_def by (blast | simp)+
    then show ?thesis using ok p(3) unfolding entry_ok_def by simp
  qed simp
  have mx: "np_max_depth (policy_for cfg ns) \<noteq> - 1" using c unfolding core_inv_def by blast
  have "(of_nat (length chain) :: u32) + 1 \<le> np_max_depth (policy_for cfg ns)"
    using pol target(2) by (simp add: policy_allows_def)
  then have depth: "length chain + 1 \<le> unat (np_max_depth (policy_for cfg ns))"
    using depth_nat ch mx by blast
  have mt: "mint ns (ro_admission (cs_router s)) = (Some generation, adm)" using adm by blast
  note gen = mint_counter(2) [OF mt refl]
  show ?thesis
    using me assms(2-4) target th cyc ch depth gen
    by (simp add: entry_ok_def admitted_entry_def)
qed

lemma admitted_recorded_inv:
  assumes "cp_inv cfg s"
    and "reg_get (cs_registry s) from_handle = Some me" and "in_namespace me = ns" and "in_name me = name"
    and "admissible cfg now ns name ty from_handle params s target chain dl generation adm"
  shows "cp_inv cfg (recorded (admitted_entry ns name from_handle params chain target generation) (set_admission adm s))"
proof (rule recorded_inv)
  let ?e = "admitted_entry ns name from_handle params chain target generation"
  have c: "core_inv cfg s" using assms(1) by (simp add: cp_inv_def)
  note adm = assms(5) [unfolded admissible_def]
  have mt: "mint ns (ro_admission (cs_router s)) = (Some generation, adm)" using adm by blast
  show "cp_inv cfg (set_admission adm s)"
    using assms(1) core_inv_admission [OF c mint_counter(1) [OF mt]] by (simp add: cp_inv_def)
  have k: "entry_key ?e = DelegationKey ns (dp_delegation_id params)"
    by (simp add: entry_key_def admitted_entry_def)
  show "bt_get (inflight_of (set_admission adm s)) (entry_key ?e) = None"
    using adm k by simp
  show "entry_ok cfg (set_admission adm s) (entry_key ?e) ?e"
    unfolding k by (rule admitted_entry_ok [OF assms])
  have r: "reg_inv (cs_registry s)" using c by (simp add: core_inv_def)
  have sel: "select ns (ts_name (dp_target params)) (ts_labels (dp_target params)) (cs_registry s) = Inr target"
    using adm by blast
  show "\<not> instance_saturated i" if "reg_get (cs_registry (set_admission adm s)) (if_to_handle ?e) = Some i" for i
    using that select_target [OF r sel] by (simp add: admitted_entry_def)
qed

text \<open>An admission taken back leaves everything but the admission counter and the refused queue.\<close>

lemma released_inv:
  assumes "cp_inv cfg s" and "bt_get (inflight_of s) (entry_key e) = Some e"
  shows "cp_inv cfg (released e s)"
  using release_inv [OF assms] by (simp add: released_def)

lemma delegate_inv:
  assumes "cp_inv cfg s"
    and "reg_get (cs_registry s) from_handle = Some me" and "in_namespace me = ns" and "in_name me = name"
  shows "cp_inv cfg (snd (delegate wire cfg now ns name ty from_handle params rpc s))"
proof (cases "\<exists>target chain dl generation adm.
    admissible cfg now ns name ty from_handle params s target chain dl generation adm")
  case True
  then obtain target chain dl generation adm where
    a: "admissible cfg now ns name ty from_handle params s target chain dl generation adm" by blast
  let ?e = "admitted_entry ns name from_handle params chain target generation"
  let ?s2 = "recorded ?e (set_admission adm s)"
  obtain sent s3 where send: "send_to target (admission_frame wire ns name params rpc chain generation) ?s2 = (sent, s3)"
    by fastforce
  have i3: "cp_inv cfg s3"
    using send_inv [of cfg target "admission_frame wire ns name params rpc chain generation" ?s2]
      admitted_recorded_inv [OF assms a] send by simp
  have "inflight_of s3 = inflight_of ?s2"
    using inflight_send [of target "admission_frame wire ns name params rpc chain generation" ?s2] send by simp
  then have "bt_get (inflight_of s3) (entry_key ?e) = Some ?e" by (simp add: recorded_def)
  then have "cp_inv cfg (released ?e s3)" by (rule released_inv [OF i3])
  then show ?thesis
    using i3 send by (simp add: delegate_admissible [OF a] delegate_admit_eq)
next
  case False
  have c: "core_inv cfg s" using assms(1) by (simp add: cp_inv_def)
  let ?t = "snd (delegate wire cfg now ns name ty from_handle params rpc s)"
  consider "?t = s" | adm where "mint ns (ro_admission (cs_router s)) = (None, adm)" "?t = set_admission adm s"
    using delegate_inadmissible [of cfg now ns name ty from_handle params s wire rpc] False by blast
  then show ?thesis
  proof cases
    case 2
    then show ?thesis
      using assms(1) core_inv_admission [OF c mint_counter(1) [OF 2(1)]] by (simp add: cp_inv_def)
  qed (use assms(1) in simp)
qed

end
