(* ===== verification/Cp_Endings.thy ===== *)
theory Cp_Endings
  imports Cp_Admission
begin

section \<open>Ending delegations\<close>

text \<open>
  Completion, cancellation, the failure of an instance and the deadline sweep: which entries they
  take out, and that each one they take out gives exactly one slot back.
\<close>

subsection \<open>Taking out many\<close>

lemma remove_all_eq:
  "distinct ks \<Longrightarrow> \<forall>k\<in>set ks. bt_get t k \<noteq> None \<Longrightarrow>
     remove_all ks t = (map (\<lambda>k. the (bt_get t k)) ks, filter (\<lambda>e. fst e \<notin> set ks) t)"
proof (induction ks arbitrary: t)
  case (Cons k ks)
  then obtain v where v: "bt_get t k = Some v" by auto
  have "map (\<lambda>j. the (bt_get (bt_remove k t) j)) ks = map (\<lambda>j. the (bt_get t j)) ks"
    using Cons.prems(1) by auto
  moreover have "remove_all ks (bt_remove k t)
      = (map (\<lambda>j. the (bt_get (bt_remove k t) j)) ks, filter (\<lambda>e. fst e \<notin> set ks) (bt_remove k t))"
    by (rule Cons.IH) (use Cons.prems in auto)
  ultimately show ?case
    using v by (simp add: bt_remove_def)
qed simp

lemma extract_where_eq:
  assumes "bt_inv t"
  shows "extract_where P t = (map snd (filter (\<lambda>e. P (snd e)) t), filter (\<lambda>e. \<not> P (snd e)) t)"
proof -
  let ?ks = "map fst (filter (\<lambda>e. P (snd e)) t)"
  have get: "bt_get t (fst e) = Some (snd e)" if "e \<in> set t" for e
    using bt_rows_get [OF assms, of "fst e" "snd e"] that by simp
  have "distinct ?ks" using bt_inv_distinct [OF assms] by (simp add: distinct_map_filter)
  moreover have "\<forall>k\<in>set ?ks. bt_get t k \<noteq> None" using get by auto
  ultimately have "extract_where P t = (map (\<lambda>k. the (bt_get t k)) ?ks, filter (\<lambda>e. fst e \<notin> set ?ks) t)"
    unfolding extract_where_def by (rule remove_all_eq)
  moreover have "map (\<lambda>k. the (bt_get t k)) ?ks = map snd (filter (\<lambda>e. P (snd e)) t)"
    using get by auto
  moreover have "filter (\<lambda>e. fst e \<notin> set ?ks) t = filter (\<lambda>e. \<not> P (snd e)) t"
  proof (rule filter_cong [OF refl])
    fix e assume e: "e \<in> set t"
    have "P (snd e)" if "f \<in> set t" "P (snd f)" "fst e = fst f" for f
      using get [OF e] get [OF that(1)] that(2,3) by simp
    then show "(fst e \<notin> set ?ks) = (\<not> P (snd e))" using e by auto
  qed
  ultimately show ?thesis by simp
qed

text \<open>The state with the entries out and their slots still to be given back.\<close>

lemma taken_out:
  assumes "cp_inv cfg s"
  shows "core_inv cfg (set_inflight (filter (\<lambda>e. \<not> P (snd e)) (inflight_of s)) s)"
    and "capacity_inv (map snd (filter (\<lambda>e. P (snd e)) (inflight_of s)))
           (set_inflight (filter (\<lambda>e. \<not> P (snd e)) (inflight_of s)) s)"
proof -
  have c: "core_inv cfg s" and p: "capacity_inv [] s" using assms by (auto simp: cp_inv_def)
  have b: "bt_inv (inflight_of s)" using c by (simp add: core_inv_def)
  show "core_inv cfg (set_inflight (filter (\<lambda>e. \<not> P (snd e)) (inflight_of s)) s)"
  proof (rule core_inv_same [OF c same_set])
    show "\<forall>k e. bt_get (inflight_of (set_inflight (filter (\<lambda>e. \<not> P (snd e)) (inflight_of s)) s)) k = Some e
        \<longrightarrow> bt_get (inflight_of s) k = Some e"
      using bt_get_filter [OF b, of "\<lambda>e. \<not> P e"] by (auto split: option.splits if_splits)
  qed (use c in \<open>simp_all add: core_inv_def bt_inv_filter\<close>)
  have "length (filter Q (map snd t)) = length (filter Q (map snd (filter (\<lambda>e. P (snd e)) t)))
      + length (filter Q (map snd (filter (\<lambda>e. \<not> P (snd e)) t)))" for Q :: "in_flight \<Rightarrow> bool" and t :: inflight_table
    by (induction t) auto
  moreover have "bt_count Q t = length (filter Q (map snd t))" for Q :: "in_flight \<Rightarrow> bool" and t :: inflight_table
    by (simp add: bt_count_def filter_map o_def)
  ultimately show "capacity_inv (map snd (filter (\<lambda>e. P (snd e)) (inflight_of s)))
           (set_inflight (filter (\<lambda>e. \<not> P (snd e)) (inflight_of s)) s)"
    using p by (simp add: capacity_inv_def serving_count_def add.commute)
qed

subsection \<open>The deadline sweep\<close>

lemma expire_entry_state: "snd (snd (expire_entry wire e rpc s)) = adjust (if_to_handle e) (- 1) s"
  by (simp add: expire_entry_def Let_def split: option.splits prod.splits)

lemma expire_entries_state:
  "snd (snd (expire_entries wire es rpc s)) = fold (\<lambda>e. adjust (if_to_handle e) (- 1)) es s"
proof (induction es arbitrary: rpc s)
  case (Cons e es)
  obtain fs rpc1 s1 where "expire_entry wire e rpc s = (fs, rpc1, s1)" by (cases "expire_entry wire e rpc s")
  moreover from this have "s1 = adjust (if_to_handle e) (- 1) s" using expire_entry_state [of wire e rpc s] by simp
  ultimately show ?case using Cons.IH [of rpc1 s1] by (simp add: case_prod_beta)
qed simp

lemma fold_release_inv:
  "core_inv cfg s \<Longrightarrow> capacity_inv es s \<Longrightarrow> cp_inv cfg (fold (\<lambda>e. adjust (if_to_handle e) (- 1)) es s)"
  by (induction es arbitrary: s) (simp_all add: cp_inv_def core_inv_adjust capacity_release)

lemma sweep_state:
  assumes "bt_inv (inflight_of s)"
  shows "snd (snd (sweep_deadlines wire now rpc s))
    = fold (\<lambda>e. adjust (if_to_handle e) (- 1))
        (map snd (filter (\<lambda>e. if_deadline (snd e) \<le> now) (inflight_of s)))
        (set_inflight (filter (\<lambda>e. \<not> if_deadline (snd e) \<le> now) (inflight_of s)) s)"
  by (simp only: sweep_deadlines_def extract_where_eq [OF assms] prod.case expire_entries_state)

lemma sweep_inv:
  assumes "cp_inv cfg s"
  shows "cp_inv cfg (snd (snd (sweep_deadlines wire now rpc s)))"
proof -
  have b: "bt_inv (inflight_of s)" using assms by (simp add: cp_inv_def core_inv_def)
  show ?thesis
    unfolding sweep_state [OF b] by (rule fold_release_inv) (rule taken_out [OF assms])+
qed

lemma inflight_fold_adjust [simp]:
  "inflight_of (fold (\<lambda>e. adjust (if_to_handle e) d) es s) = inflight_of s"
  by (induction es arbitrary: s) simp_all

subsection \<open>The failure of an instance\<close>

lemma fail_entry_state:
  "snd (snd (fail_entry wire h e rpc s)) = (if if_to_handle e = h then s else adjust (if_to_handle e) (- 1) s)"
  by (simp add: fail_entry_def Let_def split: option.splits)

lemma fail_entries_state:
  "snd (snd (fail_entries wire h es rpc s))
     = fold (\<lambda>e. adjust (if_to_handle e) (- 1)) (filter (\<lambda>e. if_to_handle e \<noteq> h) es) s"
proof (induction es arbitrary: rpc s)
  case (Cons e es)
  obtain fs rpc1 s1 where "fail_entry wire h e rpc s = (fs, rpc1, s1)" by (cases "fail_entry wire h e rpc s")
  moreover from this have "s1 = (if if_to_handle e = h then s else adjust (if_to_handle e) (- 1) s)"
    using fail_entry_state [of wire h e rpc s] by simp
  ultimately show ?case using Cons.IH [of rpc1 s1] by (simp add: case_prod_beta)
qed simp

lemma fail_state:
  assumes "bt_inv (inflight_of s)"
  shows "snd (snd (fail_instance wire h rpc s))
    = fold (\<lambda>e. adjust (if_to_handle e) (- 1))
        (filter (\<lambda>e. if_to_handle e \<noteq> h)
          (map snd (filter (\<lambda>e. if_to_handle (snd e) = h \<or> if_from_handle (snd e) = h) (inflight_of s))))
        (set_inflight (filter (\<lambda>e. \<not> (if_to_handle (snd e) = h \<or> if_from_handle (snd e) = h)) (inflight_of s)) s)"
  by (simp only: fail_instance_def extract_where_eq [OF assms] prod.case fail_entries_state)

text \<open>The slots of an instance that is gone need not be given back.\<close>

lemma capacity_gone:
  assumes "capacity_inv es s" and "reg_get (cs_registry s) h = None"
  shows "capacity_inv (filter (\<lambda>e. if_to_handle e \<noteq> h) es) s"
proof -
  have "filter (\<lambda>e. if_to_handle e = k) (filter (\<lambda>e. if_to_handle e \<noteq> h) es) = filter (\<lambda>e. if_to_handle e = k) es"
    if "k \<noteq> h" for k
    using that by (induction es) auto
  then show ?thesis using assms unfolding capacity_inv_def by (metis option.distinct(1))
qed

lemma fail_inv:
  assumes "cp_inv cfg s" and "reg_get (cs_registry s) h = None"
  shows "cp_inv cfg (snd (snd (fail_instance wire h rpc s)))"
proof -
  have b: "bt_inv (inflight_of s)" using assms by (simp add: cp_inv_def core_inv_def)
  show ?thesis
    unfolding fail_state [OF b]
    by (rule fold_release_inv, rule taken_out [OF assms(1)], rule capacity_gone, rule taken_out [OF assms(1)])
       (simp add: assms(2))
qed

subsection \<open>Completion and cancellation\<close>

lemma commit_state:
  "snd (commit_completion p s) = (if fst (commit_completion p s) = Claimed then released p s else s)"
  by (auto simp: commit_completion_def released_def entry_key_def Let_def split: option.splits if_splits)

lemma commit_claims:
  assumes "fst (commit_completion p s) = Claimed"
  shows "\<exists>e. bt_get (inflight_of s) (entry_key p) = Some e \<and> if_to_handle e = if_to_handle p
    \<and> if_generation e = if_generation p"
  using assms by (auto simp: commit_completion_def entry_key_def Let_def split: option.splits if_splits)

lemma commit_inv:
  assumes "cp_inv cfg s"
  shows "cp_inv cfg (snd (commit_completion p s))"
proof (cases "fst (commit_completion p s) = Claimed")
  case True
  then obtain e where e: "bt_get (inflight_of s) (entry_key p) = Some e" "if_to_handle e = if_to_handle p"
    using commit_claims by blast
  have "cp_inv cfg (adjust (if_to_handle e) (- 1) (set_inflight (bt_remove (entry_key p) (inflight_of s)) s))"
    by (rule release_inv [OF assms e(1)])
  then show ?thesis using True e(2) by (simp add: commit_state released_def)
qed (use assms in \<open>simp add: commit_state\<close>)

lemma complete_deliver_state:
  "cs_registry (snd (complete_deliver wire h params m rpc s)) = cs_registry s
   \<and> cs_router (snd (complete_deliver wire h params m rpc s)) = cs_router s"
proof -
  have "snd (complete_deliver wire h params m rpc s) = s
    \<or> (\<exists>i text. snd (complete_deliver wire h params m rpc s) = snd (send_to i text s))"
    unfolding complete_deliver_def Let_def
    by (auto split: option.split peek.split bool.split prod.split simp: prod_eq_iff)
  then show ?thesis by auto
qed

lemma complete_deliver_inv: "cp_inv cfg (snd (complete_deliver wire h params m rpc s)) = cp_inv cfg s"
  using complete_deliver_state by (intro cp_inv_cong) blast+

lemma complete_inv: "cp_inv cfg s \<Longrightarrow> cp_inv cfg (snd (complete wire h params m rpc s))"
proof -
  assume i: "cp_inv cfg s"
  obtain r s1 where d: "complete_deliver wire h params m rpc s = (r, s1)" by fastforce
  have i1: "cp_inv cfg s1" using complete_deliver_inv [of cfg wire h params m rpc s] d i by simp
  show ?thesis
  proof (cases r)
    case (Inr e)
    have "snd (complete wire h params m rpc s) = snd (commit_completion e s1)"
      by (auto simp: complete_def d Inr split: prod.splits commit_outcome.splits)
    then show ?thesis using commit_inv [OF i1] by simp
  qed (use i1 d in \<open>simp add: complete_def\<close>)
qed

lemma cancel_state:
  "snd (cancel wire h params rpc s) = s \<and> fst (cancel wire h params rpc s) = Inl cancel_refused
   \<or> (\<exists>e ns. bt_get (inflight_of s) (DelegationKey ns (cp_delegation_id params)) = Some e
        \<and> if_from_handle e = h \<and> if_generation e = cp_admission params
        \<and> snd (cancel wire h params rpc s)
            = adjust (if_to_handle e) (- 1)
                (set_inflight (bt_remove (DelegationKey ns (cp_delegation_id params)) (inflight_of s)) s))"
  by (auto simp: cancel_def router_claim_def Let_def split: option.splits)

lemma cancel_inv: "cp_inv cfg s \<Longrightarrow> cp_inv cfg (snd (cancel wire h params rpc s))"
  using cancel_state [of wire h params rpc s] release_inv by metis

end
