(* ===== verification/Cp_Steps.thy ===== *)
theory Cp_Steps
  imports Cp_Endings
begin

section \<open>The control plane as a step relation\<close>

text \<open>
  Every critical section of the registry and the router is a step, in any order: a completion is
  delivered in one step and committed in another, with any steps between them, and the record it
  commits may be as old as one likes. The invariant holds along every such run.
\<close>

subsection \<open>The registry's operations\<close>

definition with_registry :: "registry \<Rightarrow> cp_state \<Rightarrow> cp_state" where
  "with_registry r s = s\<lparr>cs_registry := r\<rparr>"

lemma with_registry_simps [simp]:
  "cs_registry (with_registry r s) = r" "cs_router (with_registry r s) = cs_router s"
  "inflight_of (with_registry r s) = inflight_of s" "counter_of ns (with_registry r s) = counter_of ns s"
  "serving_count h (with_registry r s) = serving_count h s" "cs_queues (with_registry r s) = cs_queues s"
  by (simp_all add: with_registry_def inflight_of_def counter_of_def serving_count_def)

lemma with_registry_same [simp]: "with_registry (cs_registry s) s = s"
  by (simp add: with_registry_def)

lemma heartbeat_inv:
  assumes "cp_inv cfg s"
  shows "cp_inv cfg (with_registry (snd (heartbeat h now (cs_registry s))) s)"
proof -
  let ?s = "with_registry (snd (heartbeat h now (cs_registry s))) s"
  have c: "core_inv cfg s" and p: "capacity_inv [] s" using assms by (auto simp: cp_inv_def)
  have same: "same_for_entries s ?s"
    by (auto simp: same_for_entries_def heartbeat_def reg_get_update instance_logical_id_def)
  have r: "reg_inv (cs_registry ?s)"
    using c by (simp add: core_inv_def heartbeat_def reg_inv_update)
  have core: "core_inv cfg ?s"
    by (rule core_inv_same [OF c same r]) (use c in \<open>simp_all add: core_inv_def\<close>)
  have "capacity_inv [] ?s"
    unfolding capacity_inv_def
  proof (intro allI impI)
    fix k i'
    assume "reg_get (cs_registry ?s) k = Some i'"
    then obtain i where "reg_get (cs_registry s) k = Some i"
        "in_active_sessions i' = in_active_sessions i" "in_max_sessions i' = in_max_sessions i"
      by (auto simp: heartbeat_def reg_get_update split: if_splits)
    then show "unat (in_active_sessions i') = serving_count k ?s + length (filter (\<lambda>e. if_to_handle e = k) [])
        \<and> in_active_sessions i' \<le> in_max_sessions i'"
      using p by (simp add: capacity_inv_def)
  qed
  then show ?thesis using core by (simp add: cp_inv_def)
qed

lemma deregister_inv:
  assumes "cp_inv cfg s"
  shows "cp_inv cfg (with_registry (snd (deregister h (cs_registry s))) s)"
proof -
  let ?s = "with_registry (snd (deregister h (cs_registry s))) s"
  have c: "core_inv cfg s" and p: "capacity_inv [] s" using assms by (auto simp: cp_inv_def)
  have same: "same_for_entries s ?s"
    by (auto simp: same_for_entries_def split: if_splits)
  have core: "core_inv cfg ?s"
    by (rule core_inv_same [OF c same]) (use c in \<open>simp_all add: core_inv_def reg_inv_deregister\<close>)
  have "capacity_inv [] ?s"
    using p by (simp add: capacity_inv_def)
  then show ?thesis using core by (simp add: cp_inv_def)
qed

text \<open>A new instance has no delegation yet, since its handle is ahead of every handle in use.\<close>

lemma register_inv:
  assumes "cp_inv cfg s" and "rg_next_handle (cs_registry s) \<noteq> - 1" and "in_active_sessions i = 0"
  shows "cp_inv cfg (with_registry (snd (register_conn i sd (cs_registry s))) s)"
proof -
  let ?r = "cs_registry s" and ?s = "with_registry (snd (register_conn i sd (cs_registry s))) s"
  let ?h = "rg_next_handle ?r + 1"
  have c: "core_inv cfg s" and p: "capacity_inv [] s" using assms by (auto simp: cp_inv_def)
  have next_h: "unat ?h = unat (rg_next_handle ?r) + 1" by (rule unat_plus_one [OF assms(2)])
  have b: "bt_inv (inflight_of s)" using c by (simp add: core_inv_def)
  have old: "if_to_handle e \<noteq> ?h \<and> if_from_handle e \<noteq> ?h \<and> entry_ok cfg s k e"
    if "bt_get (inflight_of s) k = Some e" for k e
  proof -
    have "entry_ok cfg s k e" using c that unfolding core_inv_def by blast
    then show ?thesis using next_h by (auto simp: entry_ok_def)
  qed
  have ok: "entry_ok cfg ?s k e" if "bt_get (inflight_of s) k = Some e" for k e
    using old [OF that] next_h by (simp add: entry_ok_def)
  have r: "reg_inv ?r" using c by (simp add: core_inv_def)
  have r': "reg_inv (cs_registry ?s)" unfolding with_registry_simps by (rule reg_inv_register [OF r assms(2)])
  have core: "core_inv cfg ?s"
    unfolding core_inv_def with_registry_simps(3)
  proof (intro conjI allI impI)
    show "np_max_depth (policy_for cfg ns) \<noteq> - 1" for ns using c unfolding core_inv_def by blast
    show "reg_inv (cs_registry ?s)" by (rule r')
    show "bt_inv (inflight_of s)" by (rule b)
    show "entry_ok cfg ?s k e" if "bt_get (inflight_of s) k = Some e" for k e by (rule ok [OF that])
  qed
  have zero: "serving_count ?h s = 0"
    unfolding serving_count_def
  proof (rule bt_count_zero)
    fix k e
    assume "(k, e) \<in> set (inflight_of s)"
    then have "bt_get (inflight_of s) k = Some e" by (rule bt_rows_get [OF b, THEN iffD1])
    then show "if_to_handle e \<noteq> ?h" using old by blast
  qed
  have "capacity_inv [] ?s"
    unfolding capacity_inv_def
  proof (intro allI impI)
    fix k i'
    assume i': "reg_get (cs_registry ?s) k = Some i'"
    show "unat (in_active_sessions i') = serving_count k ?s + length (filter (\<lambda>e. if_to_handle e = k) [])
        \<and> in_active_sessions i' \<le> in_max_sessions i'"
    proof (cases "k = ?h")
      case True
      then show ?thesis using i' zero assms(3) by auto
    next
      case False
      then show ?thesis using i' p by (simp add: capacity_inv_def)
    qed
  qed
  then show ?thesis using core by (simp add: cp_inv_def)
qed

subsection \<open>The steps\<close>

definition with_queue :: "nat \<Rightarrow> outbound \<Rightarrow> cp_state \<Rightarrow> cp_state" where
  "with_queue c q s = s\<lparr>cs_queues := (cs_queues s)(c := q)\<rparr>"

lemma with_queue_simps [simp]:
  "cs_registry (with_queue c q s) = cs_registry s" "cs_router (with_queue c q s) = cs_router s"
  "inflight_of (with_queue c q s) = inflight_of s"
  by (simp_all add: with_queue_def inflight_of_def)

inductive cp_step :: "wire \<Rightarrow> cp_config \<Rightarrow> cp_state \<Rightarrow> cp_state \<Rightarrow> bool" for wire cfg where
  st_register:
    "in_active_sessions i = 0 \<Longrightarrow> rg_next_handle (cs_registry s) \<noteq> - 1 \<Longrightarrow>
     cp_step wire cfg s (with_registry (snd (register_conn i sd (cs_registry s))) s)"
| st_heartbeat: "cp_step wire cfg s (with_registry (snd (heartbeat h now (cs_registry s))) s)"
| st_deregister: "cp_step wire cfg s (with_registry (snd (deregister h (cs_registry s))) s)"
| st_delegate:
    "reg_get (cs_registry s) h = Some me \<Longrightarrow>
     cp_step wire cfg s
       (snd (delegate wire cfg now (in_namespace me) (in_name me) (in_agent_type me) h params rpc s))"
| st_deliver: "cp_step wire cfg s (snd (complete_deliver wire h params m rpc s))"
| st_commit: "cp_step wire cfg s (snd (commit_completion p s))"
| st_cancel: "cp_step wire cfg s (snd (cancel wire h cp rpc s))"
| st_fail:
    "reg_get (cs_registry s) h = None \<Longrightarrow> cp_step wire cfg s (snd (snd (fail_instance wire h rpc s)))"
| st_sweep: "cp_step wire cfg s (snd (snd (sweep_deadlines wire now rpc s)))"
| st_queue: "cp_step wire cfg s (with_queue c q s)"

inductive_cases cp_stepE: "cp_step wire cfg s t"

lemma cp_step_inv: "cp_step wire cfg s t \<Longrightarrow> cp_inv cfg s \<Longrightarrow> cp_inv cfg t"
proof (induction rule: cp_step.induct)
  case (st_register i s sd)
  show ?case by (rule register_inv [OF st_register(3) st_register(2) st_register(1)])
next
  case (st_delegate s h me now params rpc)
  show ?case by (rule delegate_inv [OF st_delegate(2) st_delegate(1) refl refl])
next
  case (st_deliver s h params m rpc)
  then show ?case by (simp add: complete_deliver_inv)
next
  case (st_queue s c q)
  have "cp_inv cfg (with_queue c q s) = cp_inv cfg s" by (rule cp_inv_cong) simp_all
  then show ?case using st_queue by blast
qed (simp_all add: heartbeat_inv deregister_inv commit_inv cancel_inv fail_inv sweep_inv)

definition initial_cp :: "nat \<Rightarrow> cp_state" where
  "initial_cp max_bytes =
     \<lparr>cs_registry = new_registry, cs_router = new_router, cs_queues = (\<lambda>_. outbound_channel max_bytes)\<rparr>"

lemma initial_inv:
  assumes "\<forall>ns. np_max_depth (policy_for cfg ns) \<noteq> - 1"
  shows "cp_inv cfg (initial_cp m)"
proof -
  have "reg_get new_registry h = None" for h by (simp add: new_registry_def reg_get_def)
  then show ?thesis
    using assms
    by (simp add: cp_inv_def core_inv_def capacity_inv_def reg_inv_def initial_cp_def inflight_of_def
        new_router_def) (simp add: new_registry_def)
qed

interpretation cp: preserved "cp_step wire cfg" "cp_inv cfg" for wire cfg
  by unfold_locales (rule cp_step_inv)

subsection \<open>Admission tokens along a run\<close>

text \<open>The counter of a namespace never goes back.\<close>

lemma counter_released [simp]: "counter_of ns (released e s) = counter_of ns s"
  by (simp add: released_def)

lemma counter_recorded [simp]: "counter_of ns (recorded e s) = counter_of ns s"
  by (simp add: recorded_def)

lemma counter_fold_adjust [simp]:
  "counter_of ns (fold (\<lambda>e. adjust (if_to_handle e) d) es s) = counter_of ns s"
  by (induction es arbitrary: s) simp_all

lemma counter_send [simp]: "counter_of ns (snd (send_to i text s)) = counter_of ns s"
  by (simp add: counter_of_def)

lemma counter_admit [simp]:
  "counter_of ns' (snd (delegate_admit wire ns name h params rpc chain target g s)) = counter_of ns' s"
proof -
  let ?e = "admitted_entry ns name h params chain target g"
  obtain sent s3 where send: "send_to target (admission_frame wire ns name params rpc chain g) (recorded ?e s) = (sent, s3)"
    by fastforce
  have "counter_of ns' s3 = counter_of ns' s"
    using counter_send [of ns' target "admission_frame wire ns name params rpc chain g" "recorded ?e s"] send by simp
  then show ?thesis using send by (simp add: delegate_admit_eq)
qed

lemma counter_delegate:
  "counter_of ns' s \<le> counter_of ns' (snd (delegate wire cfg now ns name ty h params rpc s))"
proof (cases "\<exists>target chain dl generation adm.
    admissible cfg now ns name ty h params s target chain dl generation adm")
  case True
  then obtain target chain dl generation adm where
    a: "admissible cfg now ns name ty h params s target chain dl generation adm" by blast
  then have "mint ns (ro_admission (cs_router s)) = (Some generation, adm)"
    unfolding admissible_def by blast
  then show ?thesis using mint_counter(1) by (simp add: delegate_admissible [OF a])
next
  case False
  then show ?thesis
    using delegate_inadmissible [of cfg now ns name ty h params s wire rpc] mint_counter(1) by fastforce
qed

lemma cp_step_counter:
  "cp_step wire cfg s t \<Longrightarrow> cp_inv cfg s \<Longrightarrow> counter_of ns s \<le> counter_of ns t"
proof (induction rule: cp_step.induct)
  case (st_delegate s h me now params rpc)
  show ?case by (rule counter_delegate)
next
  case (st_deliver s h params m rpc)
  then show ?case using complete_deliver_state [of wire h params m rpc s] by (simp add: counter_of_def)
next
  case (st_commit s p)
  then show ?case by (simp add: commit_state)
next
  case (st_cancel s h cp rpc)
  then show ?case using cancel_state [of wire h cp rpc s] by auto
next
  case (st_fail s h rpc)
  then have "bt_inv (inflight_of s)" by (simp add: cp_inv_def core_inv_def)
  then show ?case by (simp add: fail_state)
next
  case (st_sweep s now rpc)
  then have "bt_inv (inflight_of s)" by (simp add: cp_inv_def core_inv_def)
  then show ?case by (simp add: sweep_state)
qed (simp_all add: with_queue_def counter_of_def)

lemma cp_run_counter:
  "(cp_step wire cfg)\<^sup>*\<^sup>* s t \<Longrightarrow> cp_inv cfg s \<Longrightarrow> counter_of ns s \<le> counter_of ns t"
proof (induction rule: rtranclp_induct)
  case (step t u)
  have "cp_inv cfg t" using cp.run_inv [OF step.hyps(1) step.prems] .
  then show ?case using cp_step_counter [OF step.hyps(2), of ns] step.IH [OF step.prems] by linarith
qed simp

end
