(* ===== verification/Cp_Server.thy ===== *)
theory Cp_Server
  imports Cp_Steps
begin

section \<open>The server\<close>

text \<open>
  \<^verbatim>\<open>openab-cp/src/server.rs\<close>: the connection quota, the registration of a
  connection, the dispatch of its frames, its teardown and the periodic sweeps. A connection task
  is modelled by the critical sections it runs, and its link (its identity and, once registered,
  its handle). Reading and writing the socket, and the timeouts around them, are left out. JSON
  is a parameter: how a text parses into a message, and a message's parameters into each of the
  parameter types; a JSON value is its text.
\<close>

subsection \<open>Messages\<close>

definition PROTOCOL_VERSION :: u32 where "PROTOCOL_VERSION = 1"

record json_message =
  jm_jsonrpc :: "string option"
  jm_id :: "u64 option"
  jm_method :: "string option"
  jm_params :: "string option"

definition require_request_envelope :: "json_message \<Rightarrow> error_object + u64" where
  "require_request_envelope msg =
     (if jm_jsonrpc msg \<noteq> Some ''2.0''
      then Inl (new_error INVALID_REQUEST ''jsonrpc must be \"2.0\"'')
      else case jm_id msg of
             Some i \<Rightarrow> Inr i
           | None \<Rightarrow> Inl (new_error INVALID_REQUEST ''cp/* methods are requests and require an id''))"

record register_params =
  rp_protocol_version :: u32
  rp_namespace :: string
  rp_name :: string
  rp_agent_type :: agent_type
  rp_instance_id :: string
  rp_labels :: labels
  rp_max_delegated_sessions :: u32

record register_ack =
  ra_protocol_version :: u32
  ra_heartbeat_interval_secs :: u64
  ra_lease_expiry_secs :: u64
  ra_effective_max_delegated_sessions :: u32

record heartbeat_params =
  hp_instance_id :: string
  hp_active_delegated_sessions :: u32

text \<open>The replies, before they are printed.\<close>

datatype reply =
    OkReply u64
  | AckReply u64 delegate_ack
  | RegisteredReply u64 register_ack
  | ErrorReply u64 error_object

record json =
  js_message :: "string \<Rightarrow> string + json_message"
  js_register :: "string \<Rightarrow> register_params option"
  js_heartbeat :: "string \<Rightarrow> heartbeat_params option"
  js_delegate :: "string \<Rightarrow> delegate_params option"
  js_result :: "string \<Rightarrow> delegate_result option"
  js_cancel :: "string \<Rightarrow> cancel_params option"
  js_wire :: wire

subsection \<open>State\<close>

record app_state =
  ap_cp :: cp_state
  ap_rpc_id :: u64
  ap_conns :: "(string \<times> u32) list"
  ap_signals :: signals

definition new_app :: "cp_config \<Rightarrow> app_state" where
  "new_app cfg = \<lparr>ap_cp = initial_cp (cc_max_outbound_queue_bytes cfg), ap_rpc_id = 1, ap_conns = [],
                  ap_signals = (\<lambda>_. None)\<rparr>"

definition next_rpc_id :: "app_state \<Rightarrow> u64 \<times> app_state" where
  "next_rpc_id a = (ap_rpc_id a, a\<lparr>ap_rpc_id := ap_rpc_id a + 1\<rparr>)"

definition identity_key :: "bound_identity \<Rightarrow> string" where
  "identity_key identity = logical_id (bi_namespace identity) (bi_name identity)"

definition try_acquire_conn :: "cp_config \<Rightarrow> bound_identity \<Rightarrow> app_state \<Rightarrow> bool \<times> app_state" where
  "try_acquire_conn cfg identity a =
     (let key = identity_key identity;
          n = (case bt_get (ap_conns a) key of Some n \<Rightarrow> n | None \<Rightarrow> 0)
      in if cc_max_connections_per_identity cfg \<le> n
         then (False, a\<lparr>ap_conns := bt_insert key n (ap_conns a)\<rparr>)
         else (True, a\<lparr>ap_conns := bt_insert key (n + 1) (ap_conns a)\<rparr>))"

definition conn_count :: "string \<Rightarrow> app_state \<Rightarrow> u32" where
  "conn_count key a = (case bt_get (ap_conns a) key of Some n \<Rightarrow> n | None \<Rightarrow> 0)"

text \<open>\<^verbatim>\<open>Drop for ConnPermit\<close>.\<close>

definition drop_permit :: "string \<Rightarrow> app_state \<Rightarrow> app_state" where
  "drop_permit key a =
     (case bt_get (ap_conns a) key of
        None \<Rightarrow> a
      | Some n \<Rightarrow>
          (let m = (if n = 0 then 0 else n - 1)
           in if m = 0 then a\<lparr>ap_conns := bt_remove key (ap_conns a)\<rparr>
              else a\<lparr>ap_conns := bt_insert key m (ap_conns a)\<rparr>))"

definition REASON_LEASE_EXPIRED :: string where "REASON_LEASE_EXPIRED = ''lease expired''"
definition REASON_BACKPRESSURE :: string where "REASON_BACKPRESSURE = ''outbound queue overflow''"

definition set_cp :: "cp_state \<Rightarrow> app_state \<Rightarrow> app_state" where
  "set_cp s a = a\<lparr>ap_cp := s\<rparr>"

text \<open>\<^verbatim>\<open>state.registry.signal_shutdown\<close>.\<close>

definition app_signal :: "u64 \<Rightarrow> string \<Rightarrow> app_state \<Rightarrow> app_state" where
  "app_signal handle reason a =
     a\<lparr>ap_signals := snd (signal_shutdown handle reason (cs_registry (ap_cp a)) (ap_signals a))\<rparr>"

text \<open>\<^verbatim>\<open>for (inst, frame) in .. { let _ = inst.tx.try_send(frame); }\<close>\<close>

fun send_frames :: "(live_instance \<times> string) list \<Rightarrow> cp_state \<Rightarrow> cp_state" where
  "send_frames [] s = s"
| "send_frames ((i, text) # rest) s = send_frames rest (snd (send_to i text s))"

subsection \<open>The HTTP upgrade\<close>

datatype upgrade = Unauthorized | QuotaExceeded string | Upgraded bound_identity

definition ws_handler :: "cp_config \<Rightarrow> string option \<Rightarrow> app_state \<Rightarrow> upgrade \<times> app_state" where
  "ws_handler cfg authorization a =
     (case Option.bind (Option.bind authorization (strip_prefix ''Bearer '')) (identity_for_key cfg) of
        None \<Rightarrow> (Unauthorized, a)
      | Some identity \<Rightarrow>
          (case try_acquire_conn cfg identity a of
             (False, a1) \<Rightarrow>
               (QuotaExceeded (''identity is at its connection quota (max_connections_per_identity = ''
                  @ word_str (cc_max_connections_per_identity cfg) @ '')'' @ [CHR 0x0A]), a1)
           | (True, a1) \<Rightarrow> (Upgraded identity, a1)))"

subsection \<open>Registration\<close>

definition parse_register :: "json \<Rightarrow> bound_identity \<Rightarrow> string \<Rightarrow> (u64 \<times> error_object) + (register_params \<times> u64)" where
  "parse_register js identity text =
     (case js_message js text of
        Inl e \<Rightarrow> Inl (0, new_error INVALID_PARAMS (''malformed frame: '' @ e))
      | Inr msg \<Rightarrow>
          (case require_request_envelope msg of
             Inl err \<Rightarrow> Inl (case jm_id msg of Some i \<Rightarrow> i | None \<Rightarrow> 0, err)
           | Inr rpc_id \<Rightarrow>
               if jm_method msg \<noteq> Some ''cp/register''
               then Inl (rpc_id, new_error NOT_REGISTERED ''first frame must be cp/register'')
               else case Option.bind (jm_params msg) (js_register js) of
                      None \<Rightarrow> Inl (rpc_id, new_error INVALID_PARAMS ''invalid cp/register params'')
                    | Some p \<Rightarrow>
                        if rp_protocol_version p \<noteq> PROTOCOL_VERSION
                        then Inl (rpc_id, new_error UNSUPPORTED_VERSION
                               (''protocol version '' @ word_str (rp_protocol_version p)
                                @ '' unsupported (CP speaks '' @ word_str PROTOCOL_VERSION @ '')''))
                        else if rp_namespace p \<noteq> bi_namespace identity \<or> rp_name p \<noteq> bi_name identity
                                \<or> rp_agent_type p \<noteq> bi_agent_type identity
                        then Inl (rpc_id, new_error IDENTITY_MISMATCH
                               (''registration claims '' @ rp_namespace p @ ''/'' @ rp_name p @ '' (''
                                @ agent_type_str (rp_agent_type p)
                                @ '') do not match the identity bound to this key''))
                        else if trim (rp_instance_id p) = []
                        then Inl (rpc_id, new_error INVALID_PARAMS ''instance_id must be non-empty'')
                        else Inr (p, rpc_id)))"

text \<open>
  The registration of a connection whose first text frame has come: the reply, and the handle
  when it is registered. The connection is the name of its queue and of its signal.
\<close>

definition register_connection ::
  "json \<Rightarrow> cp_config \<Rightarrow> bound_identity \<Rightarrow> nat \<Rightarrow> int \<Rightarrow> string \<Rightarrow> app_state \<Rightarrow> reply \<times> u64 option \<times> app_state" where
  "register_connection js cfg identity conn now text a =
     (case parse_register js identity text of
        Inl (i, err) \<Rightarrow> (ErrorReply i err, None, a)
      | Inr (p, rpc_id) \<Rightarrow>
          (let s = ap_cp a;
               effective_max = effective_max_sessions cfg identity (rp_max_delegated_sessions p);
               inst = \<lparr>in_handle = 0, in_namespace = bi_namespace identity, in_name = bi_name identity,
                       in_agent_type = bi_agent_type identity, in_instance_id = rp_instance_id p,
                       in_labels = rp_labels p, in_max_sessions = effective_max, in_active_sessions = 0,
                       in_registered_at = now, in_last_heartbeat = now, in_tx = conn\<rparr>;
               s1 = with_queue conn (outbound_channel (cc_max_outbound_queue_bytes cfg)) s
           in case register_conn inst conn (cs_registry s1) of
                (handle, r) \<Rightarrow>
                  (RegisteredReply rpc_id
                     \<lparr>ra_protocol_version = PROTOCOL_VERSION,
                      ra_heartbeat_interval_secs = cc_heartbeat_interval_secs cfg,
                      ra_lease_expiry_secs = cc_lease_expiry_secs cfg,
                      ra_effective_max_delegated_sessions = effective_max\<rparr>,
                   Some handle, set_cp (with_registry r s1) a)))"

subsection \<open>Frames\<close>

definition invalid_params :: "u64 \<Rightarrow> reply" where
  "invalid_params rpc_id = ErrorReply rpc_id (new_error INVALID_PARAMS ''invalid params'')"

definition handle_delegate ::
  "json \<Rightarrow> cp_config \<Rightarrow> int \<Rightarrow> u64 \<Rightarrow> live_instance \<Rightarrow> delegate_params \<Rightarrow> u64 \<Rightarrow> app_state \<Rightarrow> reply \<times> app_state" where
  "handle_delegate js cfg utc handle me p rpc_id a =
     (if cc_max_prompt_bytes cfg < length (dp_prompt p)
      then (ErrorReply rpc_id (new_error INVALID_PARAMS
              (''prompt exceeds max_prompt_bytes ('' @ dec (cc_max_prompt_bytes cfg) @ '')'')), a)
      else case next_rpc_id a of
             (rpc, a1) \<Rightarrow>
               (case delegate (js_wire js) cfg utc (in_namespace me) (in_name me) (in_agent_type me) handle p rpc
                       (ap_cp a1) of
                  (DelegateAccepted ack, s) \<Rightarrow> (AckReply rpc_id ack, set_cp s a1)
                | (DelegateRejected err, s) \<Rightarrow> (ErrorReply rpc_id err, set_cp s a1)))"

definition handle_result ::
  "json \<Rightarrow> cp_config \<Rightarrow> u64 \<Rightarrow> delegate_result \<Rightarrow> u64 \<Rightarrow> app_state \<Rightarrow> reply \<times> app_state" where
  "handle_result js cfg handle p rpc_id a =
     (case next_rpc_id a of
        (rpc, a1) \<Rightarrow>
          (case complete (js_wire js) handle p (cc_max_result_bytes cfg) rpc (ap_cp a1) of
             (InitiatorStalled initiator, s) \<Rightarrow>
               (ErrorReply rpc_id (new_error TARGET_DISCONNECTED
                  ''initiator cannot receive the result; the delegation will be cancelled''),
                app_signal initiator REASON_BACKPRESSURE (set_cp s a1))
           | (DeliveredResult _, s) \<Rightarrow> (OkReply rpc_id, set_cp s a1)
           | (DroppedResult, s) \<Rightarrow> (OkReply rpc_id, set_cp s a1)))"

definition handle_cancel ::
  "json \<Rightarrow> u64 \<Rightarrow> cancel_params \<Rightarrow> u64 \<Rightarrow> app_state \<Rightarrow> reply \<times> app_state" where
  "handle_cancel js handle p rpc_id a =
     (case next_rpc_id a of
        (rpc, a1) \<Rightarrow>
          (case cancel (js_wire js) handle p rpc (ap_cp a1) of
             (Inl err, s) \<Rightarrow> (ErrorReply rpc_id err, set_cp s a1)
           | (Inr None, s) \<Rightarrow> (OkReply rpc_id, set_cp s a1)
           | (Inr (Some (target, text)), s) \<Rightarrow>
               (OkReply rpc_id, set_cp (snd (send_to target text s)) a1)))"

definition handle_method ::
  "json \<Rightarrow> cp_config \<Rightarrow> int \<Rightarrow> int \<Rightarrow> u64 \<Rightarrow> live_instance \<Rightarrow> string \<Rightarrow> string option \<Rightarrow> u64 \<Rightarrow> app_state
     \<Rightarrow> reply \<times> app_state" where
  "handle_method js cfg now utc handle me meth params rpc_id a =
     (if meth = ''cp/heartbeat'' then
        (case Option.bind params (js_heartbeat js) of
           None \<Rightarrow> (invalid_params rpc_id, a)
         | Some _ \<Rightarrow>
             (OkReply rpc_id,
              set_cp (with_registry (snd (heartbeat handle now (cs_registry (ap_cp a)))) (ap_cp a)) a))
      else if meth = ''cp/delegate'' then
        (case Option.bind params (js_delegate js) of
           None \<Rightarrow> (invalid_params rpc_id, a)
         | Some p \<Rightarrow> handle_delegate js cfg utc handle me p rpc_id a)
      else if meth = ''cp/delegate_result'' then
        (case Option.bind params (js_result js) of
           None \<Rightarrow> (invalid_params rpc_id, a)
         | Some p \<Rightarrow> handle_result js cfg handle p rpc_id a)
      else if meth = ''cp/cancel'' then
        (case Option.bind params (js_cancel js) of
           None \<Rightarrow> (invalid_params rpc_id, a)
         | Some p \<Rightarrow> handle_cancel js handle p rpc_id a)
      else (ErrorReply rpc_id (new_error METHOD_NOT_FOUND (''unknown method '' @ meth)), a))"

definition handle_frame ::
  "json \<Rightarrow> cp_config \<Rightarrow> int \<Rightarrow> int \<Rightarrow> u64 \<Rightarrow> string \<Rightarrow> app_state \<Rightarrow> reply option \<times> app_state" where
  "handle_frame js cfg now utc handle text a =
     (case js_message js text of
        Inl e \<Rightarrow> (Some (ErrorReply 0 (new_error INVALID_PARAMS (''malformed frame: '' @ e))), a)
      | Inr msg \<Rightarrow>
          (case jm_method msg of
             None \<Rightarrow> (None, a)
           | Some meth \<Rightarrow>
               (case require_request_envelope msg of
                  Inl err \<Rightarrow> (Some (ErrorReply (case jm_id msg of Some i \<Rightarrow> i | None \<Rightarrow> 0) err), a)
                | Inr rpc_id \<Rightarrow>
                    (case reg_get (cs_registry (ap_cp a)) handle of
                       None \<Rightarrow>
                         (Some (ErrorReply rpc_id (new_error NOT_REGISTERED
                            ''connection is no longer registered (lease expired); reconnect and re-register'')), a)
                     | Some me \<Rightarrow>
                         (case handle_method js cfg now utc handle me meth (jm_params msg) rpc_id a of
                            (reply, a1) \<Rightarrow> (Some reply, a1))))))"

subsection \<open>Teardown and sweeps\<close>

definition teardown :: "json \<Rightarrow> u64 \<Rightarrow> app_state \<Rightarrow> app_state" where
  "teardown js handle a =
     (let s = with_registry (snd (deregister handle (cs_registry (ap_cp a)))) (ap_cp a)
      in case fail_instance (js_wire js) handle (ap_rpc_id a) s of
           (frames, rpc, s1) \<Rightarrow> a\<lparr>ap_rpc_id := rpc, ap_cp := send_frames frames s1\<rparr>)"

fun sweep_handles :: "json \<Rightarrow> u64 list \<Rightarrow> app_state \<Rightarrow> app_state" where
  "sweep_handles js [] a = a"
| "sweep_handles js (h # hs) a =
     sweep_handles js hs (teardown js h (app_signal h REASON_LEASE_EXPIRED a))"

definition sweep_leases :: "json \<Rightarrow> int \<Rightarrow> int \<Rightarrow> app_state \<Rightarrow> app_state" where
  "sweep_leases js lease now a = sweep_handles js (expired lease now (cs_registry (ap_cp a))) a"

text \<open>One tick of \<^verbatim>\<open>run_sweeper\<close>.\<close>

definition sweeper_tick :: "json \<Rightarrow> cp_config \<Rightarrow> int \<Rightarrow> int \<Rightarrow> app_state \<Rightarrow> app_state" where
  "sweeper_tick js cfg now utc a =
     (let a1 = sweep_leases js (uint (cc_lease_expiry_secs cfg) * 1000000000) now a
      in case sweep_deadlines (js_wire js) utc (ap_rpc_id a1) (ap_cp a1) of
           (frames, rpc, s) \<Rightarrow> a1\<lparr>ap_rpc_id := rpc, ap_cp := send_frames frames s\<rparr>)"

end
