(* ===== verification/Cp_Links.thy ===== *)
theory Cp_Links
  imports Cp_Server
begin

section \<open>Connections\<close>

text \<open>
  The server with its connection tasks: a link is one open socket, from the upgrade that took its
  permit to the end of its task, when the guards run in the order Rust drops them (teardown of the
  registration, the receiving half of the queue, the permit). The steps are the server's, in any
  order over any number of links; the invariant ties permits, links, registrations and queues
  together.
\<close>

subsection \<open>State and operations\<close>

record link =
  ln_identity :: bound_identity
  ln_handle :: "u64 option"

record server =
  sv_app :: app_state
  sv_links :: "(nat \<times> link) list"
  sv_next :: nat

definition new_server :: "cp_config \<Rightarrow> server" where
  "new_server cfg = \<lparr>sv_app = new_app cfg, sv_links = [], sv_next = 0\<rparr>"

definition sv_accept :: "cp_config \<Rightarrow> string option \<Rightarrow> server \<Rightarrow> server" where
  "sv_accept cfg authorization sv =
     (case ws_handler cfg authorization (sv_app sv) of
        (Upgraded identity, a) \<Rightarrow>
          \<lparr>sv_app = a, sv_links = bt_insert (sv_next sv) \<lparr>ln_identity = identity, ln_handle = None\<rparr> (sv_links sv),
           sv_next = sv_next sv + 1\<rparr>
      | (Unauthorized, a) \<Rightarrow> sv\<lparr>sv_app := a\<rparr>
      | (QuotaExceeded _, a) \<Rightarrow> sv\<lparr>sv_app := a\<rparr>)"

text \<open>The end of a task.\<close>

definition close_receiver :: "nat \<Rightarrow> cp_state \<Rightarrow> cp_state" where
  "close_receiver c s = with_queue c (drop_receiver (cs_queues s c)) s"

definition sv_close :: "json \<Rightarrow> nat \<Rightarrow> server \<Rightarrow> server" where
  "sv_close js c sv =
     (case bt_get (sv_links sv) c of
        None \<Rightarrow> sv
      | Some l \<Rightarrow>
          (let a1 = (case ln_handle l of
                       Some h \<Rightarrow> (let a = teardown js h (sv_app sv) in set_cp (close_receiver c (ap_cp a)) a)
                     | None \<Rightarrow> sv_app sv)
           in sv\<lparr>sv_app := drop_permit (identity_key (ln_identity l)) a1, sv_links := bt_remove c (sv_links sv)\<rparr>))"

text \<open>The first frame of a link; a refused registration ends the task.\<close>

definition sv_register :: "json \<Rightarrow> cp_config \<Rightarrow> nat \<Rightarrow> int \<Rightarrow> string \<Rightarrow> server \<Rightarrow> reply option \<times> server" where
  "sv_register js cfg c now text sv =
     (case bt_get (sv_links sv) c of
        None \<Rightarrow> (None, sv)
      | Some l \<Rightarrow>
          if ln_handle l \<noteq> None then (None, sv)
          else (case register_connection js cfg (ln_identity l) c now text (sv_app sv) of
                  (reply, Some h, a) \<Rightarrow>
                    (Some reply,
                     sv\<lparr>sv_app := a, sv_links := bt_insert c (l\<lparr>ln_handle := Some h\<rparr>) (sv_links sv)\<rparr>)
                | (reply, None, a) \<Rightarrow> (Some reply, sv_close js c (sv\<lparr>sv_app := a\<rparr>))))"

definition sv_frame :: "json \<Rightarrow> cp_config \<Rightarrow> nat \<Rightarrow> int \<Rightarrow> int \<Rightarrow> string \<Rightarrow> server \<Rightarrow> reply option \<times> server" where
  "sv_frame js cfg c now utc text sv =
     (case bt_get (sv_links sv) c of
        None \<Rightarrow> (None, sv)
      | Some l \<Rightarrow>
          (case ln_handle l of
             None \<Rightarrow> (None, sv)
           | Some h \<Rightarrow>
               (case handle_frame js cfg now utc h text (sv_app sv) of (reply, a) \<Rightarrow> (reply, sv\<lparr>sv_app := a\<rparr>))))"

definition sv_tick :: "json \<Rightarrow> cp_config \<Rightarrow> int \<Rightarrow> int \<Rightarrow> server \<Rightarrow> server" where
  "sv_tick js cfg now utc sv = sv\<lparr>sv_app := sweeper_tick js cfg now utc (sv_app sv)\<rparr>"

text \<open>The task takes the next frame off its queue.\<close>

definition sv_write :: "nat \<Rightarrow> server \<Rightarrow> string option \<times> server" where
  "sv_write c sv =
     (let s = ap_cp (sv_app sv)
      in case try_recv (cs_queues s c) of
           (text, q) \<Rightarrow> (text, sv\<lparr>sv_app := set_cp (with_queue c q s) (sv_app sv)\<rparr>))"

inductive sv_step :: "json \<Rightarrow> cp_config \<Rightarrow> server \<Rightarrow> server \<Rightarrow> bool" for js cfg where
  sv_accepts: "sv_step js cfg sv (sv_accept cfg authorization sv)"
| sv_registers:
    "rg_next_handle (cs_registry (ap_cp (sv_app sv))) \<noteq> - 1 \<Longrightarrow>
     sv_step js cfg sv (snd (sv_register js cfg c now text sv))"
| sv_frames: "sv_step js cfg sv (snd (sv_frame js cfg c now utc text sv))"
| sv_closes: "sv_step js cfg sv (sv_close js c sv)"
| sv_ticks: "sv_step js cfg sv (sv_tick js cfg now utc sv)"
| sv_writes: "sv_step js cfg sv (snd (sv_write c sv))"

inductive_cases sv_stepE: "sv_step js cfg sv sv'"

subsection \<open>What the handlers keep\<close>

text \<open>The part of an instance that its registration fixes.\<close>

definition face :: "live_instance \<Rightarrow> string \<times> string \<times> agent_type \<times> u32 \<times> nat" where
  "face i = (in_namespace i, in_name i, in_agent_type i, in_max_sessions i, in_tx i)"

definition queues_ok :: "cp_config \<Rightarrow> cp_state \<Rightarrow> bool" where
  "queues_ok cfg s \<longleftrightarrow> (\<forall>c. queue_inv (cs_queues s c) \<and> ob_max (cs_queues s c) = cc_max_outbound_queue_bytes cfg)"

text \<open>No registration appears or changes its face, and the queues stay sound.\<close>

definition tame :: "cp_config \<Rightarrow> cp_state \<Rightarrow> cp_state \<Rightarrow> bool" where
  "tame cfg s s' \<longleftrightarrow>
     rg_next_handle (cs_registry s') = rg_next_handle (cs_registry s)
     \<and> (\<forall>h i'. reg_get (cs_registry s') h = Some i' \<longrightarrow>
          (\<exists>i. reg_get (cs_registry s) h = Some i \<and> face i' = face i))
     \<and> (queues_ok cfg s \<longrightarrow> queues_ok cfg s')"

lemma tame_refl [simp]: "tame cfg s s"
  by (simp add: tame_def)

lemma tame_trans: "tame cfg s t \<Longrightarrow> tame cfg t u \<Longrightarrow> tame cfg s u"
  unfolding tame_def by (metis (no_types))

lemma tame_adjust [simp]: "tame cfg s (adjust h d s)"
  by (auto simp: tame_def reg_get_adjust face_def queues_ok_def) (simp_all add: adjust_def)

lemma tame_set_inflight [simp]: "tame cfg s (set_inflight t s)"
  by (simp add: tame_def queues_ok_def set_inflight_def)

lemma tame_set_admission [simp]: "tame cfg s (set_admission adm s)"
  by (simp add: tame_def queues_ok_def)

lemma tame_with_queue:
  "(queues_ok cfg s \<Longrightarrow> queue_inv q \<and> ob_max q = cc_max_outbound_queue_bytes cfg) \<Longrightarrow> tame cfg s (with_queue c q s)"
  by (auto simp: tame_def queues_ok_def with_queue_def)

lemma try_send_max: "ob_max (snd (try_send text q)) = ob_max q"
  by (auto simp: try_send_def budget_reserve_def budget_release_def Let_def)

lemma tame_send [simp]: "tame cfg s (snd (send_to i text s))"
proof -
  have "snd (send_to i text s) = with_queue (in_tx i) (snd (try_send text (cs_queues s (in_tx i)))) s"
    by (auto simp: send_to_def with_queue_def split: prod.splits sum.splits)
  moreover have "tame cfg s (with_queue (in_tx i) (snd (try_send text (cs_queues s (in_tx i)))) s)"
    by (rule tame_with_queue) (auto simp: queues_ok_def try_send_queue try_send_max)
  ultimately show ?thesis by simp
qed

lemma tame_fold_adjust [simp]: "tame cfg s (fold (\<lambda>e. adjust (if_to_handle e) d) es s)"
proof (induction es arbitrary: s)
  case (Cons e es)
  show ?case
    using tame_trans [OF tame_adjust Cons.IH] by simp
qed simp

lemma tame_send_frames [simp]: "tame cfg s (send_frames fs s)"
proof (induction fs s rule: send_frames.induct)
  case (2 i msg rest s)
  then show ?case using tame_trans [OF tame_send] by simp
qed simp

lemma send_frames_inv [simp]: "cp_inv cfg (send_frames fs s) = cp_inv cfg s"
  by (induction fs s rule: send_frames.induct) (simp_all add: send_inv)

lemma tame_released [simp]: "tame cfg s (released e s)"
  unfolding released_def using tame_trans [OF tame_set_inflight tame_adjust] .

lemma tame_recorded [simp]: "tame cfg s (recorded e s)"
  unfolding recorded_def using tame_trans [OF tame_adjust tame_set_inflight] .

lemma tame_delegate [simp]: "tame cfg s (snd (delegate wire cfg' now ns name ty h params rpc s))"
proof (cases "\<exists>target chain dl generation adm.
    admissible cfg' now ns name ty h params s target chain dl generation adm")
  case True
  then obtain target chain dl generation adm where
    a: "admissible cfg' now ns name ty h params s target chain dl generation adm" by blast
  let ?e = "admitted_entry ns name h params chain target generation"
  let ?s2 = "recorded ?e (set_admission adm s)"
  obtain sent s3 where send: "send_to target (admission_frame wire ns name params rpc chain generation) ?s2 = (sent, s3)"
    by fastforce
  have "tame cfg ?s2 s3" using tame_send [of cfg ?s2 target] send by (metis snd_conv)
  then have "tame cfg s s3" using tame_trans tame_recorded tame_set_admission by metis
  moreover from this have "tame cfg s (released ?e s3)" using tame_trans tame_released by metis
  ultimately show ?thesis using send by (simp add: delegate_admissible [OF a] delegate_admit_eq)
next
  case False
  then show ?thesis
    using delegate_inadmissible [of cfg' now ns name ty h params s wire rpc] tame_refl tame_set_admission
    by metis
qed

lemma tame_complete_deliver [simp]: "tame cfg s (snd (complete_deliver wire h params m rpc s))"
proof -
  have "snd (complete_deliver wire h params m rpc s) = s
    \<or> (\<exists>i text. snd (complete_deliver wire h params m rpc s) = snd (send_to i text s))"
    unfolding complete_deliver_def Let_def
    by (auto split: option.split peek.split bool.split prod.split simp: prod_eq_iff)
  then show ?thesis using tame_send tame_refl by metis
qed

lemma tame_commit [simp]: "tame cfg s (snd (commit_completion p s))"
  by (simp add: commit_state)

lemma tame_complete [simp]: "tame cfg s (snd (complete wire h params m rpc s))"
proof -
  obtain r s1 where d: "complete_deliver wire h params m rpc s = (r, s1)" by fastforce
  have t1: "tame cfg s s1" using tame_complete_deliver [of cfg s wire h params m rpc] d by simp
  show ?thesis
  proof (cases r)
    case (Inr e)
    have "snd (complete wire h params m rpc s) = snd (commit_completion e s1)"
      by (auto simp: complete_def d Inr split: prod.splits commit_outcome.splits)
    then show ?thesis using tame_trans [OF t1 tame_commit] by simp
  qed (use t1 d in \<open>simp add: complete_def\<close>)
qed

lemma tame_cancel [simp]: "tame cfg s (snd (cancel wire h params rpc s))"
proof -
  have "tame cfg s (adjust k d (set_inflight t s))" for k d t
    using tame_trans [OF tame_set_inflight tame_adjust] .
  then show ?thesis using cancel_state [of wire h params rpc s] by auto
qed

lemma tame_heartbeat [simp]: "tame cfg s (with_registry (snd (heartbeat h now (cs_registry s))) s)"
  by (auto simp: tame_def heartbeat_def reg_get_update face_def queues_ok_def)

lemma tame_deregister [simp]: "tame cfg s (with_registry (snd (deregister h (cs_registry s))) s)"
  by (auto simp: tame_def queues_ok_def split: if_splits)

lemma tame_fail [simp]:
  assumes "bt_inv (inflight_of s)"
  shows "tame cfg s (snd (snd (fail_instance wire h rpc s)))"
  unfolding fail_state [OF assms] using tame_trans [OF tame_set_inflight tame_fold_adjust] .

lemma tame_sweep [simp]:
  assumes "bt_inv (inflight_of s)"
  shows "tame cfg s (snd (snd (sweep_deadlines wire now rpc s)))"
  unfolding sweep_state [OF assms] using tame_trans [OF tame_set_inflight tame_fold_adjust] .

text \<open>The same for the application: connection counts untouched, tame, the invariant kept.\<close>

definition serves :: "cp_config \<Rightarrow> app_state \<Rightarrow> app_state \<Rightarrow> bool" where
  "serves cfg a a' \<longleftrightarrow>
     ap_conns a' = ap_conns a \<and> tame cfg (ap_cp a) (ap_cp a') \<and> (cp_inv cfg (ap_cp a) \<longrightarrow> cp_inv cfg (ap_cp a'))"

lemma serves_refl [simp]: "serves cfg a a"
  by (simp add: serves_def)

lemma serves_trans: "serves cfg a b \<Longrightarrow> serves cfg b c \<Longrightarrow> serves cfg a c"
  unfolding serves_def using tame_trans by metis

lemma serves_signal [simp]: "serves cfg a (app_signal h reason a)"
  by (simp add: serves_def app_signal_def)

lemma serves_set_cp:
  "tame cfg (ap_cp a) s \<Longrightarrow> (cp_inv cfg (ap_cp a) \<Longrightarrow> cp_inv cfg s) \<Longrightarrow> serves cfg a (set_cp s a)"
  by (simp add: serves_def set_cp_def)

lemma serves_next_rpc: "next_rpc_id a = (rpc, a1) \<Longrightarrow> serves cfg a a1 \<and> ap_cp a1 = ap_cp a"
  by (auto simp: next_rpc_id_def serves_def)

end
