(* ===== verification/Cp_Links_Facts.thy ===== *)
theory Cp_Links_Facts
  imports Cp_Links
begin

section \<open>The server's invariant\<close>

text \<open>
  That the handlers serve in the sense of \<open>serves\<close>, and that every step of the server keeps the
  permits equal to the open links, every registration owned by its link with the identity and the
  clamp of the configuration, and every queue within its bounds.
\<close>

subsection \<open>The handlers\<close>

lemma serves_delegate:
  assumes "reg_get (cs_registry (ap_cp a)) h = Some me"
  shows "serves cfg a (snd (handle_delegate js cfg utc h me p rpc_id a))"
proof -
  let ?d = "delegate (js_wire js) cfg utc (in_namespace me) (in_name me) (in_agent_type me) h p (ap_rpc_id a) (ap_cp a)"
  have i: "cp_inv cfg (ap_cp a) \<Longrightarrow> cp_inv cfg (snd ?d)" by (rule delegate_inv [OF _ assms refl refl])
  have t: "tame cfg (ap_cp a) (snd ?d)" by simp
  show ?thesis
    using i t
    by (auto simp: handle_delegate_def next_rpc_id_def serves_def set_cp_def
        split: prod.split delegate_outcome.split simp del: tame_delegate)
qed

lemma serves_result: "serves cfg a (snd (handle_result js cfg h p rpc_id a))"
proof -
  let ?c = "complete (js_wire js) h p (cc_max_result_bytes cfg) (ap_rpc_id a) (ap_cp a)"
  have i: "cp_inv cfg (ap_cp a) \<Longrightarrow> cp_inv cfg (snd ?c)" by (rule complete_inv)
  have t: "tame cfg (ap_cp a) (snd ?c)" by simp
  show ?thesis
    using i t
    by (auto simp: handle_result_def next_rpc_id_def serves_def set_cp_def app_signal_def
        split: prod.split complete_outcome.split simp del: tame_complete)
qed

lemma serves_cancel: "serves cfg a (snd (handle_cancel js h p rpc_id a))"
proof -
  let ?c = "cancel (js_wire js) h p (ap_rpc_id a) (ap_cp a)"
  have i: "cp_inv cfg (ap_cp a) \<Longrightarrow> cp_inv cfg (snd ?c)" by (rule cancel_inv)
  have t: "tame cfg (ap_cp a) (snd ?c)" by simp
  have u: "tame cfg (ap_cp a) (snd (send_to x y (snd ?c)))" for x y
    by (rule tame_trans [OF t tame_send])
  show ?thesis
    using i t u
    by (auto simp: handle_cancel_def next_rpc_id_def serves_def set_cp_def send_inv
        split: prod.split sum.split option.split simp del: tame_cancel)
qed

lemma serves_method:
  assumes "reg_get (cs_registry (ap_cp a)) h = Some me"
  shows "serves cfg a (snd (handle_method js cfg now utc h me meth params rpc_id a))"
proof -
  have hb: "serves cfg a (set_cp (with_registry (snd (heartbeat h now (cs_registry (ap_cp a)))) (ap_cp a)) a)"
    by (rule serves_set_cp) (simp_all add: heartbeat_inv)
  show ?thesis
    unfolding handle_method_def
    using hb serves_delegate [OF assms] serves_result serves_cancel
    by (simp split: option.split)
qed

lemma serves_frame: "serves cfg a (snd (handle_frame js cfg now utc h text a))"
  using serves_method
  by (auto simp: handle_frame_def split: sum.split option.split prod.split) (metis snd_conv)

lemma serves_teardown: "cp_inv cfg (ap_cp a) \<Longrightarrow> serves cfg a (teardown js h a)"
proof -
  assume i: "cp_inv cfg (ap_cp a)"
  let ?s = "with_registry (snd (deregister h (cs_registry (ap_cp a)))) (ap_cp a)"
  have i1: "cp_inv cfg ?s" by (rule deregister_inv [OF i])
  then have b: "bt_inv (inflight_of ?s)" by (simp add: cp_inv_def core_inv_def)
  obtain fs rpc s1 where f: "fail_instance (js_wire js) h (ap_rpc_id a) ?s = (fs, rpc, s1)"
    by (cases "fail_instance (js_wire js) h (ap_rpc_id a) ?s")
  have i2: "cp_inv cfg s1" using fail_inv [OF i1, of h "js_wire js" "ap_rpc_id a"] f by simp
  have "tame cfg ?s s1" using tame_fail [OF b, of cfg "js_wire js" h "ap_rpc_id a"] f by simp
  then have "tame cfg (ap_cp a) (send_frames fs s1)"
    using tame_trans tame_deregister tame_send_frames by metis
  then show ?thesis using i2 f by (simp add: teardown_def serves_def)
qed

lemma teardown_gone:
  assumes "cp_inv cfg (ap_cp a)"
  shows "reg_get (cs_registry (ap_cp (teardown js h a))) h = None"
proof -
  let ?s = "with_registry (snd (deregister h (cs_registry (ap_cp a)))) (ap_cp a)"
  have "bt_inv (inflight_of ?s)" using deregister_inv [OF assms] by (simp add: cp_inv_def core_inv_def)
  then have t: "tame cfg ?s (snd (snd (fail_instance (js_wire js) h (ap_rpc_id a) ?s)))" by simp
  obtain fs rpc s1 where f: "fail_instance (js_wire js) h (ap_rpc_id a) ?s = (fs, rpc, s1)"
    by (cases "fail_instance (js_wire js) h (ap_rpc_id a) ?s")
  have "tame cfg ?s (send_frames fs s1)" using tame_trans [OF t] f by simp
  moreover have "reg_get (cs_registry ?s) h = None" by simp
  ultimately have "reg_get (cs_registry (send_frames fs s1)) h = None"
    unfolding tame_def by (metis option.distinct(1) option.exhaust)
  then show ?thesis using f by (simp add: teardown_def)
qed

lemma serves_sweep_handles: "cp_inv cfg (ap_cp a) \<Longrightarrow> serves cfg a (sweep_handles js hs a)"
proof (induction hs arbitrary: a)
  case (Cons h hs)
  let ?a = "teardown js h (app_signal h REASON_LEASE_EXPIRED a)"
  have "cp_inv cfg (ap_cp (app_signal h REASON_LEASE_EXPIRED a))"
    using Cons.prems by (simp add: app_signal_def)
  then have "serves cfg a ?a" using serves_trans [OF serves_signal serves_teardown] by blast
  moreover from this have "serves cfg ?a (sweep_handles js hs ?a)"
    using Cons by (simp add: serves_def)
  ultimately show ?case by (simp add: serves_trans)
qed simp

lemma serves_tick:
  assumes "cp_inv cfg (ap_cp a)"
  shows "serves cfg a (sweeper_tick js cfg now utc a)"
proof -
  let ?a = "sweep_leases js (uint (cc_lease_expiry_secs cfg) * 1000000000) now a"
  have s1: "serves cfg a ?a" unfolding sweep_leases_def by (rule serves_sweep_handles [OF assms])
  then have i1: "cp_inv cfg (ap_cp ?a)" using assms by (simp add: serves_def)
  then have b: "bt_inv (inflight_of (ap_cp ?a))" by (simp add: cp_inv_def core_inv_def)
  obtain fs rpc s where f: "sweep_deadlines (js_wire js) utc (ap_rpc_id ?a) (ap_cp ?a) = (fs, rpc, s)"
    by (cases "sweep_deadlines (js_wire js) utc (ap_rpc_id ?a) (ap_cp ?a)")
  have i2: "cp_inv cfg s" using sweep_inv [OF i1, of "js_wire js" utc "ap_rpc_id ?a"] f by simp
  have "tame cfg (ap_cp ?a) s" using tame_sweep [OF b, of cfg "js_wire js" utc "ap_rpc_id ?a"] f by simp
  then have "serves cfg ?a (?a\<lparr>ap_rpc_id := rpc, ap_cp := send_frames fs s\<rparr>)"
    using i2 tame_trans [OF _ tame_send_frames] by (simp add: serves_def)
  then show ?thesis using serves_trans [OF s1] f by (simp add: sweeper_tick_def Let_def)
qed

subsection \<open>Permits\<close>

definition link_key :: "link \<Rightarrow> string" where
  "link_key l = identity_key (ln_identity l)"

definition conns_ok :: "cp_config \<Rightarrow> server \<Rightarrow> bool" where
  "conns_ok cfg sv \<longleftrightarrow>
     (\<forall>k. unat (conn_count k (sv_app sv)) = bt_count (\<lambda>l. link_key l = k) (sv_links sv)
        \<and> conn_count k (sv_app sv) \<le> cc_max_connections_per_identity cfg)"

lemma conn_count_acquire:
  assumes "try_acquire_conn cfg identity a = (b, a')"
  shows "ap_cp a' = ap_cp a"
    and "b \<Longrightarrow> conn_count k a' = (if k = identity_key identity then conn_count k a + 1 else conn_count k a)"
    and "b \<Longrightarrow> conn_count (identity_key identity) a < cc_max_connections_per_identity cfg"
    and "\<not> b \<Longrightarrow> conn_count k a' = conn_count k a"
  using assms
  by (auto simp: try_acquire_conn_def conn_count_def Let_def not_le split: if_splits option.splits)

lemma conn_count_drop:
  "conn_count k (drop_permit key a)
     = (if k = key \<and> conn_count k a \<noteq> 0 then conn_count k a - 1 else conn_count k a)"
  by (auto simp: drop_permit_def conn_count_def Let_def split: option.splits)

lemma drop_permit_cp [simp]: "ap_cp (drop_permit key a) = ap_cp a"
  by (simp add: drop_permit_def Let_def split: option.split)

lemma ws_handler_Upgraded:
  "ws_handler cfg authorization a = (Upgraded identity, a') \<Longrightarrow> try_acquire_conn cfg identity a = (True, a')"
  by (auto simp: ws_handler_def split: option.splits prod.splits bool.splits)

lemma ws_handler_refused:
  assumes "ws_handler cfg authorization a = (r, a')" and "\<And>i. r \<noteq> Upgraded i"
  shows "ap_cp a' = ap_cp a \<and> conn_count k a' = conn_count k a"
  using assms conn_count_acquire
  by (auto simp: ws_handler_def split: option.splits prod.splits bool.splits)

subsection \<open>Links\<close>

text \<open>A registered instance and the link that owns it.\<close>

definition owns :: "cp_config \<Rightarrow> nat \<Rightarrow> link \<Rightarrow> u64 \<Rightarrow> live_instance \<Rightarrow> bool" where
  "owns cfg c l h i \<longleftrightarrow>
     in_tx i = c \<and> ln_handle l = Some h
     \<and> in_namespace i = bi_namespace (ln_identity l) \<and> in_name i = bi_name (ln_identity l)
     \<and> in_agent_type i = bi_agent_type (ln_identity l)
     \<and> in_max_sessions i \<le> (case bi_max_sessions_cap (ln_identity l) of
                               Some cap \<Rightarrow> cap | None \<Rightarrow> cc_default_max_delegated_sessions_cap cfg)"

definition links_ok :: "cp_config \<Rightarrow> server \<Rightarrow> bool" where
  "links_ok cfg sv \<longleftrightarrow>
     bt_inv (sv_links sv) \<and> (\<forall>c l. bt_get (sv_links sv) c = Some l \<longrightarrow> c < sv_next sv)
     \<and> (\<forall>h i. reg_get (cs_registry (ap_cp (sv_app sv))) h = Some i \<longrightarrow>
          (\<exists>l. bt_get (sv_links sv) (in_tx i) = Some l \<and> owns cfg (in_tx i) l h i))"

lemma links_owner:
  assumes "links_ok cfg sv" and "reg_get (cs_registry (ap_cp (sv_app sv))) h = Some i"
  obtains l where "bt_get (sv_links sv) (in_tx i) = Some l" and "owns cfg (in_tx i) l h i"
  using assms unfolding links_ok_def by blast

lemma links_next: "links_ok cfg sv \<Longrightarrow> bt_get (sv_links sv) c = Some l \<Longrightarrow> c < sv_next sv"
  unfolding links_ok_def by blast

definition sv_inv :: "cp_config \<Rightarrow> server \<Rightarrow> bool" where
  "sv_inv cfg sv \<longleftrightarrow>
     cp_inv cfg (ap_cp (sv_app sv)) \<and> queues_ok cfg (ap_cp (sv_app sv)) \<and> conns_ok cfg sv \<and> links_ok cfg sv"

lemma owns_face: "face i' = face i \<Longrightarrow> owns cfg (in_tx i') l h i' = owns cfg (in_tx i) l h i"
  by (simp add: owns_def face_def)

lemma face_tx: "face i' = face i \<Longrightarrow> in_tx i' = in_tx i"
  by (simp add: face_def)

lemma serves_conn_count: "serves cfg a a' \<Longrightarrow> conn_count k a' = conn_count k a"
  by (simp add: serves_def conn_count_def)

lemma sv_inv_serves:
  assumes "sv_inv cfg sv" and "serves cfg (sv_app sv) a"
  shows "sv_inv cfg (sv\<lparr>sv_app := a\<rparr>)"
proof -
  have t: "tame cfg (ap_cp (sv_app sv)) (ap_cp a)" using assms(2) by (simp add: serves_def)
  have "cp_inv cfg (ap_cp a)" using assms by (simp add: serves_def sv_inv_def)
  moreover have "queues_ok cfg (ap_cp a)" using assms(1) t by (simp add: tame_def sv_inv_def)
  moreover have "conns_ok cfg (sv\<lparr>sv_app := a\<rparr>)"
    using assms serves_conn_count [OF assms(2)] by (simp add: sv_inv_def conns_ok_def)
  moreover have "links_ok cfg (sv\<lparr>sv_app := a\<rparr>)"
    unfolding links_ok_def
  proof (intro conjI allI impI)
    show "bt_inv (sv_links (sv\<lparr>sv_app := a\<rparr>))" using assms(1) by (simp add: sv_inv_def links_ok_def)
    show "c < sv_next (sv\<lparr>sv_app := a\<rparr>)" if "bt_get (sv_links (sv\<lparr>sv_app := a\<rparr>)) c = Some l" for c l
      using assms(1) that by (simp add: sv_inv_def links_ok_def)
    fix h i'
    assume "reg_get (cs_registry (ap_cp (sv_app (sv\<lparr>sv_app := a\<rparr>)))) h = Some i'"
    then obtain i where i: "reg_get (cs_registry (ap_cp (sv_app sv))) h = Some i" "face i' = face i"
      using t unfolding tame_def by auto
    then obtain l where "bt_get (sv_links sv) (in_tx i) = Some l" "owns cfg (in_tx i) l h i"
      using assms(1) unfolding sv_inv_def links_ok_def by blast
    then show "\<exists>l. bt_get (sv_links (sv\<lparr>sv_app := a\<rparr>)) (in_tx i') = Some l \<and> owns cfg (in_tx i') l h i'"
      using owns_face [OF i(2), of cfg l h] face_tx [OF i(2)] by auto
  qed
  ultimately show ?thesis by (simp add: sv_inv_def)
qed

end
