(* ===== verification/Cp_Links_Steps.thy ===== *)
theory Cp_Links_Steps
  imports Cp_Links_Facts
begin

section \<open>The server keeps its invariant\<close>

text \<open>
  Each kind of step in turn, the interpretation of the step relation, and what the invariant
  means for counting: an identity never has more registered instances than open links, nor more
  links than its quota.
\<close>

lemma bt_count_put_same:
  assumes "bt_inv t" and "bt_get t k = Some v" and "P v = P v'"
  shows "bt_count P (bt_insert k v' t) = bt_count P t"
proof -
  have "bt_get (bt_insert k v' t) = bt_get (bt_insert k v' (bt_remove k t))" by (simp add: fun_eq_iff)
  then have "tree.load P (bt_insert k v' t) = tree.load P (bt_insert k v' (bt_remove k t))"
    by (simp add: tree.load_def)
  then have "bt_count P (bt_insert k v' t) = bt_count P (bt_insert k v' (bt_remove k t))"
    using assms(1) by (simp add: bt_count_load bt_inv_insert bt_inv_remove)
  also have "\<dots> = bt_count P (bt_remove k t) + (if P v' then 1 else 0)"
    by (rule bt_count_insert) (simp_all add: assms(1) bt_inv_remove)
  also have "\<dots> = bt_count P t" using bt_count_remove [OF assms(1,2), of P] assms(3) by simp
  finally show ?thesis .
qed

subsection \<open>Opening\<close>

lemma accept_upgraded:
  assumes "sv_inv cfg sv" and "try_acquire_conn cfg identity (sv_app sv) = (True, a)"
  shows "sv_inv cfg \<lparr>sv_app = a,
           sv_links = bt_insert (sv_next sv) \<lparr>ln_identity = identity, ln_handle = None\<rparr> (sv_links sv),
           sv_next = sv_next sv + 1\<rparr>"
    (is "sv_inv cfg ?sv")
proof -
  let ?l = "\<lparr>ln_identity = identity, ln_handle = None\<rparr>"
  have lk: "links_ok cfg sv" and cn: "conns_ok cfg sv" using assms(1) by (simp_all add: sv_inv_def)
  have b: "bt_inv (sv_links sv)" using lk by (simp add: links_ok_def)
  have fresh: "bt_get (sv_links sv) (sv_next sv) = None"
    using lk unfolding links_ok_def by (metis less_irrefl not_None_eq)
  note acq = conn_count_acquire [OF assms(2)]
  have cp: "ap_cp a = ap_cp (sv_app sv)" by (rule acq(1))
  have "conns_ok cfg ?sv"
    unfolding conns_ok_def
  proof
    fix k
    have lim: "conn_count (identity_key identity) (sv_app sv) < cc_max_connections_per_identity cfg"
      using acq(3) by simp
    have old: "unat (conn_count k (sv_app sv)) = bt_count (\<lambda>l. link_key l = k) (sv_links sv)"
        "conn_count k (sv_app sv) \<le> cc_max_connections_per_identity cfg"
      using cn by (simp_all add: conns_ok_def)
    show "unat (conn_count k (sv_app ?sv)) = bt_count (\<lambda>l. link_key l = k) (sv_links ?sv)
        \<and> conn_count k (sv_app ?sv) \<le> cc_max_connections_per_identity cfg"
    proof (cases "k = identity_key identity")
      case False
      then show ?thesis using old acq(2) bt_count_insert [OF b fresh] by (simp add: link_key_def)
    next
      case True
      have "conn_count k (sv_app sv) \<noteq> - 1" using lim True word_not_simps(3) by metis
      then have u: "unat (conn_count k (sv_app sv) + 1) = unat (conn_count k (sv_app sv)) + 1"
        by (rule unat_plus_one)
      have "conn_count k (sv_app sv) + 1 \<le> cc_max_connections_per_identity cfg"
        using lim True u by (simp add: word_le_nat_alt word_less_nat_alt)
      then show ?thesis
        using True old acq(2) bt_count_insert [OF b fresh] u by (simp add: link_key_def)
    qed
  qed
  moreover have "links_ok cfg ?sv"
    unfolding links_ok_def
  proof (intro conjI allI impI)
    show "bt_inv (sv_links ?sv)" by (simp add: b bt_inv_insert)
    show "c < sv_next ?sv" if "bt_get (sv_links ?sv) c = Some l" for c l
      using that lk unfolding links_ok_def by (fastforce split: if_splits)
    fix h i
    assume "reg_get (cs_registry (ap_cp (sv_app ?sv))) h = Some i"
    then obtain l where l: "bt_get (sv_links sv) (in_tx i) = Some l" "owns cfg (in_tx i) l h i"
      using links_owner [OF lk] cp by auto
    then have "in_tx i \<noteq> sv_next sv" using fresh by auto
    then show "\<exists>l. bt_get (sv_links ?sv) (in_tx i) = Some l \<and> owns cfg (in_tx i) l h i" using l by simp
  qed
  ultimately show ?thesis using assms(1) cp by (simp add: sv_inv_def)
qed

lemma sv_inv_same_app:
  assumes "sv_inv cfg sv" and "ap_cp a = ap_cp (sv_app sv)" and "\<And>k. conn_count k a = conn_count k (sv_app sv)"
  shows "sv_inv cfg (sv\<lparr>sv_app := a\<rparr>)"
  using assms by (simp add: sv_inv_def conns_ok_def links_ok_def)

lemma accept_inv:
  assumes "sv_inv cfg sv"
  shows "sv_inv cfg (sv_accept cfg authorization sv)"
proof -
  obtain r a where w: "ws_handler cfg authorization (sv_app sv) = (r, a)" by fastforce
  show ?thesis
  proof (cases r)
    case (Upgraded identity)
    then show ?thesis
      using accept_upgraded [OF assms ws_handler_Upgraded] w by (simp add: sv_accept_def)
  next
    case Unauthorized
    then have "sv_inv cfg (sv\<lparr>sv_app := a\<rparr>)"
      using ws_handler_refused [OF w] by (intro sv_inv_same_app [OF assms]) simp_all
    then show ?thesis using w Unauthorized by (simp add: sv_accept_def)
  next
    case (QuotaExceeded m)
    then have "sv_inv cfg (sv\<lparr>sv_app := a\<rparr>)"
      using ws_handler_refused [OF w] by (intro sv_inv_same_app [OF assms]) simp_all
    then show ?thesis using w QuotaExceeded by (simp add: sv_accept_def)
  qed
qed

subsection \<open>Closing\<close>

text \<open>A link whose registration is gone, or that never had one, can go with its permit.\<close>

lemma drop_link_inv:
  assumes "sv_inv cfg sv" and "bt_get (sv_links sv) c = Some l"
    and "\<And>h. ln_handle l = Some h \<Longrightarrow> reg_get (cs_registry (ap_cp (sv_app sv))) h = None"
  shows "sv_inv cfg (sv\<lparr>sv_app := drop_permit (identity_key (ln_identity l)) (sv_app sv),
                       sv_links := bt_remove c (sv_links sv)\<rparr>)"
    (is "sv_inv cfg ?sv")
proof -
  have lk: "links_ok cfg sv" and cn: "conns_ok cfg sv" using assms(1) by (simp_all add: sv_inv_def)
  have b: "bt_inv (sv_links sv)" using lk by (simp add: links_ok_def)
  have "conns_ok cfg ?sv"
    unfolding conns_ok_def
  proof
    fix k
    have old: "unat (conn_count k (sv_app sv)) = bt_count (\<lambda>l. link_key l = k) (sv_links sv)"
        "conn_count k (sv_app sv) \<le> cc_max_connections_per_identity cfg"
      using cn by (simp_all add: conns_ok_def)
    have rm: "bt_count (\<lambda>l. link_key l = k) (sv_links sv)
        = bt_count (\<lambda>l. link_key l = k) (bt_remove c (sv_links sv)) + (if link_key l = k then 1 else 0)"
      by (rule bt_count_remove [OF b assms(2)])
    show "unat (conn_count k (sv_app ?sv)) = bt_count (\<lambda>l. link_key l = k) (sv_links ?sv)
        \<and> conn_count k (sv_app ?sv) \<le> cc_max_connections_per_identity cfg"
    proof (cases "k = link_key l")
      case False
      then show ?thesis using old rm by (simp add: conn_count_drop link_key_def)
    next
      case True
      then have pos: "0 < unat (conn_count k (sv_app sv))" using old rm by simp
      then have "conn_count k (sv_app sv) \<noteq> 0" by auto
      moreover from this have "unat (conn_count k (sv_app sv) - 1) = unat (conn_count k (sv_app sv)) - 1"
        by (rule unat_minus_one)
      ultimately show ?thesis
        using True old rm by (simp add: conn_count_drop link_key_def word_le_nat_alt)
    qed
  qed
  moreover have "links_ok cfg ?sv"
    unfolding links_ok_def
  proof (intro conjI allI impI)
    show "bt_inv (sv_links ?sv)" by (simp add: b bt_inv_remove)
    show "d < sv_next ?sv" if "bt_get (sv_links ?sv) d = Some m" for d m
      using that lk unfolding links_ok_def by (fastforce split: if_splits)
    fix h i
    assume i: "reg_get (cs_registry (ap_cp (sv_app ?sv))) h = Some i"
    then have "reg_get (cs_registry (ap_cp (sv_app sv))) h = Some i" by simp
    then obtain m where m: "bt_get (sv_links sv) (in_tx i) = Some m" "owns cfg (in_tx i) m h i"
      by (rule links_owner [OF lk])
    have "in_tx i \<noteq> c"
    proof
      assume "in_tx i = c"
      then have "ln_handle l = Some h" using m assms(2) by (simp add: owns_def)
      then show False using assms(3) i by simp
    qed
    then show "\<exists>l. bt_get (sv_links ?sv) (in_tx i) = Some l \<and> owns cfg (in_tx i) l h i" using m by simp
  qed
  ultimately show ?thesis using assms(1) by (simp add: sv_inv_def)
qed

lemma drop_receiver_keeps:
  "queue_inv q \<Longrightarrow> queue_inv (drop_receiver q)" "queue_inv q \<Longrightarrow> ob_max (drop_receiver q) = ob_max q"
  by (simp_all add: drop_receiver_frees) (simp add: queue_inv_def)

lemma channel_ok: "queue_inv (outbound_channel n)" "ob_max (outbound_channel n) = n"
  by (simp_all add: queue_inv_def outbound_channel_def)

lemma serves_close_receiver: "serves cfg a (set_cp (close_receiver c (ap_cp a)) a)"
proof (rule serves_set_cp)
  show "tame cfg (ap_cp a) (close_receiver c (ap_cp a))"
    unfolding close_receiver_def
    by (rule tame_with_queue) (simp add: queues_ok_def drop_receiver_keeps)
  show "cp_inv cfg (ap_cp a) \<Longrightarrow> cp_inv cfg (close_receiver c (ap_cp a))"
  proof -
    have "cp_inv cfg (close_receiver c (ap_cp a)) = cp_inv cfg (ap_cp a)"
      by (rule cp_inv_cong) (simp_all add: close_receiver_def)
    then show "cp_inv cfg (ap_cp a) \<Longrightarrow> cp_inv cfg (close_receiver c (ap_cp a))" by blast
  qed
qed

lemma close_inv:
  assumes "sv_inv cfg sv"
  shows "sv_inv cfg (sv_close js c sv)"
proof (cases "bt_get (sv_links sv) c")
  case None
  then show ?thesis using assms by (simp add: sv_close_def)
next
  case (Some l)
  show ?thesis
  proof (cases "ln_handle l")
    case None
    then show ?thesis using drop_link_inv [OF assms Some] Some by (simp add: sv_close_def)
  next
    case h: (Some h)
    let ?a = "teardown js h (sv_app sv)"
    let ?b = "set_cp (close_receiver c (ap_cp ?a)) ?a"
    have cp: "cp_inv cfg (ap_cp (sv_app sv))" using assms by (simp add: sv_inv_def)
    have "serves cfg (sv_app sv) ?b" using serves_trans [OF serves_teardown [OF cp] serves_close_receiver] .
    then have i: "sv_inv cfg (sv\<lparr>sv_app := ?b\<rparr>)" by (rule sv_inv_serves [OF assms])
    have gone: "reg_get (cs_registry (ap_cp ?b)) h = None"
      using teardown_gone [OF cp, of js h] by (simp add: set_cp_def close_receiver_def)
    then show ?thesis
      using drop_link_inv [OF i, of c l] Some h by (simp add: sv_close_def Let_def)
  qed
qed

subsection \<open>Registering\<close>

lemma register_connection_cases:
  assumes "register_connection js cfg identity c now text a = (reply, r, a')"
  shows "(r = None \<and> a' = a)
    \<or> (\<exists>i. r = Some (rg_next_handle (cs_registry (ap_cp a)) + 1)
         \<and> in_active_sessions i = 0
         \<and> owns cfg c (\<lparr>ln_identity = identity, ln_handle = Some h\<rparr>) h i
         \<and> a' = set_cp (with_registry (snd (register_conn i c (cs_registry (ap_cp a))))
                     (with_queue c (outbound_channel (cc_max_outbound_queue_bytes cfg)) (ap_cp a))) a)"
proof (cases "parse_register js identity text")
  case (Inl e)
  then show ?thesis using assms by (cases e) (simp add: register_connection_def)
next
  case (Inr pr)
  obtain p rpc where p: "pr = (p, rpc)" by fastforce
  let ?i = "\<lparr>in_handle = 0, in_namespace = bi_namespace identity, in_name = bi_name identity,
     in_agent_type = bi_agent_type identity, in_instance_id = rp_instance_id p, in_labels = rp_labels p,
     in_max_sessions = effective_max_sessions cfg identity (rp_max_delegated_sessions p),
     in_active_sessions = 0, in_registered_at = now, in_last_heartbeat = now, in_tx = c\<rparr>"
  have "owns cfg c \<lparr>ln_identity = identity, ln_handle = Some h\<rparr> h ?i"
    by (simp add: owns_def effective_max_sessions_def)
  moreover have "r = Some (rg_next_handle (cs_registry (ap_cp a)) + 1)
     \<and> a' = set_cp (with_registry (snd (register_conn ?i c (cs_registry (ap_cp a))))
              (with_queue c (outbound_channel (cc_max_outbound_queue_bytes cfg)) (ap_cp a))) a"
    using assms Inr p by (auto simp: register_connection_def Let_def register_conn_def)
  ultimately show ?thesis by fastforce
qed

lemma registered_inv:
  assumes "sv_inv cfg sv" and "bt_get (sv_links sv) c = Some l" and "ln_handle l = None"
    and "rg_next_handle (cs_registry (ap_cp (sv_app sv))) \<noteq> - 1" and "in_active_sessions i = 0"
    and "\<And>h. owns cfg c \<lparr>ln_identity = ln_identity l, ln_handle = Some h\<rparr> h i"
  defines "r \<equiv> cs_registry (ap_cp (sv_app sv))"
  defines "h \<equiv> rg_next_handle r + 1"
  defines "s \<equiv> with_registry (snd (register_conn i c r))
                 (with_queue c (outbound_channel (cc_max_outbound_queue_bytes cfg)) (ap_cp (sv_app sv)))"
  shows "sv_inv cfg (sv\<lparr>sv_app := set_cp s (sv_app sv),
                       sv_links := bt_insert c (l\<lparr>ln_handle := Some h\<rparr>) (sv_links sv)\<rparr>)"
    (is "sv_inv cfg ?sv")
proof -
  have lk: "links_ok cfg sv" and cn: "conns_ok cfg sv" and q: "queues_ok cfg (ap_cp (sv_app sv))"
    and cp: "cp_inv cfg (ap_cp (sv_app sv))"
    using assms(1) by (simp_all add: sv_inv_def)
  have b: "bt_inv (sv_links sv)" using lk by (simp add: links_ok_def)
  let ?s0 = "with_queue c (outbound_channel (cc_max_outbound_queue_bytes cfg)) (ap_cp (sv_app sv))"
  have "cp_inv cfg ?s0 = cp_inv cfg (ap_cp (sv_app sv))" by (rule cp_inv_cong) simp_all
  then have c0: "cp_inv cfg ?s0" using cp by simp
  have cs: "cp_inv cfg s"
    using register_inv [OF c0, of i c] assms(4,5) by (simp add: s_def r_def)
  have qs: "queues_ok cfg s"
    using q by (simp add: queues_ok_def s_def with_queue_def channel_ok)
  have cnt: "conns_ok cfg ?sv"
    using cn bt_count_put_same [OF b assms(2)]
    by (simp add: conns_ok_def conn_count_def set_cp_def link_key_def)
  have "links_ok cfg ?sv"
    unfolding links_ok_def
  proof (intro conjI allI impI)
    show "bt_inv (sv_links ?sv)" by (simp add: b bt_inv_insert)
    show "d < sv_next ?sv" if "bt_get (sv_links ?sv) d = Some m" for d m
      using that lk assms(2) unfolding links_ok_def by (fastforce split: if_splits)
    fix k j
    assume "reg_get (cs_registry (ap_cp (sv_app ?sv))) k = Some j"
    then have j: "reg_get (snd (register_conn i c r)) k = Some j" by (simp add: set_cp_def s_def)
    show "\<exists>l. bt_get (sv_links ?sv) (in_tx j) = Some l \<and> owns cfg (in_tx j) l k j"
    proof (cases "k = h")
      case True
      then have "j = i\<lparr>in_handle := h\<rparr>" using j by (simp add: h_def)
      then show ?thesis using assms(6) [of h] True by (simp add: owns_def)
    next
      case False
      then have "reg_get r k = Some j" using j by (simp add: h_def)
      then obtain m where m: "bt_get (sv_links sv) (in_tx j) = Some m" "owns cfg (in_tx j) m k j"
        unfolding r_def by (rule links_owner [OF lk])
      then have "in_tx j \<noteq> c" using assms(2,3) by (auto simp: owns_def)
      then show ?thesis using m by simp
    qed
  qed
  then show ?thesis using cs qs cnt by (simp add: sv_inv_def set_cp_def)
qed

lemma sv_register_inv:
  assumes "sv_inv cfg sv" and "rg_next_handle (cs_registry (ap_cp (sv_app sv))) \<noteq> - 1"
  shows "sv_inv cfg (snd (sv_register js cfg c now text sv))"
proof (cases "bt_get (sv_links sv) c")
  case None
  then show ?thesis using assms by (simp add: sv_register_def)
next
  case (Some l)
  show ?thesis
  proof (cases "ln_handle l")
    case (Some h)
    then show ?thesis using \<open>bt_get (sv_links sv) c = Some l\<close> assms by (simp add: sv_register_def)
  next
    case None
    obtain reply r a where reg: "register_connection js cfg (ln_identity l) c now text (sv_app sv) = (reply, r, a)"
      by (cases "register_connection js cfg (ln_identity l) c now text (sv_app sv)")
    show ?thesis
    proof (cases r)
      case rn: None
      then have "a = sv_app sv" using register_connection_cases [OF reg] by simp
      then show ?thesis
        using close_inv [OF assms(1), of js c] Some None reg rn by (simp add: sv_register_def)
    next
      case (Some h)
      then obtain i where i: "h = rg_next_handle (cs_registry (ap_cp (sv_app sv))) + 1"
          "in_active_sessions i = 0" "owns cfg c \<lparr>ln_identity = ln_identity l, ln_handle = Some h\<rparr> h i"
          "a = set_cp (with_registry (snd (register_conn i c (cs_registry (ap_cp (sv_app sv)))))
                 (with_queue c (outbound_channel (cc_max_outbound_queue_bytes cfg)) (ap_cp (sv_app sv)))) (sv_app sv)"
        using register_connection_cases [OF reg, of h] by auto
      have "owns cfg c \<lparr>ln_identity = ln_identity l, ln_handle = Some k\<rparr> k i" for k
        using i(3) by (simp add: owns_def)
      then have "sv_inv cfg (sv\<lparr>sv_app := a, sv_links := bt_insert c (l\<lparr>ln_handle := Some h\<rparr>) (sv_links sv)\<rparr>)"
        using registered_inv [OF assms(1) \<open>bt_get (sv_links sv) c = Some l\<close> None assms(2) i(2)] i(1,4) by simp
      then show ?thesis
        using \<open>bt_get (sv_links sv) c = Some l\<close> None reg Some by (simp add: sv_register_def)
    qed
  qed
qed

subsection \<open>The rest of the steps\<close>

lemma sv_frame_inv: "sv_inv cfg sv \<Longrightarrow> sv_inv cfg (snd (sv_frame js cfg c now utc text sv))"
proof (cases "bt_get (sv_links sv) c")
  case (Some l)
  assume i: "sv_inv cfg sv"
  show ?thesis
  proof (cases "ln_handle l")
    case (Some h)
    have "sv_inv cfg (sv\<lparr>sv_app := snd (handle_frame js cfg now utc h text (sv_app sv))\<rparr>)"
      by (rule sv_inv_serves [OF i serves_frame])
    then show ?thesis
      using Some \<open>bt_get (sv_links sv) c = Some l\<close> by (simp add: sv_frame_def case_prod_beta)
  qed (use i Some in \<open>simp add: sv_frame_def\<close>)
qed (simp add: sv_frame_def)

lemma sv_tick_inv: "sv_inv cfg sv \<Longrightarrow> sv_inv cfg (sv_tick js cfg now utc sv)"
  unfolding sv_tick_def by (rule sv_inv_serves, assumption, rule serves_tick) (simp add: sv_inv_def)

lemma try_recv_max: "ob_max (snd (try_recv q)) = ob_max q"
  by (simp add: try_recv_def budget_release_def split: list.split)

lemma sv_write_inv: "sv_inv cfg sv \<Longrightarrow> sv_inv cfg (snd (sv_write c sv))"
proof -
  assume i: "sv_inv cfg sv"
  let ?s = "ap_cp (sv_app sv)"
  let ?q = "snd (try_recv (cs_queues ?s c))"
  have "tame cfg ?s (with_queue c ?q ?s)"
    by (rule tame_with_queue) (simp add: queues_ok_def try_recv_queue try_recv_max)
  moreover have "cp_inv cfg (with_queue c ?q ?s) = cp_inv cfg ?s" by (rule cp_inv_cong) simp_all
  ultimately have "serves cfg (sv_app sv) (set_cp (with_queue c ?q ?s) (sv_app sv))"
    by (intro serves_set_cp) simp_all
  then have "sv_inv cfg (sv\<lparr>sv_app := set_cp (with_queue c ?q ?s) (sv_app sv)\<rparr>)"
    by (rule sv_inv_serves [OF i])
  then show ?thesis by (simp add: sv_write_def Let_def case_prod_beta)
qed

interpretation server: preserved "sv_step js cfg" "sv_inv cfg" for js cfg
proof unfold_locales
  show "sv_step js cfg sv sv' \<Longrightarrow> sv_inv cfg sv \<Longrightarrow> sv_inv cfg sv'" for sv sv'
    by (induction rule: sv_step.induct)
       (rule accept_inv sv_register_inv sv_frame_inv close_inv sv_tick_inv sv_write_inv; assumption)+
qed

lemma new_server_inv:
  assumes "\<forall>ns. np_max_depth (policy_for cfg ns) \<noteq> - 1"
  shows "sv_inv cfg (new_server cfg)"
proof -
  have "reg_get new_registry h = None" for h by (simp add: new_registry_def reg_get_def)
  moreover have "ap_cp (new_app cfg) = initial_cp (cc_max_outbound_queue_bytes cfg)" by (simp add: new_app_def)
  ultimately show ?thesis
    using initial_inv [OF assms]
    by (simp add: sv_inv_def new_server_def queues_ok_def conns_ok_def links_ok_def conn_count_def channel_ok
        bt_count_def) (simp add: new_app_def initial_cp_def channel_ok)
qed

subsection \<open>Counting\<close>

text \<open>The registered instances of an identity, by its logical id.\<close>

definition instances_of :: "string \<Rightarrow> registry \<Rightarrow> nat" where
  "instances_of key r = bt_count (\<lambda>e. instance_logical_id (en_inst e) = key) (rg_inner r)"

lemma instances_bounded_by_links:
  assumes "links_ok cfg sv" and "reg_inv (cs_registry (ap_cp (sv_app sv)))"
  shows "instances_of key (cs_registry (ap_cp (sv_app sv))) \<le> bt_count (\<lambda>l. link_key l = key) (sv_links sv)"
proof -
  let ?r = "cs_registry (ap_cp (sv_app sv))"
  let ?hs = "{h. \<exists>e. bt_get (rg_inner ?r) h = Some e \<and> instance_logical_id (en_inst e) = key}"
  let ?cs = "{c. \<exists>l. bt_get (sv_links sv) c = Some l \<and> link_key l = key}"
  let ?tx = "\<lambda>h. in_tx (en_inst (the (bt_get (rg_inner ?r) h)))"
  have b: "bt_inv (rg_inner ?r)" and bl: "bt_inv (sv_links sv)"
    using assms by (simp_all add: reg_inv_def links_ok_def)
  have owner: "\<exists>l. bt_get (sv_links sv) (?tx h) = Some l \<and> ln_handle l = Some h \<and> link_key l = key"
    if hs: "h \<in> ?hs" for h
  proof -
    obtain e where e: "bt_get (rg_inner ?r) h = Some e" "instance_logical_id (en_inst e) = key"
      using hs by blast
    then have "reg_get ?r h = Some (en_inst e)" by (simp add: reg_get_def)
    then obtain l where "bt_get (sv_links sv) (in_tx (en_inst e)) = Some l" "owns cfg (in_tx (en_inst e)) l h (en_inst e)"
      by (rule links_owner [OF assms(1)])
    then show ?thesis
      using e by (auto simp: owns_def link_key_def identity_key_def instance_logical_id_def)
  qed
  have "inj_on ?tx ?hs"
  proof (rule inj_onI)
    fix h k assume h: "h \<in> ?hs" and k: "k \<in> ?hs" and eq: "?tx h = ?tx k"
    obtain l where l: "bt_get (sv_links sv) (?tx h) = Some l" "ln_handle l = Some h" using owner [OF h] by blast
    obtain m where m: "bt_get (sv_links sv) (?tx k) = Some m" "ln_handle m = Some k" using owner [OF k] by blast
    have "l = m" using l(1) m(1) unfolding eq by simp
    then show "h = k" using l(2) m(2) by simp
  qed
  moreover have "?tx ` ?hs \<subseteq> ?cs"
  proof
    fix c assume "c \<in> ?tx ` ?hs"
    then obtain h where h: "h \<in> ?hs" and c: "c = ?tx h" by (rule imageE)
    show "c \<in> ?cs" unfolding c mem_Collect_eq using owner [OF h] by blast
  qed
  ultimately have "card ?hs \<le> card ?cs"
    by (rule card_inj_on_le) (rule tree.load_finite [OF bl])
  then show ?thesis by (simp add: instances_of_def bt_count_load [OF b] bt_count_load [OF bl] tree.load_def)
qed

end
