(* ===== verification/Cp_Example.thy ===== *)
theory Cp_Example
  imports Cp_Links_Steps
begin

section \<open>A concrete control plane\<close>

text \<open>
  The fixture the witnesses evaluate on: one namespace with a primary and a worker, both
  registered, and a delegation from the one to the other. Frames print as their kind.
\<close>

definition y_wire :: wire where
  "y_wire f = (case f of DelegateFrame _ _ \<Rightarrow> ''delegate'' | ResultFrame _ _ \<Rightarrow> ''result'' | CancelFrame _ _ \<Rightarrow> ''cancel'')"

definition y_primary :: bound_identity where
  "y_primary = \<lparr>bi_key = ''kp'', bi_namespace = ''n'', bi_name = ''p'', bi_agent_type = PrimaryAgent,
                bi_max_sessions_cap = None\<rparr>"

definition y_worker :: bound_identity where
  "y_worker = \<lparr>bi_key = ''kw'', bi_namespace = ''n'', bi_name = ''w'', bi_agent_type = WorkerAgent,
               bi_max_sessions_cap = Some 1\<rparr>"

definition y_cfg :: cp_config where
  "y_cfg =
     \<lparr>cc_listen = ''localhost:9800'', cc_allow_insecure_bind = False,
      cc_heartbeat_interval_secs = 15, cc_lease_expiry_secs = 45, cc_max_deadline_secs = 1800,
      cc_max_result_bytes = 60, cc_max_frame_bytes = 80, cc_max_prompt_bytes = 40,
      cc_register_timeout_secs = 10, cc_max_connections_per_identity = 1, cc_write_timeout_secs = 30,
      cc_max_outbound_queue_bytes = 100, cc_max_inflight_delegations = 2,
      cc_default_max_delegated_sessions_cap = 16, cc_agents = [y_primary, y_worker], cc_namespaces = []\<rparr>"

definition y_inst :: "bound_identity \<Rightarrow> nat \<Rightarrow> live_instance" where
  "y_inst b tx = \<lparr>in_handle = 0, in_namespace = bi_namespace b, in_name = bi_name b,
     in_agent_type = bi_agent_type b, in_instance_id = ''i'', in_labels = [], in_max_sessions = 1,
     in_active_sessions = 0, in_registered_at = 0, in_last_heartbeat = 0, in_tx = tx\<rparr>"

definition y0 :: cp_state where "y0 = initial_cp 100"
definition y1 :: cp_state where "y1 = with_registry (snd (register_conn (y_inst y_primary 0) 0 (cs_registry y0))) y0"
definition y2 :: cp_state where "y2 = with_registry (snd (register_conn (y_inst y_worker 1) 1 (cs_registry y1))) y1"

definition y_params :: delegate_params where
  "y_params = \<lparr>dp_delegation_id = ''d'', dp_target = \<lparr>ts_name = Some ''w'', ts_labels = None\<rparr>,
     dp_prompt = ''go'', dp_deadline = 60000000000, dp_parent_delegation_id = None, dp_parent_admission = None\<rparr>"

definition y_delegate :: "cp_state \<Rightarrow> delegate_outcome \<times> cp_state" where
  "y_delegate s = delegate y_wire y_cfg 0 ''n'' ''p'' PrimaryAgent 1 y_params 7 s"

definition y3 :: cp_state where "y3 = snd (y_delegate y2)"

definition y_entry :: in_flight where
  "y_entry = \<lparr>if_namespace = ''n'', if_delegation_id = ''d'', if_from_logical = ''n/p'', if_from_handle = 1,
     if_to_logical = ''n/w'', if_to_handle = 2, if_deadline = 60000000000, if_chain = [''n/p''],
     if_generation = 1\<rparr>"

definition y_ack :: delegate_ack where
  "y_ack = \<lparr>da_delegation_id = ''d'', da_admission = 1, da_assigned_to = ''n/w''\<rparr>"

definition y_key :: delegation_key where "y_key = DelegationKey ''n'' ''d''"

subsection \<open>What it computes\<close>

lemma y_policy: "policy_for y_cfg ns = default_policy"
  by (simp add: policy_for_def y_cfg_def)

lemma y_depth: "\<forall>ns. np_max_depth (policy_for y_cfg ns) \<noteq> - 1"
  unfolding y_policy by (simp add: default_policy_def)

lemma y_accepted: "fst (y_delegate y2) = DelegateAccepted y_ack"
  by code_simp

lemma y3_inflight: "inflight_of y3 = [(y_key, y_entry)]"
  by code_simp

lemma y2_primary: "reg_get (cs_registry y2) 1 = Some ((y_inst y_primary 0)\<lparr>in_handle := 1\<rparr>)"
  by code_simp

lemma y3_worker: "reg_get (cs_registry y3) 2 = Some ((y_inst y_worker 1)\<lparr>in_handle := 2, in_active_sessions := 1\<rparr>)"
  by code_simp

lemma y_next: "rg_next_handle (cs_registry y0) = 0" "rg_next_handle (cs_registry y1) = 1"
  by code_simp+

lemma y0_inv: "cp_inv y_cfg y0"
  unfolding y0_def by (rule initial_inv [OF y_depth])

lemma y_step1: "cp_step y_wire y_cfg y0 y1"
  unfolding y1_def by (rule st_register) (simp_all add: y_inst_def y_next)

lemma y_step2: "cp_step y_wire y_cfg y1 y2"
  unfolding y2_def by (rule st_register) (simp_all add: y_inst_def y_next)

lemma y_step3: "cp_step y_wire y_cfg y2 y3"
  using st_delegate [OF y2_primary, of y_wire y_cfg 0 y_params 7]
  by (simp add: y3_def y_delegate_def y_inst_def y_primary_def)

lemma y_run: "(cp_step y_wire y_cfg)\<^sup>*\<^sup>* y0 y3"
  using y_step1 y_step2 y_step3 by (meson rtranclp.rtrancl_refl rtranclp.rtrancl_into_rtrancl)

lemma y2_inv: "cp_inv y_cfg y2"
  using cp_step_inv [OF y_step2 cp_step_inv [OF y_step1 y0_inv]] .

lemma y3_inv: "cp_inv y_cfg y3"
  using cp_step_inv [OF y_step3 y2_inv] .

end
