(* ===== verification/Cp_Run_Properties.thy ===== *)
theory Cp_Run_Properties
  imports Cp_Steps Cp_Example
begin

section \<open>The control plane along every run\<close>

text \<open>
  What holds of the router and the registry however their operations interleave: the session
  counts, the admission tokens, the delegation chains, and the fate of late frames.
\<close>

subsection \<open>Admissions along a run\<close>




lemma entry_key_namespace:
  assumes "cp_inv cfg s" and "bt_get (inflight_of s) k = Some e"
  shows "k = entry_key e" and "unat (if_generation e) \<le> counter_of (if_namespace e) s"
proof -
  have "entry_ok cfg s k e" using assms unfolding cp_inv_def core_inv_def by blast
  then show "k = entry_key e" "unat (if_generation e) \<le> counter_of (if_namespace e) s"
    by (simp_all add: entry_ok_def entry_key_def)
qed




subsection \<open>What every run keeps\<close>



text \<open>An admission token is never given twice in a namespace: a delegation accepted later than
  the state in which some delegation was in flight gets a greater token than that one had, even
  when it reuses the delegation id.\<close>

theorem admission_tokens_fresh:
  assumes "(cp_step wire cfg)\<^sup>*\<^sup>* (initial_cp m) s" and "\<forall>ns. np_max_depth (policy_for cfg ns) \<noteq> - 1"
    and "bt_get (inflight_of s) k = Some e" and "(cp_step wire cfg)\<^sup>*\<^sup>* s t"
    and "delegate wire cfg now (if_namespace e) name ty h params rpc t = (DelegateAccepted ack, t')"
  shows "if_generation e < da_admission ack"
proof -
  let ?ns = "if_namespace e"
  have s: "cp_inv cfg s" by (rule cp.run_inv [OF assms(1) initial_inv [OF assms(2)]])
  have "unat (if_generation e) \<le> counter_of ?ns s" by (rule entry_key_namespace(2) [OF s assms(3)])
  also have "\<dots> \<le> counter_of ?ns t" by (rule cp_run_counter [OF assms(4) s])
  finally have old: "unat (if_generation e) \<le> counter_of ?ns t" .
  have "\<exists>target chain dl generation adm. admissible cfg now ?ns name ty h params t target chain dl generation adm"
    using delegate_inadmissible [of cfg now ?ns name ty h params t wire rpc] assms(5) by fastforce
  then obtain target chain dl generation adm where
    a: "admissible cfg now ?ns name ty h params t target chain dl generation adm" by blast
  have "unat generation = counter_of ?ns t + 1"
    using a mint_counter(2) unfolding admissible_def by blast
  moreover have "da_admission ack = generation"
    using assms(5) by (auto simp: delegate_admissible [OF a] delegate_admit_eq Let_def rejected_def
        split: prod.splits if_splits)
  ultimately show ?thesis using old by (simp add: word_less_nat_alt)
qed

text \<open>The delegation of the fixture ends at its deadline, and its id is used again.\<close>

definition y4 :: cp_state where "y4 = snd (snd (sweep_deadlines y_wire 60000000000 8 y3))"
definition y5 :: cp_state where "y5 = snd (y_delegate y4)"

lemma y_step4: "cp_step y_wire y_cfg y3 y4"
  unfolding y4_def by (rule st_sweep)

lemma y4_accepted: "fst (y_delegate y4) = DelegateAccepted (y_ack\<lparr>da_admission := 2\<rparr>)"
  by code_simp

lemma y4_again: "delegate y_wire y_cfg 0 (if_namespace y_entry) ''p'' PrimaryAgent 1 y_params 7 y4
    = (DelegateAccepted (y_ack\<lparr>da_admission := 2\<rparr>), y5)"
proof -
  have "if_namespace y_entry = ''n''" by (simp add: y_entry_def)
  then show ?thesis using y4_accepted by (simp add: y5_def y_delegate_def prod_eq_iff)
qed

lemma y3_get: "bt_get (inflight_of y3) y_key = Some y_entry"
  by (simp add: y3_inflight bt_get_def)

theorem admission_tokens_fresh_witness:
  "if_generation y_entry < da_admission (y_ack\<lparr>da_admission := 2\<rparr>)"
  by (rule admission_tokens_fresh [OF y_run [unfolded y0_def] y_depth y3_get r_into_rtranclp [where r = "cp_step y_wire y_cfg", OF y_step4] y4_again])

text \<open>C21: Every delegation in flight has a chain without repetition that does not contain its
  target, starts no deeper than the namespace's limit and ends with the initiator; and the
  instances at its two ends, where they are still registered, are in its namespace under the
  recorded identities. So a delegation never crosses a namespace and never forms a cycle.\<close>

theorem delegation_chains_sound:
  assumes "(cp_step wire cfg)\<^sup>*\<^sup>* (initial_cp m) s" and "\<forall>ns. np_max_depth (policy_for cfg ns) \<noteq> - 1"
    and "bt_get (inflight_of s) k = Some e"
  shows "distinct (if_chain e @ [if_to_logical e])
     \<and> if_chain e \<noteq> [] \<and> last (if_chain e) = if_from_logical e
     \<and> length (if_chain e) \<le> unat (np_max_depth (policy_for cfg (if_namespace e)))
     \<and> k = DelegationKey (if_namespace e) (if_delegation_id e)
     \<and> (\<forall>i. reg_get (cs_registry s) (if_to_handle e) = Some i \<longrightarrow>
           in_namespace i = if_namespace e \<and> instance_logical_id i = if_to_logical e)
     \<and> (\<forall>i. reg_get (cs_registry s) (if_from_handle e) = Some i \<longrightarrow>
           in_namespace i = if_namespace e \<and> instance_logical_id i = if_from_logical e)"
proof -
  have "cp_inv cfg s" by (rule cp.run_inv [OF assms(1) initial_inv [OF assms(2)]])
  then have "entry_ok cfg s k e" using assms(3) unfolding cp_inv_def core_inv_def by blast
  then show ?thesis by (simp add: entry_ok_def)
qed

theorem delegation_chains_sound_witness:
  "distinct [''n/p'', ''n/w''] \<and> length [''n/p''] \<le> unat (np_max_depth (policy_for y_cfg ''n''))
   \<and> in_namespace (y_inst y_worker 1) = ''n''"
proof -
  note p = delegation_chains_sound [OF y_run [unfolded y0_def] y_depth y3_get]
  have "in_namespace ((y_inst y_worker 1)\<lparr>in_handle := 2, in_active_sessions := 1\<rparr>) = if_namespace y_entry"
    using p y3_worker by (simp add: y_entry_def)
  then show ?thesis using p by (simp add: y_entry_def)
qed





end
