(* ===== verification/Cp_Effects.thy ===== *)
theory Cp_Effects
  imports Cp_Endings
begin

section \<open>What each operation of the router does\<close>

text \<open>
  The operations described by what they do to the in-flight table: the delegation they end, if
  any, and whom the frames they produce are for.
\<close>

subsection \<open>One delegation\<close>

text \<open>The delegation that a registered instance serves under an id and a token; the one it owns.\<close>

definition serving_for :: "u64 \<Rightarrow> string \<Rightarrow> u64 \<Rightarrow> cp_state \<Rightarrow> in_flight option" where
  "serving_for h i token s =
     (case reg_get (cs_registry s) h of
        None \<Rightarrow> None
      | Some me \<Rightarrow>
          (case bt_get (inflight_of s) (DelegationKey (in_namespace me) i) of
             None \<Rightarrow> None
           | Some e \<Rightarrow> if if_to_handle e = h \<and> if_generation e = token then Some e else None))"

definition owned_by :: "u64 \<Rightarrow> string \<Rightarrow> u64 \<Rightarrow> cp_state \<Rightarrow> in_flight option" where
  "owned_by h i token s =
     (case reg_get (cs_registry s) h of
        None \<Rightarrow> None
      | Some me \<Rightarrow>
          (case bt_get (inflight_of s) (DelegationKey (in_namespace me) i) of
             None \<Rightarrow> None
           | Some e \<Rightarrow> if if_from_handle e = h \<and> if_generation e = token then Some e else None))"

lemma entry_key_of:
  assumes "cp_inv cfg s" and "bt_get (inflight_of s) k = Some e"
  shows "DelegationKey (if_namespace e) (if_delegation_id e) = k"
proof -
  have "entry_ok cfg s k e" using assms unfolding cp_inv_def core_inv_def by blast
  then show ?thesis by (simp add: entry_ok_def)
qed

lemma complete_deliver_serving:
  "complete_deliver wire h params m rpc s =
     (case serving_for h (dr_delegation_id params) (dr_admission params) s of
        None \<Rightarrow> (Inl DroppedResult, s)
      | Some e \<Rightarrow>
          (case reg_get (cs_registry s) (if_from_handle e) of
             None \<Rightarrow> (Inl DroppedResult, s)
           | Some init \<Rightarrow>
               (case send_to init (wire (ResultFrame rpc
                       (params\<lparr>dr_result := map_option (truncate_result m) (dr_result params)\<rparr>))) s of
                  (False, s1) \<Rightarrow> (Inl (InitiatorStalled (if_from_handle e)), s1)
                | (True, s1) \<Rightarrow> (Inr e, s1))))"
  by (auto simp: complete_deliver_def serving_for_def peek_for_completion_def Let_def split: option.split)

lemma commit_live:
  assumes "bt_get (inflight_of s) (DelegationKey (if_namespace e) (if_delegation_id e)) = Some e"
  shows "commit_completion e s = (Claimed, released e s)"
  using assms by (simp add: commit_completion_def released_def entry_key_def)

lemma complete_eq:
  assumes "cp_inv cfg s"
  shows "complete wire h params m rpc s =
     (case serving_for h (dr_delegation_id params) (dr_admission params) s of
        None \<Rightarrow> (DroppedResult, s)
      | Some e \<Rightarrow>
          (case reg_get (cs_registry s) (if_from_handle e) of
             None \<Rightarrow> (DroppedResult, s)
           | Some init \<Rightarrow>
               (case send_to init (wire (ResultFrame rpc
                       (params\<lparr>dr_result := map_option (truncate_result m) (dr_result params)\<rparr>))) s of
                  (False, s1) \<Rightarrow> (InitiatorStalled (if_from_handle e), s1)
                | (True, s1) \<Rightarrow> (DeliveredResult True, released e s1))))"
proof (cases "serving_for h (dr_delegation_id params) (dr_admission params) s")
  case None
  then show ?thesis by (simp add: complete_def complete_deliver_serving)
next
  case (Some e)
  then obtain k where e: "bt_get (inflight_of s) k = Some e"
    by (auto simp: serving_for_def split: option.splits if_splits)
  note key = entry_key_of [OF assms e]
  show ?thesis
  proof (cases "reg_get (cs_registry s) (if_from_handle e)")
    case None
    then show ?thesis using Some by (simp add: complete_def complete_deliver_serving)
  next
    case init: (Some init)
    let ?text = "wire (ResultFrame rpc (params\<lparr>dr_result := map_option (truncate_result m) (dr_result params)\<rparr>))"
    obtain ok s1 where send: "send_to init ?text s = (ok, s1)" by fastforce
    have "inflight_of s1 = inflight_of s" using inflight_send [of init ?text s] send by simp
    then have "commit_completion e s1 = (Claimed, released e s1)"
      using e key by (intro commit_live) simp
    then show ?thesis using Some init send by (cases ok) (simp_all add: complete_def complete_deliver_serving)
  qed
qed

lemma cancel_eq:
  assumes "cp_inv cfg s"
  shows "cancel wire h p rpc s =
     (case owned_by h (cp_delegation_id p) (cp_admission p) s of
        None \<Rightarrow> (Inl cancel_refused, s)
      | Some e \<Rightarrow>
          (Inr (map_option (\<lambda>t. (t, wire (CancelFrame rpc p)))
                  (reg_get (cs_registry (released e s)) (if_to_handle e))), released e s))"
proof (cases "reg_get (cs_registry s) h")
  case None
  then show ?thesis by (simp add: cancel_def router_claim_def owned_by_def)
next
  case (Some me)
  show ?thesis
  proof (cases "bt_get (inflight_of s) (DelegationKey (in_namespace me) (cp_delegation_id p))")
    case None
    then show ?thesis using Some by (simp add: cancel_def router_claim_def owned_by_def)
  next
    case e: (Some e)
    have "DelegationKey (if_namespace e) (if_delegation_id e) = DelegationKey (in_namespace me) (cp_delegation_id p)"
      by (rule entry_key_of [OF assms e])
    then show ?thesis
      using Some e by (simp add: cancel_def router_claim_def owned_by_def released_def entry_key_def Let_def)
  qed
qed

subsection \<open>Many at once\<close>

text \<open>The handles a list of frames is for, and the ones a list of instances still has.\<close>

definition recipients :: "(live_instance \<times> string) list \<Rightarrow> u64 list" where
  "recipients fs = map (\<lambda>f. in_handle (fst f)) fs"

definition if_live :: "registry \<Rightarrow> u64 \<Rightarrow> u64 list" where
  "if_live r h = (if reg_get r h = None then [] else [h])"

lemma adjust_live [simp]: "if_live (adjust_sessions k d r) h = if_live r h"
  by (simp add: if_live_def reg_get_adjust)

lemma reg_inv_handle: "reg_inv r \<Longrightarrow> reg_get r h = Some i \<Longrightarrow> in_handle i = h"
  unfolding reg_inv_def by blast

lemma if_live_get:
  assumes "reg_inv r"
  shows "if_live r h = (case reg_get (adjust_sessions k d r) h of None \<Rightarrow> [] | Some i \<Rightarrow> [in_handle i])"
proof -
  have "if_live r h = (case reg_get r h of None \<Rightarrow> [] | Some i \<Rightarrow> [in_handle i])"
    using reg_inv_handle [OF assms, of h] by (simp add: if_live_def split: option.split)
  then show ?thesis by (simp add: reg_get_adjust split: option.split)
qed

lemma expire_entry_recipients:
  assumes "reg_inv (cs_registry s)" and "expire_entry wire e rpc s = (fs, rpc1, s1)"
  shows "recipients fs = if_live (cs_registry s) (if_from_handle e) @ if_live (cs_registry s) (if_to_handle e)
    \<and> rpc1 = rpc + of_nat (length fs) \<and> s1 = adjust (if_to_handle e) (- 1) s"
proof -
  show ?thesis
    using assms(2) if_live_get [OF assms(1), where k = "if_to_handle e" and d = "- 1"]
    by (auto simp: expire_entry_def Let_def recipients_def split: option.splits)
qed

lemma expire_entries_recipients:
  assumes "reg_inv (cs_registry s)" and "expire_entries wire es rpc s = (fs, rpc1, s1)"
  shows "recipients fs = concat (map (\<lambda>e. if_live (cs_registry s) (if_from_handle e)
           @ if_live (cs_registry s) (if_to_handle e)) es)
    \<and> rpc1 = rpc + of_nat (length fs)"
  using assms
proof (induction es arbitrary: rpc s fs rpc1 s1)
  case (Cons e es)
  obtain gs r2 s2 where e: "expire_entry wire e rpc s = (gs, r2, s2)" by (cases "expire_entry wire e rpc s")
  obtain hs r3 s3 where es: "expire_entries wire es r2 s2 = (hs, r3, s3)" by (cases "expire_entries wire es r2 s2")
  note one = expire_entry_recipients [OF Cons.prems(1) e]
  have "reg_inv (cs_registry s2)" using one Cons.prems(1) by (simp add: reg_inv_adjust)
  from Cons.IH [OF this es] show ?case
    using one Cons.prems(2) e es by (auto simp: recipients_def)
qed (simp add: recipients_def)

text \<open>The other end of a delegation of an instance.\<close>

definition other_end :: "u64 \<Rightarrow> in_flight \<Rightarrow> u64" where
  "other_end h e = (if if_to_handle e = h then if_from_handle e else if_to_handle e)"

lemma fail_entry_recipients:
  assumes "reg_inv (cs_registry s)" and "fail_entry wire h e rpc s = (fs, rpc1, s1)"
  shows "recipients fs = if_live (cs_registry s) (other_end h e)
    \<and> rpc1 = rpc + of_nat (length fs) \<and> (s1 = s \<or> s1 = adjust (if_to_handle e) (- 1) s)"
proof (cases "if_to_handle e = h")
  case True
  then show ?thesis
    using assms reg_inv_handle [OF assms(1), of "if_from_handle e"]
    by (auto simp: fail_entry_def recipients_def if_live_def other_end_def split: option.splits)
next
  case False
  then show ?thesis
    using assms(2) if_live_get [OF assms(1), where k = "if_to_handle e" and d = "- 1"]
    by (auto simp: fail_entry_def Let_def recipients_def other_end_def split: option.splits)
qed

lemma fail_entries_recipients:
  assumes "reg_inv (cs_registry s)" and "fail_entries wire h es rpc s = (fs, rpc1, s1)"
  shows "recipients fs = concat (map (\<lambda>e. if_live (cs_registry s) (other_end h e)) es)
    \<and> rpc1 = rpc + of_nat (length fs)"
  using assms
proof (induction es arbitrary: rpc s fs rpc1 s1)
  case (Cons e es)
  obtain gs r2 s2 where e: "fail_entry wire h e rpc s = (gs, r2, s2)" by (cases "fail_entry wire h e rpc s")
  obtain hs r3 s3 where es: "fail_entries wire h es r2 s2 = (hs, r3, s3)" by (cases "fail_entries wire h es r2 s2")
  note one = fail_entry_recipients [OF Cons.prems(1) e]
  have live: "if_live (cs_registry s2) k = if_live (cs_registry s) k" for k using one by auto
  have "reg_inv (cs_registry s2)" using one Cons.prems(1) reg_inv_adjust by auto
  from Cons.IH [OF this es] show ?case
    using one Cons.prems(2) e es by (auto simp: recipients_def live)
qed (simp add: recipients_def)

subsection \<open>Selection\<close>

lemma select_eq:
  "select ns n w r =
     (if select_matches ns n w r = [] then Inl NoTarget
      else if \<forall>i\<in>set (select_matches ns n w r). instance_saturated i then Inl AllSaturated
      else Inr (hd (sort_key (select_key (n \<noteq> None)) (filter (\<lambda>i. \<not> instance_saturated i) (select_matches ns n w r)))))"
  by (auto simp: select_def Let_def filter_empty_conv)

lemma in_select_matches:
  assumes "reg_inv r"
  shows "i \<in> set (select_matches ns n w r) \<longleftrightarrow>
     reg_get r (in_handle i) = Some i \<and> in_namespace i = ns
     \<and> (\<forall>x. n = Some x \<longrightarrow> in_name i = x) \<and> (\<forall>l. w = Some l \<longrightarrow> matches_labels l i)"
proof
  assume r: "reg_get r (in_handle i) = Some i \<and> in_namespace i = ns
     \<and> (\<forall>x. n = Some x \<longrightarrow> in_name i = x) \<and> (\<forall>l. w = Some l \<longrightarrow> matches_labels l i)"
  then obtain e where e: "bt_get (rg_inner r) (in_handle i) = Some e" "en_inst e = i"
    by (auto simp: reg_get_def)
  have b: "bt_inv (rg_inner r)" using assms by (simp add: reg_inv_def)
  have "(in_handle i, e) \<in> set (rg_inner r)" by (rule bt_rows_get [OF b, THEN iffD2, OF e(1)])
  then have "i \<in> set (map (\<lambda>e. en_inst (snd e)) (rg_inner r))" using e(2) by force
  then show "i \<in> set (select_matches ns n w r)"
    using r by (simp add: select_matches_def split: option.split)
qed (rule matches_registered [OF assms])

subsection \<open>Truncation\<close>

lemma back_to_boundary_le: "back_to_boundary s n \<le> n"
  by (induction n) (auto simp: le_SucI)

lemma floor_char_boundary_le: "floor_char_boundary s m \<le> m \<and> floor_char_boundary s m \<le> length s"
  using back_to_boundary_le [of s "min m (length s)"] by (simp add: floor_char_boundary_def)

lemma back_to_boundary_boundary: "is_char_boundary s (back_to_boundary s n)"
  by (induction n) (auto simp: is_char_boundary_def)

lemma floor_char_boundary_boundary: "is_char_boundary s (floor_char_boundary s m)"
  by (simp add: floor_char_boundary_def back_to_boundary_boundary)

end
