(* ===== verification/Cp_Operation_Properties.thy ===== *)
theory Cp_Operation_Properties
  imports Cp_Example Cp_Effects
begin

section \<open>The operations of the control plane, one at a time\<close>

text \<open>
  What a delegation, a result, a cancel, a sweep and the end of an instance do, in every case; how
  a target is selected and a result is cut.
\<close>

text \<open>C16: A delegation by a registered instance is accepted exactly when it is admissible (a new id,
  a free place in the table, one selector, a live parent it serves if it names one, a free
  matching target, a policy that allows it, a token left) and the target's queue takes the frame.
  A refused delegation changes neither the in-flight table nor any registration, also when the
  refusal comes after the slot was reserved.\<close>

theorem delegate_accepts_iff:
  assumes "cp_inv cfg s" and "reg_get (cs_registry s) h = Some me"
    and "in_namespace me = ns" and "in_name me = name"
  shows "((\<exists>ack. fst (delegate wire cfg now ns name ty h params rpc s) = DelegateAccepted ack) \<longleftrightarrow>
       (\<exists>target chain dl g adm. admissible cfg now ns name ty h params s target chain dl g adm
          \<and> fst (try_send (admission_frame wire ns name params rpc chain g) (cs_queues s (in_tx target))) = Inr ()))
     \<and> (\<forall>err. fst (delegate wire cfg now ns name ty h params rpc s) = DelegateRejected err \<longrightarrow>
          bt_get (inflight_of (snd (delegate wire cfg now ns name ty h params rpc s))) = bt_get (inflight_of s)
          \<and> reg_get (cs_registry (snd (delegate wire cfg now ns name ty h params rpc s))) = reg_get (cs_registry s))"
proof (cases "\<exists>target chain dl g adm. admissible cfg now ns name ty h params s target chain dl g adm")
  case True
  then obtain target chain dl g adm where
    a: "admissible cfg now ns name ty h params s target chain dl g adm" by blast
  have same: "target' = target \<and> chain' = chain \<and> g' = g"
    if "admissible cfg now ns name ty h params s target' chain' dl' g' adm'" for target' chain' dl' g' adm'
    using that a by (auto simp: admissible_def)
  let ?e = "admitted_entry ns name h params chain target g"
  let ?frame = "admission_frame wire ns name params rpc chain g"
  let ?s2 = "recorded ?e (set_admission adm s)"
  have q: "cs_queues ?s2 = cs_queues s" by (simp add: recorded_def set_inflight_def adjust_def set_admission_def)
  have ok: "fst (send_to target ?frame ?s2) \<longleftrightarrow> fst (try_send ?frame (cs_queues s (in_tx target))) = Inr ()"
    by (auto simp: send_to_def q split: prod.splits sum.splits)
  obtain sent s3 where send: "send_to target ?frame ?s2 = (sent, s3)" by fastforce
  have d: "delegate wire cfg now ns name ty h params rpc s =
      (if sent then (DelegateAccepted \<lparr>da_delegation_id = dp_delegation_id params, da_admission = g,
                       da_assigned_to = instance_logical_id target\<rparr>, s3)
       else (rejected TARGET_DISCONNECTED ''target disconnected or unresponsive during routing'', released ?e s3))"
    by (simp add: delegate_admissible [OF a] delegate_admit_eq send)
  have undone: "bt_get (inflight_of (released ?e s3)) = bt_get (inflight_of s)
      \<and> reg_get (cs_registry (released ?e s3)) = reg_get (cs_registry s)"
  proof -
    have s3: "inflight_of s3 = inflight_of ?s2" "cs_registry s3 = cs_registry ?s2"
      using inflight_send [of target ?frame ?s2] send_to_same(1) [of target ?frame ?s2] send by simp_all
    have new: "bt_get (inflight_of s) (entry_key ?e) = None"
      using a by (simp add: admissible_def entry_key_def admitted_entry_def)
    have c: "core_inv cfg s" and p: "capacity_inv [] s" using assms(1) by (auto simp: cp_inv_def)
    have r: "reg_inv (cs_registry s)" using c by (simp add: core_inv_def)
    have sel: "select ns (ts_name (dp_target params)) (ts_labels (dp_target params)) (cs_registry s) = Inr target"
      using a unfolding admissible_def by blast
    note t = select_target [OF r sel]
    have up: "unat (saturating_add_signed (in_active_sessions target) 1) = unat (in_active_sessions target) + 1"
      using saturating_up t(3) by (simp add: instance_saturated_def not_le)
    then have "unat (saturating_add_signed (saturating_add_signed (in_active_sessions target) 1) (- 1))
        = unat (in_active_sessions target)"
      using saturating_down [of "saturating_add_signed (in_active_sessions target) 1"] by simp
    then have down: "saturating_add_signed (saturating_add_signed (in_active_sessions target) 1) (- 1)
        = in_active_sessions target"
      by (rule word_unat_eq_iff [THEN iffD2])
    have th: "if_to_handle ?e = in_handle target" by (simp add: admitted_entry_def)
    have "reg_get (cs_registry (released ?e s3)) k = reg_get (cs_registry s) k" for k
      using t(1) down s3(2) by (simp add: released_def recorded_def th reg_get_adjust)
    moreover have "bt_get (inflight_of (released ?e s3)) k = bt_get (inflight_of s) k" for k
      using new s3(1) by (simp add: released_def recorded_def)
    ultimately show ?thesis by (simp add: fun_eq_iff)
  qed
  have iff: "(\<exists>ack. fst (delegate wire cfg now ns name ty h params rpc s) = DelegateAccepted ack) \<longleftrightarrow> sent"
    by (simp add: d rejected_def)
  have "sent \<longleftrightarrow> (\<exists>target chain dl g adm. admissible cfg now ns name ty h params s target chain dl g adm
          \<and> fst (try_send (admission_frame wire ns name params rpc chain g) (cs_queues s (in_tx target))) = Inr ())"
    using ok send a same by (metis fst_conv)
  then show ?thesis using iff undone by (simp add: d rejected_def)
next
  case False
  let ?d = "delegate wire cfg now ns name ty h params rpc s"
  obtain e where e: "fst ?d = DelegateRejected e"
      "snd ?d = s \<or> (\<exists>adm. mint ns (ro_admission (cs_router s)) = (None, adm) \<and> snd ?d = set_admission adm s)"
    using delegate_inadmissible [of cfg now ns name ty h params s wire rpc] False by blast
  then have "bt_get (inflight_of (snd ?d)) = bt_get (inflight_of s)"
    "reg_get (cs_registry (snd ?d)) = reg_get (cs_registry s)" by auto
  then show ?thesis using False e(1) by simp
qed

text \<open>The fixture's delegation is admissible; under the same id a second time it is not.\<close>

theorem delegate_accepts_iff_witness:
  "(\<exists>target chain dl g adm. admissible y_cfg 0 ''n'' ''p'' PrimaryAgent 1 y_params y2 target chain dl g adm)
   \<and> bt_get (inflight_of (snd (y_delegate y3))) = bt_get (inflight_of y3)"
proof -
  have me: "reg_get (cs_registry y3) 1 = Some ((y_inst y_primary 0)\<lparr>in_handle := 1\<rparr>)" by code_simp
  have err: "fst (y_delegate y3)
      = DelegateRejected (new_error DUPLICATE_DELEGATION ''delegation d is already in flight'')" by code_simp
  have "\<exists>ack. fst (y_delegate y2) = DelegateAccepted ack" using y_accepted by blast
  then show ?thesis
    using delegate_accepts_iff [OF y2_inv y2_primary, of "''n''" "''p''" y_wire 0 PrimaryAgent y_params 7]
      delegate_accepts_iff [OF y3_inv me, of "''n''" "''p''" y_wire 0 PrimaryAgent y_params 7] err
    by (simp add: y_delegate_def y_inst_def y_primary_def) blast
qed

text \<open>C29: A result counts exactly when it comes from the instance that serves the delegation, in its
  own namespace, with the token of the live admission, and the initiator is still registered; the
  initiator then gets the cut result, and when its queue takes it the delegation ends and its slot
  is free. Any other result is dropped and changes nothing. Run without interruption, the two
  phases are this one step.\<close>

theorem completion_exact:
  assumes "cp_inv cfg s"
  shows "complete wire h params m rpc s =
     (case serving_for h (dr_delegation_id params) (dr_admission params) s of
        None \<Rightarrow> (DroppedResult, s)
      | Some e \<Rightarrow>
          (case reg_get (cs_registry s) (if_from_handle e) of
             None \<Rightarrow> (DroppedResult, s)
           | Some init \<Rightarrow>
               (case send_to init (wire (ResultFrame rpc
                       (params\<lparr>dr_result := map_option (truncate_result m) (dr_result params)\<rparr>))) s of
                  (False, s1) \<Rightarrow> (InitiatorStalled (if_from_handle e), s1)
                | (True, s1) \<Rightarrow> (DeliveredResult True, released e s1))))"
  using assms by (rule complete_eq)

definition y_result :: "u64 \<Rightarrow> delegate_result" where
  "y_result token = \<lparr>dr_delegation_id = ''d'', dr_admission = token, dr_status = CompletedStatus,
     dr_result = Some ''ok'', dr_error = None\<rparr>"

text \<open>The right token completes the fixture's delegation; a wrong one is dropped.\<close>

theorem completion_exact_witness:
  "fst (complete y_wire 2 (y_result 1) 60 9 y3) = DeliveredResult True
   \<and> complete y_wire 2 (y_result 5) 60 9 y3 = (DroppedResult, y3)"
proof -
  have w: "reg_get (cs_registry y3) 2 \<noteq> None" using y3_worker by simp
  have k: "DelegationKey (in_namespace ((y_inst y_worker 1)\<lparr>in_handle := 2, in_active_sessions := 1\<rparr>)) ''d'' = y_key"
    by (simp add: y_key_def y_inst_def y_worker_def)
  have "serving_for 2 ''d'' 5 y3 = None" "serving_for 2 ''d'' 1 y3 = Some y_entry"
    using y3_worker k by (simp_all add: serving_for_def y3_inflight bt_get_def y_entry_def)
  moreover have "reg_get (cs_registry y3) (if_from_handle y_entry) = Some ((y_inst y_primary 0)\<lparr>in_handle := 1\<rparr>)"
    by code_simp
  moreover have "fst (send_to ((y_inst y_primary 0)\<lparr>in_handle := 1\<rparr>) ''result'' y3)" by code_simp
  then obtain s1 where "send_to ((y_inst y_primary 0)\<lparr>in_handle := 1\<rparr>) ''result'' y3 = (True, s1)"
    by (cases "send_to ((y_inst y_primary 0)\<lparr>in_handle := 1\<rparr>) ''result'' y3") auto
  ultimately show ?thesis
    using completion_exact [OF y3_inv, of y_wire 2 "y_result 1" 60 9]
      completion_exact [OF y3_inv, of y_wire 2 "y_result 5" 60 9]
    by (simp add: y_result_def y_wire_def)
qed

text \<open>A cancel is honoured exactly when it comes from the instance that owns the delegation, in
  its own namespace, with the token of the live admission: the delegation ends, its slot is free,
  and the target is told when it is still there. In every other case, an unknown id, another
  instance's delegation, a stale token, an instance that is gone, the answer is one and the same
  refusal and nothing changes.\<close>

theorem cancel_exact:
  assumes "cp_inv cfg s"
  shows "cancel wire h p rpc s =
     (case owned_by h (cp_delegation_id p) (cp_admission p) s of
        None \<Rightarrow> (Inl cancel_refused, s)
      | Some e \<Rightarrow>
          (Inr (map_option (\<lambda>t. (t, wire (CancelFrame rpc p)))
                  (reg_get (cs_registry (released e s)) (if_to_handle e))), released e s))"
  using assms by (rule cancel_eq)

theorem cancel_exact_witness:
  "inflight_of (snd (cancel y_wire 1 \<lparr>cp_delegation_id = ''d'', cp_admission = 1, cp_reason = []\<rparr> 9 y3)) = []
   \<and> cancel y_wire 2 \<lparr>cp_delegation_id = ''d'', cp_admission = 1, cp_reason = []\<rparr> 9 y3 = (Inl cancel_refused, y3)"
proof -
  have p: "reg_get (cs_registry y3) 1 = Some ((y_inst y_primary 0)\<lparr>in_handle := 1\<rparr>)" by code_simp
  have k: "DelegationKey (in_namespace ((y_inst y_primary 0)\<lparr>in_handle := 1\<rparr>)) ''d'' = y_key"
    "DelegationKey (in_namespace ((y_inst y_worker 1)\<lparr>in_handle := 2, in_active_sessions := 1\<rparr>)) ''d'' = y_key"
    by (simp_all add: y_key_def y_inst_def y_primary_def y_worker_def)
  have "owned_by 1 ''d'' 1 y3 = Some y_entry" "owned_by 2 ''d'' 1 y3 = None"
    using p y3_worker k by (simp_all add: owned_by_def y3_inflight bt_get_def y_entry_def)
  moreover have "inflight_of (released y_entry y3) = []"
    by (simp add: released_def y3_inflight bt_remove_def entry_key_def y_entry_def y_key_def)
  ultimately show ?thesis
    using cancel_exact [OF y3_inv, of y_wire 1 "\<lparr>cp_delegation_id = ''d'', cp_admission = 1, cp_reason = []\<rparr>" 9]
      cancel_exact [OF y3_inv, of y_wire 2 "\<lparr>cp_delegation_id = ''d'', cp_admission = 1, cp_reason = []\<rparr>" 9]
    by simp
qed

text \<open>The deadline sweep ends exactly the delegations whose deadline has come and leaves the
  others as they are; for each one it ends, in table order, the initiator and then the target get
  one frame if they are still registered, and the request ids of the frames are consecutive.\<close>

theorem sweep_exact:
  assumes "cp_inv cfg s" and "sweep_deadlines wire now rpc s = (frames, rpc', s')"
  shows "inflight_of s' = filter (\<lambda>e. now < if_deadline (snd e)) (inflight_of s)
     \<and> recipients frames
         = concat (map (\<lambda>e. if_live (cs_registry s) (if_from_handle e) @ if_live (cs_registry s) (if_to_handle e))
             (map snd (filter (\<lambda>e. if_deadline (snd e) \<le> now) (inflight_of s))))
     \<and> rpc' = rpc + of_nat (length frames) \<and> cp_inv cfg s'"
proof -
  have b: "bt_inv (inflight_of s)" and r: "reg_inv (cs_registry s)"
    using assms(1) by (simp_all add: cp_inv_def core_inv_def)
  have s': "snd (snd (sweep_deadlines wire now rpc s)) = s'" using assms(2) by simp
  have "inflight_of s' = filter (\<lambda>e. \<not> if_deadline (snd e) \<le> now) (inflight_of s)"
    unfolding s' [symmetric] sweep_state [OF b] by simp
  moreover have "cp_inv cfg s'" using sweep_inv [OF assms(1), of wire now rpc] s' by simp
  moreover have "expire_entries wire (map snd (filter (\<lambda>e. if_deadline (snd e) \<le> now) (inflight_of s))) rpc
      (set_inflight (filter (\<lambda>e. \<not> if_deadline (snd e) \<le> now) (inflight_of s)) s) = (frames, rpc', s')"
    using assms(2) by (simp only: sweep_deadlines_def extract_where_eq [OF b] prod.case)
  from expire_entries_recipients [OF _ this] r
  have "recipients frames
      = concat (map (\<lambda>e. if_live (cs_registry s) (if_from_handle e) @ if_live (cs_registry s) (if_to_handle e))
          (map snd (filter (\<lambda>e. if_deadline (snd e) \<le> now) (inflight_of s))))
      \<and> rpc' = rpc + of_nat (length frames)"
    by simp
  ultimately show ?thesis by (simp add: not_le)
qed

theorem sweep_exact_witness:
  "inflight_of (snd (snd (sweep_deadlines y_wire 60000000000 8 y3))) = []
   \<and> recipients (fst (sweep_deadlines y_wire 60000000000 8 y3)) = [1, 2]"
proof -
  have p: "reg_get (cs_registry y3) 1 = Some ((y_inst y_primary 0)\<lparr>in_handle := 1\<rparr>)" by code_simp
  show ?thesis
    using sweep_exact [OF y3_inv, of y_wire 60000000000 8 "fst (sweep_deadlines y_wire 60000000000 8 y3)"
        "fst (snd (sweep_deadlines y_wire 60000000000 8 y3))" "snd (snd (sweep_deadlines y_wire 60000000000 8 y3))"]
      p y3_worker
    by (simp add: y3_inflight y_entry_def if_live_def)
qed

text \<open>When an instance is deregistered and then failed, no delegation mentions it any more, every
  delegation that did not mention it is as it was, and for each one that did the other end gets
  one frame if it is still registered. Done twice, the second time does nothing.\<close>

theorem failed_instance_forgotten:
  assumes "cp_inv cfg s" and "reg_get (cs_registry s) h = None"
    and "fail_instance wire h rpc s = (frames, rpc', s')"
  shows "inflight_of s' = filter (\<lambda>e. if_to_handle (snd e) \<noteq> h \<and> if_from_handle (snd e) \<noteq> h) (inflight_of s)
     \<and> recipients frames
         = concat (map (\<lambda>e. if_live (cs_registry s) (other_end h e))
             (map snd (filter (\<lambda>e. if_to_handle (snd e) = h \<or> if_from_handle (snd e) = h) (inflight_of s))))
     \<and> cp_inv cfg s' \<and> fail_instance wire h rpc' s' = ([], rpc', s')"
proof -
  have b: "bt_inv (inflight_of s)" and r: "reg_inv (cs_registry s)"
    using assms(1) by (simp_all add: cp_inv_def core_inv_def)
  let ?P = "\<lambda>e. if_to_handle e = h \<or> if_from_handle e = h"
  have s': "snd (snd (fail_instance wire h rpc s)) = s'" using assms(3) by simp
  have t: "inflight_of s' = filter (\<lambda>e. \<not> ?P (snd e)) (inflight_of s)"
    unfolding s' [symmetric] fail_state [OF b] by simp
  have "fail_entries wire h (map snd (filter (\<lambda>e. ?P (snd e)) (inflight_of s))) rpc
      (set_inflight (filter (\<lambda>e. \<not> ?P (snd e)) (inflight_of s)) s) = (frames, rpc', s')"
    using assms(3) by (simp only: fail_instance_def extract_where_eq [OF b] prod.case)
  from fail_entries_recipients [OF _ this] r
  have rec: "recipients frames
      = concat (map (\<lambda>e. if_live (cs_registry s) (other_end h e)) (map snd (filter (\<lambda>e. ?P (snd e)) (inflight_of s))))"
    by simp
  have i: "cp_inv cfg s'" using fail_inv [OF assms(1,2), of wire rpc] s' by simp
  then have b': "bt_inv (inflight_of s')" by (simp add: cp_inv_def core_inv_def)
  have none: "filter (\<lambda>e. ?P (snd e)) (inflight_of s') = []" "filter (\<lambda>e. \<not> ?P (snd e)) (inflight_of s') = inflight_of s'"
    unfolding t by (auto simp: filter_empty_conv filter_id_conv)
  have "set_inflight (inflight_of s') s' = s'" by (simp add: set_inflight_def inflight_of_def)
  then have "fail_instance wire h rpc' s' = ([], rpc', s')"
    by (simp only: fail_instance_def extract_where_eq [OF b'] none list.map prod.case fail_entries.simps)
  then show ?thesis using t rec i by simp
qed

definition y_gone :: cp_state where
  "y_gone = with_registry (snd (deregister 2 (cs_registry y3))) y3"

theorem failed_instance_forgotten_witness:
  "inflight_of (snd (snd (fail_instance y_wire 2 8 y_gone))) = []
   \<and> recipients (fst (fail_instance y_wire 2 8 y_gone)) = [1]"
proof -
  have p: "reg_get (cs_registry y3) 1 = Some ((y_inst y_primary 0)\<lparr>in_handle := 1\<rparr>)" by code_simp
  have i: "cp_inv y_cfg y_gone" unfolding y_gone_def by (rule deregister_inv [OF y3_inv])
  have g: "reg_get (cs_registry y_gone) 2 = None" by (simp add: y_gone_def)
  show ?thesis
    using failed_instance_forgotten [OF i g, of y_wire 8 "fst (fail_instance y_wire 2 8 y_gone)"
        "fst (snd (fail_instance y_wire 2 8 y_gone))" "snd (snd (fail_instance y_wire 2 8 y_gone))"] p
    by (simp add: y_gone_def y3_inflight y_entry_def if_live_def other_end_def)
qed

end
