(* ===== verification/Cp_Bound_Properties.thy ===== *)
theory Cp_Bound_Properties
  imports Cp_Example Cp_Effects
begin

section \<open>Selection, bounds and configuration\<close>

text \<open>
  Which instance a delegation goes to, how a result is cut to size, what a checked configuration
  guarantees, and the bounds on connections, sessions and queues of a running server.
\<close>

text \<open>Selection finds a registered instance of the namespace that fits the selector and has a
  free slot, and none that fits and is free comes before it: by name the newest registration wins,
  by labels the least loaded one. It reports no target exactly when nothing fits, and saturation
  exactly when something fits and all that fits is full.\<close>

theorem selection_exact:
  assumes "reg_inv r"
  shows "(\<forall>i. select ns n w r = Inr i \<longrightarrow>
            reg_get r (in_handle i) = Some i \<and> in_namespace i = ns \<and> \<not> instance_saturated i
            \<and> (\<forall>x. n = Some x \<longrightarrow> in_name i = x) \<and> (\<forall>l. w = Some l \<longrightarrow> matches_labels l i)
            \<and> (\<forall>j\<in>set (select_matches ns n w r). \<not> instance_saturated j \<longrightarrow>
                 select_key (n \<noteq> None) i \<le> select_key (n \<noteq> None) j))
     \<and> (select ns n w r = Inl NoTarget \<longleftrightarrow> select_matches ns n w r = [])
     \<and> (select ns n w r = Inl AllSaturated \<longleftrightarrow>
          select_matches ns n w r \<noteq> [] \<and> (\<forall>j\<in>set (select_matches ns n w r). instance_saturated j))
     \<and> (\<forall>j. j \<in> set (select_matches ns n w r) \<longleftrightarrow>
          reg_get r (in_handle j) = Some j \<and> in_namespace j = ns
          \<and> (\<forall>x. n = Some x \<longrightarrow> in_name j = x) \<and> (\<forall>l. w = Some l \<longrightarrow> matches_labels l j))"
proof -
  have one: "reg_get r (in_handle i) = Some i \<and> in_namespace i = ns \<and> \<not> instance_saturated i
            \<and> (\<forall>x. n = Some x \<longrightarrow> in_name i = x) \<and> (\<forall>l. w = Some l \<longrightarrow> matches_labels l i)
            \<and> (\<forall>j\<in>set (select_matches ns n w r). \<not> instance_saturated j \<longrightarrow>
                 select_key (n \<noteq> None) i \<le> select_key (n \<noteq> None) j)"
    if "select ns n w r = Inr i" for i
    using select_Inr [OF that] in_select_matches [OF assms, of i ns n w] select_first [OF that] by blast
  have two: "select ns n w r = Inl NoTarget \<longleftrightarrow> select_matches ns n w r = []"
    by (simp add: select_eq)
  have three: "select ns n w r = Inl AllSaturated \<longleftrightarrow>
      select_matches ns n w r \<noteq> [] \<and> (\<forall>j\<in>set (select_matches ns n w r). instance_saturated j)"
    by (simp add: select_eq)
  show ?thesis
    by (rule conjI, rule allI, rule impI, erule one, rule conjI, rule two, rule conjI, rule three,
        rule allI, rule in_select_matches [OF assms])
qed

theorem selection_exact_witness:
  "select ''n'' (Some ''w'') None (cs_registry y3) = Inl AllSaturated
   \<and> select ''m'' (Some ''w'') None (cs_registry y3) = Inl NoTarget"
proof -
  have r: "reg_inv (cs_registry y3)" using y3_inv by (simp add: cp_inv_def core_inv_def)
  have "select_matches ''n'' (Some ''w'') None (cs_registry y3)
      = [(y_inst y_worker 1)\<lparr>in_handle := 2, in_active_sessions := 1\<rparr>]"
    "select_matches ''m'' (Some ''w'') None (cs_registry y3) = []"
    by code_simp+
  then show ?thesis
    using selection_exact [OF r, of "''n''" "Some ''w''" None] selection_exact [OF r, of "''m''" "Some ''w''" None]
    by (simp add: instance_saturated_def y_inst_def)
qed

text \<open>A result is never longer than the limit after it was cut; one within the limit is passed on
  as it is; and a longer one, when the limit leaves room for the marker, is its longest prefix up
  to a character boundary that fits, followed by the marker with the original size.\<close>

theorem truncation_bounded:
  "length (truncate_result m r) \<le> m
   \<and> (length r \<le> m \<longrightarrow> truncate_result m r = r)
   \<and> (m < length r \<and> length (truncation_marker (length r)) \<le> m \<longrightarrow>
        (\<exists>cut. truncate_result m r = take cut r @ truncation_marker (length r)
           \<and> is_char_boundary r cut \<and> cut + length (truncation_marker (length r)) \<le> m
           \<and> (\<forall>b. is_char_boundary r b \<and> b + length (truncation_marker (length r)) \<le> m \<longrightarrow> b \<le> cut)))"
proof -
  let ?k = "truncation_marker (length r)"
  let ?cut = "floor_char_boundary r (m - length ?k)"
  have cut: "?cut \<le> m - length ?k" using floor_char_boundary_le by blast
  have greatest: "is_char_boundary s b \<Longrightarrow> b \<le> n \<Longrightarrow> b \<le> back_to_boundary s n" for s b n
    by (induction n) (auto simp: le_Suc_eq)
  have great: "b \<le> ?cut" if "is_char_boundary r b" "b + length ?k \<le> m" for b
    unfolding floor_char_boundary_def
    using that by (intro greatest) (auto simp: is_char_boundary_def)
  show ?thesis
  proof (intro conjI impI)
    define out where "out = take ?cut r @ ?k"
    have "truncate_result m r
        = (if m < length r then if m < length out then take (floor_char_boundary out m) out else out else r)"
      unfolding truncate_result_def Let_def out_def by (rule refl)
    moreover have "length (take (floor_char_boundary out m) out) \<le> m"
      using floor_char_boundary_le [of out m] by simp
    ultimately show "length (truncate_result m r) \<le> m"
      by (cases "m < length r"; cases "m < length out") (simp_all del: length_take)
    show "truncate_result m r = r" if "length r \<le> m" using that by (simp add: truncate_result_def)
    assume long: "m < length r \<and> length ?k \<le> m"
    show "\<exists>cut. truncate_result m r = take cut r @ ?k \<and> is_char_boundary r cut \<and> cut + length ?k \<le> m
        \<and> (\<forall>b. is_char_boundary r b \<and> b + length ?k \<le> m \<longrightarrow> b \<le> cut)"
    proof (intro exI conjI allI impI)
      show "truncate_result m r = take ?cut r @ ?k"
      proof -
        have "length (take ?cut r @ ?k) \<le> ?cut + length ?k" by simp
        then have "\<not> m < length (take ?cut r @ ?k)" using long cut by linarith
        then show ?thesis
          unfolding truncate_result_def Let_def by (simp only: long [THEN conjunct1] if_True if_False)
      qed
      show "is_char_boundary r ?cut" by (rule floor_char_boundary_boundary)
      show "?cut + length ?k \<le> m" using long cut by linarith
      show "b \<le> ?cut" if "is_char_boundary r b \<and> b + length ?k \<le> m" for b using that great by blast
    qed
  qed
qed

theorem truncation_bounded_witness:
  "length (truncate_result 60 (replicate 100 (CHR ''a''))) \<le> 60
   \<and> (\<exists>cut. truncate_result 60 (replicate 100 (CHR ''a'')) = take cut (replicate 100 (CHR ''a'')) @ truncation_marker 100)"
proof -
  have "length (truncation_marker 100) \<le> 60"
    by code_simp
  moreover have "length (replicate 100 (CHR ''a'')) = 100" by (rule length_replicate)
  ultimately show ?thesis
    using truncation_bounded [of 60 "replicate 100 (CHR ''a'')"] by (simp only: length_replicate) auto
qed

text \<open>A configuration that passes its checks binds every key to exactly one identity and every
  identity to exactly one key, gives each registered runtime a positive clamp that its advertised
  budget cannot exceed, and, unless it says so explicitly, listens on an IPv4 address only if that
  address is in 127.0.0.0/8.\<close>

theorem checked_config_sound:
  assumes "config_validate cfg = Inr ()"
  shows "(\<forall>key a. identity_for_key cfg key = Some a \<longleftrightarrow> a \<in> set (cc_agents cfg) \<and> bi_key a = key)
     \<and> (\<forall>a\<in>set (cc_agents cfg). \<forall>b\<in>set (cc_agents cfg).
          bi_namespace a = bi_namespace b \<and> bi_name a = bi_name b \<longrightarrow> a = b)
     \<and> (\<forall>key a. identity_for_key cfg key = Some a \<longrightarrow> trim key \<noteq> [])
     \<and> (\<forall>a n. effective_max_sessions cfg a n \<le> n
          \<and> effective_max_sessions cfg a n
              \<le> (case bi_max_sessions_cap a of Some c \<Rightarrow> c | None \<Rightarrow> cc_default_max_delegated_sessions_cap cfg))
     \<and> (\<forall>a b c d port. \<not> cc_allow_insecure_bind cfg \<and> a \<le> 255 \<and> b \<le> 255 \<and> c \<le> 255 \<and> d \<le> 255
          \<and> CHR '':'' \<notin> set port \<and> cc_listen cfg = ipv4_str a b c d @ CHR '':'' # port \<longrightarrow> a = 127)"
proof -
  have v: "check_agents [] [] (cc_agents cfg) = Inr ()" "cc_allow_insecure_bind cfg \<or> is_loopback (cc_listen cfg)"
    using assms by (simp_all add: config_validate_iff)
  then have d: "distinct (map bi_key (cc_agents cfg))"
      "distinct (map (\<lambda>a. (bi_namespace a, bi_name a)) (cc_agents cfg))"
      "\<forall>a\<in>set (cc_agents cfg). trim (bi_key a) \<noteq> []"
    by (simp_all add: check_agents_iff)
  note look = identity_for_key_Some [OF d(1)]
  have names: "a = b" if "a \<in> set (cc_agents cfg)" "b \<in> set (cc_agents cfg)"
    "bi_namespace a = bi_namespace b \<and> bi_name a = bi_name b" for a b
    using inj_onD [of "\<lambda>a. (bi_namespace a, bi_name a)" "set (cc_agents cfg)" a b] d(2) that
    by (simp add: distinct_map)
  have listen: "a = 127"
    if h: "\<not> cc_allow_insecure_bind cfg \<and> a \<le> 255 \<and> b \<le> 255 \<and> c \<le> 255 \<and> d \<le> 255
          \<and> CHR '':'' \<notin> set port \<and> cc_listen cfg = ipv4_str a b c d @ CHR '':'' # port" for a b c d port
  proof -
    have "is_loopback (ipv4_str a b c d @ CHR '':'' # port)" using h v(2) by simp
    then show ?thesis using is_loopback_ipv4 [of a b c d port] h by blast
  qed
  show ?thesis
  proof (intro conjI allI impI ballI)
    show "identity_for_key cfg key = Some a \<longleftrightarrow> a \<in> set (cc_agents cfg) \<and> bi_key a = key" for key a by (rule look)
    show "a = b" if "a \<in> set (cc_agents cfg)" "b \<in> set (cc_agents cfg)"
      "bi_namespace a = bi_namespace b \<and> bi_name a = bi_name b" for a b by (rule names [OF that])
    show "trim key \<noteq> []" if "identity_for_key cfg key = Some a" for key a
      using that d(3) look [of key a] by blast
    show "effective_max_sessions cfg a n \<le> n" for a n by (simp add: effective_max_sessions_def)
    show "effective_max_sessions cfg a n
      \<le> (case bi_max_sessions_cap a of Some c \<Rightarrow> c | None \<Rightarrow> cc_default_max_delegated_sessions_cap cfg)" for a n
      by (simp add: effective_max_sessions_def)
  qed (rule listen)
qed

lemma y_checked: "config_validate y_cfg = Inr ()"
proof -
  have "is_loopback ''localhost:9800''"
    by (simp add: is_loopback_def before_last_colon_def)
  moreover have "check_agents [] [] [y_primary, y_worker] = Inr ()" by code_simp
  ultimately show ?thesis by (simp add: config_validate_iff y_cfg_def)
qed

theorem checked_config_sound_witness:
  "identity_for_key y_cfg ''kw'' = Some y_worker \<and> identity_for_key y_cfg ''k'' = None"
proof -
  have k: "bi_key y_primary = ''kp''" "bi_key y_worker = ''kw''" "cc_agents y_cfg = [y_primary, y_worker]"
    by (simp_all add: y_primary_def y_worker_def y_cfg_def)
  note look = checked_config_sound [OF y_checked, THEN conjunct1, rule_format]
  have "identity_for_key y_cfg ''kw'' = Some y_worker" unfolding look k(3) using k by simp
  moreover have "identity_for_key y_cfg ''k'' \<noteq> Some a" for a
    unfolding look k(3) using k by auto
  ultimately show ?thesis by (cases "identity_for_key y_cfg ''k''") auto
qed

text \<open>C11: In every state a server can reach, an identity has at most as many open connections as its
  quota and at most as many registered instances as open connections; every registered instance
  belongs to an open link and carries the namespace, the name and the type of that link's
  identity; its sessions stay within its maximum and that within the clamp of the configuration;
  and every outbound queue stays within its bytes and its 256 entries.\<close>

theorem server_within_bounds:
  assumes "(sv_step js cfg)\<^sup>*\<^sup>* (new_server cfg) sv" and "\<forall>ns. np_max_depth (policy_for cfg ns) \<noteq> - 1"
  shows "instances_of key (cs_registry (ap_cp (sv_app sv))) \<le> bt_count (\<lambda>l. link_key l = key) (sv_links sv)
     \<and> bt_count (\<lambda>l. link_key l = key) (sv_links sv) = unat (conn_count key (sv_app sv))
     \<and> conn_count key (sv_app sv) \<le> cc_max_connections_per_identity cfg
     \<and> (\<forall>h i. reg_get (cs_registry (ap_cp (sv_app sv))) h = Some i \<longrightarrow>
          (\<exists>l. bt_get (sv_links sv) (in_tx i) = Some l \<and> owns cfg (in_tx i) l h i)
          \<and> in_active_sessions i \<le> in_max_sessions i)
     \<and> (\<forall>c. ob_reserved (cs_queues (ap_cp (sv_app sv)) c) \<le> cc_max_outbound_queue_bytes cfg
          \<and> ob_reserved (cs_queues (ap_cp (sv_app sv)) c)
              = sum_list (map length (ob_frames (cs_queues (ap_cp (sv_app sv)) c)))
          \<and> length (ob_frames (cs_queues (ap_cp (sv_app sv)) c)) \<le> 256)"
proof -
  have i: "sv_inv cfg sv" by (rule server.run_inv [OF assms(1) new_server_inv [OF assms(2)]])
  have cp: "cp_inv cfg (ap_cp (sv_app sv))" and q: "queues_ok cfg (ap_cp (sv_app sv))"
    and cn: "conns_ok cfg sv" and lk: "links_ok cfg sv"
    using i by (simp_all add: sv_inv_def)
  have r: "reg_inv (cs_registry (ap_cp (sv_app sv)))" using cp by (simp add: cp_inv_def core_inv_def)
  have "in_active_sessions j \<le> in_max_sessions j" if "reg_get (cs_registry (ap_cp (sv_app sv))) h = Some j" for h j
    using cp that by (simp add: cp_inv_def capacity_inv_def)
  moreover have "\<exists>l. bt_get (sv_links sv) (in_tx j) = Some l \<and> owns cfg (in_tx j) l h j"
    if "reg_get (cs_registry (ap_cp (sv_app sv))) h = Some j" for h j
    using links_owner [OF lk that] by blast
  moreover have "ob_reserved (cs_queues (ap_cp (sv_app sv)) c) \<le> cc_max_outbound_queue_bytes cfg
      \<and> ob_reserved (cs_queues (ap_cp (sv_app sv)) c)
          = sum_list (map length (ob_frames (cs_queues (ap_cp (sv_app sv)) c)))
      \<and> length (ob_frames (cs_queues (ap_cp (sv_app sv)) c)) \<le> 256" for c
  proof -
    have "queue_inv (cs_queues (ap_cp (sv_app sv)) c)"
      "ob_max (cs_queues (ap_cp (sv_app sv)) c) = cc_max_outbound_queue_bytes cfg"
      using q by (simp_all add: queues_ok_def)
    then show ?thesis unfolding queue_inv_def OUTBOUND_QUEUE_def by simp
  qed
  moreover have "bt_count (\<lambda>l. link_key l = key) (sv_links sv) = unat (conn_count key (sv_app sv))"
    "conn_count key (sv_app sv) \<le> cc_max_connections_per_identity cfg"
    using cn by (simp_all add: conns_ok_def)
  ultimately show ?thesis using instances_bounded_by_links [OF lk r, of key] by blast
qed

text \<open>Two upgrades with the worker's key: the second is over the quota of one.\<close>

definition y_sv :: server where
  "y_sv = sv_accept y_cfg (Some ''Bearer kw'') (sv_accept y_cfg (Some ''Bearer kw'') (new_server y_cfg))"

lemma y_sv_run: "(sv_step js y_cfg)\<^sup>*\<^sup>* (new_server y_cfg) y_sv"
  unfolding y_sv_def
  by (rule rtranclp.rtrancl_into_rtrancl [OF r_into_rtranclp [where r = "sv_step js y_cfg"]]) (rule sv_accepts)+

theorem server_within_bounds_witness:
  "bt_count (\<lambda>l. link_key l = ''n/w'') (sv_links y_sv) \<le> 1 \<and> sv_next y_sv = 1"
proof -
  have "sv_next y_sv = 1" by code_simp
  moreover have "conn_count ''n/w'' (sv_app y_sv) \<le> 1"
    using server_within_bounds [OF y_sv_run y_depth, where key = "''n/w''"] by (simp add: y_cfg_def)
  ultimately show ?thesis
    using server_within_bounds [OF y_sv_run y_depth, where key = "''n/w''"] by (simp add: word_le_nat_alt)
qed

text \<open>Expanding a configuration text replaces each variable by its value, an unset one by
  nothing, and leaves the rest of the text as it is.\<close>

theorem expand_env_exact:
  "(split_at ''${'' a = None \<longrightarrow> expand_env env a = a)
   \<and> (split_at ''${'' a = None \<and> CHR ''}'' \<notin> set var \<longrightarrow>
        expand_env env (a @ ''${'' @ var @ ''}'' @ b)
          = a @ (case env var of Some v \<Rightarrow> v | None \<Rightarrow> []) @ expand_env env b)
   \<and> (split_at ''${'' a = None \<and> CHR ''}'' \<notin> set b \<longrightarrow> expand_env env (a @ ''${'' @ b) = a @ ''${'' @ b)"
proof -
  have "expand_env env (a @ ''${'' @ b) = a @ ''${'' @ b" if "split_at ''${'' a = None" "CHR ''}'' \<notin> set b"
  proof -
    have "split_once (CHR ''}'') b = None"
      using that(2) split_once_Some [of "CHR ''}''" b] by (cases "split_once (CHR ''}'') b") auto
    then show ?thesis using split_at_var [OF that(1), of b] by (subst expand_env.simps) simp
  qed
  then show ?thesis using expand_env_plain expand_env_var by blast
qed

theorem expand_env_exact_witness:
  "expand_env [''K'' \<mapsto> ''v''] ''key = ${K}.'' = ''key = v.''"
proof -
  have "split_at ''${'' ''key = '' = None" "split_at ''${'' ''.'' = None" by simp_all
  then show ?thesis
    using expand_env_exact [of "''key = ''" "[''K'' \<mapsto> ''v'']" "''K''" "''.''"]
      expand_env_exact [of "''.''" "[''K'' \<mapsto> ''v'']" "''K''" "''.''"] by simp
qed

end
