(* ===== verification/Delivery_Record.thy ===== *)
theory Delivery_Record
  imports Host
begin

section \<open>Terminal delivery records\<close>

text \<open>
  \<^verbatim>\<open>terminal_delivery.rs\<close>, the types and the checks: the durable record of one final
  answer that a user is owed, its eight states and the table of legal transitions, the identity
  of a record, and what may stand in an audit field. Times are nanoseconds since the epoch; the
  database keeps microseconds. The JSON printer and SHA-256 are parameters.
\<close>

subsection \<open>JSON values\<close>

datatype jvalue =
    JNull
  | JBool bool
  | JNumber string
  | JString string
  | JArray "jvalue list"
  | JObject "(string \<times> jvalue) list"

text \<open>\<^verbatim>\<open>Value::get\<close> with a string key, and \<^verbatim>\<open>Value::as_str\<close>.\<close>

fun json_get :: "string \<Rightarrow> jvalue \<Rightarrow> jvalue option" where
  "json_get k (JObject kvs) = map_of kvs k"
| "json_get k v = None"

fun json_as_str :: "jvalue \<Rightarrow> string option" where
  "json_as_str (JString s) = Some s"
| "json_as_str v = None"

subsection \<open>States\<close>

datatype delivery_state =
    PendingResult | ReadyToDeliver | Delivering | RetryScheduled | Ambiguous
  | DeliveredState | PermanentRejected | OperatorHold

fun state_str :: "delivery_state \<Rightarrow> string" where
  "state_str PendingResult = ''PENDING_RESULT''"
| "state_str ReadyToDeliver = ''READY_TO_DELIVER''"
| "state_str Delivering = ''DELIVERING''"
| "state_str RetryScheduled = ''RETRY_SCHEDULED''"
| "state_str Ambiguous = ''AMBIGUOUS''"
| "state_str DeliveredState = ''DELIVERED''"
| "state_str PermanentRejected = ''PERMANENT_REJECTED''"
| "state_str OperatorHold = ''OPERATOR_HOLD''"

datatype delivery_error =
    Storage string
  | SchemaVersion int
  | Corrupt string
  | Contention string
  | MalformedRecord string
  | InvalidInput string
  | PayloadConflict string
  | IllegalDelivery delivery_state delivery_state
  | ImmutableTerminalState delivery_state
  | RevisionConflict u64 u64 \<comment> \<open>expected, actual\<close>
  | LeaseTokenConflict
  | MissingDeliveryLeaseToken
  | DiscordMessageIdWriteOnce
  | UnsafeAuditField string

definition parse_state :: "string \<Rightarrow> delivery_error + delivery_state" where
  "parse_state s =
     (if s = ''PENDING_RESULT'' then Inr PendingResult
      else if s = ''READY_TO_DELIVER'' then Inr ReadyToDeliver
      else if s = ''DELIVERING'' then Inr Delivering
      else if s = ''RETRY_SCHEDULED'' then Inr RetryScheduled
      else if s = ''AMBIGUOUS'' then Inr Ambiguous
      else if s = ''DELIVERED'' then Inr DeliveredState
      else if s = ''PERMANENT_REJECTED'' then Inr PermanentRejected
      else if s = ''OPERATOR_HOLD'' then Inr OperatorHold
      else Inl (MalformedRecord ''unknown state''))"

definition is_contention :: "delivery_error \<Rightarrow> bool" where
  "is_contention e = (case e of Contention _ \<Rightarrow> True | _ \<Rightarrow> False)"

fun is_terminal :: "delivery_state \<Rightarrow> bool" where
  "is_terminal DeliveredState = True"
| "is_terminal PermanentRejected = True"
| "is_terminal s = False"

fun may_transition_to :: "delivery_state \<Rightarrow> delivery_state \<Rightarrow> bool" where
  "may_transition_to PendingResult n \<longleftrightarrow> n \<in> {ReadyToDeliver, OperatorHold}"
| "may_transition_to ReadyToDeliver n \<longleftrightarrow> n \<in> {Delivering, OperatorHold}"
| "may_transition_to Delivering n \<longleftrightarrow> n \<in> {DeliveredState, RetryScheduled, PermanentRejected, Ambiguous}"
| "may_transition_to RetryScheduled n \<longleftrightarrow> n \<in> {Delivering, OperatorHold}"
| "may_transition_to Ambiguous n \<longleftrightarrow> n \<in> {DeliveredState, OperatorHold}"
| "may_transition_to OperatorHold n \<longleftrightarrow> n \<in> {ReadyToDeliver, DeliveredState, PermanentRejected}"
| "may_transition_to DeliveredState n \<longleftrightarrow> False"
| "may_transition_to PermanentRejected n \<longleftrightarrow> False"

lemma parse_state_str [simp]: "parse_state (state_str s) = Inr s"
  by (cases s) (simp_all add: parse_state_def)

lemma terminal_has_no_move: "is_terminal s \<Longrightarrow> \<not> may_transition_to s n"
  by (cases s) auto

subsection \<open>Records\<close>

type_synonym instant = int

record new_delivery =
  nd_turn_id :: string
  nd_platform :: string
  nd_channel_id :: string
  nd_thread_id :: "string option"
  nd_acp_request_id :: string
  nd_acp_session_id :: string
  nd_runtime_run_id :: string
  nd_workflow_run_id :: "string option"
  nd_conversation_id :: string
  nd_response_sequence :: u64
  nd_payload :: jvalue

record delivery_record =
  dr_version :: int
  dr_key :: string
  dr_turn_id :: string
  dr_platform :: string
  dr_channel_id :: string
  dr_thread_id :: "string option"
  dr_acp_request_id :: string
  dr_acp_session_id :: string
  dr_runtime_run_id :: string
  dr_workflow_run_id :: "string option"
  dr_conversation_id :: string
  dr_response_sequence :: u64
  dr_payload :: jvalue
  dr_payload_digest :: string
  dr_state :: delivery_state
  dr_attempt_count :: u64
  dr_next_attempt_at :: "instant option"
  dr_last_failure :: "string option"
  dr_last_safe_error :: "string option"
  dr_message_id :: "string option"
  dr_hold_reason :: "string option"
  dr_created_at :: instant
  dr_updated_at :: instant
  dr_delivered_at :: "instant option"
  dr_revision :: u64
  dr_lease_token :: "string option"
  dr_started_at :: "instant option"

record delivery_event =
  ev_key :: string
  ev_previous :: "delivery_state option"
  ev_new :: delivery_state
  ev_revision :: u64
  ev_reason :: string
  ev_timestamp :: instant

text \<open>An outer \<^verbatim>\<open>None\<close> keeps the field, an inner one clears it.\<close>

record transition_update =
  up_attempt_count :: "u64 option"
  up_next_attempt_at :: "instant option option"
  up_last_failure :: "string option option"
  up_last_safe_error :: "string option option"
  up_message_id :: "string option"
  up_hold_reason :: "string option option"
  up_lease_token :: "string option option"
  up_started_at :: "instant option option"

definition update_default :: transition_update where
  "update_default =
     \<lparr>up_attempt_count = None, up_next_attempt_at = None, up_last_failure = None,
      up_last_safe_error = None, up_message_id = None, up_hold_reason = None,
      up_lease_token = None, up_started_at = None\<rparr>"

subsection \<open>Identity\<close>

record key_material =
  km_version :: int
  km_turn_id :: string
  km_platform :: string
  km_channel_id :: string
  km_thread_normalized :: string
  km_acp_request_id :: string
  km_runtime_run_id :: string
  km_workflow_normalized :: string
  km_conversation_id :: string
  km_response_sequence :: u64
  km_payload :: jvalue

record delivery_codec =
  dc_json :: "jvalue \<Rightarrow> string option"
  dc_key_json :: "key_material \<Rightarrow> string option"
  dc_sha :: "string \<Rightarrow> string"

definition record_version :: int where
  "record_version = 1"

definition canonical_json :: "('v \<Rightarrow> string option) \<Rightarrow> 'v \<Rightarrow> delivery_error + string" where
  "canonical_json print v = (case print v of Some s \<Rightarrow> Inr s | None \<Rightarrow> Inl (InvalidInput ''terminal_payload''))"

definition sha256_hex :: "delivery_codec \<Rightarrow> string \<Rightarrow> string" where
  "sha256_hex cx s = concat (map hex_byte (dc_sha cx s))"

definition normalize :: "string option \<Rightarrow> string" where
  "normalize v = (case v of Some s \<Rightarrow> s | None \<Rightarrow> [])"

definition blank :: "string \<Rightarrow> bool" where
  "blank s \<longleftrightarrow> trim s = []"

definition validate_new :: "new_delivery \<Rightarrow> delivery_error + unit" where
  "validate_new n =
     (if \<exists>v\<in>set [nd_turn_id n, nd_platform n, nd_channel_id n, nd_acp_request_id n,
                 nd_acp_session_id n, nd_runtime_run_id n, nd_conversation_id n]. blank v
      then Inl (InvalidInput ''required identifier'')
      else if (\<exists>s\<in>set_option (nd_thread_id n). blank s) \<or> (\<exists>s\<in>set_option (nd_workflow_run_id n). blank s)
      then Inl (InvalidInput ''optional identifier'')
      else Inr ())"

definition key_material_of :: "new_delivery \<Rightarrow> key_material" where
  "key_material_of n =
     \<lparr>km_version = record_version, km_turn_id = nd_turn_id n, km_platform = nd_platform n,
      km_channel_id = nd_channel_id n, km_thread_normalized = normalize (nd_thread_id n),
      km_acp_request_id = nd_acp_request_id n, km_runtime_run_id = nd_runtime_run_id n,
      km_workflow_normalized = normalize (nd_workflow_run_id n),
      km_conversation_id = nd_conversation_id n, km_response_sequence = nd_response_sequence n,
      km_payload = nd_payload n\<rparr>"

definition terminal_delivery_key :: "delivery_codec \<Rightarrow> new_delivery \<Rightarrow> delivery_error + string" where
  "terminal_delivery_key cx n =
     (case validate_new n of
        Inl e \<Rightarrow> Inl e
      | Inr _ \<Rightarrow>
          (case canonical_json (dc_key_json cx) (key_material_of n) of
             Inl e \<Rightarrow> Inl e
           | Inr s \<Rightarrow> Inr (sha256_hex cx s)))"

text \<open>The columns of the table's uniqueness constraint.\<close>

record semantic_slot =
  ss_version :: int
  ss_turn_id :: string
  ss_platform :: string
  ss_channel_id :: string
  ss_thread_normalized :: string
  ss_response_sequence :: u64
  ss_runtime_run_id :: string
  ss_workflow_normalized :: string

definition slot_from_input :: "new_delivery \<Rightarrow> semantic_slot" where
  "slot_from_input n =
     \<lparr>ss_version = record_version, ss_turn_id = nd_turn_id n, ss_platform = nd_platform n,
      ss_channel_id = nd_channel_id n, ss_thread_normalized = normalize (nd_thread_id n),
      ss_response_sequence = nd_response_sequence n, ss_runtime_run_id = nd_runtime_run_id n,
      ss_workflow_normalized = normalize (nd_workflow_run_id n)\<rparr>"

definition slot_of_record :: "delivery_record \<Rightarrow> semantic_slot" where
  "slot_of_record r =
     \<lparr>ss_version = dr_version r, ss_turn_id = dr_turn_id r, ss_platform = dr_platform r,
      ss_channel_id = dr_channel_id r, ss_thread_normalized = normalize (dr_thread_id r),
      ss_response_sequence = dr_response_sequence r, ss_runtime_run_id = dr_runtime_run_id r,
      ss_workflow_normalized = normalize (dr_workflow_run_id r)\<rparr>"

subsection \<open>Checks\<close>

definition safe_byte :: "char \<Rightarrow> bool" where
  "safe_byte c \<longleftrightarrow>
     c \<in> set ''ABCDEFGHIJKLMNOPQRSTUVWXYZ'' \<or> c \<in> set ''0123456789'' \<or> c \<in> set ''_-.:''"

definition str_contains :: "string \<Rightarrow> string \<Rightarrow> bool" where
  "str_contains s pat \<longleftrightarrow> split_at pat s \<noteq> None"

definition validate_safe_field :: "string \<Rightarrow> string \<Rightarrow> delivery_error + unit" where
  "validate_safe_field v name =
     (if v = [] \<or> 256 < length v \<or> \<not> list_all safe_byte v
         \<or> str_contains (map ascii_lower v) ''bearer''
         \<or> str_contains (map ascii_lower v) ''token''
         \<or> str_contains (map ascii_lower v) ''authorization''
      then Inl (UnsafeAuditField name) else Inr ())"

fun validate_safe_fields :: "string \<Rightarrow> string list \<Rightarrow> delivery_error + unit" where
  "validate_safe_fields name [] = Inr ()"
| "validate_safe_fields name (v # vs) =
     (case validate_safe_field v name of Inl e \<Rightarrow> Inl e | Inr _ \<Rightarrow> validate_safe_fields name vs)"

definition opt_list :: "'a option \<Rightarrow> 'a list" where
  "opt_list v = (case v of Some x \<Rightarrow> [x] | None \<Rightarrow> [])"

definition validate_transition_update :: "transition_update \<Rightarrow> delivery_error + unit" where
  "validate_transition_update u =
     validate_safe_fields ''safe field''
       (concat (map (\<lambda>v. case v of Some (Some s) \<Rightarrow> [s] | _ \<Rightarrow> [])
          [up_last_failure u, up_last_safe_error u, up_hold_reason u]))"

definition input_of_record :: "delivery_record \<Rightarrow> new_delivery" where
  "input_of_record r =
     \<lparr>nd_turn_id = dr_turn_id r, nd_platform = dr_platform r, nd_channel_id = dr_channel_id r,
      nd_thread_id = dr_thread_id r, nd_acp_request_id = dr_acp_request_id r,
      nd_acp_session_id = dr_acp_session_id r, nd_runtime_run_id = dr_runtime_run_id r,
      nd_workflow_run_id = dr_workflow_run_id r, nd_conversation_id = dr_conversation_id r,
      nd_response_sequence = dr_response_sequence r, nd_payload = dr_payload r\<rparr>"

definition validate_record :: "delivery_codec \<Rightarrow> delivery_record \<Rightarrow> delivery_error + unit" where
  "validate_record cx r =
     (if dr_version r \<noteq> record_version then Inl (MalformedRecord ''record_version'')
      else case validate_new (input_of_record r) of
             Inl e \<Rightarrow> Inl e
           | Inr _ \<Rightarrow>
               (case terminal_delivery_key cx (input_of_record r) of
                  Inl e \<Rightarrow> Inl e
                | Inr k \<Rightarrow>
                    if k \<noteq> dr_key r then Inl (MalformedRecord ''terminal_delivery_key mismatch'')
                    else case canonical_json (dc_json cx) (dr_payload r) of
                           Inl e \<Rightarrow> Inl e
                         | Inr s \<Rightarrow>
                             if sha256_hex cx s \<noteq> dr_payload_digest r
                             then Inl (MalformedRecord ''terminal_payload_digest mismatch'')
                             else validate_safe_fields ''persisted safe field''
                                    (opt_list (dr_last_failure r) @ opt_list (dr_last_safe_error r)
                                     @ opt_list (dr_hold_reason r))))"

text \<open>What a time becomes on its way through the database: microseconds, cut off.\<close>

definition timestamp :: "instant \<Rightarrow> instant" where
  "timestamp t = (t div 1000) * 1000"

lemma timestamp_idem [simp]: "timestamp (timestamp t) = timestamp t"
  by (simp add: timestamp_def)

lemma timestamp_mono: "s \<le> t \<Longrightarrow> timestamp s \<le> timestamp t"
  by (simp add: timestamp_def zdiv_mono1)

end
