(* ===== verification/Delivery_Store.thy ===== *)
theory Delivery_Store
  imports Delivery_Record "HOL-Library.Product_Lexorder" "HOL-Library.Option_ord"
    "HOL-Library.List_Lexorder" "HOL-Library.Char_ord"
begin

section \<open>The store of terminal deliveries\<close>

text \<open>
  \<^verbatim>\<open>terminal_delivery.rs\<close>, the repository: the two tables of the database and the
  operations on them, one definition per method. Each method runs one immediate transaction, so it
  is one atomic step on the database; a SQLite call that fails aborts the transaction and leaves the
  database as it was. The SQL statements are read as operations on the list of rows (in the order of
  insertion) and on the list of audit events.
\<close>

subsection \<open>The database\<close>

record delivery_db =
  db_version :: int
  db_rows :: "delivery_record list"
  db_events :: "delivery_event list"

text \<open>What the world contributes to a call: the clock, and the failure of a SQLite call if there is one.\<close>

record tx_input =
  ti_now :: instant
  ti_fail :: "delivery_error option"

definition sql :: "tx_input \<Rightarrow> delivery_db \<Rightarrow> (delivery_error + 'a) \<times> delivery_db \<Rightarrow> (delivery_error + 'a) \<times> delivery_db" where
  "sql i d outcome = (case ti_fail i of Some e \<Rightarrow> (Inl e, d) | None \<Rightarrow> outcome)"

definition select_record :: "string \<Rightarrow> delivery_db \<Rightarrow> delivery_record option" where
  "select_record key d = List.find (\<lambda>r. dr_key r = key) (db_rows d)"

definition select_slot :: "semantic_slot \<Rightarrow> delivery_db \<Rightarrow> delivery_record option" where
  "select_slot slot d = List.find (\<lambda>r. slot_of_record r = slot) (db_rows d)"

definition insert_event ::
  "string \<Rightarrow> delivery_state option \<Rightarrow> delivery_state \<Rightarrow> u64 \<Rightarrow> string \<Rightarrow> instant \<Rightarrow> delivery_db \<Rightarrow> delivery_db" where
  "insert_event key previous new revision reason at d =
     d\<lparr>db_events := db_events d @
        [\<lparr>ev_key = key, ev_previous = previous, ev_new = new, ev_revision = revision,
          ev_reason = reason, ev_timestamp = timestamp at\<rparr>]\<rparr>"

definition set_row :: "string \<Rightarrow> delivery_record \<Rightarrow> delivery_db \<Rightarrow> delivery_db" where
  "set_row key r d = d\<lparr>db_rows := update_first (\<lambda>x. dr_key x = key) (\<lambda>_. r) (db_rows d)\<rparr>"

text \<open>The unique index on \<^verbatim>\<open>(platform, discord_message_id)\<close>, which skips the rows without an id.\<close>

definition message_id_clash :: "delivery_record \<Rightarrow> delivery_db \<Rightarrow> bool" where
  "message_id_clash r d \<longleftrightarrow>
     dr_message_id r \<noteq> None
     \<and> (\<exists>x\<in>set (db_rows d). dr_key x \<noteq> dr_key r \<and> dr_platform x = dr_platform r
          \<and> dr_message_id x = dr_message_id r)"

definition unique_violation :: delivery_error where
  "unique_violation =
     Storage ''UNIQUE constraint failed: terminal_deliveries.platform, terminal_deliveries.discord_message_id''"

text \<open>An update of the row and its audit event, in the transaction that read \<open>current\<close>.\<close>

definition write_row ::
  "delivery_record \<Rightarrow> delivery_record \<Rightarrow> string \<Rightarrow> instant \<Rightarrow> delivery_db
     \<Rightarrow> (delivery_error + delivery_record) \<times> delivery_db" where
  "write_row current r reason now d =
     (if message_id_clash r d then (Inl unique_violation, d)
      else (Inr r,
            insert_event (dr_key current) (Some (dr_state current)) (dr_state r) (dr_revision r) reason now
              (set_row (dr_key current) r d)))"

subsection \<open>Opening\<close>

definition terminal_delivery_schema_version :: int where
  "terminal_delivery_schema_version = 1"

fun validate_rows :: "delivery_codec \<Rightarrow> delivery_record list \<Rightarrow> delivery_error + unit" where
  "validate_rows cx [] = Inr ()"
| "validate_rows cx (r # rs) = (case validate_record cx r of Inl e \<Rightarrow> Inl e | Inr _ \<Rightarrow> validate_rows cx rs)"

text \<open>
  \<open>quick\<close> is what \<^verbatim>\<open>PRAGMA quick_check\<close> answers. The schema is committed before the
  checks run, so the two parts fail on their own.
\<close>

definition initialize_and_validate ::
  "delivery_codec \<Rightarrow> string \<Rightarrow> tx_input \<Rightarrow> tx_input \<Rightarrow> delivery_db \<Rightarrow> (delivery_error + unit) \<times> delivery_db" where
  "initialize_and_validate cx quick i j d =
     (case sql i d
        (if db_version d = 0 then (Inr (), \<lparr>db_version = 1, db_rows = [], db_events = []\<rparr>)
         else if db_version d \<noteq> terminal_delivery_schema_version then (Inl (SchemaVersion (db_version d)), d)
         else (Inr (), d)) of
        (Inl e, d1) \<Rightarrow> (Inl e, d1)
      | (Inr _, d1) \<Rightarrow>
          sql j d1
            (if quick \<noteq> ''ok'' then (Inl (Corrupt quick), d1)
             else (validate_rows cx (db_rows d1), d1)))"

subsection \<open>Creating\<close>

definition new_row :: "new_delivery \<Rightarrow> string \<Rightarrow> string \<Rightarrow> instant \<Rightarrow> delivery_record" where
  "new_row n key digest now =
     \<lparr>dr_version = record_version, dr_key = key, dr_turn_id = nd_turn_id n, dr_platform = nd_platform n,
      dr_channel_id = nd_channel_id n, dr_thread_id = nd_thread_id n,
      dr_acp_request_id = nd_acp_request_id n, dr_acp_session_id = nd_acp_session_id n,
      dr_runtime_run_id = nd_runtime_run_id n, dr_workflow_run_id = nd_workflow_run_id n,
      dr_conversation_id = nd_conversation_id n, dr_response_sequence = nd_response_sequence n,
      dr_payload = nd_payload n, dr_payload_digest = digest, dr_state = PendingResult,
      dr_attempt_count = 0, dr_next_attempt_at = None, dr_last_failure = None,
      dr_last_safe_error = None, dr_message_id = None, dr_hold_reason = None,
      dr_created_at = timestamp now, dr_updated_at = timestamp now, dr_delivered_at = None,
      dr_revision = 0, dr_lease_token = None, dr_started_at = None\<rparr>"

definition create_or_reuse ::
  "delivery_codec \<Rightarrow> new_delivery \<Rightarrow> tx_input \<Rightarrow> delivery_db
     \<Rightarrow> (delivery_error + delivery_record) \<times> delivery_db" where
  "create_or_reuse cx n i d =
     (case validate_new n of
        Inl e \<Rightarrow> (Inl e, d)
      | Inr _ \<Rightarrow>
          (case terminal_delivery_key cx n of
             Inl e \<Rightarrow> (Inl e, d)
           | Inr key \<Rightarrow>
               (case canonical_json (dc_json cx) (nd_payload n) of
                  Inl e \<Rightarrow> (Inl e, d)
                | Inr payload \<Rightarrow>
                    (let digest = sha256_hex cx payload
                     in sql i d
                          (case select_record key d of
                             Some existing \<Rightarrow> (Inr existing, d)
                           | None \<Rightarrow>
                               (case select_slot (slot_from_input n) d of
                                  Some existing \<Rightarrow>
                                    (if dr_payload_digest existing = digest then (Inr existing, d)
                                     else (Inl (PayloadConflict ''TERMINAL_DELIVERY_PAYLOAD_CONFLICT''), d))
                                | None \<Rightarrow>
                                    (let r = new_row n key digest (ti_now i)
                                     in (Inr r,
                                         insert_event key None PendingResult 0 ''CREATED'' (ti_now i)
                                           (d\<lparr>db_rows := db_rows d @ [r]\<rparr>)))))))))"

definition get_record ::
  "string \<Rightarrow> tx_input \<Rightarrow> delivery_db \<Rightarrow> (delivery_error + delivery_record option) \<times> delivery_db" where
  "get_record key i d = sql i d (Inr (select_record key d), d)"

subsection \<open>Transitions\<close>

definition or_else :: "'a option \<Rightarrow> 'a \<Rightarrow> 'a" where
  "or_else v x = (case v of Some y \<Rightarrow> y | None \<Rightarrow> x)"

definition transitioned ::
  "delivery_record \<Rightarrow> delivery_state \<Rightarrow> transition_update \<Rightarrow> instant \<Rightarrow> delivery_record" where
  "transitioned current new_state u now =
     current\<lparr>
       dr_state := new_state,
       dr_attempt_count := or_else (up_attempt_count u) (dr_attempt_count current),
       dr_next_attempt_at := map_option timestamp (or_else (up_next_attempt_at u) (dr_next_attempt_at current)),
       dr_last_failure := or_else (up_last_failure u) (dr_last_failure current),
       dr_last_safe_error := or_else (up_last_safe_error u) (dr_last_safe_error current),
       dr_message_id := (case up_message_id u of Some m \<Rightarrow> Some m | None \<Rightarrow> dr_message_id current),
       dr_hold_reason := or_else (up_hold_reason u) (dr_hold_reason current),
       dr_updated_at := timestamp now,
       dr_delivered_at := (if new_state = DeliveredState then Some (timestamp now) else dr_delivered_at current),
       dr_revision := dr_revision current + 1,
       dr_lease_token := or_else (up_lease_token u) (dr_lease_token current),
       dr_started_at := map_option timestamp (or_else (up_started_at u) (dr_started_at current))\<rparr>"

text \<open>The checks of \<^verbatim>\<open>transition_inner\<close> on the current row, in their order.\<close>

definition transition_refusal ::
  "delivery_record \<Rightarrow> u64 \<Rightarrow> string option \<Rightarrow> delivery_state \<Rightarrow> transition_update \<Rightarrow> delivery_error option" where
  "transition_refusal current expected_revision expected_token new_state u =
     (if is_terminal (dr_state current) then Some (ImmutableTerminalState (dr_state current))
      else if dr_revision current \<noteq> expected_revision
      then Some (RevisionConflict expected_revision (dr_revision current))
      else if expected_token \<noteq> None \<and> dr_lease_token current \<noteq> expected_token
      then Some LeaseTokenConflict
      else if \<not> may_transition_to (dr_state current) new_state
      then Some (IllegalDelivery (dr_state current) new_state)
      else if \<exists>c\<in>set_option (up_attempt_count u). c < dr_attempt_count current
      then Some (InvalidInput ''attempt_count must be monotonic'')
      else if dr_message_id current \<noteq> None \<and> up_message_id u \<noteq> None
      then Some DiscordMessageIdWriteOnce
      else if dr_revision current = - 1
      then Some (InvalidInput ''state_revision overflow'')
      else None)"

definition transition_inner ::
  "string \<Rightarrow> u64 \<Rightarrow> string option \<Rightarrow> delivery_state \<Rightarrow> transition_update \<Rightarrow> string
     \<Rightarrow> tx_input \<Rightarrow> delivery_db \<Rightarrow> (delivery_error + delivery_record) \<times> delivery_db" where
  "transition_inner key expected_revision expected_token new_state u reason i d =
     (case validate_safe_field reason ''safe_reason_code'' of
        Inl e \<Rightarrow> (Inl e, d)
      | Inr _ \<Rightarrow>
          (case validate_transition_update u of
             Inl e \<Rightarrow> (Inl e, d)
           | Inr _ \<Rightarrow>
               sql i d
                 (case select_record key d of
                    None \<Rightarrow> (Inl (InvalidInput ''terminal_delivery_key''), d)
                  | Some current \<Rightarrow>
                      (case transition_refusal current expected_revision expected_token new_state u of
                         Some e \<Rightarrow> (Inl e, d)
                       | None \<Rightarrow>
                           write_row current (transitioned current new_state u (ti_now i)) reason (ti_now i) d))))"

definition transition ::
  "string \<Rightarrow> u64 \<Rightarrow> delivery_state \<Rightarrow> transition_update \<Rightarrow> string
     \<Rightarrow> tx_input \<Rightarrow> delivery_db \<Rightarrow> (delivery_error + delivery_record) \<times> delivery_db" where
  "transition key expected_revision new_state u reason =
     transition_inner key expected_revision None new_state u reason"

definition transition_with_lease ::
  "string \<Rightarrow> u64 \<Rightarrow> string \<Rightarrow> delivery_state \<Rightarrow> transition_update \<Rightarrow> string
     \<Rightarrow> tx_input \<Rightarrow> delivery_db \<Rightarrow> (delivery_error + delivery_record) \<times> delivery_db" where
  "transition_with_lease key expected_revision token new_state u reason i d =
     (if token = [] then (Inl (InvalidInput ''delivery_lease_token''), d)
      else transition_inner key expected_revision (Some token) new_state u reason i d)"

definition persist_accepted_message_id ::
  "string \<Rightarrow> u64 \<Rightarrow> string \<Rightarrow> string \<Rightarrow> tx_input \<Rightarrow> delivery_db
     \<Rightarrow> (delivery_error + delivery_record) \<times> delivery_db" where
  "persist_accepted_message_id key expected_revision token message_id i d =
     (if token = [] then (Inl (InvalidInput ''delivery_lease_token''), d)
      else if message_id = [] then (Inl (InvalidInput ''discord_message_id''), d)
      else sql i d
        (case select_record key d of
           None \<Rightarrow> (Inl (InvalidInput ''terminal_delivery_key''), d)
         | Some current \<Rightarrow>
             if dr_state current \<noteq> Delivering then (Inl (IllegalDelivery (dr_state current) Delivering), d)
             else if dr_revision current \<noteq> expected_revision
             then (Inl (RevisionConflict expected_revision (dr_revision current)), d)
             else if dr_lease_token current \<noteq> Some token then (Inl LeaseTokenConflict, d)
             else if dr_message_id current = Some message_id then (Inr current, d)
             else if dr_message_id current \<noteq> None then (Inl DiscordMessageIdWriteOnce, d)
             else if dr_revision current = - 1 then (Inl (InvalidInput ''state_revision overflow''), d)
             else write_row current
                    (current\<lparr>dr_message_id := Some message_id, dr_updated_at := timestamp (ti_now i),
                             dr_revision := dr_revision current + 1\<rparr>)
                    ''DISCORD_ACCEPTED_MESSAGE_ID_PERSISTED'' (ti_now i) d))"

subsection \<open>Reconciliation\<close>

definition is_candidate :: "instant \<Rightarrow> instant \<Rightarrow> delivery_record \<Rightarrow> bool" where
  "is_candidate now stale_before r \<longleftrightarrow>
     dr_state r \<in> {PendingResult, ReadyToDeliver, Ambiguous}
     \<or> dr_state r = RetryScheduled \<and> (\<exists>t\<in>set_option (dr_next_attempt_at r). t \<le> timestamp now)
     \<or> dr_state r = Delivering
         \<and> (case dr_started_at r of None \<Rightarrow> True | Some t \<Rightarrow> t \<le> timestamp stale_before)"

text \<open>The \<^verbatim>\<open>ORDER BY\<close>: a missing time comes first, as SQLite orders \<^verbatim>\<open>NULL\<close>.\<close>

definition candidate_rank :: "delivery_record \<Rightarrow> instant option \<times> instant \<times> string" where
  "candidate_rank r =
     ((if dr_state r = RetryScheduled then dr_next_attempt_at r
       else if dr_state r = Delivering then dr_started_at r
       else Some (dr_created_at r)),
      dr_created_at r, dr_key r)"

definition list_reconciliation_candidates ::
  "instant \<Rightarrow> instant \<Rightarrow> nat \<Rightarrow> tx_input \<Rightarrow> delivery_db
     \<Rightarrow> (delivery_error + delivery_record list) \<times> delivery_db" where
  "list_reconciliation_candidates now stale_before limit i d =
     (if limit = 0 then (Inr [], d)
      else if 2 ^ 63 \<le> int limit then (Inl (InvalidInput ''reconciliation limit''), d)
      else sql i d
        (Inr (take limit (sort_key candidate_rank (filter (is_candidate now stale_before) (db_rows d)))), d))"

definition events_of :: "string \<Rightarrow> delivery_db \<Rightarrow> delivery_event list" where
  "events_of key d = filter (\<lambda>e. ev_key e = key) (db_events d)"

definition delivery_events ::
  "string \<Rightarrow> tx_input \<Rightarrow> delivery_db \<Rightarrow> (delivery_error + delivery_event list) \<times> delivery_db" where
  "delivery_events key i d = sql i d (Inr (events_of key d), d)"

definition read_reason :: string where
  "read_reason = ''AMBIGUOUS_RECONCILIATION_READ_ATTEMPT''"

definition read_count :: "string \<Rightarrow> delivery_db \<Rightarrow> nat" where
  "read_count key d = length (filter (\<lambda>e. ev_reason e = read_reason) (events_of key d))"

definition claim_ambiguous_reconciliation_read ::
  "string \<Rightarrow> u64 \<Rightarrow> nat \<Rightarrow> tx_input \<Rightarrow> delivery_db \<Rightarrow> (delivery_error + bool) \<times> delivery_db" where
  "claim_ambiguous_reconciliation_read key expected_revision max_attempts i d =
     (if 2 ^ 63 \<le> int max_attempts then (Inl (InvalidInput ''reconciliation attempts''), d)
      else sql i d
        (case select_record key d of
           None \<Rightarrow> (Inl (InvalidInput ''terminal_delivery_key''), d)
         | Some current \<Rightarrow>
             if dr_state current \<noteq> Ambiguous \<or> dr_revision current \<noteq> expected_revision then (Inr False, d)
             else if max_attempts \<le> read_count key d then (Inr False, d)
             else (Inr True,
                   insert_event key (Some Ambiguous) Ambiguous (dr_revision current) read_reason (ti_now i) d)))"

definition ambiguous_reconciliation_read_attempts ::
  "string \<Rightarrow> tx_input \<Rightarrow> delivery_db \<Rightarrow> (delivery_error + nat) \<times> delivery_db" where
  "ambiguous_reconciliation_read_attempts key i d = sql i d (Inr (read_count key d), d)"

end
