(* ===== verification/Delivery_Worker.thy ===== *)
theory Delivery_Worker
  imports Delivery_Store
begin

section \<open>The delivery worker\<close>

text \<open>
  \<^verbatim>\<open>terminal_delivery_worker.rs\<close>. An async function of the worker runs database
  transactions and calls to the chat platform one after the other, and other workers on the same
  database run between any two of them. So a function is modelled as a \<open>task\<close>: a tree whose
  nodes are its transactions and external calls and whose branches are their answers. A task can be
  run alone (\<open>run_task\<close>) or interleaved with others, and it can stop at any node, which is a
  crash.
\<close>

subsection \<open>Tasks\<close>

datatype lookup_error = Forbidden | NotFound | Conflict | Invalid | Unavailable

datatype send_result =
    DefiniteSuccess string
  | DefiniteTransientFailure string
  | DefinitePermanentFailure string
  | AmbiguousSend string

record terminal_message =
  tm_message_id :: string
  tm_channel_id :: string
  tm_author_id :: string
  tm_content :: string

datatype read_result =
    ReadFound terminal_message
  | ReadNotFound
  | ReadForbidden
  | ReadTransientFailure string
  | ReadInconclusive string

text \<open>
  A transaction: what it does to the database, and the task that goes on with its answer. A fresh
  lease token comes with the time it is drawn at. A send and a read name the record they are for.
\<close>

datatype 'a task =
    Ret 'a
  | Tx "tx_input \<Rightarrow> delivery_db \<Rightarrow> delivery_db" "tx_input \<Rightarrow> delivery_db \<Rightarrow> 'a task"
  | Clock "instant \<Rightarrow> 'a task"
  | Fresh "string \<Rightarrow> 'a task"
  | Send string channel_ref string "send_result \<Rightarrow> 'a task"
  | Fetch string string string "read_result \<Rightarrow> 'a task"
  | Lookup string "lookup_error + jvalue \<Rightarrow> 'a task"

definition tx :: "(tx_input \<Rightarrow> delivery_db \<Rightarrow> 'r \<times> delivery_db) \<Rightarrow> ('r \<Rightarrow> 'a task) \<Rightarrow> 'a task" where
  "tx f k = Tx (\<lambda>i d. snd (f i d)) (\<lambda>i d. k (fst (f i d)))"

text \<open>Awaiting a task.\<close>

primrec await :: "'a task \<Rightarrow> ('a \<Rightarrow> 'b task) \<Rightarrow> 'b task" where
  "await (Ret a) f = f a"
| "await (Tx g k) f = Tx g (\<lambda>i d. await (k i d) f)"
| "await (Clock k) f = Clock (\<lambda>t. await (k t) f)"
| "await (Fresh k) f = Fresh (\<lambda>u. await (k u) f)"
| "await (Send key c m k) f = Send key c m (\<lambda>r. await (k r) f)"
| "await (Fetch key c m k) f = Fetch key c m (\<lambda>r. await (k r) f)"
| "await (Lookup r k) f = Lookup r (\<lambda>x. await (k x) f)"

lemma await_tx [simp]: "await (tx g k) f = tx g (\<lambda>r. await (k r) f)"
  by (simp add: tx_def)

text \<open>The \<^verbatim>\<open>?\<close> operator on the result of a transaction.\<close>

definition try_tx ::
  "(tx_input \<Rightarrow> delivery_db \<Rightarrow> ('e + 'r) \<times> delivery_db) \<Rightarrow> ('r \<Rightarrow> ('e + 'a) task) \<Rightarrow> ('e + 'a) task" where
  "try_tx f k = tx f (\<lambda>r. case r of Inl e \<Rightarrow> Ret (Inl e) | Inr v \<Rightarrow> k v)"

subsection \<open>Running a task alone\<close>

datatype stimulus =
    OnTx tx_input | OnClock instant | OnFresh string | OnSend send_result | OnFetch read_result
  | OnLookup "lookup_error + jvalue"

record sent_entry =
  se_key :: string
  se_channel :: channel_ref
  se_content :: string
  se_result :: send_result

record read_entry =
  re_key :: string
  re_channel_id :: string
  re_message_id :: string
  re_result :: read_result

text \<open>What a run works on: the database, and the sends and reads that reached the platform.\<close>

record run_world =
  rw_db :: delivery_db
  rw_sends :: "sent_entry list"
  rw_reads :: "read_entry list"

text \<open>The stimuli that are left, the task that is left and the world.\<close>

fun run_task :: "stimulus list \<Rightarrow> 'a task \<Rightarrow> run_world \<Rightarrow> stimulus list \<times> 'a task \<times> run_world" where
  "run_task (OnTx i # ss) (Tx g k) w = run_task ss (k i (rw_db w)) (w\<lparr>rw_db := g i (rw_db w)\<rparr>)"
| "run_task (OnClock t # ss) (Clock k) w = run_task ss (k t) w"
| "run_task (OnFresh u # ss) (Fresh k) w = run_task ss (k u) w"
| "run_task (OnSend r # ss) (Send key c m k) w =
     run_task ss (k r)
       (w\<lparr>rw_sends := rw_sends w @ [\<lparr>se_key = key, se_channel = c, se_content = m, se_result = r\<rparr>]\<rparr>)"
| "run_task (OnFetch r # ss) (Fetch key c m k) w =
     run_task ss (k r)
       (w\<lparr>rw_reads := rw_reads w @ [\<lparr>re_key = key, re_channel_id = c, re_message_id = m, re_result = r\<rparr>]\<rparr>)"
| "run_task (OnLookup r # ss) (Lookup x k) w = run_task ss (k r) w"
| "run_task ss t w = (ss, t, w)"

lemma run_task_tx [simp]:
  "run_task (OnTx i # ss) (tx f k) w =
     run_task ss (k (fst (f i (rw_db w)))) (w\<lparr>rw_db := snd (f i (rw_db w))\<rparr>)"
  by (simp add: tx_def)

lemma run_task_await:
  "run_task ss t w = ([], Ret a, w') \<Longrightarrow> run_task (ss @ ss') (await t f) w = run_task ss' (f a) w'"
  by (induction ss t w rule: run_task.induct) simp_all

lemma run_task_open:
  "run_task ss t w = ([], t', w') \<Longrightarrow> run_task ss (await t f) w = ([], await t' f, w')"
  by (induction ss t w rule: run_task.induct) simp_all

subsection \<open>Terminal metadata and payloads\<close>

record acp_terminal_metadata =
  am_runtime_run_id :: string
  am_legacy_run_id :: "string option"
  am_acp_request_id :: string
  am_acp_session_id :: string
  am_workflow_run_id :: "string option"
  am_conversation_id :: string

datatype capture_error = MissingRuntimeRunId | RunIdMismatch

definition json_field_str :: "string \<Rightarrow> jvalue option \<Rightarrow> string option" where
  "json_field_str k m = Option.bind (Option.bind m (json_get k)) json_as_str"

definition non_empty :: "string option \<Rightarrow> string option" where
  "non_empty v = (case v of Some s \<Rightarrow> if s = [] then None else Some s | None \<Rightarrow> None)"

definition as_object :: "jvalue \<Rightarrow> jvalue option" where
  "as_object v = (case v of JObject kvs \<Rightarrow> Some v | _ \<Rightarrow> None)"

definition capture_terminal_metadata ::
  "jvalue \<Rightarrow> u64 \<Rightarrow> string \<Rightarrow> capture_error + acp_terminal_metadata" where
  "capture_terminal_metadata result request_id session_id =
     (let metadata = Option.bind (json_get ''metadata'' result) as_object
      in case non_empty (json_field_str ''runtime_run_id'' metadata) of
           None \<Rightarrow> Inl MissingRuntimeRunId
         | Some runtime_run_id \<Rightarrow>
             (let legacy = non_empty (json_field_str ''run_id'' metadata)
              in if legacy \<noteq> None \<and> legacy \<noteq> Some runtime_run_id then Inl RunIdMismatch
                 else Inr \<lparr>am_runtime_run_id = runtime_run_id, am_legacy_run_id = legacy,
                           am_acp_request_id = word_str request_id, am_acp_session_id = session_id,
                           am_workflow_run_id = json_field_str ''workflow_run_id'' metadata,
                           am_conversation_id =
                             or_else (json_field_str ''conversation_id'' metadata) ''unknown''\<rparr>))"

text \<open>The warning sign, as its UTF-8 bytes.\<close>

definition warning_sign :: string where
  "warning_sign = [CHR 0xE2, CHR 0x9A, CHR 0xA0, CHR 0xEF, CHR 0xB8, CHR 0x8F]"

definition safe_failed_message :: string where
  "safe_failed_message = warning_sign
     @ '' The requested work failed. Please contact the operator if you need assistance.''"

definition safe_cancelled_message :: string where
  "safe_cancelled_message = warning_sign @ '' The requested work was cancelled.''"

definition first_some :: "'a option \<Rightarrow> 'a option \<Rightarrow> 'a option" where
  "first_some a b = (case a of Some x \<Rightarrow> Some x | None \<Rightarrow> b)"

definition materialize_terminal_payload :: "jvalue \<Rightarrow> jvalue" where
  "materialize_terminal_payload snapshot =
     (let status = or_else (Option.bind (first_some (json_get ''terminal_status'' snapshot)
                                           (json_get ''status'' snapshot)) json_as_str) [];
          result = or_else (json_get ''terminal_result'' snapshot) snapshot;
          content =
            (if status \<in> {''completed'', ''COMPLETED''}
             then or_else (Option.bind (first_some (json_get ''final_answer'' result)
                                          (json_get ''content'' result)) json_as_str) ''_(no response)_''
             else if status \<in> {''cancelled'', ''CANCELLED''} then safe_cancelled_message
             else safe_failed_message)
      in JObject [(''content'', JString content)])"

definition terminal_content_for_discord :: "jvalue \<Rightarrow> string" where
  "terminal_content_for_discord payload =
     or_else (Option.bind (json_get ''content'' payload) json_as_str) safe_failed_message"

subsection \<open>The chat adapter as a sender\<close>

text \<open>
  The errors of \<^verbatim>\<open>serenity\<close> the classification looks at: the status and the Discord
  error code of an unsuccessful request, a request that could not connect, anything else.
\<close>

datatype adapter_error = UnsuccessfulRequest nat int | ConnectFailure | OtherAdapterError

datatype adapter_reply = TimedOut | Replied string | AdapterFailed adapter_error

definition classify_adapter_error :: "adapter_error \<Rightarrow> send_result" where
  "classify_adapter_error e =
     (case e of
        UnsuccessfulRequest status code \<Rightarrow>
          (if status = 403 \<or> code = 50001 then DefinitePermanentFailure ''DISCORD_MISSING_ACCESS''
           else if status = 400 \<or> 400 \<le> status \<and> status < 500 \<and> status \<noteq> 429
           then DefinitePermanentFailure ''DISCORD_INVALID_REQUEST''
           else if status = 429 then DefiniteTransientFailure ''DISCORD_RATE_LIMITED''
           else if 500 \<le> status \<and> status < 600
           then DefiniteTransientFailure ''DISCORD_HTTP_5XX_NO_ACCEPTANCE''
           else AmbiguousSend ''DISCORD_UNKNOWN_OR_POSTWRITE_TRANSPORT_FAILURE'')
      | ConnectFailure \<Rightarrow> DefiniteTransientFailure ''DISCORD_PREWRITE_CONNECT_FAILURE''
      | OtherAdapterError \<Rightarrow> AmbiguousSend ''DISCORD_UNKNOWN_OR_POSTWRITE_TRANSPORT_FAILURE'')"

text \<open>The answer the worker sees, from what the adapter answers when it is asked at all.\<close>

definition send_terminal :: "channel_ref \<Rightarrow> string \<Rightarrow> adapter_reply \<Rightarrow> send_result" where
  "send_terminal channel content reply =
     (if cr_platform channel \<noteq> ''discord'' \<or> parse_u64 (cr_channel_id channel) = None
      then DefinitePermanentFailure ''DISCORD_INVALID_DESTINATION''
      else if blank content then DefinitePermanentFailure ''DISCORD_INVALID_PAYLOAD''
      else case reply of
             TimedOut \<Rightarrow> AmbiguousSend ''DISCORD_TERMINAL_SEND_TIMEOUT''
           | Replied message_id \<Rightarrow>
               (if message_id \<noteq> [] then DefiniteSuccess message_id
                else AmbiguousSend ''DISCORD_SUCCESS_MISSING_MESSAGE_ID'')
           | AdapterFailed e \<Rightarrow> classify_adapter_error e)"

end
