(* ===== verification/Delivery_Actions.thy ===== *)
theory Delivery_Actions
  imports Delivery_Worker
begin

section \<open>What the worker does\<close>

text \<open>
  \<^verbatim>\<open>terminal_delivery_worker.rs\<close>, the functions of the worker and of the reconciliation
  manager as tasks: claim and send, declare a stale claim ambiguous, verify an ambiguous delivery by
  reading the one message it may have produced, hold what cannot be resolved, and the scan that
  routes the candidates.
\<close>

subsection \<open>Constants\<close>

definition max_external_attempts :: u64 where "max_external_attempts = 5"
definition max_ambiguous_reconciliation_attempts :: nat where "max_ambiguous_reconciliation_attempts = 3"
definition max_claim_retries :: nat where "max_claim_retries = 3"
definition terminal_reconciliation_batch_limit :: nat where "terminal_reconciliation_batch_limit = 50"

definition seconds :: "nat \<Rightarrow> instant" where "seconds n = int n * 1000000000"

definition stale_delivering_before :: "instant \<Rightarrow> instant" where
  "stale_delivering_before now = now - seconds 300"

definition retry_delay_secs :: "u64 \<Rightarrow> nat" where
  "retry_delay_secs attempt = [1, 5, 30, 120, 600] ! min (unat attempt - 1) 4"

subsection \<open>Claim and send\<close>

definition sendable :: "delivery_state \<Rightarrow> bool" where
  "sendable s \<longleftrightarrow> s \<in> {ReadyToDeliver, RetryScheduled}"

definition lost_record :: delivery_error where
  "lost_record = Storage ''lost delivery record''"

definition lost_race :: "delivery_error \<Rightarrow> bool" where
  "lost_race e = (case e of RevisionConflict _ _ \<Rightarrow> True | ImmutableTerminalState _ \<Rightarrow> True | _ \<Rightarrow> False)"

definition claim_update :: "delivery_record \<Rightarrow> string \<Rightarrow> instant \<Rightarrow> transition_update" where
  "claim_update r token started =
     update_default\<lparr>up_attempt_count := Some (dr_attempt_count r + 1),
                    up_lease_token := Some (Some token), up_started_at := Some (Some started)\<rparr>"

text \<open>The loop of the claim: on the left what the function returns early, on the right the claimed row.\<close>

function claim_loop ::
  "nat \<Rightarrow> delivery_record \<Rightarrow> ((delivery_error + delivery_record) + delivery_record) task" where
  "claim_loop attempts r =
     Fresh (\<lambda>token. Clock (\<lambda>started.
       tx (transition (dr_key r) (dr_revision r) Delivering (claim_update r token started) ''DELIVERY_CLAIMED'')
         (\<lambda>res.
           case res of
             Inr v \<Rightarrow> Ret (Inr v)
           | Inl e \<Rightarrow>
               if lost_race e then
                 tx (get_record (dr_key r))
                   (\<lambda>g. case g of
                      Inl e2 \<Rightarrow> Ret (Inl (Inl e2))
                    | Inr None \<Rightarrow> Ret (Inl (Inl lost_record))
                    | Inr (Some a) \<Rightarrow>
                        if \<not> sendable (dr_state a) then Ret (Inl (Inr a))
                        else if max_claim_retries \<le> Suc attempts
                        then Ret (Inl (Inl (RevisionConflict (dr_revision r) (dr_revision a))))
                        else claim_loop (Suc attempts) a)
               else if is_contention e then
                 tx (get_record (dr_key r))
                   (\<lambda>g. case g of
                      Inr (Some a) \<Rightarrow>
                        if \<not> sendable (dr_state a) then Ret (Inl (Inr a))
                        else if max_claim_retries \<le> Suc attempts then Ret (Inl (Inl e))
                        else claim_loop (Suc attempts) a
                    | _ \<Rightarrow>
                        if max_claim_retries \<le> Suc attempts then Ret (Inl (Inl e))
                        else claim_loop (Suc attempts) r)
               else Ret (Inl (Inl e)))))"
  by pat_completeness auto
termination
  by (relation "measure (\<lambda>(attempts, r). max_claim_retries - attempts)") auto

declare claim_loop.simps [simp del]

definition clear_lease :: "transition_update \<Rightarrow> transition_update" where
  "clear_lease u = u\<lparr>up_lease_token := Some None\<rparr>"

definition failed_with :: "string \<Rightarrow> transition_update" where
  "failed_with classification = clear_lease (update_default\<lparr>up_last_failure := Some (Some classification)\<rparr>)"

definition record_outcome ::
  "delivery_record \<Rightarrow> string \<Rightarrow> send_result \<Rightarrow> (delivery_error + delivery_record) task" where
  "record_outcome claimed token outcome =
     (case outcome of
        DefiniteSuccess message_id \<Rightarrow>
          try_tx (persist_accepted_message_id (dr_key claimed) (dr_revision claimed) token message_id)
            (\<lambda>evidenced.
              tx (transition_with_lease (dr_key evidenced) (dr_revision evidenced) token DeliveredState
                    (clear_lease update_default) ''DISCORD_DELIVERED'') Ret)
      | DefinitePermanentFailure classification \<Rightarrow>
          tx (transition_with_lease (dr_key claimed) (dr_revision claimed) token PermanentRejected
                (failed_with classification) ''DISCORD_PERMANENT_REJECTED'') Ret
      | AmbiguousSend classification \<Rightarrow>
          tx (transition_with_lease (dr_key claimed) (dr_revision claimed) token Ambiguous
                (failed_with classification) ''DISCORD_AMBIGUOUS'') Ret
      | DefiniteTransientFailure classification \<Rightarrow>
          if max_external_attempts \<le> dr_attempt_count claimed then
            try_tx (transition_with_lease (dr_key claimed) (dr_revision claimed) token RetryScheduled
                      (failed_with classification) ''DISCORD_RETRY_EXHAUSTED'')
              (\<lambda>scheduled.
                tx (transition (dr_key scheduled) (dr_revision scheduled) OperatorHold
                      (update_default\<lparr>up_hold_reason := Some (Some ''RETRY_EXHAUSTED_DEFINITE_TRANSIENT'')\<rparr>)
                      ''RETRY_EXHAUSTED_DEFINITE_TRANSIENT'') Ret)
          else
            Clock (\<lambda>now.
              tx (transition_with_lease (dr_key claimed) (dr_revision claimed) token RetryScheduled
                    ((failed_with classification)
                       \<lparr>up_next_attempt_at :=
                          Some (Some (now + seconds (retry_delay_secs (dr_attempt_count claimed))))\<rparr>)
                    ''DISCORD_RETRY_SCHEDULED'') Ret))"

definition deliver_ready ::
  "delivery_record \<Rightarrow> channel_ref \<Rightarrow> (delivery_error + delivery_record) task" where
  "deliver_ready r channel =
     (if \<not> sendable (dr_state r) then Ret (Inr r)
      else await (claim_loop 0 r)
        (\<lambda>c. case c of
           Inl out \<Rightarrow> Ret out
         | Inr claimed \<Rightarrow>
             Send (dr_key claimed) channel (terminal_content_for_discord (dr_payload claimed))
               (\<lambda>outcome. case dr_lease_token claimed of
                  None \<Rightarrow> Ret (Inl (InvalidInput ''delivery_lease_token''))
                | Some token \<Rightarrow> record_outcome claimed token outcome)))"

subsection \<open>Capture\<close>

definition capture_input :: "acp_terminal_metadata \<Rightarrow> channel_ref \<Rightarrow> string \<Rightarrow> jvalue \<Rightarrow> new_delivery" where
  "capture_input m channel inbound_message_id payload =
     \<lparr>nd_turn_id = ''discord:'' @ inbound_message_id, nd_platform = ''discord'',
      nd_channel_id = cr_channel_id channel, nd_thread_id = cr_thread_id channel,
      nd_acp_request_id = am_acp_request_id m, nd_acp_session_id = am_acp_session_id m,
      nd_runtime_run_id = am_runtime_run_id m, nd_workflow_run_id = am_workflow_run_id m,
      nd_conversation_id = am_conversation_id m, nd_response_sequence = 0, nd_payload = payload\<rparr>"

definition or_unavailable :: "(delivery_error + 'a) \<Rightarrow> lookup_error + 'a" where
  "or_unavailable r = (case r of Inl _ \<Rightarrow> Inl Unavailable | Inr v \<Rightarrow> Inr v)"

definition capture_and_deliver ::
  "delivery_codec \<Rightarrow> acp_terminal_metadata \<Rightarrow> channel_ref \<Rightarrow> string
     \<Rightarrow> (lookup_error + delivery_record) task" where
  "capture_and_deliver cx m channel inbound_message_id =
     Lookup (am_runtime_run_id m)
       (\<lambda>snapshot. case snapshot of
          Inl e \<Rightarrow> Ret (Inl e)
        | Inr s \<Rightarrow>
            tx (create_or_reuse cx (capture_input m channel inbound_message_id (materialize_terminal_payload s)))
              (\<lambda>res. case res of
                 Inl _ \<Rightarrow> Ret (Inl Unavailable)
               | Inr r \<Rightarrow>
                   if dr_state r = PendingResult then
                     tx (transition (dr_key r) (dr_revision r) ReadyToDeliver update_default ''RESULT_MATERIALIZED'')
                       (\<lambda>res. case res of
                          Inl _ \<Rightarrow> Ret (Inl Unavailable)
                        | Inr ready \<Rightarrow> await (deliver_ready ready channel) (\<lambda>x. Ret (or_unavailable x)))
                   else await (deliver_ready r channel) (\<lambda>x. Ret (or_unavailable x))))"

subsection \<open>Recovery of one record\<close>

definition recover_pending_result ::
  "delivery_codec \<Rightarrow> delivery_record \<Rightarrow> (delivery_error + delivery_record) task" where
  "recover_pending_result cx r =
     (case validate_record cx r of
        Inl e \<Rightarrow> Ret (Inl e)
      | Inr _ \<Rightarrow>
          if dr_state r \<noteq> PendingResult then Ret (Inr r)
          else tx (transition (dr_key r) (dr_revision r) ReadyToDeliver update_default
                     ''RECOVERY_PENDING_RESULT_READY'') Ret)"

definition recover_stale_delivering ::
  "delivery_codec \<Rightarrow> delivery_record \<Rightarrow> instant \<Rightarrow> (delivery_error + delivery_record) task" where
  "recover_stale_delivering cx r stale_before =
     (case validate_record cx r of
        Inl e \<Rightarrow> Ret (Inl e)
      | Inr _ \<Rightarrow>
          if dr_state r \<noteq> Delivering then Ret (Inr r)
          else if \<exists>t\<in>set_option (dr_started_at r). stale_before < t then Ret (Inr r)
          else case dr_lease_token r of
                 None \<Rightarrow> Ret (Inl MissingDeliveryLeaseToken)
               | Some token \<Rightarrow>
                   tx (transition_with_lease (dr_key r) (dr_revision r) token Ambiguous
                         (clear_lease (update_default\<lparr>up_next_attempt_at := Some None\<rparr>))
                         (if dr_started_at r = None then ''DELIVERING_MISSING_START_TIME_AMBIGUOUS''
                          else ''STALE_DELIVERING_DECLARED_AMBIGUOUS''))
                     (\<lambda>res. case res of
                        Inr recovered \<Rightarrow> Ret (Inr recovered)
                      | Inl e \<Rightarrow>
                          if (case e of RevisionConflict _ _ \<Rightarrow> True | LeaseTokenConflict \<Rightarrow> True | _ \<Rightarrow> False)
                          then try_tx (get_record (dr_key r))
                                 (\<lambda>g. case g of
                                    None \<Rightarrow> Ret (Inl lost_record)
                                  | Some a \<Rightarrow> if dr_state a \<noteq> Delivering then Ret (Inr a) else Ret (Inl e))
                          else Ret (Inl e)))"

subsection \<open>Ambiguous deliveries\<close>

datatype verification =
    VerifiedDelivered | VerifiedNoop | VerifiedNotFound | VerifiedForbidden
  | VerifiedTransient | VerifiedInconclusive | VerifiedMismatch

definition same_message :: "string \<Rightarrow> delivery_record \<Rightarrow> string \<Rightarrow> terminal_message \<Rightarrow> bool" where
  "same_message author r message_id m \<longleftrightarrow>
     tm_message_id m = message_id \<and> tm_channel_id m = dr_channel_id r \<and> tm_author_id m = author
     \<and> tm_content m = terminal_content_for_discord (dr_payload r)"

definition reconcile_ambiguous_with_known_message ::
  "delivery_codec \<Rightarrow> string \<Rightarrow> delivery_record \<Rightarrow> (delivery_error + verification) task" where
  "reconcile_ambiguous_with_known_message cx author r =
     (case validate_record cx r of
        Inl e \<Rightarrow> Ret (Inl e)
      | Inr _ \<Rightarrow>
          if dr_state r \<noteq> Ambiguous \<or> dr_platform r \<noteq> ''discord'' then Ret (Inr VerifiedNoop)
          else case dr_message_id r of
                 None \<Rightarrow> Ret (Inr VerifiedNoop)
               | Some message_id \<Rightarrow>
                   if message_id = [] \<or> author = [] then Ret (Inr VerifiedInconclusive)
                   else
                     Fetch (dr_key r) (dr_channel_id r) message_id
                       (\<lambda>answer. case answer of
                          ReadNotFound \<Rightarrow> Ret (Inr VerifiedNotFound)
                        | ReadForbidden \<Rightarrow> Ret (Inr VerifiedForbidden)
                        | ReadTransientFailure _ \<Rightarrow> Ret (Inr VerifiedTransient)
                        | ReadInconclusive _ \<Rightarrow> Ret (Inr VerifiedInconclusive)
                        | ReadFound m \<Rightarrow>
                            if \<not> same_message author r message_id m then Ret (Inr VerifiedMismatch)
                            else
                              tx (transition (dr_key r) (dr_revision r) DeliveredState update_default
                                    ''DELIVERY_VERIFIED_BY_MESSAGE_ID'')
                                (\<lambda>res. case res of
                                   Inr _ \<Rightarrow> Ret (Inr VerifiedDelivered)
                                 | Inl e \<Rightarrow>
                                     if (case e of RevisionConflict _ _ \<Rightarrow> True
                                                 | ImmutableTerminalState s \<Rightarrow> s = DeliveredState
                                                 | _ \<Rightarrow> False)
                                     then try_tx (get_record (dr_key r))
                                            (\<lambda>g. case g of
                                               None \<Rightarrow> Ret (Inl lost_record)
                                             | Some a \<Rightarrow>
                                                 if dr_state a = DeliveredState then Ret (Inr VerifiedDelivered)
                                                 else Ret (Inl e))
                                     else Ret (Inl e))))"

datatype ambiguous_outcome = AmbDelivered | AmbStill | AmbHeld | AmbNoop

definition hold_ambiguous :: "delivery_record \<Rightarrow> string \<Rightarrow> (delivery_error + ambiguous_outcome) task" where
  "hold_ambiguous r reason =
     tx (transition (dr_key r) (dr_revision r) OperatorHold
           (update_default\<lparr>up_hold_reason := Some (Some reason)\<rparr>) reason)
       (\<lambda>res. case res of
          Inr _ \<Rightarrow> Ret (Inr AmbHeld)
        | Inl e \<Rightarrow>
            if (case e of RevisionConflict _ _ \<Rightarrow> True | _ \<Rightarrow> False)
            then try_tx (get_record (dr_key r))
                   (\<lambda>g. case g of
                      None \<Rightarrow> Ret (Inl lost_record)
                    | Some a \<Rightarrow> Ret (Inr (if dr_state a = OperatorHold then AmbHeld else AmbNoop)))
            else Ret (Inl e))"

definition hold_if_reconciliation_exhausted ::
  "delivery_record \<Rightarrow> (delivery_error + ambiguous_outcome) task" where
  "hold_if_reconciliation_exhausted r =
     try_tx (get_record (dr_key r))
       (\<lambda>g. case g of
          None \<Rightarrow> Ret (Inl lost_record)
        | Some a \<Rightarrow>
            if dr_state a \<noteq> Ambiguous then Ret (Inr AmbNoop)
            else try_tx (ambiguous_reconciliation_read_attempts (dr_key a))
                   (\<lambda>n. if n < max_ambiguous_reconciliation_attempts then Ret (Inr AmbStill)
                        else hold_ambiguous a ''RECONCILIATION_EXHAUSTED''))"

definition after_verification ::
  "delivery_record \<Rightarrow> delivery_error + verification \<Rightarrow> (delivery_error + ambiguous_outcome) task" where
  "after_verification r v =
     (case v of
        Inl e \<Rightarrow> Ret (Inl e)
      | Inr VerifiedDelivered \<Rightarrow> Ret (Inr AmbDelivered)
      | Inr VerifiedForbidden \<Rightarrow> hold_ambiguous r ''MESSAGE_VERIFICATION_FORBIDDEN''
      | Inr VerifiedMismatch \<Rightarrow> hold_ambiguous r ''MESSAGE_IDENTITY_MISMATCH''
      | Inr _ \<Rightarrow> hold_if_reconciliation_exhausted r)"

definition reconcile_ambiguous ::
  "delivery_codec \<Rightarrow> string \<Rightarrow> delivery_record \<Rightarrow> (delivery_error + ambiguous_outcome) task" where
  "reconcile_ambiguous cx author r =
     (case validate_record cx r of
        Inl e \<Rightarrow> Ret (Inl e)
      | Inr _ \<Rightarrow>
          if dr_state r \<noteq> Ambiguous then Ret (Inr AmbNoop)
          else if dr_message_id r = None \<or> dr_message_id r = Some [] then hold_ambiguous r ''AMBIGUOUS_UNRESOLVED''
          else if dr_platform r \<noteq> ''discord'' \<or> author = [] then hold_ambiguous r ''AMBIGUOUS_UNRESOLVED''
          else try_tx (claim_ambiguous_reconciliation_read (dr_key r) (dr_revision r)
                         max_ambiguous_reconciliation_attempts)
                 (\<lambda>ok. if \<not> ok then hold_if_reconciliation_exhausted r
                       else await (reconcile_ambiguous_with_known_message cx author r) (after_verification r)))"

subsection \<open>The scan\<close>

datatype reconciliation_outcome = Advanced | RecDelivered | RecNoop

definition channel_from_record :: "delivery_record \<Rightarrow> channel_ref" where
  "channel_from_record r =
     \<lparr>cr_platform = dr_platform r, cr_channel_id = dr_channel_id r, cr_thread_id = dr_thread_id r,
      cr_parent_id = None, cr_origin_event_id = None\<rparr>"

definition sent_outcome :: "delivery_error + delivery_record \<Rightarrow> delivery_error + reconciliation_outcome" where
  "sent_outcome x =
     (case x of Inl e \<Rightarrow> Inl e
              | Inr r \<Rightarrow> Inr (if dr_state r = DeliveredState then RecDelivered else Advanced))"

definition reconcile_record ::
  "delivery_codec \<Rightarrow> instant \<Rightarrow> instant \<Rightarrow> delivery_record \<Rightarrow> (delivery_error + reconciliation_outcome) task" where
  "reconcile_record cx now stale_before r =
     (case dr_state r of
        PendingResult \<Rightarrow>
          await (recover_pending_result cx r)
            (\<lambda>x. Ret (case x of Inl e \<Rightarrow> Inl e | Inr _ \<Rightarrow> Inr Advanced))
      | ReadyToDeliver \<Rightarrow>
          await (deliver_ready r (channel_from_record r)) (\<lambda>x. Ret (sent_outcome x))
      | RetryScheduled \<Rightarrow>
          (if (case dr_next_attempt_at r of None \<Rightarrow> True | Some due \<Rightarrow> now < due) then Ret (Inr RecNoop)
           else await (deliver_ready r (channel_from_record r)) (\<lambda>x. Ret (sent_outcome x)))
      | Delivering \<Rightarrow>
          await (recover_stale_delivering cx r stale_before)
            (\<lambda>x. Ret (case x of Inl e \<Rightarrow> Inl e
                       | Inr a \<Rightarrow> Inr (if dr_state a \<noteq> dr_state r then Advanced else RecNoop)))
      | _ \<Rightarrow> Ret (Inr RecNoop))"

record reconciliation_summary =
  rs_candidates :: nat
  rs_advanced :: nat
  rs_delivered :: nat
  rs_held :: nat
  rs_no_op :: nat
  rs_failed :: nat

definition count_ambiguous ::
  "delivery_error + ambiguous_outcome \<Rightarrow> reconciliation_summary \<Rightarrow> reconciliation_summary" where
  "count_ambiguous x s =
     (case x of
        Inl _ \<Rightarrow> s\<lparr>rs_failed := rs_failed s + 1\<rparr>
      | Inr AmbDelivered \<Rightarrow> s\<lparr>rs_delivered := rs_delivered s + 1\<rparr>
      | Inr AmbHeld \<Rightarrow> s\<lparr>rs_held := rs_held s + 1\<rparr>
      | Inr _ \<Rightarrow> s\<lparr>rs_no_op := rs_no_op s + 1\<rparr>)"

definition count_record ::
  "delivery_error + reconciliation_outcome \<Rightarrow> reconciliation_summary \<Rightarrow> reconciliation_summary" where
  "count_record x s =
     (case x of
        Inl _ \<Rightarrow> s\<lparr>rs_failed := rs_failed s + 1\<rparr>
      | Inr Advanced \<Rightarrow> s\<lparr>rs_advanced := rs_advanced s + 1\<rparr>
      | Inr RecDelivered \<Rightarrow> s\<lparr>rs_delivered := rs_delivered s + 1\<rparr>
      | Inr RecNoop \<Rightarrow> s\<lparr>rs_no_op := rs_no_op s + 1\<rparr>)"

fun reconcile_each ::
  "delivery_codec \<Rightarrow> string \<Rightarrow> instant \<Rightarrow> instant \<Rightarrow> delivery_record list \<Rightarrow> reconciliation_summary
     \<Rightarrow> (delivery_error + reconciliation_summary) task" where
  "reconcile_each cx author now stale_before [] s = Ret (Inr s)"
| "reconcile_each cx author now stale_before (r # rs) s =
     (if dr_state r = Ambiguous
      then await (reconcile_ambiguous cx author r)
             (\<lambda>x. reconcile_each cx author now stale_before rs (count_ambiguous x s))
      else await (reconcile_record cx now stale_before r)
             (\<lambda>x. reconcile_each cx author now stale_before rs (count_record x s)))"

definition reconcile_once ::
  "delivery_codec \<Rightarrow> string \<Rightarrow> instant \<Rightarrow> (delivery_error + reconciliation_summary) task" where
  "reconcile_once cx author now =
     (let stale_before = stale_delivering_before now
      in try_tx (list_reconciliation_candidates now stale_before terminal_reconciliation_batch_limit)
           (\<lambda>candidates.
             reconcile_each cx author now stale_before candidates
               \<lparr>rs_candidates = length candidates, rs_advanced = 0, rs_delivered = 0, rs_held = 0,
                rs_no_op = 0, rs_failed = 0\<rparr>))"

text \<open>The same over the sending side only, with the outcome of every record.\<close>

record batch_summary =
  bs_processed :: nat
  bs_advanced :: nat
  bs_delivered :: nat
  bs_no_op :: nat
  bs_failed :: nat
  bs_results :: "(string \<times> (delivery_error + reconciliation_outcome)) list"

definition batch_counted ::
  "string \<Rightarrow> delivery_error + reconciliation_outcome \<Rightarrow> batch_summary \<Rightarrow> batch_summary" where
  "batch_counted key x s =
     (let s1 = s\<lparr>bs_processed := bs_processed s + 1\<rparr>;
          s2 = (case x of
                  Inl _ \<Rightarrow> s1\<lparr>bs_failed := bs_failed s1 + 1\<rparr>
                | Inr Advanced \<Rightarrow> s1\<lparr>bs_advanced := bs_advanced s1 + 1\<rparr>
                | Inr RecDelivered \<Rightarrow> s1\<lparr>bs_delivered := bs_delivered s1 + 1\<rparr>
                | Inr RecNoop \<Rightarrow> s1\<lparr>bs_no_op := bs_no_op s1 + 1\<rparr>)
      in s2\<lparr>bs_results := bs_results s2 @ [(key, x)]\<rparr>)"

fun batch_each ::
  "delivery_codec \<Rightarrow> instant \<Rightarrow> instant \<Rightarrow> delivery_record list \<Rightarrow> batch_summary
     \<Rightarrow> (delivery_error + batch_summary) task" where
  "batch_each cx now stale_before [] s = Ret (Inr s)"
| "batch_each cx now stale_before (r # rs) s =
     await (reconcile_record cx now stale_before r)
       (\<lambda>x. batch_each cx now stale_before rs (batch_counted (dr_key r) x s))"

definition reconcile_candidates ::
  "delivery_codec \<Rightarrow> instant \<Rightarrow> instant \<Rightarrow> nat \<Rightarrow> (delivery_error + batch_summary) task" where
  "reconcile_candidates cx now stale_before limit =
     try_tx (list_reconciliation_candidates now stale_before limit)
       (\<lambda>candidates.
         batch_each cx now stale_before candidates
           \<lparr>bs_processed = 0, bs_advanced = 0, bs_delivered = 0, bs_no_op = 0, bs_failed = 0, bs_results = []\<rparr>)"

end
