(* ===== verification/Delivery_Store_Facts.thy ===== *)
theory Delivery_Store_Facts
  imports Delivery_Store
begin

section \<open>What the store does to its database\<close>

text \<open>
  Every method of the repository, whoever calls it and whatever SQLite answers, takes the database
  one step of the relation below: nothing, a new row, a legal move of a row, the evidence of an
  accepted message, or the permission for a read. The invariant of the store follows: keys, slots and
  message ids are unique, and the audit events of a row are its history.
\<close>

subsection \<open>Steps\<close>

datatype store_label =
    Quiet
  | Created string
  | Moved string delivery_state delivery_state
  | Evidenced string string
  | ReadGranted string

definition moved_db :: "delivery_record \<Rightarrow> delivery_record \<Rightarrow> string \<Rightarrow> instant \<Rightarrow> delivery_db \<Rightarrow> delivery_db" where
  "moved_db c r reason now d =
     insert_event (dr_key c) (Some (dr_state c)) (dr_state r) (dr_revision r) reason now (set_row (dr_key c) r d)"

text \<open>The fields no operation changes.\<close>

definition same_identity :: "delivery_record \<Rightarrow> delivery_record \<Rightarrow> bool" where
  "same_identity c r \<longleftrightarrow>
     dr_key r = dr_key c \<and> slot_of_record r = slot_of_record c \<and> input_of_record r = input_of_record c
     \<and> dr_payload_digest r = dr_payload_digest c \<and> dr_created_at r = dr_created_at c"

inductive store_step :: "store_label \<Rightarrow> delivery_db \<Rightarrow> delivery_db \<Rightarrow> bool" where
  quiet: "store_step Quiet d d"
| created:
    "select_record k d = None \<Longrightarrow> select_slot (slot_from_input n) d = None \<Longrightarrow>
     r = new_row n k digest now \<Longrightarrow>
     store_step (Created k) d
       (insert_event k None PendingResult 0 ''CREATED'' now (d\<lparr>db_rows := db_rows d @ [r]\<rparr>))"
| moved:
    "select_record k d = Some c \<Longrightarrow> may_transition_to (dr_state c) s \<Longrightarrow>
     dr_revision c \<noteq> - 1 \<Longrightarrow> \<not> (\<exists>a\<in>set_option (up_attempt_count u). a < dr_attempt_count c) \<Longrightarrow>
     \<not> (dr_message_id c \<noteq> None \<and> up_message_id u \<noteq> None) \<Longrightarrow> reason \<noteq> read_reason \<Longrightarrow>
     \<not> message_id_clash (transitioned c s u now) d \<Longrightarrow>
     store_step (Moved k (dr_state c) s) d (moved_db c (transitioned c s u now) reason now d)"
| evidenced:
    "select_record k d = Some c \<Longrightarrow> dr_state c = Delivering \<Longrightarrow> dr_message_id c = None \<Longrightarrow>
     dr_revision c \<noteq> - 1 \<Longrightarrow>
     r = c\<lparr>dr_message_id := Some m, dr_updated_at := at, dr_revision := dr_revision c + 1\<rparr> \<Longrightarrow>
     \<not> message_id_clash r d \<Longrightarrow>
     store_step (Evidenced k m) d (moved_db c r ''DISCORD_ACCEPTED_MESSAGE_ID_PERSISTED'' now d)"
| read_granted:
    "select_record k d = Some c \<Longrightarrow> dr_state c = Ambiguous \<Longrightarrow>
     store_step (ReadGranted k) d
       (insert_event k (Some Ambiguous) Ambiguous (dr_revision c) read_reason now d)"

subsection \<open>Rows\<close>

lemma select_record_key: "select_record k d = Some r \<Longrightarrow> dr_key r = k"
  unfolding select_record_def by (drule find_Some_in) simp

lemma select_record_in: "select_record k d = Some r \<Longrightarrow> r \<in> set (db_rows d)"
  unfolding select_record_def by (drule find_Some_in) simp

lemma select_record_insert_event [simp]: "select_record k (insert_event k' p n v re at d) = select_record k d"
  by (simp add: select_record_def insert_event_def)

lemma select_slot_insert_event [simp]: "select_slot s (insert_event k' p n v re at d) = select_slot s d"
  by (simp add: select_slot_def insert_event_def)

lemma rows_insert_event [simp]: "db_rows (insert_event k p n v re at d) = db_rows d"
  by (simp add: insert_event_def)

lemma select_record_set_row:
  assumes "dr_key r = k" and "select_record k d = Some c"
  shows "select_record k' (set_row k r d) = (if k' = k then Some r else select_record k' d)"
proof (cases "k' = k")
  case True
  have "List.find (\<lambda>x. dr_key x = k) (update_first (\<lambda>x. dr_key x = k) (\<lambda>_. r) (db_rows d))
      = map_option (\<lambda>_. r) (List.find (\<lambda>x. dr_key x = k) (db_rows d))"
    by (rule find_update_first) (simp add: assms(1))
  with True assms(2) show ?thesis by (simp add: select_record_def set_row_def)
next
  case False
  have "List.find (\<lambda>x. dr_key x = k') (update_first (\<lambda>x. dr_key x = k) (\<lambda>_. r) (db_rows d))
      = List.find (\<lambda>x. dr_key x = k') (db_rows d)"
    using False assms(1) by (intro find_update_first_other) auto
  with False show ?thesis by (simp add: select_record_def set_row_def)
qed

lemma select_record_moved_db:
  "select_record k' d = Some c \<Longrightarrow> dr_key r = dr_key c \<Longrightarrow>
     select_record k (moved_db c r reason now d) = (if k = k' then Some r else select_record k d)"
  using select_record_key [of k' d c] by (simp add: moved_db_def select_record_set_row)

lemma select_record_append:
  "select_record k (d\<lparr>db_rows := db_rows d @ [r]\<rparr>) =
     (case select_record k d of Some x \<Rightarrow> Some x | None \<Rightarrow> if dr_key r = k then Some r else None)"
  by (simp add: select_record_def find_append split: option.split)

lemma new_row_key [simp]: "dr_key (new_row n k digest now) = k"
  by (simp add: new_row_def)

lemma new_row_slot [simp]: "slot_of_record (new_row n k digest now) = slot_from_input n"
  by (simp add: new_row_def slot_of_record_def slot_from_input_def)

lemma transitioned_identity [simp]: "same_identity c (transitioned c s u now)"
  by (simp add: same_identity_def transitioned_def slot_of_record_def input_of_record_def)

lemma transitioned_simps [simp]:
  "dr_key (transitioned c s u now) = dr_key c"
  "dr_state (transitioned c s u now) = s"
  "dr_revision (transitioned c s u now) = dr_revision c + 1"
  "dr_payload (transitioned c s u now) = dr_payload c"
  "dr_platform (transitioned c s u now) = dr_platform c"
  "dr_channel_id (transitioned c s u now) = dr_channel_id c"
  "dr_attempt_count (transitioned c s u now) = or_else (up_attempt_count u) (dr_attempt_count c)"
  "dr_message_id (transitioned c s u now) =
     (case up_message_id u of Some m \<Rightarrow> Some m | None \<Rightarrow> dr_message_id c)"
  "dr_lease_token (transitioned c s u now) = or_else (up_lease_token u) (dr_lease_token c)"
  by (simp_all add: transitioned_def)

lemma or_else_simps [simp]: "or_else None x = x" "or_else (Some y) x = y"
  by (simp_all add: or_else_def)

text \<open>What a step can do to the row of a key.\<close>

lemma store_step_row:
  assumes "store_step l d d'" and "select_record k d = Some c"
  obtains "select_record k d' = Some c" "\<forall>s t. l \<noteq> Moved k s t" "\<forall>m. l \<noteq> Evidenced k m"
  | s u now where "l = Moved k (dr_state c) s" "select_record k d' = Some (transitioned c s u now)"
      "may_transition_to (dr_state c) s" "dr_revision c \<noteq> - 1"
      "\<not> (\<exists>a\<in>set_option (up_attempt_count u). a < dr_attempt_count c)"
      "\<not> (dr_message_id c \<noteq> None \<and> up_message_id u \<noteq> None)"
  | m at where "l = Evidenced k m" "dr_state c = Delivering" "dr_message_id c = None" "dr_revision c \<noteq> - 1"
      "select_record k d' = Some (c\<lparr>dr_message_id := Some m, dr_updated_at := at, dr_revision := dr_revision c + 1\<rparr>)"
  using assms(1)
proof cases
  case quiet
  then show ?thesis using assms(2) that(1) by simp
next
  case (created k' n r digest now)
  then show ?thesis using assms(2) that(1) by (simp add: select_record_append)
next
  case (moved k' c' s u reason now)
  have sel: "select_record k d' = (if k = k' then Some (transitioned c' s u now) else select_record k d)"
    unfolding moved(2) by (rule select_record_moved_db [OF moved(3)]) simp
  show ?thesis
  proof (cases "k = k'")
    case True
    with moved(3) assms(2) have "c' = c" by simp
    with True moved(1,4,5,6,7) sel show ?thesis by (intro that(2)) auto
  next
    case False
    with moved(1) sel assms(2) show ?thesis by (intro that(1)) auto
  qed
next
  case (evidenced k' c' r m at now)
  have sel: "select_record k d' = (if k = k' then Some r else select_record k d)"
    unfolding evidenced(2) by (rule select_record_moved_db [OF evidenced(3)]) (simp add: evidenced(7))
  show ?thesis
  proof (cases "k = k'")
    case True
    with evidenced(3) assms(2) have "c' = c" by simp
    with True evidenced(1,4,5,6,7) sel show ?thesis by (intro that(3)) auto
  next
    case False
    with evidenced(1) sel assms(2) show ?thesis by (intro that(1)) auto
  qed
next
  case (read_granted k' c' now)
  then show ?thesis using assms(2) that(1) by simp
qed

lemma store_step_fresh:
  assumes "store_step l d d'" and "select_record k d = None" and "select_record k d' = Some r"
  shows "l = Created k \<and> (\<exists>n digest now. r = new_row n k digest now)"
  using assms(1)
proof cases
  case quiet
  then show ?thesis using assms by simp
next
  case (created k' n r' digest now)
  then show ?thesis using assms(2,3) by (auto simp: select_record_append split: if_splits)
next
  case (moved k' c' s u reason now)
  have "select_record k d' = (if k = k' then Some (transitioned c' s u now) else select_record k d)"
    unfolding moved(2) by (rule select_record_moved_db [OF moved(3)]) simp
  then show ?thesis using assms(2,3) moved(3) by (simp split: if_splits)
next
  case (evidenced k' c' r' m at now)
  have "select_record k d' = (if k = k' then Some r' else select_record k d)"
    unfolding evidenced(2) by (rule select_record_moved_db [OF evidenced(3)]) (simp add: evidenced(7))
  then show ?thesis using assms(2,3) evidenced(3) by (simp split: if_splits)
next
  case (read_granted k' c' now)
  then show ?thesis using assms(2,3) by simp
qed

subsection \<open>The methods take steps\<close>

lemma transition_refusal_None:
  assumes "transition_refusal c rv tok s u = None"
  shows "\<not> is_terminal (dr_state c)" "dr_revision c = rv" "tok \<noteq> None \<Longrightarrow> dr_lease_token c = tok"
    "may_transition_to (dr_state c) s" "\<not> (\<exists>a\<in>set_option (up_attempt_count u). a < dr_attempt_count c)"
    "\<not> (dr_message_id c \<noteq> None \<and> up_message_id u \<noteq> None)" "dr_revision c \<noteq> - 1"
  using assms unfolding transition_refusal_def by (auto split: if_splits)

text \<open>A transition either refuses and changes nothing, or is a move.\<close>

lemma transition_inner_cases:
  assumes "reason \<noteq> read_reason"
  obtains e where "transition_inner key rv tok s u reason i d = (Inl e, d)"
  | c where "select_record key d = Some c" "transition_refusal c rv tok s u = None"
      "transition_inner key rv tok s u reason i d =
         (Inr (transitioned c s u (ti_now i)), moved_db c (transitioned c s u (ti_now i)) reason (ti_now i) d)"
      "store_step (Moved key (dr_state c) s) d (moved_db c (transitioned c s u (ti_now i)) reason (ti_now i) d)"
proof -
  have "(\<exists>e. transition_inner key rv tok s u reason i d = (Inl e, d))
      \<or> (\<exists>c. select_record key d = Some c \<and> transition_refusal c rv tok s u = None
           \<and> transition_inner key rv tok s u reason i d =
               write_row c (transitioned c s u (ti_now i)) reason (ti_now i) d)"
    by (simp add: transition_inner_def sql_def split: sum.split option.split)
  then consider (err) e where "transition_inner key rv tok s u reason i d = (Inl e, d)"
    | (go) c where "select_record key d = Some c" "transition_refusal c rv tok s u = None"
        "transition_inner key rv tok s u reason i d =
           write_row c (transitioned c s u (ti_now i)) reason (ti_now i) d"
    by blast
  then show thesis
  proof cases
    case err
    then show thesis by (rule that(1))
  next
    case (go c)
    show thesis
    proof (cases "message_id_clash (transitioned c s u (ti_now i)) d")
      case True
      then show thesis using go(3) that(1) by (simp add: write_row_def)
    next
      case False
      note refusal = transition_refusal_None [OF go(2)]
      show thesis
        using go False store_step.moved [OF go(1) refusal(4,7,5,6) assms False]
        by (intro that(2)) (auto simp: write_row_def moved_db_def)
    qed
  qed
qed

lemma create_or_reuse_cases:
  obtains e where "create_or_reuse cx n i d = (Inl e, d)"
  | r where "create_or_reuse cx n i d = (Inr r, d)" "r \<in> set (db_rows d)"
  | k digest where "create_or_reuse cx n i d =
         (Inr (new_row n k digest (ti_now i)),
          insert_event k None PendingResult 0 ''CREATED'' (ti_now i)
            (d\<lparr>db_rows := db_rows d @ [new_row n k digest (ti_now i)]\<rparr>))"
      "select_record k d = None" "select_slot (slot_from_input n) d = None"
proof -
  have slot_in: "\<And>s r. select_slot s d = Some r \<Longrightarrow> r \<in> set (db_rows d)"
    unfolding select_slot_def by (drule find_Some_in) simp
  have "(\<exists>e. create_or_reuse cx n i d = (Inl e, d))
      \<or> (\<exists>r. create_or_reuse cx n i d = (Inr r, d) \<and> r \<in> set (db_rows d))
      \<or> (\<exists>k digest. create_or_reuse cx n i d =
             (Inr (new_row n k digest (ti_now i)),
              insert_event k None PendingResult 0 ''CREATED'' (ti_now i)
                (d\<lparr>db_rows := db_rows d @ [new_row n k digest (ti_now i)]\<rparr>))
            \<and> select_record k d = None \<and> select_slot (slot_from_input n) d = None)"
    by (auto simp: create_or_reuse_def sql_def Let_def select_record_in slot_in
        split: sum.split option.split)
  then show thesis using that by blast
qed

lemma persist_cases:
  obtains e where "persist_accepted_message_id key rv tok m i d = (Inl e, d)"
  | c where "persist_accepted_message_id key rv tok m i d = (Inr c, d)"
      "select_record key d = Some c" "dr_message_id c = Some m" "dr_state c = Delivering" "dr_revision c = rv"
  | c r where "select_record key d = Some c" "dr_revision c = rv"
      "r = c\<lparr>dr_message_id := Some m, dr_updated_at := timestamp (ti_now i), dr_revision := dr_revision c + 1\<rparr>"
      "persist_accepted_message_id key rv tok m i d =
         (Inr r, moved_db c r ''DISCORD_ACCEPTED_MESSAGE_ID_PERSISTED'' (ti_now i) d)"
      "store_step (Evidenced key m) d (moved_db c r ''DISCORD_ACCEPTED_MESSAGE_ID_PERSISTED'' (ti_now i) d)"
proof -
  let ?r = "\<lambda>c. c\<lparr>dr_message_id := Some m, dr_updated_at := timestamp (ti_now i), dr_revision := dr_revision c + 1\<rparr>"
  have "(\<exists>e. persist_accepted_message_id key rv tok m i d = (Inl e, d))
      \<or> (\<exists>c. persist_accepted_message_id key rv tok m i d = (Inr c, d) \<and> select_record key d = Some c
            \<and> dr_message_id c = Some m \<and> dr_state c = Delivering \<and> dr_revision c = rv)
      \<or> (\<exists>c. select_record key d = Some c \<and> dr_state c = Delivering \<and> dr_revision c = rv
            \<and> dr_message_id c = None \<and> dr_revision c \<noteq> - 1
            \<and> persist_accepted_message_id key rv tok m i d =
                write_row c (?r c) ''DISCORD_ACCEPTED_MESSAGE_ID_PERSISTED'' (ti_now i) d)"
    by (simp add: persist_accepted_message_id_def sql_def split: option.split)
  then consider (err) e where "persist_accepted_message_id key rv tok m i d = (Inl e, d)"
    | (same) c where "persist_accepted_message_id key rv tok m i d = (Inr c, d)"
        "select_record key d = Some c" "dr_message_id c = Some m" "dr_state c = Delivering" "dr_revision c = rv"
    | (go) c where "select_record key d = Some c" "dr_state c = Delivering" "dr_revision c = rv"
        "dr_message_id c = None" "dr_revision c \<noteq> - 1"
        "persist_accepted_message_id key rv tok m i d =
           write_row c (?r c) ''DISCORD_ACCEPTED_MESSAGE_ID_PERSISTED'' (ti_now i) d"
    by blast
  then show thesis
  proof cases
    case err
    then show thesis by (rule that(1))
  next
    case (same c)
    then show thesis by (rule that(2))
  next
    case (go c)
    show thesis
    proof (cases "message_id_clash (?r c) d")
      case True
      then show thesis using go(6) that(1) by (simp add: write_row_def)
    next
      case False
      show thesis
        using go False store_step.evidenced [OF go(1,2,4,5) refl False, of "ti_now i"]
        by (intro that(3) [of c "?r c"]) (auto simp: write_row_def moved_db_def)
    qed
  qed
qed

lemma claim_read_cases:
  obtains e where "claim_ambiguous_reconciliation_read key rv mx i d = (Inl e, d)"
  | "claim_ambiguous_reconciliation_read key rv mx i d = (Inr False, d)"
  | c where "select_record key d = Some c" "dr_state c = Ambiguous" "dr_revision c = rv" "read_count key d < mx"
      "claim_ambiguous_reconciliation_read key rv mx i d =
         (Inr True, insert_event key (Some Ambiguous) Ambiguous (dr_revision c) read_reason (ti_now i) d)"
proof -
  have "(\<exists>e. claim_ambiguous_reconciliation_read key rv mx i d = (Inl e, d))
      \<or> claim_ambiguous_reconciliation_read key rv mx i d = (Inr False, d)
      \<or> (\<exists>c. select_record key d = Some c \<and> dr_state c = Ambiguous \<and> dr_revision c = rv
            \<and> read_count key d < mx
            \<and> claim_ambiguous_reconciliation_read key rv mx i d =
                (Inr True, insert_event key (Some Ambiguous) Ambiguous (dr_revision c) read_reason (ti_now i) d))"
    by (simp add: claim_ambiguous_reconciliation_read_def sql_def not_le split: option.split)
  then show thesis using that by blast
qed

end
