(* ===== verification/Delivery_Audit.thy ===== *)
theory Delivery_Audit
  imports Delivery_Store_Facts
begin

section \<open>The audit log of the store\<close>

text \<open>
  The events of a row, replayed from its creation, give its state and its revision: the log is the
  history of the row and every entry in it is a legal move, the evidence of an accepted message, or a
  permission to read. The invariant of the store holds this for every row, together with the
  uniqueness of keys, slots and message ids.
\<close>

subsection \<open>Replaying\<close>

definition event_ok :: "delivery_state \<Rightarrow> u64 \<Rightarrow> delivery_event \<Rightarrow> bool" where
  "event_ok s v e \<longleftrightarrow>
     ev_previous e = Some s
     \<and> (if ev_reason e = read_reason then s = Ambiguous \<and> ev_new e = Ambiguous \<and> ev_revision e = v
        else (may_transition_to s (ev_new e) \<or> s = Delivering \<and> ev_new e = Delivering)
             \<and> v \<noteq> - 1 \<and> ev_revision e = v + 1)"

fun trail :: "delivery_state \<Rightarrow> u64 \<Rightarrow> delivery_event list \<Rightarrow> (delivery_state \<times> u64) option" where
  "trail s v [] = Some (s, v)"
| "trail s v (e # es) = (if event_ok s v e then trail (ev_new e) (ev_revision e) es else None)"

fun audit_replay :: "delivery_event list \<Rightarrow> (delivery_state \<times> u64) option" where
  "audit_replay [] = None"
| "audit_replay (e # es) =
     (if ev_previous e = None \<and> ev_new e = PendingResult \<and> ev_revision e = 0 \<and> ev_reason e = ''CREATED''
      then trail PendingResult 0 es else None)"

lemma trail_snoc:
  "trail s v (es @ [e]) =
     (case trail s v es of None \<Rightarrow> None
      | Some (s', v') \<Rightarrow> if event_ok s' v' e then Some (ev_new e, ev_revision e) else None)"
  by (induction es arbitrary: s v) auto

lemma audit_replay_snoc:
  "es \<noteq> [] \<Longrightarrow> audit_replay (es @ [e]) =
     (case audit_replay es of None \<Rightarrow> None
      | Some (s, v) \<Rightarrow> if event_ok s v e then Some (ev_new e, ev_revision e) else None)"
  by (cases es) (auto simp: trail_snoc)

subsection \<open>The invariant\<close>

definition ids_unique :: "delivery_db \<Rightarrow> bool" where
  "ids_unique d \<longleftrightarrow>
     (\<forall>x\<in>set (db_rows d). \<forall>y\<in>set (db_rows d).
        dr_message_id x \<noteq> None \<longrightarrow> dr_message_id y = dr_message_id x \<longrightarrow> dr_platform y = dr_platform x
        \<longrightarrow> dr_key y = dr_key x)"

definition audited :: "delivery_db \<Rightarrow> bool" where
  "audited d \<longleftrightarrow>
     (\<forall>r\<in>set (db_rows d). audit_replay (events_of (dr_key r) d) = Some (dr_state r, dr_revision r))"

definition events_owned :: "delivery_db \<Rightarrow> bool" where
  "events_owned d \<longleftrightarrow> (\<forall>e\<in>set (db_events d). ev_key e \<in> dr_key ` set (db_rows d))"

definition db_inv :: "delivery_db \<Rightarrow> bool" where
  "db_inv d \<longleftrightarrow>
     distinct (map dr_key (db_rows d)) \<and> distinct (map slot_of_record (db_rows d))
     \<and> ids_unique d \<and> audited d \<and> events_owned d"

definition empty_db :: delivery_db where
  "empty_db = \<lparr>db_version = 1, db_rows = [], db_events = []\<rparr>"

lemma db_inv_empty [simp]: "db_inv empty_db"
  by (simp add: db_inv_def empty_db_def ids_unique_def audited_def events_owned_def)

lemma find_by_key:
  "distinct (map f xs) \<Longrightarrow> List.find (\<lambda>x. f x = k) xs = Some r \<longleftrightarrow> r \<in> set xs \<and> f r = k"
  by (induction xs) auto

lemma update_first_by_key:
  "distinct (map f xs) \<Longrightarrow> k \<in> f ` set xs \<Longrightarrow>
     set (update_first (\<lambda>x. f x = k) (\<lambda>_. r) xs) = insert r {x \<in> set xs. f x \<noteq> k}"
proof (induction xs)
  case (Cons x xs)
  then show ?case by (cases "f x = k") (auto simp: image_iff)
qed simp

lemma map_update_first_in:
  "(\<And>x. x \<in> set xs \<Longrightarrow> P x \<Longrightarrow> g (f x) = g x) \<Longrightarrow> map g (update_first P f xs) = map g xs"
  by (induction xs) auto

lemma select_record_iff:
  "distinct (map dr_key (db_rows d)) \<Longrightarrow> select_record k d = Some r \<longleftrightarrow> r \<in> set (db_rows d) \<and> dr_key r = k"
  unfolding select_record_def by (rule find_by_key)

lemma select_record_none: "select_record k d = None \<longleftrightarrow> k \<notin> dr_key ` set (db_rows d)"
  unfolding select_record_def by (auto simp: find_None_iff)

lemma events_insert_event:
  "events_of k (insert_event k' p n v re at d) =
     events_of k d @ (if k' = k then [\<lparr>ev_key = k', ev_previous = p, ev_new = n, ev_revision = v,
                                       ev_reason = re, ev_timestamp = timestamp at\<rparr>] else [])"
  by (simp add: events_of_def insert_event_def)

lemma events_set_row [simp]: "events_of k (set_row k' r d) = events_of k d"
  by (simp add: events_of_def set_row_def)

lemma rows_set_row [simp]:
  "db_rows (set_row k r d) = update_first (\<lambda>x. dr_key x = k) (\<lambda>_. r) (db_rows d)"
  by (simp add: set_row_def)

lemma events_moved_db:
  "events_of k (moved_db c r reason now d) =
     events_of k d @ (if dr_key c = k then
       [\<lparr>ev_key = k, ev_previous = Some (dr_state c), ev_new = dr_state r, ev_revision = dr_revision r,
         ev_reason = reason, ev_timestamp = timestamp now\<rparr>] else [])"
  by (simp add: moved_db_def events_insert_event)

lemma rows_moved_db:
  assumes "db_inv d" and "c \<in> set (db_rows d)"
  shows "set (db_rows (moved_db c r reason now d)) = insert r {x \<in> set (db_rows d). dr_key x \<noteq> dr_key c}"
  using assms unfolding db_inv_def moved_db_def
  by (simp add: update_first_by_key)

text \<open>A row that moves within its identity, with the event of its move.\<close>

lemma db_inv_moved:
  assumes inv: "db_inv d" and c: "c \<in> set (db_rows d)" and same: "same_identity c r"
    and clash: "\<not> message_id_clash r d"
    and ok: "event_ok (dr_state c) (dr_revision c)
        \<lparr>ev_key = dr_key c, ev_previous = Some (dr_state c), ev_new = dr_state r, ev_revision = dr_revision r,
         ev_reason = reason, ev_timestamp = timestamp now\<rparr>"
  shows "db_inv (moved_db c r reason now d)"
proof -
  let ?d = "moved_db c r reason now d"
  note dist = inv [unfolded db_inv_def, THEN conjunct1]
  have key: "dr_key r = dr_key c" and slot: "slot_of_record r = slot_of_record c"
    using same by (simp_all add: same_identity_def)
  have only: "x = c" if "x \<in> set (db_rows d)" "dr_key x = dr_key c" for x
    using that c dist by (metis select_record_iff option.inject)
  have rows: "set (db_rows ?d) = insert r {x \<in> set (db_rows d). dr_key x \<noteq> dr_key c}"
    by (rule rows_moved_db [OF inv c])
  have keys: "map dr_key (db_rows ?d) = map dr_key (db_rows d)"
    unfolding moved_db_def rows_insert_event rows_set_row
    by (rule map_update_first_in) (simp add: key)
  have slots: "map slot_of_record (db_rows ?d) = map slot_of_record (db_rows d)"
    unfolding moved_db_def rows_insert_event rows_set_row
    by (rule map_update_first_in) (use only slot in auto)
  have "ids_unique d" "audited d" "events_owned d" using inv by (simp_all add: db_inv_def)
  have ids: "ids_unique ?d"
    unfolding ids_unique_def rows
  proof (intro ballI impI)
    fix x y
    assume x: "x \<in> insert r {x \<in> set (db_rows d). dr_key x \<noteq> dr_key c}"
      and y: "y \<in> insert r {x \<in> set (db_rows d). dr_key x \<noteq> dr_key c}"
      and eq: "dr_message_id x \<noteq> None" "dr_message_id y = dr_message_id x" "dr_platform y = dr_platform x"
    show "dr_key y = dr_key x"
    proof (cases "x = r \<or> y = r")
      case True
      with x y eq clash key show ?thesis unfolding message_id_clash_def by auto
    next
      case False
      with x y eq \<open>ids_unique d\<close> show ?thesis unfolding ids_unique_def by blast
    qed
  qed
  have audit: "audited ?d"
    unfolding audited_def
  proof
    fix x assume x: "x \<in> set (db_rows ?d)"
    show "audit_replay (events_of (dr_key x) ?d) = Some (dr_state x, dr_revision x)"
    proof (cases "x = r")
      case True
      have *: "audit_replay (events_of (dr_key c) d) = Some (dr_state c, dr_revision c)"
        using \<open>audited d\<close> c by (simp add: audited_def)
      then have "events_of (dr_key c) d \<noteq> []" by auto
      with * show ?thesis using True ok key by (simp add: events_moved_db audit_replay_snoc)
    next
      case False
      with x have "x \<in> set (db_rows d)" "dr_key x \<noteq> dr_key c" by (auto simp: rows)
      with \<open>audited d\<close> show ?thesis by (simp add: events_moved_db audited_def)
    qed
  qed
  have "dr_key ` set (db_rows ?d) = dr_key ` set (db_rows d)"
    using keys by (metis list.set_map)
  with \<open>events_owned d\<close> c have owned: "events_owned ?d"
    unfolding events_owned_def by (auto simp: moved_db_def insert_event_def set_row_def)
  show ?thesis
    unfolding db_inv_def using inv ids audit owned keys slots by (simp add: db_inv_def)
qed

lemma db_inv_step: "store_step l d d' \<Longrightarrow> db_inv d \<Longrightarrow> db_inv d'"
proof (induction rule: store_step.induct)
  case (quiet d)
  then show ?case .
next
  case (created k d n r digest now)
  have none: "k \<notin> dr_key ` set (db_rows d)" using created(1) by (simp add: select_record_none)
  have slot: "slot_from_input n \<notin> slot_of_record ` set (db_rows d)"
    using created(2) by (auto simp: select_slot_def find_None_iff)
  have fresh: "events_of k d = []"
    using created(4) none unfolding db_inv_def events_owned_def events_of_def by (auto simp: filter_empty_conv)
  have new: "dr_key r = k" "slot_of_record r = slot_from_input n" "dr_message_id r = None"
      "dr_state r = PendingResult" "dr_revision r = 0"
    using created(3) by (simp_all add: new_row_def slot_of_record_def slot_from_input_def)
  let ?d = "insert_event k None PendingResult 0 ''CREATED'' now (d\<lparr>db_rows := db_rows d @ [r]\<rparr>)"
  have "ids_unique d" "audited d" "events_owned d" using created(4) by (simp_all add: db_inv_def)
  have "ids_unique ?d"
    unfolding ids_unique_def
  proof (intro ballI impI)
    fix x y
    assume "x \<in> set (db_rows ?d)" "y \<in> set (db_rows ?d)"
      and eq: "dr_message_id x \<noteq> None" "dr_message_id y = dr_message_id x" "dr_platform y = dr_platform x"
    with new(3) have "x \<in> set (db_rows d)" "y \<in> set (db_rows d)" by auto
    with eq \<open>ids_unique d\<close> show "dr_key y = dr_key x" unfolding ids_unique_def by blast
  qed
  moreover have "audited ?d"
    unfolding audited_def
  proof
    fix x assume "x \<in> set (db_rows ?d)"
    then consider "x = r" | "x \<in> set (db_rows d)" "dr_key x \<noteq> k" using none by auto
    then show "audit_replay (events_of (dr_key x) ?d) = Some (dr_state x, dr_revision x)"
    proof cases
      case 1
      with new fresh show ?thesis by (simp add: events_insert_event) (simp add: events_of_def)
    next
      case 2
      with \<open>audited d\<close> show ?thesis
        by (simp add: events_insert_event audited_def) (simp add: events_of_def)
    qed
  qed
  moreover have "events_owned ?d"
    using \<open>events_owned d\<close> new(1) by (auto simp: events_owned_def insert_event_def)
  moreover have "distinct (map dr_key (db_rows ?d))" "distinct (map slot_of_record (db_rows ?d))"
    using created(4) none slot new by (auto simp: db_inv_def)
  ultimately show ?case by (simp add: db_inv_def)
next
  case (moved k d c s u reason now)
  have "c \<in> set (db_rows d)" using moved(1) by (rule select_record_in)
  then show ?case
    using moved by (intro db_inv_moved) (auto simp: event_ok_def)
next
  case (evidenced k d c r m at now)
  have "c \<in> set (db_rows d)" using evidenced(1) by (rule select_record_in)
  then show ?case
    using evidenced
    by (intro db_inv_moved)
       (auto simp: event_ok_def read_reason_def same_identity_def slot_of_record_def input_of_record_def)
next
  case (read_granted k d c now)
  have c: "c \<in> set (db_rows d)" "dr_key c = k"
    using read_granted(1) select_record_in select_record_key by auto
  let ?d = "insert_event k (Some Ambiguous) Ambiguous (dr_revision c) read_reason now d"
  have "audited ?d"
    unfolding audited_def
  proof
    fix x assume x: "x \<in> set (db_rows ?d)"
    show "audit_replay (events_of (dr_key x) ?d) = Some (dr_state x, dr_revision x)"
    proof (cases "dr_key x = k")
      case True
      with x c read_granted(3) have "x = c" unfolding db_inv_def
        by (metis select_record_iff option.inject rows_insert_event)
      moreover have *: "audit_replay (events_of k d) = Some (dr_state c, dr_revision c)"
        using read_granted(3) c by (auto simp: db_inv_def audited_def)
      moreover from * have "events_of k d \<noteq> []" by auto
      ultimately show ?thesis
        using c(2) read_granted(2) by (simp add: events_insert_event audit_replay_snoc event_ok_def)
    next
      case False
      with x read_granted(3) show ?thesis by (simp add: events_insert_event db_inv_def audited_def)
    qed
  qed
  moreover have "events_owned ?d"
    using read_granted(3) c by (auto simp: db_inv_def events_owned_def insert_event_def)
  moreover have "ids_unique ?d"
    using read_granted(3) unfolding db_inv_def ids_unique_def rows_insert_event by blast
  ultimately show ?case using read_granted(3) by (simp add: db_inv_def)
qed

subsection \<open>The methods as steps\<close>

text \<open>
  Any call of a method that writes, by anyone. The audit reason of a read is reserved for the method
  that grants reads: no caller passes it to a transition.
\<close>

inductive store_call :: "delivery_codec \<Rightarrow> delivery_db \<Rightarrow> delivery_db \<Rightarrow> bool" for cx where
  creates: "store_call cx d (snd (create_or_reuse cx n i d))"
| transitions:
    "reason \<noteq> read_reason \<Longrightarrow> store_call cx d (snd (transition key revision s u reason i d))"
| leased:
    "reason \<noteq> read_reason \<Longrightarrow>
     store_call cx d (snd (transition_with_lease key revision token s u reason i d))"
| persists: "store_call cx d (snd (persist_accepted_message_id key revision token m i d))"
| grants: "store_call cx d (snd (claim_ambiguous_reconciliation_read key revision mx i d))"

lemma transition_inner_step:
  assumes "reason \<noteq> read_reason"
  shows "\<exists>l. store_step l d (snd (transition_inner key rv tok s u reason i d))"
proof (cases rule: transition_inner_cases [OF assms, of key rv tok s u i d])
  case (1 e)
  then show ?thesis using store_step.quiet by auto
next
  case (2 c)
  then show ?thesis by auto
qed

lemma store_call_step: "store_call cx d d' \<Longrightarrow> \<exists>l. store_step l d d'"
proof (induction rule: store_call.induct)
  case (creates d n i)
  show ?case
  proof (cases rule: create_or_reuse_cases [of cx n i d])
    case (3 k digest)
    then show ?thesis using store_step.created [of k d n _ digest "ti_now i"] by auto
  qed (use store_step.quiet in auto)
next
  case (transitions reason d key revision s u i)
  then show ?case unfolding transition_def by (rule transition_inner_step)
next
  case (leased reason d key revision token s u i)
  then show ?case
    using transition_inner_step [of reason d key revision "Some token" s u i] store_step.quiet [of d]
    by (cases "token = []") (auto simp: transition_with_lease_def)
next
  case (persists d key revision token m i)
  show ?case
    by (cases rule: persist_cases [of key revision token m i d]) (use store_step.quiet in auto)
next
  case (grants d key revision mx i)
  show ?case
  proof (cases rule: claim_read_cases [of key revision mx i d])
    case (3 c)
    then show ?thesis using store_step.read_granted [of key d c "ti_now i"] by auto
  qed (use store_step.quiet in auto)
qed

interpretation store: preserved "store_call cx" db_inv for cx
  by unfold_locales (use store_call_step db_inv_step in blast)

subsection \<open>The history of a row\<close>

definition row_after :: "delivery_record \<Rightarrow> delivery_record \<Rightarrow> bool" where
  "row_after c r \<longleftrightarrow>
     same_identity c r
     \<and> (is_terminal (dr_state c) \<longrightarrow> r = c)
     \<and> (dr_message_id c \<noteq> None \<longrightarrow> dr_message_id r = dr_message_id c)
     \<and> dr_attempt_count c \<le> dr_attempt_count r
     \<and> unat (dr_revision c) \<le> unat (dr_revision r)
     \<and> (dr_revision r = dr_revision c \<longrightarrow> r = c)"

lemma same_identity_refl [simp]: "same_identity c c"
  by (simp add: same_identity_def)

lemma same_identity_trans: "same_identity a b \<Longrightarrow> same_identity b c \<Longrightarrow> same_identity a c"
  by (simp add: same_identity_def)

lemma row_after_refl [simp]: "row_after c c"
  by (simp add: row_after_def)

lemma row_after_trans: "row_after a b \<Longrightarrow> row_after b c \<Longrightarrow> row_after a c"
proof -
  assume ab: "row_after a b" and bc: "row_after b c"
  have "c = a" if eq: "dr_revision c = dr_revision a"
  proof -
    have "unat (dr_revision a) \<le> unat (dr_revision b)" "unat (dr_revision b) \<le> unat (dr_revision c)"
      using ab bc by (simp_all add: row_after_def)
    with eq have "dr_revision b = dr_revision a" by (simp add: word_unat_eq_iff)
    with ab bc eq show ?thesis by (simp add: row_after_def)
  qed
  with ab bc show "row_after a c"
    unfolding row_after_def by (auto dest: same_identity_trans)
qed

lemma row_after_transitioned:
  assumes "may_transition_to (dr_state c) s" and "dr_revision c \<noteq> - 1"
    and "\<not> (\<exists>a\<in>set_option (up_attempt_count u). a < dr_attempt_count c)"
    and "\<not> (dr_message_id c \<noteq> None \<and> up_message_id u \<noteq> None)"
  shows "row_after c (transitioned c s u now)"
  using assms terminal_has_no_move [of "dr_state c" s]
  by (auto simp: row_after_def unat_plus_one or_else_def not_less split: option.split)

lemma row_after_evidenced:
  assumes "dr_state c = Delivering" and "dr_message_id c = None" and "dr_revision c \<noteq> - 1"
  shows "row_after c (c\<lparr>dr_message_id := Some m, dr_updated_at := at, dr_revision := dr_revision c + 1\<rparr>)"
  using assms
  by (simp add: row_after_def unat_plus_one same_identity_def slot_of_record_def input_of_record_def)

lemma store_step_row_after:
  assumes "store_step l d d'" and "select_record k d = Some c"
  shows "\<exists>r. select_record k d' = Some r \<and> row_after c r"
  using assms
proof (cases rule: store_step_row)
  case 1
  then show ?thesis by auto
next
  case (2 s u now)
  then show ?thesis using row_after_transitioned by blast
next
  case (3 m at)
  then show ?thesis using row_after_evidenced by blast
qed

lemma store_calls_row_after:
  "(store_call cx)\<^sup>*\<^sup>* d d' \<Longrightarrow> select_record k d = Some c \<Longrightarrow>
     \<exists>r. select_record k d' = Some r \<and> row_after c r"
proof (induction rule: rtranclp_induct)
  case base
  then show ?case by auto
next
  case (step e f)
  then show ?case
    by (meson store_call_step store_step_row_after row_after_trans)
qed

end
