(* ===== verification/Delivery_Discipline.thy ===== *)
theory Delivery_Discipline
  imports Delivery_Actions Delivery_Audit
begin

section \<open>The discipline of the worker\<close>

text \<open>
  Workers share only the database, so what one of them may do is stated as a discipline on tasks: a
  task is idle, or holds the claim of a record it is about to send, or has the answer of that send and
  not yet recorded it, or was granted one read. \<open>follows S p t Q\<close> says that the task \<open>t\<close>, in
  phase \<open>p\<close> and knowing that the records of \<open>S\<close> were once read from the database, only
  takes permitted steps whatever the other workers do in between, and that \<open>Q\<close> holds of its
  answer. Every function of the worker follows it.
\<close>

subsection \<open>Snapshots\<close>

text \<open>A record that was read once: the row it was read from is still there, the same or later.\<close>

definition snap :: "delivery_db \<Rightarrow> delivery_record \<Rightarrow> bool" where
  "snap d r \<longleftrightarrow> (\<exists>c. select_record (dr_key r) d = Some c \<and> row_after r c)"

lemma snap_select: "select_record k d = Some r \<Longrightarrow> snap d r"
  using select_record_key [of k d r] by (auto simp: snap_def)

lemma snap_step: "store_step l d d' \<Longrightarrow> snap d r \<Longrightarrow> snap d' r"
  unfolding snap_def by (meson store_step_row_after row_after_trans)

lemma snap_current:
  "snap d r \<Longrightarrow> select_record (dr_key r) d = Some c \<Longrightarrow> dr_revision c = dr_revision r \<Longrightarrow> c = r"
  by (auto simp: snap_def row_after_def)

lemma row_after_same: "row_after c r \<Longrightarrow> dr_payload r = dr_payload c \<and> dr_key r = dr_key c"
  by (simp add: row_after_def same_identity_def input_of_record_def)

subsection \<open>Phases\<close>

datatype phase = Idle | Claimed string | Answered string send_result | Granted string

definition row_content :: "string \<Rightarrow> delivery_db \<Rightarrow> string" where
  "row_content k d =
     (case select_record k d of None \<Rightarrow> [] | Some r \<Rightarrow> terminal_content_for_discord (dr_payload r))"

definition row_attempts :: "string \<Rightarrow> delivery_db \<Rightarrow> nat" where
  "row_attempts k d = (case select_record k d of None \<Rightarrow> 0 | Some r \<Rightarrow> unat (dr_attempt_count r))"

definition row_message :: "string \<Rightarrow> delivery_db \<Rightarrow> string option" where
  "row_message k d = (case select_record k d of None \<Rightarrow> None | Some r \<Rightarrow> dr_message_id r)"

text \<open>What a worker may do to the database in a phase, and the phase it is in after.\<close>

fun permitted :: "phase \<Rightarrow> store_label \<Rightarrow> delivery_db \<Rightarrow> delivery_db \<Rightarrow> phase \<Rightarrow> bool" where
  "permitted p Quiet d d' p' \<longleftrightarrow> p' = p \<or> p' = Idle"
| "permitted p (Created k) d d' p' \<longleftrightarrow> p' = p \<or> p' = Idle"
| "permitted p (Moved k s s') d d' p' \<longleftrightarrow>
     row_message k d' = row_message k d
     \<and> (case s' of
          Delivering \<Rightarrow> p' = Claimed k \<and> row_attempts k d' = row_attempts k d + 1
        | RetryScheduled \<Rightarrow>
            (\<exists>c. p = Answered k (DefiniteTransientFailure c)) \<and> p' = Idle
            \<and> row_attempts k d' = row_attempts k d
        | _ \<Rightarrow> (p' = p \<or> p' = Idle) \<and> row_attempts k d' = row_attempts k d
               \<and> (s' = ReadyToDeliver \<longrightarrow> s = PendingResult)
               \<and> (s' = DeliveredState \<longrightarrow> row_message k d \<noteq> None))"
| "permitted p (Evidenced k m) d d' p' \<longleftrightarrow> p = Answered k (DefiniteSuccess m) \<and> p' = p"
| "permitted p (ReadGranted k) d d' p' \<longleftrightarrow>
     p' = Granted k \<and> read_count k d < max_ambiguous_reconciliation_attempts"

subsection \<open>Following the discipline\<close>

inductive follows ::
  "delivery_record set \<Rightarrow> phase \<Rightarrow> 'a task \<Rightarrow> (delivery_record set \<Rightarrow> phase \<Rightarrow> 'a \<Rightarrow> bool) \<Rightarrow> bool" where
  ret: "Q S p a \<Longrightarrow> follows S p (Ret a) Q"
| tx:
    "(\<And>i d. db_inv d \<Longrightarrow> (\<forall>r\<in>S. snap d r) \<Longrightarrow>
       \<exists>l p' S'. store_step l d (g i d) \<and> permitted p l d (g i d) p' \<and> (\<forall>r\<in>S'. snap (g i d) r)
         \<and> follows S' p' (k i d) Q) \<Longrightarrow>
     follows S p (Tx g k) Q"
| clock: "(\<And>t. follows S p (k t) Q) \<Longrightarrow> follows S p (Clock k) Q"
| fresh: "(\<And>u. follows S p (k u) Q) \<Longrightarrow> follows S p (Fresh k) Q"
| send:
    "r \<in> S \<Longrightarrow> key = dr_key r \<Longrightarrow> m = terminal_content_for_discord (dr_payload r) \<Longrightarrow>
     (\<And>o'. follows S (Answered key o') (k o') Q) \<Longrightarrow> follows S (Claimed key) (Send key c m k) Q"
| fetch:
    "r \<in> S \<Longrightarrow> key = dr_key r \<Longrightarrow> c = dr_channel_id r \<Longrightarrow> dr_message_id r = Some m \<Longrightarrow>
     (\<And>a. follows S Idle (k a) Q) \<Longrightarrow> follows S (Granted key) (Fetch key c m k) Q"
| lookup: "(\<And>x. follows S p (k x) Q) \<Longrightarrow> follows S p (Lookup rid k) Q"

inductive_cases follows_TxE: "follows S p (Tx g k) Q"
inductive_cases follows_ClockE: "follows S p (Clock k) Q"
inductive_cases follows_FreshE: "follows S p (Fresh k) Q"
inductive_cases follows_SendE: "follows S p (Send key c m k) Q"
inductive_cases follows_FetchE: "follows S p (Fetch key c m k) Q"
inductive_cases follows_LookupE: "follows S p (Lookup rid k) Q"

lemma follows_await:
  "follows S p t Q \<Longrightarrow> (\<And>S' p' a. Q S' p' a \<Longrightarrow> follows S' p' (f a) R) \<Longrightarrow> follows S p (await t f) R"
proof (induction rule: follows.induct)
  case (tx S g p k Q)
  then show ?case by (auto intro!: follows.tx) metis
qed (auto intro: follows.intros)

text \<open>A phase can be given up at any time.\<close>

lemma permitted_drop: "permitted Idle l d d' p' \<Longrightarrow> permitted p l d d' p'"
  by (cases l) (auto split: delivery_state.splits)

lemma follows_drop: "follows S Idle t Q \<Longrightarrow> (\<And>S' a. Q S' Idle a \<Longrightarrow> Q S' p a) \<Longrightarrow> follows S p t Q"
proof (induction S Idle t Q rule: follows.induct)
  case (tx S g k Q)
  show ?case
  proof (rule follows.tx)
    fix i d
    assume "db_inv d" "\<forall>r\<in>S. snap d r"
    from tx(1) [OF this] show "\<exists>l p' S'. store_step l d (g i d) \<and> permitted p l d (g i d) p'
        \<and> (\<forall>r\<in>S'. snap (g i d) r) \<and> follows S' p' (k i d) Q"
      using permitted_drop by blast
  qed
qed (auto intro: follows.intros)

lemma follows_post: "follows S p t Q \<Longrightarrow> (\<And>S' p' a. Q S' p' a \<Longrightarrow> R S' p' a) \<Longrightarrow> follows S p t R"
proof (induction rule: follows.induct)
  case (tx S g p k Q)
  then show ?case by (auto intro!: follows.tx) metis
qed (auto intro: follows.intros)

abbreviation anything :: "delivery_record set \<Rightarrow> phase \<Rightarrow> 'a \<Rightarrow> bool" where
  "anything S p a \<equiv> True"

text \<open>The answer is a record that stands in the database, or nothing is claimed of it.\<close>

abbreviation known :: "delivery_record set \<Rightarrow> phase \<Rightarrow> 'e + delivery_record \<Rightarrow> bool" where
  "known S p a \<equiv> (\<forall>r. a = Inr r \<longrightarrow> r \<in> S)"

subsection \<open>The store's methods in a task\<close>

lemma follows_quiet:
  assumes "\<And>i d. snd (f i d) = d"
    and "\<And>i d. db_inv d \<Longrightarrow> \<forall>r\<in>S. snap d r \<Longrightarrow> \<exists>S'. (\<forall>r\<in>S'. snap d r) \<and> follows S' p (k (fst (f i d))) Q"
  shows "follows S p (tx f k) Q"
  unfolding tx_def
proof (rule follows.tx)
  fix i d
  assume "db_inv d" "\<forall>r\<in>S. snap d r"
  from assms(2) [OF this] obtain S' where "\<forall>r\<in>S'. snap d r" "follows S' p (k (fst (f i d))) Q" by blast
  then show "\<exists>l p' S'. store_step l d (snd (f i d)) \<and> permitted p l d (snd (f i d)) p'
      \<and> (\<forall>r\<in>S'. snap (snd (f i d)) r) \<and> follows S' p' (k (fst (f i d))) Q"
    using assms(1) [of i d] store_step.quiet [of d] by (intro exI [of _ Quiet] exI [of _ p] exI [of _ S']) simp
qed

lemma get_record_db [simp]: "snd (get_record k i d) = d"
  by (simp add: get_record_def sql_def split: option.split)

lemma follows_get:
  assumes "\<And>e. follows S p (k (Inl e)) Q" and "follows S p (k (Inr None)) Q"
    and "\<And>a. dr_key a = key \<Longrightarrow> follows (insert a S) p (k (Inr (Some a))) Q"
  shows "follows S p (tx (get_record key) k) Q"
proof (rule follows_quiet)
  fix i :: tx_input and d
  assume S: "\<forall>r\<in>S. snap d r"
  show "\<exists>S'. (\<forall>r\<in>S'. snap d r) \<and> follows S' p (k (fst (get_record key i d))) Q"
  proof (cases "ti_fail i")
    case None
    then have g: "fst (get_record key i d) = Inr (select_record key d)"
      by (simp add: get_record_def sql_def)
    show ?thesis
    proof (cases "select_record key d")
      case None
      with g assms(2) S show ?thesis by auto
    next
      case (Some a)
      with g assms(3) [OF select_record_key [OF Some]] snap_select [OF Some] S show ?thesis
        by (intro exI [of _ "insert a S"]) auto
    qed
  next
    case (Some e)
    then have "fst (get_record key i d) = Inl e" by (simp add: get_record_def sql_def)
    with assms(1) S show ?thesis by auto
  qed
qed simp

lemma follows_transition:
  assumes reason: "reason \<noteq> read_reason"
    and err: "\<And>e. follows S p (k (Inl e)) Q"
    and ok: "\<And>(i :: tx_input) d c. \<forall>r\<in>S. snap d r \<Longrightarrow> select_record key d = Some c \<Longrightarrow>
       transition_refusal c rv tok s u = None \<Longrightarrow>
       \<exists>p'. permitted p (Moved key (dr_state c) s) d (moved_db c (transitioned c s u (ti_now i)) reason (ti_now i) d) p'
         \<and> follows (insert (transitioned c s u (ti_now i)) S) p' (k (Inr (transitioned c s u (ti_now i)))) Q"
  shows "follows S p (tx (transition_inner key rv tok s u reason) k) Q"
  unfolding tx_def
proof (rule follows.tx)
  fix i d
  assume S: "\<forall>r\<in>S. snap d r"
  show "\<exists>l p' S'. store_step l d (snd (transition_inner key rv tok s u reason i d))
      \<and> permitted p l d (snd (transition_inner key rv tok s u reason i d)) p'
      \<and> (\<forall>r\<in>S'. snap (snd (transition_inner key rv tok s u reason i d)) r)
      \<and> follows S' p' (k (fst (transition_inner key rv tok s u reason i d))) Q"
  proof (cases rule: transition_inner_cases [OF reason, of key rv tok s u i d])
    case (1 e)
    then show ?thesis
      using err S store_step.quiet [of d] by (intro exI [of _ Quiet] exI [of _ p] exI [of _ S]) simp
  next
    case (2 c)
    let ?r = "transitioned c s u (ti_now i)" and ?d = "moved_db c (transitioned c s u (ti_now i)) reason (ti_now i) d"
    from ok [OF S 2(1,2), of i] obtain p' where p': "permitted p (Moved key (dr_state c) s) d ?d p'"
      "follows (insert ?r S) p' (k (Inr ?r)) Q" by blast
    have "select_record key ?d = Some ?r"
      by (simp add: select_record_moved_db [OF 2(1)])
    then have "snap ?d ?r" by (rule snap_select)
    with S snap_step [OF 2(4)] have "\<forall>r\<in>insert ?r S. snap ?d r" by auto
    with p' 2(3,4) show ?thesis
      by (intro exI [of _ "Moved key (dr_state c) s"] exI [of _ p'] exI [of _ "insert ?r S"]) simp
  qed
qed

text \<open>What a move changes of its row, as the permissions see it.\<close>

lemma moved_row:
  assumes "select_record key d = Some c"
  shows "row_message key (moved_db c (transitioned c s u now) reason now d) =
           (case up_message_id u of Some m \<Rightarrow> Some m | None \<Rightarrow> row_message key d)"
    and "row_attempts key (moved_db c (transitioned c s u now) reason now d) =
           unat (or_else (up_attempt_count u) (dr_attempt_count c))"
    and "row_message key d = dr_message_id c" and "row_attempts key d = unat (dr_attempt_count c)"
  using assms
  by (simp_all add: row_message_def row_attempts_def select_record_moved_db [OF assms] split: option.split)

text \<open>A move that is open to every phase.\<close>

lemma follows_plain:
  assumes "reason \<noteq> read_reason" and "s \<notin> {Delivering, RetryScheduled}"
    and "up_message_id u = None" and "up_attempt_count u = None"
    and err: "\<And>e. follows S Idle (k (Inl e)) Q"
    and from_pending: "\<And>d c. s = ReadyToDeliver \<Longrightarrow> \<forall>r\<in>S. snap d r \<Longrightarrow> select_record key d = Some c \<Longrightarrow>
       dr_revision c = rv \<Longrightarrow> dr_state c = PendingResult"
    and with_id: "\<And>d c. s = DeliveredState \<Longrightarrow> \<forall>r\<in>S. snap d r \<Longrightarrow> select_record key d = Some c \<Longrightarrow>
       dr_revision c = rv \<Longrightarrow> dr_message_id c \<noteq> None"
    and ok: "\<And>c now. dr_key c = key \<Longrightarrow>
       follows (insert (transitioned c s u now) S) Idle (k (Inr (transitioned c s u now))) Q"
    and drop: "\<And>S' a. Q S' Idle a \<Longrightarrow> Q S' p a"
  shows "follows S p (tx (transition_inner key rv tok s u reason) k) Q"
proof (rule follows_drop [where Q = Q])
  show "follows S Idle (tx (transition_inner key rv tok s u reason) k) Q"
  proof (rule follows_transition)
    fix i :: tx_input and d c
    assume S: "\<forall>r\<in>S. snap d r" and c: "select_record key d = Some c"
      and refusal: "transition_refusal c rv tok s u = None"
    note rows = moved_row [OF c]
    have "dr_revision c = rv" by (rule transition_refusal_None [OF refusal])
    with assms(2-4) rows from_pending [OF _ S c] with_id [OF _ S c]
    have "permitted Idle (Moved key (dr_state c) s) d
        (moved_db c (transitioned c s u (ti_now i)) reason (ti_now i) d) Idle"
      by (auto split: delivery_state.split)
    with ok select_record_key [OF c]
    show "\<exists>p'. permitted Idle (Moved key (dr_state c) s) d
          (moved_db c (transitioned c s u (ti_now i)) reason (ti_now i) d) p'
        \<and> follows (insert (transitioned c s u (ti_now i)) S) p' (k (Inr (transitioned c s u (ti_now i)))) Q"
      by blast
  qed (rule assms(1), rule err)
qed (rule drop)

lemma follows_try:
  assumes "follows S p (tx f (\<lambda>x. case x of Inl e \<Rightarrow> Ret (Inl e) | Inr v \<Rightarrow> k v)) Q"
  shows "follows S p (try_tx f k) Q"
  using assms by (simp add: try_tx_def)

lemma with_lease_inner:
  "token \<noteq> [] \<Longrightarrow> transition_with_lease key rv token s u reason = transition_inner key rv (Some token) s u reason"
  by (intro ext) (simp add: transition_with_lease_def)

lemma with_lease_empty:
  "transition_with_lease key rv [] s u reason = (\<lambda>i d. (Inl (InvalidInput ''delivery_lease_token''), d))"
  by (intro ext) (simp add: transition_with_lease_def)

lemma follows_refused:
  assumes "follows S p (k e) Q"
  shows "follows S p (tx (\<lambda>i d. (e, d)) k) Q"
  by (rule follows_quiet) (use assms in auto)

subsection \<open>Every function follows it\<close>

lemmas follows_steps = follows.ret follows_get follows_plain follows_try follows_refused

lemma reasons_distinct [simp]:
  "''DELIVERY_CLAIMED'' \<noteq> read_reason" "''DISCORD_DELIVERED'' \<noteq> read_reason"
  "''DISCORD_PERMANENT_REJECTED'' \<noteq> read_reason" "''DISCORD_AMBIGUOUS'' \<noteq> read_reason"
  "''DISCORD_RETRY_EXHAUSTED'' \<noteq> read_reason" "''RETRY_EXHAUSTED_DEFINITE_TRANSIENT'' \<noteq> read_reason"
  "''DISCORD_RETRY_SCHEDULED'' \<noteq> read_reason" "''RESULT_MATERIALIZED'' \<noteq> read_reason"
  "''RECOVERY_PENDING_RESULT_READY'' \<noteq> read_reason"
  "''DELIVERING_MISSING_START_TIME_AMBIGUOUS'' \<noteq> read_reason"
  "''STALE_DELIVERING_DECLARED_AMBIGUOUS'' \<noteq> read_reason"
  "''DELIVERY_VERIFIED_BY_MESSAGE_ID'' \<noteq> read_reason"
  "''AMBIGUOUS_UNRESOLVED'' \<noteq> read_reason" "''MESSAGE_VERIFICATION_FORBIDDEN'' \<noteq> read_reason"
  "''MESSAGE_IDENTITY_MISMATCH'' \<noteq> read_reason" "''RECONCILIATION_EXHAUSTED'' \<noteq> read_reason"
  by (simp_all add: read_reason_def)

lemma update_default_simps [simp]:
  "up_message_id update_default = None" "up_attempt_count update_default = None"
  "up_message_id (clear_lease u) = up_message_id u" "up_attempt_count (clear_lease u) = up_attempt_count u"
  "up_message_id (failed_with c) = None" "up_attempt_count (failed_with c) = None"
  by (simp_all add: update_default_def clear_lease_def failed_with_def)

lemma follows_hold_ambiguous:
  assumes "reason \<noteq> read_reason"
  shows "follows S Idle (hold_ambiguous r reason) anything"
  unfolding hold_ambiguous_def transition_def
proof (rule follows_plain [OF assms])
  fix e
  show "follows S Idle (case Inl e of
          Inl e \<Rightarrow> if case e of RevisionConflict _ _ \<Rightarrow> True | _ \<Rightarrow> False
            then try_tx (get_record (dr_key r)) (\<lambda>g. case g of None \<Rightarrow> Ret (Inl lost_record)
              | Some a \<Rightarrow> Ret (Inr (if dr_state a = OperatorHold then AmbHeld else AmbNoop)))
            else Ret (Inl e)
        | Inr _ \<Rightarrow> Ret (Inr AmbHeld)) anything"
    by (auto intro!: follows.ret follows_try follows_get)
qed (auto intro: follows.ret)

lemma follows_hold_if_exhausted: "follows S Idle (hold_if_reconciliation_exhausted r) anything"
  unfolding hold_if_reconciliation_exhausted_def
proof (rule follows_try, rule follows_get)
  fix a :: delivery_record
  have "follows (insert a S) Idle (if dr_state a \<noteq> Ambiguous then Ret (Inr AmbNoop)
      else try_tx (ambiguous_reconciliation_read_attempts (dr_key a))
        (\<lambda>n. if n < max_ambiguous_reconciliation_attempts then Ret (Inr AmbStill)
             else hold_ambiguous a ''RECONCILIATION_EXHAUSTED'')) anything"
    (is "follows _ _ (if _ then _ else ?read) _")
  proof -
    have "follows (insert a S) Idle ?read anything"
  proof (rule follows_try, rule follows_quiet)
    fix i :: tx_input and d
    show "snd (ambiguous_reconciliation_read_attempts (dr_key a) i d) = d"
      by (simp add: ambiguous_reconciliation_read_attempts_def sql_def split: option.split)
    assume "\<forall>r\<in>insert a S. snap d r"
    then show "\<exists>S'. (\<forall>r\<in>S'. snap d r) \<and> follows S' Idle
        (case fst (ambiguous_reconciliation_read_attempts (dr_key a) i d) of Inl e \<Rightarrow> Ret (Inl e)
         | Inr n \<Rightarrow> if n < max_ambiguous_reconciliation_attempts then Ret (Inr AmbStill)
                 else hold_ambiguous a ''RECONCILIATION_EXHAUSTED'') anything"
      by (intro exI [of _ "insert a S"])
         (auto intro!: follows.ret follows_hold_ambiguous split: sum.split)
  qed
    then show ?thesis by (simp add: follows.ret)
  qed
  then show "follows (insert a S) Idle
      (case Inr (Some a) of Inl e \<Rightarrow> Ret (Inl e)
       | Inr g \<Rightarrow> (case g of None \<Rightarrow> Ret (Inl lost_record)
           | Some a \<Rightarrow> if dr_state a \<noteq> Ambiguous then Ret (Inr AmbNoop)
               else try_tx (ambiguous_reconciliation_read_attempts (dr_key a))
                 (\<lambda>n. if n < max_ambiguous_reconciliation_attempts then Ret (Inr AmbStill)
                      else hold_ambiguous a ''RECONCILIATION_EXHAUSTED''))) anything"
    by simp
qed (simp_all add: follows.ret)

text \<open>The claim: it ends without one, or with the claimed row at hand.\<close>

abbreviation claim_end ::
  "delivery_record set \<Rightarrow> phase \<Rightarrow> (delivery_error + delivery_record) + delivery_record \<Rightarrow> bool" where
  "claim_end S p a \<equiv> (\<forall>c. a = Inr c \<longrightarrow> p = Claimed (dr_key c) \<and> c \<in> S)"

lemma claim_attempt:
  assumes "r \<in> S" and S: "\<forall>r\<in>S. snap d r" and c: "select_record (dr_key r) d = Some c"
    and refusal: "transition_refusal c (dr_revision r) None Delivering (claim_update r token started) = None"
  shows "permitted Idle (Moved (dr_key r) (dr_state c) Delivering) d
      (moved_db c (transitioned c Delivering (claim_update r token started) now) reason now d)
      (Claimed (dr_key r))"
proof -
  note checks = transition_refusal_None [OF refusal]
  from checks(2) assms(1) S c have "c = r" using snap_current by blast
  with checks(5) have "\<not> dr_attempt_count r + 1 < dr_attempt_count r" by (simp add: claim_update_def)
  then have "dr_attempt_count r \<noteq> - 1" by (auto simp: word_gt_0)
  then have "unat (dr_attempt_count r + 1) = unat (dr_attempt_count r) + 1" by (rule unat_plus_one)
  with \<open>c = r\<close> moved_row [OF c] show ?thesis
    by (simp add: claim_update_def update_default_def)
qed

lemma follows_claim_loop: "r \<in> S \<Longrightarrow> follows S Idle (claim_loop n r) claim_end"
proof (induction n r arbitrary: S rule: claim_loop.induct)
  case (1 n r)
  note again = "1.IH" and r = "1.prems"
  let ?lost = "\<lambda>g. case g of Inl e2 \<Rightarrow> Ret (Inl (Inl e2))
      | Inr None \<Rightarrow> Ret (Inl (Inl lost_record))
      | Inr (Some a) \<Rightarrow> if \<not> sendable (dr_state a) then Ret (Inl (Inr a))
          else if max_claim_retries \<le> Suc n
          then Ret (Inl (Inl (RevisionConflict (dr_revision r) (dr_revision a))))
          else claim_loop (Suc n) a"
  let ?contended = "\<lambda>e g. case g of
        Inr (Some a) \<Rightarrow> if \<not> sendable (dr_state a) then Ret (Inl (Inr a))
          else if max_claim_retries \<le> Suc n then Ret (Inl (Inl e)) else claim_loop (Suc n) a
      | _ \<Rightarrow> if max_claim_retries \<le> Suc n then Ret (Inl (Inl e)) else claim_loop (Suc n) r"
  let ?after = "\<lambda>res. case res of Inr v \<Rightarrow> Ret (Inr v)
      | Inl e \<Rightarrow> if lost_race e then tx (get_record (dr_key r)) ?lost
          else if is_contention e then tx (get_record (dr_key r)) (?contended e)
          else Ret (Inl (Inl e))"
  have lost: "follows S Idle (tx (get_record (dr_key r)) ?lost) claim_end"
    if "lost_race e" for e :: delivery_error
    by (rule follows_get) (use again(1) that in \<open>auto intro!: follows.ret\<close>)
  have contended: "follows S Idle (tx (get_record (dr_key r)) (?contended e)) claim_end"
    if "\<not> lost_race e" "is_contention e" for e
    by (rule follows_get) (use again(2,3,4) that r in \<open>auto intro!: follows.ret\<close>)
  show ?case
    unfolding claim_loop.simps [of n r] transition_def
  proof (rule follows.fresh, rule follows.clock, rule follows_transition)
    fix token started e
    show "follows S Idle (?after (Inl e)) claim_end"
      using lost [of e] contended [of e] by (simp add: follows.ret)
  next
    fix token started and i :: tx_input and d c
    assume S: "\<forall>r\<in>S. snap d r" and c: "select_record (dr_key r) d = Some c"
      and refusal: "transition_refusal c (dr_revision r) None Delivering (claim_update r token started) = None"
    let ?r = "transitioned c Delivering (claim_update r token started) (ti_now i)"
    have "follows (insert ?r S) (Claimed (dr_key r)) (?after (Inr ?r)) claim_end"
      by (simp add: follows.ret select_record_key [OF c])
    with claim_attempt [OF r S c refusal]
    show "\<exists>p'. permitted Idle (Moved (dr_key r) (dr_state c) Delivering) d
          (moved_db c ?r ''DELIVERY_CLAIMED'' (ti_now i) d) p'
        \<and> follows (insert ?r S) p' (?after (Inr ?r)) claim_end"
      by blast
  qed simp
qed

text \<open>What the worker records of an answer is what the answer permits.\<close>

lemma follows_persist:
  assumes p: "p = Answered key (DefiniteSuccess m)"
    and err: "\<And>e. follows S p (k (Inl e)) Q"
    and ok: "\<And>r. dr_key r = key \<Longrightarrow> dr_message_id r = Some m \<Longrightarrow> follows (insert r S) p (k (Inr r)) Q"
  shows "follows S p (tx (persist_accepted_message_id key rv token m) k) Q"
  unfolding tx_def
proof (rule follows.tx)
  fix i :: tx_input and d
  assume S: "\<forall>r\<in>S. snap d r"
  let ?x = "persist_accepted_message_id key rv token m i d"
  show "\<exists>l p' S'. store_step l d (snd ?x) \<and> permitted p l d (snd ?x) p'
      \<and> (\<forall>r\<in>S'. snap (snd ?x) r) \<and> follows S' p' (k (fst ?x)) Q"
  proof (cases rule: persist_cases [of key rv token m i d])
    case (1 e)
    then show ?thesis
      using err S store_step.quiet [of d] by (intro exI [of _ Quiet] exI [of _ p] exI [of _ S]) simp
  next
    case (2 c)
    with snap_select [OF 2(2)] S select_record_key [OF 2(2)] show ?thesis
      using ok [of c] store_step.quiet [of d]
      by (intro exI [of _ Quiet] exI [of _ p] exI [of _ "insert c S"]) simp
  next
    case (3 c r)
    let ?d = "moved_db c r ''DISCORD_ACCEPTED_MESSAGE_ID_PERSISTED'' (ti_now i) d"
    have "select_record key ?d = Some r"
      using 3(3) by (simp add: select_record_moved_db [OF 3(1)])
    then have "snap ?d r" by (rule snap_select)
    with S snap_step [OF 3(5)] have "\<forall>x\<in>insert r S. snap ?d x" by auto
    moreover have "follows (insert r S) p (k (Inr r)) Q"
      using ok [of r] 3(3) select_record_key [OF 3(1)] by simp
    ultimately show ?thesis
      using 3(4,5) p by (intro exI [of _ "Evidenced key m"] exI [of _ p] exI [of _ "insert r S"]) simp
  qed
qed

lemma follows_record_success:
  assumes "token \<noteq> []"
  shows "follows S (Answered (dr_key claimed) (DefiniteSuccess m))
           (record_outcome claimed token (DefiniteSuccess m)) anything"
  unfolding record_outcome_def send_result.case with_lease_inner [OF assms]
proof (rule follows_try, rule follows_persist)
  fix r :: delivery_record
  assume id: "dr_message_id r = Some m"
  have "follows (insert r S) (Answered (dr_key claimed) (DefiniteSuccess m))
      (tx (transition_inner (dr_key r) (dr_revision r) (Some token) DeliveredState (clear_lease update_default)
             ''DISCORD_DELIVERED'') Ret) anything"
  proof (rule follows_plain)
    fix d c
    assume "\<forall>x\<in>insert r S. snap d x" "select_record (dr_key r) d = Some c" "dr_revision c = dr_revision r"
    then have "c = r" using snap_current by blast
    with id show "dr_message_id c \<noteq> None" by simp
  qed (auto intro: follows.ret)
  then show "follows (insert r S) (Answered (dr_key claimed) (DefiniteSuccess m))
      (case Inr r of Inl e \<Rightarrow> Ret (Inl e)
       | Inr r \<Rightarrow> tx (transition_inner (dr_key r) (dr_revision r) (Some token) DeliveredState
                        (clear_lease update_default) ''DISCORD_DELIVERED'') Ret) anything"
    by simp
qed (auto intro: follows.ret)

lemma follows_retry:
  assumes "reason \<noteq> read_reason" and "up_message_id u = None" and "up_attempt_count u = None"
    and "p = Answered key (DefiniteTransientFailure c)"
    and "\<And>e. follows S p (k (Inl e)) Q" and "\<And>S' r. follows S' Idle (k (Inr r)) Q"
  shows "follows S p (tx (transition_inner key rv tok RetryScheduled u reason) k) Q"
proof (rule follows_transition)
  fix i :: tx_input and d c
  assume S: "\<forall>r\<in>S. snap d r" and c: "select_record key d = Some c"
  let ?r = "transitioned c RetryScheduled u (ti_now i)"
  have "permitted p (Moved key (dr_state c) RetryScheduled) d (moved_db c ?r reason (ti_now i) d) Idle"
    using moved_row [OF c] assms(2-4) by simp
  with assms(6) show "\<exists>p'. permitted p (Moved key (dr_state c) RetryScheduled) d
        (moved_db c ?r reason (ti_now i) d) p' \<and> follows (insert ?r S) p' (k (Inr ?r)) Q"
    by blast
qed (use assms(1,5) in auto)

lemma follows_record_outcome:
  "follows S (Answered (dr_key claimed) outcome) (record_outcome claimed token outcome) anything"
proof (cases "token = []")
  case True
  have "persist_accepted_message_id key rv [] m = (\<lambda>i d. (Inl (InvalidInput ''delivery_lease_token''), d))"
    for key rv m by (intro ext) (simp add: persist_accepted_message_id_def)
  with True show ?thesis
    by (cases outcome)
       (auto simp: record_outcome_def with_lease_empty try_tx_def
          intro!: follows_refused follows.ret follows.clock)
next
  case False
  note lease = with_lease_inner [OF False]
  show ?thesis
  proof (cases outcome)
    case (DefiniteSuccess m)
    then show ?thesis using follows_record_success [OF False] by simp
  next
    case (DefiniteTransientFailure c)
    have hold: "follows S' Idle (tx (transition (dr_key r) (dr_revision r) OperatorHold
          (update_default\<lparr>up_hold_reason := Some (Some ''RETRY_EXHAUSTED_DEFINITE_TRANSIENT'')\<rparr>)
          ''RETRY_EXHAUSTED_DEFINITE_TRANSIENT'') Ret) anything" for S' and r :: delivery_record
      unfolding transition_def by (rule follows_plain) (auto intro: follows.ret)
    show ?thesis
      unfolding DefiniteTransientFailure record_outcome_def send_result.case lease
      by (auto intro!: follows.clock follows_try follows_retry follows.ret hold)
  next
    case (DefinitePermanentFailure c)
    show ?thesis
      unfolding DefinitePermanentFailure record_outcome_def send_result.case lease
      by (rule follows_plain) (auto intro: follows.ret)
  next
    case (AmbiguousSend c)
    show ?thesis
      unfolding AmbiguousSend record_outcome_def send_result.case lease
      by (rule follows_plain) (auto intro: follows.ret)
  qed
qed

lemma follows_deliver_ready: "r \<in> S \<Longrightarrow> follows S Idle (deliver_ready r channel) anything"
proof (cases "sendable (dr_state r)")
  case True
  assume "r \<in> S"
  then have "follows S Idle (claim_loop 0 r) claim_end" by (rule follows_claim_loop)
  then have "follows S Idle (await (claim_loop 0 r)
      (\<lambda>c. case c of Inl out \<Rightarrow> Ret out
         | Inr claimed \<Rightarrow> Send (dr_key claimed) channel (terminal_content_for_discord (dr_payload claimed))
             (\<lambda>outcome. case dr_lease_token claimed of
                None \<Rightarrow> Ret (Inl (InvalidInput ''delivery_lease_token''))
              | Some token \<Rightarrow> record_outcome claimed token outcome))) anything"
  proof (rule follows_await)
    fix S' p' and a :: "(delivery_error + delivery_record) + delivery_record"
    assume a: "claim_end S' p' a"
    show "follows S' p' (case a of Inl out \<Rightarrow> Ret out
         | Inr claimed \<Rightarrow> Send (dr_key claimed) channel (terminal_content_for_discord (dr_payload claimed))
             (\<lambda>outcome. case dr_lease_token claimed of
                None \<Rightarrow> Ret (Inl (InvalidInput ''delivery_lease_token''))
              | Some token \<Rightarrow> record_outcome claimed token outcome)) anything"
    proof (cases a)
      case (Inl out)
      then show ?thesis by (simp add: follows.ret)
    next
      case (Inr claimed)
      with a have p': "p' = Claimed (dr_key claimed)" and in_S: "claimed \<in> S'" by auto
      show ?thesis
        unfolding Inr p' sum.case
        by (rule follows.send [OF in_S refl refl])
           (auto intro: follows.ret follows_record_outcome split: option.split)
    qed
  qed
  with True show ?thesis by (simp add: deliver_ready_def)
qed (simp add: deliver_ready_def follows.ret)

end
