(* ===== verification/Delivery_Compliance.thy ===== *)
theory Delivery_Compliance
  imports Delivery_Discipline
begin

section \<open>Every entry point follows the discipline\<close>

text \<open>
  Capture, the recovery of one record, the verification of an ambiguous one and the scan: what a
  worker is started with is a task that follows the discipline from an idle start.
\<close>

subsection \<open>Capture\<close>

lemma select_in: "db_inv d \<Longrightarrow> r \<in> set (db_rows d) \<Longrightarrow> select_record (dr_key r) d = Some r"
  by (simp add: db_inv_def select_record_iff)

lemma snap_in: "db_inv d \<Longrightarrow> r \<in> set (db_rows d) \<Longrightarrow> snap d r"
  by (rule snap_select [OF select_in])

lemma follows_create:
  assumes "\<And>e. follows S p (k (Inl e)) Q" and "\<And>r. follows (insert r S) p (k (Inr r)) Q"
  shows "follows S p (tx (create_or_reuse cx n) k) Q"
  unfolding tx_def
proof (rule follows.tx)
  fix i :: tx_input and d
  assume inv: "db_inv d" and S: "\<forall>r\<in>S. snap d r"
  let ?x = "create_or_reuse cx n i d"
  show "\<exists>l p' S'. store_step l d (snd ?x) \<and> permitted p l d (snd ?x) p'
      \<and> (\<forall>r\<in>S'. snap (snd ?x) r) \<and> follows S' p' (k (fst ?x)) Q"
  proof (cases rule: create_or_reuse_cases [of cx n i d])
    case (1 e)
    then show ?thesis
      using assms(1) S store_step.quiet [of d] by (intro exI [of _ Quiet] exI [of _ p] exI [of _ S]) simp
  next
    case (2 r)
    with snap_in [OF inv 2(2)] show ?thesis
      using assms(2) S store_step.quiet [of d]
      by (intro exI [of _ Quiet] exI [of _ p] exI [of _ "insert r S"]) simp
  next
    case (3 key digest)
    let ?r = "new_row n key digest (ti_now i)"
    let ?d = "insert_event key None PendingResult 0 ''CREATED'' (ti_now i) (d\<lparr>db_rows := db_rows d @ [?r]\<rparr>)"
    have step: "store_step (Created key) d ?d" by (rule store_step.created [OF 3(2,3) refl])
    have "select_record key ?d = Some ?r" using 3(2) by (simp add: select_record_append)
    then have "snap ?d ?r" by (rule snap_select)
    with S snap_step [OF step] have "\<forall>x\<in>insert ?r S. snap ?d x" by auto
    with step 3(1) assms(2) show ?thesis
      by (intro exI [of _ "Created key"] exI [of _ p] exI [of _ "insert ?r S"]) simp
  qed
qed

text \<open>The move to \<^verbatim>\<open>READY_TO_DELIVER\<close> of a record read as pending.\<close>

lemma follows_ready:
  assumes "r \<in> S" and "dr_state r = PendingResult" and "reason \<noteq> read_reason"
    and "\<And>e. follows S Idle (k (Inl e)) Q"
    and "\<And>r'. follows (insert r' S) Idle (k (Inr r')) Q"
  shows "follows S Idle (tx (transition (dr_key r) (dr_revision r) ReadyToDeliver update_default reason) k) Q"
  unfolding transition_def
proof (rule follows_plain)
  fix d c
  assume "\<forall>x\<in>S. snap d x" "select_record (dr_key r) d = Some c" "dr_revision c = dr_revision r"
  with assms(1) have "c = r" using snap_current by blast
  with assms(2) show "dr_state c = PendingResult" by simp
qed (use assms(3-5) in auto)

lemma follows_deliver_then:
  "r \<in> S \<Longrightarrow> follows S Idle (await (deliver_ready r channel) (\<lambda>x. Ret (f x))) anything"
  by (rule follows_await [OF follows_deliver_ready]) (auto intro: follows.ret)

lemma follows_capture: "follows S Idle (capture_and_deliver cx m channel inbound) anything"
  unfolding capture_and_deliver_def
proof (rule follows.lookup)
  fix x :: "lookup_error + jvalue"
  have ready: "follows (insert r S') Idle
      (if dr_state r = PendingResult
       then tx (transition (dr_key r) (dr_revision r) ReadyToDeliver update_default ''RESULT_MATERIALIZED'')
              (\<lambda>res. case res of Inl _ \<Rightarrow> Ret (Inl Unavailable)
                 | Inr ready \<Rightarrow> await (deliver_ready ready channel) (\<lambda>x. Ret (or_unavailable x)))
       else await (deliver_ready r channel) (\<lambda>x. Ret (or_unavailable x))) anything" for r S'
    by (auto intro!: follows_ready follows_deliver_then follows.ret)
  show "follows S Idle (case x of Inl e \<Rightarrow> Ret (Inl e)
      | Inr s \<Rightarrow> tx (create_or_reuse cx (capture_input m channel inbound (materialize_terminal_payload s)))
         (\<lambda>res. case res of Inl _ \<Rightarrow> Ret (Inl Unavailable)
            | Inr r \<Rightarrow> if dr_state r = PendingResult
                then tx (transition (dr_key r) (dr_revision r) ReadyToDeliver update_default ''RESULT_MATERIALIZED'')
                       (\<lambda>res. case res of Inl _ \<Rightarrow> Ret (Inl Unavailable)
                          | Inr ready \<Rightarrow> await (deliver_ready ready channel) (\<lambda>x. Ret (or_unavailable x)))
                else await (deliver_ready r channel) (\<lambda>x. Ret (or_unavailable x)))) anything"
    by (cases x) (simp_all only: sum.case, rule follows.ret, simp,
        rule follows_create, simp_all only: sum.case, rule follows.ret, simp, rule ready)
qed

subsection \<open>Recovery\<close>

lemma follows_recover_pending: "r \<in> S \<Longrightarrow> follows S Idle (recover_pending_result cx r) anything"
  unfolding recover_pending_result_def
  by (auto intro!: follows.ret follows_ready split: sum.split)

lemma follows_recover_stale: "follows S Idle (recover_stale_delivering cx r stale_before) anything"
proof (cases "dr_lease_token r")
  case None
  then show ?thesis
    unfolding recover_stale_delivering_def by (auto intro!: follows.ret split: sum.split)
next
  case (Some token)
  let ?reason = "if dr_started_at r = None then ''DELIVERING_MISSING_START_TIME_AMBIGUOUS''
      else ''STALE_DELIVERING_DECLARED_AMBIGUOUS''"
  let ?u = "clear_lease (update_default\<lparr>up_next_attempt_at := Some None\<rparr>)"
  let ?k = "\<lambda>res. case res of Inr recovered \<Rightarrow> Ret (Inr recovered)
      | Inl e \<Rightarrow> if (case e of RevisionConflict _ _ \<Rightarrow> True | LeaseTokenConflict \<Rightarrow> True | _ \<Rightarrow> False)
          then try_tx (get_record (dr_key r)) (\<lambda>g. case g of None \<Rightarrow> Ret (Inl lost_record)
             | Some a \<Rightarrow> if dr_state a \<noteq> Delivering then Ret (Inr a) else Ret (Inl e))
          else Ret (Inl e)"
  have err: "follows S Idle (?k (Inl e)) anything" for e
    by (auto intro!: follows.ret follows_try follows_get)
  have "follows S Idle (tx (transition_with_lease (dr_key r) (dr_revision r) token Ambiguous ?u ?reason) ?k) anything"
  proof (cases "token = []")
    case True
    then show ?thesis by (simp add: with_lease_empty) (intro follows_refused err)
  next
    case False
    show ?thesis
      unfolding with_lease_inner [OF False]
      by (rule follows_plain) (use err in \<open>auto intro: follows.ret\<close>)
  qed
  with Some show ?thesis
    unfolding recover_stale_delivering_def by (auto intro: follows.ret split: sum.split)
qed

subsection \<open>Ambiguous deliveries\<close>

lemma follows_known:
  assumes r: "r \<in> S"
  shows "follows S (Granted (dr_key r)) (reconcile_ambiguous_with_known_message cx author r)
           (\<lambda>S' p a. S \<subseteq> S')"
proof (cases "dr_message_id r")
  case None
  then show ?thesis
    unfolding reconcile_ambiguous_with_known_message_def by (auto intro!: follows.ret split: sum.split)
next
  case (Some m)
  let ?k = "\<lambda>res. case res of Inr _ \<Rightarrow> Ret (Inr VerifiedDelivered)
      | Inl e \<Rightarrow> if (case e of RevisionConflict _ _ \<Rightarrow> True | ImmutableTerminalState s \<Rightarrow> s = DeliveredState | _ \<Rightarrow> False)
          then try_tx (get_record (dr_key r)) (\<lambda>g. case g of None \<Rightarrow> Ret (Inl lost_record)
             | Some a \<Rightarrow> if dr_state a = DeliveredState then Ret (Inr VerifiedDelivered) else Ret (Inl e))
          else Ret (Inl e)"
  have err: "follows S Idle (?k (Inl e)) (\<lambda>S' p a. S \<subseteq> S')" for e
    by (auto intro!: follows.ret follows_try follows_get)
  have "follows S Idle
      (tx (transition (dr_key r) (dr_revision r) DeliveredState update_default ''DELIVERY_VERIFIED_BY_MESSAGE_ID'') ?k)
      (\<lambda>S' p a. S \<subseteq> S')"
    unfolding transition_def
  proof (rule follows_plain)
    fix d c
    assume "\<forall>x\<in>S. snap d x" "select_record (dr_key r) d = Some c" "dr_revision c = dr_revision r"
    with r have "c = r" using snap_current by blast
    with Some show "dr_message_id c \<noteq> None" by simp
  qed (use err in \<open>auto intro: follows.ret\<close>)
  then have verified: "follows S Idle (case a of ReadNotFound \<Rightarrow> Ret (Inr VerifiedNotFound)
      | ReadForbidden \<Rightarrow> Ret (Inr VerifiedForbidden)
      | ReadTransientFailure _ \<Rightarrow> Ret (Inr VerifiedTransient)
      | ReadInconclusive _ \<Rightarrow> Ret (Inr VerifiedInconclusive)
      | ReadFound msg \<Rightarrow> if \<not> same_message author r m msg then Ret (Inr VerifiedMismatch)
          else tx (transition (dr_key r) (dr_revision r) DeliveredState update_default
                     ''DELIVERY_VERIFIED_BY_MESSAGE_ID'') ?k) (\<lambda>S' p a. S \<subseteq> S')" for a
    by (auto intro: follows.ret split: read_result.split)
  show ?thesis
    unfolding reconcile_ambiguous_with_known_message_def
    using Some by (auto intro!: follows.ret follows.fetch [OF r] verified split: sum.split)
qed

lemma follows_grant:
  assumes "\<And>e. follows S Idle (k (Inl e)) Q" and "follows S Idle (k (Inr False)) Q"
    and "follows S (Granted key) (k (Inr True)) Q"
  shows "follows S Idle (tx (claim_ambiguous_reconciliation_read key rv max_ambiguous_reconciliation_attempts) k) Q"
  unfolding tx_def
proof (rule follows.tx)
  fix i :: tx_input and d
  assume S: "\<forall>r\<in>S. snap d r"
  let ?x = "claim_ambiguous_reconciliation_read key rv max_ambiguous_reconciliation_attempts i d"
  show "\<exists>l p' S'. store_step l d (snd ?x) \<and> permitted Idle l d (snd ?x) p'
      \<and> (\<forall>r\<in>S'. snap (snd ?x) r) \<and> follows S' p' (k (fst ?x)) Q"
  proof (cases rule: claim_read_cases [of key rv max_ambiguous_reconciliation_attempts i d])
    case (1 e)
    then show ?thesis
      using assms(1) S store_step.quiet [of d] by (intro exI [of _ Quiet] exI [of _ Idle] exI [of _ S]) simp
  next
    case 2
    then show ?thesis
      using assms(2) S store_step.quiet [of d] by (intro exI [of _ Quiet] exI [of _ Idle] exI [of _ S]) simp
  next
    case (3 c)
    have "store_step (ReadGranted key) d (snd ?x)"
      unfolding 3(5) snd_conv by (rule store_step.read_granted [OF 3(1,2)])
    with 3 assms(3) S snap_step show ?thesis
      by (intro exI [of _ "ReadGranted key"] exI [of _ "Granted key"] exI [of _ S]) auto
  qed
qed

lemma follows_after_verification: "follows S p (after_verification r v) anything"
proof (rule follows_drop)
  show "follows S Idle (after_verification r v) anything"
  proof (cases v)
    case (Inr x)
    then show ?thesis
      by (cases x)
         (simp_all add: after_verification_def follows.ret follows_hold_ambiguous follows_hold_if_exhausted)
  qed (simp add: after_verification_def follows.ret)
qed simp

lemma follows_reconcile_ambiguous:
  assumes "r \<in> S"
  shows "follows S Idle (reconcile_ambiguous cx author r) anything"
proof -
  have granted: "follows S (Granted (dr_key r))
      (await (reconcile_ambiguous_with_known_message cx author r) (after_verification r)) anything"
    by (rule follows_await [OF follows_known [OF assms]]) (rule follows_after_verification)
  have "follows S Idle
      (try_tx (claim_ambiguous_reconciliation_read (dr_key r) (dr_revision r) max_ambiguous_reconciliation_attempts)
         (\<lambda>ok. if \<not> ok then hold_if_reconciliation_exhausted r
               else await (reconcile_ambiguous_with_known_message cx author r) (after_verification r))) anything"
    by (intro follows_try follows_grant)
       (simp_all add: follows.ret follows_hold_if_exhausted granted)
  then show ?thesis
    unfolding reconcile_ambiguous_def
    by (auto intro: follows.ret follows_hold_ambiguous split: sum.split)
qed

subsection \<open>The scan\<close>

lemma follows_reconcile_record:
  "r \<in> S \<Longrightarrow> follows S Idle (reconcile_record cx now stale_before r) anything"
  unfolding reconcile_record_def
  by (auto intro!: follows.ret follows_deliver_then follows_await [OF follows_recover_pending]
      follows_await [OF follows_recover_stale] split: delivery_state.split)

text \<open>Records read before stay known.\<close>

lemma follows_frame:
  "follows S p t Q \<Longrightarrow> follows (S \<union> T) p t (\<lambda>S' p a. \<exists>S0. S' = S0 \<union> T \<and> Q S0 p a)"
proof (induction rule: follows.induct)
  case (tx S g p k Q)
  show ?case
  proof (rule follows.tx)
    fix i d
    assume inv: "db_inv d" and S: "\<forall>r\<in>S \<union> T. snap d r"
    with tx obtain l p' S' where step: "store_step l d (g i d)" "permitted p l d (g i d) p'"
        "\<forall>r\<in>S'. snap (g i d) r"
      and k: "follows (S' \<union> T) p' (k i d) (\<lambda>S' p a. \<exists>S0. S' = S0 \<union> T \<and> Q S0 p a)" by blast
    from step(1,3) S snap_step have "\<forall>r\<in>S' \<union> T. snap (g i d) r" by blast
    with step k show "\<exists>l p' S'. store_step l d (g i d) \<and> permitted p l d (g i d) p'
        \<and> (\<forall>r\<in>S'. snap (g i d) r)
        \<and> follows S' p' (k i d) (\<lambda>S' p a. \<exists>S0. S' = S0 \<union> T \<and> Q S0 p a)" by blast
  qed
qed (auto intro: follows.intros)

lemma follows_then:
  assumes "follows S Idle t anything" and "T \<subseteq> S" and "\<And>S' a. T \<subseteq> S' \<Longrightarrow> follows S' Idle (f a) anything"
  shows "follows S Idle (await t f) anything"
proof (rule follows_await)
  show "follows S Idle t (\<lambda>S' p a. \<exists>S0. S' = S0 \<union> T \<and> True)"
    using follows_frame [OF assms(1), of T] assms(2) by (simp add: Un_absorb2)
  fix S' p' a
  assume "\<exists>S0. S' = S0 \<union> T \<and> True"
  then have "T \<subseteq> S'" by auto
  then show "follows S' p' (f a) anything" by (intro follows_drop [OF assms(3)]) auto
qed

lemma follows_reconcile_each:
  "set rs \<subseteq> S \<Longrightarrow> follows S Idle (reconcile_each cx author now stale_before rs s) anything"
proof (induction rs arbitrary: S s)
  case Nil
  then show ?case by (simp add: follows.ret)
next
  case (Cons r rs)
  then have r: "r \<in> S" and rs: "set rs \<subseteq> S" by auto
  show ?case
  proof (cases "dr_state r = Ambiguous")
    case True
    have "follows S Idle (await (reconcile_ambiguous cx author r)
        (\<lambda>x. reconcile_each cx author now stale_before rs (count_ambiguous x s))) anything"
      by (rule follows_then [OF follows_reconcile_ambiguous [OF r] rs], rule Cons.IH)
    with True show ?thesis by simp
  next
    case False
    have "follows S Idle (await (reconcile_record cx now stale_before r)
        (\<lambda>x. reconcile_each cx author now stale_before rs (count_record x s))) anything"
      by (rule follows_then [OF follows_reconcile_record [OF r] rs], rule Cons.IH)
    with False show ?thesis by simp
  qed
qed

lemma follows_candidates:
  assumes "\<And>e. follows S p (k (Inl e)) Q" and "\<And>rs. follows (S \<union> set rs) p (k (Inr rs)) Q"
  shows "follows S p (tx (list_reconciliation_candidates now stale_before limit) k) Q"
proof (rule follows_quiet)
  fix i :: tx_input and d
  let ?x = "list_reconciliation_candidates now stale_before limit i d"
  show "snd ?x = d" by (simp add: list_reconciliation_candidates_def sql_def split: option.split)
  assume inv: "db_inv d" and S: "\<forall>r\<in>S. snap d r"
  show "\<exists>S'. (\<forall>r\<in>S'. snap d r) \<and> follows S' p (k (fst ?x)) Q"
  proof (cases "fst ?x")
    case (Inl e)
    with assms(1) S show ?thesis by auto
  next
    case (Inr rs)
    then have "set rs \<subseteq> set (db_rows d)"
      by (auto simp: list_reconciliation_candidates_def sql_def dest!: in_set_takeD
          split: if_splits option.splits)
    with inv snap_in S have "\<forall>r\<in>S \<union> set rs. snap d r" by blast
    with assms(2) Inr show ?thesis by auto
  qed
qed

lemma follows_reconcile_once: "follows S Idle (reconcile_once cx author now) anything"
  unfolding reconcile_once_def Let_def
  by (intro follows_try follows_candidates) (auto intro!: follows.ret follows_reconcile_each)

lemma follows_batch_each:
  "set rs \<subseteq> S \<Longrightarrow> follows S Idle (batch_each cx now stale_before rs s) anything"
proof (induction rs arbitrary: S s)
  case Nil
  then show ?case by (simp add: follows.ret)
next
  case (Cons r rs)
  then have r: "r \<in> S" and rs: "set rs \<subseteq> S" by auto
  have "follows S Idle (await (reconcile_record cx now stale_before r)
      (\<lambda>x. batch_each cx now stale_before rs (batch_counted (dr_key r) x s))) anything"
    by (rule follows_then [OF follows_reconcile_record [OF r] rs], rule Cons.IH)
  then show ?case by simp
qed

lemma follows_reconcile_candidates: "follows S Idle (reconcile_candidates cx now stale_before limit) anything"
  unfolding reconcile_candidates_def
  by (intro follows_try follows_candidates) (auto intro!: follows.ret follows_batch_each)

end
