(* ===== verification/Delivery_System.thy ===== *)
theory Delivery_System
  imports Delivery_Compliance
begin

section \<open>Workers that share a database\<close>

text \<open>
  The whole: one database, any number of captures and scans at any point of their code, the sends
  and the reads that reached the chat platform so far. A step starts a task, runs one node of one
  task, or crashes one. The invariant follows from the discipline: a record that can still be claimed
  has no claim open and only failed sends behind it.
\<close>

subsection \<open>States and steps\<close>

record delivery_system =
  sy_db :: delivery_db
  sy_tasks :: "nat \<Rightarrow> unit task option"
  sy_sends :: "sent_entry list"
  sy_reads :: "read_entry list"

definition start :: "'a task \<Rightarrow> unit task" where
  "start t = await t (\<lambda>_. Ret ())"

definition set_task :: "nat \<Rightarrow> unit task option \<Rightarrow> delivery_system \<Rightarrow> delivery_system" where
  "set_task n t s = s\<lparr>sy_tasks := (sy_tasks s)(n := t)\<rparr>"

inductive delivery_step :: "delivery_codec \<Rightarrow> string \<Rightarrow> delivery_system \<Rightarrow> delivery_system \<Rightarrow> bool"
  for cx author where
  captures:
    "sy_tasks s n = None \<Longrightarrow>
     delivery_step cx author s (set_task n (Some (start (capture_and_deliver cx m channel inbound))) s)"
| scans:
    "sy_tasks s n = None \<Longrightarrow>
     delivery_step cx author s (set_task n (Some (start (reconcile_once cx author now))) s)"
| batches:
    "sy_tasks s n = None \<Longrightarrow>
     delivery_step cx author s (set_task n (Some (start (reconcile_candidates cx now stale_before limit))) s)"
| commits:
    "sy_tasks s n = Some (Tx g k) \<Longrightarrow>
     delivery_step cx author s
       (set_task n (Some (k i (sy_db s))) (s\<lparr>sy_db := g i (sy_db s)\<rparr>))"
| ticks: "sy_tasks s n = Some (Clock k1) \<Longrightarrow> delivery_step cx author s (set_task n (Some (k1 now)) s)"
| draws: "sy_tasks s n = Some (Fresh k2) \<Longrightarrow> delivery_step cx author s (set_task n (Some (k2 token)) s)"
| sends:
    "sy_tasks s n = Some (Send key c m k3) \<Longrightarrow>
     delivery_step cx author s
       (set_task n (Some (k3 r))
         (s\<lparr>sy_sends := sy_sends s @ [\<lparr>se_key = key, se_channel = c, se_content = m, se_result = r\<rparr>]\<rparr>))"
| fetches:
    "sy_tasks s n = Some (Fetch key cid m k4) \<Longrightarrow>
     delivery_step cx author s
       (set_task n (Some (k4 a))
         (s\<lparr>sy_reads := sy_reads s @ [\<lparr>re_key = key, re_channel_id = cid, re_message_id = m, re_result = a\<rparr>]\<rparr>))"
| looks_up: "sy_tasks s n = Some (Lookup rid k5) \<Longrightarrow> delivery_step cx author s (set_task n (Some (k5 x)) s)"
| crashes: "delivery_step cx author s (set_task n None s)"

definition initial_system :: delivery_system where
  "initial_system = \<lparr>sy_db = empty_db, sy_tasks = (\<lambda>_. None), sy_sends = [], sy_reads = []\<rparr>"

subsection \<open>What a row can become\<close>

lemma row_before:
  assumes "store_step l d d'" and "select_record k d' = Some r"
  obtains n digest now where "select_record k d = None" "l = Created k" "r = new_row n k digest now"
  | "select_record k d = Some r" "\<forall>s t. l \<noteq> Moved k s t" "\<forall>m. l \<noteq> Evidenced k m"
  | c s u now where "select_record k d = Some c" "l = Moved k (dr_state c) s" "r = transitioned c s u now"
      "may_transition_to (dr_state c) s"
  | c m where "select_record k d = Some c" "l = Evidenced k m" "dr_state c = Delivering" "dr_message_id c = None"
      "dr_state r = Delivering" "dr_message_id r = Some m" "dr_payload r = dr_payload c"
      "dr_attempt_count r = dr_attempt_count c" "dr_channel_id r = dr_channel_id c"
proof (cases "select_record k d")
  case None
  from store_step_fresh [OF assms(1) None assms(2)] show ?thesis using None that(1) by blast
next
  case (Some c)
  show ?thesis
    using assms(1) Some
  proof (cases rule: store_step_row)
    case 1
    with Some assms(2) that(2) show ?thesis by simp
  next
    case (2 s u now)
    with assms(2) have "r = transitioned c s u now" by simp
    with 2 Some that(3) show ?thesis by blast
  next
    case (3 m at)
    with assms(2) have "r = c\<lparr>dr_message_id := Some m, dr_updated_at := at, dr_revision := dr_revision c + 1\<rparr>"
      by simp
    with 3 Some that(4) show ?thesis by simp
  qed
qed

lemma row_stays: "store_step l d d' \<Longrightarrow> select_record k d \<noteq> None \<Longrightarrow> select_record k d' \<noteq> None"
  using store_step_row_after by blast

lemma row_content_step:
  "store_step l d d' \<Longrightarrow> select_record k d \<noteq> None \<Longrightarrow> row_content k d' = row_content k d"
  using store_step_row_after [of l d d' k] row_after_same by (auto simp: row_content_def)

subsection \<open>At most one send that may have arrived\<close>

definition holds :: "phase \<Rightarrow> string \<Rightarrow> bool" where
  "holds p k \<longleftrightarrow> p = Claimed k \<or> (\<exists>r. p = Answered k r)"

definition transient :: "send_result \<Rightarrow> bool" where
  "transient r = (case r of DefiniteTransientFailure _ \<Rightarrow> True | _ \<Rightarrow> False)"

definition all_transient :: "string \<Rightarrow> sent_entry list \<Rightarrow> bool" where
  "all_transient k sends \<longleftrightarrow> (\<forall>e\<in>set sends. se_key e = k \<longrightarrow> transient (se_result e))"

definition once_only :: "sent_entry list \<Rightarrow> bool" where
  "once_only sends \<longleftrightarrow>
     (\<forall>i j. i < j \<longrightarrow> j < length sends \<longrightarrow> se_key (sends ! i) = se_key (sends ! j)
        \<longrightarrow> transient (se_result (sends ! i)))"

lemma once_only_snoc: "once_only (xs @ [e]) \<longleftrightarrow> once_only xs \<and> all_transient (se_key e) xs"
proof
  assume once: "once_only (xs @ [e])"
  have "transient (se_result (xs ! i))" if "i < j" "j < length xs" "se_key (xs ! i) = se_key (xs ! j)" for i j
    using once [unfolded once_only_def, rule_format, of i j] that by (simp add: nth_append)
  moreover have "transient (se_result (xs ! i))" if "i < length xs" "se_key (xs ! i) = se_key e" for i
    using once [unfolded once_only_def, rule_format, of i "length xs"] that by (simp add: nth_append)
  ultimately show "once_only xs \<and> all_transient (se_key e) xs"
    by (auto simp: once_only_def all_transient_def in_set_conv_nth)
next
  assume both: "once_only xs \<and> all_transient (se_key e) xs"
  show "once_only (xs @ [e])"
    unfolding once_only_def
  proof (intro allI impI)
    fix i j
    assume ij: "i < j" "j < length (xs @ [e])" "se_key ((xs @ [e]) ! i) = se_key ((xs @ [e]) ! j)"
    then have i: "i < length xs" by simp
    show "transient (se_result ((xs @ [e]) ! i))"
    proof (cases "j < length xs")
      case True
      with both ij i show ?thesis by (simp add: once_only_def nth_append)
    next
      case False
      with ij i both show ?thesis by (simp add: all_transient_def nth_append)
    qed
  qed
qed

definition open_state :: "delivery_state \<Rightarrow> bool" where
  "open_state s \<longleftrightarrow> s \<in> {PendingResult, ReadyToDeliver, RetryScheduled}"

definition resendable :: "phase \<Rightarrow> string \<Rightarrow> bool" where
  "resendable p k \<longleftrightarrow> p = Claimed k \<or> (\<exists>c. p = Answered k (DefiniteTransientFailure c))"

definition nobody :: "(nat \<Rightarrow> phase) \<Rightarrow> string \<Rightarrow> bool" where
  "nobody ph k \<longleftrightarrow> (\<forall>n. \<not> holds (ph n) k)"

definition one_holder :: "(nat \<Rightarrow> phase) \<Rightarrow> string \<Rightarrow> bool" where
  "one_holder ph k \<longleftrightarrow> (\<forall>n m. holds (ph n) k \<longrightarrow> holds (ph m) k \<longrightarrow> n = m)"

definition safe_resends :: "(nat \<Rightarrow> phase) \<Rightarrow> sent_entry list \<Rightarrow> string \<Rightarrow> bool" where
  "safe_resends ph sends k \<longleftrightarrow> (\<forall>n. resendable (ph n) k \<longrightarrow> all_transient k sends)"

definition unsent :: "string \<Rightarrow> sent_entry list \<Rightarrow> bool" where
  "unsent k sends \<longleftrightarrow> (\<forall>e\<in>set sends. se_key e \<noteq> k)"

fun row_ok :: "(nat \<Rightarrow> phase) \<Rightarrow> sent_entry list \<Rightarrow> string \<Rightarrow> delivery_record option \<Rightarrow> bool" where
  "row_ok ph sends k None \<longleftrightarrow> nobody ph k \<and> unsent k sends"
| "row_ok ph sends k (Some r) \<longleftrightarrow> (open_state (dr_state r) \<longrightarrow> nobody ph k \<and> all_transient k sends)"

definition key_ok :: "(nat \<Rightarrow> phase) \<Rightarrow> delivery_db \<Rightarrow> sent_entry list \<Rightarrow> string \<Rightarrow> bool" where
  "key_ok ph d sends k \<longleftrightarrow>
     one_holder ph k \<and> safe_resends ph sends k \<and> row_ok ph sends k (select_record k d)"

definition sends_ok :: "(nat \<Rightarrow> phase) \<Rightarrow> delivery_db \<Rightarrow> sent_entry list \<Rightarrow> bool" where
  "sends_ok ph d sends \<longleftrightarrow> (\<forall>k. key_ok ph d sends k) \<and> once_only sends"

lemma holds_simps [simp]: "\<not> holds Idle k" "\<not> holds (Granted j) k" "holds (Claimed j) k \<longleftrightarrow> j = k"
  "holds (Answered j r) k \<longleftrightarrow> j = k"
  by (auto simp: holds_def)

lemma resendable_simps [simp]: "\<not> resendable Idle k" "\<not> resendable (Granted j) k"
  "resendable (Claimed j) k \<longleftrightarrow> j = k"
  "resendable (Answered j r) k \<longleftrightarrow> j = k \<and> transient r"
  by (auto simp: resendable_def transient_def split: send_result.splits)

lemma resendable_holds: "resendable p k \<Longrightarrow> holds p k"
  by (auto simp: resendable_def)

lemma store_step_moved: "store_step (Moved k s s') d d' \<Longrightarrow> select_record k d \<noteq> None"
  by (erule store_step.cases) simp_all

text \<open>A process that gives up its phase, or takes one that is about another key, changes nothing for a key.\<close>

lemma fewer_holders:
  assumes "holds p' k \<Longrightarrow> p' = ph n"
  shows "nobody ph k \<Longrightarrow> nobody (ph(n := p')) k"
    and "one_holder ph k \<Longrightarrow> one_holder (ph(n := p')) k"
    and "safe_resends ph sends k \<Longrightarrow> safe_resends (ph(n := p')) sends k"
proof -
  have same: "(ph(n := p')) m = ph m" if "holds ((ph(n := p')) m) k" for m
    using assms that by (cases "m = n") auto
  show "nobody ph k \<Longrightarrow> nobody (ph(n := p')) k"
    unfolding nobody_def using same by metis
  show "one_holder ph k \<Longrightarrow> one_holder (ph(n := p')) k"
    unfolding one_holder_def using same by metis
  show "safe_resends ph sends k \<Longrightarrow> safe_resends (ph(n := p')) sends k"
    unfolding safe_resends_def using same resendable_holds by metis
qed

lemma key_ok_fewer:
  assumes "key_ok ph d sends k" and "holds p' k \<Longrightarrow> p' = ph n" and "select_record k d' = select_record k d"
  shows "key_ok (ph(n := p')) d' sends k"
  using assms(1) fewer_holders [where ph = ph and n = n and p' = p' and k = k, OF assms(2)] assms(3)
  by (cases "select_record k d") (auto simp: key_ok_def)

lemma key_ok_closed:
  assumes "key_ok ph d sends k" and "holds p' k \<Longrightarrow> p' = ph n"
    and "select_record k d' = Some r" and "\<not> open_state (dr_state r)"
  shows "key_ok (ph(n := p')) d' sends k"
  using assms(1) fewer_holders [where ph = ph and n = n and p' = p' and k = k, OF assms(2)] assms(3,4) by (simp add: key_ok_def)

text \<open>A row that is open and that nobody holds.\<close>

lemma key_ok_free: "nobody ph k \<Longrightarrow> all_transient k sends \<Longrightarrow> select_record k d = Some r \<Longrightarrow> key_ok ph d sends k"
  by (simp add: key_ok_def one_holder_def safe_resends_def nobody_def)

lemma nobody_update: "nobody ph k \<Longrightarrow> \<not> holds p' k \<Longrightarrow> nobody (ph(n := p')) k"
  by (simp add: nobody_def)

lemma nobody_but: "one_holder ph k \<Longrightarrow> holds (ph n) k \<Longrightarrow> \<not> holds p' k \<Longrightarrow> nobody (ph(n := p')) k"
  by (auto simp: one_holder_def nobody_def)

lemma key_ok_claimed:
  assumes "nobody ph k" and "all_transient k sends" and "select_record k d = Some r"
    and "\<not> open_state (dr_state r)"
  shows "key_ok (ph(n := Claimed k)) d sends k"
  using assms by (simp add: key_ok_def one_holder_def safe_resends_def nobody_def)

lemma permitted_phase:
  "permitted p l d d' p' \<Longrightarrow> p' = p \<or> p' = Idle \<or> (\<exists>k s. l = Moved k s Delivering \<and> p' = Claimed k)
     \<or> (\<exists>k. l = ReadGranted k \<and> p' = Granted k)"
  by (cases l) (auto split: delivery_state.splits)

text \<open>A commit keeps it: whoever claims closes the row, and only the holder of a failed send opens it.\<close>

lemma key_ok_commit:
  assumes ok: "key_ok ph d sends k" and step: "store_step l d d'" and perm: "permitted (ph n) l d d' p'"
  shows "key_ok (ph(n := p')) d' sends k"
proof -
  have other: "holds p' k \<Longrightarrow> p' = ph n" if "\<forall>s. l \<noteq> Moved k s Delivering"
    using permitted_phase [OF perm] that by auto
  show ?thesis
  proof (cases "select_record k d'")
    case None
    then have none: "select_record k d = None" using row_stays [OF step] by blast
    then have "\<forall>s. l \<noteq> Moved k s Delivering"
      using step store_step_moved by metis
    then have "holds p' k \<Longrightarrow> p' = ph n" by (rule other)
    then show ?thesis by (rule key_ok_fewer [OF ok]) (simp_all add: none None)
  next
    case (Some r)
    from step Some show ?thesis
    proof (cases rule: row_before)
      case (1 m digest now)
      then have no: "nobody ph k" and "unsent k sends" using ok by (simp_all add: key_ok_def)
      moreover have "p' = ph n \<or> p' = Idle" using perm 1(2) by simp
      ultimately have "nobody (ph(n := p')) k" "all_transient k sends"
        by (auto simp: nobody_def unsent_def all_transient_def)
      then show ?thesis using Some by (rule key_ok_free)
    next
      case 2
      have "holds p' k \<Longrightarrow> p' = ph n" by (rule other) (use 2(2) in simp)
      then show ?thesis by (rule key_ok_fewer [OF ok]) (simp_all add: 2(1) Some)
    next
      case (3 c s u now)
      have r: "dr_state r = s" using 3(3) by simp
      have free: "nobody ph k \<and> all_transient k sends" if "open_state (dr_state c)"
        using ok 3(1) that by (simp add: key_ok_def)
      have shut: ?thesis if "s \<noteq> Delivering" "\<not> open_state s"
      proof -
        have "holds p' k \<Longrightarrow> p' = ph n" by (rule other) (use 3(2) that in simp)
        then show ?thesis by (rule key_ok_closed [OF ok _ Some]) (simp_all add: r that)
      qed
      show ?thesis
      proof (cases s)
        case Delivering
        with 3(4) have "open_state (dr_state c)" by (cases "dr_state c") (auto simp: open_state_def)
        moreover from perm 3(2) Delivering have "p' = Claimed k" by simp
        ultimately show ?thesis
          using free Some r Delivering key_ok_claimed by (simp add: open_state_def)
      next
        case RetryScheduled
        with perm 3(2) obtain f where p: "ph n = Answered k (DefiniteTransientFailure f)" "p' = Idle" by auto
        then have n: "holds (ph n) k" "resendable (ph n) k" by (simp_all add: transient_def)
        with ok have "all_transient k sends" "nobody (ph(n := Idle)) k"
          by (auto simp: key_ok_def safe_resends_def intro: nobody_but)
        with p Some show ?thesis by (auto intro: key_ok_free)
      next
        case ReadyToDeliver
        with perm 3(2) have pending: "open_state (dr_state c)" and p': "p' = ph n \<or> p' = Idle"
          by (auto simp: open_state_def)
        with free have "nobody (ph(n := p')) k" by (auto simp: nobody_def)
        with free [OF pending] Some show ?thesis by (auto intro: key_ok_free)
      next
        case PendingResult
        with 3(4) show ?thesis by (cases "dr_state c") auto
      qed (use shut in \<open>simp_all add: open_state_def\<close>)
    next
      case (4 c m)
      have "holds p' k \<Longrightarrow> p' = ph n" by (rule other) (use 4(2) in simp)
      then show ?thesis by (rule key_ok_closed [OF ok _ Some]) (simp_all add: 4(5) open_state_def)
    qed
  qed
qed

lemma sends_ok_commit:
  "sends_ok ph d sends \<Longrightarrow> store_step l d d' \<Longrightarrow> permitted (ph n) l d d' p' \<Longrightarrow> sends_ok (ph(n := p')) d' sends"
  unfolding sends_ok_def using key_ok_commit by blast

lemma sends_ok_drop: "sends_ok ph d sends \<Longrightarrow> sends_ok (ph(n := Idle)) d sends"
  unfolding sends_ok_def by (intro conjI allI key_ok_fewer) auto

text \<open>A send takes the claim to its answer.\<close>

lemma sends_ok_send:
  assumes ok: "sends_ok ph d sends" and p: "ph n = Claimed key" and e: "se_key e = key"
  shows "sends_ok (ph(n := Answered key (se_result e))) d (sends @ [e])"
proof -
  let ?ph = "ph(n := Answered key (se_result e))"
  have n: "holds (ph n) key" "resendable (ph n) key" using p by simp_all
  have key: "key_ok ph d sends key" using ok by (simp add: sends_ok_def)
  with n have clean: "all_transient key sends" and one: "one_holder ph key"
    by (auto simp: key_ok_def safe_resends_def)
  from key n(1) obtain r where row: "select_record key d = Some r" "\<not> open_state (dr_state r)"
    by (cases "select_record key d") (auto simp: key_ok_def nobody_def)
  have "key_ok ?ph d (sends @ [e]) k" for k
  proof (cases "k = key")
    case True
    have holds: "holds (?ph m) key \<longleftrightarrow> m = n" for m
      using one n(1) by (auto simp: one_holder_def)
    have "all_transient key (sends @ [e])" if m: "resendable (?ph m) key" for m
    proof -
      from m have "m = n" using holds resendable_holds by blast
      with m have "transient (se_result e)" by simp
      with clean show ?thesis by (auto simp: all_transient_def)
    qed
    then have "safe_resends ?ph (sends @ [e]) key" by (simp only: safe_resends_def) blast
    moreover have "one_holder ?ph key" by (simp only: one_holder_def holds) blast
    ultimately show ?thesis using True row by (simp add: key_ok_def)
  next
    case False
    have "key_ok ?ph d sends k"
      by (rule key_ok_fewer) (use ok False in \<open>auto simp: sends_ok_def\<close>)
    moreover have "all_transient k (sends @ [e]) = all_transient k sends" "unsent k (sends @ [e]) = unsent k sends"
      using False e by (auto simp: all_transient_def unsent_def)
    ultimately show ?thesis
      by (cases "select_record k d") (simp_all add: key_ok_def safe_resends_def)
  qed
  moreover have "once_only (sends @ [e])" using ok clean e by (simp add: sends_ok_def once_only_snoc)
  ultimately show ?thesis by (simp add: sends_ok_def)
qed

subsection \<open>What the database says of the sends\<close>

definition evidence_ok :: "(nat \<Rightarrow> phase) \<Rightarrow> delivery_db \<Rightarrow> sent_entry list \<Rightarrow> bool" where
  "evidence_ok ph d sends \<longleftrightarrow>
     (\<forall>n k r. ph n = Answered k r \<longrightarrow> (\<exists>e\<in>set sends. se_key e = k \<and> se_result e = r))
     \<and> (\<forall>k m. row_message k d = Some m \<longrightarrow> (\<exists>e\<in>set sends. se_key e = k \<and> se_result e = DefiniteSuccess m))
     \<and> (\<forall>k r. select_record k d = Some r \<longrightarrow> dr_state r = DeliveredState \<longrightarrow> dr_message_id r \<noteq> None)"

definition content_ok :: "delivery_db \<Rightarrow> sent_entry list \<Rightarrow> bool" where
  "content_ok d sends \<longleftrightarrow>
     (\<forall>e\<in>set sends. select_record (se_key e) d \<noteq> None \<and> se_content e = row_content (se_key e) d)"

definition sends_of :: "string \<Rightarrow> sent_entry list \<Rightarrow> nat" where
  "sends_of k sends = length (filter (\<lambda>e. se_key e = k) sends)"

definition claimed :: "(nat \<Rightarrow> phase) \<Rightarrow> string \<Rightarrow> nat" where
  "claimed ph k = (if \<exists>n. ph n = Claimed k then 1 else 0)"

definition budget_ok :: "(nat \<Rightarrow> phase) \<Rightarrow> delivery_db \<Rightarrow> sent_entry list \<Rightarrow> bool" where
  "budget_ok ph d sends \<longleftrightarrow> (\<forall>k. sends_of k sends + claimed ph k \<le> row_attempts k d)"

lemma row_message_before:
  assumes "store_step l d d'" and "permitted p l d d' p'" and "row_message k d' = Some m"
  shows "row_message k d = Some m \<or> l = Evidenced k m"
proof -
  from assms(3) obtain r where r: "select_record k d' = Some r" "dr_message_id r = Some m"
    by (auto simp: row_message_def split: option.splits)
  from assms(1) r(1) show ?thesis
  proof (cases rule: row_before)
    case (1 n digest now)
    with r(2) show ?thesis by (simp add: new_row_def)
  next
    case 2
    with r(2) show ?thesis by (simp add: row_message_def)
  next
    case (3 c s u now)
    with assms(2,3) show ?thesis by simp
  next
    case (4 c m')
    with r(2) show ?thesis by simp
  qed
qed

lemma evidence_ok_commit:
  assumes ok: "evidence_ok ph d sends" and step: "store_step l d d'" and perm: "permitted (ph n) l d d' p'"
  shows "evidence_ok (ph(n := p')) d' sends"
  unfolding evidence_ok_def
proof (intro conjI allI impI)
  fix m k r
  assume "(ph(n := p')) m = Answered k r"
  with permitted_phase [OF perm] have "\<exists>i. ph i = Answered k r" by (auto split: if_splits)
  with ok show "\<exists>e\<in>set sends. se_key e = k \<and> se_result e = r" unfolding evidence_ok_def by blast
next
  fix k m
  assume "row_message k d' = Some m"
  with row_message_before [OF step perm] have "row_message k d = Some m \<or> l = Evidenced k m" by blast
  then show "\<exists>e\<in>set sends. se_key e = k \<and> se_result e = DefiniteSuccess m"
    using ok perm unfolding evidence_ok_def by (metis permitted.simps(4))
next
  fix k r
  assume r: "select_record k d' = Some r" "dr_state r = DeliveredState"
  from step r(1) show "dr_message_id r \<noteq> None"
  proof (cases rule: row_before)
    case (3 c s u now)
    with r perm have "row_message k d \<noteq> None" "row_message k d' = row_message k d" by auto
    with r(1) show ?thesis by (simp add: row_message_def)
  qed (use r ok in \<open>auto simp: evidence_ok_def new_row_def\<close>)
qed

lemma content_ok_commit: "content_ok d sends \<Longrightarrow> store_step l d d' \<Longrightarrow> content_ok d' sends"
  unfolding content_ok_def using row_stays row_content_step by metis

lemma row_attempts_step:
  assumes "store_step l d d'" and "permitted p l d d' p'"
  shows "row_attempts k d' = row_attempts k d + (if p' = Claimed k \<and> (\<exists>s. l = Moved k s Delivering) then 1 else 0)"
proof (cases "select_record k d'")
  case None
  then have none: "select_record k d = None" using row_stays [OF assms(1)] by blast
  then have "\<forall>s. l \<noteq> Moved k s Delivering" using assms(1) store_step_moved by metis
  with None none show ?thesis by (simp add: row_attempts_def)
next
  case (Some r)
  from assms(1) Some show ?thesis
  proof (cases rule: row_before)
    case (3 c s u now)
    then show ?thesis using assms(2) by (cases s) auto
  qed (use Some in \<open>auto simp: row_attempts_def new_row_def\<close>)
qed

lemma claimed_update:
  "claimed (ph(n := p')) k \<le> claimed ph k + (if p' = Claimed k \<and> p' \<noteq> ph n then 1 else 0)"
  by (auto simp: claimed_def split: if_splits)

lemma budget_ok_commit:
  assumes ok: "budget_ok ph d sends" and step: "store_step l d d'" and perm: "permitted (ph n) l d d' p'"
  shows "budget_ok (ph(n := p')) d' sends"
  unfolding budget_ok_def
proof
  fix k
  have before: "sends_of k sends + claimed ph k \<le> row_attempts k d"
    using ok by (simp add: budget_ok_def)
  note new = claimed_update [of ph n p' k] and attempts = row_attempts_step [OF step perm, of k]
  show "sends_of k sends + claimed (ph(n := p')) k \<le> row_attempts k d'"
  proof (cases "p' = Claimed k \<and> p' \<noteq> ph n")
    case True
    with permitted_phase [OF perm] have "\<exists>s. l = Moved k s Delivering" by auto
    with True have "row_attempts k d' = row_attempts k d + 1" using attempts by simp
    moreover have "claimed (ph(n := p')) k \<le> claimed ph k + 1" using new by (simp split: if_splits)
    ultimately show ?thesis using before by linarith
  next
    case False
    then have "claimed (ph(n := p')) k \<le> claimed ph k" using new by (simp split: if_splits)
    with before attempts show ?thesis by linarith
  qed
qed

lemma budget_ok_drop: "budget_ok ph d sends \<Longrightarrow> budget_ok (ph(n := Idle)) d sends"
proof -
  assume ok: "budget_ok ph d sends"
  show "budget_ok (ph(n := Idle)) d sends"
    unfolding budget_ok_def
  proof
    fix k
    have "claimed (ph(n := Idle)) k \<le> claimed ph k" using claimed_update [of ph n Idle k] by simp
    moreover have "sends_of k sends + claimed ph k \<le> row_attempts k d" using ok by (simp add: budget_ok_def)
    ultimately show "sends_of k sends + claimed (ph(n := Idle)) k \<le> row_attempts k d" by linarith
  qed
qed

subsection \<open>What the database says of the reads\<close>

definition reads_of :: "string \<Rightarrow> read_entry list \<Rightarrow> nat" where
  "reads_of k reads = length (filter (\<lambda>e. re_key e = k) reads)"

definition granted :: "(nat \<Rightarrow> phase) \<Rightarrow> string \<Rightarrow> nat" where
  "granted ph k = card {n. ph n = Granted k}"

definition reads_ok :: "(nat \<Rightarrow> phase) \<Rightarrow> delivery_db \<Rightarrow> read_entry list \<Rightarrow> bool" where
  "reads_ok ph d reads \<longleftrightarrow>
     finite {n. ph n \<noteq> Idle}
     \<and> (\<forall>k. reads_of k reads + granted ph k \<le> read_count k d \<and> read_count k d \<le> max_ambiguous_reconciliation_attempts)
     \<and> (\<forall>e\<in>set reads. \<exists>r. select_record (re_key e) d = Some r
           \<and> dr_message_id r = Some (re_message_id e) \<and> dr_channel_id r = re_channel_id e)"

lemma read_count_insert_event:
  "read_count k (insert_event k' p n v re at d) = read_count k d + (if k' = k \<and> re = read_reason then 1 else 0)"
  by (simp add: read_count_def events_insert_event)

lemma read_count_step:
  "store_step l d d' \<Longrightarrow> read_count k d' = read_count k d + (if l = ReadGranted k then 1 else 0)"
proof (induction rule: store_step.induct)
  case (created k' d n r digest now)
  have "read_count k (d\<lparr>db_rows := db_rows d @ [r]\<rparr>) = read_count k d"
    by (simp add: read_count_def events_of_def)
  then show ?case by (simp add: read_count_insert_event read_reason_def)
next
  case (moved k' d c s u reason now)
  have "read_count k (set_row (dr_key c) r d) = read_count k d" for r by (simp add: read_count_def)
  with moved show ?case by (simp add: moved_db_def read_count_insert_event)
next
  case (evidenced k' d c r m at now)
  have "read_count k (set_row (dr_key c) r d) = read_count k d" by (simp add: read_count_def)
  with evidenced show ?case by (simp add: moved_db_def read_count_insert_event read_reason_def)
qed (auto simp: read_count_insert_event)

lemma granted_update:
  assumes "finite {n. ph n \<noteq> Idle}"
  shows "granted (ph(n := p')) k \<le> granted ph k + (if p' = Granted k \<and> p' \<noteq> ph n then 1 else 0)"
    and "ph n = Granted k \<Longrightarrow> p' \<noteq> Granted k \<Longrightarrow> granted (ph(n := p')) k + 1 = granted ph k"
proof -
  let ?A = "{m. ph m = Granted k}" and ?B = "{m. (ph(n := p')) m = Granted k}"
  have fin: "finite ?A" by (rule finite_subset [OF _ assms]) auto
  have "?B \<subseteq> (if p' = Granted k \<and> p' \<noteq> ph n then insert n ?A else ?A)" by auto
  then have "card ?B \<le> card (if p' = Granted k \<and> p' \<noteq> ph n then insert n ?A else ?A)"
    by (rule card_mono [rotated]) (simp add: fin)
  also have "\<dots> \<le> card ?A + (if p' = Granted k \<and> p' \<noteq> ph n then 1 else 0)"
    using fin by (cases "p' = Granted k \<and> p' \<noteq> ph n") (auto simp: card_insert_if simp del: Collect_const)
  finally show "granted (ph(n := p')) k \<le> granted ph k + (if p' = Granted k \<and> p' \<noteq> ph n then 1 else 0)"
    by (simp add: granted_def)
  assume n: "ph n = Granted k" "p' \<noteq> Granted k"
  then have "?B = ?A - {n}" by auto
  moreover have "n \<in> ?A" using n by simp
  ultimately have "card ?A = Suc (card ?B)" using fin by (metis card.remove)
  then show "granted (ph(n := p')) k + 1 = granted ph k" by (simp add: granted_def)
qed

lemma row_message_after:
  assumes "store_step l d d'" and "select_record k d = Some r" and "dr_message_id r = Some m"
  shows "\<exists>r'. select_record k d' = Some r' \<and> dr_message_id r' = Some m \<and> dr_channel_id r' = dr_channel_id r"
proof -
  from store_step_row_after [OF assms(1,2)] obtain r' where r': "select_record k d' = Some r'" "row_after r r'"
    by blast
  with assms(3) show ?thesis by (auto simp: row_after_def same_identity_def input_of_record_def)
qed

lemma finite_update: "finite {n. ph n \<noteq> Idle} \<Longrightarrow> finite {m. (ph(n := p')) m \<noteq> Idle}"
  by (rule finite_subset [of _ "insert n {n. ph n \<noteq> Idle}"]) auto

lemma reads_ok_commit:
  assumes ok: "reads_ok ph d reads" and step: "store_step l d d'" and perm: "permitted (ph n) l d d' p'"
  shows "reads_ok (ph(n := p')) d' reads"
  unfolding reads_ok_def
proof (intro conjI allI)
  show "finite {m. (ph(n := p')) m \<noteq> Idle}"
    by (rule finite_update) (use ok in \<open>simp add: reads_ok_def\<close>)
next
  fix k
  have before: "reads_of k reads + granted ph k \<le> read_count k d" and fin: "finite {n. ph n \<noteq> Idle}"
    using ok by (simp_all add: reads_ok_def)
  note new = granted_update(1) [OF fin, of n p' k] and count = read_count_step [OF step, of k]
  show "reads_of k reads + granted (ph(n := p')) k \<le> read_count k d'"
  proof (cases "p' = Granted k \<and> p' \<noteq> ph n")
    case True
    with permitted_phase [OF perm] have "l = ReadGranted k" by auto
    then have "read_count k d' = read_count k d + 1" using count by simp
    moreover have "granted (ph(n := p')) k \<le> granted ph k + 1" using new by (simp split: if_splits)
    ultimately show ?thesis using before by linarith
  next
    case False
    then have "granted (ph(n := p')) k \<le> granted ph k" using new by (simp split: if_splits)
    with before count show ?thesis by linarith
  qed
  show "read_count k d' \<le> max_ambiguous_reconciliation_attempts"
    using count perm ok by (cases "l = ReadGranted k") (auto simp: reads_ok_def)
next
  show "\<forall>e\<in>set reads. \<exists>r. select_record (re_key e) d' = Some r
           \<and> dr_message_id r = Some (re_message_id e) \<and> dr_channel_id r = re_channel_id e"
    using ok row_message_after [OF step] unfolding reads_ok_def by metis
qed

end
