(* ===== verification/Delivery_Runs.thy ===== *)
theory Delivery_Runs
  imports Delivery_System
begin

section \<open>Runs of the workers\<close>

text \<open>
  The invariant of the whole system, with the phase of every task and the records it has read as
  witnesses, and its interpretation as an invariant of the step relation.
\<close>

subsection \<open>The shared part\<close>

definition shared_ok ::
  "(nat \<Rightarrow> phase) \<Rightarrow> delivery_db \<Rightarrow> sent_entry list \<Rightarrow> read_entry list \<Rightarrow> bool" where
  "shared_ok ph d sends reads \<longleftrightarrow>
     sends_ok ph d sends \<and> evidence_ok ph d sends \<and> content_ok d sends \<and> budget_ok ph d sends
     \<and> reads_ok ph d reads"

lemma shared_ok_commit:
  "shared_ok ph d sends reads \<Longrightarrow> store_step l d d' \<Longrightarrow> permitted (ph n) l d d' p' \<Longrightarrow>
     shared_ok (ph(n := p')) d' sends reads"
  unfolding shared_ok_def
  by (blast intro: sends_ok_commit evidence_ok_commit content_ok_commit budget_ok_commit reads_ok_commit)

lemma shared_ok_drop: "shared_ok ph d sends reads \<Longrightarrow> shared_ok (ph(n := Idle)) d sends reads"
  using shared_ok_commit [OF _ store_step.quiet, of ph d sends reads n Idle] by simp

lemma budget_ok_send:
  assumes ok: "budget_ok ph d sends" and one: "sends_ok ph d sends" and p: "ph n = Claimed key"
    and e: "se_key e = key"
  shows "budget_ok (ph(n := Answered key r)) d (sends @ [e])"
  unfolding budget_ok_def
proof
  fix k
  have before: "sends_of k sends + claimed ph k \<le> row_attempts k d" using ok by (simp add: budget_ok_def)
  show "sends_of k (sends @ [e]) + claimed (ph(n := Answered key r)) k \<le> row_attempts k d"
  proof (cases "k = key")
    case True
    have "one_holder ph key" using one by (simp add: sends_ok_def key_ok_def)
    with p have "claimed (ph(n := Answered key r)) key = 0"
      by (auto simp: claimed_def one_holder_def)
    moreover have "claimed ph key = 1" using p by (auto simp: claimed_def)
    ultimately show ?thesis using before True e by (simp add: sends_of_def)
  next
    case False
    have "claimed (ph(n := Answered key r)) k \<le> claimed ph k"
      using claimed_update [of ph n "Answered key r" k] by simp
    with before False e show ?thesis by (simp add: sends_of_def)
  qed
qed

lemma shared_ok_send:
  assumes ok: "shared_ok ph d sends reads" and p: "ph n = Claimed key" and e: "se_key e = key"
    and row: "select_record key d \<noteq> None" "se_content e = row_content key d"
  shows "shared_ok (ph(n := Answered key (se_result e))) d (sends @ [e]) reads"
proof -
  let ?ph = "ph(n := Answered key (se_result e))"
  have "sends_ok ?ph d (sends @ [e])"
    using ok p e by (intro sends_ok_send) (simp_all add: shared_ok_def)
  moreover have "evidence_ok ?ph d (sends @ [e])"
    using ok e by (auto simp: shared_ok_def evidence_ok_def)
  moreover have "content_ok d (sends @ [e])"
    using ok e row by (auto simp: shared_ok_def content_ok_def)
  moreover have "budget_ok ?ph d (sends @ [e])"
    using ok p e by (intro budget_ok_send) (simp_all add: shared_ok_def)
  moreover have "reads_ok ?ph d reads"
    unfolding reads_ok_def
  proof (intro conjI allI)
    have fin: "finite {m. ph m \<noteq> Idle}" using ok by (simp add: shared_ok_def reads_ok_def)
    then show "finite {m. ?ph m \<noteq> Idle}" by (rule finite_update)
    fix k
    have "granted ?ph k \<le> granted ph k"
      using granted_update(1) [OF fin, of n "Answered key (se_result e)" k] by simp
    moreover have "reads_of k reads + granted ph k \<le> read_count k d"
      using ok by (simp add: shared_ok_def reads_ok_def)
    ultimately show "reads_of k reads + granted ?ph k \<le> read_count k d" by linarith
  qed (use ok in \<open>simp_all add: shared_ok_def reads_ok_def\<close>)
  ultimately show ?thesis by (simp add: shared_ok_def)
qed

lemma shared_ok_fetch:
  assumes ok: "shared_ok ph d sends reads" and p: "ph n = Granted key" and e: "re_key e = key"
    and row: "select_record key d = Some r" "dr_message_id r = Some (re_message_id e)"
      "dr_channel_id r = re_channel_id e"
  shows "shared_ok (ph(n := Idle)) d sends (reads @ [e])"
proof -
  have dropped: "shared_ok (ph(n := Idle)) d sends reads" using ok by (rule shared_ok_drop)
  have fin: "finite {m. ph m \<noteq> Idle}" using ok by (simp add: shared_ok_def reads_ok_def)
  have "reads_of k (reads @ [e]) + granted (ph(n := Idle)) k \<le> read_count k d" for k
  proof (cases "k = key")
    case True
    have "reads_of key reads + granted ph key \<le> read_count key d"
      using ok by (simp add: shared_ok_def reads_ok_def)
    moreover have "granted (ph(n := Idle)) key + 1 = granted ph key"
      by (rule granted_update(2) [OF fin p]) simp
    ultimately show ?thesis using True e by (simp add: reads_of_def)
  next
    case False
    with dropped e show ?thesis by (simp add: shared_ok_def reads_ok_def reads_of_def)
  qed
  with dropped row e show ?thesis by (auto simp: shared_ok_def reads_ok_def)
qed

subsection \<open>The invariant\<close>

text \<open>Each task follows the discipline from its phase, knowing what it has read.\<close>

fun task_ok :: "delivery_record set \<Rightarrow> phase \<Rightarrow> delivery_db \<Rightarrow> unit task option \<Rightarrow> bool" where
  "task_ok R p d None \<longleftrightarrow> p = Idle"
| "task_ok R p d (Some t) \<longleftrightarrow> follows R p t anything \<and> (\<forall>r\<in>R. snap d r)"

definition tasks_ok ::
  "(nat \<Rightarrow> phase) \<Rightarrow> (nat \<Rightarrow> delivery_record set) \<Rightarrow> delivery_db \<Rightarrow> (nat \<Rightarrow> unit task option) \<Rightarrow> bool" where
  "tasks_ok ph S d tasks \<longleftrightarrow> (\<forall>n. task_ok (S n) (ph n) d (tasks n))"

definition sys_inv :: "delivery_system \<Rightarrow> bool" where
  "sys_inv s \<longleftrightarrow>
     db_inv (sy_db s)
     \<and> (\<exists>ph S. shared_ok ph (sy_db s) (sy_sends s) (sy_reads s) \<and> tasks_ok ph S (sy_db s) (sy_tasks s))"

lemma tasks_ok_Some:
  "tasks_ok ph S d tasks \<Longrightarrow> tasks n = Some t \<Longrightarrow> follows (S n) (ph n) t anything \<and> (\<forall>r\<in>S n. snap d r)"
  unfolding tasks_ok_def by (metis task_ok.simps(2))

lemma tasks_ok_None: "tasks_ok ph S d tasks \<Longrightarrow> tasks n = None \<Longrightarrow> ph n = Idle"
  unfolding tasks_ok_def by (metis task_ok.simps(1))

lemma task_ok_mono: "task_ok R p d t \<Longrightarrow> (\<And>r. snap d r \<Longrightarrow> snap d' r) \<Longrightarrow> task_ok R p d' t"
  by (cases t) auto

lemma tasks_ok_update:
  assumes "tasks_ok ph S d tasks" and "\<And>r. snap d r \<Longrightarrow> snap d' r" and "task_ok R p d' t"
  shows "tasks_ok (ph(n := p)) (S(n := R)) d' (tasks(n := t))"
  unfolding tasks_ok_def
proof
  fix m
  show "task_ok ((S(n := R)) m) ((ph(n := p)) m) d' ((tasks(n := t)) m)"
  proof (cases "m = n")
    case True
    with assms(3) show ?thesis by simp
  next
    case False
    from assms(1) have "task_ok (S m) (ph m) d (tasks m)"
      unfolding tasks_ok_def by (rule spec)
    then have "task_ok (S m) (ph m) d' (tasks m)"
      by (rule task_ok_mono) (rule assms(2))
    with False show ?thesis by simp
  qed
qed

lemma follows_start: "follows S p t anything \<Longrightarrow> follows S p (start t) anything"
  unfolding start_def by (erule follows_await) (simp add: follows.ret)

lemma sys_invI:
  "db_inv (sy_db s) \<Longrightarrow> shared_ok ph (sy_db s) (sy_sends s) (sy_reads s) \<Longrightarrow>
     tasks_ok ph S (sy_db s) (sy_tasks s) \<Longrightarrow> sys_inv s"
  unfolding sys_inv_def by blast

text \<open>A task that goes on without touching anything shared.\<close>

lemma sys_inv_silent:
  assumes inv: "db_inv (sy_db s)" and shared: "shared_ok ph (sy_db s) (sy_sends s) (sy_reads s)"
    and tasks: "tasks_ok ph S (sy_db s) (sy_tasks s)"
    and t: "follows R (ph n) t anything" "\<forall>r\<in>R. snap (sy_db s) r"
  shows "sys_inv (set_task n (Some t) s)"
proof (rule sys_invI)
  show "shared_ok (ph(n := ph n)) (sy_db (set_task n (Some t) s)) (sy_sends (set_task n (Some t) s))
      (sy_reads (set_task n (Some t) s))"
    using shared by (simp add: set_task_def)
  show "tasks_ok (ph(n := ph n)) (S(n := R)) (sy_db (set_task n (Some t) s)) (sy_tasks (set_task n (Some t) s))"
    using tasks_ok_update [OF tasks, of "sy_db s" R "ph n" "Some t" n] t by (simp add: set_task_def)
qed (use inv in \<open>simp add: set_task_def\<close>)

lemma sys_inv_step: "delivery_step cx author s s' \<Longrightarrow> sys_inv s \<Longrightarrow> sys_inv s'"
proof -
  assume step: "delivery_step cx author s s'" and inv: "sys_inv s"
  then obtain ph S where db: "db_inv (sy_db s)"
    and shared: "shared_ok ph (sy_db s) (sy_sends s) (sy_reads s)"
    and tasks: "tasks_ok ph S (sy_db s) (sy_tasks s)"
    unfolding sys_inv_def by blast
  note silent = sys_inv_silent [OF db shared tasks]
  have running: "follows (S n) (ph n) t anything" "\<forall>r\<in>S n. snap (sy_db s) r" if "sy_tasks s n = Some t" for n t
    using tasks_ok_Some [OF tasks that] by blast+
  have idle: "ph n = Idle" if "sy_tasks s n = None" for n
    using tasks_ok_None [OF tasks that] .
  from step show "sys_inv s'"
  proof cases
    case (captures n m channel inbound)
    show ?thesis
      unfolding captures(1)
      by (rule silent [of "{}"]) (simp_all add: idle [OF captures(2)] follows_start follows_capture)
  next
    case (scans n now)
    show ?thesis
      unfolding scans(1)
      by (rule silent [of "{}"]) (simp_all add: idle [OF scans(2)] follows_start follows_reconcile_once)
  next
    case (batches n now stale_before limit)
    show ?thesis
      unfolding batches(1)
      by (rule silent [of "{}"]) (simp_all add: idle [OF batches(2)] follows_start follows_reconcile_candidates)
  next
    case (commits n g k i)
    from running [OF commits(2)] db obtain l p' R where
      step: "store_step l (sy_db s) (g i (sy_db s))" and perm: "permitted (ph n) l (sy_db s) (g i (sy_db s)) p'"
      and R: "\<forall>r\<in>R. snap (g i (sy_db s)) r" and k: "follows R p' (k i (sy_db s)) anything"
      by (auto elim!: follows_TxE) blast
    show ?thesis
      unfolding commits(1)
    proof (rule sys_invI)
      show "shared_ok (ph(n := p')) (sy_db (set_task n (Some (k i (sy_db s))) (s\<lparr>sy_db := g i (sy_db s)\<rparr>)))
          (sy_sends (set_task n (Some (k i (sy_db s))) (s\<lparr>sy_db := g i (sy_db s)\<rparr>)))
          (sy_reads (set_task n (Some (k i (sy_db s))) (s\<lparr>sy_db := g i (sy_db s)\<rparr>)))"
        using shared_ok_commit [OF shared step perm] by (simp add: set_task_def)
      show "tasks_ok (ph(n := p')) (S(n := R)) (sy_db (set_task n (Some (k i (sy_db s))) (s\<lparr>sy_db := g i (sy_db s)\<rparr>)))
          (sy_tasks (set_task n (Some (k i (sy_db s))) (s\<lparr>sy_db := g i (sy_db s)\<rparr>)))"
        using tasks_ok_update [OF tasks snap_step [OF step], of R p' "Some (k i (sy_db s))" n] k R
        by (simp add: set_task_def)
    qed (use db_inv_step [OF step db] in \<open>simp add: set_task_def\<close>)
  next
    case (ticks n k now)
    show ?thesis
      unfolding ticks(1) using running [OF ticks(2)]
      by (intro silent) (auto elim: follows_ClockE)
  next
    case (draws n k token)
    show ?thesis
      unfolding draws(1) using running [OF draws(2)]
      by (intro silent) (auto elim: follows_FreshE)
  next
    case (sends n key c m k r)
    from running(1) [OF sends(2)] obtain x where x: "x \<in> S n" "key = dr_key x"
        "m = terminal_content_for_discord (dr_payload x)" "ph n = Claimed key"
      and k: "follows (S n) (Answered key r) (k r) anything"
      by (auto elim: follows_SendE)
    let ?e = "\<lparr>se_key = key, se_channel = c, se_content = m, se_result = r\<rparr>"
    from running(2) [OF sends(2)] x obtain c' where c': "select_record key (sy_db s) = Some c'" "row_after x c'"
      by (auto simp: snap_def)
    then have content: "row_content key (sy_db s) = m"
      using x(3) row_after_same by (simp add: row_content_def)
    show ?thesis
      unfolding sends(1)
    proof (rule sys_invI)
      show "shared_ok (ph(n := Answered key r))
          (sy_db (set_task n (Some (k r)) (s\<lparr>sy_sends := sy_sends s @ [?e]\<rparr>)))
          (sy_sends (set_task n (Some (k r)) (s\<lparr>sy_sends := sy_sends s @ [?e]\<rparr>)))
          (sy_reads (set_task n (Some (k r)) (s\<lparr>sy_sends := sy_sends s @ [?e]\<rparr>)))"
        using shared_ok_send [OF shared x(4), of ?e] c' content by (simp add: set_task_def)
      show "tasks_ok (ph(n := Answered key r)) (S(n := S n))
          (sy_db (set_task n (Some (k r)) (s\<lparr>sy_sends := sy_sends s @ [?e]\<rparr>)))
          (sy_tasks (set_task n (Some (k r)) (s\<lparr>sy_sends := sy_sends s @ [?e]\<rparr>)))"
        using tasks_ok_update [OF tasks, of _ "S n" _ "Some (k r)" n] k running(2) [OF sends(2)]
        by (simp add: set_task_def)
    qed (use db in \<open>simp add: set_task_def\<close>)
  next
    case (fetches n key cid m k a)
    from running(1) [OF fetches(2)] obtain x where x: "x \<in> S n" "key = dr_key x" "cid = dr_channel_id x"
        "dr_message_id x = Some m" "ph n = Granted key"
      and k: "follows (S n) Idle (k a) anything"
      by (auto elim: follows_FetchE)
    let ?e = "\<lparr>re_key = key, re_channel_id = cid, re_message_id = m, re_result = a\<rparr>"
    from running(2) [OF fetches(2)] x(1,2) obtain c' where c': "select_record key (sy_db s) = Some c'" "row_after x c'"
      by (auto simp: snap_def)
    with x(3,4) have row: "dr_message_id c' = Some m" "dr_channel_id c' = cid"
      by (auto simp: row_after_def same_identity_def input_of_record_def)
    show ?thesis
      unfolding fetches(1)
    proof (rule sys_invI)
      show "shared_ok (ph(n := Idle))
          (sy_db (set_task n (Some (k a)) (s\<lparr>sy_reads := sy_reads s @ [?e]\<rparr>)))
          (sy_sends (set_task n (Some (k a)) (s\<lparr>sy_reads := sy_reads s @ [?e]\<rparr>)))
          (sy_reads (set_task n (Some (k a)) (s\<lparr>sy_reads := sy_reads s @ [?e]\<rparr>)))"
        using shared_ok_fetch [OF shared x(5), of ?e c'] c'(1) row by (simp add: set_task_def)
      show "tasks_ok (ph(n := Idle)) (S(n := S n))
          (sy_db (set_task n (Some (k a)) (s\<lparr>sy_reads := sy_reads s @ [?e]\<rparr>)))
          (sy_tasks (set_task n (Some (k a)) (s\<lparr>sy_reads := sy_reads s @ [?e]\<rparr>)))"
        using tasks_ok_update [OF tasks, of _ "S n" _ "Some (k a)" n] k running(2) [OF fetches(2)]
        by (simp add: set_task_def)
    qed (use db in \<open>simp add: set_task_def\<close>)
  next
    case (looks_up n rid k x)
    show ?thesis
      unfolding looks_up(1) using running [OF looks_up(2)]
      by (intro silent) (auto elim: follows_LookupE)
  next
    case (crashes n)
    show ?thesis
      unfolding crashes
    proof (rule sys_invI)
      show "shared_ok (ph(n := Idle)) (sy_db (set_task n None s)) (sy_sends (set_task n None s)) (sy_reads (set_task n None s))"
        using shared_ok_drop [OF shared] by (simp add: set_task_def)
      show "tasks_ok (ph(n := Idle)) (S(n := {})) (sy_db (set_task n None s)) (sy_tasks (set_task n None s))"
        using tasks_ok_update [OF tasks, of _ "{}" Idle None n] by (simp add: set_task_def)
    qed (use db in \<open>simp add: set_task_def\<close>)
  qed
qed

interpretation delivery: preserved "delivery_step cx author" sys_inv for cx author
  by unfold_locales (rule sys_inv_step)

lemma sys_inv_initial: "sys_inv initial_system"
proof (rule sys_invI [where ph = "\<lambda>_. Idle" and S = "\<lambda>_. {}"])
  have "select_record k empty_db = None" for k by (simp add: select_record_def empty_db_def)
  then show "shared_ok (\<lambda>_. Idle) (sy_db initial_system) (sy_sends initial_system) (sy_reads initial_system)"
    by (simp add: initial_system_def shared_ok_def sends_ok_def key_ok_def one_holder_def safe_resends_def
        nobody_def unsent_def once_only_def evidence_ok_def row_message_def content_ok_def budget_ok_def
        sends_of_def claimed_def reads_ok_def reads_of_def granted_def read_count_def events_of_def empty_db_def)
qed (simp_all add: initial_system_def tasks_ok_def)

text \<open>The system is reached from the empty database.\<close>

definition reached :: "delivery_codec \<Rightarrow> string \<Rightarrow> delivery_system \<Rightarrow> bool" where
  "reached cx author s \<longleftrightarrow> (delivery_step cx author)\<^sup>*\<^sup>* initial_system s"

lemma reached_inv:
  assumes "reached cx author s"
  obtains ph where "db_inv (sy_db s)" "shared_ok ph (sy_db s) (sy_sends s) (sy_reads s)"
  using delivery.run_inv [OF assms [unfolded reached_def] sys_inv_initial] unfolding sys_inv_def by blast

end
