(* ===== verification/Delivery_Outcomes.thy ===== *)
theory Delivery_Outcomes
  imports Delivery_Compliance
begin

section \<open>The worker alone\<close>

text \<open>
  What a worker achieves when nobody interferes and SQLite answers: a transition that the checks allow
  is taken, and a record that is ready ends in the state its answer calls for.
\<close>

subsection \<open>Transitions that are granted\<close>

lemma no_clash_kept:
  assumes inv: "db_inv d" and c: "select_record k d = Some c" and u: "up_message_id u = None"
  shows "\<not> message_id_clash (transitioned c s u now) d"
proof
  assume "message_id_clash (transitioned c s u now) d"
  then obtain x where x: "dr_message_id c \<noteq> None" "x \<in> set (db_rows d)" "dr_key x \<noteq> dr_key c"
      "dr_platform x = dr_platform c" "dr_message_id x = dr_message_id c"
    unfolding message_id_clash_def by (auto simp: u)
  moreover have "c \<in> set (db_rows d)" using c by (rule select_record_in)
  ultimately show False using inv unfolding db_inv_def ids_unique_def by metis
qed

lemma transition_inner_granted:
  assumes inv: "db_inv d" and c: "select_record k d = Some c"
    and refusal: "transition_refusal c rv tok s u = None" and u: "up_message_id u = None"
    and safe: "validate_safe_field reason ''safe_reason_code'' = Inr ()" "validate_transition_update u = Inr ()"
    and i: "ti_fail i = None"
  shows "transition_inner k rv tok s u reason i d =
     (Inr (transitioned c s u (ti_now i)), moved_db c (transitioned c s u (ti_now i)) reason (ti_now i) d)"
  using no_clash_kept [OF inv c u] c refusal safe i
  by (simp add: transition_inner_def sql_def write_row_def moved_db_def)

lemma moved_db_select:
  "select_record k d = Some c \<Longrightarrow> dr_key r = dr_key c \<Longrightarrow> select_record k (moved_db c r reason now d) = Some r"
  by (simp add: select_record_moved_db)

lemma moved_db_single:
  "db_rows d = [c] \<Longrightarrow> db_rows (moved_db c r reason now d) = [r]"
  by (simp add: moved_db_def insert_event_def set_row_def)

lemma moved_db_inv:
  assumes inv: "db_inv d" and c: "select_record k d = Some c"
    and refusal: "transition_refusal c rv tok s u = None" and u: "up_message_id u = None"
    and reason: "reason \<noteq> read_reason"
  shows "db_inv (moved_db c (transitioned c s u now) reason now d)"
proof -
  note r = transition_refusal_None [OF refusal]
  have "store_step (Moved k (dr_state c) s) d (moved_db c (transitioned c s u now) reason now d)"
    by (rule store_step.moved [OF c r(4) r(7) r(5) r(6) reason no_clash_kept [OF inv c u]])
  then show ?thesis using inv by (rule db_inv_step)
qed

subsection \<open>Texts that may stand in the audit log\<close>

definition audit_safe :: "string \<Rightarrow> bool" where
  "audit_safe v \<longleftrightarrow> validate_safe_field v ''safe field'' = Inr ()"

lemma validate_safe_field_name: "validate_safe_field v name = Inr () \<longleftrightarrow> validate_safe_field v name' = Inr ()"
  by (simp add: validate_safe_field_def)

lemma safe_claimed: "validate_safe_field ''DELIVERY_CLAIMED'' n = Inr ()"
  by code_simp

lemma safe_delivered: "validate_safe_field ''DISCORD_DELIVERED'' n = Inr ()"
  by code_simp

lemma safe_rejected: "validate_safe_field ''DISCORD_PERMANENT_REJECTED'' n = Inr ()"
  by code_simp

lemma safe_ambiguous: "validate_safe_field ''DISCORD_AMBIGUOUS'' n = Inr ()"
  by code_simp

lemma safe_exhausted: "validate_safe_field ''DISCORD_RETRY_EXHAUSTED'' n = Inr ()"
  by code_simp

lemma safe_scheduled: "validate_safe_field ''DISCORD_RETRY_SCHEDULED'' n = Inr ()"
  by code_simp

lemma safe_held: "validate_safe_field ''RETRY_EXHAUSTED_DEFINITE_TRANSIENT'' n = Inr ()"
  by code_simp

lemma safe_ready: "validate_safe_field ''RESULT_MATERIALIZED'' n = Inr ()"
  by code_simp

lemmas reasons_safe = safe_claimed safe_delivered safe_rejected safe_ambiguous safe_exhausted safe_scheduled safe_held safe_ready

lemma reasons_not_read:
  "''DELIVERY_CLAIMED'' \<noteq> read_reason" "''DISCORD_DELIVERED'' \<noteq> read_reason"
  "''DISCORD_PERMANENT_REJECTED'' \<noteq> read_reason" "''DISCORD_AMBIGUOUS'' \<noteq> read_reason"
  "''DISCORD_RETRY_EXHAUSTED'' \<noteq> read_reason" "''DISCORD_RETRY_SCHEDULED'' \<noteq> read_reason"
  "''RETRY_EXHAUSTED_DEFINITE_TRANSIENT'' \<noteq> read_reason" "''RESULT_MATERIALIZED'' \<noteq> read_reason"
  by (simp_all add: read_reason_def)

text \<open>What the updates of the worker contain.\<close>

lemma updates_safe [simp]:
  "validate_transition_update update_default = Inr ()"
  "validate_transition_update (claim_update r token at) = Inr ()"
  "validate_transition_update (clear_lease update_default) = Inr ()"
  "audit_safe c \<Longrightarrow> validate_transition_update (failed_with c) = Inr ()"
  "audit_safe c \<Longrightarrow> validate_transition_update ((failed_with c)\<lparr>up_next_attempt_at := n\<rparr>) = Inr ()"
  "audit_safe c \<Longrightarrow> validate_transition_update (update_default\<lparr>up_hold_reason := Some (Some c)\<rparr>) = Inr ()"
  by (simp_all add: validate_transition_update_def update_default_def claim_update_def clear_lease_def
      failed_with_def audit_safe_def)

subsection \<open>Claim and send\<close>

text \<open>The claimed row, and the world after the claim and the send.\<close>

definition claim_row :: "delivery_record \<Rightarrow> string \<Rightarrow> instant \<Rightarrow> tx_input \<Rightarrow> delivery_record" where
  "claim_row r token started i = transitioned r Delivering (claim_update r token started) (ti_now i)"

definition claim_db :: "delivery_record \<Rightarrow> string \<Rightarrow> instant \<Rightarrow> tx_input \<Rightarrow> delivery_db \<Rightarrow> delivery_db" where
  "claim_db r token started i d = moved_db r (claim_row r token started i) ''DELIVERY_CLAIMED'' (ti_now i) d"

definition with_send :: "run_world \<Rightarrow> delivery_db \<Rightarrow> delivery_record \<Rightarrow> channel_ref \<Rightarrow> send_result \<Rightarrow> run_world" where
  "with_send w d r channel outcome =
     w\<lparr>rw_db := d,
       rw_sends := rw_sends w @ [\<lparr>se_key = dr_key r, se_channel = channel,
                                 se_content = terminal_content_for_discord (dr_payload r), se_result = outcome\<rparr>]\<rparr>"

lemma claim_row_simps [simp]:
  "dr_key (claim_row r token at i) = dr_key r" "dr_state (claim_row r token at i) = Delivering"
  "dr_revision (claim_row r token at i) = dr_revision r + 1" "dr_payload (claim_row r token at i) = dr_payload r"
  "dr_attempt_count (claim_row r token at i) = dr_attempt_count r + 1"
  "dr_message_id (claim_row r token at i) = dr_message_id r" "dr_lease_token (claim_row r token at i) = Some token"
  "dr_platform (claim_row r token at i) = dr_platform r"
  by (simp_all add: claim_row_def claim_update_def update_default_def)

text \<open>A row that can be claimed: there is room for the counters.\<close>

definition claimable :: "delivery_db \<Rightarrow> delivery_record \<Rightarrow> bool" where
  "claimable d r \<longleftrightarrow>
     db_inv d \<and> select_record (dr_key r) d = Some r \<and> sendable (dr_state r)
     \<and> unat (dr_revision r) + 3 < 2 ^ 64 \<and> dr_attempt_count r \<noteq> - 1"

lemma not_last: "unat (v :: u64) + 1 < 2 ^ 64 \<Longrightarrow> v \<noteq> - 1"
  by (auto simp: unsigned_minus_1_eq_mask mask_eq_exp_minus_1)

lemma room:
  assumes "unat (v :: u64) + 3 < 2 ^ 64"
  shows "v \<noteq> - 1" "v + 1 \<noteq> - 1" "v + 1 + 1 \<noteq> - 1"
proof -
  show v: "v \<noteq> - 1" using assms by (intro not_last) simp
  then have "unat (v + 1) = unat v + 1" by (rule unat_plus_one)
  moreover from this assms show v1: "v + 1 \<noteq> - 1" by (intro not_last) simp
  then have "unat (v + 1 + 1) = unat (v + 1) + 1" by (rule unat_plus_one)
  ultimately show "v + 1 + 1 \<noteq> - 1" using assms by (intro not_last) simp
qed

lemma claim_refusal:
  assumes "claimable d r"
  shows "transition_refusal r (dr_revision r) None Delivering (claim_update r token started) = None"
proof -
  have "\<not> dr_attempt_count r + 1 < dr_attempt_count r"
    using assms unat_plus_one [of "dr_attempt_count r"] by (simp add: claimable_def word_less_nat_alt)
  then show ?thesis
    using assms room by (auto simp: transition_refusal_def claimable_def sendable_def claim_update_def update_default_def)
qed

lemma claim_step:
  assumes r: "claimable d r" and i: "ti_fail i = None"
  shows "transition (dr_key r) (dr_revision r) Delivering (claim_update r token started) ''DELIVERY_CLAIMED'' i d =
      (Inr (claim_row r token started i), claim_db r token started i d)"
    and "select_record (dr_key r) (claim_db r token started i d) = Some (claim_row r token started i)"
    and "db_inv (claim_db r token started i d)"
    and "db_rows d = [r] \<Longrightarrow> db_rows (claim_db r token started i d) = [claim_row r token started i]"
proof -
  have inv: "db_inv d" and row: "select_record (dr_key r) d = Some r" using r by (simp_all add: claimable_def)
  have u: "up_message_id (claim_update r token started) = None" by (simp add: claim_update_def update_default_def)
  note refusal = claim_refusal [OF r, of token started]
  show "transition (dr_key r) (dr_revision r) Delivering (claim_update r token started) ''DELIVERY_CLAIMED'' i d =
      (Inr (claim_row r token started i), claim_db r token started i d)"
    unfolding transition_def claim_row_def claim_db_def
    by (rule transition_inner_granted [OF inv row refusal u safe_claimed _ i]) simp
  show "select_record (dr_key r) (claim_db r token started i d) = Some (claim_row r token started i)"
    unfolding claim_db_def by (rule moved_db_select [OF row]) simp
  show "db_inv (claim_db r token started i d)"
    unfolding claim_db_def claim_row_def by (rule moved_db_inv [OF inv row refusal u reasons_not_read(1)])
  show "db_rows d = [r] \<Longrightarrow> db_rows (claim_db r token started i d) = [claim_row r token started i]"
    unfolding claim_db_def by (rule moved_db_single)
qed

lemma deliver_ready_sends:
  assumes r: "claimable (rw_db w) r" and i: "ti_fail i = None"
  shows "run_task (OnFresh token # OnClock started # OnTx i # OnSend outcome # ss) (deliver_ready r channel) w =
     run_task ss (record_outcome (claim_row r token started i) token outcome)
       (with_send w (claim_db r token started i (rw_db w)) (claim_row r token started i) channel outcome)"
proof -
  have "sendable (dr_state r)" using r by (simp add: claimable_def)
  then show ?thesis
    using claim_step(1) [OF r i, of token started]
    by (simp add: deliver_ready_def claim_loop.simps [of 0 r] with_send_def)
qed

subsection \<open>The answer is recorded\<close>

lemma transitioned_next_attempt:
  "dr_next_attempt_at (transitioned c s u now) =
     map_option timestamp (or_else (up_next_attempt_at u) (dr_next_attempt_at c))"
  by (simp add: transitioned_def)

lemma lease_step:
  assumes inv: "db_inv d" and row: "select_record (dr_key c) d = Some c"
    and c: "dr_state c = Delivering" "dr_lease_token c = Some token" "token \<noteq> []" "dr_revision c \<noteq> - 1"
    and s: "may_transition_to Delivering s" and u: "up_attempt_count u = None" "up_message_id u = None"
    and safe: "validate_safe_field reason ''safe_reason_code'' = Inr ()" "validate_transition_update u = Inr ()"
    and reason: "reason \<noteq> read_reason" and i: "ti_fail i = None"
  shows "transition_with_lease (dr_key c) (dr_revision c) token s u reason i d =
      (Inr (transitioned c s u (ti_now i)), moved_db c (transitioned c s u (ti_now i)) reason (ti_now i) d)"
    and "select_record (dr_key c) (moved_db c (transitioned c s u (ti_now i)) reason (ti_now i) d)
      = Some (transitioned c s u (ti_now i))"
    and "db_inv (moved_db c (transitioned c s u (ti_now i)) reason (ti_now i) d)"
proof -
  have refusal: "transition_refusal c (dr_revision c) (Some token) s u = None"
    using c s u by (simp add: transition_refusal_def)
  show "transition_with_lease (dr_key c) (dr_revision c) token s u reason i d =
      (Inr (transitioned c s u (ti_now i)), moved_db c (transitioned c s u (ti_now i)) reason (ti_now i) d)"
    using transition_inner_granted [OF inv row refusal u(2) safe i] c(3) by (simp add: transition_with_lease_def)
  show "select_record (dr_key c) (moved_db c (transitioned c s u (ti_now i)) reason (ti_now i) d)
      = Some (transitioned c s u (ti_now i))"
    by (rule moved_db_select [OF row]) simp
  show "db_inv (moved_db c (transitioned c s u (ti_now i)) reason (ti_now i) d)"
    by (rule moved_db_inv [OF inv row refusal u(2) reason])
qed

text \<open>A claim that was just sent, and the record it leaves in the end.\<close>

definition claim_open :: "run_world \<Rightarrow> delivery_record \<Rightarrow> string \<Rightarrow> bool" where
  "claim_open w c token \<longleftrightarrow>
     db_inv (rw_db w) \<and> select_record (dr_key c) (rw_db w) = Some c \<and> dr_state c = Delivering
     \<and> dr_lease_token c = Some token \<and> token \<noteq> [] \<and> dr_revision c \<noteq> - 1 \<and> dr_revision c + 1 \<noteq> - 1
     \<and> dr_message_id c = None"

definition settled_as ::
  "delivery_record \<Rightarrow> delivery_state \<Rightarrow> delivery_record \<Rightarrow> run_world \<Rightarrow> run_world \<Rightarrow> bool" where
  "settled_as c s x w w' \<longleftrightarrow>
     dr_state x = s \<and> dr_key x = dr_key c \<and> dr_payload x = dr_payload c \<and> dr_platform x = dr_platform c
     \<and> dr_channel_id x = dr_channel_id c
     \<and> dr_attempt_count x = dr_attempt_count c \<and> dr_lease_token x = None
     \<and> db_inv (rw_db w') \<and> select_record (dr_key c) (rw_db w') = Some x
     \<and> rw_sends w' = rw_sends w \<and> rw_reads w' = rw_reads w
     \<and> (db_rows (rw_db w) = [c] \<longrightarrow> db_rows (rw_db w') = [x])"

lemma clear_lease_simps [simp]:
  "up_attempt_count (clear_lease u) = up_attempt_count u" "up_message_id (clear_lease u) = up_message_id u"
  "up_lease_token (clear_lease u) = Some None" "up_next_attempt_at (clear_lease u) = up_next_attempt_at u"
  by (simp_all add: clear_lease_def)

lemma default_keeps [simp]:
  "up_attempt_count update_default = None" "up_message_id update_default = None"
  "up_lease_token update_default = None" "up_next_attempt_at update_default = None"
  "up_started_at update_default = None"
  by (simp_all add: update_default_def)

lemma failed_with_simps [simp]:
  "up_attempt_count (failed_with c) = None" "up_message_id (failed_with c) = None"
  "up_lease_token (failed_with c) = Some None" "up_next_attempt_at (failed_with c) = None"
  by (simp_all add: failed_with_def)

text \<open>The answers that are recorded by one transition.\<close>

lemma settles_once:
  assumes claim: "claim_open w c token" and i: "ti_fail i = None" and s: "may_transition_to Delivering s"
    and u: "up_attempt_count u = None" "up_message_id u = None" "up_lease_token u = Some None"
      "validate_transition_update u = Inr ()"
    and reason: "validate_safe_field reason ''safe_reason_code'' = Inr ()" "reason \<noteq> read_reason"
  shows "fst (transition_with_lease (dr_key c) (dr_revision c) token s u reason i (rw_db w)) =
      Inr (transitioned c s u (ti_now i))"
    and "settled_as c s (transitioned c s u (ti_now i)) w
      (w\<lparr>rw_db := snd (transition_with_lease (dr_key c) (dr_revision c) token s u reason i (rw_db w))\<rparr>)"
proof -
  have c: "db_inv (rw_db w)" "select_record (dr_key c) (rw_db w) = Some c" "dr_state c = Delivering"
      "dr_lease_token c = Some token" "token \<noteq> []" "dr_revision c \<noteq> - 1"
    using claim by (simp_all add: claim_open_def)
  note step = lease_step [OF c s u(1,2) reason(1) u(4) reason(2) i]
  show "fst (transition_with_lease (dr_key c) (dr_revision c) token s u reason i (rw_db w)) =
      Inr (transitioned c s u (ti_now i))"
    using step(1) by simp
  show "settled_as c s (transitioned c s u (ti_now i)) w
      (w\<lparr>rw_db := snd (transition_with_lease (dr_key c) (dr_revision c) token s u reason i (rw_db w))\<rparr>)"
    using step moved_db_single u by (simp add: settled_as_def)
qed

lemma settles_rejected:
  assumes "claim_open w c token" and "ti_fail i = None" and "audit_safe f"
  shows "\<exists>x w'. run_task [OnTx i] (record_outcome c token (DefinitePermanentFailure f)) w = ([], Ret (Inr x), w')
    \<and> settled_as c PermanentRejected x w w' \<and> dr_message_id x = None"
  using settles_once [where s = PermanentRejected and u = "failed_with f" and reason = "''DISCORD_PERMANENT_REJECTED''",
      OF assms(1,2)] assms
  by (simp add: record_outcome_def reasons_safe reasons_not_read claim_open_def)

lemma settles_ambiguous:
  assumes "claim_open w c token" and "ti_fail i = None" and "audit_safe f"
  shows "\<exists>x w'. run_task [OnTx i] (record_outcome c token (AmbiguousSend f)) w = ([], Ret (Inr x), w')
    \<and> settled_as c Ambiguous x w w' \<and> dr_message_id x = None"
  using settles_once [where s = Ambiguous and u = "failed_with f" and reason = "''DISCORD_AMBIGUOUS''",
      OF assms(1,2)] assms
  by (simp add: record_outcome_def reasons_safe reasons_not_read claim_open_def)

lemma settles_retry:
  assumes "claim_open w c token" and "ti_fail i = None" and "audit_safe f"
    and "\<not> max_external_attempts \<le> dr_attempt_count c"
  shows "\<exists>x w'. run_task [OnClock t, OnTx i] (record_outcome c token (DefiniteTransientFailure f)) w
        = ([], Ret (Inr x), w')
    \<and> settled_as c RetryScheduled x w w' \<and> dr_message_id x = None \<and> dr_revision x = dr_revision c + 1
    \<and> dr_next_attempt_at x = Some (timestamp (t + seconds (retry_delay_secs (dr_attempt_count c))))"
  using settles_once [where s = RetryScheduled and reason = "''DISCORD_RETRY_SCHEDULED''" and
      u = "(failed_with f)\<lparr>up_next_attempt_at := Some (Some (t + seconds (retry_delay_secs (dr_attempt_count c))))\<rparr>",
      OF assms(1,2)] assms
  by (simp add: record_outcome_def reasons_safe reasons_not_read claim_open_def transitioned_def)

text \<open>
  The last failed attempt. It takes two transactions: between them the row is in
  \<^verbatim>\<open>RETRY_SCHEDULED\<close> with the due time of the attempt that just failed.
\<close>

lemma exhausted_scheduled:
  assumes claim: "claim_open w c token" and i: "ti_fail i = None" and f: "audit_safe f"
    and last: "max_external_attempts \<le> dr_attempt_count c"
  shows "\<exists>x w'. settled_as c RetryScheduled x w w' \<and> dr_message_id x = None \<and> dr_revision x = dr_revision c + 1
      \<and> dr_next_attempt_at x = map_option timestamp (dr_next_attempt_at c)
      \<and> (\<forall>ss. run_task (OnTx i # ss) (record_outcome c token (DefiniteTransientFailure f)) w =
           run_task ss
             (tx (transition (dr_key x) (dr_revision x) OperatorHold
                    (update_default\<lparr>up_hold_reason := Some (Some ''RETRY_EXHAUSTED_DEFINITE_TRANSIENT'')\<rparr>)
                    ''RETRY_EXHAUSTED_DEFINITE_TRANSIENT'') Ret) w')"
proof -
  note once = settles_once [where s = RetryScheduled and u = "failed_with f" and reason = "''DISCORD_RETRY_EXHAUSTED''",
      OF claim i]
  have "fst (transition_with_lease (dr_key c) (dr_revision c) token RetryScheduled (failed_with f)
        ''DISCORD_RETRY_EXHAUSTED'' i (rw_db w)) = Inr (transitioned c RetryScheduled (failed_with f) (ti_now i))"
    and "settled_as c RetryScheduled (transitioned c RetryScheduled (failed_with f) (ti_now i)) w
      (w\<lparr>rw_db := snd (transition_with_lease (dr_key c) (dr_revision c) token RetryScheduled (failed_with f)
        ''DISCORD_RETRY_EXHAUSTED'' i (rw_db w))\<rparr>)"
    using once f by (simp_all add: reasons_safe reasons_not_read)
  moreover have "dr_message_id c = None" using claim by (simp add: claim_open_def)
  ultimately show ?thesis
    using last
    by (intro exI [of _ "transitioned c RetryScheduled (failed_with f) (ti_now i)"] exI conjI)
       (auto simp: record_outcome_def try_tx_def transitioned_next_attempt)
qed

lemma settled_moves_on:
  assumes x: "settled_as c s x w w'" and i: "ti_fail i = None"
    and refusal: "transition_refusal x (dr_revision x) None s' u = None"
    and u: "up_attempt_count u = None" "up_message_id u = None" "up_lease_token u = None"
      "validate_transition_update u = Inr ()"
    and reason: "validate_safe_field reason ''safe_reason_code'' = Inr ()" "reason \<noteq> read_reason"
  shows "transition (dr_key x) (dr_revision x) s' u reason i (rw_db w') =
      (Inr (transitioned x s' u (ti_now i)), moved_db x (transitioned x s' u (ti_now i)) reason (ti_now i) (rw_db w'))"
    and "settled_as c s' (transitioned x s' u (ti_now i)) w
      (w'\<lparr>rw_db := moved_db x (transitioned x s' u (ti_now i)) reason (ti_now i) (rw_db w')\<rparr>)"
proof -
  have inv: "db_inv (rw_db w')" and row: "select_record (dr_key x) (rw_db w') = Some x"
    using x by (simp_all add: settled_as_def)
  show "transition (dr_key x) (dr_revision x) s' u reason i (rw_db w') =
      (Inr (transitioned x s' u (ti_now i)), moved_db x (transitioned x s' u (ti_now i)) reason (ti_now i) (rw_db w'))"
    unfolding transition_def by (rule transition_inner_granted [OF inv row refusal u(2) reason(1) u(4) i])
  show "settled_as c s' (transitioned x s' u (ti_now i)) w
      (w'\<lparr>rw_db := moved_db x (transitioned x s' u (ti_now i)) reason (ti_now i) (rw_db w')\<rparr>)"
    using x u moved_db_select [OF row, of "transitioned x s' u (ti_now i)"] moved_db_single
      moved_db_inv [OF inv row refusal u(2) reason(2)]
    by (simp add: settled_as_def)
qed

lemma held_safe:
  "audit_safe ''RETRY_EXHAUSTED_DEFINITE_TRANSIENT''"
  by (simp add: audit_safe_def reasons_safe)

lemma settles_held:
  assumes claim: "claim_open w c token" and i: "ti_fail i = None" "ti_fail j = None" and f: "audit_safe f"
    and last: "max_external_attempts \<le> dr_attempt_count c"
  shows "\<exists>x w'. run_task [OnTx i, OnTx j] (record_outcome c token (DefiniteTransientFailure f)) w = ([], Ret (Inr x), w')
    \<and> settled_as c OperatorHold x w w' \<and> dr_message_id x = None"
proof -
  let ?u = "update_default\<lparr>up_hold_reason := Some (Some ''RETRY_EXHAUSTED_DEFINITE_TRANSIENT'')\<rparr>"
  obtain x w' where x: "settled_as c RetryScheduled x w w'" "dr_message_id x = None" "dr_revision x = dr_revision c + 1"
    and run: "\<And>ss. run_task (OnTx i # ss) (record_outcome c token (DefiniteTransientFailure f)) w =
        run_task ss (tx (transition (dr_key x) (dr_revision x) OperatorHold ?u ''RETRY_EXHAUSTED_DEFINITE_TRANSIENT'') Ret) w'"
    using exhausted_scheduled [OF claim i(1) f last] by blast
  have "transition_refusal x (dr_revision x) None OperatorHold ?u = None"
    using x claim by (simp add: transition_refusal_def settled_as_def claim_open_def)
  note step = settled_moves_on [OF x(1) i(2) this _ _ _ _ safe_held reasons_not_read(7)]
  show ?thesis
    unfolding run using step x(2) held_safe by (simp add: transitioned_def)
qed

text \<open>An accepted message: first the evidence, then the delivery.\<close>

lemma settles_delivered:
  assumes claim: "claim_open w c token" and i: "ti_fail i = None" "ti_fail j = None"
    and m: "m \<noteq> []" "\<forall>y\<in>set (db_rows (rw_db w)). dr_platform y = dr_platform c \<longrightarrow> dr_message_id y \<noteq> Some m"
  shows "\<exists>x w'. run_task [OnTx i, OnTx j] (record_outcome c token (DefiniteSuccess m)) w = ([], Ret (Inr x), w')
    \<and> settled_as c DeliveredState x w w' \<and> dr_message_id x = Some m"
proof -
  let ?e = "c\<lparr>dr_message_id := Some m, dr_updated_at := timestamp (ti_now i), dr_revision := dr_revision c + 1\<rparr>"
  let ?d = "moved_db c ?e ''DISCORD_ACCEPTED_MESSAGE_ID_PERSISTED'' (ti_now i) (rw_db w)"
  have c: "db_inv (rw_db w)" "select_record (dr_key c) (rw_db w) = Some c" "dr_state c = Delivering"
      "dr_lease_token c = Some token" "token \<noteq> []" "dr_revision c \<noteq> - 1" "dr_revision c + 1 \<noteq> - 1"
      "dr_message_id c = None"
    using claim by (simp_all add: claim_open_def)
  have clash: "\<not> message_id_clash ?e (rw_db w)" using m by (auto simp: message_id_clash_def)
  have "persist_accepted_message_id (dr_key c) (dr_revision c) token m i (rw_db w) =
      write_row c ?e ''DISCORD_ACCEPTED_MESSAGE_ID_PERSISTED'' (ti_now i) (rw_db w)"
    unfolding persist_accepted_message_id_def using c m(1) i(1) by (simp add: sql_def)
  also have "\<dots> = (Inr ?e, ?d)" using clash by (simp add: write_row_def moved_db_def)
  finally have persist: "persist_accepted_message_id (dr_key c) (dr_revision c) token m i (rw_db w) = (Inr ?e, ?d)" .
  have "store_step (Evidenced (dr_key c) m) (rw_db w) ?d"
    by (rule store_step.evidenced [OF c(2,3,8,6) refl clash])
  then have inv: "db_inv ?d" using c(1) by (rule db_inv_step)
  have row: "select_record (dr_key ?e) ?d = Some ?e"
    using moved_db_select [OF c(2), of ?e] by simp
  have "dr_state ?e = Delivering" "dr_lease_token ?e = Some token" "dr_revision ?e \<noteq> - 1" using c by simp_all
  note step = lease_step [OF inv row this(1,2) c(5) this(3) _ _ _ safe_delivered _ reasons_not_read(2) i(2),
      where u = "clear_lease update_default"]
  let ?x = "transitioned ?e DeliveredState (clear_lease update_default) (ti_now j)"
  let ?d' = "moved_db ?e ?x ''DISCORD_DELIVERED'' (ti_now j) ?d"
  have "run_task [OnTx i, OnTx j] (record_outcome c token (DefiniteSuccess m)) w = ([], Ret (Inr ?x), w\<lparr>rw_db := ?d'\<rparr>)"
    using persist step(1) by (simp add: record_outcome_def try_tx_def)
  moreover have "settled_as c DeliveredState ?x w (w\<lparr>rw_db := ?d'\<rparr>)"
    using step(2,3) moved_db_single by (simp add: settled_as_def)
  ultimately show ?thesis by (intro exI conjI) (assumption | simp)+
qed

subsection \<open>A whole delivery\<close>

definition answer_state :: "u64 \<Rightarrow> send_result \<Rightarrow> delivery_state" where
  "answer_state attempt outcome =
     (case outcome of
        DefiniteSuccess _ \<Rightarrow> DeliveredState
      | DefinitePermanentFailure _ \<Rightarrow> PermanentRejected
      | AmbiguousSend _ \<Rightarrow> Ambiguous
      | DefiniteTransientFailure _ \<Rightarrow>
          if max_external_attempts \<le> attempt then OperatorHold else RetryScheduled)"

text \<open>What the world answers after the send: the transactions, and the clock for a retry.\<close>

definition replies :: "u64 \<Rightarrow> send_result \<Rightarrow> tx_input \<Rightarrow> tx_input \<Rightarrow> instant \<Rightarrow> stimulus list" where
  "replies attempt outcome i j t =
     (case outcome of
        DefiniteSuccess _ \<Rightarrow> [OnTx i, OnTx j]
      | DefinitePermanentFailure _ \<Rightarrow> [OnTx i]
      | AmbiguousSend _ \<Rightarrow> [OnTx i]
      | DefiniteTransientFailure _ \<Rightarrow>
          if max_external_attempts \<le> attempt then [OnTx i, OnTx j] else [OnClock t, OnTx i])"

text \<open>
  An answer that can be recorded: a message id that is new on its platform, a classification that may
  stand in the log (\<open>classify_adapter_error\<close> has only such).
\<close>

definition recordable :: "delivery_db \<Rightarrow> string \<Rightarrow> send_result \<Rightarrow> bool" where
  "recordable d platform outcome =
     (case outcome of
        DefiniteSuccess m \<Rightarrow>
          m \<noteq> [] \<and> (\<forall>y\<in>set (db_rows d). dr_platform y = platform \<longrightarrow> dr_message_id y \<noteq> Some m)
      | DefinitePermanentFailure c \<Rightarrow> audit_safe c
      | AmbiguousSend c \<Rightarrow> audit_safe c
      | DefiniteTransientFailure c \<Rightarrow> audit_safe c)"

definition accepted_id :: "send_result \<Rightarrow> string option" where
  "accepted_id outcome = (case outcome of DefiniteSuccess m \<Rightarrow> Some m | _ \<Rightarrow> None)"

lemma record_outcome_settles:
  assumes claim: "claim_open w c token" and i: "ti_fail i = None" "ti_fail j = None"
    and ok: "recordable (rw_db w) (dr_platform c) outcome"
  shows "\<exists>x w'. run_task (replies (dr_attempt_count c) outcome i j t) (record_outcome c token outcome) w
        = ([], Ret (Inr x), w')
    \<and> settled_as c (answer_state (dr_attempt_count c) outcome) x w w' \<and> dr_message_id x = accepted_id outcome
    \<and> (answer_state (dr_attempt_count c) outcome = RetryScheduled \<longrightarrow>
         dr_revision x = dr_revision c + 1
         \<and> dr_next_attempt_at x = Some (timestamp (t + seconds (retry_delay_secs (dr_attempt_count c)))))"
proof (cases outcome)
  case (DefiniteSuccess m)
  with settles_delivered [OF claim i, of m] ok show ?thesis
    by (simp add: replies_def answer_state_def accepted_id_def recordable_def)
next
  case (DefinitePermanentFailure f)
  with settles_rejected [OF claim i(1), of f] ok show ?thesis
    by (simp add: replies_def answer_state_def accepted_id_def recordable_def)
next
  case (AmbiguousSend f)
  with settles_ambiguous [OF claim i(1), of f] ok show ?thesis
    by (simp add: replies_def answer_state_def accepted_id_def recordable_def)
next
  case (DefiniteTransientFailure f)
  show ?thesis
  proof (cases "max_external_attempts \<le> dr_attempt_count c")
    case True
    with DefiniteTransientFailure settles_held [OF claim i, of f] ok show ?thesis
      by (simp add: replies_def answer_state_def accepted_id_def recordable_def)
  next
    case False
    with DefiniteTransientFailure settles_retry [OF claim i(1), of f t] ok show ?thesis
      by (simp add: replies_def answer_state_def accepted_id_def recordable_def)
  qed
qed

lemma claim_opens:
  assumes r: "claimable (rw_db w) r" and "dr_message_id r = None" and "token \<noteq> []" and i: "ti_fail i = None"
  shows "claim_open (with_send w (claim_db r token started i (rw_db w)) (claim_row r token started i) channel outcome)
      (claim_row r token started i) token"
  using claim_step [OF r i, of token started] assms room [of "dr_revision r"]
  by (simp add: claim_open_def with_send_def claimable_def)

lemma claim_recordable:
  assumes r: "claimable (rw_db w) r" and "dr_message_id r = None" and i: "ti_fail i = None"
    and ok: "recordable (rw_db w) (dr_platform r) outcome"
  shows "recordable (claim_db r token started i (rw_db w)) (dr_platform r) outcome"
proof (cases outcome)
  case (DefiniteSuccess m)
  have inv: "db_inv (rw_db w)" and row: "r \<in> set (db_rows (rw_db w))"
    using r select_record_in by (auto simp: claimable_def)
  have "set (db_rows (claim_db r token started i (rw_db w)))
      = insert (claim_row r token started i) {x \<in> set (db_rows (rw_db w)). dr_key x \<noteq> dr_key r}"
    unfolding claim_db_def by (rule rows_moved_db [OF inv row])
  with DefiniteSuccess ok assms(2) show ?thesis by (auto simp: recordable_def)
qed (use ok in \<open>simp_all add: recordable_def\<close>)

lemma delivery_settles:
  assumes r: "claimable (rw_db w) r" "dr_message_id r = None" and token: "token \<noteq> []"
    and i: "ti_fail h = None" "ti_fail i = None" "ti_fail j = None"
    and ok: "recordable (rw_db w) (dr_platform r) outcome"
  shows "\<exists>x w'. run_task
        (OnFresh token # OnClock started # OnTx h # OnSend outcome # replies (dr_attempt_count r + 1) outcome i j t)
        (deliver_ready r channel) w = ([], Ret (Inr x), w')
    \<and> settled_as (claim_row r token started h) (answer_state (dr_attempt_count r + 1) outcome) x
        (with_send w (claim_db r token started h (rw_db w)) (claim_row r token started h) channel outcome) w'
    \<and> dr_message_id x = accepted_id outcome
    \<and> (answer_state (dr_attempt_count r + 1) outcome = RetryScheduled \<longrightarrow>
         dr_revision x = dr_revision r + 1 + 1
         \<and> dr_next_attempt_at x = Some (timestamp (t + seconds (retry_delay_secs (dr_attempt_count r + 1)))))"
proof -
  let ?c = "claim_row r token started h"
  let ?w = "with_send w (claim_db r token started h (rw_db w)) ?c channel outcome"
  have "recordable (rw_db ?w) (dr_platform ?c) outcome"
    using claim_recordable [OF r i(1) ok] by (simp add: with_send_def)
  from record_outcome_settles [OF claim_opens [OF r token i(1)] i(2,3) this, of t]
  show ?thesis unfolding deliver_ready_sends [OF r(1) i(1)] by simp
qed

end
