(* ===== verification/Delivery_Bounds.thy ===== *)
theory Delivery_Bounds
  imports Delivery_Actions
begin

section \<open>How long the worker can take\<close>

text \<open>
  \<open>within n m t\<close>: whatever the database, the clock and the platform answer, the task \<open>t\<close>
  ends after at most \<open>n\<close> transactions and calls, of which at most \<open>m\<close> are sends.
\<close>

inductive within :: "nat \<Rightarrow> nat \<Rightarrow> 'a task \<Rightarrow> bool" where
  within_ret: "within n m (Ret a)"
| within_Tx: "(\<And>i d. within n m (k i d)) \<Longrightarrow> within (Suc n) m (Tx g k)"
| within_clock: "(\<And>t. within n m (k1 t)) \<Longrightarrow> within (Suc n) m (Clock k1)"
| within_fresh: "(\<And>u. within n m (k2 u)) \<Longrightarrow> within (Suc n) m (Fresh k2)"
| within_send: "(\<And>r. within n m (k3 r)) \<Longrightarrow> within (Suc n) (Suc m) (Send key c x k3)"
| within_fetch: "(\<And>a. within n m (k4 a)) \<Longrightarrow> within (Suc n) m (Fetch key cid x k4)"
| within_lookup: "(\<And>a. within n m (k5 a)) \<Longrightarrow> within (Suc n) m (Lookup rid k5)"

inductive_cases within_TxE: "within n m (Tx g k)"
inductive_cases within_ClockE: "within n m (Clock k)"
inductive_cases within_FreshE: "within n m (Fresh k)"
inductive_cases within_SendE: "within n m (Send key c x k)"
inductive_cases within_FetchE: "within n m (Fetch key c x k)"
inductive_cases within_LookupE: "within n m (Lookup r k)"

lemma within_tx: "(\<And>r. within n m (k r)) \<Longrightarrow> within (Suc n) m (tx f k)"
  unfolding tx_def by (rule within_Tx)

lemma within_try: "(\<And>v. within n m (k v)) \<Longrightarrow> within (Suc n) m (try_tx f k)"
  unfolding try_tx_def by (rule within_tx) (auto intro: within_ret split: sum.split)

lemma within_mono: "within n m t \<Longrightarrow> n \<le> n' \<Longrightarrow> m \<le> m' \<Longrightarrow> within n' m' t"
proof (induction arbitrary: n' m' rule: within.induct)
  case (within_send n m k3 key c x)
  then show ?case by (cases n'; cases m') (auto intro: within.within_send)
next
  case (within_Tx n m k g)
  then show ?case by (cases n') (auto intro: within.within_Tx)
next
  case (within_clock n m k1)
  then show ?case by (cases n') (auto intro: within.within_clock)
next
  case (within_fresh n m k2)
  then show ?case by (cases n') (auto intro: within.within_fresh)
next
  case (within_fetch n m k4 key cid x)
  then show ?case by (cases n') (auto intro: within.within_fetch)
next
  case (within_lookup n m k5 rid)
  then show ?case by (cases n') (auto intro: within.within_lookup)
qed (rule within_ret)

lemma within_await:
  "within n m t \<Longrightarrow> (\<And>a. within n' m' (f a)) \<Longrightarrow> within (n + n') (m + m') (await t f)"
proof (induction rule: within.induct)
  case (within_ret n m a)
  have "within n' m' (f a)" by (rule within_ret)
  then show ?case by (auto intro: within_mono)
qed (auto intro: within.intros)

lemma within_result: "within n m t \<Longrightarrow> within n m (await t (\<lambda>x. Ret (f x)))"
  using within_await [where n' = 0 and m' = 0, OF _ within_ret] by fastforce

text \<open>What it means for a run: the answers it consumes and the sends it makes.\<close>

lemma run_within:
  "within n m t \<Longrightarrow> run_task ss t w = (ss', t', w') \<Longrightarrow>
     length ss \<le> length ss' + n \<and> length (rw_sends w') \<le> length (rw_sends w) + m"
proof (induction ss t w arbitrary: n m rule: run_task.induct)
  case (1 i ss g k w)
  from 1(2) obtain n' where "n = Suc n'" "within n' m (k i (rw_db w))" by (auto elim: within_TxE)
  with 1(1) [of n' m] 1(3) show ?case by simp
next
  case (2 x ss k w)
  from 2(2) obtain n' where "n = Suc n'" "within n' m (k x)" by (auto elim: within_ClockE)
  with 2(1) [of n' m] 2(3) show ?case by simp
next
  case (3 u ss k w)
  from 3(2) obtain n' where "n = Suc n'" "within n' m (k u)" by (auto elim: within_FreshE)
  with 3(1) [of n' m] 3(3) show ?case by simp
next
  case (4 r ss key c x k w)
  from 4(2) obtain n' m' where "n = Suc n'" "m = Suc m'" "within n' m' (k r)" by (auto elim: within_SendE)
  with 4(1) [of n' m'] 4(3) show ?case by simp
next
  case (5 r ss key c x k w)
  from 5(2) obtain n' where "n = Suc n'" "within n' m (k r)" by (auto elim: within_FetchE)
  with 5(1) [of n' m] 5(3) show ?case by simp
next
  case (6 r ss x k w)
  from 6(2) obtain n' where "n = Suc n'" "within n' m (k r)" by (auto elim: within_LookupE)
  with 6(1) [of n' m] 6(3) show ?case by simp
qed auto

subsection \<open>The functions of the worker\<close>

lemma within_claim_attempt:
  assumes "\<And>a. Suc attempts < max_claim_retries \<Longrightarrow> within n 0 (claim_loop (Suc attempts) a)"
  shows "within (Suc (Suc (Suc (Suc n)))) 0 (claim_loop attempts r)"
  unfolding claim_loop.simps [of attempts r]
  by (auto intro!: within_ret within_clock within_fresh within_tx assms split: sum.split option.split)

lemma within_claim_loop:
  "attempts + Suc j = max_claim_retries \<Longrightarrow> within (4 * Suc j) 0 (claim_loop attempts r)"
proof (induction j arbitrary: attempts r)
  case 0
  then have "within (Suc (Suc (Suc (Suc 0)))) 0 (claim_loop attempts r)"
    by (intro within_claim_attempt) simp
  then show ?case by (simp add: numeral_eq_Suc)
next
  case (Suc j)
  then have "within (Suc (Suc (Suc (Suc (4 * Suc j))))) 0 (claim_loop attempts r)"
    by (intro within_claim_attempt) simp
  then show ?case by simp
qed

lemma within_record_outcome: "within 2 0 (record_outcome c token outcome)"
  unfolding record_outcome_def numeral_2_eq_2
  by (auto intro!: within_ret within_clock within_tx within_try split: send_result.split)

lemma within_deliver_ready: "within 15 1 (deliver_ready r channel)"
proof -
  have "within (Suc 2) (Suc 0) (Send key channel x (\<lambda>outcome. case tok of None \<Rightarrow> Ret (Inl e)
      | Some token \<Rightarrow> record_outcome c token outcome))" for key x tok e c
    by (rule within_send) (auto intro: within_ret within_record_outcome split: option.split)
  then have "within (Suc 2) (Suc 0) (case y of Inl out \<Rightarrow> Ret out
      | Inr claimed \<Rightarrow> Send (dr_key claimed) channel (terminal_content_for_discord (dr_payload claimed))
          (\<lambda>outcome. case dr_lease_token claimed of None \<Rightarrow> Ret (Inl (InvalidInput ''delivery_lease_token''))
             | Some token \<Rightarrow> record_outcome claimed token outcome))" for y
    by (auto intro: within_ret split: sum.split)
  from within_await [OF within_claim_loop [of 0 2 r] this]
  show ?thesis
    unfolding deliver_ready_def by (auto intro: within_ret simp: max_claim_retries_def)
qed

lemma within_capture_then:
  assumes "\<And>r. within n 1 (await (deliver_ready r channel) (\<lambda>x. Ret (or_unavailable x)))"
  shows "within (Suc (Suc (Suc n))) 1 (capture_and_deliver cx m channel inbound)"
proof -
  have "within (Suc n) 1 (await (deliver_ready r channel) (\<lambda>x. Ret (or_unavailable x)))" for r
    by (rule within_mono [OF assms]) simp_all
  with assms show ?thesis
    unfolding capture_and_deliver_def
    by (intro within_lookup) (auto intro!: within_ret within_tx split: sum.split)
qed

lemma within_capture: "within 18 1 (capture_and_deliver cx m channel inbound)"
proof -
  have "within 15 1 (await (deliver_ready r channel) (\<lambda>x. Ret (or_unavailable x)))" for r
    by (rule within_result [OF within_deliver_ready])
  from within_capture_then [OF this] show ?thesis by simp
qed

lemma within_hold_if: "within 4 0 (hold_if_reconciliation_exhausted r)"
proof -
  have "within (Suc (Suc (Suc (Suc 0)))) 0 (hold_if_reconciliation_exhausted r)"
    unfolding hold_if_reconciliation_exhausted_def hold_ambiguous_def
    by (auto intro!: within_ret within_tx within_try split: sum.split option.split)
  then show ?thesis by (simp add: numeral_eq_Suc)
qed

lemma within_hold: "within 2 0 (hold_ambiguous r reason)"
  unfolding hold_ambiguous_def numeral_2_eq_2
  by (auto intro!: within_ret within_tx within_try split: sum.split option.split)

lemma within_known: "within 3 0 (reconcile_ambiguous_with_known_message cx author r)"
proof -
  have "within (Suc (Suc (Suc 0))) 0 (reconcile_ambiguous_with_known_message cx author r)"
    unfolding reconcile_ambiguous_with_known_message_def
    by (auto intro!: within_ret within_fetch within_tx within_try split: sum.split option.split read_result.split)
  then show ?thesis by (simp add: numeral_eq_Suc)
qed

lemma within_after: "within 4 0 (after_verification r v)"
  unfolding after_verification_def
  by (auto intro!: within_ret within_hold_if within_mono [OF within_hold] split: sum.split verification.split)

lemma within_ambiguous: "within 8 0 (reconcile_ambiguous cx author r)"
proof -
  have "within (3 + 4) (0 + 0) (await (reconcile_ambiguous_with_known_message cx author r) (after_verification r))"
    by (rule within_await [OF within_known within_after])
  then have known: "within 7 0 (await (reconcile_ambiguous_with_known_message cx author r) (after_verification r))"
    by simp
  have read: "within 8 0 (try_tx f (\<lambda>ok. if \<not> ok then hold_if_reconciliation_exhausted r
      else await (reconcile_ambiguous_with_known_message cx author r) (after_verification r)))" for f
    by (rule within_mono [of "Suc 7" 0], rule within_try) (auto intro: known within_mono [OF within_hold_if])
  show ?thesis
    unfolding reconcile_ambiguous_def
    by (auto intro!: within_ret read within_mono [OF within_hold] split: sum.split)
qed

lemma within_record: "within 15 1 (reconcile_record cx now stale_before r)"
proof -
  have one: "within 1 0 (recover_pending_result cx r)"
    unfolding recover_pending_result_def One_nat_def
    by (auto intro!: within_ret within_tx split: sum.split)
  have two: "within 2 0 (recover_stale_delivering cx r stale_before)"
    unfolding recover_stale_delivering_def numeral_2_eq_2
    by (auto intro!: within_ret within_tx within_try split: sum.split option.split)
  have more: "within 15 (Suc 0) (await t (\<lambda>x. Ret (f x)))" if "within n 0 t" "n \<le> 15"
    for n and t :: "'c task" and f :: "'c \<Rightarrow> 'd"
    by (rule within_mono [OF within_result [OF that(1)]]) (use that(2) in simp_all)
  show ?thesis
    unfolding reconcile_record_def
    by (auto intro!: within_ret within_result [OF within_deliver_ready [unfolded One_nat_def]] more [OF one] more [OF two]
        split: delivery_state.split option.split)
qed

lemma within_each: "within (15 * length rs) (length rs) (reconcile_each cx author now stale_before rs s)"
proof (induction rs arbitrary: s)
  case Nil
  then show ?case by (simp add: within_ret)
next
  case (Cons r rs)
  have ambiguous: "within 15 1 (reconcile_ambiguous cx author r)"
    by (rule within_mono [OF within_ambiguous]) simp_all
  show ?case
    using within_await [OF ambiguous Cons.IH] within_await [OF within_record Cons.IH] by simp
qed

lemma within_reconcile_once:
  "within (1 + 15 * terminal_reconciliation_batch_limit) terminal_reconciliation_batch_limit (reconcile_once cx author now)"
proof -
  let ?n = terminal_reconciliation_batch_limit and ?s = "stale_delivering_before now"
  let ?f = "list_reconciliation_candidates now ?s ?n"
  have scan: "within (15 * ?n) ?n (reconcile_each cx author now ?s rs s)" if "fst (?f i d) = Inr rs" for i d rs s
  proof -
    have "length rs \<le> ?n"
      using that by (auto simp: list_reconciliation_candidates_def sql_def split: if_splits option.splits)
    then show ?thesis by (intro within_mono [OF within_each]) simp_all
  qed
  have "within (Suc (15 * ?n)) ?n (reconcile_once cx author now)"
    unfolding reconcile_once_def Let_def try_tx_def tx_def
    by (rule within_Tx) (auto intro: within_ret scan split: sum.split)
  then show ?thesis by simp
qed

end
