(* ===== verification/Delivery_Properties.thy ===== *)
theory Delivery_Properties
  imports Delivery_Runs Delivery_Outcomes Delivery_Bounds
begin

section \<open>Properties of the terminal delivery\<close>

text \<open>
  What holds of the database and of the platform after any run of the system of \<open>Delivery_System\<close>:
  captures and scans in any number and any order, at any point of their code, with failing SQLite calls
  and crashes in between. Then the store on its own, and the worker on its own.
\<close>

subsection \<open>A concrete delivery\<close>

text \<open>
  Runs of one task inside the system, and the fixture the witnesses evaluate on: one answer that is
  captured, fails to send, and is sent again.
\<close>

subsection \<open>Running one task of the system\<close>

definition world_of :: "delivery_system \<Rightarrow> run_world" where
  "world_of s = \<lparr>rw_db = sy_db s, rw_sends = sy_sends s, rw_reads = sy_reads s\<rparr>"

definition with_run :: "nat \<Rightarrow> unit task \<Rightarrow> run_world \<Rightarrow> delivery_system \<Rightarrow> delivery_system" where
  "with_run n t w s =
     \<lparr>sy_db = rw_db w, sy_tasks = (sy_tasks s)(n := Some t), sy_sends = rw_sends w, sy_reads = rw_reads w\<rparr>"

lemma with_run_world [simp]: "world_of (with_run n t w s) = w"
  by (simp add: world_of_def with_run_def)

lemma set_task_run: "set_task n (Some t) s = with_run n t (world_of s) s"
  by (simp add: with_run_def set_task_def world_of_def)

lemma run_task_steps:
  "run_task ss t w = (ss', t', w') \<Longrightarrow>
     (delivery_step cx author)\<^sup>*\<^sup>* (with_run n t w s) (with_run n t' w' s)"
proof (induction ss t w arbitrary: ss' t' w' rule: run_task.induct)
  case (1 i ss g k w)
  have "delivery_step cx author (with_run n (Tx g k) w s)
      (with_run n (k i (rw_db w)) (w\<lparr>rw_db := g i (rw_db w)\<rparr>) s)"
    using delivery_step.commits [of "with_run n (Tx g k) w s" n g k cx author i]
    by (simp add: with_run_def set_task_def)
  with 1 show ?case by (simp add: converse_rtranclp_into_rtranclp)
next
  case (2 x ss k w)
  have "delivery_step cx author (with_run n (Clock k) w s) (with_run n (k x) w s)"
    using delivery_step.ticks [of "with_run n (Clock k) w s" n k cx author x]
    by (simp add: with_run_def set_task_def)
  with 2 show ?case by (simp add: converse_rtranclp_into_rtranclp)
next
  case (3 u ss k w)
  have "delivery_step cx author (with_run n (Fresh k) w s) (with_run n (k u) w s)"
    using delivery_step.draws [of "with_run n (Fresh k) w s" n k cx author u]
    by (simp add: with_run_def set_task_def)
  with 3 show ?case by (simp add: converse_rtranclp_into_rtranclp)
next
  case (4 r ss key c m k w)
  have "delivery_step cx author (with_run n (Send key c m k) w s)
      (with_run n (k r)
        (w\<lparr>rw_sends := rw_sends w @ [\<lparr>se_key = key, se_channel = c, se_content = m, se_result = r\<rparr>]\<rparr>) s)"
    using delivery_step.sends [of "with_run n (Send key c m k) w s" n key c m k cx author r]
    by (simp add: with_run_def set_task_def)
  with 4 show ?case by (simp add: converse_rtranclp_into_rtranclp)
next
  case (5 r ss key c m k w)
  have "delivery_step cx author (with_run n (Fetch key c m k) w s)
      (with_run n (k r)
        (w\<lparr>rw_reads := rw_reads w @ [\<lparr>re_key = key, re_channel_id = c, re_message_id = m, re_result = r\<rparr>]\<rparr>) s)"
    using delivery_step.fetches [of "with_run n (Fetch key c m k) w s" n key c m k cx author r]
    by (simp add: with_run_def set_task_def)
  with 5 show ?case by (simp add: converse_rtranclp_into_rtranclp)
next
  case (6 r ss x k w)
  have "delivery_step cx author (with_run n (Lookup x k) w s) (with_run n (k r) w s)"
    using delivery_step.looks_up [of "with_run n (Lookup x k) w s" n x k cx author r]
    by (simp add: with_run_def set_task_def)
  with 6 show ?case by (simp add: converse_rtranclp_into_rtranclp)
qed simp_all

text \<open>A whole capture, and a whole scan, from a state where slot \<open>n\<close> is free.\<close>

lemma run_start:
  "run_task ss t w = ([], Ret a, w') \<Longrightarrow> run_task ss (start t) w = ([], Ret (), w')"
  using run_task_await [of ss t w a w' "[]" "\<lambda>_. Ret ()"] by (simp add: start_def)

lemma captured_reaches:
  assumes s: "reached cx author s" and free: "sy_tasks s n = None"
    and run: "run_task ss (capture_and_deliver cx m channel inbound) (world_of s) = ([], Ret a, w')"
  shows "reached cx author (with_run n (Ret ()) w' s)"
proof -
  have "delivery_step cx author s (with_run n (start (capture_and_deliver cx m channel inbound)) (world_of s) s)"
    using delivery_step.captures [OF free] by (simp only: set_task_run)
  also note run_task_steps [OF run_start [OF run], of cx author n s]
  finally show ?thesis using s unfolding reached_def by simp
qed

lemma scanned_reaches:
  assumes s: "reached cx author s" and free: "sy_tasks s n = None"
    and run: "run_task ss (reconcile_once cx author now) (world_of s) = ([], Ret a, w')"
  shows "reached cx author (with_run n (Ret ()) w' s)"
proof -
  have "delivery_step cx author s (with_run n (start (reconcile_once cx author now)) (world_of s) s)"
    using delivery_step.scans [OF free] by (simp only: set_task_run)
  also note run_task_steps [OF run_start [OF run], of cx author n s]
  finally show ?thesis using s unfolding reached_def by simp
qed

subsection \<open>The fixture\<close>

definition z_cx :: delivery_codec where
  "z_cx = \<lparr>dc_json = (\<lambda>v. json_field_str ''content'' (Some v)), dc_key_json = (\<lambda>m. Some (km_turn_id m)),
           dc_sha = (\<lambda>s. take 1 s)\<rparr>"

definition z_meta :: acp_terminal_metadata where
  "z_meta = \<lparr>am_runtime_run_id = ''run'', am_legacy_run_id = None, am_acp_request_id = ''1'',
             am_acp_session_id = ''s'', am_workflow_run_id = None, am_conversation_id = ''c''\<rparr>"

definition z_channel :: channel_ref where
  "z_channel = \<lparr>cr_platform = ''discord'', cr_channel_id = ''7'', cr_thread_id = None, cr_parent_id = None,
                cr_origin_event_id = None\<rparr>"

definition z_snapshot :: jvalue where
  "z_snapshot = JObject [(''status'', JString ''completed''), (''content'', JString ''hi'')]"

definition ok_at :: "instant \<Rightarrow> tx_input" where
  "ok_at t = \<lparr>ti_now = t, ti_fail = None\<rparr>"

definition disk_full :: tx_input where
  "disk_full = \<lparr>ti_now = 0, ti_fail = Some (Storage ''disk full'')\<rparr>"

definition z_capture :: "(lookup_error + delivery_record) task" where
  "z_capture = capture_and_deliver z_cx z_meta z_channel ''1''"

definition z_key :: string where
  "z_key = ''64''"

text \<open>The first send fails and a retry is scheduled; the second one is accepted.\<close>

definition z_failing :: "stimulus list" where
  "z_failing = [OnLookup (Inr z_snapshot), OnTx (ok_at 0), OnTx (ok_at 0), OnFresh ''t'', OnClock 0, OnTx (ok_at 0),
     OnSend (DefiniteTransientFailure ''X''), OnClock 0, OnTx (ok_at 0)]"

definition z_accepted :: "stimulus list" where
  "z_accepted = [OnLookup (Inr z_snapshot), OnTx (ok_at 0), OnFresh ''t'', OnClock 0, OnTx (ok_at 0),
     OnSend (DefiniteSuccess ''m''), OnTx (ok_at 0), OnTx (ok_at 0)]"

text \<open>
  The same with a disk that is full when the delivery is to be recorded: the row stays in
  \<^verbatim>\<open>DELIVERING\<close> with the evidence, a scan after five minutes declares it ambiguous, and
  another one reads the message back.
\<close>

definition z_unrecorded :: "stimulus list" where
  "z_unrecorded = butlast z_accepted @ [OnTx disk_full]"

definition z_later :: instant where
  "z_later = 400000000000"

definition z_declared :: "stimulus list" where
  "z_declared = [OnTx (ok_at z_later), OnTx (ok_at z_later)]"

definition z_message :: terminal_message where
  "z_message = \<lparr>tm_message_id = ''m'', tm_channel_id = ''7'', tm_author_id = ''bot'', tm_content = ''hi''\<rparr>"

definition z_verified :: "stimulus list" where
  "z_verified = [OnTx (ok_at z_later), OnTx (ok_at z_later), OnFetch (ReadFound z_message), OnTx (ok_at z_later)]"

definition z_scan :: "(delivery_error + reconciliation_summary) task" where
  "z_scan = reconcile_once z_cx ''bot'' z_later"

definition is_ret :: "'a task \<Rightarrow> bool" where
  "is_ret t = (case t of Ret _ \<Rightarrow> True | _ \<Rightarrow> False)"

text \<open>What is left of a run: whether it answered, and its world.\<close>

definition finished :: "stimulus list \<times> 'a task \<times> run_world \<Rightarrow> bool" where
  "finished x = (fst x = [] \<and> is_ret (fst (snd x)))"

definition left :: "stimulus list \<times> 'a task \<times> run_world \<Rightarrow> run_world" where
  "left x = snd (snd x)"

lemma finished_run: "finished x \<Longrightarrow> \<exists>a. x = ([], Ret a, left x)"
  by (cases x) (auto simp: finished_def left_def is_ret_def split: task.splits)

definition z_world0 :: run_world where "z_world0 = \<lparr>rw_db = empty_db, rw_sends = [], rw_reads = []\<rparr>"
definition z_world1 :: run_world where "z_world1 = left (run_task z_failing z_capture z_world0)"
definition z_world2 :: run_world where "z_world2 = left (run_task z_accepted z_capture z_world1)"
definition z_world3 :: run_world where "z_world3 = left (run_task z_unrecorded z_capture z_world1)"
definition z_world4 :: run_world where "z_world4 = left (run_task z_declared z_scan z_world3)"
definition z_world5 :: run_world where "z_world5 = left (run_task z_verified z_scan z_world4)"

text \<open>What a world shows: the state, the attempts and the message of each row, the answers and the reads.\<close>

definition z_view ::
  "run_world \<Rightarrow> (string \<times> delivery_state \<times> nat \<times> string option) list \<times> (string \<times> send_result) list \<times> string list" where
  "z_view w =
     (map (\<lambda>r. (dr_key r, dr_state r, unat (dr_attempt_count r), dr_message_id r)) (db_rows (rw_db w)),
      map (\<lambda>e. (se_key e, se_result e)) (rw_sends w), map re_message_id (rw_reads w))"

lemma z_run1:
  "finished (run_task z_failing z_capture z_world0)
   \<and> z_view z_world1 = ([(z_key, RetryScheduled, 1, None)], [(z_key, DefiniteTransientFailure ''X'')], [])"
  by code_simp

lemma z_run2:
  "finished (run_task z_accepted z_capture z_world1)
   \<and> z_view z_world2 = ([(z_key, DeliveredState, 2, Some ''m'')],
       [(z_key, DefiniteTransientFailure ''X''), (z_key, DefiniteSuccess ''m'')], [])"
  by code_simp

lemma z_run3:
  "finished (run_task z_unrecorded z_capture z_world1)
   \<and> z_view z_world3 = ([(z_key, Delivering, 2, Some ''m'')],
       [(z_key, DefiniteTransientFailure ''X''), (z_key, DefiniteSuccess ''m'')], [])"
  by code_simp

lemma z_run4:
  "finished (run_task z_declared z_scan z_world3)
   \<and> z_view z_world4 = ([(z_key, Ambiguous, 2, Some ''m'')],
       [(z_key, DefiniteTransientFailure ''X''), (z_key, DefiniteSuccess ''m'')], [])"
  by code_simp

lemma z_run5:
  "finished (run_task z_verified z_scan z_world4)
   \<and> z_view z_world5 = ([(z_key, DeliveredState, 2, Some ''m'')],
       [(z_key, DefiniteTransientFailure ''X''), (z_key, DefiniteSuccess ''m'')], [''m''])"
  by code_simp

subsection \<open>The states it reaches\<close>

definition z_state1 :: delivery_system where "z_state1 = with_run 0 (Ret ()) z_world1 initial_system"
definition z_state2 :: delivery_system where "z_state2 = with_run 1 (Ret ()) z_world2 z_state1"
definition z_state3 :: delivery_system where "z_state3 = with_run 1 (Ret ()) z_world3 z_state1"
definition z_state4 :: delivery_system where "z_state4 = with_run 2 (Ret ()) z_world4 z_state3"
definition z_state5 :: delivery_system where "z_state5 = with_run 3 (Ret ()) z_world5 z_state4"

lemmas z_states = z_state1_def z_state2_def z_state3_def z_state4_def z_state5_def

lemma z_free:
  "sy_tasks initial_system 0 = None" "sy_tasks z_state1 1 = None" "sy_tasks z_state3 2 = None" "sy_tasks z_state4 3 = None"
  by (simp_all add: z_states with_run_def initial_system_def)

lemma z_reached1: "reached z_cx author z_state1"
proof -
  obtain a where "run_task z_failing z_capture z_world0 = ([], Ret a, z_world1)"
    using finished_run z_run1 unfolding z_world1_def by blast
  moreover have "world_of initial_system = z_world0" by (simp add: world_of_def initial_system_def z_world0_def)
  ultimately show ?thesis
    unfolding z_state1_def z_capture_def
    by (intro captured_reaches [OF _ z_free(1)]) (simp_all add: reached_def)
qed

lemma z_reached2: "reached z_cx author z_state2"
proof -
  obtain a where "run_task z_accepted z_capture z_world1 = ([], Ret a, z_world2)"
    using finished_run z_run2 unfolding z_world2_def by blast
  moreover have "world_of z_state1 = z_world1" by (simp add: z_state1_def)
  ultimately show ?thesis
    unfolding z_state2_def z_capture_def by (intro captured_reaches [OF z_reached1 z_free(2)]) simp
qed

lemma z_reached3: "reached z_cx author z_state3"
proof -
  obtain a where "run_task z_unrecorded z_capture z_world1 = ([], Ret a, z_world3)"
    using finished_run z_run3 unfolding z_world3_def by blast
  moreover have "world_of z_state1 = z_world1" by (simp add: z_state1_def)
  ultimately show ?thesis
    unfolding z_state3_def z_capture_def by (intro captured_reaches [OF z_reached1 z_free(2)]) simp
qed

lemma z_reached5: "reached z_cx ''bot'' z_state5"
proof -
  obtain a where "run_task z_declared z_scan z_world3 = ([], Ret a, z_world4)"
    using finished_run z_run4 unfolding z_world4_def by blast
  moreover have "world_of z_state3 = z_world3" by (simp add: z_state3_def)
  ultimately have four: "reached z_cx ''bot'' z_state4"
    unfolding z_state4_def z_scan_def by (intro scanned_reaches [OF z_reached3 z_free(3)]) simp
  obtain a where "run_task z_verified z_scan z_world4 = ([], Ret a, z_world5)"
    using finished_run z_run5 unfolding z_world5_def by blast
  moreover have "world_of z_state4 = z_world4" by (simp add: z_state4_def)
  ultimately show ?thesis
    unfolding z_state5_def z_scan_def by (intro scanned_reaches [OF four z_free(4)]) simp
qed

subsection \<open>Runs of the system\<close>

lemma transient_iff: "transient r \<longleftrightarrow> (\<exists>c. r = DefiniteTransientFailure c)"
  by (cases r) (simp_all add: transient_def)

lemma reached_once: "reached cx author s \<Longrightarrow> once_only (sy_sends s)"
  by (erule reached_inv) (simp add: shared_ok_def sends_ok_def)

lemma reached_attempts: "reached cx author s \<Longrightarrow> sends_of k (sy_sends s) \<le> row_attempts k (sy_db s)"
  by (erule reached_inv) (auto simp: shared_ok_def budget_ok_def dest: spec [of _ k])

text \<open>C2: At most one send of a record may have arrived: along every run, with crashes and interleaved
  workers, every send of a record but the last got an answer that says nothing was accepted.\<close>

theorem only_last_send_may_arrive:
  assumes "reached cx author s" and "i < j" and "j < length (sy_sends s)"
    and "se_key (sy_sends s ! i) = se_key (sy_sends s ! j)"
  shows "\<exists>c. se_result (sy_sends s ! i) = DefiniteTransientFailure c"
  using reached_once [OF assms(1)] assms(2-4) unfolding once_only_def transient_iff by blast

lemma z_sends2:
  "map (\<lambda>e. (se_key e, se_result e)) (sy_sends z_state2) =
     [(z_key, DefiniteTransientFailure ''X''), (z_key, DefiniteSuccess ''m'')]"
  using z_run2 by (simp add: z_view_def z_state2_def with_run_def)

theorem only_last_send_may_arrive_witness:
  "se_key (sy_sends z_state2 ! 0) = se_key (sy_sends z_state2 ! 1) \<and> length (sy_sends z_state2) = 2
   \<and> (\<exists>c. se_result (sy_sends z_state2 ! 0) = DefiniteTransientFailure c)"
proof -
  obtain a b where two: "sy_sends z_state2 = [a, b]" "se_key a = z_key" "se_key b = z_key"
    using z_sends2 by auto
  then show ?thesis
    using only_last_send_may_arrive [OF z_reached2 [of "''bot''"], of 0 1] by simp
qed

text \<open>C7: A record in \<^verbatim>\<open>DELIVERED\<close> has a message id that the platform answered to a send of
  exactly the content of its payload, and no other send of that record can have arrived.\<close>

theorem delivered_was_accepted:
  assumes s: "reached cx author s" and r: "select_record k (sy_db s) = Some r" "dr_state r = DeliveredState"
  shows "\<exists>m i. dr_message_id r = Some m \<and> i < length (sy_sends s)
    \<and> se_key (sy_sends s ! i) = k \<and> se_result (sy_sends s ! i) = DefiniteSuccess m
    \<and> se_content (sy_sends s ! i) = terminal_content_for_discord (dr_payload r)
    \<and> (\<forall>j < length (sy_sends s). j \<noteq> i \<longrightarrow> se_key (sy_sends s ! j) = k
         \<longrightarrow> (\<exists>c. se_result (sy_sends s ! j) = DefiniteTransientFailure c))"
proof -
  from s obtain ph where shared: "shared_ok ph (sy_db s) (sy_sends s) (sy_reads s)"
    by (rule reached_inv)
  then have evidence: "evidence_ok ph (sy_db s) (sy_sends s)" by (simp add: shared_ok_def)
  with r have "dr_message_id r \<noteq> None" unfolding evidence_ok_def by blast
  then obtain m where m: "dr_message_id r = Some m" by blast
  with r have "row_message k (sy_db s) = Some m" by (simp add: row_message_def)
  with evidence obtain e where e: "e \<in> set (sy_sends s)" "se_key e = k" "se_result e = DefiniteSuccess m"
    unfolding evidence_ok_def by blast
  then obtain i where i: "i < length (sy_sends s)" "sy_sends s ! i = e" by (auto simp: in_set_conv_nth)
  have content: "se_content e = terminal_content_for_discord (dr_payload r)"
    using shared e r by (auto simp: shared_ok_def content_ok_def row_content_def)
  have "transient (se_result (sy_sends s ! j))"
    if j: "j < length (sy_sends s)" "j \<noteq> i" "se_key (sy_sends s ! j) = k" for j
  proof (cases "j < i")
    case True
    with j i e reached_once [OF s] show ?thesis by (simp add: once_only_def)
  next
    case False
    with j i e have "transient (se_result e)"
      using reached_once [OF s] by (metis linorder_neqE_nat once_only_def)
    with e show ?thesis by (simp add: transient_def)
  qed
  with m i e content show ?thesis unfolding transient_iff by blast
qed

lemma z_row2:
  obtains r where "select_record z_key (sy_db z_state2) = Some r" "dr_state r = DeliveredState"
  using z_run2 by (auto simp: z_view_def z_state2_def with_run_def select_record_def)

theorem delivered_was_accepted_witness:
  "\<exists>r m. select_record z_key (sy_db z_state2) = Some r \<and> dr_state r = DeliveredState \<and> dr_message_id r = Some m"
proof -
  obtain r where r: "select_record z_key (sy_db z_state2) = Some r" "dr_state r = DeliveredState" by (rule z_row2)
  with delivered_was_accepted [OF z_reached2 [of "''bot''"] r] show ?thesis by blast
qed

text \<open>C33: A record is never sent more often than its attempt counter says, whatever crashes happen, and
  every send carries exactly the content of the stored payload.\<close>

theorem sends_within_attempts:
  assumes s: "reached cx author s" and k: "k \<in> se_key ` set (sy_sends s)"
  shows "\<exists>r. select_record k (sy_db s) = Some r
    \<and> length (filter (\<lambda>e. se_key e = k) (sy_sends s)) \<le> unat (dr_attempt_count r)
    \<and> (\<forall>e\<in>set (sy_sends s). se_key e = k \<longrightarrow> se_content e = terminal_content_for_discord (dr_payload r))"
proof -
  from s obtain ph where shared: "shared_ok ph (sy_db s) (sy_sends s) (sy_reads s)"
    by (rule reached_inv)
  with k obtain r where r: "select_record k (sy_db s) = Some r"
    by (auto simp: shared_ok_def content_ok_def)
  moreover have "length (filter (\<lambda>e. se_key e = k) (sy_sends s)) \<le> unat (dr_attempt_count r)"
    using reached_attempts [OF s, of k] r by (simp add: sends_of_def row_attempts_def)
  moreover have "\<forall>e\<in>set (sy_sends s). se_key e = k \<longrightarrow> se_content e = terminal_content_for_discord (dr_payload r)"
    using shared r by (auto simp: shared_ok_def content_ok_def row_content_def)
  ultimately show ?thesis by blast
qed

theorem sends_within_attempts_witness:
  "\<exists>r. select_record z_key (sy_db z_state2) = Some r
    \<and> length (filter (\<lambda>e. se_key e = z_key) (sy_sends z_state2)) \<le> unat (dr_attempt_count r)"
proof -
  have "z_key \<in> se_key ` set (sy_sends z_state2)" using z_sends2 by auto
  from sends_within_attempts [OF z_reached2 [of "''bot''"] this] show ?thesis by blast
qed

text \<open>A record is read back at most three times, also across crashes and restarts, and a read names
  exactly the channel and the message id of the record.\<close>

theorem reads_within_budget:
  assumes s: "reached cx author s"
  shows "length (filter (\<lambda>e. re_key e = k) (sy_reads s)) \<le> 3
    \<and> (\<forall>e\<in>set (sy_reads s). \<exists>r. select_record (re_key e) (sy_db s) = Some r
         \<and> dr_message_id r = Some (re_message_id e) \<and> dr_channel_id r = re_channel_id e)"
proof -
  from s obtain ph where "shared_ok ph (sy_db s) (sy_sends s) (sy_reads s)"
    by (rule reached_inv)
  then have reads: "reads_ok ph (sy_db s) (sy_reads s)" by (simp add: shared_ok_def)
  then have "reads_of k (sy_reads s) + granted ph k \<le> read_count k (sy_db s)"
    and "read_count k (sy_db s) \<le> max_ambiguous_reconciliation_attempts" unfolding reads_ok_def by blast+
  then have "length (filter (\<lambda>e. re_key e = k) (sy_reads s)) \<le> 3"
    by (simp add: reads_of_def max_ambiguous_reconciliation_attempts_def)
  with reads show ?thesis unfolding reads_ok_def by blast
qed

theorem reads_within_budget_witness:
  "map re_message_id (sy_reads z_state5) = [''m''] \<and> length (filter (\<lambda>e. re_key e = z_key) (sy_reads z_state5)) \<le> 3"
  using reads_within_budget [OF z_reached5, of z_key] z_run5
  by (simp add: z_view_def z_state5_def with_run_def)

subsection \<open>The store\<close>

text \<open>C34: The audit log is the history of the rows: along any calls of the store, the events of a record
  replay from its creation through legal moves to exactly its state and revision, and no two rows
  share a key, a slot, or a message id of their platform.\<close>

theorem audit_log_is_history:
  assumes "(store_call cx)\<^sup>*\<^sup>* empty_db d" and "r \<in> set (db_rows d)"
  shows "audit_replay (events_of (dr_key r) d) = Some (dr_state r, dr_revision r)
    \<and> distinct (map dr_key (db_rows d)) \<and> distinct (map slot_of_record (db_rows d))
    \<and> (\<forall>x\<in>set (db_rows d). dr_message_id r \<noteq> None \<longrightarrow> dr_message_id x = dr_message_id r
         \<longrightarrow> dr_platform x = dr_platform r \<longrightarrow> dr_key x = dr_key r)"
proof -
  have inv: "db_inv d" using store.run_inv [OF assms(1) db_inv_empty] .
  then have "audited d" "ids_unique d" by (simp_all add: db_inv_def)
  with assms(2) have "audit_replay (events_of (dr_key r) d) = Some (dr_state r, dr_revision r)"
    and "\<forall>x\<in>set (db_rows d). dr_message_id r \<noteq> None \<longrightarrow> dr_message_id x = dr_message_id r
         \<longrightarrow> dr_platform x = dr_platform r \<longrightarrow> dr_key x = dr_key r"
    unfolding audited_def ids_unique_def by blast+
  with inv show ?thesis by (simp add: db_inv_def)
qed

definition z_input :: new_delivery where
  "z_input = capture_input z_meta z_channel ''1'' (materialize_terminal_payload z_snapshot)"

definition z_db1 :: delivery_db where "z_db1 = snd (create_or_reuse z_cx z_input (ok_at 0) empty_db)"
definition z_db2 :: delivery_db where
  "z_db2 = snd (transition z_key 0 ReadyToDeliver update_default ''RESULT_MATERIALIZED'' (ok_at 0) z_db1)"

lemma z_calls: "store_call z_cx empty_db z_db1" "store_call z_cx z_db1 z_db2"
  unfolding z_db1_def z_db2_def by (rule store_call.creates, rule store_call.transitions) (simp add: read_reason_def)

lemma z_rows: "map (\<lambda>r. (dr_key r, dr_state r, dr_revision r)) (db_rows z_db1) = [(z_key, PendingResult, 0)]
   \<and> map (\<lambda>r. (dr_key r, dr_state r, dr_revision r)) (db_rows z_db2) = [(z_key, ReadyToDeliver, 1)]"
  by code_simp

theorem audit_log_is_history_witness: "audit_replay (events_of z_key z_db2) = Some (ReadyToDeliver, 1)"
proof -
  obtain r where r: "r \<in> set (db_rows z_db2)" "dr_key r = z_key" "dr_state r = ReadyToDeliver" "dr_revision r = 1"
    using z_rows by auto
  have "(store_call z_cx)\<^sup>*\<^sup>* empty_db z_db2" using z_calls by (meson r_into_rtranclp rtranclp.rtrancl_into_rtrancl)
  from audit_log_is_history [OF this r(1)] r show ?thesis by simp
qed

text \<open>A row only moves forward, whatever is called: its identity and payload never change, a terminal
  state is final, an accepted message id is written once, and attempts and revision never decrease; two
  reads of one revision are equal.\<close>

theorem row_only_moves_forward:
  assumes "(store_call cx)\<^sup>*\<^sup>* d d'" and "select_record k d = Some c"
  shows "\<exists>r. select_record k d' = Some r
    \<and> input_of_record r = input_of_record c \<and> dr_payload_digest r = dr_payload_digest c
    \<and> (is_terminal (dr_state c) \<longrightarrow> r = c)
    \<and> (dr_message_id c \<noteq> None \<longrightarrow> dr_message_id r = dr_message_id c)
    \<and> dr_attempt_count c \<le> dr_attempt_count r \<and> unat (dr_revision c) \<le> unat (dr_revision r)
    \<and> (dr_revision r = dr_revision c \<longrightarrow> r = c)"
  using store_calls_row_after [OF assms] unfolding row_after_def same_identity_def by blast

theorem row_only_moves_forward_witness:
  "\<exists>c r. select_record z_key z_db1 = Some c \<and> select_record z_key z_db2 = Some r
    \<and> dr_state r \<noteq> dr_state c \<and> input_of_record r = input_of_record c"
proof -
  obtain c r where c: "select_record z_key z_db1 = Some c" "dr_state c = PendingResult"
    and r: "select_record z_key z_db2 = Some r" "dr_state r = ReadyToDeliver"
    using z_rows by (auto simp: select_record_def)
  from row_only_moves_forward [OF r_into_rtranclp [of "store_call z_cx", OF z_calls(2)] c(1)] r(1)
  have "input_of_record r = input_of_record c" by auto
  with c r show ?thesis by auto
qed

lemma slot_payload [simp]: "slot_from_input (n\<lparr>nd_payload := p\<rparr>) = slot_from_input n"
  by (simp add: slot_from_input_def)

lemma key_valid: "terminal_delivery_key cx n = Inr k \<Longrightarrow> validate_new n = Inr ()"
  by (auto simp: terminal_delivery_key_def split: sum.splits)

lemma created_slot:
  assumes "create_or_reuse cx n i d = (Inr r, d')" and "d' \<noteq> d"
  shows "select_slot (slot_from_input n) d' = Some r"
proof (cases rule: create_or_reuse_cases [of cx n i d])
  case (3 k digest)
  with assms have r: "r = new_row n k digest (ti_now i)"
    and d': "d' = insert_event k None PendingResult 0 ''CREATED'' (ti_now i) (d\<lparr>db_rows := db_rows d @ [r]\<rparr>)" by auto
  from r have "slot_of_record r = slot_from_input n" by simp
  with 3(3) show ?thesis unfolding d' by (simp add: select_slot_def find_append)
qed (use assms in auto)

text \<open>Capturing an answer is idempotent: asked again, the store answers the same record and adds
  nothing; and once a record was added, a capture of the same slot with another payload is refused
  without a change.\<close>

theorem capture_is_idempotent:
  assumes "create_or_reuse cx n i d = (Inr r, d')" and "ti_fail j = None"
  shows "create_or_reuse cx n j d' = (Inr r, d')
    \<and> (d' \<noteq> d \<longrightarrow>
        (\<forall>p k s. terminal_delivery_key cx (n\<lparr>nd_payload := p\<rparr>) = Inr k \<longrightarrow> select_record k d' = None
          \<longrightarrow> canonical_json (dc_json cx) p = Inr s \<longrightarrow> sha256_hex cx s \<noteq> dr_payload_digest r
          \<longrightarrow> create_or_reuse cx (n\<lparr>nd_payload := p\<rparr>) j d' =
               (Inl (PayloadConflict ''TERMINAL_DELIVERY_PAYLOAD_CONFLICT''), d')))"
proof
  show "create_or_reuse cx n j d' = (Inr r, d')"
    using assms select_record_append [of _ d]
    by (auto simp: create_or_reuse_def sql_def Let_def split: sum.splits option.splits if_splits)
  show "d' \<noteq> d \<longrightarrow>
        (\<forall>p k s. terminal_delivery_key cx (n\<lparr>nd_payload := p\<rparr>) = Inr k \<longrightarrow> select_record k d' = None
          \<longrightarrow> canonical_json (dc_json cx) p = Inr s \<longrightarrow> sha256_hex cx s \<noteq> dr_payload_digest r
          \<longrightarrow> create_or_reuse cx (n\<lparr>nd_payload := p\<rparr>) j d' =
               (Inl (PayloadConflict ''TERMINAL_DELIVERY_PAYLOAD_CONFLICT''), d'))"
    using created_slot [OF assms(1)] assms(2) key_valid by (auto simp: create_or_reuse_def sql_def)
qed

lemma z_created: "fst (create_or_reuse z_cx z_input (ok_at 0) empty_db) = Inr (hd (db_rows z_db1))"
  by code_simp

theorem capture_is_idempotent_witness:
  "\<exists>r. create_or_reuse z_cx z_input (ok_at 0) empty_db = (Inr r, z_db1)
    \<and> create_or_reuse z_cx z_input (ok_at 5) z_db1 = (Inr r, z_db1)"
proof -
  have "create_or_reuse z_cx z_input (ok_at 0) empty_db = (Inr (hd (db_rows z_db1)), z_db1)"
    using z_created by (simp add: prod_eq_iff z_db1_def)
  with capture_is_idempotent [OF this, of "ok_at 5"] show ?thesis by (auto simp: ok_at_def)
qed

subsection \<open>The worker on its own\<close>

text \<open>C35: A worker that is alone delivers: a claimed record is sent exactly once and ends in the state its
  answer calls for, with one attempt more, its lease cleared, the accepted message id recorded, and a
  retry due after the delay of that attempt.\<close>

theorem delivery_reaches_answer_state:
  assumes r: "claimable (rw_db w) r" "dr_message_id r = None" and "token \<noteq> []"
    and "ti_fail h = None" "ti_fail i = None" "ti_fail j = None"
    and "recordable (rw_db w) (dr_platform r) outcome"
  shows "\<exists>x w'. run_task
        (OnFresh token # OnClock started # OnTx h # OnSend outcome # replies (dr_attempt_count r + 1) outcome i j t)
        (deliver_ready r channel) w = ([], Ret (Inr x), w')
    \<and> select_record (dr_key r) (rw_db w') = Some x
    \<and> dr_state x = answer_state (dr_attempt_count r + 1) outcome
    \<and> dr_attempt_count x = dr_attempt_count r + 1 \<and> dr_lease_token x = None
    \<and> dr_message_id x = accepted_id outcome
    \<and> (dr_state x = RetryScheduled \<longrightarrow>
         dr_next_attempt_at x = Some (timestamp (t + seconds (retry_delay_secs (dr_attempt_count r + 1)))))
    \<and> rw_sends w' = rw_sends w @ [\<lparr>se_key = dr_key r, se_channel = channel,
         se_content = terminal_content_for_discord (dr_payload r), se_result = outcome\<rparr>]"
proof -
  from delivery_settles [OF assms, of started t channel] obtain x w' where
    run: "run_task
        (OnFresh token # OnClock started # OnTx h # OnSend outcome # replies (dr_attempt_count r + 1) outcome i j t)
        (deliver_ready r channel) w = ([], Ret (Inr x), w')"
    and x: "settled_as (claim_row r token started h) (answer_state (dr_attempt_count r + 1) outcome) x
        (with_send w (claim_db r token started h (rw_db w)) (claim_row r token started h) channel outcome) w'"
    and m: "dr_message_id x = accepted_id outcome"
    and due: "answer_state (dr_attempt_count r + 1) outcome = RetryScheduled \<longrightarrow>
         dr_next_attempt_at x = Some (timestamp (t + seconds (retry_delay_secs (dr_attempt_count r + 1))))"
    by blast
  show ?thesis
    by (intro exI conjI, rule run) (use x m due in \<open>simp_all add: settled_as_def with_send_def\<close>)
qed

definition z_ready :: delivery_record where "z_ready = hd (db_rows z_db2)"

lemma z_ready_row:
  "select_record (dr_key z_ready) z_db2 = Some z_ready \<and> dr_state z_ready = ReadyToDeliver
    \<and> dr_revision z_ready = 1 \<and> dr_attempt_count z_ready = 0 \<and> dr_message_id z_ready = None"
  by code_simp

lemma z_claimable: "claimable z_db2 z_ready" "dr_message_id z_ready = None" "dr_attempt_count z_ready = 0"
proof -
  have "(store_call z_cx)\<^sup>*\<^sup>* empty_db z_db2" using z_calls by (meson r_into_rtranclp rtranclp.rtrancl_into_rtrancl)
  then have "db_inv z_db2" using db_inv_empty by (rule store.run_inv)
  then show "claimable z_db2 z_ready" "dr_message_id z_ready = None" "dr_attempt_count z_ready = 0"
    using z_ready_row by (simp_all add: claimable_def sendable_def)
qed

theorem delivery_reaches_answer_state_witness:
  "\<exists>x w'. run_task [OnFresh ''u'', OnClock 0, OnTx (ok_at 0), OnSend (DefiniteTransientFailure ''X''), OnClock 0, OnTx (ok_at 0)]
      (deliver_ready z_ready z_channel) (z_world0\<lparr>rw_db := z_db2\<rparr>) = ([], Ret (Inr x), w')
    \<and> dr_state x = RetryScheduled \<and> dr_next_attempt_at x = Some (seconds 1)"
proof -
  let ?w = "z_world0\<lparr>rw_db := z_db2\<rparr>" and ?o = "DefiniteTransientFailure ''X''"
  have safe: "recordable (rw_db ?w) (dr_platform z_ready) ?o" by (simp add: recordable_def audit_safe_def) code_simp
  have claim: "claimable (rw_db ?w) z_ready" using z_claimable by simp
  have ok: "ti_fail (ok_at 0) = None" by (simp add: ok_at_def)
  have delay: "timestamp (0 + seconds (retry_delay_secs 1)) = seconds 1"
    by (simp add: retry_delay_secs_def seconds_def timestamp_def)
  have early: "\<not> (5 :: u64) \<le> 1" by (simp add: word_le_nat_alt)
  show ?thesis
    using delivery_reaches_answer_state [OF claim z_claimable(2) _ ok ok ok safe, of "''u''" 0 0 z_channel] delay early
    by (auto simp: z_claimable(3) replies_def answer_state_def max_external_attempts_def)
qed

text \<open>C36: Every function of the worker ends, whatever the database, the clock and the platform answer: a
  capture after at most 18 transactions and calls with at most one send, a scan after at most 751 with
  at most 50 sends.\<close>

theorem worker_is_bounded:
  assumes "run_task ss (capture_and_deliver cx m channel inbound) w = (ss1, t1, w1)"
    and "run_task ss (reconcile_once cx author now) w = (ss2, t2, w2)"
  shows "length ss \<le> length ss1 + 18 \<and> length (rw_sends w1) \<le> length (rw_sends w) + 1
    \<and> length ss \<le> length ss2 + 751 \<and> length (rw_sends w2) \<le> length (rw_sends w) + 50"
  using run_within [OF within_capture assms(1)] run_within [OF within_reconcile_once assms(2)]
  by (simp add: terminal_reconciliation_batch_limit_def)

theorem worker_is_bounded_witness:
  "length z_failing = 9 \<and> length (rw_sends z_world1) \<le> 1"
proof -
  obtain a where one: "run_task z_failing z_capture z_world0 = ([], Ret a, z_world1)"
    using finished_run z_run1 unfolding z_world1_def by blast
  obtain ss t w where two: "run_task z_failing z_scan z_world0 = (ss, t, w)" by (cases "run_task z_failing z_scan z_world0")
  show ?thesis
    using worker_is_bounded [OF one [unfolded z_capture_def] two [unfolded z_scan_def]]
    by (simp add: z_failing_def z_world0_def)
qed

subsection \<open>The retry budget and crashes\<close>

text \<open>C37: The retry budget does not survive a crash: the fifth failed attempt is recorded in two
  transactions, and a crash between them leaves a row in \<^verbatim>\<open>RETRY_SCHEDULED\<close> that is due
  at once, so the next scan claims it and sends a sixth time, past \<^verbatim>\<open>MAX_EXTERNAL_ATTEMPTS\<close>.\<close>

theorem crash_exceeds_retry_budget:
  assumes r: "claimable (rw_db w) r" "dr_message_id r = None" "dr_state r = RetryScheduled" "dr_attempt_count r = 4"
    and due: "dr_next_attempt_at r = Some due" "due \<le> now" and room: "unat (dr_revision r) + 5 < 2 ^ 64"
    and i: "token \<noteq> []" "ti_fail h = None" "ti_fail i = None" "ti_fail j = None" and f: "audit_safe f"
  shows "\<exists>t x w1 t' w2. run_task [OnFresh token, OnClock started, OnTx h, OnSend (DefiniteTransientFailure f), OnTx i]
        (deliver_ready r channel) w = ([], t, w1)
    \<and> select_record (dr_key r) (rw_db w1) = Some x \<and> is_candidate now before x
    \<and> run_task [OnFresh token, OnClock now, OnTx j, OnSend outcome] (reconcile_record cx now before x) w1 = ([], t', w2)
    \<and> map se_key (rw_sends w2) = map se_key (rw_sends w) @ [dr_key r, dr_key r]
    \<and> row_attempts (dr_key r) (rw_db w2) = 6"
proof -
  let ?c = "claim_row r token started h" and ?o = "DefiniteTransientFailure f"
  let ?w = "with_send w (claim_db r token started h (rw_db w)) ?c channel ?o"
  have last: "max_external_attempts \<le> dr_attempt_count ?c" by (simp add: r max_external_attempts_def)
  let ?hold = "\<lambda>x. tx (transition (dr_key x) (dr_revision x) OperatorHold
      (update_default\<lparr>up_hold_reason := Some (Some ''RETRY_EXHAUSTED_DEFINITE_TRANSIENT'')\<rparr>)
      ''RETRY_EXHAUSTED_DEFINITE_TRANSIENT'') Ret"
  obtain x w1 where x: "settled_as ?c RetryScheduled x ?w w1" "dr_message_id x = None"
      "dr_revision x = dr_revision ?c + 1" "dr_next_attempt_at x = map_option timestamp (dr_next_attempt_at ?c)"
    and run: "\<And>ss. run_task (OnTx i # ss) (record_outcome ?c token ?o) ?w = run_task ss (?hold x) w1"
    using exhausted_scheduled [OF claim_opens [OF r(1,2) i(1,2)] i(3) f last] by blast
  have first: "run_task [OnFresh token, OnClock started, OnTx h, OnSend ?o, OnTx i] (deliver_ready r channel) w
      = ([], ?hold x, w1)"
    unfolding deliver_ready_sends [OF r(1) i(2)] run by (simp add: tx_def)
  have due_x: "dr_next_attempt_at x = Some (timestamp due)"
    using x(4) due(1) by (simp add: claim_row_def transitioned_next_attempt claim_update_def)
  then have candidate: "is_candidate now before x"
    using x(1) timestamp_mono [OF due(2)] by (simp add: is_candidate_def settled_as_def)
  have rev: "dr_revision x = dr_revision r + 1 + 1" using x(3) by simp
  have "unat (dr_revision r + 1) = unat (dr_revision r) + 1"
    using room by (intro unat_plus_one not_last) simp
  moreover from this have "unat (dr_revision r + 1 + 1) = unat (dr_revision r + 1) + 1"
    using room by (intro unat_plus_one not_last) simp
  ultimately have "unat (dr_revision x) + 3 < 2 ^ 64" unfolding rev using room by simp
  then have claim: "claimable (rw_db w1) x"
    using x(1) by (simp add: claimable_def settled_as_def sendable_def r)
  let ?t = "record_outcome (claim_row x token now j) token outcome"
  let ?w2 = "with_send w1 (claim_db x token now j (rw_db w1)) (claim_row x token now j) (channel_from_record x) outcome"
  have "run_task [OnFresh token, OnClock now, OnTx j, OnSend outcome] (deliver_ready x (channel_from_record x)) w1 = ([], ?t, ?w2)"
    unfolding deliver_ready_sends [OF claim i(4)] by (cases ?t) simp_all
  note second = run_task_open [OF this, of "\<lambda>y. Ret (sent_outcome y)"]
  have "timestamp due \<le> due" by (simp add: timestamp_def)
  with due(2) x(1) due_x have
    "reconcile_record cx now before x = await (deliver_ready x (channel_from_record x)) (\<lambda>y. Ret (sent_outcome y))"
    by (simp add: reconcile_record_def settled_as_def)
  moreover have "row_attempts (dr_key r) (rw_db ?w2) = 6"
    using claim_step(2) [OF claim i(4), of token now] x(1)
    by (simp add: with_send_def row_attempts_def settled_as_def r)
  moreover have "map se_key (rw_sends ?w2) = map se_key (rw_sends w) @ [dr_key r, dr_key r]"
    using x(1) by (simp add: with_send_def settled_as_def)
  moreover have "select_record (dr_key r) (rw_db w1) = Some x" using x(1) by (simp add: settled_as_def)
  ultimately show ?thesis using first second candidate by metis
qed

definition z_exhausted :: delivery_record where
  "z_exhausted = z_ready\<lparr>dr_state := RetryScheduled, dr_attempt_count := 4, dr_next_attempt_at := Some 0, dr_revision := 3\<rparr>"

definition z_event :: "delivery_state option \<Rightarrow> delivery_state \<Rightarrow> u64 \<Rightarrow> string \<Rightarrow> delivery_event" where
  "z_event s s' v reason =
     \<lparr>ev_key = z_key, ev_previous = s, ev_new = s', ev_revision = v, ev_reason = reason, ev_timestamp = 0\<rparr>"

definition z_db4 :: delivery_db where
  "z_db4 = \<lparr>db_version = 1, db_rows = [z_exhausted],
     db_events = [z_event None PendingResult 0 ''CREATED'', z_event (Some PendingResult) ReadyToDeliver 1 ''a'',
       z_event (Some ReadyToDeliver) Delivering 2 ''b'', z_event (Some Delivering) RetryScheduled 3 ''c'']\<rparr>"

lemma z_db4_inv: "db_inv z_db4"
  by code_simp

lemma z_exhausted_row:
  "select_record z_key z_db4 = Some z_exhausted \<and> dr_key z_exhausted = z_key
    \<and> dr_message_id z_exhausted = None \<and> dr_state z_exhausted = RetryScheduled \<and> dr_attempt_count z_exhausted = 4
    \<and> dr_next_attempt_at z_exhausted = Some 0 \<and> dr_revision z_exhausted = 3"
  by code_simp

theorem crash_exceeds_retry_budget_witness:
  "\<exists>t x w1 t' w2. run_task [OnFresh ''u'', OnClock 1, OnTx (ok_at 1), OnSend (DefiniteTransientFailure ''X''), OnTx (ok_at 1)]
      (deliver_ready z_exhausted z_channel) (z_world0\<lparr>rw_db := z_db4\<rparr>) = ([], t, w1)
    \<and> run_task [OnFresh ''u'', OnClock 1, OnTx (ok_at 1), OnSend (DefiniteSuccess ''m'')] (reconcile_record z_cx 1 0 x) w1
        = ([], t', w2)
    \<and> map se_key (rw_sends w2) = [z_key, z_key] \<and> row_attempts z_key (rw_db w2) = 6"
proof -
  let ?w = "z_world0\<lparr>rw_db := z_db4\<rparr>"
  have claim: "claimable (rw_db ?w) z_exhausted"
    using z_db4_inv z_exhausted_row by (simp add: claimable_def sendable_def)
  have four: "dr_state z_exhausted = RetryScheduled" "dr_attempt_count z_exhausted = 4"
      "dr_next_attempt_at z_exhausted = Some 0" "unat (dr_revision z_exhausted) + 5 < 2 ^ 64"
      "dr_message_id z_exhausted = None" "dr_key z_exhausted = z_key"
    using z_exhausted_row by simp_all
  have ok: "ti_fail (ok_at 1) = None" by (simp add: ok_at_def)
  have safe: "audit_safe ''X''" unfolding audit_safe_def by code_simp
  have le: "(0 :: instant) \<le> 1" and token: "''u'' \<noteq> []" by simp_all
  have none: "map se_key (rw_sends ?w) = []" by (simp add: z_world0_def)
  note run = crash_exceeds_retry_budget [OF claim four(5,1,2,3) le four(4) token ok ok ok safe, of 1 z_channel 0
      "DefiniteSuccess ''m''" z_cx, unfolded four(6) none append_Nil]
  then show ?thesis by (elim exE conjE) (intro exI conjI; assumption)
qed

end
