(* ===== verification/Guard_Breaker.thy ===== *)
theory Guard_Breaker
  imports Prelude
begin

section \<open>The circuit breaker of an MCP server\<close>

text \<open>
  \<^verbatim>\<open>crates/openab-mcp/src/mcp/breaker.rs\<close>: one entry per server, kept behind a mutex, so
  that each operation is one step on the whole map. An \<^verbatim>\<open>Instant\<close> is a number of
  nanoseconds, and \<^verbatim>\<open>saturating_duration_since\<close> is subtraction on the natural numbers. The
  failure counter is a \<^verbatim>\<open>u32\<close> that saturates.
\<close>

type_synonym instant = nat

definition fail_threshold :: u32 where
  "fail_threshold = 3"

definition nanos_per_sec :: nat where
  "nanos_per_sec = 1000000000"

definition cooldown :: nat where
  "cooldown = 60 * nanos_per_sec"

datatype verdict = Allow | AllowProbe | Reject (retry_in_secs: nat)

record entry =
  consecutive_failures :: u32
  opened_at :: "instant option"
  probe_started_at :: "instant option"

definition default_entry :: entry where
  "default_entry = \<lparr>consecutive_failures = 0, opened_at = None, probe_started_at = None\<rparr>"

type_synonym breaker = "string \<rightharpoonup> entry"

text \<open>\<^verbatim>\<open>u32::saturating_add(1)\<close>.\<close>

definition saturating_inc :: "u32 \<Rightarrow> u32" where
  "saturating_inc n = (if n = - 1 then n else n + 1)"

definition check_at :: "breaker \<Rightarrow> string \<Rightarrow> instant \<Rightarrow> verdict \<times> breaker" where
  "check_at b server now =
     (case b server of
        None \<Rightarrow> (Allow, b)
      | Some e \<Rightarrow>
          if consecutive_failures e < fail_threshold then (Allow, b)
          else case opened_at e of
                 None \<Rightarrow> (Allow, b)
               | Some opened \<Rightarrow>
                   (let age = now - opened in
                    if cooldown \<le> age
                    then if (case probe_started_at e of
                               None \<Rightarrow> False
                             | Some started \<Rightarrow> now - started < cooldown)
                         then (Reject 1, b)
                         else (AllowProbe, b(server \<mapsto> e\<lparr>probe_started_at := Some now\<rparr>))
                    else (Reject (max ((cooldown - age) div nanos_per_sec) 1), b)))"

definition record_success :: "breaker \<Rightarrow> string \<Rightarrow> breaker" where
  "record_success b server = b(server := None)"

definition record_failure_at :: "breaker \<Rightarrow> string \<Rightarrow> instant \<Rightarrow> breaker" where
  "record_failure_at b server now =
     (let e = (case b server of None \<Rightarrow> default_entry | Some e \<Rightarrow> e);
          was_probe = (probe_started_at e \<noteq> None);
          n = saturating_inc (consecutive_failures e);
          e' = e\<lparr>consecutive_failures := n, probe_started_at := None\<rparr>
      in b(server \<mapsto>
           (if fail_threshold \<le> n \<and> (opened_at e = None \<or> was_probe)
            then e'\<lparr>opened_at := Some now\<rparr> else e')))"

definition is_tripped :: "breaker \<Rightarrow> string \<Rightarrow> bool" where
  "is_tripped b server =
     (case b server of
        None \<Rightarrow> False
      | Some e \<Rightarrow> fail_threshold \<le> consecutive_failures e \<and> opened_at e \<noteq> None)"

subsection \<open>Calls and their log\<close>

text \<open>
  The operations in the order in which they hold the mutex. The log, newest entry first,
  keeps the answer of each check.
\<close>

datatype call = Check string instant | Success string | Failure string instant

datatype event = Checked string instant verdict | Succeeded string | Failed string instant

fun breaker_step :: "breaker \<times> event list \<Rightarrow> call \<Rightarrow> breaker \<times> event list" where
  "breaker_step (b, log) (Check s t) = (let (v, b') = check_at b s t in (b', Checked s t v # log))"
| "breaker_step (b, log) (Success s) = (record_success b s, Succeeded s # log)"
| "breaker_step (b, log) (Failure s t) = (record_failure_at b s t, Failed s t # log)"

definition breaker_run :: "call list \<Rightarrow> breaker \<times> event list" where
  "breaker_run calls = foldl breaker_step (Map.empty, []) calls"

fun call_time :: "call \<Rightarrow> instant option" where
  "call_time (Check s t) = Some t"
| "call_time (Success s) = None"
| "call_time (Failure s t) = Some t"

text \<open>The readings of the clock do not decrease.\<close>

definition clock_ok :: "call list \<Rightarrow> bool" where
  "clock_ok calls = sorted (List.map_filter call_time calls)"

text \<open>The failures of a server since its last success.\<close>

fun failures :: "string \<Rightarrow> event list \<Rightarrow> nat" where
  "failures s [] = 0"
| "failures s (Succeeded s' # log) = (if s' = s then 0 else failures s log)"
| "failures s (Failed s' t # log) = (if s' = s then Suc (failures s log) else failures s log)"
| "failures s (Checked s' t v # log) = failures s log"

subsection \<open>The invariant\<close>

fun event_time :: "event \<Rightarrow> instant option" where
  "event_time (Checked s t v) = Some t"
| "event_time (Succeeded s) = None"
| "event_time (Failed s t) = Some t"

text \<open>
  What the entry of a server says of the log: the counter counts the failures, the breaker
  is open exactly from the third on, it was opened by a failure and no probe was handed out
  after that but the one that is still out.
\<close>

definition entry_ok :: "event list \<Rightarrow> string \<Rightarrow> entry \<Rightarrow> bool" where
  "entry_ok log s e =
     (unat (consecutive_failures e) = min (failures s log) (2 ^ 32 - 1)
      \<and> (opened_at e = None \<longleftrightarrow> failures s log < 3)
      \<and> (\<forall>opened. opened_at e = Some opened \<longrightarrow> Failed s opened \<in> set log)
      \<and> (\<forall>p. probe_started_at e = Some p \<longrightarrow> Checked s p AllowProbe \<in> set log)
      \<and> (\<forall>p opened. Checked s p AllowProbe \<in> set log \<longrightarrow> opened_at e = Some opened \<longrightarrow>
           p \<le> opened \<or> (\<exists>q. probe_started_at e = Some q \<and> p \<le> q)))"

definition spaced :: "event list \<Rightarrow> bool" where
  "spaced log = (\<forall>newer older s t u.
     log = newer @ Checked s t AllowProbe # older \<longrightarrow> Checked s u AllowProbe \<in> set older \<longrightarrow>
     u + cooldown \<le> t)"

definition log_ok :: "instant \<Rightarrow> breaker \<times> event list \<Rightarrow> bool" where
  "log_ok now = (\<lambda>(b, log).
     (\<forall>ev\<in>set log. \<forall>t. event_time ev = Some t \<longrightarrow> t \<le> now)
     \<and> (\<forall>s. case b s of None \<Rightarrow> failures s log = 0 | Some e \<Rightarrow> entry_ok log s e)
     \<and> spaced log)"

lemma unat_saturating_inc: "unat (saturating_inc n) = min (Suc (unat n)) (2 ^ 32 - 1)"
proof (cases "n = - 1")
  case True
  moreover have "unat (- 1 :: u32) = 2 ^ 32 - 1" by (simp add: unsigned_minus_1_eq_mask mask_eq_exp_minus_1)
  ultimately show ?thesis by (simp add: saturating_inc_def)
next
  case False
  then have "unat (n + 1) = unat n + 1" by (rule unat_plus_one)
  moreover have "unat (n + 1) < 2 ^ 32" using unsigned_less [of "n + 1"] by simp
  ultimately show ?thesis using False by (simp add: saturating_inc_def)
qed

lemma below_threshold: "n < fail_threshold \<longleftrightarrow> unat n < 3"
  by (simp add: fail_threshold_def word_less_nat_alt)

lemma entry_below: "entry_ok log s e \<Longrightarrow> consecutive_failures e < fail_threshold \<longleftrightarrow> failures s log < 3"
  by (auto simp: entry_ok_def below_threshold)

lemma spaced_Cons:
  "spaced (ev # log) \<longleftrightarrow> spaced log \<and>
     (\<forall>s t u. ev = Checked s t AllowProbe \<longrightarrow> Checked s u AllowProbe \<in> set log \<longrightarrow> u + cooldown \<le> t)"
  unfolding spaced_def by (simp add: Cons_eq_append_conv all_conj_distrib imp_conjR) blast

lemma cooldown_pos [simp]: "0 < cooldown"
  by (simp add: cooldown_def nanos_per_sec_def)

lemma log_ok_entry:
  "log_ok now (b, log) \<Longrightarrow> case b s of None \<Rightarrow> failures s log = 0 | Some e \<Rightarrow> entry_ok log s e"
  by (simp add: log_ok_def)

text \<open>The answers of a check, in terms of the log.\<close>

lemma check_at_cases:
  assumes "check_at b s t = (v, b')" and "log_ok now (b, log)"
  shows "(v = Allow \<and> b' = b \<and> failures s log < 3)
    \<or> (\<exists>n u. v = Reject n \<and> b' = b \<and> 3 \<le> failures s log \<and> 1 \<le> n \<and> n \<le> 60 \<and> t < u + cooldown
         \<and> (Failed s u \<in> set log \<or> Checked s u AllowProbe \<in> set log))
    \<or> (\<exists>e opened. v = AllowProbe \<and> b s = Some e \<and> b' = b(s \<mapsto> e\<lparr>probe_started_at := Some t\<rparr>)
         \<and> 3 \<le> failures s log \<and> opened_at e = Some opened \<and> opened + cooldown \<le> t
         \<and> (\<forall>q. probe_started_at e = Some q \<longrightarrow> q + cooldown \<le> t))"
proof (cases "b s")
  case None
  then have "failures s log = 0" using log_ok_entry [OF assms(2), of s] by simp
  then show ?thesis using assms(1) None by (simp add: check_at_def)
next
  case (Some e)
  then have ok: "entry_ok log s e" using log_ok_entry [OF assms(2), of s] by simp
  show ?thesis
  proof (cases "failures s log < 3")
    case True
    then show ?thesis using assms(1) Some entry_below [OF ok] by (simp add: check_at_def)
  next
    case False
    then obtain opened where o: "opened_at e = Some opened" "Failed s opened \<in> set log"
      using ok by (auto simp: entry_ok_def)
    have secs: "(cooldown - age) div nanos_per_sec \<le> 60" for age
      using div_le_mono [of "cooldown - age" cooldown nanos_per_sec]
      by (simp add: cooldown_def nanos_per_sec_def)
    have probed: "probe_started_at e = Some q \<Longrightarrow> Checked s q AllowProbe \<in> set log" for q
      using ok by (auto simp: entry_ok_def)
    have young: "t - u < cooldown \<longleftrightarrow> t < u + cooldown" for u
      using cooldown_pos by linarith
    have rejected: "t < u + cooldown \<Longrightarrow> Failed s u \<in> set log \<or> Checked s u AllowProbe \<in> set log \<Longrightarrow>
        v = Reject n \<Longrightarrow> b' = b \<Longrightarrow> 1 \<le> n \<Longrightarrow> n \<le> 60 \<Longrightarrow> ?thesis" for u n
      using False by auto
    consider (closed) "t < opened + cooldown"
      | (out) q where "opened + cooldown \<le> t" "probe_started_at e = Some q" "t < q + cooldown"
      | (due) "opened + cooldown \<le> t" "\<forall>q. probe_started_at e = Some q \<longrightarrow> q + cooldown \<le> t"
      by (meson linorder_not_less)
    then show ?thesis
    proof cases
      case closed
      then have "v = Reject (max ((cooldown - (t - opened)) div nanos_per_sec) 1)" "b' = b"
        using assms(1) Some entry_below [OF ok] False o(1) young [of opened]
        by (auto simp: check_at_def not_le [symmetric])
      then show ?thesis using secs [of "t - opened"] rejected [OF closed disjI1 [OF o(2)]] by simp
    next
      case out
      then have "v = Reject 1" "b' = b"
        using assms(1) Some entry_below [OF ok] False o(1) young [of opened] young [of q]
        by (auto simp: check_at_def not_le [symmetric])
      then show ?thesis using rejected [OF out(3) disjI2 [OF probed [OF out(2)]]] by simp
    next
      case due
      then have "\<not> (case probe_started_at e of None \<Rightarrow> False | Some started \<Rightarrow> t - started < cooldown)"
        using young by (auto split: option.splits simp: not_less)
      then have "v = AllowProbe" "b' = b(s \<mapsto> e\<lparr>probe_started_at := Some t\<rparr>)"
        using assms(1) Some entry_below [OF ok] False o(1) young [of opened] due(1)
        by (auto simp: check_at_def not_less [symmetric])
      then show ?thesis using Some False o(1) due by auto
    qed
  qed
qed

lemma entry_ok_other:
  "entry_ok log s e \<Longrightarrow> failures s (ev # log) = failures s log \<Longrightarrow>
   (\<forall>p. ev \<noteq> Checked s p AllowProbe) \<Longrightarrow> entry_ok (ev # log) s e"
  by (auto simp: entry_ok_def)

lemma check_keeps_ok:
  assumes "log_ok now (b, log)" and "now \<le> t" and "check_at b s t = (v, b')"
  shows "log_ok t (b', Checked s t v # log)"
proof -
  have times: "\<forall>ev\<in>set (Checked s t v # log). \<forall>u. event_time ev = Some u \<longrightarrow> u \<le> t"
    using assms(1,2) by (fastforce simp: log_ok_def)
  have old: "\<And>s'. case b s' of None \<Rightarrow> failures s' log = 0 | Some e \<Rightarrow> entry_ok log s' e"
    and sp: "spaced log"
    using assms(1) by (auto simp: log_ok_def)
  consider (same) "b' = b" "v \<noteq> AllowProbe"
    | (probe) e opened where "v = AllowProbe" "b s = Some e" "b' = b(s \<mapsto> e\<lparr>probe_started_at := Some t\<rparr>)"
        "opened_at e = Some opened" "opened + cooldown \<le> t"
        "\<forall>q. probe_started_at e = Some q \<longrightarrow> q + cooldown \<le> t"
    using check_at_cases [OF assms(3,1)] by blast
  then show ?thesis
  proof cases
    case same
    have "case b s' of None \<Rightarrow> failures s' (Checked s t v # log) = 0
            | Some e \<Rightarrow> entry_ok (Checked s t v # log) s' e" for s'
      using old [of s'] same(2) by (auto split: option.splits intro: entry_ok_other)
    then show ?thesis using times sp same by (simp add: log_ok_def spaced_Cons)
  next
    case probe
    have e: "entry_ok log s e" using old [of s] probe(2) by simp
    have here: "entry_ok (Checked s t v # log) s (e\<lparr>probe_started_at := Some t\<rparr>)"
      using e times probe(1) by (auto simp: entry_ok_def)
    have "case b' s' of None \<Rightarrow> failures s' (Checked s t v # log) = 0
            | Some e \<Rightarrow> entry_ok (Checked s t v # log) s' e" for s'
      using old [of s'] here probe(3) by (cases "s' = s") (auto split: option.splits intro: entry_ok_other)
    moreover have "u + cooldown \<le> t" if "Checked s u AllowProbe \<in> set log" for u
      using e that probe(4-6) by (fastforce simp: entry_ok_def)
    ultimately show ?thesis using times sp by (auto simp: log_ok_def spaced_Cons)
  qed
qed

lemma success_keeps_ok:
  assumes "log_ok now (b, log)"
  shows "log_ok now (record_success b s, Succeeded s # log)"
proof -
  have "case (record_success b s) s' of None \<Rightarrow> failures s' (Succeeded s # log) = 0
          | Some e \<Rightarrow> entry_ok (Succeeded s # log) s' e" for s'
    using log_ok_entry [OF assms, of s'] by (cases "s' = s")
      (auto simp: record_success_def split: option.splits intro: entry_ok_other)
  then show ?thesis using assms by (auto simp: log_ok_def spaced_Cons)
qed

lemma failure_entry_ok:
  assumes "case b s of None \<Rightarrow> failures s log = 0 | Some e \<Rightarrow> entry_ok log s e"
    and "\<And>p. Checked s p AllowProbe \<in> set log \<Longrightarrow> p \<le> t"
  obtains e where "record_failure_at b s t = b(s \<mapsto> e)" and "entry_ok (Failed s t # log) s e"
proof -
  define e0 where "e0 = (case b s of None \<Rightarrow> default_entry | Some e \<Rightarrow> e)"
  have e0: "unat (consecutive_failures e0) = min (failures s log) (2 ^ 32 - 1)"
    "opened_at e0 = None \<longleftrightarrow> failures s log < 3"
    "\<And>o'. opened_at e0 = Some o' \<Longrightarrow> Failed s o' \<in> set log"
    "\<And>p o'. Checked s p AllowProbe \<in> set log \<Longrightarrow> opened_at e0 = Some o' \<Longrightarrow>
       p \<le> o' \<or> (\<exists>q. probe_started_at e0 = Some q \<and> p \<le> q)"
    using assms(1) by (auto simp: e0_def default_entry_def entry_ok_def split: option.splits)
  define n where "n = saturating_inc (consecutive_failures e0)"
  have n: "unat n = min (Suc (failures s log)) (2 ^ 32 - 1)"
    unfolding n_def unat_saturating_inc e0(1) by simp
  then have open': "fail_threshold \<le> n \<longleftrightarrow> 3 \<le> Suc (failures s log)"
    using below_threshold [of n] by (auto simp: not_less)
  let ?e = "if fail_threshold \<le> n \<and> (opened_at e0 = None \<or> probe_started_at e0 \<noteq> None)
            then e0\<lparr>consecutive_failures := n, probe_started_at := None, opened_at := Some t\<rparr>
            else e0\<lparr>consecutive_failures := n, probe_started_at := None\<rparr>"
  have "record_failure_at b s t = b(s \<mapsto> ?e)"
    by (auto simp: record_failure_at_def Let_def n_def simp flip: e0_def)
  moreover have "entry_ok (Failed s t # log) s ?e"
    using n open' e0(2) e0(3) e0(4) assms(2) by (auto simp: entry_ok_def)
  ultimately show ?thesis by (rule that)
qed

lemma failure_keeps_ok:
  assumes "log_ok now (b, log)" and "now \<le> t"
  shows "log_ok t (record_failure_at b s t, Failed s t # log)"
proof -
  have old: "\<And>s'. case b s' of None \<Rightarrow> failures s' log = 0 | Some e \<Rightarrow> entry_ok log s' e"
    and times: "\<forall>ev\<in>set log. \<forall>u. event_time ev = Some u \<longrightarrow> u \<le> now"
    using assms(1) by (auto simp: log_ok_def)
  have "\<And>p. Checked s p AllowProbe \<in> set log \<Longrightarrow> p \<le> t"
    using times assms(2) by fastforce
  then obtain e where e: "record_failure_at b s t = b(s \<mapsto> e)" "entry_ok (Failed s t # log) s e"
    by (rule failure_entry_ok [where b = b and s = s, OF old])
  have "case (record_failure_at b s t) s' of None \<Rightarrow> failures s' (Failed s t # log) = 0
          | Some e \<Rightarrow> entry_ok (Failed s t # log) s' e" for s'
    using old [of s'] e by (cases "s' = s") (auto split: option.splits intro: entry_ok_other)
  then show ?thesis using assms times by (fastforce simp: log_ok_def spaced_Cons)
qed

lemma breaker_run_snoc: "breaker_run (calls @ [c]) = breaker_step (breaker_run calls) c"
  by (simp add: breaker_run_def)

lemma map_filter_snoc:
  "List.map_filter f (xs @ [x]) = List.map_filter f xs @ (case f x of None \<Rightarrow> [] | Some y \<Rightarrow> [y])"
  by (simp add: List.map_filter_def split: option.splits)

definition last_reading :: "call list \<Rightarrow> instant" where
  "last_reading calls = (let ts = List.map_filter call_time calls in if ts = [] then 0 else last ts)"

lemma breaker_run_ok: "clock_ok calls \<Longrightarrow> log_ok (last_reading calls) (breaker_run calls)"
proof (induction calls rule: rev_induct)
  case Nil
  then show ?case by (simp add: breaker_run_def log_ok_def spaced_def)
next
  case (snoc c calls)
  obtain b log where bl: "breaker_run calls = (b, log)" by force
  have ok: "log_ok (last_reading calls) (b, log)"
    using snoc by (auto simp: clock_ok_def map_filter_snoc sorted_append bl)
  show ?case
  proof (cases "call_time c")
    case None
    then obtain s where "c = Success s" by (cases c) auto
    then show ?thesis
      using success_keeps_ok [OF ok, of s]
      by (simp add: breaker_run_snoc bl last_reading_def map_filter_snoc)
  next
    case (Some t)
    have le: "last_reading calls \<le> t"
      using snoc.prems Some
      by (auto simp: clock_ok_def map_filter_snoc sorted_append last_reading_def Let_def)
    have "last_reading (calls @ [c]) = t"
      using Some by (simp add: last_reading_def map_filter_snoc)
    then show ?thesis
      using Some check_keeps_ok [OF ok le] failure_keeps_ok [OF ok le]
      by (cases c) (auto simp: breaker_run_snoc bl split: prod.splits)
  qed
qed

text \<open>What holds after the log holds of every part of it.\<close>

lemma log_suffix_run:
  "snd (breaker_run calls) = newer @ ev # older \<Longrightarrow>
   \<exists>before c after. calls = before @ c # after \<and> snd (breaker_run before) = older
     \<and> snd (breaker_run (before @ [c])) = ev # older"
proof (induction calls arbitrary: newer rule: rev_induct)
  case Nil
  then show ?case by (simp add: breaker_run_def)
next
  case (snoc c calls)
  obtain b log where bl: "breaker_run calls = (b, log)" by force
  then obtain ev' where ev': "snd (breaker_run (calls @ [c])) = ev' # log"
    by (cases c) (simp_all add: breaker_run_snoc split_beta)
  show ?case
  proof (cases newer)
    case Nil
    then have "ev' = ev" "log = older" using snoc.prems ev' by auto
    then have "calls @ [c] = calls @ c # [] \<and> snd (breaker_run calls) = older
      \<and> snd (breaker_run (calls @ [c])) = ev # older" using ev' bl by simp
    then show ?thesis by blast
  next
    case (Cons x newer')
    then have "snd (breaker_run calls) = newer' @ ev # older" using snoc.prems ev' bl by auto
    from snoc.IH [OF this] obtain before c' after where
      "calls = before @ c' # after" "snd (breaker_run before) = older"
      "snd (breaker_run (before @ [c'])) = ev # older" by blast
    then have "calls @ [c] = before @ c' # (after @ [c]) \<and> snd (breaker_run before) = older
      \<and> snd (breaker_run (before @ [c'])) = ev # older" by simp
    then show ?thesis by blast
  qed
qed

lemma clock_ok_prefix: "clock_ok (xs @ ys) \<Longrightarrow> clock_ok xs"
  by (auto simp: clock_ok_def List.map_filter_def sorted_append)

lemma logged_check:
  assumes "clock_ok calls" and "snd (breaker_run calls) = newer @ Checked s t v # older"
  obtains b b' now where "check_at b s t = (v, b')" and "log_ok now (b, older)"
proof -
  obtain before c after where c: "calls = before @ c # after" "snd (breaker_run before) = older"
    "snd (breaker_run (before @ [c])) = Checked s t v # older"
    using log_suffix_run [OF assms(2)] by blast
  obtain b where b: "breaker_run before = (b, older)" using c(2) by (cases "breaker_run before") auto
  have "c = Check s t" "\<exists>b'. check_at b s t = (v, b')"
    using c(3) b by (cases c; auto simp: breaker_run_snoc split: prod.splits)+
  then obtain b' where "check_at b s t = (v, b')" by blast
  moreover have "log_ok (last_reading before) (b, older)"
    using breaker_run_ok [of before] assms(1) c(1) b by (auto dest: clock_ok_prefix)
  ultimately show ?thesis by (rule that)
qed

end
