(* ===== verification/Guard_Turns.thy ===== *)
theory Guard_Turns
  imports Rust_Text
begin

section \<open>The bot turn tracker\<close>

text \<open>
  \<^verbatim>\<open>crates/openab-core/src/bot_turns.rs\<close>: two counters per thread against loops of bots that
  answer each other. The counters are \<^verbatim>\<open>u32\<close> and are incremented with \<open>+\<close>, which wraps in
  a release build (a debug build panics there instead).
\<close>

definition hard_bot_turn_limit :: u32 where
  "hard_bot_turn_limit = 1000"

text \<open>The warning sign U+26A0 U+FE0F and the stop sign U+1F6D1, as bytes.\<close>

definition bot_turn_limit_warning_prefix :: string where
  "bot_turn_limit_warning_prefix =
     [CHR 0xE2, CHR 0x9A, CHR 0xA0, CHR 0xEF, CHR 0xB8, CHR 0x8F] @ '' Bot turn limit reached''"

definition stop_sign :: string where
  "stop_sign = [CHR 0xF0, CHR 0x9F, CHR 0x9B, CHR 0x91]"

datatype turn_result = TurnOk | SoftLimit u32 | Throttled | HardLimit | Stopped

datatype turn_severity = Soft | Hard

datatype turn_action =
    Continue
  | WarnAndStop (severity: turn_severity) (turns: u32) (user_message: string)
  | SilentStop

record tracker =
  soft_limit :: u32
  counts :: "string \<rightharpoonup> u32 \<times> u32"

definition new_tracker :: "u32 \<Rightarrow> tracker" where
  "new_tracker soft = \<lparr>soft_limit = soft, counts = Map.empty\<rparr>"

definition on_bot_message :: "tracker \<Rightarrow> string \<Rightarrow> turn_result \<times> tracker" where
  "on_bot_message tr thread_id =
     (let (soft0, hard0) = (case counts tr thread_id of None \<Rightarrow> (0, 0) | Some c \<Rightarrow> c);
          soft = soft0 + 1;
          hard = hard0 + 1;
          result =
            (if hard_bot_turn_limit < hard then Stopped
             else if hard = hard_bot_turn_limit then HardLimit
             else if soft_limit tr < soft then Throttled
             else if soft = soft_limit tr then SoftLimit soft
             else TurnOk)
      in (result, tr\<lparr>counts := (counts tr)(thread_id \<mapsto> (soft, hard))\<rparr>))"

definition on_human_message :: "tracker \<Rightarrow> string \<Rightarrow> tracker" where
  "on_human_message tr thread_id =
     (case counts tr thread_id of
        None \<Rightarrow> tr
      | Some _ \<Rightarrow> tr\<lparr>counts := (counts tr)(thread_id \<mapsto> (0, 0))\<rparr>)"

definition soft_message :: "u32 \<Rightarrow> u32 \<Rightarrow> string" where
  "soft_message n soft =
     bot_turn_limit_warning_prefix @ '' ('' @ word_str n @ ''/'' @ word_str soft @
     ''). A human must reply in this thread to continue bot-to-bot conversation.''"

definition hard_message :: string where
  "hard_message = stop_sign @ '' Hard bot turn limit reached ('' @ word_str hard_bot_turn_limit @
     ''). A human must reply to continue.''"

definition classify_bot_message :: "tracker \<Rightarrow> string \<Rightarrow> turn_action \<times> tracker" where
  "classify_bot_message tr thread_id =
     (case on_bot_message tr thread_id of
        (TurnOk, tr') \<Rightarrow> (Continue, tr')
      | (SoftLimit n, tr') \<Rightarrow> (WarnAndStop Soft n (soft_message n (soft_limit tr)), tr')
      | (HardLimit, tr') \<Rightarrow> (WarnAndStop Hard hard_bot_turn_limit hard_message, tr')
      | (Throttled, tr') \<Rightarrow> (SilentStop, tr')
      | (Stopped, tr') \<Rightarrow> (SilentStop, tr'))"

subsection \<open>Messages of a thread\<close>

datatype turn_message = BotMessage string | HumanMessage string

fun turn_step :: "tracker \<Rightarrow> turn_message \<Rightarrow> (string \<times> turn_action) list \<times> tracker" where
  "turn_step tr (BotMessage th) = (let (a, tr') = classify_bot_message tr th in ([(th, a)], tr'))"
| "turn_step tr (HumanMessage th) = ([], on_human_message tr th)"

text \<open>The actions in order, each with its thread, and the tracker after the messages.\<close>

fun turn_run :: "tracker \<Rightarrow> turn_message list \<Rightarrow> (string \<times> turn_action) list \<times> tracker" where
  "turn_run tr [] = ([], tr)"
| "turn_run tr (m # ms) =
     (let (a, tr') = turn_step tr m; (as, tr'') = turn_run tr' ms in (a @ as, tr''))"

text \<open>The bot messages of a thread since its last human message.\<close>

fun bot_streak :: "string \<Rightarrow> nat \<Rightarrow> turn_message list \<Rightarrow> nat" where
  "bot_streak th n [] = n"
| "bot_streak th n (BotMessage th' # ms) = bot_streak th (if th' = th then Suc n else n) ms"
| "bot_streak th n (HumanMessage th' # ms) = bot_streak th (if th' = th then 0 else n) ms"

definition actions_in :: "string \<Rightarrow> (string \<times> turn_action) list \<Rightarrow> turn_action list" where
  "actions_in th as = map snd (filter (\<lambda>a. fst a = th) as)"

text \<open>The action for the \<open>k\<close>-th bot message in a row.\<close>

definition action_at :: "u32 \<Rightarrow> nat \<Rightarrow> turn_action" where
  "action_at soft k =
     (if k = 1000 then WarnAndStop Hard hard_bot_turn_limit hard_message
      else if 1000 < k \<or> unat soft < k then SilentStop
      else if k = unat soft then WarnAndStop Soft soft (soft_message soft soft)
      else Continue)"

definition counter :: "tracker \<Rightarrow> string \<Rightarrow> u32 \<times> u32" where
  "counter tr th = (case counts tr th of None \<Rightarrow> (0, 0) | Some c \<Rightarrow> c)"

lemma on_bot_message_counter:
  "counter (snd (on_bot_message tr th)) th' =
     (if th' = th then (1 + fst (counter tr th), 1 + snd (counter tr th)) else counter tr th')"
  by (auto simp: add.commute on_bot_message_def counter_def Let_def split: prod.splits)

lemma classify_tracker: "snd (classify_bot_message tr th) = snd (on_bot_message tr th)"
  by (simp add: classify_bot_message_def split: prod.splits turn_result.splits)

lemma classify_limit: "soft_limit (snd (classify_bot_message tr th)) = soft_limit tr"
  by (simp add: classify_tracker on_bot_message_def Let_def split_beta)

lemma human_counter:
  "counter (on_human_message tr th) th' = (if th' = th then (0, 0) else counter tr th')"
  by (auto simp: on_human_message_def counter_def split: option.splits)

lemma human_limit [simp]: "soft_limit (on_human_message tr th) = soft_limit tr"
  by (simp add: on_human_message_def split: option.splits)

lemma classify_action:
  assumes "counter tr th = (of_nat n, of_nat n)" and "Suc n < 2 ^ 32"
  shows "fst (classify_bot_message tr th) = action_at (soft_limit tr) (Suc n)"
proof -
  define k :: u32 where "k = 1 + of_nat n"
  have unat_k: "unat k = Suc n"
    using assms(2) by (simp add: k_def unat_of_nat take_bit_eq_mod flip: of_nat_Suc)
  have "unat hard_bot_turn_limit = 1000" by (simp add: hard_bot_turn_limit_def)
  then have "hard_bot_turn_limit < k \<longleftrightarrow> 1000 < Suc n" "k = hard_bot_turn_limit \<longleftrightarrow> Suc n = 1000"
    "soft_limit tr < k \<longleftrightarrow> unat (soft_limit tr) < Suc n" "k = soft_limit tr \<longleftrightarrow> Suc n = unat (soft_limit tr)"
    unfolding word_less_nat_alt word_unat_eq_iff unat_k by simp_all
  moreover have "fst (on_bot_message tr th) =
     (if hard_bot_turn_limit < k then Stopped else if k = hard_bot_turn_limit then HardLimit
      else if soft_limit tr < k then Throttled else if k = soft_limit tr then SoftLimit k else TurnOk)"
    using assms(1) by (simp add: on_bot_message_def counter_def Let_def add.commute k_def)
  ultimately show ?thesis
    by (auto simp: classify_bot_message_def action_at_def split_beta)
qed

lemma turn_step_facts:
  "soft_limit (snd (turn_step tr m)) = soft_limit tr"
  "counter tr th = (of_nat n, of_nat n) \<Longrightarrow>
   counter (snd (turn_step tr m)) th = (of_nat (bot_streak th n [m]), of_nat (bot_streak th n [m]))"
  by (cases m; simp add: split_beta classify_limit; fail)
     (cases m; auto simp: split_beta classify_tracker on_bot_message_counter human_counter)

lemma bot_streak_Cons: "bot_streak th n (m # ms) = bot_streak th (bot_streak th n [m]) ms"
  by (cases m) simp_all

lemma bot_streak_append: "bot_streak th n (xs @ ys) = bot_streak th (bot_streak th n xs) ys"
  by (induction th n xs rule: bot_streak.induct) simp_all

lemma turn_run_Cons:
  "fst (turn_run tr (m # ms)) = fst (turn_step tr m) @ fst (turn_run (snd (turn_step tr m)) ms)"
  "snd (turn_run tr (m # ms)) = snd (turn_run (snd (turn_step tr m)) ms)"
  by (simp_all add: split_beta)

lemma turn_run_counter:
  "counter tr th = (of_nat n, of_nat n) \<Longrightarrow>
   counter (snd (turn_run tr ms)) th = (of_nat (bot_streak th n ms), of_nat (bot_streak th n ms))
   \<and> soft_limit (snd (turn_run tr ms)) = soft_limit tr"
proof (induction ms arbitrary: tr n)
  case Nil
  then show ?case by simp
next
  case (Cons m ms)
  then show ?case
    using Cons.IH [OF turn_step_facts(2) [OF Cons.prems]]
    by (simp add: turn_run_Cons bot_streak_Cons [of th n m ms] turn_step_facts(1) del: turn_run.simps)
qed

lemma bot_streak_mono: "HumanMessage th \<notin> set ms \<Longrightarrow> n \<le> bot_streak th n ms"
  by (induction th n ms rule: bot_streak.induct) (auto split: if_splits)

lemma turn_run_actions:
  "counter tr th = (of_nat n, of_nat n) \<Longrightarrow> HumanMessage th \<notin> set ms \<Longrightarrow>
   bot_streak th n ms < 2 ^ 32 \<Longrightarrow>
   actions_in th (fst (turn_run tr ms)) = map (action_at (soft_limit tr)) [Suc n ..< Suc (bot_streak th n ms)]"
proof (induction ms arbitrary: tr n)
  case Nil
  then show ?case by (simp add: actions_in_def)
next
  case (Cons m ms)
  let ?n = "bot_streak th n [m]"
  have rest: "actions_in th (fst (turn_run (snd (turn_step tr m)) ms)) =
      map (action_at (soft_limit tr)) [Suc ?n ..< Suc (bot_streak th n (m # ms))]"
    using Cons.IH [OF turn_step_facts(2) [OF Cons.prems(1)]] Cons.prems(2,3)
    by (simp add: turn_step_facts(1) bot_streak_Cons [of th n m ms] del: upt_Suc)
  have le: "?n \<le> bot_streak th n (m # ms)"
    using bot_streak_mono [of th ms ?n] Cons.prems(2) by (simp add: bot_streak_Cons [of th n m ms])
  have first: "actions_in th (fst (turn_step tr m)) =
      map (action_at (soft_limit tr)) [Suc n ..< Suc ?n]"
  proof (cases m)
    case (BotMessage th')
    have "Suc n < 2 ^ 32" if "th' = th" using le Cons.prems(3) that BotMessage by simp
    then show ?thesis
      using classify_action [OF Cons.prems(1)] BotMessage
      by (auto simp: actions_in_def split_beta)
  next
    case (HumanMessage th')
    then show ?thesis using Cons.prems(2) by (auto simp: actions_in_def)
  qed
  have "n \<le> ?n" using bot_streak_mono [of th "[m]" n] Cons.prems(2) by simp
  then have "[Suc n ..< Suc (bot_streak th n (m # ms))] =
      [Suc n ..< Suc ?n] @ [Suc ?n ..< Suc (bot_streak th n (m # ms))]"
    using le upt_add_eq_append [of "Suc n" "Suc ?n" "bot_streak th n (m # ms) - ?n"] by simp
  then show ?case
    using first rest by (simp add: turn_run_Cons actions_in_def del: turn_run.simps upt_Suc)
qed

subsection \<open>Counting the actions\<close>

definition is_warning :: "turn_action \<Rightarrow> bool" where
  "is_warning a = (case a of WarnAndStop _ _ _ \<Rightarrow> True | _ \<Rightarrow> False)"

lemma filter_upt_subset: "set (filter P [i ..< j]) \<subseteq> S \<Longrightarrow> finite S \<Longrightarrow> length (filter P [i ..< j]) \<le> card S"
  by (metis card_mono distinct_card distinct_filter distinct_upt)

lemma actions_bounded:
  "length (filter (\<lambda>a. a = Continue) (map (action_at soft) [Suc n ..< m])) \<le> min (unat soft) 1000 - 1"
  "length (filter is_warning (map (action_at soft) [Suc n ..< m])) \<le> 2"
proof -
  have "length (filter (\<lambda>k. action_at soft k = Continue) [Suc n ..< m]) \<le> card {1 ..< min (unat soft) 1000}"
    by (rule filter_upt_subset) (auto simp: action_at_def split: if_splits)
  then show "length (filter (\<lambda>a. a = Continue) (map (action_at soft) [Suc n ..< m])) \<le> min (unat soft) 1000 - 1"
    by (simp add: filter_map comp_def)
  have "length (filter (\<lambda>k. is_warning (action_at soft k)) [Suc n ..< m]) \<le> card {unat soft, 1000}"
    by (rule filter_upt_subset) (auto simp: action_at_def is_warning_def split: if_splits)
  also have "\<dots> \<le> 2" by (simp add: card_insert_if)
  finally show "length (filter is_warning (map (action_at soft) [Suc n ..< m])) \<le> 2"
    by (simp add: filter_map comp_def)
qed

lemma new_tracker_counter [simp]: "counter (new_tracker soft) th = (of_nat 0, of_nat 0)"
  by (simp add: new_tracker_def counter_def)

lemma new_tracker_limit [simp]: "soft_limit (new_tracker soft) = soft"
  by (simp add: new_tracker_def)

end
