(* ===== verification/Guard_Trust.thy ===== *)
theory Guard_Trust
  imports Rust_Text
begin

section \<open>The trust gate\<close>

text \<open>
  \<^verbatim>\<open>crates/openab-core/src/trust.rs\<close>: which conversations (L2) and which people (L3) the
  bot answers, per platform, and where the daemon may write. Lower-casing a platform name
  needs the Unicode tables outside ASCII, which are the argument \<open>lower\<close>.
\<close>

datatype trust_decision = Allowed | DenyScope | DenyIdentity

definition should_echo :: "trust_decision \<Rightarrow> bool" where
  "should_echo d = (case d of DenyIdentity \<Rightarrow> True | _ \<Rightarrow> False)"

definition is_allowed :: "trust_decision \<Rightarrow> bool" where
  "is_allowed d = (case d of Allowed \<Rightarrow> True | _ \<Rightarrow> False)"

definition l3_gate_applies :: "bool \<Rightarrow> bool" where
  "l3_gate_applies is_bot = (\<not> is_bot)"

record trust_config =
  allow_all_channels :: bool
  allowed_channels :: "string set"
  allow_dm :: bool
  allow_all_users :: bool
  allowed_users :: "string set"

definition default_trust :: trust_config where
  "default_trust = \<lparr>allow_all_channels = True, allowed_channels = {}, allow_dm = True,
     allow_all_users = False, allowed_users = {}\<rparr>"

definition unwrap_or :: "'a option \<Rightarrow> 'a \<Rightarrow> 'a" where
  "unwrap_or x d = (case x of None \<Rightarrow> d | Some v \<Rightarrow> v)"

definition new_trust ::
  "bool option \<Rightarrow> string list \<Rightarrow> bool option \<Rightarrow> bool option \<Rightarrow> string list \<Rightarrow> trust_config" where
  "new_trust all_channels channels dm all_users users =
     \<lparr>allow_all_channels = unwrap_or all_channels True, allowed_channels = set channels,
      allow_dm = unwrap_or dm True, allow_all_users = unwrap_or all_users False,
      allowed_users = set users\<rparr>"

definition surface_allowed :: "trust_config \<Rightarrow> string \<Rightarrow> bool \<Rightarrow> bool" where
  "surface_allowed c channel_id is_dm =
     (if is_dm then allow_dm c
      else allow_all_channels c \<or> channel_id \<in> allowed_channels c)"

definition surface_allowed_with_parent ::
  "trust_config \<Rightarrow> string \<Rightarrow> string option \<Rightarrow> bool \<Rightarrow> bool" where
  "surface_allowed_with_parent c channel_id parent_id is_dm =
     (if is_dm then allow_dm c
      else allow_all_channels c \<or> channel_id \<in> allowed_channels c
           \<or> (case parent_id of None \<Rightarrow> False | Some p \<Rightarrow> p \<in> allowed_channels c))"

definition identity_allowed :: "trust_config \<Rightarrow> string \<Rightarrow> bool" where
  "identity_allowed c sender_id =
     (if sender_id = [] then False else allow_all_users c \<or> sender_id \<in> allowed_users c)"

definition decide :: "trust_config \<Rightarrow> string \<Rightarrow> bool \<Rightarrow> string \<Rightarrow> trust_decision" where
  "decide c channel_id is_dm sender_id =
     (if \<not> surface_allowed c channel_id is_dm then DenyScope
      else if \<not> identity_allowed c sender_id then DenyIdentity
      else Allowed)"

definition decide_with_parent ::
  "trust_config \<Rightarrow> string \<Rightarrow> string option \<Rightarrow> bool \<Rightarrow> string \<Rightarrow> trust_decision" where
  "decide_with_parent c channel_id parent_id is_dm sender_id =
     (if \<not> surface_allowed_with_parent c channel_id parent_id is_dm then DenyScope
      else if \<not> identity_allowed c sender_id then DenyIdentity
      else Allowed)"

subsection \<open>The registry of platforms\<close>

record trust_registry =
  trust_map :: "string \<rightharpoonup> trust_config"
  trust_default :: trust_config

definition new_registry :: trust_registry where
  "new_registry = \<lparr>trust_map = Map.empty, trust_default = default_trust\<rparr>"

definition insert_platform ::
  "(string \<Rightarrow> string) \<Rightarrow> trust_registry \<Rightarrow> string \<Rightarrow> trust_config \<Rightarrow> trust_registry" where
  "insert_platform lower r platform c =
     r\<lparr>trust_map := (trust_map r)(to_lowercase lower platform \<mapsto> c)\<rparr>"

definition get_platform :: "(string \<Rightarrow> string) \<Rightarrow> trust_registry \<Rightarrow> string \<Rightarrow> trust_config" where
  "get_platform lower r platform =
     (case trust_map r (to_lowercase lower platform) of
        None \<Rightarrow> trust_default r
      | Some c \<Rightarrow> c)"

definition registry_decide ::
  "(string \<Rightarrow> string) \<Rightarrow> trust_registry \<Rightarrow> string \<Rightarrow> string \<Rightarrow> bool \<Rightarrow> string \<Rightarrow> trust_decision" where
  "registry_decide lower r platform channel_id is_dm sender_id =
     decide (get_platform lower r platform) channel_id is_dm sender_id"

definition registry_decide_with_parent ::
  "(string \<Rightarrow> string) \<Rightarrow> trust_registry \<Rightarrow> string \<Rightarrow> string \<Rightarrow> string option \<Rightarrow> bool \<Rightarrow> string \<Rightarrow>
   trust_decision" where
  "registry_decide_with_parent lower r platform channel_id parent_id is_dm sender_id =
     decide_with_parent (get_platform lower r platform) channel_id parent_id is_dm sender_id"

definition surface_allowed_for_outbound ::
  "(string \<Rightarrow> string) \<Rightarrow> trust_registry \<Rightarrow> string \<Rightarrow> string \<Rightarrow> bool" where
  "surface_allowed_for_outbound lower r platform channel_id =
     surface_allowed (get_platform lower r platform) channel_id False"

definition authorize_outbound_channel ::
  "(string \<Rightarrow> string) \<Rightarrow> trust_registry \<Rightarrow> string \<Rightarrow> string \<Rightarrow> bool" where
  "authorize_outbound_channel lower r platform channel_id =
     (case trust_map r (to_lowercase lower platform) of
        None \<Rightarrow> False
      | Some c \<Rightarrow> surface_allowed c channel_id False)"

definition authorize_outbound_channel_with_parent ::
  "(string \<Rightarrow> string) \<Rightarrow> trust_registry \<Rightarrow> string \<Rightarrow> string \<Rightarrow> string option \<Rightarrow> bool" where
  "authorize_outbound_channel_with_parent lower r platform channel_id parent_id =
     (case trust_map r (to_lowercase lower platform) of
        None \<Rightarrow> False
      | Some c \<Rightarrow> surface_allowed_with_parent c channel_id parent_id False)"

subsection \<open>Registries as they are configured\<close>

definition configured :: "(string \<Rightarrow> string) \<Rightarrow> (string \<times> trust_config) list \<Rightarrow> trust_registry" where
  "configured lower cs = foldl (\<lambda>r (platform, c). insert_platform lower r platform c) new_registry cs"

text \<open>The last configuration under a name that differs in case only.\<close>

definition config_for ::
  "(string \<Rightarrow> string) \<Rightarrow> (string \<times> trust_config) list \<Rightarrow> string \<Rightarrow> trust_config option" where
  "config_for lower cs platform =
     map_option snd (List.find (\<lambda>(p, c). to_lowercase lower p = to_lowercase lower platform) (rev cs))"

lemma configured_default [simp]: "trust_default (configured lower cs) = default_trust"
  by (induction cs rule: rev_induct)
     (auto simp: configured_def new_registry_def insert_platform_def)

lemma configured_map:
  "trust_map (configured lower cs) (to_lowercase lower platform) = config_for lower cs platform"
  by (induction cs rule: rev_induct)
     (auto simp: configured_def new_registry_def insert_platform_def config_for_def)

lemma parent_None [simp]: "decide_with_parent c ch None dm sender = decide c ch dm sender"
  by (simp add: decide_with_parent_def decide_def surface_allowed_with_parent_def surface_allowed_def)

lemma decide_with_parent_allowed:
  "decide_with_parent c ch parent dm sender = Allowed \<longleftrightarrow>
     sender \<noteq> [] \<and> (allow_all_users c \<or> sender \<in> allowed_users c)
     \<and> (if dm then allow_dm c
        else allow_all_channels c \<or> ch \<in> allowed_channels c
             \<or> (\<exists>p. parent = Some p \<and> p \<in> allowed_channels c))"
  by (auto simp: decide_with_parent_def surface_allowed_with_parent_def identity_allowed_def
      split: option.splits)

end
