(* ===== verification/Guard_Properties.thy ===== *)
theory Guard_Properties
  imports Guard_Breaker Guard_Turns Guard_Trust
begin

section \<open>Properties of the guards\<close>

text \<open>
  What the circuit breaker, the bot turn tracker and the trust gate promise, with concrete
  runs as witnesses.
\<close>




text \<open>While no human writes in a thread, and for fewer than \<open>2 ^ 32\<close> bot messages, the
  actions for the bot messages of the thread are those of their position in the row since the
  last human message; so at most \<open>min soft 1000 - 1\<close> of them are let through and at most two
  are answered with a warning, whatever happens in other threads.\<close>

theorem bot_loop_is_stopped:
  assumes "HumanMessage th \<notin> set ms" and "bot_streak th 0 (before @ ms) < 2 ^ 32"
  shows "(let tr = snd (turn_run (new_tracker soft) before);
              n = bot_streak th 0 before;
              actions = actions_in th (fst (turn_run tr ms))
          in actions = map (action_at soft) [Suc n ..< Suc (bot_streak th n ms)]
             \<and> length (filter (\<lambda>a. a = Continue) actions) \<le> min (unat soft) 1000 - 1
             \<and> length (filter is_warning actions) \<le> 2)"
proof -
  let ?tr = "snd (turn_run (new_tracker soft) before)" and ?n = "bot_streak th 0 before"
  have streak: "bot_streak th 0 (before @ ms) = bot_streak th ?n ms"
    by (rule bot_streak_append)
  have start: "counter ?tr th = (of_nat ?n, of_nat ?n)" "soft_limit ?tr = soft"
    using turn_run_counter [of "new_tracker soft" th 0 before] by simp_all
  have "actions_in th (fst (turn_run ?tr ms)) = map (action_at soft) [Suc ?n ..< Suc (bot_streak th ?n ms)]"
    using turn_run_actions [OF start(1) assms(1)] assms(2) start(2) by (simp add: streak)
  then show ?thesis
    using actions_bounded [of soft ?n "Suc (bot_streak th ?n ms)"] unfolding Let_def by (simp only:)
qed

theorem bot_loop_is_stopped_witness:
  "length (filter is_warning (actions_in ''t''
     (fst (turn_run (snd (turn_run (new_tracker 2) [BotMessage ''t'', HumanMessage ''t'']))
       [BotMessage ''t'', BotMessage ''u'', BotMessage ''t'', BotMessage ''t''])))) \<le> 2"
proof -
  let ?ms = "[BotMessage ''t'', BotMessage ''u'', BotMessage ''t'', BotMessage ''t'']"
  let ?before = "[BotMessage ''t'', HumanMessage ''t'']"
  have "HumanMessage ''t'' \<notin> set ?ms" "bot_streak ''t'' 0 (?before @ ?ms) < 2 ^ 32" by simp_all
  from bot_loop_is_stopped [OF this, of 2] show ?thesis unfolding Let_def by blast
qed

text \<open>A message is let in exactly when its sender has an id that is trusted on that platform
  and the conversation, or its parent, is in scope there; the configuration is the last one
  given for the platform, whatever the case of its name. On a platform without configuration
  nobody is let in and nothing may be written, and for writing the scope alone decides.\<close>

theorem trust_gate_exact:
  "(registry_decide_with_parent lower (configured lower cs) platform ch parent dm sender = Allowed \<longleftrightarrow>
      (\<exists>c. config_for lower cs platform = Some c \<and> sender \<noteq> []
         \<and> (allow_all_users c \<or> sender \<in> allowed_users c)
         \<and> (if dm then allow_dm c
            else allow_all_channels c \<or> ch \<in> allowed_channels c
                 \<or> (\<exists>p. parent = Some p \<and> p \<in> allowed_channels c))))
   \<and> (authorize_outbound_channel_with_parent lower (configured lower cs) platform ch parent \<longleftrightarrow>
      (\<exists>c. config_for lower cs platform = Some c
         \<and> (allow_all_channels c \<or> ch \<in> allowed_channels c
            \<or> (\<exists>p. parent = Some p \<and> p \<in> allowed_channels c))))
   \<and> registry_decide lower (configured lower cs) platform ch dm sender
      = registry_decide_with_parent lower (configured lower cs) platform ch None dm sender
   \<and> authorize_outbound_channel lower (configured lower cs) platform ch
      = authorize_outbound_channel_with_parent lower (configured lower cs) platform ch None"
  by (auto simp: registry_decide_with_parent_def registry_decide_def get_platform_def configured_map
      decide_with_parent_allowed default_trust_def authorize_outbound_channel_with_parent_def
      authorize_outbound_channel_def surface_allowed_with_parent_def surface_allowed_def
      split: option.splits)

end
