(* ===== verification/Dispatch_Message.thy ===== *)
theory Dispatch_Message
  imports Host
begin

section \<open>Messages for an agent\<close>

text \<open>
  The metadata of native work and \<^verbatim>\<open>BufferedMessage\<close> of \<^verbatim>\<open>crates/openab-core/src/dispatch.rs\<close>, the unit the admission
  port hands to the dispatcher and the dispatcher buffers, with the keys of conversations.
  The chat adapter that comes along with a message is a handle for output and is left out.
\<close>

subsection \<open>The metadata of a native dispatch\<close>

text \<open>
  The trusted side of a native turn, from \<^verbatim>\<open>crates/openab-core/src/admission.rs\<close>: the
  metadata of one dispatch and its scope policy. A \<^verbatim>\<open>ChannelRef\<close> is the record of theory
  \<^verbatim>\<open>Host\<close>.
\<close>

record native_scope_policy =
  scope_mode :: string
  write_policy :: string
  historical_context_policy :: string

definition READ_ONLY :: string where "READ_ONLY = ''READ_ONLY''"

definition MODIFY_ALLOWED :: string where "MODIFY_ALLOWED = ''MODIFY_ALLOWED''"

definition is_read_only :: "native_scope_policy \<Rightarrow> bool" where
  "is_read_only p = (write_policy p = READ_ONLY)"

definition default_scope_policy :: native_scope_policy where
  "default_scope_policy = \<lparr>scope_mode = ''BOUNDED'', write_policy = MODIFY_ALLOWED,
     historical_context_policy = ''ADVISORY_ONLY''\<rparr>"

record native_metadata =
  nm_dispatch_id :: string
  nm_conversation_key :: string
  nm_workflow_run_id :: string
  nm_task_id :: string
  nm_role :: string
  nm_agent :: string
  nm_lease_id :: string
  nm_lease_generation :: u64
  nm_expected_revision :: u64
  nm_language :: "string option"
  nm_project_id :: "string option"
  nm_project_root :: "string option"
  nm_native_execution_session_key :: "string option"
  nm_transport :: "string option"
  nm_delivery_destination :: "channel_ref option"
  nm_scope_policy :: "native_scope_policy option"

subsection \<open>Messages\<close>

datatype content_block = TextBlock string | ImageBlock string string

record message_ref =
  mr_channel :: channel_ref
  mr_message_id :: string

record buffered_message =
  bm_sender_json :: string
  bm_sender_name :: string
  bm_prompt :: string
  bm_extra_blocks :: "content_block list"
  bm_trigger_msg :: message_ref
  bm_arrived_at :: int
  bm_estimated_tokens :: nat
  bm_other_bot_present :: bool
  bm_recipient :: "(string \<times> string) option"
  bm_native_workflow :: "native_metadata option"
  bm_text_attachments :: "(string \<times> string) list"
  bm_sender_is_bot :: bool

subsection \<open>Keys\<close>

datatype batch_grouping = ThreadGrouping | LaneGrouping

definition session_pool_key :: "channel_ref \<Rightarrow> string" where
  "session_pool_key c =
     cr_platform c @ '':'' @ (case cr_thread_id c of None \<Rightarrow> cr_channel_id c | Some t \<Rightarrow> t)"

definition dispatcher_key :: "batch_grouping \<Rightarrow> string \<Rightarrow> string \<Rightarrow> string \<Rightarrow> string" where
  "dispatcher_key g platform thread_id sender_id =
     (case g of
        ThreadGrouping \<Rightarrow> platform @ '':'' @ thread_id
      | LaneGrouping \<Rightarrow> platform @ '':'' @ thread_id @ '':'' @ sender_id)"

definition native_dispatch_key_prefix :: string where
  "native_dispatch_key_prefix = ''native-dispatch:''"

definition format_native_dispatch_key :: "string \<Rightarrow> string \<Rightarrow> string" where
  "format_native_dispatch_key agent dispatch_id = native_dispatch_key_prefix @ agent @ '':'' @ dispatch_id"

subsection \<open>Token estimates\<close>

definition chars_per_token_estimate :: nat where "chars_per_token_estimate = 4"

definition tokens_per_image_estimate :: nat where "tokens_per_image_estimate = 512"

definition block_tokens :: "content_block \<Rightarrow> nat" where
  "block_tokens b =
     (case b of
        TextBlock txt \<Rightarrow> length txt div chars_per_token_estimate + 1
      | ImageBlock _ _ \<Rightarrow> tokens_per_image_estimate)"

definition estimate_tokens :: "string \<Rightarrow> content_block list \<Rightarrow> nat" where
  "estimate_tokens prompt blocks =
     length prompt div chars_per_token_estimate + 1 + sum_list (map block_tokens blocks)"

end
