(* ===== verification/Native_Blocks.thy ===== *)
theory Native_Blocks
  imports Dispatch_Message
begin

section \<open>Native completion blocks\<close>

text \<open>
  \<^verbatim>\<open>crates/openab-core/src/role_completion_block.rs\<close>: the parser between the text of an
  agent and the native completion event. Unlike the parser of \<^verbatim>\<open>workflow/completion.rs\<close>
  it wants each marker exactly once and on a line of its own, knows no optional field and
  does not fold the case of keys. The reader of JSON text is the argument \<open>read_defect\<close>,
  whose left result is the text of its error.
\<close>

definition role_opening :: string where "role_opening = ''<role_completion>''"

definition role_closing :: string where "role_closing = ''</role_completion>''"

definition defect_opening :: string where "defect_opening = ''<verifier_defect>''"

definition defect_closing :: string where "defect_closing = ''</verifier_defect>''"

definition summary_max_chars :: nat where "summary_max_chars = 2000"

definition correction_spec_max_chars :: nat where "correction_spec_max_chars = 8000"

definition evidence_max_items :: nat where "evidence_max_items = 32"

definition evidence_item_max_chars :: nat where "evidence_item_max_chars = 512"

text \<open>The lines that consist of a marker, white space around it aside.\<close>

definition marker_lines :: "string \<Rightarrow> string \<Rightarrow> nat" where
  "marker_lines marker txt = length (filter (\<lambda>line. trim line = marker) (str_lines txt))"

subsection \<open>Completion claims\<close>

record native_claim =
  nc_role :: string
  nc_result :: string
  nc_workflow_id :: string
  nc_project_id :: string
  nc_project_root :: string

datatype native_parse =
    NativeNoClaim
  | NativeClaim native_claim
  | NativeAmbiguous
  | NativeMalformed message

definition native_required_fields :: "string list" where
  "native_required_fields = [''role'', ''result'', ''workflow_id'', ''project_id'', ''project_root'']"

fun native_fields_from :: "string list \<Rightarrow> (string \<times> string) list \<Rightarrow> message + (string \<times> string) list" where
  "native_fields_from [] kvs = Inr kvs"
| "native_fields_from (raw_line # rest) kvs =
     (let line = trim raw_line
      in if line = [] then native_fields_from rest kvs
         else case split_once (CHR '':'') line of
                None \<Rightarrow> Inl [Lit ''invalid line '', Dbg line]
              | Some (raw_key, v) \<Rightarrow>
                  if has_ws raw_key then Inl [Lit ''whitespace in key '', Dbg raw_key]
                  else (let key = trim raw_key; value = trim v
                        in if key = [] then Inl [Lit ''empty key in line '', Dbg raw_line]
                           else if key \<notin> set native_required_fields then Inl [Lit ''unknown field '', Dbg key]
                           else if map_of kvs key \<noteq> None then Inl [Lit ''duplicate key '', Dbg key]
                           else native_fields_from rest (kvs @ [(key, value)])))"

definition native_block_fields :: "string \<Rightarrow> message + (string \<times> string) list" where
  "native_block_fields body = native_fields_from (str_lines body) []"

fun native_check_required :: "string list \<Rightarrow> (string \<times> string) list \<Rightarrow> message option" where
  "native_check_required [] kvs = None"
| "native_check_required (f # fs) kvs =
     (case map_of kvs f of
        Some v \<Rightarrow> if v \<noteq> [] then native_check_required fs kvs
                  else Some [Lit ''required field '', Dbg f, Lit '' is empty'']
      | None \<Rightarrow> Some [Lit ''missing required field '', Dbg f])"

definition is_canonical_role :: "string \<Rightarrow> bool" where
  "is_canonical_role role = (role \<in> {''PRIMARY'', ''VERIFIER'', ''FINAL_REVIEWER''})"

definition is_canonical_result :: "string \<Rightarrow> bool" where
  "is_canonical_result res = (res \<in> {''COMPLETE'', ''PASS'', ''FAIL''})"

text \<open>\<^verbatim>\<open>fields.get(f).unwrap()\<close> behind the check of the required fields, which makes it safe.\<close>

definition native_field :: "(string \<times> string) list \<Rightarrow> string \<Rightarrow> string" where
  "native_field kvs f = (case map_of kvs f of Some v \<Rightarrow> v | None \<Rightarrow> [])"

definition native_single_block :: "string \<Rightarrow> native_parse" where
  "native_single_block body =
     (case native_block_fields body of
        Inl reason \<Rightarrow> NativeMalformed reason
      | Inr kvs \<Rightarrow>
          (case native_check_required native_required_fields kvs of
             Some reason \<Rightarrow> NativeMalformed reason
           | None \<Rightarrow>
               (let role = native_field kvs ''role''; res = native_field kvs ''result''
                in if \<not> is_canonical_role role then NativeMalformed [Lit ''invalid role '', Dbg role]
                   else if \<not> is_canonical_result res then NativeMalformed [Lit ''invalid result '', Dbg res]
                   else NativeClaim
                          \<lparr>nc_role = role, nc_result = res,
                           nc_workflow_id = native_field kvs ''workflow_id'',
                           nc_project_id = native_field kvs ''project_id'',
                           nc_project_root = native_field kvs ''project_root''\<rparr>)))"

definition parse_role_completion_block :: "string \<Rightarrow> native_parse" where
  "parse_role_completion_block txt =
     (let opening_count = count_matches role_opening txt;
          closing_count = count_matches role_closing txt;
          opening_line_count = marker_lines role_opening txt;
          closing_line_count = marker_lines role_closing txt
      in if opening_count = 0 \<and> closing_count = 0 then NativeNoClaim
         else if opening_count \<noteq> 1 \<or> closing_count \<noteq> 1 \<or> opening_line_count \<noteq> 1 \<or> closing_line_count \<noteq> 1
         then (if 1 < opening_count \<and> 1 < closing_count \<and> opening_count = closing_count
                  \<and> opening_line_count = opening_count \<and> closing_line_count = closing_count
               then NativeAmbiguous
               else NativeMalformed
                      [Lit ''invalid role_completion marker structure: opening='', Disp (dec opening_count),
                       Lit '' closing='', Disp (dec closing_count),
                       Lit '' opening_lines='', Disp (dec opening_line_count),
                       Lit '' closing_lines='', Disp (dec closing_line_count)])
         else (case captures role_opening role_closing txt of
                 [body] \<Rightarrow> native_single_block body
               | _ \<Rightarrow> NativeMalformed
                        [Lit ''role_completion markers could not form one closed block'']))"

subsection \<open>The claim against the dispatch\<close>

definition native_role_result_ok :: "string \<Rightarrow> string \<Rightarrow> bool" where
  "native_role_result_ok role res =
     ((role, res) \<in> {(''PRIMARY'', ''COMPLETE''), (''VERIFIER'', ''PASS''), (''VERIFIER'', ''FAIL''),
                     (''FINAL_REVIEWER'', ''PASS'')})"

text \<open>\<^verbatim>\<open>as_deref().filter(|v| !v.trim().is_empty())\<close>.\<close>

definition present :: "string option \<Rightarrow> string option" where
  "present v = (case v of None \<Rightarrow> None | Some s \<Rightarrow> if trim s = [] then None else Some s)"

definition check_native_claim :: "native_claim \<Rightarrow> native_metadata \<Rightarrow> message + unit" where
  "check_native_claim c m =
     (if nc_role c \<noteq> nm_role m
      then Inl [Lit ''role mismatch: block claims '', Dbg (nc_role c), Lit '' but dispatch is '', Dbg (nm_role m)]
      else if \<not> native_role_result_ok (nc_role c) (nc_result c)
      then Inl [Lit ''role-result combination not allowed for AAP-native completion: '',
                Disp (nc_role c), Lit ''+'', Disp (nc_result c)]
      else if nc_workflow_id c \<noteq> nm_workflow_run_id m
      then Inl [Lit ''workflow_id mismatch: block claims '', Dbg (nc_workflow_id c),
                Lit '' but dispatch is '', Dbg (nm_workflow_run_id m)]
      else case present (nm_project_id m) of
             None \<Rightarrow> Inl [Lit ''trusted project_id missing or blank'']
           | Some pid \<Rightarrow>
               if nc_project_id c \<noteq> pid
               then Inl [Lit ''project_id mismatch: block claims '', Dbg (nc_project_id c),
                         Lit '' but dispatch is '', Dbg pid]
               else case present (nm_project_root m) of
                      None \<Rightarrow> Inl [Lit ''trusted project_root missing or blank'']
                    | Some root \<Rightarrow>
                        if nc_project_root c \<noteq> root
                        then Inl [Lit ''project_root mismatch: block claims '', Dbg (nc_project_root c),
                                  Lit '' but dispatch is '', Dbg root]
                        else Inr ())"

subsection \<open>Defect reports\<close>

record verifier_defect =
  vd_summary :: string
  vd_correction_spec :: string
  vd_evidence :: "string list"

datatype defect_parse =
    DefectNoClaim
  | DefectClaim verifier_defect
  | DefectAmbiguous
  | DefectMalformed message

text \<open>The loop over the evidence; \<open>seen\<close> is the \<^verbatim>\<open>HashSet\<close>.\<close>

fun check_evidence :: "string set \<Rightarrow> string list \<Rightarrow> message option" where
  "check_evidence seen [] = None"
| "check_evidence seen (item # rest) =
     (if trim item = [] then Some [Lit ''verifier_defect evidence item must not be empty'']
      else if evidence_item_max_chars < chars_count item
      then Some [Lit ''verifier_defect evidence item exceeds maximum length'']
      else if item \<in> seen then Some [Lit ''verifier_defect evidence contains duplicate item'']
      else check_evidence (insert item seen) rest)"

definition check_defect :: "verifier_defect \<Rightarrow> defect_parse" where
  "check_defect d =
     (if trim (vd_summary d) = []
      then DefectMalformed [Lit ''verifier_defect summary must not be empty'']
      else if summary_max_chars < chars_count (vd_summary d)
      then DefectMalformed [Lit ''verifier_defect summary exceeds maximum length'']
      else if trim (vd_correction_spec d) = []
      then DefectMalformed [Lit ''verifier_defect correction_spec must not be empty'']
      else if correction_spec_max_chars < chars_count (vd_correction_spec d)
      then DefectMalformed [Lit ''verifier_defect correction_spec exceeds maximum length'']
      else if evidence_max_items < length (vd_evidence d)
      then DefectMalformed [Lit ''verifier_defect evidence exceeds maximum item count'']
      else case check_evidence {} (vd_evidence d) of
             Some reason \<Rightarrow> DefectMalformed reason
           | None \<Rightarrow> DefectClaim d)"

definition parse_verifier_defect_block ::
  "(string \<Rightarrow> string + verifier_defect) \<Rightarrow> string \<Rightarrow> defect_parse" where
  "parse_verifier_defect_block read_defect txt =
     (let opening_count = count_matches defect_opening txt;
          closing_count = count_matches defect_closing txt;
          opening_line_count = marker_lines defect_opening txt;
          closing_line_count = marker_lines defect_closing txt
      in if opening_count = 0 \<and> closing_count = 0 then DefectNoClaim
         else if opening_count \<noteq> 1 \<or> closing_count \<noteq> 1 \<or> opening_line_count \<noteq> 1 \<or> closing_line_count \<noteq> 1
         then (if 1 < opening_count \<and> 1 < closing_count \<and> opening_count = closing_count
                  \<and> opening_line_count = opening_count \<and> closing_line_count = closing_count
               then DefectAmbiguous
               else DefectMalformed [Lit ''invalid verifier_defect marker structure''])
         else (case captures defect_opening defect_closing txt of
                 [raw] \<Rightarrow>
                   (let body = trim raw
                    in if body = [] then DefectMalformed [Lit ''verifier_defect body is empty'']
                       else case read_defect body of
                              Inl e \<Rightarrow> DefectMalformed [Lit ''invalid verifier_defect JSON: '', Disp e]
                            | Inr d \<Rightarrow> check_defect d)
               | _ \<Rightarrow> DefectMalformed
                        [Lit ''verifier_defect markers could not form one closed block'']))"

subsection \<open>Outcomes\<close>

text \<open>\<^verbatim>\<open>crates/openab-core/src/native_completion.rs\<close>: what the end of a turn may claim.\<close>

definition reviewer_tokens :: "string list" where
  "reviewer_tokens = [''VERIFIER_PASS'', ''VERIFIER_FAIL'', ''FINAL_REVIEWER_PASS'', ''FINAL_REVIEWER_FAIL'']"

definition resolve_reviewer_outcome :: "string \<Rightarrow> string \<Rightarrow> string option" where
  "resolve_reviewer_outcome role txt =
     (case filter (\<lambda>line. line \<in> set reviewer_tokens) (List.map trim (str_lines txt)) of
        [tok] \<Rightarrow>
          if tok = ''VERIFIER_PASS'' \<and> role = ''VERIFIER'' then Some ''PASS''
          else if tok = ''VERIFIER_FAIL'' \<and> role = ''VERIFIER'' then Some ''FAIL''
          else if tok = ''FINAL_REVIEWER_PASS'' \<and> role = ''FINAL_REVIEWER'' then Some ''PASS''
          else if tok = ''FINAL_REVIEWER_FAIL'' \<and> role = ''FINAL_REVIEWER'' then Some ''FAIL''
          else None
      | _ \<Rightarrow> None)"

definition resolve_native_completion_outcome :: "string \<Rightarrow> string \<Rightarrow> string option" where
  "resolve_native_completion_outcome role txt =
     (if role = ''PRIMARY'' then Some ''COMPLETE''
      else if role = ''VERIFIER'' then resolve_reviewer_outcome ''VERIFIER'' txt
      else if role = ''FINAL_REVIEWER'' then resolve_reviewer_outcome ''FINAL_REVIEWER'' txt
      else None)"

definition resolve_aap_native_completion_outcome :: "native_metadata \<Rightarrow> string \<Rightarrow> string option" where
  "resolve_aap_native_completion_outcome m txt =
     (case parse_role_completion_block txt of
        NativeClaim c \<Rightarrow> (case check_native_claim c m of Inl _ \<Rightarrow> None | Inr _ \<Rightarrow> Some (nc_result c))
      | _ \<Rightarrow> None)"

definition explain_aap_native_completion_rejection :: "native_metadata \<Rightarrow> string \<Rightarrow> message option" where
  "explain_aap_native_completion_rejection m txt =
     (case parse_role_completion_block txt of
        NativeNoClaim \<Rightarrow> Some [Lit ''no canonical role_completion block'']
      | NativeAmbiguous \<Rightarrow> Some [Lit ''ambiguous role_completion blocks'']
      | NativeMalformed reason \<Rightarrow> Some reason
      | NativeClaim c \<Rightarrow>
          (case check_native_claim c m of
             Inl _ \<Rightarrow> Some [Lit ''role_completion claim does not match trusted dispatch metadata'']
           | Inr _ \<Rightarrow> None))"

end
