(* ===== verification/Native_Completion.thy ===== *)
theory Native_Completion
  imports Native_Blocks Ordered_Table
begin

section \<open>The native completion outbox\<close>

text \<open>
  \<^verbatim>\<open>crates/openab-core/src/native_completion.rs\<close>: the completion event and its digest, the
  outbox that keeps it in a file, the HTTP port and the port that captures before it sends.

  Arguments of the model: SHA-256, the text of a time, the JSON printer and reader of the
  outbox (\<open>native_codec\<close>), the environment variables, and the answers of the network. The
  mutex of the outbox is never poisoned, since no code panics while it holds it.
\<close>

subsection \<open>Events\<close>

record native_event =
  ne_record_version :: u32
  ne_completion_id :: string
  ne_captured_at :: string
  ne_record_digest :: string
  ne_source :: string
  ne_dispatch_id :: string
  ne_workflow_run_id :: string
  ne_task_id :: string
  ne_role :: string
  ne_agent_identity :: string
  ne_lease_id :: string
  ne_lease_generation :: u64
  ne_expected_revision :: u64
  ne_outcome :: string
  ne_session_id :: string
  ne_openab_turn_id :: string
  ne_conversation_key :: string
  ne_language :: "string option"
  ne_raw_assistant_text :: string
  ne_project_id :: string
  ne_project_root :: string
  ne_timestamp :: string
  ne_transport :: "string option"
  ne_verifier_defect :: "verifier_defect option"

record durable_record =
  du_event :: native_event
  du_status :: string
  du_last_error_code :: "string option"
  du_rejected_at :: "string option"

type_synonym record_table = "(string \<times> durable_record) list"

record native_codec =
  nx_sha :: "string \<Rightarrow> string"
  nx_rfc3339 :: "int \<Rightarrow> string"
  nx_print :: "record_table \<Rightarrow> string + string"
  nx_read :: "string \<Rightarrow> string + record_table"

datatype native_error =
    TransportError message
  | PermanentRejected string
  | RejectedError message

definition hex_digest :: "native_codec \<Rightarrow> string \<Rightarrow> string" where
  "hex_digest cx v = concat (List.map hex_byte (nx_sha cx v))"

definition newline :: string where "newline = [CHR 0x0A]"

definition identity_text :: "native_event \<Rightarrow> string" where
  "identity_text e = join newline
     [ne_dispatch_id e, ne_workflow_run_id e, ne_task_id e, ne_role e, ne_agent_identity e, ne_lease_id e,
      word_str (ne_lease_generation e), word_str (ne_expected_revision e), ne_outcome e]"

definition event_digest :: "native_codec \<Rightarrow> native_event \<Rightarrow> string" where
  "event_digest cx e = hex_digest cx (join newline
     [word_str (ne_record_version e), ne_completion_id e, ne_captured_at e, ne_workflow_run_id e,
      ne_task_id e, ne_role e, ne_agent_identity e, ne_lease_id e, word_str (ne_lease_generation e),
      word_str (ne_expected_revision e), ne_outcome e, ne_dispatch_id e, ne_conversation_key e,
      (case ne_language e of None \<Rightarrow> [] | Some l \<Rightarrow> l), ne_session_id e, ne_openab_turn_id e, [], []])"

definition native_seal :: "native_codec \<Rightarrow> native_event \<Rightarrow> world \<Rightarrow> native_event \<times> world" where
  "native_seal cx e w =
     (let (e1, w1) = (if ne_captured_at e = []
                      then (let (t, w') = utc_now w in (e\<lparr>ne_captured_at := nx_rfc3339 cx t\<rparr>, w'))
                      else (e, w));
          e2 = e1\<lparr>ne_completion_id := hex_digest cx (identity_text e1)\<rparr>
      in (e2\<lparr>ne_record_digest := event_digest cx e2\<rparr>, w1))"

subsection \<open>Paths\<close>

text \<open>
  \<^verbatim>\<open>Path::parent\<close> and \<^verbatim>\<open>with_extension("tmp")\<close> of a path that does not end in a slash.
\<close>

definition split_last :: "char \<Rightarrow> string \<Rightarrow> (string \<times> string) option" where
  "split_last c s = map_option (\<lambda>(a, b). (rev b, rev a)) (split_once c (rev s))"

definition native_parent :: "string \<Rightarrow> string option" where
  "native_parent p =
     (if p = [] \<or> p = ''/'' then None
      else case split_last (CHR ''/'') p of
             None \<Rightarrow> Some []
           | Some (d, _) \<Rightarrow> Some (if d = [] then ''/'' else d))"

definition file_stem :: "string \<Rightarrow> string" where
  "file_stem name = (case split_last (CHR ''.'') name of
                       None \<Rightarrow> name | Some (stem, _) \<Rightarrow> if stem = [] then name else stem)"

definition with_extension_tmp :: "string \<Rightarrow> string" where
  "with_extension_tmp p =
     (case split_last (CHR ''/'') p of
        None \<Rightarrow> file_stem p @ ''.tmp''
      | Some (d, name) \<Rightarrow> d @ ''/'' @ file_stem name @ ''.tmp'')"

definition safe_agent_byte :: "char \<Rightarrow> bool" where
  "safe_agent_byte c = (let n = (of_char c :: nat) in
     48 \<le> n \<and> n \<le> 57 \<or> 65 \<le> n \<and> n \<le> 90 \<or> 97 \<le> n \<and> n \<le> 122 \<or> c = CHR ''_'' \<or> c = CHR ''-'')"

definition agent_scoped_path :: "string \<Rightarrow> string \<Rightarrow> native_error + string" where
  "agent_scoped_path home agent =
     (if trim agent = [] \<or> \<not> list_all safe_agent_byte agent
      then Inl (TransportError [Lit ''ARTHUR_AGENT_NAME is missing or unsafe''])
      else Inr (path_join (path_join (path_join (path_join home ''.openab'') ''agents'') agent)
                  ''native_completion_outbox.json''))"

subsection \<open>The outbox\<close>

record outbox =
  ox_path :: string
  ox_records :: record_table

definition record_valid :: "native_codec \<Rightarrow> string \<times> durable_record \<Rightarrow> bool" where
  "record_valid cx = (\<lambda>(completion_id, r).
     completion_id = ne_completion_id (du_event r) \<and> ne_record_version (du_event r) = 1
     \<and> event_digest cx (du_event r) = ne_record_digest (du_event r))"

definition outbox_open :: "native_codec \<Rightarrow> string \<Rightarrow> world \<Rightarrow> (native_error + outbox) \<times> world" where
  "outbox_open cx path w =
     (let (loaded, w1) =
        (case path_exists path w of
           (False, w1) \<Rightarrow> (Inr [], w1)
         | (True, w1) \<Rightarrow>
             (case read_to_string path w1 of
                (Inl e, w2) \<Rightarrow> (Inl (TransportError [Disp e]), w2)
              | (Inr data, w2) \<Rightarrow>
                  (case nx_read cx data of
                     Inl e \<Rightarrow> (Inl (TransportError [Lit ''invalid completion outbox: '', Disp e]), w2)
                   | Inr t \<Rightarrow> (Inr t, w2))))
      in case loaded of
           Inl e \<Rightarrow> (Inl e, w1)
         | Inr t \<Rightarrow>
             (if \<not> list_all (record_valid cx) t
              then (Inl (TransportError [Lit ''invalid completion outbox record'']), w1)
              else (Inr \<lparr>ox_path = path, ox_records = t\<rparr>, w1)))"

text \<open>Opening a directory and syncing it.\<close>

definition sync_dir :: "string \<Rightarrow> world \<Rightarrow> (string + unit) \<times> world" where
  "sync_dir d w =
     (case next_fault w of
        (Fail _ e, w1) \<Rightarrow> (Inl e, w1)
      | (Proceed, w1) \<Rightarrow>
          (if dirs w1 (resolve w1 d) then file_flush w1
           else (Inl ''No such file or directory (os error 2)'', w1)))"

definition transport_text :: "(string + 'a) \<times> world \<Rightarrow> (native_error + 'a) \<times> world" where
  "transport_text = (\<lambda>(r, w). (case r of Inl e \<Rightarrow> Inl (TransportError [Disp e]) | Inr x \<Rightarrow> Inr x, w))"

definition and_then :: "(native_error + 'a) \<times> world \<Rightarrow> ('a \<Rightarrow> world \<Rightarrow> (native_error + 'b) \<times> world)
     \<Rightarrow> (native_error + 'b) \<times> world" where
  "and_then rw f = (case rw of (Inl e, w) \<Rightarrow> (Inl e, w) | (Inr x, w) \<Rightarrow> f x w)"

definition persist :: "native_codec \<Rightarrow> string \<Rightarrow> record_table \<Rightarrow> world \<Rightarrow> (native_error + unit) \<times> world" where
  "persist cx path t w =
     (case native_parent path of
        None \<Rightarrow> (Inl (TransportError [Lit ''completion outbox path has no parent'']), w)
      | Some parent \<Rightarrow>
          and_then (transport_text (create_dir_all parent w)) (\<lambda>_ w1.
          let temporary = with_extension_tmp path in
          and_then (case nx_print cx t of
                      Inl e \<Rightarrow> (Inl (TransportError [Disp e]), w1)
                    | Inr s \<Rightarrow> (Inr s, w1)) (\<lambda>serialized w2.
          and_then (transport_text (file_create temporary w2)) (\<lambda>_ w3.
          and_then (transport_text (file_write_all temporary serialized w3)) (\<lambda>_ w4.
          and_then (transport_text (file_flush w4)) (\<lambda>_ w5.
          and_then (transport_text (file_rename temporary path w5)) (\<lambda>_ w6.
          transport_text (sync_dir parent w6))))))))"

definition new_pending :: "native_event \<Rightarrow> durable_record" where
  "new_pending e = \<lparr>du_event = e, du_status = ''PENDING'', du_last_error_code = None, du_rejected_at = None\<rparr>"

definition capture ::
  "native_codec \<Rightarrow> native_event \<Rightarrow> outbox \<Rightarrow> world \<Rightarrow> (native_error + native_event) \<times> outbox \<times> world" where
  "capture cx event ox w =
     (if ne_record_version event \<noteq> 1
      then (Inl (TransportError [Lit ''unsupported native completion record version'']), ox, w)
      else let (e, w1) = native_seal cx event w;
               t = (case bt_get (ox_records ox) (ne_completion_id e) of
                      None \<Rightarrow> bt_insert (ne_completion_id e) (new_pending e) (ox_records ox)
                    | Some _ \<Rightarrow> ox_records ox)
           in case persist cx (ox_path ox) t w1 of
                (Inl err, w2) \<Rightarrow> (Inl err, ox\<lparr>ox_records := t\<rparr>, w2)
              | (Inr _, w2) \<Rightarrow> (Inr e, ox\<lparr>ox_records := t\<rparr>, w2))"

definition missing_completion :: native_error where
  "missing_completion = TransportError [Lit ''missing captured completion'']"

definition mark_delivered ::
  "native_codec \<Rightarrow> string \<Rightarrow> outbox \<Rightarrow> world \<Rightarrow> (native_error + unit) \<times> outbox \<times> world" where
  "mark_delivered cx completion_id ox w =
     (case bt_get (ox_records ox) completion_id of
        None \<Rightarrow> (Inl missing_completion, ox, w)
      | Some r \<Rightarrow>
          (let t = bt_insert completion_id (r\<lparr>du_status := ''DELIVERED''\<rparr>) (ox_records ox);
               (res, w1) = persist cx (ox_path ox) t w
           in (res, ox\<lparr>ox_records := t\<rparr>, w1)))"

definition mark_permanently_rejected ::
  "native_codec \<Rightarrow> string \<Rightarrow> string \<Rightarrow> outbox \<Rightarrow> world \<Rightarrow> (native_error + unit) \<times> outbox \<times> world" where
  "mark_permanently_rejected cx completion_id reason ox w =
     (case bt_get (ox_records ox) completion_id of
        None \<Rightarrow> (Inl missing_completion, ox, w)
      | Some r \<Rightarrow>
          (let (now, w1) = utc_now w;
               r' = r\<lparr>du_status := ''PERMANENT_REJECTED'', du_last_error_code := Some reason,
                      du_rejected_at := Some (nx_rfc3339 cx now)\<rparr>;
               t = bt_insert completion_id r' (ox_records ox);
               (res, w2) = persist cx (ox_path ox) t w1
           in (res, ox\<lparr>ox_records := t\<rparr>, w2)))"

definition is_pending :: "durable_record \<Rightarrow> bool" where
  "is_pending r = (du_status r = ''PENDING'')"

definition pending :: "outbox \<Rightarrow> native_event list" where
  "pending ox = List.map du_event (filter is_pending (List.map snd (ox_records ox)))"

subsection \<open>The HTTP port\<close>

record accepted =
  ac_status :: string
  ac_reason :: string
  ac_delivered :: bool

text \<open>
  An answer of the network to one request: none, or a status with its text and the body, if
  that is the expected JSON.
\<close>

datatype http_answer = NoResponse | Responded nat string "accepted option"

record net =
  net_answers :: "http_answer list"
  requests :: "(string \<times> native_event) list"
  slept :: "nat list"

definition post_event :: "string \<Rightarrow> native_event \<Rightarrow> net \<Rightarrow> http_answer \<times> net" where
  "post_event url e n =
     (case net_answers n of [] \<Rightarrow> NoResponse | a # _ \<Rightarrow> a,
      n\<lparr>net_answers := tl (net_answers n), requests := requests n @ [(url, e)]\<rparr>)"

definition status_is_success :: "nat \<Rightarrow> bool" where
  "status_is_success code = (200 \<le> code \<and> code < 300)"

record http_port =
  hp_url :: string
  hp_bearer_env :: string
  hp_max_attempts :: u32
  hp_backoff_ms :: u64
  hp_recovery_url :: string

definition http_port_from_env ::
  "(string \<Rightarrow> string option) \<Rightarrow> string \<Rightarrow> string \<Rightarrow> u32 \<Rightarrow> u64 \<Rightarrow> native_error + http_port" where
  "http_port_from_env env url bearer_env max_attempts backoff_ms =
     (if trim (case env bearer_env of None \<Rightarrow> [] | Some v \<Rightarrow> v) = []
      then Inl (TransportError [Lit ''required credential environment '', Disp bearer_env, Lit '' is unset''])
      else if max_attempts = 0
      then Inl (TransportError [Lit ''max_attempts must be at least 1''])
      else Inr \<lparr>hp_url = url, hp_bearer_env = bearer_env, hp_max_attempts = max_attempts,
                hp_backoff_ms = backoff_ms, hp_recovery_url = url @ ''/recovery''\<rparr>)"

text \<open>
  A panic is the value \<open>Panic\<close>: the \<^verbatim>\<open>unreachable!()\<close> behind the loop and the overflow of
  the \<^verbatim>\<open>Duration\<close> multiplication (its seconds are a \<^verbatim>\<open>u64\<close>). The shift count is masked to
  five bits, as in a release build.
\<close>

datatype 'a completes = Done 'a | Panic

definition backoff_ms :: "http_port \<Rightarrow> nat \<Rightarrow> nat option" where
  "backoff_ms p attempt =
     (let ms = unat (hp_backoff_ms p) * 2 ^ (attempt mod 32)
      in if int ms < 1000 * 2 ^ 64 then Some ms else None)"

fun http_attempts ::
  "http_port \<Rightarrow> native_event \<Rightarrow> nat \<Rightarrow> nat \<Rightarrow> net \<Rightarrow> (native_error + unit) completes \<times> net" where
  "http_attempts p e attempt 0 n = (Panic, n)"
| "http_attempts p e attempt (Suc rest) n =
     (let (answer, n1) = post_event (hp_url p) e n;
          retry = (case backoff_ms p attempt of
                     None \<Rightarrow> (Panic, n1)
                   | Some ms \<Rightarrow> http_attempts p e (Suc attempt) rest (n1\<lparr>slept := slept n1 @ [ms]\<rparr>))
      in case answer of
           Responded code txt body \<Rightarrow>
             (if status_is_success code
              then (Done (case body of
                            Some b \<Rightarrow> if ac_status b = ''DELIVERED'' \<and> ac_delivered b then Inr ()
                                      else Inl (RejectedError [Disp (ac_status b)])
                          | None \<Rightarrow> Inl (RejectedError [Lit ''missing structured acceptance''])), n1)
              else if rest \<noteq> 0 then retry
              else (Done (Inl (TransportError [Disp txt])), n1))
         | NoResponse \<Rightarrow>
             (if rest \<noteq> 0 then retry
              else (Done (Inl (TransportError [Lit ''request failed after bounded retry''])), n1)))"

definition credential_unavailable :: native_error where
  "credential_unavailable = TransportError [Lit ''credential unavailable'']"

definition http_submit ::
  "(string \<Rightarrow> string option) \<Rightarrow> http_port \<Rightarrow> native_event \<Rightarrow> net \<Rightarrow> (native_error + unit) completes \<times> net" where
  "http_submit env p e n =
     (case env (hp_bearer_env p) of
        None \<Rightarrow> (Done (Inl credential_unavailable), n)
      | Some _ \<Rightarrow> http_attempts p e 0 (unat (hp_max_attempts p)) n)"

definition classify_recovery_response :: "accepted \<Rightarrow> native_error + unit" where
  "classify_recovery_response b =
     (if ac_status b = ''DELIVERED'' \<and> ac_delivered b
         \<and> ac_reason b \<in> {''RECOVERY_DELIVERED'', ''RECOVERY_ALREADY_CONSUMED''} then Inr ()
      else if ac_status b = ''REJECTED''
         \<and> ac_reason b \<in> {''MALFORMED_DURABLE_COMPLETION'', ''COMPLETION_ID_CONFLICT'',
                            ''RECOVERY_FENCE_MISMATCH'', ''RECOVERY_INVALID_TRANSITION''}
      then Inl (PermanentRejected (ac_reason b))
      else Inl (RejectedError [Lit ''unclassified recovery response: status='', Disp (ac_status b),
                  Lit '', delivered='', Disp (if ac_delivered b then ''true'' else ''false''),
                  Lit '', reason='', Disp (ac_reason b)]))"

definition http_recover ::
  "(string \<Rightarrow> string option) \<Rightarrow> http_port \<Rightarrow> native_event \<Rightarrow> net \<Rightarrow> (native_error + unit) completes \<times> net" where
  "http_recover env p e n =
     (case env (hp_bearer_env p) of
        None \<Rightarrow> (Done (Inl credential_unavailable), n)
      | Some _ \<Rightarrow>
          (case post_event (hp_recovery_url p) e n of
             (NoResponse, n1) \<Rightarrow> (Done (Inl (TransportError [Lit ''recovery request failed''])), n1)
           | (Responded code txt (Some b), n1) \<Rightarrow> (Done (classify_recovery_response b), n1)
           | (Responded code txt None, n1) \<Rightarrow>
               (Done (Inl (TransportError [Lit ''missing structured recovery response''])), n1)))"

subsection \<open>The durable port\<close>

text \<open>
  The port that delivers is a trait object: its \<open>submit\<close> and \<open>recover\<close> are arguments, over
  a network state of their own.
\<close>

type_synonym 'n native_port = "native_event \<Rightarrow> 'n \<Rightarrow> (native_error + unit) completes \<times> 'n"

definition durable_submit ::
  "native_codec \<Rightarrow> 'n native_port \<Rightarrow> native_event \<Rightarrow> outbox \<Rightarrow> world \<Rightarrow> 'n
     \<Rightarrow> (native_error + unit) completes \<times> outbox \<times> world \<times> 'n" where
  "durable_submit cx submit event ox w n =
     (case capture cx event ox w of
        (Inl err, ox1, w1) \<Rightarrow> (Done (Inl err), ox1, w1, n)
      | (Inr e, ox1, w1) \<Rightarrow>
          (case submit e n of
             (Panic, n1) \<Rightarrow> (Panic, ox1, w1, n1)
           | (Done (Inl err), n1) \<Rightarrow> (Done (Inl err), ox1, w1, n1)
           | (Done (Inr _), n1) \<Rightarrow>
               (case mark_delivered cx (ne_completion_id e) ox1 w1 of
                  (res, ox2, w2) \<Rightarrow> (Done res, ox2, w2, n1))))"

definition replay_one ::
  "native_codec \<Rightarrow> 'n native_port \<Rightarrow> native_event \<Rightarrow> outbox \<Rightarrow> world \<Rightarrow> 'n \<Rightarrow> bool \<times> outbox \<times> world \<times> 'n" where
  "replay_one cx recover e ox w n =
     (case recover e n of
        (Panic, n1) \<Rightarrow> (False, ox, w, n1)
      | (Done (Inr _), n1) \<Rightarrow>
          (case mark_delivered cx (ne_completion_id e) ox w of (_, ox1, w1) \<Rightarrow> (True, ox1, w1, n1))
      | (Done (Inl (PermanentRejected reason)), n1) \<Rightarrow>
          (case mark_permanently_rejected cx (ne_completion_id e) reason ox w of
             (_, ox1, w1) \<Rightarrow> (True, ox1, w1, n1))
      | (Done (Inl _), n1) \<Rightarrow> (True, ox, w, n1))"

text \<open>The loop of \<^verbatim>\<open>replay_pending\<close>; the flag is false when the task has panicked.\<close>

fun replay_each ::
  "native_codec \<Rightarrow> 'n native_port \<Rightarrow> native_event list \<Rightarrow> outbox \<Rightarrow> world \<Rightarrow> 'n \<Rightarrow> bool \<times> outbox \<times> world \<times> 'n" where
  "replay_each cx recover [] ox w n = (True, ox, w, n)"
| "replay_each cx recover (e # es) ox w n =
     (case replay_one cx recover e ox w n of
        (True, ox1, w1, n1) \<Rightarrow> replay_each cx recover es ox1 w1 n1
      | (False, ox1, w1, n1) \<Rightarrow> (False, ox1, w1, n1))"

definition replay_pending ::
  "native_codec \<Rightarrow> 'n native_port \<Rightarrow> outbox \<Rightarrow> world \<Rightarrow> 'n \<Rightarrow> bool \<times> outbox \<times> world \<times> 'n" where
  "replay_pending cx recover ox w n = replay_each cx recover (pending ox) ox w n"

end
