(* ===== verification/Native_Outbox.thy ===== *)
theory Native_Outbox
  imports Native_Completion
begin

section \<open>What the outbox keeps\<close>

text \<open>
  The effect of one save on the file, and the runs of the outbox: captures, settlements and
  restarts in any order, each under a schedule of I/O failures of its own. A crash in the
  middle of a call leaves the files as a call that fails at that point does, and is followed
  by a restart; so the runs cover crashes.
\<close>

subsection \<open>One save\<close>

lemma and_then_cases:
  "and_then rw f = (r, w') \<Longrightarrow>
     (\<exists>e. rw = (Inl e, w') \<and> r = Inl e) \<or> (\<exists>x w1. rw = (Inr x, w1) \<and> f x w1 = (r, w'))"
  by (auto simp: and_then_def split: prod.splits sum.splits)

lemma transport_text_cases:
  "transport_text rw = (r, w') \<Longrightarrow>
     (\<exists>e. rw = (Inl e, w') \<and> r = Inl (TransportError [Disp e])) \<or> (\<exists>x. rw = (Inr x, w') \<and> r = Inr x)"
  by (auto simp: transport_text_def split: prod.splits sum.splits)

lemma sync_dir_frame:
  "sync_dir d w = (r, w') \<Longrightarrow>
     files w' = files w \<and> dirs w' = dirs w \<and> resolve w' = resolve w \<and> clock w' = clock w
     \<and> ticks w' = ticks w \<and> sent w' = sent w"
  by (auto simp: sync_dir_def dest!: next_fault_frame file_flush_frame
      split: prod.splits fault.splits if_splits)

lemma persist_effect:
  assumes "persist cx p t w = (r, w')" and "with_extension_tmp p \<noteq> p"
  shows "(files w' p = files w p \<or> (\<exists>s. nx_print cx t = Inr s \<and> files w' p = Some s))
     \<and> (r = Inr () \<longrightarrow> (\<exists>s. nx_print cx t = Inr s \<and> files w' p = Some s))
     \<and> (\<forall>q. q \<noteq> p \<longrightarrow> q \<noteq> with_extension_tmp p \<longrightarrow> files w' q = files w q)
     \<and> clock w' = clock w \<and> ticks w' = ticks w \<and> sent w' = sent w \<and> resolve w' = resolve w"
proof (cases "native_parent p")
  case None
  then show ?thesis using assms by (auto simp: persist_def)
next
  case (Some parent)
  let ?tmp = "with_extension_tmp p"
  note step = and_then_cases transport_text_cases
  have run: "and_then (transport_text (create_dir_all parent w)) (\<lambda>_ w1.
      and_then (case nx_print cx t of Inl e \<Rightarrow> (Inl (TransportError [Disp e]), w1) | Inr s \<Rightarrow> (Inr s, w1))
        (\<lambda>s w2. and_then (transport_text (file_create ?tmp w2)) (\<lambda>_ w3.
        and_then (transport_text (file_write_all ?tmp s w3)) (\<lambda>_ w4.
        and_then (transport_text (file_flush w4)) (\<lambda>_ w5.
        and_then (transport_text (file_rename ?tmp p w5)) (\<lambda>_ w6.
        transport_text (sync_dir parent w6))))))) = (r, w')"
    using assms(1) Some by (simp add: persist_def Let_def)
  obtain r1 w1 where 1: "create_dir_all parent w = (r1, w1)" by fastforce
  note f1 = create_dir_all_frame [OF 1]
  show ?thesis
  proof (cases r1)
    case (Inl e)
    then show ?thesis using run f1 by (auto simp: 1 transport_text_def and_then_def)
  next
    case i1: (Inr u)
    show ?thesis
    proof (cases "nx_print cx t")
      case (Inl e)
      then show ?thesis using run f1 i1 by (auto simp: 1 transport_text_def and_then_def)
    next
      case p: (Inr s)
      obtain r2 w2 where 2: "file_create ?tmp w1 = (r2, w2)" by fastforce
      obtain r3 w3 where 3: "file_write_all ?tmp s w2 = (r3, w3)" by fastforce
      obtain r4 w4 where 4: "file_flush w3 = (r4, w4)" by fastforce
      obtain r5 w5 where 5: "file_rename ?tmp p w4 = (r5, w5)" by fastforce
      obtain r6 w6 where 6: "sync_dir parent w5 = (r6, w6)" by fastforce
      note frames = f1 file_create_frame [OF 2] file_write_all_frame [OF 3] file_flush_frame [OF 4]
        file_rename_frame [OF 5] sync_dir_frame [OF 6]
      show ?thesis
        using run frames assms(2)
        by (auto simp: 1 2 3 4 5 6 i1 p transport_text_def and_then_def split: sum.splits)
    qed
  qed
qed

lemma persist_panic_free: "\<exists>r w'. persist cx p t w = (r, w')"
  by force

subsection \<open>Good tables\<close>

definition native_codec_ok :: "native_codec \<Rightarrow> bool" where
  "native_codec_ok cx \<longleftrightarrow> (\<forall>t s. bt_inv t \<longrightarrow> nx_print cx t = Inr s \<longrightarrow> nx_read cx s = Inr t)"

definition record_sealed :: "native_codec \<Rightarrow> durable_record \<Rightarrow> bool" where
  "record_sealed cx r \<longleftrightarrow> ne_completion_id (du_event r) = hex_digest cx (identity_text (du_event r))"

definition table_ok :: "native_codec \<Rightarrow> record_table \<Rightarrow> bool" where
  "table_ok cx t \<longleftrightarrow> bt_inv t \<and> list_all (record_valid cx) t
     \<and> (\<forall>cid r. bt_get t cid = Some r \<longrightarrow> record_sealed cx r)"

definition holds_log :: "string set \<Rightarrow> string set \<Rightarrow> string set \<Rightarrow> record_table \<Rightarrow> bool" where
  "holds_log captured tried settled t \<longleftrightarrow>
     (\<forall>cid r. bt_get t cid = Some r \<longrightarrow> is_pending r \<or> cid \<in> tried)
     \<and> (\<forall>cid\<in>captured. \<exists>r. bt_get t cid = Some r)
     \<and> (\<forall>cid\<in>settled. \<exists>r. bt_get t cid = Some r \<and> \<not> is_pending r)"

lemma bt_insert_rows: "set (bt_insert k v t) \<subseteq> insert (k, v) (set t)"
  by (induction k v t rule: bt_insert.induct) auto

lemma table_ok_insert:
  assumes "table_ok cx t" and "record_valid cx (cid, r)" and "record_sealed cx r"
  shows "table_ok cx (bt_insert cid r t)"
  using assms bt_insert_rows [of cid r t]
  by (auto simp: table_ok_def bt_inv_insert list_all_iff)

lemma table_ok_get:
  assumes "table_ok cx t" and "bt_get t cid = Some r"
  shows "record_valid cx (cid, r)" and "record_sealed cx r" and "ne_completion_id (du_event r) = cid"
proof -
  have "(cid, r) \<in> set t" using assms bt_rows_get [of t cid r] by (simp add: table_ok_def)
  then show "record_valid cx (cid, r)" using assms(1) by (auto simp: table_ok_def list_all_iff)
  then show "ne_completion_id (du_event r) = cid" by (simp add: record_valid_def)
  show "record_sealed cx r" using assms by (auto simp: table_ok_def)
qed

lemma record_valid_status:
  "record_valid cx (cid, r\<lparr>du_status := s\<rparr>) = record_valid cx (cid, r)"
  "record_valid cx (cid, r\<lparr>du_status := s, du_last_error_code := c, du_rejected_at := a\<rparr>) = record_valid cx (cid, r)"
  "record_sealed cx (r\<lparr>du_status := s\<rparr>) = record_sealed cx r"
  "record_sealed cx (r\<lparr>du_status := s, du_last_error_code := c, du_rejected_at := a\<rparr>) = record_sealed cx r"
  by (simp_all add: record_valid_def record_sealed_def)

lemma seal_facts:
  assumes "native_seal cx e w = (e', w')"
  shows "ne_record_version e' = ne_record_version e"
    and "ne_completion_id e' = hex_digest cx (identity_text e)"
    and "identity_text e' = identity_text e"
    and "event_digest cx e' = ne_record_digest e'"
    and "files w' = files w" and "faults w' = faults w" and "resolve w' = resolve w"
    and "sent w' = sent w" and "clock w' = clock w"
    and "ne_verifier_defect e' = ne_verifier_defect e"
  using assms
  by (auto simp: native_seal_def Let_def utc_now_def identity_text_def event_digest_def split: if_splits)

lemma seal_valid:
  assumes "native_seal cx e w = (e', w')" and "ne_record_version e = 1"
  shows "record_valid cx (ne_completion_id e', new_pending e')" and "record_sealed cx (new_pending e')"
  using seal_facts [OF assms(1)] assms(2)
  by (simp_all add: record_valid_def record_sealed_def new_pending_def)

lemma holds_log_pending:
  "holds_log C T S t \<Longrightarrow> bt_get t cid = None \<Longrightarrow> is_pending r \<Longrightarrow> holds_log C T S (bt_insert cid r t)"
  unfolding holds_log_def by (auto simp: fun_upd_apply)

lemma holds_log_settle:
  "holds_log C T S t \<Longrightarrow> bt_get t cid \<noteq> None \<Longrightarrow> \<not> is_pending r \<Longrightarrow>
   holds_log C (insert cid T) S (bt_insert cid r t)"
  unfolding holds_log_def by (auto simp: fun_upd_apply)

lemma holds_log_mono: "holds_log C T S t \<Longrightarrow> T \<subseteq> T' \<Longrightarrow> holds_log C T' S t"
  unfolding holds_log_def by blast

subsection \<open>Runs\<close>

datatype outbox_call =
    CaptureCall native_event
  | DeliveredCall string
  | RejectedCall string string
  | RestartCall

datatype outbox_entry = Captured string | Tried string | Settled string

text \<open>The state: the outbox of the running daemon, if one runs, the host, and the log.\<close>

type_synonym outbox_state = "outbox option \<times> world \<times> outbox_entry list"

definition settle_log :: "string \<Rightarrow> native_error + unit \<Rightarrow> outbox_entry list \<Rightarrow> outbox_entry list" where
  "settle_log cid r log = (case r of Inr _ \<Rightarrow> Settled cid # Tried cid # log | Inl _ \<Rightarrow> Tried cid # log)"

definition outbox_step :: "native_codec \<Rightarrow> string \<Rightarrow> outbox_state \<Rightarrow> outbox_call \<times> fault list \<Rightarrow> outbox_state" where
  "outbox_step cx p = (\<lambda>(up, w, log) (c, fs).
     let w0 = w\<lparr>faults := fs\<rparr> in
     (case c of
        RestartCall \<Rightarrow>
          (case outbox_open cx p w0 of
             (Inl _, w1) \<Rightarrow> (None, w1, log)
           | (Inr ox, w1) \<Rightarrow> (Some ox, w1, log))
      | CaptureCall e \<Rightarrow>
          (case up of
             None \<Rightarrow> (None, w0, log)
           | Some ox \<Rightarrow>
               (case capture cx e ox w0 of
                  (Inl _, ox1, w1) \<Rightarrow> (Some ox1, w1, log)
                | (Inr e', ox1, w1) \<Rightarrow> (Some ox1, w1, Captured (ne_completion_id e') # log)))
      | DeliveredCall cid \<Rightarrow>
          (case up of
             None \<Rightarrow> (None, w0, log)
           | Some ox \<Rightarrow>
               (case mark_delivered cx cid ox w0 of
                  (r, ox1, w1) \<Rightarrow> (Some ox1, w1, settle_log cid r log)))
      | RejectedCall cid reason \<Rightarrow>
          (case up of
             None \<Rightarrow> (None, w0, log)
           | Some ox \<Rightarrow>
               (case mark_permanently_rejected cx cid reason ox w0 of
                  (r, ox1, w1) \<Rightarrow> (Some ox1, w1, settle_log cid r log)))))"

definition outbox_run :: "native_codec \<Rightarrow> string \<Rightarrow> world \<Rightarrow> (outbox_call \<times> fault list) list \<Rightarrow> outbox_state" where
  "outbox_run cx p w calls = foldl (outbox_step cx p) (None, w, []) calls"

text \<open>
  The lookup of the file at a restart is its first call. When it fails, \<^verbatim>\<open>Path::exists\<close>
  answers false and the outbox starts empty.
\<close>

definition sees_file :: "outbox_call \<times> fault list \<Rightarrow> bool" where
  "sees_file = (\<lambda>(c, fs). c = RestartCall \<longrightarrow> (case fs of Fail _ _ # _ \<Rightarrow> False | _ \<Rightarrow> True))"

definition ids_of :: "(string \<Rightarrow> outbox_entry) \<Rightarrow> outbox_entry list \<Rightarrow> string set" where
  "ids_of kind log = {cid. kind cid \<in> set log}"

lemma ids_of_simps [simp]:
  "ids_of Captured (Captured cid # log) = insert cid (ids_of Captured log)"
  "ids_of Captured (Tried cid # log) = ids_of Captured log"
  "ids_of Captured (Settled cid # log) = ids_of Captured log"
  "ids_of Tried (Captured cid # log) = ids_of Tried log"
  "ids_of Tried (Tried cid # log) = insert cid (ids_of Tried log)"
  "ids_of Tried (Settled cid # log) = ids_of Tried log"
  "ids_of Settled (Captured cid # log) = ids_of Settled log"
  "ids_of Settled (Tried cid # log) = ids_of Settled log"
  "ids_of Settled (Settled cid # log) = insert cid (ids_of Settled log)"
  "ids_of kind [] = {}"
  by (auto simp: ids_of_def)

definition log_held :: "native_codec \<Rightarrow> outbox_entry list \<Rightarrow> record_table \<Rightarrow> bool" where
  "log_held cx log t \<longleftrightarrow>
     table_ok cx t \<and> holds_log (ids_of Captured log) (ids_of Tried log) (ids_of Settled log) t"

definition file_held :: "native_codec \<Rightarrow> string \<Rightarrow> outbox_entry list \<Rightarrow> world \<Rightarrow> bool" where
  "file_held cx p log w \<longleftrightarrow>
     (case files w p of
        None \<Rightarrow> ids_of Captured log = {} \<and> ids_of Settled log = {}
      | Some s \<Rightarrow> (\<exists>t. nx_read cx s = Inr t \<and> log_held cx log t))"

definition outbox_inv :: "native_codec \<Rightarrow> string \<Rightarrow> outbox_state \<Rightarrow> bool" where
  "outbox_inv cx p = (\<lambda>(up, w, log).
     file_held cx p log w
     \<and> (case up of None \<Rightarrow> True | Some ox \<Rightarrow> ox_path ox = p \<and> log_held cx log (ox_records ox)))"

text \<open>A save either leaves the file or puts the new table into it.\<close>

lemma file_held_persist:
  assumes "native_codec_ok cx" and "with_extension_tmp p \<noteq> p" and "persist cx p t w = (r, w')"
    and "file_held cx p log w" and "log_held cx log t"
  shows "file_held cx p log w'"
    and "r = Inr () \<Longrightarrow> \<exists>s. files w' p = Some s \<and> nx_read cx s = Inr t"
proof -
  have "bt_inv t" using assms(5) by (simp add: log_held_def table_ok_def)
  then have rd: "\<And>s. nx_print cx t = Inr s \<Longrightarrow> nx_read cx s = Inr t"
    using assms(1) by (simp add: native_codec_ok_def)
  note eff = persist_effect [OF assms(3,2)]
  then show "file_held cx p log w'"
    using assms(4,5) rd by (auto simp: file_held_def)
  show "r = Inr () \<Longrightarrow> \<exists>s. files w' p = Some s \<and> nx_read cx s = Inr t"
    using eff rd by auto
qed

lemma log_held_settle:
  assumes "log_held cx log t" and "bt_get t cid = Some r" and "\<not> is_pending r'"
    and "record_valid cx (cid, r')" and "record_sealed cx r'"
  shows "log_held cx (Tried cid # log) (bt_insert cid r' t)"
  using assms table_ok_insert [of cx t cid r'] holds_log_settle
  by (auto simp: log_held_def)

lemma log_held_tried: "log_held cx log t \<Longrightarrow> log_held cx (Tried cid # log) t"
  by (auto simp: log_held_def intro: holds_log_mono)

lemma file_held_tried: "file_held cx p log w \<Longrightarrow> file_held cx p (Tried cid # log) w"
  by (auto simp: file_held_def split: option.splits intro: log_held_tried)

lemma log_held_settled:
  "log_held cx log t \<Longrightarrow> bt_get t cid = Some r \<Longrightarrow> \<not> is_pending r \<Longrightarrow> log_held cx (Settled cid # log) t"
  by (auto simp: log_held_def holds_log_def)

lemma log_held_captured:
  "log_held cx log t \<Longrightarrow> bt_get t cid = Some r \<Longrightarrow> log_held cx (Captured cid # log) t"
  by (auto simp: log_held_def holds_log_def)

text \<open>The settlement of a record, whichever of the two it is.\<close>

lemma settle_inv:
  assumes "native_codec_ok cx" and "with_extension_tmp p \<noteq> p"
    and "file_held cx p log w" and "log_held cx log t" and "bt_get t cid = Some r"
    and "\<not> is_pending r'" and "record_valid cx (cid, r')" and "record_sealed cx r'"
    and "persist cx p (bt_insert cid r' t) w = (res, w')"
  shows "file_held cx p (settle_log cid res log) w'
    \<and> log_held cx (settle_log cid res log) (bt_insert cid r' t)"
proof -
  let ?t = "bt_insert cid r' t" and ?log = "Tried cid # log"
  have new: "log_held cx ?log ?t" using assms(4-8) by (rule log_held_settle)
  have kept: "file_held cx p ?log w'"
    by (rule file_held_persist(1) [OF assms(1,2,9) file_held_tried [OF assms(3)] new])
  have get: "bt_get ?t cid = Some r'" by simp
  show ?thesis
  proof (cases res)
    case (Inl e)
    then show ?thesis using new kept by (simp add: settle_log_def)
  next
    case (Inr u)
    then obtain s where "files w' p = Some s" "nx_read cx s = Inr ?t"
      using file_held_persist(2) [OF assms(1,2,9) file_held_tried [OF assms(3)] new] by auto
    moreover have "log_held cx (Settled cid # ?log) ?t"
      by (rule log_held_settled [OF new get assms(6)])
    ultimately show ?thesis using Inr by (simp add: settle_log_def file_held_def)
  qed
qed

lemma capture_inv:
  assumes "native_codec_ok cx" and "with_extension_tmp p \<noteq> p"
    and "file_held cx p log w" and "log_held cx log (ox_records ox)" and "ox_path ox = p"
    and "capture cx e ox w = (res, ox', w')"
  shows "ox_path ox' = p"
    and "file_held cx p log w' \<and> log_held cx log (ox_records ox')"
    and "res = Inr e' \<Longrightarrow> file_held cx p (Captured (ne_completion_id e') # log) w'
       \<and> log_held cx (Captured (ne_completion_id e') # log) (ox_records ox')"
proof -
  show "ox_path ox' = p"
    using assms(5,6) by (auto simp: capture_def Let_def split: if_splits prod.splits sum.splits)
  have both: "(file_held cx p log w' \<and> log_held cx log (ox_records ox'))
     \<and> (res = Inr e' \<longrightarrow> file_held cx p (Captured (ne_completion_id e') # log) w'
       \<and> log_held cx (Captured (ne_completion_id e') # log) (ox_records ox'))" for e'
  proof (cases "ne_record_version e = 1")
    case False
    then show ?thesis using assms(3,4,6) by (auto simp: capture_def)
  next
    case True
    obtain e1 w1 where seal: "native_seal cx e w = (e1, w1)" by fastforce
    let ?id = "ne_completion_id e1"
    define t where "t = (case bt_get (ox_records ox) ?id of
      None \<Rightarrow> bt_insert ?id (new_pending e1) (ox_records ox) | Some _ \<Rightarrow> ox_records ox)"
    obtain r w2 where save: "persist cx p t w1 = (r, w2)" by fastforce
    have out: "res = (case r of Inl err \<Rightarrow> Inl err | Inr _ \<Rightarrow> Inr e1)" "ox_records ox' = t" "w' = w2"
      using assms(5,6) True seal save unfolding t_def
      by (auto simp: capture_def Let_def split: sum.splits)
    have f1: "file_held cx p log w1" using assms(3) seal_facts(5) [OF seal] by (simp add: file_held_def)
    have pend: "is_pending (new_pending e1)" by (simp add: is_pending_def new_pending_def)
    have held: "log_held cx log t"
    proof (cases "bt_get (ox_records ox) ?id")
      case None
      then show ?thesis
        using assms(4) seal_valid [OF seal True] pend
        by (auto simp: t_def log_held_def intro: table_ok_insert holds_log_pending)
    next
      case (Some r)
      then show ?thesis using assms(4) by (simp add: t_def)
    qed
    have kept: "file_held cx p log w2" by (rule file_held_persist(1) [OF assms(1,2) save f1 held])
    have got: "\<exists>r. bt_get t ?id = Some r" by (auto simp: t_def split: option.splits)
    show ?thesis
    proof (cases r)
      case (Inl err)
      then show ?thesis using kept held out by simp
    next
      case (Inr u)
      obtain s where s: "files w2 p = Some s" "nx_read cx s = Inr t"
        using file_held_persist(2) [OF assms(1,2) save f1 held] Inr by auto
      obtain rec where rec: "bt_get t ?id = Some rec" using got by blast
      have "log_held cx (Captured ?id # log) t" by (rule log_held_captured [OF held rec])
      then show ?thesis using kept held out Inr s by (auto simp: file_held_def)
    qed
  qed
  show "file_held cx p log w' \<and> log_held cx log (ox_records ox')" using both by blast
  show "res = Inr e' \<Longrightarrow> file_held cx p (Captured (ne_completion_id e') # log) w'
       \<and> log_held cx (Captured (ne_completion_id e') # log) (ox_records ox')" using both by blast
qed

subsection \<open>Every step keeps the invariant\<close>

lemma file_held_world: "files w' p = files w p \<Longrightarrow> file_held cx p log w' = file_held cx p log w"
  by (simp add: file_held_def)

lemma mark_delivered_inv:
  assumes "native_codec_ok cx" and "with_extension_tmp p \<noteq> p"
    and "file_held cx p log w" and "log_held cx log (ox_records ox)" and "ox_path ox = p"
    and "mark_delivered cx cid ox w = (res, ox', w')"
  shows "ox_path ox' = p \<and> file_held cx p (settle_log cid res log) w'
    \<and> log_held cx (settle_log cid res log) (ox_records ox')"
proof (cases "bt_get (ox_records ox) cid")
  case None
  then show ?thesis
    using assms(3-6) log_held_tried file_held_tried
    by (auto simp: mark_delivered_def settle_log_def)
next
  case (Some r)
  have valid: "record_valid cx (cid, r)" "record_sealed cx r"
    using table_ok_get [of cx "ox_records ox" cid r] assms(4) Some by (auto simp: log_held_def)
  let ?r = "r\<lparr>du_status := ''DELIVERED''\<rparr>"
  obtain res1 w1 where save: "persist cx p (bt_insert cid ?r (ox_records ox)) w = (res1, w1)" by fastforce
  have "file_held cx p (settle_log cid res1 log) w1
      \<and> log_held cx (settle_log cid res1 log) (bt_insert cid ?r (ox_records ox))"
    by (rule settle_inv [OF assms(1,2,3,4) Some _ _ _ save])
       (use valid in \<open>simp_all add: record_valid_status is_pending_def\<close>)
  then show ?thesis using assms(5,6) Some save by (auto simp: mark_delivered_def Let_def)
qed

lemma mark_rejected_inv:
  assumes "native_codec_ok cx" and "with_extension_tmp p \<noteq> p"
    and "file_held cx p log w" and "log_held cx log (ox_records ox)" and "ox_path ox = p"
    and "mark_permanently_rejected cx cid reason ox w = (res, ox', w')"
  shows "ox_path ox' = p \<and> file_held cx p (settle_log cid res log) w'
    \<and> log_held cx (settle_log cid res log) (ox_records ox')"
proof (cases "bt_get (ox_records ox) cid")
  case None
  then show ?thesis
    using assms(3-6) log_held_tried file_held_tried
    by (auto simp: mark_permanently_rejected_def settle_log_def)
next
  case (Some r)
  have valid: "record_valid cx (cid, r)" "record_sealed cx r"
    using table_ok_get [of cx "ox_records ox" cid r] assms(4) Some by (auto simp: log_held_def)
  obtain now w0 where clk: "utc_now w = (now, w0)" by fastforce
  have f0: "file_held cx p log w0" using assms(3) utc_now_frame [OF clk] by (simp add: file_held_def)
  let ?r = "r\<lparr>du_status := ''PERMANENT_REJECTED'', du_last_error_code := Some reason,
             du_rejected_at := Some (nx_rfc3339 cx now)\<rparr>"
  obtain res1 w1 where save: "persist cx p (bt_insert cid ?r (ox_records ox)) w0 = (res1, w1)" by fastforce
  have "file_held cx p (settle_log cid res1 log) w1
      \<and> log_held cx (settle_log cid res1 log) (bt_insert cid ?r (ox_records ox))"
    by (rule settle_inv [OF assms(1,2) f0 assms(4) Some _ _ _ save])
       (use valid in \<open>simp_all add: record_valid_status is_pending_def\<close>)
  then show ?thesis using assms(5,6) Some save clk by (auto simp: mark_permanently_rejected_def Let_def)
qed

lemma open_sees:
  assumes "sees_file (RestartCall, fs)" and "faults w = fs" and "outbox_open cx p w = (res, w')"
    and "file_held cx p log w"
  shows "files w' = files w" and "res = Inr ox \<Longrightarrow> ox_path ox = p \<and> log_held cx log (ox_records ox)"
proof -
  obtain b w1 where ex: "path_exists p w = (b, w1)" by fastforce
  have b: "b \<longleftrightarrow> files w p \<noteq> None \<or> dirs w p" and f1: "files w1 = files w"
    using ex assms(1,2) path_exists_frame [OF ex]
    by (auto simp: path_exists_def next_fault_def sees_file_def split: list.splits fault.splits)
  show "files w' = files w"
    using assms(3) ex f1
    by (auto simp: outbox_open_def Let_def dest!: read_to_string_frame split: bool.splits prod.splits sum.splits if_splits)
  show "ox_path ox = p \<and> log_held cx log (ox_records ox)" if ok: "res = Inr ox"
  proof (cases b)
    case False
    then have none: "files w p = None" using b by simp
    have "ox = \<lparr>ox_path = p, ox_records = []\<rparr>"
      using assms(3) ex False ok by (simp add: outbox_open_def)
    moreover have "log_held cx log []"
      using assms(4) none by (simp add: file_held_def log_held_def table_ok_def holds_log_def)
    ultimately show ?thesis by simp
  next
    case True
    then obtain data w2 t where rd: "read_to_string p w1 = (Inr data, w2)" "nx_read cx data = Inr t"
        "ox = \<lparr>ox_path = p, ox_records = t\<rparr>"
      using assms(3) ex ok
      by (auto simp: outbox_open_def Let_def split: prod.splits sum.splits if_splits)
    then have "files w p = Some data" using read_to_string_content [OF rd(1)] f1 by simp
    then show ?thesis using assms(4) rd by (simp add: file_held_def)
  qed
qed

lemma outbox_step_inv:
  assumes "native_codec_ok cx" and "with_extension_tmp p \<noteq> p" and "sees_file (c, fs)"
    and "outbox_inv cx p (up, w, log)"
  shows "outbox_inv cx p (outbox_step cx p (up, w, log) (c, fs))"
proof -
  let ?w = "w\<lparr>faults := fs\<rparr>"
  have f: "file_held cx p log ?w" using assms(4) by (simp add: outbox_inv_def file_held_def)
  show ?thesis
  proof (cases c)
    case RestartCall
    obtain res w1 where o: "outbox_open cx p ?w = (res, w1)" by fastforce
    have s: "sees_file (RestartCall, fs)" using assms(3) RestartCall by simp
    have fw: "files w1 = files ?w" by (rule open_sees(1) [OF s _ o f]) simp
    then have fh: "file_held cx p log w1" using f by (simp add: file_held_def)
    have "res = Inr ox \<Longrightarrow> ox_path ox = p \<and> log_held cx log (ox_records ox)" for ox
      by (rule open_sees(2) [OF s _ o f]) simp_all
    then show ?thesis
      using fh RestartCall o by (cases res) (auto simp: outbox_step_def outbox_inv_def)
  next
    case (CaptureCall e)
    show ?thesis
    proof (cases up)
      case None
      then show ?thesis using f CaptureCall by (simp add: outbox_step_def outbox_inv_def)
    next
      case (Some ox)
      have h: "log_held cx log (ox_records ox)" "ox_path ox = p"
        using assms(4) Some by (auto simp: outbox_inv_def)
      obtain res ox' w1 where cap: "capture cx e ox ?w = (res, ox', w1)" by (metis prod_cases3)
      note inv = capture_inv [OF assms(1,2) f h cap]
      show ?thesis
        using inv(1,2) inv(3) cap CaptureCall Some
        by (cases res) (auto simp: outbox_step_def outbox_inv_def)
    qed
  next
    case (DeliveredCall cid)
    show ?thesis
    proof (cases up)
      case None
      then show ?thesis using f DeliveredCall by (simp add: outbox_step_def outbox_inv_def)
    next
      case (Some ox)
      have h: "log_held cx log (ox_records ox)" "ox_path ox = p"
        using assms(4) Some by (auto simp: outbox_inv_def)
      obtain res ox' w1 where m: "mark_delivered cx cid ox ?w = (res, ox', w1)" by (metis prod_cases3)
      show ?thesis
        using mark_delivered_inv [OF assms(1,2) f h m] m DeliveredCall Some
        by (simp add: outbox_step_def outbox_inv_def)
    qed
  next
    case (RejectedCall cid reason)
    show ?thesis
    proof (cases up)
      case None
      then show ?thesis using f RejectedCall by (simp add: outbox_step_def outbox_inv_def)
    next
      case (Some ox)
      have h: "log_held cx log (ox_records ox)" "ox_path ox = p"
        using assms(4) Some by (auto simp: outbox_inv_def)
      obtain res ox' w1 where m: "mark_permanently_rejected cx cid reason ox ?w = (res, ox', w1)"
        by (metis prod_cases3)
      show ?thesis
        using mark_rejected_inv [OF assms(1,2) f h m] m RejectedCall Some
        by (simp add: outbox_step_def outbox_inv_def)
    qed
  qed
qed

lemma outbox_run_inv:
  assumes "native_codec_ok cx" and "with_extension_tmp p \<noteq> p" and "files w p = None"
    and "\<forall>c\<in>set calls. sees_file c"
  shows "outbox_inv cx p (outbox_run cx p w calls)"
  using assms(4)
proof (induction calls rule: rev_induct)
  case Nil
  then show ?case using assms(3) by (simp add: outbox_run_def outbox_inv_def file_held_def)
next
  case (snoc c calls)
  obtain up w1 log where s: "outbox_run cx p w calls = (up, w1, log)" by (metis prod_cases3)
  have "outbox_inv cx p (up, w1, log)" using snoc s by simp
  then have "outbox_inv cx p (outbox_step cx p (up, w1, log) (fst c, snd c))"
    using assms(1,2) snoc.prems by (intro outbox_step_inv) simp_all
  then show ?case using s by (simp add: outbox_run_def)
qed

text \<open>A restart on a host without failures reads the table of the file.\<close>

lemma faultless_open:
  assumes "files w p = Some s" and "nx_read cx s = Inr t" and "table_ok cx t"
  shows "fst (outbox_open cx p (w\<lparr>faults := []\<rparr>)) = Inr \<lparr>ox_path = p, ox_records = t\<rparr>"
  using assms
  by (simp add: outbox_open_def path_exists_def read_to_string_def next_fault_def table_ok_def)

end
