(* ===== verification/Native_Port.thy ===== *)
theory Native_Port
  imports Native_Outbox
begin

section \<open>What the native completion ports do\<close>

text \<open>
  The contract of \<^verbatim>\<open>NativeCompletionPort\<close> as a locale, the HTTP port as its
  interpretation with the exact number of its requests, and the durable port over it.
\<close>

subsection \<open>The contract\<close>

locale completion_port =
  fixes submit :: "'n native_port"
    and recover :: "'n native_port"
    and sends :: "'n \<Rightarrow> native_event list"
  assumes submit_sends: "submit e n = (r, n') \<Longrightarrow> \<exists>k. sends n' = sends n @ replicate k e"
    and recover_sends: "recover e n = (r, n') \<Longrightarrow> \<exists>k\<le>1. sends n' = sends n @ replicate k e"
begin

lemma durable_sends:
  assumes "durable_submit cx submit event ox w n = (r, ox', w', n')"
  shows "sends n' = sends n \<or>
    (\<exists>e ox1 w1 k. capture cx event ox w = (Inr e, ox1, w1) \<and> sends n' = sends n @ replicate k e)"
  using assms submit_sends
  by (auto simp: durable_submit_def split: prod.splits sum.splits completes.splits)

lemma replay_one_sends:
  "replay_one cx recover e ox w n = (ok, ox', w', n') \<Longrightarrow> \<exists>k\<le>1. sends n' = sends n @ replicate k e"
  using recover_sends
  by (auto simp: replay_one_def split: prod.splits sum.splits completes.splits native_error.splits)

lemma replay_sends:
  "replay_each cx recover es ox w n = (ok, ox', w', n') \<Longrightarrow>
   \<exists>ks. length ks \<le> length es \<and> set ks \<subseteq> {0, 1} \<and>
     sends n' = sends n @ concat (map2 replicate ks (take (length ks) es))"
proof (induction es arbitrary: ox w n)
  case Nil
  then show ?case by auto
next
  case (Cons e es)
  obtain b ox1 w1 n1 where one: "replay_one cx recover e ox w n = (b, ox1, w1, n1)" by (metis prod_cases4)
  obtain k where k: "k \<le> 1" "sends n1 = sends n @ replicate k e" using replay_one_sends [OF one] by blast
  show ?case
  proof (cases b)
    case False
    then have "sends n' = sends n @ replicate k e" using Cons.prems one k by simp
    then show ?thesis using k(1) by (intro exI [of _ "[k]"]) auto
  next
    case True
    then have "replay_each cx recover es ox1 w1 n1 = (ok, ox', w', n')" using Cons.prems one by simp
    from Cons.IH [OF this] obtain ks where
      "length ks \<le> length es" "set ks \<subseteq> {0, 1}"
      "sends n' = sends n1 @ concat (map2 replicate ks (take (length ks) es))" by blast
    then show ?thesis using k by (intro exI [of _ "k # ks"]) auto
  qed
qed

end

subsection \<open>The HTTP port\<close>

definition answer_at :: "net \<Rightarrow> nat \<Rightarrow> http_answer" where
  "answer_at n i = (if i < length (net_answers n) then net_answers n ! i else NoResponse)"

definition answered :: "http_answer \<Rightarrow> bool" where
  "answered a = (case a of NoResponse \<Rightarrow> False | Responded code _ _ \<Rightarrow> status_is_success code)"

text \<open>The requests needed for at most \<open>m\<close> attempts: up to the first successful status.\<close>

fun attempts_needed :: "http_answer list \<Rightarrow> nat \<Rightarrow> nat" where
  "attempts_needed as 0 = 0"
| "attempts_needed [] (Suc m) = Suc m"
| "attempts_needed (a # as) (Suc m) = (if answered a then 1 else Suc (attempts_needed as m))"

definition submit_verdict :: "http_answer \<Rightarrow> native_error + unit" where
  "submit_verdict a =
     (case a of
        NoResponse \<Rightarrow> Inl (TransportError [Lit ''request failed after bounded retry''])
      | Responded code txt body \<Rightarrow>
          if \<not> status_is_success code then Inl (TransportError [Disp txt])
          else case body of
                 None \<Rightarrow> Inl (RejectedError [Lit ''missing structured acceptance''])
               | Some b \<Rightarrow> if ac_status b = ''DELIVERED'' \<and> ac_delivered b then Inr ()
                           else Inl (RejectedError [Disp (ac_status b)]))"

lemma attempts_needed_le: "attempts_needed as m \<le> m"
  by (induction as m rule: attempts_needed.induct) auto

lemma attempts_needed_pos: "0 < m \<Longrightarrow> 0 < attempts_needed as m"
  by (induction as m rule: attempts_needed.induct) auto

lemma attempts_needed_nil: "attempts_needed [] m = m"
  by (cases m) auto

lemma backoff_small:
  assumes "unat (hp_backoff_ms p) < 2 ^ 42" and "attempt < 32"
  shows "backoff_ms p attempt = Some (unat (hp_backoff_ms p) * 2 ^ attempt)"
proof -
  have "(2 :: nat) ^ attempt \<le> 2 ^ 31" using assms(2) by (intro power_increasing) auto
  then have "unat (hp_backoff_ms p) * 2 ^ attempt < 2 ^ 42 * 2 ^ 31"
    using assms(1) by (intro mult_less_le_imp_less) auto
  then have "int (unat (hp_backoff_ms p) * 2 ^ attempt) < int (2 ^ 42 * 2 ^ 31)" by (simp only: of_nat_less_iff)
  also have "\<dots> < 1000 * 2 ^ 64" by simp
  finally have "int (unat (hp_backoff_ms p) * 2 ^ attempt) < 1000 * 2 ^ 64" .
  then show ?thesis using assms(2) by (simp only: backoff_ms_def Let_def mod_less if_True)
qed

lemma post_event_simps:
  "fst (post_event url e n) = answer_at n 0"
  "snd (post_event url e n) = n\<lparr>net_answers := tl (net_answers n), requests := requests n @ [(url, e)]\<rparr>"
  by (auto simp: post_event_def answer_at_def split: list.splits)

lemma answer_at_tl: "answer_at (n\<lparr>net_answers := tl (net_answers n), requests := rs, slept := ss\<rparr>) i = answer_at n (Suc i)"
  by (cases "net_answers n") (auto simp: answer_at_def)

lemma attempts_needed_step:
  "attempts_needed as (Suc m) =
     (if answered (case as of [] \<Rightarrow> NoResponse | a # _ \<Rightarrow> a) \<or> m = 0 then 1 else Suc (attempts_needed (tl as) m))"
  by (cases as) (auto simp: answered_def attempts_needed_nil)

lemma answer_at_0: "answer_at n 0 = (case net_answers n of [] \<Rightarrow> NoResponse | a # _ \<Rightarrow> a)"
  by (simp add: answer_at_def split: list.splits)

lemma http_attempts_exact:
  "0 < m \<Longrightarrow> unat (hp_backoff_ms p) < 2 ^ 42 \<Longrightarrow> a + m \<le> 32 \<Longrightarrow>
   http_attempts p e a m n =
     (let k = attempts_needed (net_answers n) m
      in (Done (submit_verdict (answer_at n (k - 1))),
          n\<lparr>net_answers := drop k (net_answers n), requests := requests n @ replicate k (hp_url p, e),
            slept := slept n @ map (\<lambda>i. unat (hp_backoff_ms p) * 2 ^ i) [a ..< a + (k - 1)]\<rparr>))"
proof (induction m arbitrary: a n)
  case 0
  then show ?case by simp
next
  case (Suc m)
  let ?a = "answer_at n 0"
  let ?n1 = "n\<lparr>net_answers := tl (net_answers n), requests := requests n @ [(hp_url p, e)]\<rparr>"
  show ?case
  proof (cases "answered ?a \<or> m = 0")
    case True
    then have "attempts_needed (net_answers n) (Suc m) = 1" by (simp only: attempts_needed_step answer_at_0 if_True)
    then show ?thesis
      using True
      by (auto simp: split_beta post_event_simps submit_verdict_def answered_def drop_Suc
          split: http_answer.splits option.splits)
  next
    case False
    then have k: "attempts_needed (net_answers n) (Suc m) = Suc (attempts_needed (tl (net_answers n)) m)"
      by (simp add: attempts_needed_step answer_at_0)
    let ?ms = "unat (hp_backoff_ms p) * 2 ^ a"
    let ?n2 = "?n1\<lparr>slept := slept n @ [?ms]\<rparr>"
    let ?k = "attempts_needed (tl (net_answers n)) m"
    have pos: "0 < ?k" using False by (simp add: attempts_needed_pos)
    have "http_attempts p e a (Suc m) n = http_attempts p e (Suc a) m ?n2"
      using False backoff_small [OF Suc.prems(2), of a] Suc.prems(3)
      by (auto simp: split_beta post_event_simps answered_def Let_def split: http_answer.splits)
    also have "\<dots> = (Done (submit_verdict (answer_at ?n2 (?k - 1))),
        ?n2\<lparr>net_answers := drop ?k (net_answers ?n2), requests := requests ?n2 @ replicate ?k (hp_url p, e),
            slept := slept ?n2 @ map (\<lambda>i. unat (hp_backoff_ms p) * 2 ^ i) [Suc a ..< Suc a + (?k - 1)]\<rparr>)"
      using Suc.IH [of "Suc a" ?n2] False Suc.prems by (simp add: Let_def)
    also have "answer_at ?n2 (?k - 1) = answer_at n ?k"
      using pos answer_at_tl [where n = n and i = "?k - 1"] by simp
    finally show ?thesis
      using pos by (simp add: k drop_Suc upt_conv_Cons)
  qed
qed

lemma http_attempts_sends:
  "http_attempts p e a m n = (r, n') \<Longrightarrow> \<exists>k\<le>m. requests n' = requests n @ replicate k (hp_url p, e)"
proof (induction m arbitrary: a n)
  case 0
  then show ?case by auto
next
  case (Suc m)
  let ?n1 = "n\<lparr>net_answers := tl (net_answers n), requests := requests n @ [(hp_url p, e)]\<rparr>"
  have "(n' = ?n1) \<or> (\<exists>ss. http_attempts p e (Suc a) m (?n1\<lparr>slept := ss\<rparr>) = (r, n'))"
    using Suc.prems
    by (auto simp: split_beta post_event_simps Let_def split: http_answer.splits option.splits if_splits)
  then show ?case
  proof (elim disjE exE)
    assume "n' = ?n1"
    then show ?thesis by (intro exI [of _ 1]) simp
  next
    fix ss assume "http_attempts p e (Suc a) m (?n1\<lparr>slept := ss\<rparr>) = (r, n')"
    from Suc.IH [OF this] obtain k where "k \<le> m" "requests n' = requests n @ (hp_url p, e) # replicate k (hp_url p, e)"
      by auto
    then show ?thesis by (intro exI [of _ "Suc k"]) simp
  qed
qed

lemma http_submit_sends:
  "http_submit env p e n = (r, n') \<Longrightarrow>
   \<exists>k\<le>unat (hp_max_attempts p). requests n' = requests n @ replicate k (hp_url p, e)"
  using http_attempts_sends by (auto simp: http_submit_def split: option.splits)

lemma http_recover_sends:
  "http_recover env p e n = (r, n') \<Longrightarrow>
   \<exists>k\<le>1. requests n' = requests n @ replicate k (hp_recovery_url p, e)"
  by (auto simp: http_recover_def post_event_def split: option.splits http_answer.splits list.splits)

definition net_sends :: "net \<Rightarrow> native_event list" where
  "net_sends n = map snd (requests n)"

interpretation http: completion_port "http_submit env p" "http_recover env p" net_sends
proof
  fix e n r n'
  show "\<exists>k. net_sends n' = net_sends n @ replicate k e" if "http_submit env p e n = (r, n')"
    using http_submit_sends [OF that] by (auto simp: net_sends_def map_replicate)
  show "\<exists>k\<le>1. net_sends n' = net_sends n @ replicate k e" if "http_recover env p e n = (r, n')"
    using http_recover_sends [OF that] by (auto simp: net_sends_def map_replicate)
qed

end
