(* ===== verification/Native_Effects.thy ===== *)
theory Native_Effects
  imports Native_Port
begin

section \<open>Submitting and replaying\<close>

text \<open>
  The effect of one submission and of one replay on the table and on the file.
\<close>

definition outbox_ready :: "native_codec \<Rightarrow> outbox \<Rightarrow> bool" where
  "outbox_ready cx ox \<longleftrightarrow>
     native_codec_ok cx \<and> with_extension_tmp (ox_path ox) \<noteq> ox_path ox \<and> table_ok cx (ox_records ox)"

text \<open>The file of the outbox holds this table.\<close>

definition file_holds :: "native_codec \<Rightarrow> outbox \<Rightarrow> world \<Rightarrow> record_table \<Rightarrow> bool" where
  "file_holds cx ox w t \<longleftrightarrow> (\<exists>s. files w (ox_path ox) = Some s \<and> nx_read cx s = Inr t)"

definition file_record :: "native_codec \<Rightarrow> outbox \<Rightarrow> world \<Rightarrow> string \<Rightarrow> durable_record option" where
  "file_record cx ox w cid =
     (case files w (ox_path ox) of
        None \<Rightarrow> None
      | Some s \<Rightarrow> (case nx_read cx s of Inl _ \<Rightarrow> None | Inr t \<Rightarrow> bt_get t cid))"

lemma file_holds_record: "file_holds cx ox w t \<Longrightarrow> file_record cx ox w cid = bt_get t cid"
  by (auto simp: file_holds_def file_record_def)

lemma persist_stores:
  assumes "outbox_ready cx ox" and "table_ok cx t" and "persist cx (ox_path ox) t w = (r, w')"
  shows "r = Inr () \<Longrightarrow> file_holds cx ox w' t"
    and "files w' (ox_path ox) = files w (ox_path ox) \<or> file_holds cx ox w' t"
proof -
  have rd: "\<And>s. nx_print cx t = Inr s \<Longrightarrow> nx_read cx s = Inr t"
    using assms(1,2) by (auto simp: outbox_ready_def native_codec_ok_def table_ok_def)
  have tmp: "with_extension_tmp (ox_path ox) \<noteq> ox_path ox" using assms(1) by (simp add: outbox_ready_def)
  note eff = persist_effect [OF assms(3) tmp]
  show "r = Inr () \<Longrightarrow> file_holds cx ox w' t" using eff rd by (auto simp: file_holds_def)
  show "files w' (ox_path ox) = files w (ox_path ox) \<or> file_holds cx ox w' t"
    using eff rd by (auto simp: file_holds_def)
qed

lemma capture_effect:
  assumes "outbox_ready cx ox" and "capture cx event ox w = (Inr e, ox', w')"
  shows "ox_path ox' = ox_path ox" and "outbox_ready cx ox'"
    and "file_holds cx ox' w' (ox_records ox')"
    and "bt_get (ox_records ox') (ne_completion_id e) =
      Some (case bt_get (ox_records ox) (ne_completion_id e) of None \<Rightarrow> new_pending e | Some r \<Rightarrow> r)"
    and "c \<noteq> ne_completion_id e \<Longrightarrow> bt_get (ox_records ox') c = bt_get (ox_records ox) c"
    and "ne_completion_id e = hex_digest cx (identity_text event)" and "identity_text e = identity_text event"
    and "ne_record_version event = 1" and "ne_verifier_defect e = ne_verifier_defect event"
proof -
  show v: "ne_record_version event = 1" using assms(2) by (auto simp: capture_def split: if_splits)
  obtain e1 w1 where seal: "native_seal cx event w = (e1, w1)" by fastforce
  let ?id = "ne_completion_id e1"
  define t where "t = (case bt_get (ox_records ox) ?id of
    None \<Rightarrow> bt_insert ?id (new_pending e1) (ox_records ox) | Some _ \<Rightarrow> ox_records ox)"
  have save: "persist cx (ox_path ox) t w1 = (Inr (), w')" and e: "e = e1" and ox': "ox' = ox\<lparr>ox_records := t\<rparr>"
    using assms(2) v seal unfolding t_def by (auto simp: capture_def Let_def split: sum.splits prod.splits)
  have t: "table_ok cx t"
    using assms(1) seal_valid [OF seal v]
    by (auto simp: t_def outbox_ready_def intro: table_ok_insert split: option.splits)
  show "ox_path ox' = ox_path ox" "outbox_ready cx ox'"
    using assms(1) t ox' by (simp_all add: outbox_ready_def)
  show "file_holds cx ox' w' (ox_records ox')"
    using persist_stores(1) [OF assms(1) t save] ox' by (simp add: file_holds_def)
  show "bt_get (ox_records ox') (ne_completion_id e) =
      Some (case bt_get (ox_records ox) (ne_completion_id e) of None \<Rightarrow> new_pending e | Some r \<Rightarrow> r)"
    "c \<noteq> ne_completion_id e \<Longrightarrow> bt_get (ox_records ox') c = bt_get (ox_records ox) c"
    unfolding e ox' by (auto simp: t_def split: option.splits)
  show "ne_completion_id e = hex_digest cx (identity_text event)" "identity_text e = identity_text event"
    "ne_verifier_defect e = ne_verifier_defect event"
    using seal_facts(2,3,10) [OF seal] e by simp_all
qed

lemma mark_effect:
  assumes "outbox_ready cx ox" and "bt_get (ox_records ox) cid = Some r"
    and "mark_delivered cx cid ox w = (res, ox', w')"
  shows "ox_path ox' = ox_path ox" and "outbox_ready cx ox'"
    and "ox_records ox' = bt_insert cid (r\<lparr>du_status := ''DELIVERED''\<rparr>) (ox_records ox)"
    and "res = Inr () \<Longrightarrow> file_holds cx ox' w' (ox_records ox')"
    and "files w' (ox_path ox) = files w (ox_path ox) \<or> file_holds cx ox' w' (ox_records ox')"
proof -
  let ?t = "bt_insert cid (r\<lparr>du_status := ''DELIVERED''\<rparr>) (ox_records ox)"
  have t: "table_ok cx ?t"
    using assms(1,2) table_ok_get [of cx "ox_records ox" cid r]
    by (intro table_ok_insert) (auto simp: outbox_ready_def record_valid_status)
  have save: "persist cx (ox_path ox) ?t w = (res, w')" and ox': "ox' = ox\<lparr>ox_records := ?t\<rparr>"
    using assms(2,3) by (auto simp: mark_delivered_def Let_def split: prod.splits)
  show "ox_path ox' = ox_path ox" "outbox_ready cx ox'" "ox_records ox' = ?t"
    using assms(1) t ox' by (simp_all add: outbox_ready_def)
  show "res = Inr () \<Longrightarrow> file_holds cx ox' w' (ox_records ox')"
    "files w' (ox_path ox) = files w (ox_path ox) \<or> file_holds cx ox' w' (ox_records ox')"
    using persist_stores [OF assms(1) t save] ox' by (auto simp: file_holds_def)
qed

lemma mark_rejected_effect:
  assumes "outbox_ready cx ox" and "bt_get (ox_records ox) cid = Some r"
    and "mark_permanently_rejected cx cid reason ox w = (res, ox', w')"
  shows "ox_path ox' = ox_path ox" and "outbox_ready cx ox'"
    and "\<exists>at. ox_records ox' = bt_insert cid (r\<lparr>du_status := ''PERMANENT_REJECTED'',
           du_last_error_code := Some reason, du_rejected_at := Some at\<rparr>) (ox_records ox)"
proof -
  obtain now w0 where clk: "utc_now w = (now, w0)" by fastforce
  let ?r = "r\<lparr>du_status := ''PERMANENT_REJECTED'', du_last_error_code := Some reason,
             du_rejected_at := Some (nx_rfc3339 cx now)\<rparr>"
  let ?t = "bt_insert cid ?r (ox_records ox)"
  have t: "table_ok cx ?t"
    using assms(1,2) table_ok_get [of cx "ox_records ox" cid r]
    by (intro table_ok_insert) (auto simp: outbox_ready_def record_valid_status)
  have ox': "ox' = ox\<lparr>ox_records := ?t\<rparr>"
    using assms(2,3) clk by (auto simp: mark_permanently_rejected_def Let_def split: prod.splits)
  show "ox_path ox' = ox_path ox" "outbox_ready cx ox'"
    using assms(1) t ox' by (simp_all add: outbox_ready_def)
  show "\<exists>at. ox_records ox' = bt_insert cid (r\<lparr>du_status := ''PERMANENT_REJECTED'',
           du_last_error_code := Some reason, du_rejected_at := Some at\<rparr>) (ox_records ox)"
    using ox' by auto
qed

text \<open>Everything on the host but the file of the outbox and its temporary sibling.\<close>

definition others_same :: "string \<Rightarrow> world \<Rightarrow> world \<Rightarrow> bool" where
  "others_same p w w' \<longleftrightarrow>
     (\<forall>q. q \<noteq> p \<longrightarrow> q \<noteq> with_extension_tmp p \<longrightarrow> files w' q = files w q) \<and> sent w' = sent w"

lemma others_same_refl [simp]: "others_same p w w"
  by (simp add: others_same_def)

lemma others_same_trans: "others_same p u v \<Longrightarrow> others_same p v w \<Longrightarrow> others_same p u w"
  by (simp add: others_same_def)

lemma persist_others: "with_extension_tmp p \<noteq> p \<Longrightarrow> persist cx p t w = (r, w') \<Longrightarrow> others_same p w w'"
  using persist_effect by (simp add: others_same_def)

lemma capture_others:
  assumes "outbox_ready cx ox" and "capture cx event ox w = (r, ox', w')"
  shows "others_same (ox_path ox) w w' \<and> ox_path ox' = ox_path ox"
proof -
  have tmp: "with_extension_tmp (ox_path ox) \<noteq> ox_path ox" using assms(1) by (simp add: outbox_ready_def)
  obtain e1 w1 where seal: "native_seal cx event w = (e1, w1)" by fastforce
  have "others_same (ox_path ox) w w1" using seal_facts(5,8) [OF seal] by (simp add: others_same_def)
  then show ?thesis
    using assms(2) seal persist_others [OF tmp] others_same_trans
    by (auto simp: capture_def Let_def split: if_splits prod.splits sum.splits)
qed

lemma mark_others:
  assumes "outbox_ready cx ox" and "mark_delivered cx cid ox w = (r, ox', w')"
  shows "others_same (ox_path ox) w w'"
  using assms persist_others
  by (auto simp: mark_delivered_def Let_def outbox_ready_def split: option.splits prod.splits)

lemma durable_others:
  assumes "outbox_ready cx ox" and "durable_submit cx submit event ox w n = (res, ox', w', n')"
  shows "others_same (ox_path ox) w w'"
proof (cases "capture cx event ox w")
  case (fields cap ox1 w1)
  note co = capture_others [OF assms(1) fields]
  show ?thesis
  proof (cases cap)
    case (Inl err)
    then show ?thesis using assms(2) fields co by (simp add: durable_submit_def)
  next
    case (Inr e)
    obtain out n1 where sub: "submit e n = (out, n1)" by fastforce
    obtain m ox2 w2 where mk: "mark_delivered cx (ne_completion_id e) ox1 w1 = (m, ox2, w2)" by (metis prod_cases3)
    have "outbox_ready cx ox1" using capture_effect(2) [OF assms(1)] fields Inr by simp
    then have "others_same (ox_path ox) w1 w2" using mark_others mk co by metis
    then show ?thesis
      using assms(2) fields Inr sub mk co others_same_trans
      by (auto simp: durable_submit_def split: completes.splits sum.splits)
  qed
qed

subsection \<open>A submission\<close>

text \<open>
  Whatever port delivers: nothing is sent before the file holds the record, and what the
  answer leaves in the file.
\<close>

lemma durable_submit_effect:
  assumes "outbox_ready cx ox" and "durable_submit cx submit event ox w n = (res, ox', w', n')"
  shows "(n' = n \<and> (\<exists>err. res = Done (Inl err)))
    \<or> (\<exists>e ox1 w1 r n1 out. capture cx event ox w = (Inr e, ox1, w1)
        \<and> file_record cx ox w1 (ne_completion_id e) = Some r
        \<and> r = (case bt_get (ox_records ox) (ne_completion_id e) of None \<Rightarrow> new_pending e | Some r0 \<Rightarrow> r0)
        \<and> submit e n = (out, n1) \<and> n' = n1
        \<and> (case out of
             Done (Inr _) \<Rightarrow>
               (\<exists>m. res = Done m \<and> (m = Inr () \<longrightarrow>
                  file_record cx ox w' (ne_completion_id e) = Some (r\<lparr>du_status := ''DELIVERED''\<rparr>)))
               \<and> file_record cx ox w' (ne_completion_id e) \<in> {Some r, Some (r\<lparr>du_status := ''DELIVERED''\<rparr>)}
           | _ \<Rightarrow> res = out \<and> w' = w1))"
proof (cases "capture cx event ox w")
  case (fields cap ox1 w1)
  show ?thesis
  proof (cases cap)
    case (Inl err)
    then show ?thesis using assms(2) fields by (auto simp: durable_submit_def)
  next
    case (Inr e)
    then have cap: "capture cx event ox w = (Inr e, ox1, w1)" using fields by simp
    note ce = capture_effect [OF assms(1) cap]
    let ?id = "ne_completion_id e"
    define r where "r = (case bt_get (ox_records ox) ?id of None \<Rightarrow> new_pending e | Some r0 \<Rightarrow> r0)"
    have got: "bt_get (ox_records ox1) ?id = Some r" using ce(4) by (simp add: r_def)
    have rec1: "file_record cx ox w1 ?id = Some r"
      using file_holds_record [OF ce(3), of ?id] got ce(1) by (simp add: file_record_def)
    obtain out n1 where sub: "submit e n = (out, n1)" by fastforce
    have fin: "n' = n1 \<and> (case out of
             Done (Inr _) \<Rightarrow>
               (\<exists>m. res = Done m \<and> (m = Inr () \<longrightarrow>
                  file_record cx ox w' ?id = Some (r\<lparr>du_status := ''DELIVERED''\<rparr>)))
               \<and> file_record cx ox w' ?id \<in> {Some r, Some (r\<lparr>du_status := ''DELIVERED''\<rparr>)}
           | _ \<Rightarrow> res = out \<and> w' = w1)"
    proof (cases "out = Done (Inr ())")
      case False
      then show ?thesis
        using assms(2) cap sub by (auto simp: durable_submit_def split: completes.splits sum.splits)
    next
      case True
      obtain m ox2 w2 where mk: "mark_delivered cx ?id ox1 w1 = (m, ox2, w2)" by (metis prod_cases3)
      have res: "res = Done m" "w' = w2" "n' = n1"
        using assms(2) cap sub True mk by (auto simp: durable_submit_def)
      note me = mark_effect [OF ce(2) got mk]
      have new: "file_holds cx ox2 w2 (ox_records ox2) \<Longrightarrow>
          file_record cx ox w2 ?id = Some (r\<lparr>du_status := ''DELIVERED''\<rparr>)"
        using file_holds_record [of cx ox2 w2 "ox_records ox2" ?id] me(1,3) ce(1)
        by (simp add: file_record_def)
      have old: "files w2 (ox_path ox1) = files w1 (ox_path ox1) \<Longrightarrow> file_record cx ox w2 ?id = Some r"
        using rec1 ce(1) by (simp add: file_record_def)
      show ?thesis using True res me(4,5) new old by auto
    qed
    show ?thesis using cap rec1 sub fin r_def by (intro disjI2 exI conjI) (assumption | rule refl | simp)+
  qed
qed

subsection \<open>A replay\<close>

definition recovery_answer :: "http_answer \<Rightarrow> native_error + unit" where
  "recovery_answer a =
     (case a of
        NoResponse \<Rightarrow> Inl (TransportError [Lit ''recovery request failed''])
      | Responded _ _ (Some b) \<Rightarrow> classify_recovery_response b
      | Responded _ _ None \<Rightarrow> Inl (TransportError [Lit ''missing structured recovery response'']))"

definition status_after :: "native_error + unit \<Rightarrow> string" where
  "status_after r =
     (case r of
        Inr _ \<Rightarrow> ''DELIVERED''
      | Inl (PermanentRejected _) \<Rightarrow> ''PERMANENT_REJECTED''
      | Inl _ \<Rightarrow> ''PENDING'')"

lemma http_recover_exact:
  assumes "env (hp_bearer_env p) \<noteq> None"
  shows "http_recover env p e n =
    (Done (recovery_answer (answer_at n 0)),
     n\<lparr>net_answers := tl (net_answers n), requests := requests n @ [(hp_recovery_url p, e)]\<rparr>)"
  using assms
  by (auto simp: http_recover_def recovery_answer_def post_event_simps split_beta
      split: option.splits http_answer.splits)

lemma replay_one_http:
  assumes "outbox_ready cx ox" and "env (hp_bearer_env p) \<noteq> None"
    and "bt_get (ox_records ox) (ne_completion_id e) = Some r" and "is_pending r"
    and "replay_one cx (http_recover env p) e ox w n = (ok, ox', w', n')"
  shows "ok" and "outbox_ready cx ox'"
    and "n' = n\<lparr>net_answers := tl (net_answers n), requests := requests n @ [(hp_recovery_url p, e)]\<rparr>"
    and "c \<noteq> ne_completion_id e \<Longrightarrow> bt_get (ox_records ox') c = bt_get (ox_records ox) c"
    and "\<exists>r'. bt_get (ox_records ox') (ne_completion_id e) = Some r' \<and> du_event r' = du_event r
           \<and> du_status r' = status_after (recovery_answer (answer_at n 0))"
proof -
  let ?a = "recovery_answer (answer_at n 0)"
  note run = assms(5) [unfolded replay_one_def http_recover_exact [where env = env and p = p, OF assms(2)]]
  have all: "ok \<and> outbox_ready cx ox'
    \<and> n' = n\<lparr>net_answers := tl (net_answers n), requests := requests n @ [(hp_recovery_url p, e)]\<rparr>
    \<and> (\<forall>c. c \<noteq> ne_completion_id e \<longrightarrow> bt_get (ox_records ox') c = bt_get (ox_records ox) c)
    \<and> (\<exists>r'. bt_get (ox_records ox') (ne_completion_id e) = Some r' \<and> du_event r' = du_event r
           \<and> du_status r' = status_after ?a)"
  proof (cases ?a)
    case (Inr u)
    obtain m ox1 w1 where mk: "mark_delivered cx (ne_completion_id e) ox w = (m, ox1, w1)" by (metis prod_cases3)
    show ?thesis
      using run Inr mk mark_effect(2,3) [OF assms(1,3) mk] by (auto simp: status_after_def)
  next
    case (Inl err)
    show ?thesis
    proof (cases err)
      case (PermanentRejected reason)
      obtain m ox1 w1 where mk: "mark_permanently_rejected cx (ne_completion_id e) reason ox w = (m, ox1, w1)"
        by (metis prod_cases3)
      show ?thesis
        using run Inl PermanentRejected mk mark_rejected_effect(2,3) [OF assms(1,3) mk]
        by (auto simp: status_after_def)
    qed (use run Inl assms(1,3,4) in \<open>auto simp: status_after_def is_pending_def\<close>)
  qed
  show "ok" "outbox_ready cx ox'"
    "n' = n\<lparr>net_answers := tl (net_answers n), requests := requests n @ [(hp_recovery_url p, e)]\<rparr>"
    "c \<noteq> ne_completion_id e \<Longrightarrow> bt_get (ox_records ox') c = bt_get (ox_records ox) c"
    "\<exists>r'. bt_get (ox_records ox') (ne_completion_id e) = Some r' \<and> du_event r' = du_event r
           \<and> du_status r' = status_after ?a"
    using all by blast+
qed

lemma answer_at_Suc: "answer_at (n\<lparr>net_answers := tl (net_answers n), requests := rs\<rparr>) i = answer_at n (Suc i)"
  by (cases "net_answers n") (auto simp: answer_at_def)

lemma replay_each_http:
  assumes "env (hp_bearer_env p) \<noteq> None"
  shows "outbox_ready cx ox \<Longrightarrow> distinct (map ne_completion_id es) \<Longrightarrow>
    (\<forall>e\<in>set es. \<exists>r. bt_get (ox_records ox) (ne_completion_id e) = Some r \<and> is_pending r \<and> du_event r = e) \<Longrightarrow>
    replay_each cx (http_recover env p) es ox w n = (ok, ox', w', n') \<Longrightarrow>
    ok \<and> requests n' = requests n @ map (\<lambda>e. (hp_recovery_url p, e)) es
    \<and> (\<forall>c. c \<notin> ne_completion_id ` set es \<longrightarrow> bt_get (ox_records ox') c = bt_get (ox_records ox) c)
    \<and> (\<forall>i<length es. \<exists>r. bt_get (ox_records ox') (ne_completion_id (es ! i)) = Some r \<and> du_event r = es ! i
         \<and> du_status r = status_after (recovery_answer (answer_at n i)))"
proof (induction es arbitrary: ox w n)
  case Nil
  then show ?case by simp
next
  case (Cons e es)
  obtain r where r: "bt_get (ox_records ox) (ne_completion_id e) = Some r" "is_pending r" "du_event r = e"
    using Cons.prems(3) by auto
  obtain b ox1 w1 n1 where one: "replay_one cx (http_recover env p) e ox w n = (b, ox1, w1, n1)"
    by (metis prod_cases4)
  note o = replay_one_http [where env = env and p = p, OF Cons.prems(1) assms r(1,2) one]
  have rest: "replay_each cx (http_recover env p) es ox1 w1 n1 = (ok, ox', w', n')"
    using Cons.prems(4) one o(1) by simp
  have fresh: "ne_completion_id e \<notin> ne_completion_id ` set es" using Cons.prems(2) by simp
  have still: "\<forall>e'\<in>set es. \<exists>r. bt_get (ox_records ox1) (ne_completion_id e') = Some r \<and> is_pending r \<and> du_event r = e'"
  proof
    fix e' assume e': "e' \<in> set es"
    then have "ne_completion_id e' \<noteq> ne_completion_id e" using fresh by (metis imageI)
    then have "bt_get (ox_records ox1) (ne_completion_id e') = bt_get (ox_records ox) (ne_completion_id e')"
      by (rule o(4))
    then show "\<exists>r. bt_get (ox_records ox1) (ne_completion_id e') = Some r \<and> is_pending r \<and> du_event r = e'"
      using Cons.prems(3) e' by simp
  qed
  have d: "distinct (map ne_completion_id es)" using Cons.prems(2) by simp
  note ih = Cons.IH [OF o(2) d still rest]
  have ans: "answer_at n1 i = answer_at n (Suc i)" for i
    using o(3) answer_at_Suc by simp
  have req: "requests n' = requests n @ map (\<lambda>e. (hp_recovery_url p, e)) (e # es)" using ih o(3) by simp
  have kept: "bt_get (ox_records ox') c = bt_get (ox_records ox) c" if "c \<notin> ne_completion_id ` set (e # es)" for c
    using that ih o(4) [of c] by simp
  obtain r' where r': "bt_get (ox_records ox1) (ne_completion_id e) = Some r'" "du_event r' = du_event r"
      "du_status r' = status_after (recovery_answer (answer_at n 0))"
    using o(5) by blast
  have "bt_get (ox_records ox') (ne_completion_id e) = Some r'" using ih fresh r'(1) by simp
  then have here: "\<exists>r. bt_get (ox_records ox') (ne_completion_id ((e # es) ! i)) = Some r \<and> du_event r = (e # es) ! i
      \<and> du_status r = status_after (recovery_answer (answer_at n i))" if "i < length (e # es)" for i
    using that ih r'(2,3) r(3) ans by (cases i) auto
  show ?case using ih req kept here by blast
qed

lemma pending_facts:
  assumes "outbox_ready cx ox"
  shows "distinct (map ne_completion_id (pending ox))"
    and "e \<in> set (pending ox) \<Longrightarrow>
      \<exists>r. bt_get (ox_records ox) (ne_completion_id e) = Some r \<and> is_pending r \<and> du_event r = e"
    and "bt_get (ox_records ox) c = Some r \<Longrightarrow> c \<in> ne_completion_id ` set (pending ox) \<longleftrightarrow> is_pending r"
proof -
  have ok: "table_ok cx (ox_records ox)" using assms by (simp add: outbox_ready_def)
  then have inv: "bt_inv (ox_records ox)" by (simp add: table_ok_def)
  have keys: "ne_completion_id (du_event r) = k" if "(k, r) \<in> set (ox_records ox)" for k r
    using that ok by (auto simp: table_ok_def list_all_iff record_valid_def)
  have "map (\<lambda>x. ne_completion_id (du_event (snd x))) (filter (\<lambda>x. is_pending (snd x)) (ox_records ox))
      = map fst (filter (\<lambda>x. is_pending (snd x)) (ox_records ox))"
    using keys by (intro map_cong refl) auto
  then have ids: "map ne_completion_id (pending ox) = map fst (filter (\<lambda>x. is_pending (snd x)) (ox_records ox))"
    by (simp only: pending_def filter_map map_map comp_def case_prod_beta)
  show "distinct (map ne_completion_id (pending ox))"
    unfolding ids using bt_inv_distinct [OF inv] by (simp add: distinct_map_filter)
  show "\<exists>r. bt_get (ox_records ox) (ne_completion_id e) = Some r \<and> is_pending r \<and> du_event r = e"
    if e: "e \<in> set (pending ox)"
  proof -
    obtain k r where kr: "(k, r) \<in> set (ox_records ox)" "is_pending r" "e = du_event r"
      using e by (auto simp: pending_def)
    then show ?thesis using keys [OF kr(1)] bt_rows_get [OF inv] by auto
  qed
  show "c \<in> ne_completion_id ` set (pending ox) \<longleftrightarrow> is_pending r" if "bt_get (ox_records ox) c = Some r"
  proof -
    have "(c, r) \<in> set (ox_records ox)" using that bt_rows_get [OF inv] by simp
    then have "c \<in> fst ` set (filter (\<lambda>x. is_pending (snd x)) (ox_records ox)) \<longleftrightarrow> is_pending r"
      using bt_rows_get [OF inv] that by (auto simp: image_iff)
    moreover have "ne_completion_id ` set (pending ox) = fst ` set (filter (\<lambda>x. is_pending (snd x)) (ox_records ox))"
      using ids by (metis list.set_map)
    ultimately show ?thesis by simp
  qed
qed

end
