(* ===== verification/Native_Acceptance.thy ===== *)
theory Native_Acceptance
  imports Rust_Text
begin

section \<open>The acceptance fence of native work\<close>

text \<open>
  \<^verbatim>\<open>crates/openab-core/src/native_work_acceptance.rs\<close>: one row per dispatch in an SQLite
  database. Every statement commits by itself, so a claim is two steps (the insertion and the
  selection) between which other connections may run; a statement can fail with a text and
  then changes nothing. The database is the version of its schema and the table, if it
  exists. The printer and the reader of times are arguments.
\<close>

record accept_row =
  ar_dispatch_id :: string
  ar_fingerprint :: string
  ar_execution_id :: string
  ar_accepted_at :: string
  ar_acknowledgement :: string

record accept_db =
  ad_version :: int
  ad_table :: "accept_row list option"

record acceptance =
  na_dispatch_id :: string
  na_fingerprint :: string
  na_execution_id :: string
  na_accepted_at :: int
  na_acknowledgement :: "string option"
  na_reused :: bool

datatype accept_error = AcceptStorage string | AcceptSchemaVersion int | AcceptConflict | AcceptInvalidInput string

record accept_codec =
  ax_rfc3339 :: "int \<Rightarrow> string"
  ax_parse_time :: "string \<Rightarrow> string + int"

definition acceptance_schema_version :: int where
  "acceptance_schema_version = 1"

text \<open>A statement: its failure, or its effect on the table.\<close>

type_synonym fault_text = "string option"

definition statement ::
  "fault_text \<Rightarrow> (accept_row list \<Rightarrow> (accept_error + 'a) \<times> accept_row list) \<Rightarrow> accept_db
     \<Rightarrow> (accept_error + 'a) \<times> accept_db" where
  "statement fault f db =
     (case fault of
        Some e \<Rightarrow> (Inl (AcceptStorage e), db)
      | None \<Rightarrow>
          (case ad_table db of
             None \<Rightarrow> (Inl (AcceptStorage ''no such table: native_work_acceptances''), db)
           | Some rows \<Rightarrow> (case f rows of (r, rows') \<Rightarrow> (r, db\<lparr>ad_table := Some rows'\<rparr>))))"

definition insert_or_ignore :: "accept_row \<Rightarrow> accept_row list \<Rightarrow> (accept_error + nat) \<times> accept_row list" where
  "insert_or_ignore row rows =
     (if List.find (\<lambda>r. ar_dispatch_id r = ar_dispatch_id row \<or> ar_execution_id r = ar_execution_id row) rows \<noteq> None
      then (Inr 0, rows) else (Inr 1, rows @ [row]))"

definition read_row :: "accept_codec \<Rightarrow> accept_row \<Rightarrow> accept_error + acceptance" where
  "read_row cx r =
     (case ax_parse_time cx (ar_accepted_at r) of
        Inl e \<Rightarrow> Inl (AcceptStorage e)
      | Inr t \<Rightarrow>
          Inr \<lparr>na_dispatch_id = ar_dispatch_id r, na_fingerprint = ar_fingerprint r,
               na_execution_id = ar_execution_id r, na_accepted_at = t,
               na_acknowledgement = (if ar_acknowledgement r = [] then None else Some (ar_acknowledgement r)),
               na_reused = False\<rparr>)"

definition select_row :: "accept_codec \<Rightarrow> string \<Rightarrow> accept_row list \<Rightarrow> (accept_error + acceptance option) \<times> accept_row list" where
  "select_row cx dispatch_id rows =
     ((case List.find (\<lambda>r. ar_dispatch_id r = dispatch_id) rows of
         None \<Rightarrow> Inr None
       | Some r \<Rightarrow> (case read_row cx r of Inl e \<Rightarrow> Inl e | Inr a \<Rightarrow> Inr (Some a))), rows)"

subsection \<open>Claims\<close>

definition execution_id_of :: "string \<Rightarrow> string" where
  "execution_id_of dispatch_id = ''openab-native:'' @ dispatch_id"

text \<open>A claim up to its insertion.\<close>

definition claim_start ::
  "accept_codec \<Rightarrow> fault_text \<Rightarrow> string \<Rightarrow> string \<Rightarrow> int \<Rightarrow> accept_db \<Rightarrow> (accept_error + nat) \<times> accept_db" where
  "claim_start cx fault dispatch_id fingerprint now db =
     (if trim dispatch_id = [] then (Inl (AcceptInvalidInput ''dispatch_id''), db)
      else if trim fingerprint = [] then (Inl (AcceptInvalidInput ''fingerprint''), db)
      else statement fault
             (insert_or_ignore
                \<lparr>ar_dispatch_id = dispatch_id, ar_fingerprint = fingerprint,
                 ar_execution_id = execution_id_of dispatch_id,
                 ar_accepted_at = ax_rfc3339 cx now, ar_acknowledgement = []\<rparr>) db)"

text \<open>The rest of it, which changes nothing.\<close>

definition claim_finish ::
  "accept_codec \<Rightarrow> fault_text \<Rightarrow> string \<Rightarrow> string \<Rightarrow> nat \<Rightarrow> accept_db \<Rightarrow> accept_error + acceptance" where
  "claim_finish cx fault dispatch_id fingerprint inserted db =
     (case statement fault (select_row cx dispatch_id) db of
        (Inl e, _) \<Rightarrow> Inl e
      | (Inr None, _) \<Rightarrow> Inl (AcceptStorage ''accepted row unavailable'')
      | (Inr (Some a), _) \<Rightarrow>
          (if na_fingerprint a \<noteq> fingerprint then Inl AcceptConflict
           else Inr (a\<lparr>na_reused := (inserted = 0)\<rparr>)))"

definition claim_or_reuse ::
  "accept_codec \<Rightarrow> fault_text \<Rightarrow> fault_text \<Rightarrow> string \<Rightarrow> string \<Rightarrow> int \<Rightarrow> accept_db
     \<Rightarrow> (accept_error + acceptance) \<times> accept_db" where
  "claim_or_reuse cx f1 f2 dispatch_id fingerprint now db =
     (case claim_start cx f1 dispatch_id fingerprint now db of
        (Inl e, db1) \<Rightarrow> (Inl e, db1)
      | (Inr inserted, db1) \<Rightarrow> (claim_finish cx f2 dispatch_id fingerprint inserted db1, db1))"

subsection \<open>Acknowledgements\<close>

definition acknowledge_rows :: "string \<Rightarrow> string \<Rightarrow> accept_row list \<Rightarrow> (accept_error + nat) \<times> accept_row list" where
  "acknowledge_rows dispatch_id ack rows =
     (Inr (length (filter (\<lambda>r. ar_dispatch_id r = dispatch_id) rows)),
      List.map (\<lambda>r. if ar_dispatch_id r = dispatch_id
                    then (if ar_acknowledgement r = [] then r\<lparr>ar_acknowledgement := ack\<rparr> else r) else r) rows)"

definition record_acknowledgement ::
  "fault_text \<Rightarrow> string \<Rightarrow> string \<Rightarrow> accept_db \<Rightarrow> (accept_error + unit) \<times> accept_db" where
  "record_acknowledgement fault dispatch_id ack db =
     (if trim ack = [] then (Inl (AcceptInvalidInput ''acknowledgement''), db)
      else case statement fault (acknowledge_rows dispatch_id ack) db of
             (Inl e, db1) \<Rightarrow> (Inl e, db1)
           | (Inr changed, db1) \<Rightarrow>
               (if changed \<noteq> 1 then (Inl (AcceptStorage ''accepted row unavailable''), db1) else (Inr (), db1)))"

subsection \<open>Opening\<close>

text \<open>
  The version query, the creation of the table and the setting of the version, each with its
  failure; \<^verbatim>\<open>execute_batch\<close> opens no transaction.
\<close>

definition initialize_and_validate ::
  "fault_text \<times> fault_text \<times> fault_text \<Rightarrow> accept_db \<Rightarrow> (accept_error + unit) \<times> accept_db" where
  "initialize_and_validate = (\<lambda>(f1, f2, f3) db.
     case f1 of
       Some e \<Rightarrow> (Inl (AcceptStorage e), db)
     | None \<Rightarrow>
         if ad_version db = 0
         then (case f2 of
                 Some e \<Rightarrow> (Inl (AcceptStorage e), db)
               | None \<Rightarrow>
                   if ad_table db \<noteq> None
                   then (Inl (AcceptStorage ''table native_work_acceptances already exists''), db)
                   else (let db1 = db\<lparr>ad_table := Some []\<rparr>
                         in case f3 of
                              Some e \<Rightarrow> (Inl (AcceptStorage e), db1)
                            | None \<Rightarrow> (Inr (), db1\<lparr>ad_version := 1\<rparr>)))
         else if ad_version db \<noteq> acceptance_schema_version
         then (Inl (AcceptSchemaVersion (ad_version db)), db)
         else (Inr (), db))"

subsection \<open>Runs\<close>

text \<open>
  Steps of any number of connections, each numbered. A claim between its two steps waits under
  the number of its connection; a crash drops it.
\<close>

datatype accept_call =
    OpenStore "fault_text \<times> fault_text \<times> fault_text"
  | StartClaim nat string string int fault_text
  | FinishClaim nat fault_text
  | Acknowledge string string fault_text
  | CrashClaim nat

type_synonym waiting = "nat \<rightharpoonup> string \<times> string \<times> nat"

text \<open>The log: a successful claim with what it returned, newest first.\<close>

type_synonym accept_state = "accept_db \<times> waiting \<times> acceptance list"

definition accept_step :: "accept_codec \<Rightarrow> accept_state \<Rightarrow> accept_call \<Rightarrow> accept_state" where
  "accept_step cx = (\<lambda>(db, wait, log) c.
     case c of
       OpenStore fs \<Rightarrow> (snd (initialize_and_validate fs db), wait, log)
     | StartClaim i d f now fault \<Rightarrow>
         (case claim_start cx fault d f now db of
            (Inl _, db1) \<Rightarrow> (db1, wait(i := None), log)
          | (Inr inserted, db1) \<Rightarrow> (db1, wait(i \<mapsto> (d, f, inserted)), log))
     | FinishClaim i fault \<Rightarrow>
         (case wait i of
            None \<Rightarrow> (db, wait, log)
          | Some (d, f, inserted) \<Rightarrow>
              (case claim_finish cx fault d f inserted db of
                 Inl _ \<Rightarrow> (db, wait(i := None), log)
               | Inr a \<Rightarrow> (db, wait(i := None), a # log)))
     | Acknowledge d ack fault \<Rightarrow> (snd (record_acknowledgement fault d ack db), wait, log)
     | CrashClaim i \<Rightarrow> (db, wait(i := None), log))"

definition accept_run :: "accept_codec \<Rightarrow> accept_call list \<Rightarrow> accept_state" where
  "accept_run cx calls =
     foldl (accept_step cx) (\<lparr>ad_version = 0, ad_table = None\<rparr>, Map.empty, []) calls"

definition rows_of :: "accept_db \<Rightarrow> accept_row list" where
  "rows_of db = (case ad_table db of None \<Rightarrow> [] | Some rows \<Rightarrow> rows)"

subsection \<open>The invariant\<close>

definition same_row :: "accept_row \<Rightarrow> accept_row \<Rightarrow> bool" where
  "same_row r r' \<longleftrightarrow> ar_dispatch_id r' = ar_dispatch_id r \<and> ar_fingerprint r' = ar_fingerprint r
     \<and> ar_execution_id r' = ar_execution_id r \<and> ar_accepted_at r' = ar_accepted_at r
     \<and> (ar_acknowledgement r \<noteq> [] \<longrightarrow> ar_acknowledgement r' = ar_acknowledgement r)"

text \<open>Rows only get added, and an added row only gets its acknowledgement, once.\<close>

definition rows_grow :: "accept_row list \<Rightarrow> accept_row list \<Rightarrow> bool" where
  "rows_grow rows rows' \<longleftrightarrow> (\<exists>new. list_all2 same_row rows (take (length rows) rows') \<and> rows' = take (length rows) rows' @ new)"

definition rows_ok :: "accept_row list \<Rightarrow> bool" where
  "rows_ok rows \<longleftrightarrow> distinct (map ar_dispatch_id rows)
     \<and> (\<forall>r\<in>set rows. ar_execution_id r = execution_id_of (ar_dispatch_id r))"

lemma execution_id_inject [simp]: "execution_id_of a = execution_id_of b \<longleftrightarrow> a = b"
  by (simp add: execution_id_of_def)

lemma same_row_refl [simp]: "same_row r r"
  by (simp add: same_row_def)

lemma same_row_trans: "same_row a b \<Longrightarrow> same_row b c \<Longrightarrow> same_row a c"
  by (auto simp: same_row_def)

lemma rows_grow_iff: "rows_grow rows rows' \<longleftrightarrow> (\<exists>old new. rows' = old @ new \<and> list_all2 same_row rows old)"
proof
  assume "rows_grow rows rows'"
  then show "\<exists>old new. rows' = old @ new \<and> list_all2 same_row rows old" by (auto simp: rows_grow_def)
next
  assume "\<exists>old new. rows' = old @ new \<and> list_all2 same_row rows old"
  then obtain old new where o: "rows' = old @ new" "list_all2 same_row rows old" by blast
  then have "take (length rows) rows' = old" using list_all2_lengthD [OF o(2)] by simp
  then show "rows_grow rows rows'" using o by (auto simp: rows_grow_def)
qed

lemma rows_grow_refl [simp]: "rows_grow rows rows"
  unfolding rows_grow_iff by (rule exI [of _ rows], rule exI [of _ "[]"]) (simp add: list_all2_refl)

lemma rows_grow_trans: "rows_grow a b \<Longrightarrow> rows_grow b c \<Longrightarrow> rows_grow a c"
proof -
  assume "rows_grow a b" "rows_grow b c"
  then obtain o1 n1 o2 n2 where 1: "b = o1 @ n1" "list_all2 same_row a o1" and 2: "c = o2 @ n2" "list_all2 same_row b o2"
    by (auto simp: rows_grow_iff)
  from 2(2) obtain p q where pq: "o2 = p @ q" "list_all2 same_row o1 p"
    unfolding 1(1) by (auto simp: list_all2_append1)
  have "list_all2 same_row a p"
    using 1(2) pq(2) by (rule list_all2_trans [rotated]) (auto intro: same_row_trans)
  then show "rows_grow a c" using 2(1) pq(1) by (auto simp: rows_grow_iff)
qed

lemma rows_grow_row:
  assumes "rows_grow rows rows'" and "r \<in> set rows"
  shows "\<exists>r'\<in>set rows'. same_row r r'"
proof -
  obtain old new where o: "rows' = old @ new" "list_all2 same_row rows old" using assms(1) by (auto simp: rows_grow_iff)
  obtain i where i: "i < length rows" "r = rows ! i" using assms(2) by (auto simp: in_set_conv_nth)
  then have "same_row r (old ! i)" "i < length old" using o(2) by (auto simp: list_all2_conv_all_nth)
  then show ?thesis using o(1) by auto
qed

subsection \<open>The effect of the statements\<close>

lemma rows_grow_snoc: "rows_grow rows (rows @ [r])"
  unfolding rows_grow_iff by (rule exI [of _ rows], rule exI [of _ "[r]"]) (simp add: list_all2_refl)

lemma find_row:
  assumes "rows_ok rows"
  shows "List.find (\<lambda>r. ar_dispatch_id r = d \<or> ar_execution_id r = execution_id_of d) rows = None
    \<longleftrightarrow> (\<forall>r\<in>set rows. ar_dispatch_id r \<noteq> d)"
  using assms by (auto simp: find_None_iff rows_ok_def)

lemma claim_start_effect:
  assumes "claim_start cx fault d f now db = (res, db')" and "rows_ok (rows_of db)"
  shows "rows_grow (rows_of db) (rows_of db')" and "rows_ok (rows_of db')"
    and "res = Inr n \<Longrightarrow> \<exists>r\<in>set (rows_of db'). ar_dispatch_id r = d"
    and "res = Inr n \<Longrightarrow> n \<le> 1 \<and> (n = 1 \<longrightarrow> (\<forall>r\<in>set (rows_of db). ar_dispatch_id r \<noteq> d))"
proof -
  let ?row = "\<lparr>ar_dispatch_id = d, ar_fingerprint = f, ar_execution_id = execution_id_of d,
      ar_accepted_at = ax_rfc3339 cx now, ar_acknowledgement = []\<rparr>"
  have all: "rows_grow (rows_of db) (rows_of db') \<and> rows_ok (rows_of db')
      \<and> (\<forall>n. res = Inr n \<longrightarrow> (\<exists>r\<in>set (rows_of db'). ar_dispatch_id r = d)
           \<and> n \<le> 1 \<and> (n = 1 \<longrightarrow> (\<forall>r\<in>set (rows_of db). ar_dispatch_id r \<noteq> d)))"
  proof (cases "trim d = [] \<or> trim f = [] \<or> fault \<noteq> None \<or> ad_table db = None")
    case True
    then show ?thesis
      using assms by (auto simp: claim_start_def statement_def split: option.splits if_splits)
  next
    case False
    then obtain rows where t: "ad_table db = Some rows" "fault = None" "trim d \<noteq> []" "trim f \<noteq> []" by auto
    have r: "rows_of db = rows" using t(1) by (simp add: rows_of_def)
    show ?thesis
    proof (cases "\<forall>r\<in>set rows. ar_dispatch_id r \<noteq> d")
      case True
      then have "List.find (\<lambda>r. ar_dispatch_id r = d \<or> ar_execution_id r = execution_id_of d) rows = None"
        using find_row assms(2) r by simp
      then have "res = Inr 1" "db' = db\<lparr>ad_table := Some (rows @ [?row])\<rparr>"
        using assms(1) t by (simp_all add: claim_start_def statement_def insert_or_ignore_def)
      then show ?thesis
        using True assms(2) r rows_grow_snoc by (auto simp: rows_of_def rows_ok_def)
    next
      case False
      then have "List.find (\<lambda>r. ar_dispatch_id r = d \<or> ar_execution_id r = execution_id_of d) rows \<noteq> None"
        using find_row assms(2) r by blast
      then have "res = Inr 0" "db' = db\<lparr>ad_table := Some rows\<rparr>"
        using assms(1) t by (simp_all add: claim_start_def statement_def insert_or_ignore_def)
      then show ?thesis using False assms(2) r by (auto simp: rows_of_def)
    qed
  qed
  then show "rows_grow (rows_of db) (rows_of db')" "rows_ok (rows_of db')"
    "res = Inr n \<Longrightarrow> \<exists>r\<in>set (rows_of db'). ar_dispatch_id r = d"
    "res = Inr n \<Longrightarrow> n \<le> 1 \<and> (n = 1 \<longrightarrow> (\<forall>r\<in>set (rows_of db). ar_dispatch_id r \<noteq> d))"
    by blast+
qed

definition reads_as :: "accept_codec \<Rightarrow> accept_row \<Rightarrow> acceptance \<Rightarrow> bool" where
  "reads_as cx r a \<longleftrightarrow> ar_dispatch_id r = na_dispatch_id a \<and> ar_fingerprint r = na_fingerprint a
     \<and> ar_execution_id r = na_execution_id a \<and> ax_parse_time cx (ar_accepted_at r) = Inr (na_accepted_at a)"

lemma claim_finish_effect:
  assumes "claim_finish cx fault d f n db = Inr a"
  shows "\<exists>r\<in>set (rows_of db). reads_as cx r a" and "na_dispatch_id a = d" and "na_fingerprint a = f"
    and "na_reused a \<longleftrightarrow> n = 0"
proof -
  obtain rows r a0 where t: "ad_table db = Some rows" "List.find (\<lambda>r. ar_dispatch_id r = d) rows = Some r"
      "read_row cx r = Inr a0" "na_fingerprint a0 = f" "a = a0\<lparr>na_reused := (n = 0)\<rparr>"
    using assms
    by (auto simp: claim_finish_def statement_def select_row_def split: option.splits sum.splits if_splits)
  have "r \<in> set rows" "ar_dispatch_id r = d" using find_Some_in [OF t(2)] by auto
  moreover have "reads_as cx r a" "na_dispatch_id a0 = ar_dispatch_id r"
    using t(3,5) by (auto simp: read_row_def reads_as_def split: sum.splits)
  ultimately show "\<exists>r\<in>set (rows_of db). reads_as cx r a" "na_dispatch_id a = d" "na_fingerprint a = f"
    "na_reused a \<longleftrightarrow> n = 0"
    using t by (auto simp: rows_of_def)
qed

lemma acknowledge_effect:
  assumes "record_acknowledgement fault d ack db = (res, db')" and "rows_ok (rows_of db)"
  shows "rows_grow (rows_of db) (rows_of db')" and "rows_ok (rows_of db')"
proof -
  have "rows_grow rows (snd (acknowledge_rows d ack rows))" for rows
    unfolding rows_grow_iff acknowledge_rows_def snd_conv
    by (rule exI, rule exI [of _ "[]"])
       (auto simp: list_all2_conv_all_nth same_row_def)
  moreover have "rows_ok rows \<Longrightarrow> rows_ok (snd (acknowledge_rows d ack rows))" for rows
  proof -
    let ?g = "\<lambda>r. if ar_dispatch_id r = d
      then (if ar_acknowledgement r = [] then r\<lparr>ar_acknowledgement := ack\<rparr> else r) else r"
    have same: "map ar_dispatch_id (map ?g rows) = map ar_dispatch_id rows" by simp
    have exe: "ar_execution_id (?g r) = ar_execution_id r" "ar_dispatch_id (?g r) = ar_dispatch_id r" for r
      by simp_all
    show "rows_ok rows \<Longrightarrow> rows_ok (snd (acknowledge_rows d ack rows))"
      unfolding rows_ok_def acknowledge_rows_def snd_conv same set_map by auto
  qed
  ultimately show "rows_grow (rows_of db) (rows_of db')" "rows_ok (rows_of db')"
    using assms
    by (auto simp: record_acknowledgement_def statement_def rows_of_def acknowledge_rows_def
        split: option.splits if_splits)
qed

lemma initialize_effect:
  assumes "initialize_and_validate fs db = (res, db')" and "rows_ok (rows_of db)"
  shows "rows_grow (rows_of db) (rows_of db')" and "rows_ok (rows_of db')"
  using assms
  by (auto simp: initialize_and_validate_def rows_of_def rows_ok_def Let_def
      split: prod.splits option.splits if_splits)

subsection \<open>Every step keeps the invariant\<close>

definition winner :: "string \<Rightarrow> acceptance \<Rightarrow> bool" where
  "winner d a \<longleftrightarrow> na_dispatch_id a = d \<and> \<not> na_reused a"

definition wins :: "string \<Rightarrow> (string \<times> string \<times> nat) option \<Rightarrow> bool" where
  "wins d w = (case w of None \<Rightarrow> False | Some (d', f, n) \<Rightarrow> d' = d \<and> n \<noteq> 0)"

definition accept_rows_inv :: "accept_codec \<Rightarrow> accept_db \<Rightarrow> waiting \<Rightarrow> acceptance list \<Rightarrow> bool" where
  "accept_rows_inv cx db wait log \<longleftrightarrow>
     rows_ok (rows_of db)
     \<and> (\<forall>a\<in>set log. \<exists>r\<in>set (rows_of db). reads_as cx r a)
     \<and> (\<forall>i d f n. wait i = Some (d, f, n) \<longrightarrow> (\<exists>r\<in>set (rows_of db). ar_dispatch_id r = d))"

text \<open>For each dispatch at most one claim has inserted its row, waiting or finished.\<close>

definition one_winner :: "waiting \<Rightarrow> acceptance list \<Rightarrow> bool" where
  "one_winner wait log \<longleftrightarrow>
     (\<forall>d. length (filter (winner d) log) \<le> 1)
     \<and> (\<forall>d i. wins d (wait i) \<longrightarrow> filter (winner d) log = [] \<and> (\<forall>j. wins d (wait j) \<longrightarrow> j = i))"

definition accept_inv :: "accept_codec \<Rightarrow> accept_state \<Rightarrow> bool" where
  "accept_inv cx = (\<lambda>(db, wait, log). accept_rows_inv cx db wait log \<and> one_winner wait log)"

lemma one_winner_drop: "one_winner wait log \<Longrightarrow> one_winner (wait(i := None)) log"
  unfolding one_winner_def by (auto simp: wins_def split: if_splits)

lemma one_winner_add:
  assumes "one_winner wait log" and "n \<noteq> 0 \<Longrightarrow> filter (winner d) log = [] \<and> (\<forall>j. \<not> wins d (wait j))"
  shows "one_winner (wait(i \<mapsto> (d, f, n))) log"
  unfolding one_winner_def
proof (intro conjI allI impI)
  let ?w = "wait(i \<mapsto> (d, f, n))"
  show "length (filter (winner e) log) \<le> 1" for e using assms(1) by (simp add: one_winner_def)
  fix e j assume j: "wins e (?w j)"
  have own: "wins e (?w i) \<longleftrightarrow> e = d \<and> n \<noteq> 0" by (auto simp: wins_def)
  have other: "k \<noteq> i \<Longrightarrow> wins e (?w k) \<longleftrightarrow> wins e (wait k)" for k by simp
  show "filter (winner e) log = []"
    using j own other assms unfolding one_winner_def by (cases "j = i") blast+
  fix k assume k: "wins e (?w k)"
  show "k = j"
    using j k own other assms unfolding one_winner_def by (cases "j = i"; cases "k = i") blast+
qed

lemma one_winner_finish:
  assumes "one_winner wait log" and "\<And>d. winner d a \<longleftrightarrow> wins d (wait i)"
  shows "one_winner (wait(i := None)) (a # log)"
  unfolding one_winner_def
proof (intro conjI allI impI)
  let ?w = "wait(i := None)"
  have old: "wins e (wait i) \<Longrightarrow> filter (winner e) log = []" for e
    using assms(1) unfolding one_winner_def by blast
  show "length (filter (winner e) (a # log)) \<le> 1" for e
    using assms old [of e] by (simp add: one_winner_def)
  fix e j assume "wins e (?w j)"
  then have j: "j \<noteq> i" "wins e (wait j)" by (auto simp: wins_def split: if_splits)
  have "\<not> wins e (wait i)" using assms(1) j unfolding one_winner_def by blast
  moreover have "filter (winner e) log = []" using assms(1) j(2) unfolding one_winner_def by blast
  ultimately show "filter (winner e) (a # log) = []" using assms(2) by simp
  fix k assume "wins e (?w k)"
  then have "wins e (wait k)" by (auto simp: wins_def split: if_splits)
  then show "k = j" using assms(1) j(2) unfolding one_winner_def by blast
qed

lemma reads_as_same: "same_row r r' \<Longrightarrow> reads_as cx r a \<Longrightarrow> reads_as cx r' a"
  by (auto simp: same_row_def reads_as_def)

lemma accept_inv_rows:
  assumes "accept_inv cx (db, wait, log)" and "rows_grow (rows_of db) (rows_of db')" and "rows_ok (rows_of db')"
  shows "accept_inv cx (db', wait, log)"
proof -
  have old: "rows_ok (rows_of db)" "\<And>a. a \<in> set log \<Longrightarrow> \<exists>r\<in>set (rows_of db). reads_as cx r a"
    "\<And>i d f n. wait i = Some (d, f, n) \<Longrightarrow> \<exists>r\<in>set (rows_of db). ar_dispatch_id r = d"
    "one_winner wait log"
    using assms(1) unfolding accept_inv_def accept_rows_inv_def by blast+
  have "\<exists>r\<in>set (rows_of db'). reads_as cx r a" if "a \<in> set log" for a
    using old(2) [OF that] rows_grow_row [OF assms(2)] reads_as_same by blast
  moreover have "\<exists>r\<in>set (rows_of db'). ar_dispatch_id r = d" if "wait i = Some (d, f, n)" for i d f n
    using old(3) [OF that] rows_grow_row [OF assms(2)] unfolding same_row_def by metis
  ultimately show ?thesis
    using assms(3) old(4) unfolding accept_inv_def accept_rows_inv_def by blast
qed

lemma accept_inv_drop: "accept_inv cx (db, wait, log) \<Longrightarrow> accept_inv cx (db, wait(i := None), log)"
  using one_winner_drop by (auto simp: accept_inv_def accept_rows_inv_def split: if_splits)

text \<open>Who has inserted the row of a dispatch is the only one that did.\<close>

lemma accept_inv_start:
  assumes "accept_inv cx (db, wait, log)" and "claim_start cx fault d f now db = (Inr n, db')"
  shows "accept_inv cx (db', wait(i \<mapsto> (d, f, n)), log)"
proof -
  have ok: "rows_ok (rows_of db)" using assms(1) by (simp add: accept_inv_def accept_rows_inv_def)
  note e = claim_start_effect [OF assms(2) ok]
  have inv: "accept_inv cx (db', wait, log)" by (rule accept_inv_rows [OF assms(1) e(1,2)])
  have "filter (winner d) log = [] \<and> (\<forall>j. \<not> wins d (wait j))" if "n \<noteq> 0"
  proof -
    have no: "\<forall>r\<in>set (rows_of db). ar_dispatch_id r \<noteq> d" using e(4) that by auto
    have "\<not> winner d a" if a: "a \<in> set log" for a
    proof -
      obtain r where "r \<in> set (rows_of db)" "reads_as cx r a"
        using assms(1) a by (auto simp: accept_inv_def accept_rows_inv_def)
      then show ?thesis using no by (auto simp: reads_as_def winner_def)
    qed
    moreover have "\<not> wins d (wait j)" for j
    proof
      assume "wins d (wait j)"
      then obtain f' n' where "wait j = Some (d, f', n')" by (auto simp: wins_def split: option.splits)
      then have "\<exists>r\<in>set (rows_of db). ar_dispatch_id r = d"
        using assms(1) unfolding accept_inv_def accept_rows_inv_def by blast
      then show False using no by blast
    qed
    ultimately show ?thesis by (simp add: filter_empty_conv)
  qed
  then have "one_winner (wait(i \<mapsto> (d, f, n))) log"
    using inv by (intro one_winner_add) (auto simp: accept_inv_def)
  then show ?thesis using inv e(3) by (auto simp: accept_inv_def accept_rows_inv_def)
qed

lemma accept_inv_finish:
  assumes "accept_inv cx (db, wait, log)" and "wait i = Some (d, f, n)"
    and "claim_finish cx fault d f n db = Inr a"
  shows "accept_inv cx (db, wait(i := None), a # log)"
proof -
  note e = claim_finish_effect [OF assms(3)]
  have "winner d' a \<longleftrightarrow> wins d' (wait i)" for d'
    using e(2,4) assms(2) by (auto simp: winner_def wins_def)
  then have "one_winner (wait(i := None)) (a # log)"
    using assms(1) by (intro one_winner_finish) (auto simp: accept_inv_def)
  then show ?thesis
    using assms(1) e(1) by (auto simp: accept_inv_def accept_rows_inv_def split: if_splits)
qed

lemma accept_step_effect:
  assumes "accept_inv cx (db, wait, log)" and "accept_step cx (db, wait, log) c = (db', wait', log')"
  shows "accept_inv cx (db', wait', log') \<and> rows_grow (rows_of db) (rows_of db')"
proof -
  have ok: "rows_ok (rows_of db)" using assms(1) by (simp add: accept_inv_def accept_rows_inv_def)
  show ?thesis
  proof (cases c)
    case (OpenStore fs)
    obtain res db1 where o: "initialize_and_validate fs db = (res, db1)" by fastforce
    note e = initialize_effect [OF o ok]
    show ?thesis
      using assms(2) OpenStore o e accept_inv_rows [OF assms(1) e] by (simp add: accept_step_def)
  next
    case (StartClaim i d f now fault)
    obtain res db1 where st: "claim_start cx fault d f now db = (res, db1)" by fastforce
    note e = claim_start_effect(1,2) [OF st ok]
    show ?thesis
    proof (cases res)
      case (Inl x)
      then show ?thesis
        using assms(2) StartClaim st e accept_inv_drop [OF accept_inv_rows [OF assms(1) e]]
        by (auto simp: accept_step_def)
    next
      case (Inr n)
      then show ?thesis
        using assms(2) StartClaim st e accept_inv_start [OF assms(1)] by (auto simp: accept_step_def)
    qed
  next
    case (FinishClaim i fault)
    then show ?thesis
      using assms accept_inv_drop [OF assms(1)] accept_inv_finish [OF assms(1)]
      by (auto simp: accept_step_def split: option.splits prod.splits sum.splits)
  next
    case (Acknowledge d ack fault)
    obtain res db1 where ak: "record_acknowledgement fault d ack db = (res, db1)" by fastforce
    note e = acknowledge_effect [OF ak ok]
    show ?thesis
      using assms(2) Acknowledge ak e accept_inv_rows [OF assms(1) e] by (auto simp: accept_step_def)
  next
    case (CrashClaim i)
    then show ?thesis using assms(2) accept_inv_drop [OF assms(1)] by (auto simp: accept_step_def)
  qed
qed

lemma accept_steps_effect:
  "accept_inv cx (db, wait, log) \<Longrightarrow> foldl (accept_step cx) (db, wait, log) calls = (db', wait', log') \<Longrightarrow>
   accept_inv cx (db', wait', log') \<and> rows_grow (rows_of db) (rows_of db')"
proof (induction calls arbitrary: db wait log)
  case Nil
  then show ?case by simp
next
  case (Cons c calls)
  obtain db1 wait1 log1 where s: "accept_step cx (db, wait, log) c = (db1, wait1, log1)" by (metis prod_cases3)
  note e = accept_step_effect [OF Cons.prems(1) s]
  then show ?case using Cons.IH [of db1 wait1 log1] Cons.prems(2) s rows_grow_trans by auto
qed

lemma accept_inv_empty: "accept_inv cx (\<lparr>ad_version = 0, ad_table = None\<rparr>, Map.empty, [])"
  by (simp add: accept_inv_def accept_rows_inv_def one_winner_def rows_of_def rows_ok_def wins_def)

end
