(* ===== verification/Native_Turn.thy ===== *)
theory Native_Turn
  imports Native_Completion Workflow_Service
begin

section \<open>The end of a turn\<close>

text \<open>
  \<^verbatim>\<open>invoke_workflow_hook_after_dispatch\<close> of \<^verbatim>\<open>crates/openab-core/src/dispatch.rs\<close>: a turn
  with native metadata goes to the native completion port and never to the workflow service;
  any other turn goes to the service. What the hook only logs is its report.
\<close>

record turn_hook =
  th_terminal :: bool
  th_stop_reason :: "string option"
  th_raw_assistant_text :: string
  th_pinned_project_root :: "string option"
  th_session_key :: string
  th_channel :: channel_ref
  th_agent_identity :: "agent_identity option"
  th_native_workflow :: "native_metadata option"
  th_delivery_failed :: bool

datatype hook_report =
    HookNotEndTurn
  | HookNoOutcome message
  | HookMalformedDefect
  | HookDefectMismatch
  | HookSubmitted "(native_error + unit) completes"
  | HookNoService
  | HookNotTerminal
  | HookServed "turn_outcome run"

text \<open>The defect report of the text: the outer \<^const>\<open>None\<close> is the refusal.\<close>

definition defect_of_turn :: "(string \<Rightarrow> string + verifier_defect) \<Rightarrow> string \<Rightarrow> verifier_defect option option" where
  "defect_of_turn read_defect txt =
     (case parse_verifier_defect_block read_defect txt of
        DefectClaim d \<Rightarrow> Some (Some d)
      | DefectNoClaim \<Rightarrow> Some None
      | DefectAmbiguous \<Rightarrow> None
      | DefectMalformed _ \<Rightarrow> None)"

definition defect_pair_is_valid :: "string \<Rightarrow> string \<Rightarrow> verifier_defect option \<Rightarrow> bool" where
  "defect_pair_is_valid role outcome d =
     (if role = ''VERIFIER'' \<and> outcome = ''FAIL'' then d \<noteq> None
      else if role = ''VERIFIER'' \<and> outcome = ''PASS'' then d = None
      else if role = ''PRIMARY'' \<and> outcome = ''COMPLETE'' then d = None
      else if role = ''FINAL_REVIEWER'' \<and> outcome = ''PASS'' then d = None
      else False)"

definition unwrap_or_default :: "string option \<Rightarrow> string" where
  "unwrap_or_default v = (case v of None \<Rightarrow> [] | Some s \<Rightarrow> s)"

definition completion_event ::
  "native_metadata \<Rightarrow> turn_hook \<Rightarrow> string \<Rightarrow> verifier_defect option \<Rightarrow> string \<Rightarrow> native_event" where
  "completion_event m hook outcome d timestamp =
     \<lparr>ne_record_version = 1, ne_completion_id = [], ne_captured_at = [], ne_record_digest = [],
      ne_source = ''openab'', ne_dispatch_id = nm_dispatch_id m, ne_workflow_run_id = nm_workflow_run_id m,
      ne_task_id = nm_task_id m, ne_role = nm_role m, ne_agent_identity = nm_agent m,
      ne_lease_id = nm_lease_id m, ne_lease_generation = nm_lease_generation m,
      ne_expected_revision = nm_expected_revision m, ne_outcome = outcome,
      ne_session_id = th_session_key hook, ne_openab_turn_id = nm_dispatch_id m,
      ne_conversation_key = nm_conversation_key m, ne_language = nm_language m,
      ne_raw_assistant_text = th_raw_assistant_text hook,
      ne_project_id = unwrap_or_default (nm_project_id m),
      ne_project_root = unwrap_or_default (nm_project_root m),
      ne_timestamp = timestamp, ne_transport = nm_transport m, ne_verifier_defect = d\<rparr>"

definition native_turn ::
  "native_codec \<Rightarrow> (string \<Rightarrow> string + verifier_defect) \<Rightarrow> 'n native_port \<Rightarrow> native_metadata \<Rightarrow> turn_hook
     \<Rightarrow> outbox \<Rightarrow> world \<Rightarrow> 'n \<Rightarrow> hook_report \<times> outbox \<times> world \<times> 'n" where
  "native_turn cx read_defect submit m hook ox w n =
     (if th_stop_reason hook \<noteq> Some ''end_turn'' then (HookNotEndTurn, ox, w, n)
      else case resolve_aap_native_completion_outcome m (th_raw_assistant_text hook) of
             None \<Rightarrow>
               (HookNoOutcome
                  (case explain_aap_native_completion_rejection m (th_raw_assistant_text hook) of
                     None \<Rightarrow> [Lit ''unknown canonical completion rejection'']
                   | Some reason \<Rightarrow> reason), ox, w, n)
           | Some outcome \<Rightarrow>
               (case defect_of_turn read_defect (th_raw_assistant_text hook) of
                  None \<Rightarrow> (HookMalformedDefect, ox, w, n)
                | Some d \<Rightarrow>
                    if \<not> defect_pair_is_valid (nm_role m) outcome d then (HookDefectMismatch, ox, w, n)
                    else (let (t, w1) = utc_now w;
                              event = completion_event m hook outcome d (nx_rfc3339 cx t)
                          in case durable_submit cx submit event ox w1 n of
                               (r, ox1, w2, n1) \<Rightarrow> (HookSubmitted r, ox1, w2, n1))))"

definition invoke_workflow_hook ::
  "native_codec \<Rightarrow> (string \<Rightarrow> string + verifier_defect) \<Rightarrow> 'n native_port \<Rightarrow> externals \<Rightarrow> turn_hook
     \<Rightarrow> workflow_service option \<Rightarrow> outbox \<Rightarrow> world \<Rightarrow> 'n
     \<Rightarrow> hook_report \<times> workflow_service option \<times> outbox \<times> world \<times> 'n" where
  "invoke_workflow_hook cx read_defect submit ex hook service ox w n =
     (case th_native_workflow hook of
        Some m \<Rightarrow>
          (case native_turn cx read_defect submit m hook ox w n of
             (report, ox1, w1, n1) \<Rightarrow> (report, service, ox1, w1, n1))
      | None \<Rightarrow>
          (case service of
             None \<Rightarrow> (HookNoService, None, ox, w, n)
           | Some s \<Rightarrow>
               if \<not> th_terminal hook then (HookNotTerminal, service, ox, w, n)
               else (case on_turn_complete ex (th_session_key hook) (th_pinned_project_root hook)
                            (th_channel hook) (th_raw_assistant_text hook) True s w of
                       (out, s1, w1) \<Rightarrow> (HookServed out, Some s1, ox, w1, n))))"

end
