(* ===== verification/Native_Blocks_Facts.thy ===== *)
theory Native_Blocks_Facts
  imports Native_Blocks Workflow_Completion
begin

section \<open>What a native block says\<close>

text \<open>
  A declarative reading of the fields of a block, the parser against it, and the parser of
  the native path against the parser of the workflow path.
\<close>

lemma strip_any_None: "(\<And>p. p \<in> set ps \<Longrightarrow> strip_prefix p s = None) \<Longrightarrow> strip_any ps s = None"
  by (induction ps) auto

text \<open>A text without white space is its own trimmed text.\<close>

lemma trim_no_ws:
  assumes "\<not> has_ws s"
  shows "trim s = s"
proof -
  have no: "s \<noteq> a @ p @ b" if "p \<in> set ws_encodings" for a p b
    using assms that by (auto simp: has_ws_def split_at_None)
  have "strip_any ws_encodings s = None"
    by (rule strip_any_None) (metis no append_Nil strip_prefix_None)
  then have front: "trim_start s = s"
    by (simp add: trim_start_def strip_while.simps [of ws_encodings s])
  have "strip_any (map rev ws_encodings) (rev s) = None"
  proof (rule strip_any_None)
    fix q assume "q \<in> set (map rev ws_encodings)"
    then obtain p where p: "p \<in> set ws_encodings" "q = rev p" by auto
    have "rev s \<noteq> rev p @ r" for r
      using no [OF p(1), of "rev r" "[]"] by (metis append_Nil2 rev_append rev_rev_ident)
    then show "strip_prefix q (rev s) = None" by (simp add: strip_prefix_None p(2))
  qed
  then show ?thesis
    by (simp add: trim_def front trim_end_def strip_while.simps [of "map rev ws_encodings" "rev s"])
qed

text \<open>A line \<^verbatim>\<open>key: value\<close> with one of the five keys, white space around it aside.\<close>

definition field_line :: "string \<Rightarrow> string \<times> string \<Rightarrow> bool" where
  "field_line line = (\<lambda>(k, v). k \<in> set native_required_fields \<and> (\<exists>r. trim line = k @ '':'' @ r \<and> v = trim r))"

definition field_lines :: "string list \<Rightarrow> (string \<times> string) list \<Rightarrow> bool" where
  "field_lines ls kvs = list_all2 field_line (filter (\<lambda>line. trim line \<noteq> []) ls) kvs"

lemma required_key_facts:
  assumes "k \<in> set native_required_fields"
  shows "CHR '':'' \<notin> set k" and "\<not> has_ws k" and "trim k = k" and "k \<noteq> []"
    and "to_lowercase ulow k = k" and "list_all is_ascii k"
proof -
  have "list_all (\<lambda>k. CHR '':'' \<notin> set k \<and> \<not> has_ws k \<and> trim k = k \<and> k \<noteq> [] \<and> list_all is_ascii k
          \<and> map ascii_lower k = k) native_required_fields"
    by code_simp
  then have "CHR '':'' \<notin> set k \<and> \<not> has_ws k \<and> trim k = k \<and> k \<noteq> [] \<and> list_all is_ascii k
      \<and> map ascii_lower k = k"
    using assms by (auto simp: list_all_iff)
  then show "CHR '':'' \<notin> set k" "\<not> has_ws k" "trim k = k" "k \<noteq> []" "list_all is_ascii k"
    "to_lowercase ulow k = k"
    by (simp_all add: to_lowercase_def)
qed

lemma field_line_split: "field_line line (k, v) \<Longrightarrow>
    trim line \<noteq> [] \<and> (\<exists>r. split_once (CHR '':'') (trim line) = Some (k, r) \<and> v = trim r)"
  using required_key_facts(1) split_once_append by (fastforce simp: field_line_def)

text \<open>The parser reads exactly the blocks whose lines are such fields with distinct keys.\<close>

lemma native_fields_from_sound:
  "native_fields_from ls kvs0 = Inr kvs \<Longrightarrow> distinct (map fst kvs0) \<Longrightarrow>
   \<exists>new. kvs = kvs0 @ new \<and> field_lines ls new \<and> distinct (map fst kvs)"
proof (induction ls kvs0 rule: native_fields_from.induct)
  case (1 kvs0)
  then show ?case by (simp add: field_lines_def)
next
  case (2 raw rest kvs0)
  show ?case
  proof (cases "trim raw = []")
    case True
    then have "native_fields_from rest kvs0 = Inr kvs" using "2.prems"(1) by simp
    from "2.IH"(1) [OF refl True this "2.prems"(2)] show ?thesis
      using True by (simp add: field_lines_def)
  next
    case False
    then obtain k r where s: "split_once (CHR '':'') (trim raw) = Some (k, r)"
      using "2.prems"(1) by (cases "split_once (CHR '':'') (trim raw)") auto
    have key: "\<not> has_ws k" "trim k \<noteq> []" "trim k \<in> set native_required_fields" "map_of kvs0 (trim k) = None"
      and rest: "native_fields_from rest (kvs0 @ [(trim k, trim r)]) = Inr kvs"
      using "2.prems"(1) False s by (auto simp: Let_def split: if_splits)
    have fresh: "distinct (map fst (kvs0 @ [(trim k, trim r)]))"
      using "2.prems"(2) key(4) by (auto simp: map_of_eq_None_iff)
    obtain new where new: "kvs = (kvs0 @ [(trim k, trim r)]) @ new" "field_lines rest new"
        "distinct (map fst kvs)"
      using "2.IH"(2) [OF refl False s refl key(1) refl refl key(2) _ _ rest fresh] key by auto
    have eq: "trim raw = k @ '':'' @ r" using split_once_Some [OF s] by simp
    have ink: "k = trim k" using trim_no_ws [OF key(1)] by simp
    have "field_line raw (trim k, trim r)" using key(3) eq ink by (auto simp: field_line_def)
    then have "field_lines (raw # rest) ((trim k, trim r) # new)"
      using new(2) False by (simp add: field_lines_def)
    then show ?thesis using new by (intro exI [of _ "(trim k, trim r) # new"]) simp
  qed
qed

lemma native_fields_from_complete:
  "field_lines ls new \<Longrightarrow> distinct (map fst (kvs0 @ new)) \<Longrightarrow> native_fields_from ls kvs0 = Inr (kvs0 @ new)"
proof (induction ls arbitrary: kvs0 new)
  case Nil
  then show ?case by (simp add: field_lines_def)
next
  case (Cons raw rest)
  show ?case
  proof (cases "trim raw = []")
    case True
    then show ?thesis using Cons by (simp add: field_lines_def)
  next
    case False
    then obtain k v new' where n: "new = (k, v) # new'" "field_line raw (k, v)" "field_lines rest new'"
      using Cons.prems(1) by (cases new) (auto simp: field_lines_def)
    obtain r where r: "split_once (CHR '':'') (trim raw) = Some (k, r)" "v = trim r"
      using field_line_split [OF n(2)] by blast
    have k: "k \<in> set native_required_fields" using n(2) by (simp add: field_line_def)
    note kf = required_key_facts [OF k]
    have "map_of kvs0 k = None" using Cons.prems(2) n(1) by (auto simp: map_of_eq_None_iff)
    then have "native_fields_from (raw # rest) kvs0 = native_fields_from rest (kvs0 @ [(k, v)])"
      using False r k kf by (simp add: Let_def)
    also have "\<dots> = Inr ((kvs0 @ [(k, v)]) @ new')"
      using Cons.IH [OF n(3), of "kvs0 @ [(k, v)]"] Cons.prems(2) n(1) by simp
    finally show ?thesis using n(1) by simp
  qed
qed

lemma native_block_fields_iff:
  "native_block_fields body = Inr kvs \<longleftrightarrow> field_lines (str_lines body) kvs \<and> distinct (map fst kvs)"
  using native_fields_from_sound [of "str_lines body" "[]" kvs]
    native_fields_from_complete [of "str_lines body" kvs "[]"]
  by (auto simp: native_block_fields_def)

lemma native_check_required_None:
  "native_check_required fs kvs = None \<longleftrightarrow> (\<forall>f\<in>set fs. \<exists>v. map_of kvs f = Some v \<and> v \<noteq> [])"
  by (induction fs) (auto split: option.splits)

subsection \<open>The claims that are found\<close>

text \<open>A block with exactly the five fields, each once and with a value, and what it claims.\<close>

definition block_says :: "string \<Rightarrow> native_claim \<Rightarrow> bool" where
  "block_says body c = (\<exists>kvs.
     field_lines (str_lines body) kvs \<and> distinct (map fst kvs)
     \<and> set kvs = {(''role'', nc_role c), (''result'', nc_result c), (''workflow_id'', nc_workflow_id c),
                  (''project_id'', nc_project_id c), (''project_root'', nc_project_root c)}
     \<and> nc_workflow_id c \<noteq> [] \<and> nc_project_id c \<noteq> [] \<and> nc_project_root c \<noteq> []
     \<and> is_canonical_role (nc_role c) \<and> is_canonical_result (nc_result c))"

lemma field_lines_keys: "field_lines ls kvs \<Longrightarrow> set (map fst kvs) \<subseteq> set native_required_fields"
  unfolding field_lines_def
  by (auto simp: list_all2_conv_all_nth in_set_conv_nth field_line_def split: prod.splits)

lemma native_field_of: "map_of kvs f = Some v \<Longrightarrow> native_field kvs f = v"
  by (simp add: native_field_def)

lemma native_single_block_iff: "native_single_block body = NativeClaim c \<longleftrightarrow> block_says body c"
proof
  assume l: "native_single_block body = NativeClaim c"
  then obtain kvs where f: "native_block_fields body = Inr kvs"
    by (auto simp: native_single_block_def split: sum.splits)
  have chk: "native_check_required native_required_fields kvs = None"
    using l f by (auto simp: native_single_block_def split: option.splits)
  have c: "c = \<lparr>nc_role = native_field kvs ''role'', nc_result = native_field kvs ''result'',
               nc_workflow_id = native_field kvs ''workflow_id'', nc_project_id = native_field kvs ''project_id'',
               nc_project_root = native_field kvs ''project_root''\<rparr>"
    "is_canonical_role (nc_role c)" "is_canonical_result (nc_result c)"
    using l f chk by (auto simp: native_single_block_def Let_def split: if_splits)
  have fl: "field_lines (str_lines body) kvs" and d: "distinct (map fst kvs)"
    using f by (auto simp: native_block_fields_iff)
  have have_all: "\<And>k. k \<in> set native_required_fields \<Longrightarrow> map_of kvs k = Some (native_field kvs k) \<and> native_field kvs k \<noteq> []"
    using chk by (auto simp: native_check_required_None native_field_def)
  have "set kvs = (\<lambda>k. (k, native_field kvs k)) ` set native_required_fields"
  proof (intro set_eqI iffI)
    fix x assume x: "x \<in> set kvs"
    then have "fst x \<in> set native_required_fields" using field_lines_keys [OF fl] by auto
    moreover have "map_of kvs (fst x) = Some (snd x)" using x d map_of_is_SomeI [of kvs "fst x" "snd x"] by simp
    ultimately show "x \<in> (\<lambda>k. (k, native_field kvs k)) ` set native_required_fields"
      by (cases x) (force simp: native_field_def)
  next
    fix x assume "x \<in> (\<lambda>k. (k, native_field kvs k)) ` set native_required_fields"
    then show "x \<in> set kvs" using have_all by (auto dest: map_of_SomeD)
  qed
  then show "block_says body c"
    using fl d c have_all unfolding block_says_def
    by (intro exI [of _ kvs]) (auto simp: native_required_fields_def)
next
  assume "block_says body c"
  then obtain kvs where k: "field_lines (str_lines body) kvs" "distinct (map fst kvs)"
      "set kvs = {(''role'', nc_role c), (''result'', nc_result c), (''workflow_id'', nc_workflow_id c),
                  (''project_id'', nc_project_id c), (''project_root'', nc_project_root c)}"
      "nc_workflow_id c \<noteq> []" "nc_project_id c \<noteq> []" "nc_project_root c \<noteq> []"
      "is_canonical_role (nc_role c)" "is_canonical_result (nc_result c)"
    by (auto simp: block_says_def)
  have m: "\<And>k v. (k, v) \<in> set kvs \<Longrightarrow> map_of kvs k = Some v" using k(2) by (simp add: map_of_is_SomeI)
  have vals: "map_of kvs ''role'' = Some (nc_role c)" "map_of kvs ''result'' = Some (nc_result c)"
    "map_of kvs ''workflow_id'' = Some (nc_workflow_id c)" "map_of kvs ''project_id'' = Some (nc_project_id c)"
    "map_of kvs ''project_root'' = Some (nc_project_root c)"
    by (rule m, simp add: k(3))+
  have "nc_role c \<noteq> []" "nc_result c \<noteq> []"
    using k(7,8) by (auto simp: is_canonical_role_def is_canonical_result_def)
  then have "native_check_required native_required_fields kvs = None"
    using vals k(4-6) by (simp add: native_check_required_None native_required_fields_def)
  moreover have "native_block_fields body = Inr kvs" using k(1,2) by (simp add: native_block_fields_iff)
  ultimately show "native_single_block body = NativeClaim c"
    using k(7,8) by (simp add: native_single_block_def native_field_of [OF vals(1)] native_field_of [OF vals(2)]
        native_field_of [OF vals(3)] native_field_of [OF vals(4)] native_field_of [OF vals(5)])
qed

text \<open>A marker that occurs once in the text, as a line of its own.\<close>

definition marker_once :: "string \<Rightarrow> string \<Rightarrow> bool" where
  "marker_once marker txt \<longleftrightarrow> count_matches marker txt = 1 \<and> marker_lines marker txt = 1"

lemma parse_block_iff:
  "parse_role_completion_block txt = NativeClaim c \<longleftrightarrow>
     marker_once role_opening txt \<and> marker_once role_closing txt
     \<and> (\<exists>body. captures role_opening role_closing txt = [body] \<and> block_says body c)"
  unfolding parse_role_completion_block_def marker_once_def Let_def
  by (auto simp: native_single_block_iff split: list.splits)

lemma check_native_claim_iff:
  "check_native_claim c m = Inr u \<longleftrightarrow>
     nc_role c = nm_role m \<and> native_role_result_ok (nc_role c) (nc_result c)
     \<and> nc_workflow_id c = nm_workflow_run_id m
     \<and> present (nm_project_id m) = Some (nc_project_id c)
     \<and> present (nm_project_root m) = Some (nc_project_root c)"
  by (auto simp: check_native_claim_def split: option.splits if_splits)

subsection \<open>The parser of the workflow path finds the same claim\<close>

lemma parse_lines_field_lines:
  "field_lines ls new \<Longrightarrow> distinct (map fst (kvs0 @ new)) \<Longrightarrow> parse_lines ulow ls kvs0 = Inr (kvs0 @ new)"
proof (induction ls arbitrary: kvs0 new)
  case Nil
  then show ?case by (simp add: field_lines_def)
next
  case (Cons raw rest)
  show ?case
  proof (cases "trim raw = []")
    case True
    then show ?thesis using Cons by (simp add: field_lines_def)
  next
    case False
    then obtain k v new' where n: "new = (k, v) # new'" "field_line raw (k, v)" "field_lines rest new'"
      using Cons.prems(1) by (cases new) (auto simp: field_lines_def)
    obtain r where r: "split_once (CHR '':'') (trim raw) = Some (k, r)" "v = trim r"
      using field_line_split [OF n(2)] by blast
    have k: "k \<in> set native_required_fields" using n(2) by (simp add: field_line_def)
    note kf = required_key_facts [OF k]
    have "map_of kvs0 k = None" using Cons.prems(2) n(1) by (auto simp: map_of_eq_None_iff)
    then have "parse_lines ulow (raw # rest) kvs0 = parse_lines ulow rest (kvs0 @ [(k, v)])"
      using False r kf(3,4) kf(5) [of ulow] by (simp add: Let_def)
    also have "\<dots> = Inr ((kvs0 @ [(k, v)]) @ new')"
      using Cons.IH [OF n(3), of "kvs0 @ [(k, v)]"] Cons.prems(2) n(1) by simp
    finally show ?thesis using n(1) by simp
  qed
qed

definition same_claim :: "native_claim \<Rightarrow> parsed_claim \<Rightarrow> bool" where
  "same_claim c pc \<longleftrightarrow>
     role_from_canonical (nc_role c) = Some (pc_role pc) \<and> result_from_canonical (nc_result c) = Some (pc_result pc)
     \<and> pc_workflow_id pc = nc_workflow_id c \<and> pc_project_id pc = nc_project_id c
     \<and> pc_project_root pc = nc_project_root c \<and> pc_scope pc = None \<and> pc_timestamp pc = None"

lemma canonical_role_known: "is_canonical_role r \<Longrightarrow> \<exists>x. role_from_canonical r = Some x"
  by (auto simp: is_canonical_role_def role_from_canonical_def)

lemma canonical_result_known: "is_canonical_result r \<Longrightarrow> \<exists>x. result_from_canonical r = Some x"
  by (auto simp: is_canonical_result_def result_from_canonical_def)

lemma native_claim_is_workflow_claim:
  assumes "parse_role_completion_block txt = NativeClaim c" and "key_order ord"
  shows "\<exists>pc. parse_role_completion ulow ord txt = ParsedClaim pc \<and> same_claim c pc"
proof -
  obtain body where body: "captures role_opening role_closing txt = [body]" "block_says body c"
    using assms(1) by (auto simp: parse_block_iff)
  obtain kvs where k: "field_lines (str_lines body) kvs" "distinct (map fst kvs)"
      "set kvs = {(''role'', nc_role c), (''result'', nc_result c), (''workflow_id'', nc_workflow_id c),
                  (''project_id'', nc_project_id c), (''project_root'', nc_project_root c)}"
      "nc_workflow_id c \<noteq> []" "nc_project_id c \<noteq> []" "nc_project_root c \<noteq> []"
      "is_canonical_role (nc_role c)" "is_canonical_result (nc_result c)"
    using body(2) by (auto simp: block_says_def)
  have m: "\<And>k v. (k, v) \<in> set kvs \<Longrightarrow> map_of kvs k = Some v" using k(2) by (simp add: map_of_is_SomeI)
  have vals: "map_of kvs ''role'' = Some (nc_role c)" "map_of kvs ''result'' = Some (nc_result c)"
    "map_of kvs ''workflow_id'' = Some (nc_workflow_id c)" "map_of kvs ''project_id'' = Some (nc_project_id c)"
    "map_of kvs ''project_root'' = Some (nc_project_root c)"
    by (rule m, simp add: k(3))+
  have none: "map_of kvs ''scope'' = None" "map_of kvs ''timestamp'' = None"
    by (auto simp: map_of_eq_None_iff k(3))
  obtain role res where r: "role_from_canonical (nc_role c) = Some role" "result_from_canonical (nc_result c) = Some res"
    using canonical_role_known [OF k(7)] canonical_result_known [OF k(8)] by blast
  have ne: "nc_role c \<noteq> []" "nc_result c \<noteq> []"
    using k(7,8) by (auto simp: is_canonical_role_def is_canonical_result_def)
  let ?pc = "\<lparr>pc_role = role, pc_result = res, pc_workflow_id = nc_workflow_id c,
      pc_project_id = nc_project_id c, pc_project_root = nc_project_root c, pc_scope = None, pc_timestamp = None\<rparr>"
  have "claim_of_fields kvs ?pc"
    using vals none r ne k(4-6)
    by (auto simp: claim_of_fields_def accepted_fields_def field_or_empty_def REQUIRED_FIELDS_def k(3))
  moreover have "parse_block_fields ulow body = Inr kvs"
    using parse_lines_field_lines [OF k(1), of "[]" ulow] k(2) by (simp add: parse_block_fields_def)
  ultimately have "parse_single_block ulow ord body = ParsedClaim ?pc"
    using parse_single_block_complete [OF assms(2)] by blast
  moreover have "block_captures txt = [body]"
    using body(1) by (simp add: block_captures_def OPENING_MARKER_def CLOSING_MARKER_def role_opening_def role_closing_def)
  ultimately have "parse_role_completion ulow ord txt = ParsedClaim ?pc"
    by (simp add: parse_role_completion_def)
  then show ?thesis using r by (intro exI [of _ ?pc]) (simp add: same_claim_def)
qed

subsection \<open>Outcomes and explanations\<close>

lemma resolve_aap_iff:
  "resolve_aap_native_completion_outcome m txt = Some res \<longleftrightarrow>
     (\<exists>c. parse_role_completion_block txt = NativeClaim c \<and> nc_role c = nm_role m \<and> nc_result c = res
        \<and> native_role_result_ok (nc_role c) res \<and> nc_workflow_id c = nm_workflow_run_id m
        \<and> present (nm_project_id m) = Some (nc_project_id c)
        \<and> present (nm_project_root m) = Some (nc_project_root c))"
proof -
  have "resolve_aap_native_completion_outcome m txt = Some res \<longleftrightarrow>
      (\<exists>c. parse_role_completion_block txt = NativeClaim c \<and> check_native_claim c m = Inr () \<and> nc_result c = res)"
    by (auto simp: resolve_aap_native_completion_outcome_def split: native_parse.splits sum.splits)
  then show ?thesis by (auto simp: check_native_claim_iff)
qed

lemma explained_iff_unresolved:
  "explain_aap_native_completion_rejection m txt = None \<longleftrightarrow> resolve_aap_native_completion_outcome m txt \<noteq> None"
  by (auto simp: explain_aap_native_completion_rejection_def resolve_aap_native_completion_outcome_def
      split: native_parse.splits sum.splits)

subsection \<open>Defect reports\<close>

lemma check_evidence_None:
  "check_evidence seen items = None \<longleftrightarrow>
     (\<forall>x\<in>set items. trim x \<noteq> [] \<and> chars_count x \<le> evidence_item_max_chars) \<and> distinct items
     \<and> set items \<inter> seen = {}"
  by (induction items arbitrary: seen) (auto simp: not_less)

definition defect_within_limits :: "verifier_defect \<Rightarrow> bool" where
  "defect_within_limits d \<longleftrightarrow>
     trim (vd_summary d) \<noteq> [] \<and> chars_count (vd_summary d) \<le> summary_max_chars
     \<and> trim (vd_correction_spec d) \<noteq> [] \<and> chars_count (vd_correction_spec d) \<le> correction_spec_max_chars
     \<and> length (vd_evidence d) \<le> evidence_max_items \<and> distinct (vd_evidence d)
     \<and> (\<forall>x\<in>set (vd_evidence d). trim x \<noteq> [] \<and> chars_count x \<le> evidence_item_max_chars)"

lemma check_defect_claim: "check_defect d = DefectClaim d' \<longleftrightarrow> d' = d \<and> defect_within_limits d"
  using check_evidence_None [of "{}" "vd_evidence d"]
  by (auto simp: check_defect_def defect_within_limits_def not_less split: option.splits if_splits)

lemma parse_defect_claim:
  "parse_verifier_defect_block read_defect txt = DefectClaim d \<Longrightarrow>
     marker_once defect_opening txt \<and> marker_once defect_closing txt \<and> defect_within_limits d
     \<and> (\<exists>raw. captures defect_opening defect_closing txt = [raw] \<and> read_defect (trim raw) = Inr d)"
  unfolding parse_verifier_defect_block_def marker_once_def Let_def
  by (auto simp: check_defect_claim split: list.splits if_splits sum.splits)

end
