(* ===== verification/Native_Properties.thy ===== *)
theory Native_Properties
  imports Native_Effects Native_Acceptance Native_Turn Native_Blocks_Facts Workflow_Example
begin

section \<open>Properties of native work\<close>

text \<open>
  What a native turn may claim, what the outbox keeps, what the ports send, and that a
  dispatch is accepted once.
\<close>

subsection \<open>Concrete native runs\<close>

text \<open>
  A small host, codec and events on which the witnesses of the native properties run. The
  codec knows a list of tables by their position in it.
\<close>

definition n_table_codec :: "record_table list \<Rightarrow> native_codec" where
  "n_table_codec ts =
     \<lparr>nx_sha = take 2, nx_rfc3339 = (\<lambda>_. ''now''),
      nx_print = (\<lambda>t. case position (\<lambda>u. u = t) ts of None \<Rightarrow> Inl ''unknown'' | Some i \<Rightarrow> Inr (replicate i (CHR ''x''))),
      nx_read = (\<lambda>s. if length s < length ts then Inr (ts ! length s) else Inl ''malformed'')\<rparr>"

lemma n_table_codec_ok: "native_codec_ok (n_table_codec ts)"
  by (auto simp: native_codec_ok_def n_table_codec_def position_Some split: option.splits)

definition n_path :: string where "n_path = ''/d/o.json''"

lemma n_path_tmp [simp]: "with_extension_tmp n_path \<noteq> n_path"
  by (simp add: n_path_def with_extension_tmp_def file_stem_def split_last_def split_once_def)

definition n_world :: world where
  "n_world = \<lparr>files = (\<lambda>_. None), dirs = (\<lambda>d. d = ''/d''), resolve = (\<lambda>p. p), faults = [],
     clock = (\<lambda>_. 7), ticks = 0, sent = []\<rparr>"

definition n_event :: "string \<Rightarrow> native_event" where
  "n_event d =
     \<lparr>ne_record_version = 1, ne_completion_id = [], ne_captured_at = [], ne_record_digest = [],
      ne_source = ''openab'', ne_dispatch_id = d, ne_workflow_run_id = ''w'', ne_task_id = ''t'',
      ne_role = ''PRIMARY'', ne_agent_identity = ''a'', ne_lease_id = ''l'', ne_lease_generation = 1,
      ne_expected_revision = 2, ne_outcome = ''COMPLETE'', ne_session_id = ''s'', ne_openab_turn_id = d,
      ne_conversation_key = ''c'', ne_language = None, ne_raw_assistant_text = ''x'',
      ne_project_id = ''p'', ne_project_root = ''/p'', ne_timestamp = ''now'', ne_transport = None,
      ne_verifier_defect = None\<rparr>"

definition n_sealed :: "string \<Rightarrow> native_event" where
  "n_sealed d = fst (native_seal (n_table_codec []) (n_event d) n_world)"

definition n_id :: "string \<Rightarrow> string" where
  "n_id d = ne_completion_id (n_sealed d)"

definition n_row :: "string \<Rightarrow> string \<Rightarrow> string \<times> durable_record" where
  "n_row d status = (n_id d, (new_pending (n_sealed d))\<lparr>du_status := status\<rparr>)"

definition n_codec :: native_codec where
  "n_codec = n_table_codec [[n_row ''d'' ''PENDING''], [n_row ''d'' ''DELIVERED''], [n_row ''dd'' ''PENDING'']]"

lemma n_codec_ok [simp]: "native_codec_ok n_codec"
  by (simp add: n_codec_def n_table_codec_ok)

definition n_outbox :: outbox where
  "n_outbox = \<lparr>ox_path = n_path, ox_records = []\<rparr>"

lemma n_outbox_ready [simp]: "outbox_ready n_codec n_outbox"
  by (simp add: outbox_ready_def n_outbox_def table_ok_def)

definition n_port :: http_port where
  "n_port = \<lparr>hp_url = ''u'', hp_bearer_env = ''K'', hp_max_attempts = 2, hp_backoff_ms = 250, hp_recovery_url = ''u/recovery''\<rparr>"

definition n_env :: "string \<Rightarrow> string option" where
  "n_env v = (if v = ''K'' then Some ''secret'' else None)"

definition n_delivered :: http_answer where
  "n_delivered = Responded 200 ''200 OK'' (Some \<lparr>ac_status = ''DELIVERED'', ac_reason = ''RECOVERY_DELIVERED'', ac_delivered = True\<rparr>)"

definition n_net :: "http_answer list \<Rightarrow> net" where
  "n_net as = \<lparr>net_answers = as, requests = [], slept = []\<rparr>"

subsection \<open>Turns, outbox and ports\<close>

text \<open>C31: A native turn has the outcome \<open>res\<close> exactly when its text has each marker once, on a
  line of its own, and between them exactly the five fields, each once and with a value, that
  name the role, run, project and root of the trusted metadata and a result the role may
  give; and the diagnostic explanation is empty exactly for the turns with an outcome.\<close>

theorem native_outcome_iff:
  "(resolve_aap_native_completion_outcome m txt = Some res \<longleftrightarrow>
      marker_once role_opening txt \<and> marker_once role_closing txt
      \<and> (\<exists>body c. captures role_opening role_closing txt = [body] \<and> block_says body c
           \<and> nc_role c = nm_role m \<and> nc_result c = res \<and> native_role_result_ok (nc_role c) res
           \<and> nc_workflow_id c = nm_workflow_run_id m
           \<and> present (nm_project_id m) = Some (nc_project_id c)
           \<and> present (nm_project_root m) = Some (nc_project_root c)))
   \<and> (explain_aap_native_completion_rejection m txt = None
        \<longleftrightarrow> resolve_aap_native_completion_outcome m txt \<noteq> None)"
  by (simp only: resolve_aap_iff explained_iff_unresolved parse_block_iff simp_thms) blast

text \<open>A block the native parser accepts is accepted by the parser of the workflow path too,
  whatever the hash order of its fields, and claims the same role, result and identity.\<close>

theorem native_parser_is_stricter:
  assumes "parse_role_completion_block txt = NativeClaim c" and "key_order ord"
  shows "\<exists>pc. parse_role_completion ulow ord txt = ParsedClaim pc \<and> same_claim c pc"
  using native_claim_is_workflow_claim [OF assms] .

definition n_text :: string where
  "n_text = join newline [''<role_completion>'', ''role: PRIMARY'', ''result: COMPLETE'', ''workflow_id: w'',
     ''project_id: p'', ''project_root: /p'', ''</role_completion>'']"

definition n_claim :: native_claim where
  "n_claim = \<lparr>nc_role = ''PRIMARY'', nc_result = ''COMPLETE'', nc_workflow_id = ''w'',
     nc_project_id = ''p'', nc_project_root = ''/p''\<rparr>"

lemma n_text_claim: "parse_role_completion_block n_text = NativeClaim n_claim"
  by code_simp

theorem native_parser_is_stricter_witness:
  "\<exists>pc. parse_role_completion (\<lambda>s. s) (\<lambda>ks. ks) n_text = ParsedClaim pc \<and> same_claim n_claim pc"
  by (rule native_parser_is_stricter [OF n_text_claim]) (simp add: key_order_def)


definition n_calls :: "(outbox_call \<times> fault list) list" where
  "n_calls = [(RestartCall, []), (CaptureCall (n_event ''d''), [])]"

lemma n_calls_log: "snd (snd (outbox_run n_codec n_path n_world n_calls)) = [Captured (n_id ''d'')]"
  by code_simp


text \<open>C38: When the lookup of the outbox file fails at a restart, the outbox starts empty, and the
  next reported capture replaces the file: every completion captured before is forgotten.\<close>

theorem failed_lookup_forgets_outbox:
  assumes "native_codec_ok cx" and "with_extension_tmp p \<noteq> p"
    and "outbox_run cx p w (calls @ [(RestartCall, Fail k err # fs), (CaptureCall e, fs')]) = (up, w', log)"
    and "log = Captured cid # log'" and "outbox_run cx p w calls = (up0, w0, log')"
  shows "\<exists>ox e'. fst (outbox_open cx p (w'\<lparr>faults := []\<rparr>)) = Inr ox \<and> pending ox = [e']
     \<and> ne_completion_id e' = cid \<and> identity_text e' = identity_text e"
proof -
  let ?w1 = "w0\<lparr>faults := Fail k err # fs\<rparr>"
  let ?ox0 = "\<lparr>ox_path = p, ox_records = []\<rparr>"
  have "path_exists p ?w1 = (False, ?w1\<lparr>faults := fs\<rparr>)" by (simp add: path_exists_def next_fault_def)
  then have "outbox_open cx p ?w1 = (Inr ?ox0, ?w1\<lparr>faults := fs\<rparr>)" by (simp add: outbox_open_def)
  then have run: "(up, w', log) = outbox_step cx p (Some ?ox0, ?w1\<lparr>faults := fs\<rparr>, log') (CaptureCall e, fs')"
    using assms(3,5) by (simp add: outbox_run_def outbox_step_def)
  let ?w2 = "?w1\<lparr>faults := fs'\<rparr>"
  obtain res ox1 w1 where cap: "capture cx e ?ox0 ?w2 = (res, ox1, w1)" by (metis prod_cases3)
  obtain e' where e': "res = Inr e'" "ne_completion_id e' = cid" "w' = w1"
    using run cap assms(4) by (cases res) (auto simp: outbox_step_def)
  have ready: "outbox_ready cx ?ox0" using assms(1,2) by (simp add: outbox_ready_def table_ok_def)
  note ce = capture_effect [OF ready cap [unfolded e'(1)]]
  have "ox_records ox1 = [(cid, new_pending e')]"
    using cap e' by (auto simp: capture_def Let_def split: if_splits prod.splits sum.splits)
  moreover have "table_ok cx (ox_records ox1)" using ce(2) by (simp add: outbox_ready_def)
  moreover obtain s where "files w' p = Some s" "nx_read cx s = Inr (ox_records ox1)"
    using ce(1,3) e'(3) by (auto simp: file_holds_def)
  ultimately have "fst (outbox_open cx p (w'\<lparr>faults := []\<rparr>)) = Inr \<lparr>ox_path = p, ox_records = [(cid, new_pending e')]\<rparr>"
    using faultless_open by metis
  moreover have "pending \<lparr>ox_path = p, ox_records = [(cid, new_pending e')]\<rparr> = [e']"
    by (simp add: pending_def is_pending_def new_pending_def)
  ultimately show ?thesis using e'(2) ce(7) by blast
qed

definition n_lost_calls :: "(outbox_call \<times> fault list) list" where
  "n_lost_calls = n_calls @ [(RestartCall, [Fail 0 ''EACCES'']), (CaptureCall (n_event ''dd''), [])]"

lemma n_lost_log: "snd (snd (outbox_run n_codec n_path n_world n_lost_calls)) = [Captured (n_id ''dd''), Captured (n_id ''d'')]"
  by code_simp

theorem failed_lookup_forgets_outbox_witness:
  "\<exists>ox e'. fst (outbox_open n_codec n_path
       ((fst (snd (outbox_run n_codec n_path n_world n_lost_calls)))\<lparr>faults := []\<rparr>)) = Inr ox
     \<and> pending ox = [e'] \<and> ne_completion_id e' = n_id ''dd''"
proof -
  obtain up w' log where run: "outbox_run n_codec n_path n_world n_lost_calls = (up, w', log)" by (metis prod_cases3)
  obtain up0 w0 log0 where run0: "outbox_run n_codec n_path n_world n_calls = (up0, w0, log0)" by (metis prod_cases3)
  have log: "log = Captured (n_id ''dd'') # log0" using n_lost_log n_calls_log run run0 by simp
  from failed_lookup_forgets_outbox [OF n_codec_ok n_path_tmp run [unfolded n_lost_calls_def] log run0]
  show ?thesis using run by auto
qed

text \<open>C9: Submitting a completion sends at most the configured number of requests, all to the
  configured address and all with the event that was captured; before the first of them the
  file holds the record of that event, and afterwards it still holds it, as delivered if the
  submission is reported as a success and unchanged if the answer refused it.\<close>

theorem submit_captures_first:
  assumes "outbox_ready cx ox"
    and "durable_submit cx (http_submit env p) event ox w n = (res, ox', w', n')"
    and "requests n' \<noteq> requests n"
  shows "\<exists>e k r ox1 w1. capture cx event ox w = (Inr e, ox1, w1)
     \<and> identity_text e = identity_text event
     \<and> file_record cx ox w1 (ne_completion_id e) = Some r
     \<and> requests n' = requests n @ replicate k (hp_url p, e) \<and> k \<le> unat (hp_max_attempts p)
     \<and> file_record cx ox w' (ne_completion_id e) \<in> {Some r, Some (r\<lparr>du_status := ''DELIVERED''\<rparr>)}
     \<and> (res = Done (Inr ()) \<longrightarrow> file_record cx ox w' (ne_completion_id e) = Some (r\<lparr>du_status := ''DELIVERED''\<rparr>))
     \<and> (fst (http_submit env p e n) \<noteq> Done (Inr ()) \<longrightarrow> file_record cx ox w' (ne_completion_id e) = Some r)"
proof -
  have "n' \<noteq> n" using assms(3) by auto
  then obtain e ox1 w1 r out where s: "capture cx event ox w = (Inr e, ox1, w1)"
      "file_record cx ox w1 (ne_completion_id e) = Some r" "http_submit env p e n = (out, n')"
      "case out of
         Done (Inr _) \<Rightarrow>
           (\<exists>m. res = Done m \<and> (m = Inr () \<longrightarrow>
              file_record cx ox w' (ne_completion_id e) = Some (r\<lparr>du_status := ''DELIVERED''\<rparr>)))
           \<and> file_record cx ox w' (ne_completion_id e) \<in> {Some r, Some (r\<lparr>du_status := ''DELIVERED''\<rparr>)}
       | _ \<Rightarrow> res = out \<and> w' = w1"
    using durable_submit_effect [OF assms(1,2)] by auto
  obtain k where k: "k \<le> unat (hp_max_attempts p)" "requests n' = requests n @ replicate k (hp_url p, e)"
    using http_submit_sends [OF s(3)] by blast
  have "file_record cx ox w' (ne_completion_id e) \<in> {Some r, Some (r\<lparr>du_status := ''DELIVERED''\<rparr>)}
     \<and> (res = Done (Inr ()) \<longrightarrow> file_record cx ox w' (ne_completion_id e) = Some (r\<lparr>du_status := ''DELIVERED''\<rparr>))
     \<and> (out \<noteq> Done (Inr ()) \<longrightarrow> file_record cx ox w' (ne_completion_id e) = Some r)"
    using s(2,4) by (auto split: completes.splits sum.splits)
  then show ?thesis using s(1-3) k capture_effect(7) [OF assms(1) s(1)] by auto
qed

theorem submit_captures_first_witness:
  "\<exists>e k r ox1 w1. capture n_codec (n_event ''d'') n_outbox n_world = (Inr e, ox1, w1)
     \<and> file_record n_codec n_outbox w1 (ne_completion_id e) = Some r \<and> k \<le> (2 :: nat)"
proof -
  let ?run = "durable_submit n_codec (http_submit n_env n_port) (n_event ''d'') n_outbox n_world (n_net [n_delivered])"
  obtain res ox' w' n' where run: "?run = (res, ox', w', n')" by (metis prod_cases4)
  have "length (requests (snd (snd (snd ?run)))) = 1" by code_simp
  then have "requests n' \<noteq> requests (n_net [n_delivered])" using run by (auto simp: n_net_def)
  from submit_captures_first [OF n_outbox_ready run this] show ?thesis by (simp add: n_port_def) blast
qed

text \<open>With a credential, a budget of 1 to 32 attempts and a back-off below \<open>2 ^ 42\<close>
  milliseconds the HTTP port sends one request after another up to the first with a
  successful status, or to the end of the budget, and returns the verdict of the last answer;
  between two requests it waits for the back-off, doubled each time.\<close>

theorem http_submit_exact:
  assumes "env (hp_bearer_env p) \<noteq> None" and "0 < unat (hp_max_attempts p)" and "unat (hp_max_attempts p) \<le> 32"
    and "unat (hp_backoff_ms p) < 2 ^ 42"
  shows "(let k = attempts_needed (net_answers n) (unat (hp_max_attempts p))
     in http_submit env p e n =
          (Done (submit_verdict (answer_at n (k - 1))),
           n\<lparr>net_answers := drop k (net_answers n), requests := requests n @ replicate k (hp_url p, e),
             slept := slept n @ map (\<lambda>i. unat (hp_backoff_ms p) * 2 ^ i) [0 ..< k - 1]\<rparr>)
        \<and> 0 < k \<and> k \<le> unat (hp_max_attempts p))"
proof -
  have "http_submit env p e n = http_attempts p e 0 (unat (hp_max_attempts p)) n"
    using assms(1) by (auto simp: http_submit_def)
  then show ?thesis
    using http_attempts_exact [OF assms(2,4), of 0] assms(3) attempts_needed_le attempts_needed_pos [OF assms(2)]
    by (simp add: Let_def)
qed

theorem http_submit_exact_witness:
  "fst (http_submit n_env n_port (n_event ''d'') (n_net [NoResponse, n_delivered])) = Done (submit_verdict n_delivered)"
proof -
  have "n_env (hp_bearer_env n_port) \<noteq> None" "0 < unat (hp_max_attempts n_port)"
    "unat (hp_max_attempts n_port) \<le> 32" "unat (hp_backoff_ms n_port) < 2 ^ 42"
    by (simp_all add: n_env_def n_port_def)
  note exact = http_submit_exact [where env = n_env and p = n_port, OF this,
      of "n_net [NoResponse, n_delivered]" "n_event ''d''"]
  have two: "unat (hp_max_attempts n_port) = Suc (Suc 0)" by (simp add: n_port_def)
  have "attempts_needed (net_answers (n_net [NoResponse, n_delivered])) (Suc (Suc 0)) = Suc (Suc 0)"
    "answer_at (n_net [NoResponse, n_delivered]) (Suc 0) = n_delivered"
    by (simp_all add: n_net_def answered_def answer_at_def)
  then show ?thesis using exact unfolding Let_def two by simp
qed

text \<open>A replay sends each pending event once to the recovery address, in the order of the
  ids, and leaves its record delivered, permanently rejected or pending as its own answer
  says; no other record changes and nothing else is sent.\<close>

theorem replay_settles_each:
  assumes "outbox_ready cx ox" and "env (hp_bearer_env p) \<noteq> None"
    and "replay_pending cx (http_recover env p) ox w n = (ok, ox', w', n')"
  shows "ok \<and> requests n' = requests n @ map (\<lambda>e. (hp_recovery_url p, e)) (pending ox)
    \<and> (\<forall>i<length (pending ox). \<exists>r.
         bt_get (ox_records ox') (ne_completion_id (pending ox ! i)) = Some r \<and> du_event r = pending ox ! i
         \<and> du_status r = status_after (recovery_answer (answer_at n i)))
    \<and> (\<forall>c r. bt_get (ox_records ox) c = Some r \<longrightarrow> \<not> is_pending r \<longrightarrow> bt_get (ox_records ox') c = Some r)"
proof -
  note pf = pending_facts [OF assms(1)]
  have each: "\<forall>e\<in>set (pending ox). \<exists>r. bt_get (ox_records ox) (ne_completion_id e) = Some r \<and> is_pending r \<and> du_event r = e"
    using pf(2) by blast
  have "replay_each cx (http_recover env p) (pending ox) ox w n = (ok, ox', w', n')"
    using assms(3) by (simp add: replay_pending_def)
  note out = replay_each_http [where env = env and p = p, OF assms(2,1) pf(1) each this]
  have "bt_get (ox_records ox') c = Some r" if "bt_get (ox_records ox) c = Some r" "\<not> is_pending r" for c r
    using out pf(3) [OF that(1)] that by simp
  then show ?thesis using out by blast
qed

definition n_held :: outbox where
  "n_held = \<lparr>ox_path = n_path, ox_records = [n_row ''d'' ''PENDING'']\<rparr>"

lemma n_held_ready: "outbox_ready n_codec n_held"
proof -
  have "list_all (record_valid n_codec) (ox_records n_held)
      \<and> list_all (\<lambda>x. record_sealed n_codec (snd x)) (ox_records n_held)" by code_simp
  then show ?thesis
    by (auto simp: outbox_ready_def n_held_def table_ok_def bt_inv_def bt_get_def split: if_splits)
qed

theorem replay_settles_each_witness:
  "\<exists>r. bt_get (ox_records (fst (snd (replay_pending n_codec (http_recover n_env n_port) n_held n_world (n_net [n_delivered])))))
         (n_id ''d'') = Some r \<and> du_status r = ''DELIVERED''"
proof -
  obtain ok ox' w' n' where run:
    "replay_pending n_codec (http_recover n_env n_port) n_held n_world (n_net [n_delivered]) = (ok, ox', w', n')"
    by (metis prod_cases4)
  have env: "n_env (hp_bearer_env n_port) \<noteq> None" by (simp add: n_env_def n_port_def)
  have p: "pending n_held = [n_sealed ''d'']"
    by (simp add: pending_def n_held_def n_row_def is_pending_def new_pending_def)
  have "status_after (recovery_answer (answer_at (n_net [n_delivered]) 0)) = ''DELIVERED''"
    by (simp add: answer_at_def n_net_def n_delivered_def recovery_answer_def classify_recovery_response_def status_after_def)
  then show ?thesis
    using replay_settles_each [OF n_held_ready env run] run p by (auto simp: n_id_def)
qed

lemma native_turn_cases:
  assumes "native_turn cx read_defect submit m hook ox w n = (report, ox', w', n')"
  shows "(ox' = ox \<and> w' = w \<and> n' = n) \<or> (\<exists>outcome d r. th_stop_reason hook = Some ''end_turn''
      \<and> resolve_aap_native_completion_outcome m (th_raw_assistant_text hook) = Some outcome
      \<and> defect_of_turn read_defect (th_raw_assistant_text hook) = Some d
      \<and> defect_pair_is_valid (nm_role m) outcome d
      \<and> durable_submit cx submit (completion_event m hook outcome d (nx_rfc3339 cx (clock w (ticks w))))
           ox (w\<lparr>ticks := Suc (ticks w)\<rparr>) n = (r, ox', w', n'))"
  using assms
  by (auto simp: native_turn_def utc_now_def Let_def split: if_splits option.splits prod.splits)

text \<open>C25: A native turn never reaches the workflow service: whatever it is answered, the service
  is as before and no file but the outbox and its temporary sibling changes. If it sends
  anything, the turn ended with \<open>end_turn\<close>, its text has the outcome that is sent, the sent
  events carry the fence of the trusted metadata, and a defect report is attached exactly to
  a failed verification, within the limits of its fields.\<close>

theorem native_turn_is_fenced:
  assumes "th_native_workflow hook = Some m" and "outbox_ready cx ox"
    and "invoke_workflow_hook cx read_defect (http_submit env p) ex hook service ox w n = (report, service', ox', w', n')"
  shows "service' = service
    \<and> (\<forall>q. q \<noteq> ox_path ox \<longrightarrow> q \<noteq> with_extension_tmp (ox_path ox) \<longrightarrow> files w' q = files w q)
    \<and> sent w' = sent w
    \<and> (requests n' \<noteq> requests n \<longrightarrow>
         (\<exists>outcome d e k. th_stop_reason hook = Some ''end_turn''
            \<and> resolve_aap_native_completion_outcome m (th_raw_assistant_text hook) = Some outcome
            \<and> requests n' = requests n @ replicate k (hp_url p, e)
            \<and> identity_text e = join newline
                [nm_dispatch_id m, nm_workflow_run_id m, nm_task_id m, nm_role m, nm_agent m, nm_lease_id m,
                 word_str (nm_lease_generation m), word_str (nm_expected_revision m), outcome]
            \<and> ne_verifier_defect e = d
            \<and> (d \<noteq> None \<longleftrightarrow> nm_role m = ''VERIFIER'' \<and> outcome = ''FAIL'')
            \<and> (\<forall>x. d = Some x \<longrightarrow> defect_within_limits x)))"
proof -
  have turn: "native_turn cx read_defect (http_submit env p) m hook ox w n = (report, ox', w', n')" and sv: "service' = service"
    using assms(1,3) by (auto simp: invoke_workflow_hook_def split: prod.splits)
  from native_turn_cases [OF turn] show ?thesis
  proof (elim disjE exE conjE)
    assume "ox' = ox" "w' = w" "n' = n"
    then show ?thesis using sv by simp
  next
    fix outcome d r
    let ?event = "completion_event m hook outcome d (nx_rfc3339 cx (clock w (ticks w)))"
    let ?w1 = "w\<lparr>ticks := Suc (ticks w)\<rparr>"
    assume h: "th_stop_reason hook = Some ''end_turn''"
      "resolve_aap_native_completion_outcome m (th_raw_assistant_text hook) = Some outcome"
      "defect_of_turn read_defect (th_raw_assistant_text hook) = Some d"
      "defect_pair_is_valid (nm_role m) outcome d"
      "durable_submit cx (http_submit env p) ?event ox ?w1 n = (r, ox', w', n')"
    have same: "others_same (ox_path ox) w w'"
      using durable_others [OF assms(2) h(5)] by (simp add: others_same_def)
    have pair: "d \<noteq> None \<longleftrightarrow> nm_role m = ''VERIFIER'' \<and> outcome = ''FAIL''"
      using h(4) by (auto simp: defect_pair_is_valid_def split: if_splits)
    have limits: "d = Some x \<Longrightarrow> defect_within_limits x" for x
      using h(3) parse_defect_claim [of read_defect "th_raw_assistant_text hook" x]
      by (auto simp: defect_of_turn_def split: defect_parse.splits)
    have "\<exists>e k. requests n' = requests n @ replicate k (hp_url p, e) \<and> identity_text e = identity_text ?event
        \<and> ne_verifier_defect e = d" if moved: "requests n' \<noteq> requests n"
    proof -
      have "n' \<noteq> n" using moved by auto
      then obtain e ox1 w2 out where s: "capture cx ?event ox ?w1 = (Inr e, ox1, w2)" "http_submit env p e n = (out, n')"
        using durable_submit_effect [OF assms(2) h(5)] by auto
      obtain k where "requests n' = requests n @ replicate k (hp_url p, e)" using http_submit_sends [OF s(2)] by blast
      then show ?thesis
        using capture_effect(7,9) [OF assms(2) s(1)] by (auto simp: completion_event_def)
    qed
    moreover have "identity_text ?event = join newline
        [nm_dispatch_id m, nm_workflow_run_id m, nm_task_id m, nm_role m, nm_agent m, nm_lease_id m,
         word_str (nm_lease_generation m), word_str (nm_expected_revision m), outcome]"
      by (simp add: identity_text_def completion_event_def)
    ultimately show ?thesis
      using sv same h(1,2) pair limits by (auto simp: others_same_def)
  qed
qed

definition n_meta :: native_metadata where
  "n_meta = \<lparr>nm_dispatch_id = ''d'', nm_conversation_key = ''c'', nm_workflow_run_id = ''w'', nm_task_id = ''t'',
     nm_role = ''PRIMARY'', nm_agent = ''a'', nm_lease_id = ''l'', nm_lease_generation = 1,
     nm_expected_revision = 2, nm_language = None, nm_project_id = Some ''p'', nm_project_root = Some ''/p'',
     nm_native_execution_session_key = None, nm_transport = None, nm_delivery_destination = None,
     nm_scope_policy = None\<rparr>"

definition n_hook :: turn_hook where
  "n_hook = \<lparr>th_terminal = True, th_stop_reason = Some ''end_turn'', th_raw_assistant_text = n_text,
     th_pinned_project_root = None, th_session_key = ''s'',
     th_channel = \<lparr>cr_platform = ''discord'', cr_channel_id = ''1'', cr_thread_id = None, cr_parent_id = None,
       cr_origin_event_id = None\<rparr>,
     th_agent_identity = None, th_native_workflow = Some n_meta, th_delivery_failed = False\<rparr>"

theorem native_turn_is_fenced_witness:
  "fst (snd (invoke_workflow_hook n_codec (\<lambda>_. Inl ''no JSON'') (http_submit n_env n_port) x_ex n_hook (Some x_service)
      n_outbox n_world (n_net [n_delivered]))) = Some x_service"
proof -
  obtain report service' ox' w' n' where run:
    "invoke_workflow_hook n_codec (\<lambda>_. Inl ''no JSON'') (http_submit n_env n_port) x_ex n_hook (Some x_service)
      n_outbox n_world (n_net [n_delivered]) = (report, service', ox', w', n')"
    by (metis prod_cases5)
  have "th_native_workflow n_hook = Some n_meta" by (simp add: n_hook_def)
  from native_turn_is_fenced [OF this n_outbox_ready run] show ?thesis using run by simp
qed

text \<open>C19: However the claims, acknowledgements, crashes and openings of any number of connections
  interleave: all successful claims of a dispatch return one fingerprint, one execution
  identity, which is that of the dispatch alone, and one time of acceptance; at most one of
  them is told that it accepted the dispatch; and the rows only get added, or acknowledged
  once.\<close>

theorem one_execution_per_dispatch:
  assumes "accept_run cx before = (db0, wait0, log0)" and "accept_run cx (before @ after) = (db, wait, log)"
    and "a \<in> set log" and "b \<in> set log" and "na_dispatch_id a = na_dispatch_id b"
  shows "na_fingerprint a = na_fingerprint b \<and> na_execution_id a = na_execution_id b
    \<and> na_accepted_at a = na_accepted_at b \<and> na_execution_id a = execution_id_of (na_dispatch_id a)
    \<and> length (filter (\<lambda>x. na_dispatch_id x = na_dispatch_id a \<and> \<not> na_reused x) log) \<le> 1
    \<and> rows_grow (rows_of db0) (rows_of db)"
proof -
  have i0: "accept_inv cx (db0, wait0, log0)"
    using accept_steps_effect [OF accept_inv_empty] assms(1) unfolding accept_run_def by blast
  have run: "foldl (accept_step cx) (db0, wait0, log0) after = (db, wait, log)"
    using assms(1,2) by (simp add: accept_run_def)
  have inv: "accept_inv cx (db, wait, log)" and grow: "rows_grow (rows_of db0) (rows_of db)"
    using accept_steps_effect [OF i0 run] by auto
  obtain r s where r: "r \<in> set (rows_of db)" "reads_as cx r a" and s: "s \<in> set (rows_of db)" "reads_as cx s b"
    using inv assms(3,4) unfolding accept_inv_def accept_rows_inv_def by blast
  have ok: "rows_ok (rows_of db)" and win: "length (filter (winner (na_dispatch_id a)) log) \<le> 1"
    using inv unfolding accept_inv_def accept_rows_inv_def one_winner_def by blast+
  have "r = s"
    using ok r s assms(5) unfolding rows_ok_def reads_as_def
    by (metis distinct_map inj_onD)
  then show ?thesis
    using r s ok win grow by (auto simp: reads_as_def rows_ok_def winner_def [abs_def])
qed

definition n_accept :: accept_codec where
  "n_accept = \<lparr>ax_rfc3339 = (\<lambda>t. replicate (nat t) (CHR ''t'')), ax_parse_time = (\<lambda>s. Inr (int (length s)))\<rparr>"

definition n_accept_calls :: "accept_call list" where
  "n_accept_calls = [OpenStore (None, None, None), StartClaim 1 ''d'' ''f'' 5 None, StartClaim 2 ''d'' ''f'' 6 None,
     FinishClaim 2 None, FinishClaim 1 None]"

definition n_acceptance :: "bool \<Rightarrow> acceptance" where
  "n_acceptance reused = \<lparr>na_dispatch_id = ''d'', na_fingerprint = ''f'', na_execution_id = ''openab-native:d'',
     na_accepted_at = 5, na_acknowledgement = None, na_reused = reused\<rparr>"

lemma n_accept_log: "snd (snd (accept_run n_accept n_accept_calls)) = [n_acceptance False, n_acceptance True]"
  by code_simp

theorem one_execution_per_dispatch_witness:
  "na_execution_id (n_acceptance False) = execution_id_of ''d''"
proof -
  obtain db wait log where run: "accept_run n_accept (n_accept_calls @ []) = (db, wait, log)" by (metis prod_cases3)
  have log: "log = [n_acceptance False, n_acceptance True]" using n_accept_log run by simp
  from one_execution_per_dispatch [OF run [unfolded append_Nil2] run, of "n_acceptance False" "n_acceptance True"]
  show ?thesis by (simp add: log n_acceptance_def)
qed

text \<open>The schema is created by two statements without a transaction. When the first opening
  fails or crashes between them, the table is there under version 0, and every later opening
  fails, whatever happens in between.\<close>

theorem half_created_store_never_opens:
  assumes "accept_step cx (db, wait, log) (OpenStore (None, None, Some e)) = (db1, wait1, log1)"
    and "ad_version db = 0" and "ad_table db = None"
  shows "\<exists>err. fst (initialize_and_validate fs (fst (foldl (accept_step cx) (db1, wait1, log1) calls))) = Inl err"
proof -
  have stuck: "ad_version db1 = 0 \<and> ad_table db1 \<noteq> None"
    using assms by (auto simp: accept_step_def initialize_and_validate_def)
  have step: "ad_version db' = 0 \<and> ad_table db' \<noteq> None"
    if "ad_version d = 0" "ad_table d \<noteq> None" "accept_step cx (d, wt, lg) c = (db', wt', lg')" for d wt lg c db' wt' lg'
    using that
    by (auto simp: accept_step_def initialize_and_validate_def claim_start_def claim_finish_def
        record_acknowledgement_def statement_def Let_def
        split: accept_call.splits prod.splits option.splits sum.splits if_splits)
  have "ad_version (fst (foldl (accept_step cx) (d, wt, lg) calls)) = 0
      \<and> ad_table (fst (foldl (accept_step cx) (d, wt, lg) calls)) \<noteq> None"
    if "ad_version d = 0" "ad_table d \<noteq> None" for d wt lg
    using that
  proof (induction calls arbitrary: d wt lg)
    case Nil
    then show ?case by simp
  next
    case (Cons c calls)
    obtain d' wt' lg' where s: "accept_step cx (d, wt, lg) c = (d', wt', lg')" by (metis prod_cases3)
    show ?case using Cons.IH [of d'] step [OF Cons.prems s] s by simp
  qed
  then show ?thesis
    using stuck by (auto simp: initialize_and_validate_def split: prod.splits option.splits)
qed

theorem half_created_store_never_opens_witness:
  "\<exists>err. fst (initialize_and_validate (None, None, None)
     (fst (foldl (accept_step n_accept)
       (accept_step n_accept (\<lparr>ad_version = 0, ad_table = None\<rparr>, Map.empty, []) (OpenStore (None, None, Some ''disk full'')))
       n_accept_calls))) = Inl err"
proof -
  obtain db1 wait1 log1 where s: "accept_step n_accept (\<lparr>ad_version = 0, ad_table = None\<rparr>, Map.empty, [])
      (OpenStore (None, None, Some ''disk full'')) = (db1, wait1, log1)" by (metis prod_cases3)
  show ?thesis unfolding s by (rule half_created_store_never_opens [OF s]) simp_all
qed

end
