(* ===== verification/Work_Request.thy ===== *)
theory Work_Request
  imports Dispatch_Message Native_Acceptance Guard_Trust
begin

section \<open>Requests for native work\<close>

text \<open>
  The request \<^verbatim>\<open>agent.work\<close> of the control socket (\<^verbatim>\<open>src/ctl.rs\<close>): its fields, the
  checks on them, the texts its two fingerprints are taken of, and the responses. A JSON value
  is a term; the printer of \<^verbatim>\<open>serde_json\<close> (of a struct, and of a value) and SHA-256 are
  arguments.
\<close>

record work_scope_policy =
  ws_scope_mode :: string
  ws_write_policy :: string
  ws_historical_context_policy :: string

record work_destination =
  wd_platform :: string
  wd_channel_id :: string
  wd_thread_id :: "string option"
  wd_parent_id :: "string option"
  wd_origin_event_id :: "string option"

record agent_work =
  aw_dispatch_id :: string
  aw_workflow_run_id :: string
  aw_project_id :: "string option"
  aw_project_root :: "string option"
  aw_task_id :: string
  aw_role :: string
  aw_agent :: string
  aw_lease_id :: string
  aw_lease_generation :: u64
  aw_expected_revision :: u64
  aw_conversation_key :: string
  aw_assignment :: string
  aw_language :: string
  aw_transport :: "string option"
  aw_delivery_destination :: "work_destination option"
  aw_scope_policy :: "work_scope_policy option"

definition channel_of_destination :: "work_destination \<Rightarrow> channel_ref" where
  "channel_of_destination d =
     \<lparr>cr_platform = wd_platform d, cr_channel_id = wd_channel_id d, cr_thread_id = wd_thread_id d,
      cr_parent_id = wd_parent_id d, cr_origin_event_id = wd_origin_event_id d\<rparr>"

subsection \<open>Checks\<close>

definition validate_scope_policy :: "work_scope_policy \<Rightarrow> string option" where
  "validate_scope_policy p =
     (if trim (ws_scope_mode p) = [] then Some ''scope_policy.scope_mode is empty''
      else if ws_scope_mode p \<noteq> ''BOUNDED'' then Some ''scope_policy.scope_mode is not a canonical token''
      else if trim (ws_write_policy p) = [] then Some ''scope_policy.write_policy is empty''
      else if ws_write_policy p \<noteq> ''READ_ONLY'' \<and> ws_write_policy p \<noteq> ''MODIFY_ALLOWED''
      then Some ''scope_policy.write_policy is not a canonical token''
      else if trim (ws_historical_context_policy p) = []
      then Some ''scope_policy.historical_context_policy is empty''
      else if ws_historical_context_policy p \<noteq> ''ADVISORY_ONLY''
      then Some ''scope_policy.historical_context_policy is not a canonical token''
      else None)"

definition validate_agent_work :: "agent_work \<Rightarrow> string option" where
  "validate_agent_work r =
     (if list_ex (\<lambda>v. trim v = [])
           [aw_dispatch_id r, aw_workflow_run_id r, aw_task_id r, aw_lease_id r, aw_conversation_key r,
            aw_assignment r, aw_language r]
      then Some ''required field is empty''
      else if aw_role r \<notin> {''PRIMARY'', ''VERIFIER'', ''FINAL_REVIEWER''} then Some ''unsupported role''
      else if aw_agent r \<notin> {''ArthurClaude'', ''ArthurCodex'', ''ArthurGemini''} then Some ''unsupported agent''
      else if aw_lease_generation r < 1 then Some ''lease_generation must be >= 1''
      else case aw_scope_policy r of None \<Rightarrow> None | Some p \<Rightarrow> validate_scope_policy p)"

definition ascii_digit :: "char \<Rightarrow> bool" where
  "ascii_digit c \<longleftrightarrow> 48 \<le> (of_char c :: nat) \<and> (of_char c :: nat) \<le> 57"

definition validate_delivery_destination :: "work_destination \<Rightarrow> message + unit" where
  "validate_delivery_destination d =
     (if trim (wd_platform d) = [] then Inl [Lit ''delivery_destination.platform must be non-empty'']
      else if trim (wd_channel_id d) = [] then Inl [Lit ''delivery_destination.channel_id must be non-empty'']
      else if wd_platform d = ''discord''
      then (let trimmed = trim (wd_channel_id d);
                digits = (case strip_prefix ''discord:'' trimmed of None \<Rightarrow> trimmed | Some rest \<Rightarrow> rest)
            in if digits = [] \<or> \<not> list_all ascii_digit digits
               then Inl [Lit ''delivery_destination.channel_id '', Dbg (wd_channel_id d),
                         Lit '' is not a valid Discord snowflake'']
               else Inr ())
      else Inl [Lit ''delivery_destination.platform '', Dbg (wd_platform d),
                Lit '' is not a recognised adapter platform''])"

subsection \<open>Fingerprints\<close>

datatype json = JNull | JText string | JNumber u64 | JObject "(string \<times> json) list"

definition json_opt :: "string option \<Rightarrow> json" where
  "json_opt v = (case v of None \<Rightarrow> JNull | Some s \<Rightarrow> JText s)"

text \<open>A field with \<^verbatim>\<open>skip_serializing_if = "Option::is_none"\<close>.\<close>

definition json_skip :: "string \<Rightarrow> ('a \<Rightarrow> json) \<Rightarrow> 'a option \<Rightarrow> (string \<times> json) list" where
  "json_skip name f v = (case v of None \<Rightarrow> [] | Some x \<Rightarrow> [(name, f x)])"

definition scope_policy_json :: "work_scope_policy \<Rightarrow> json" where
  "scope_policy_json p =
     JObject [(''scope_mode'', JText (ws_scope_mode p)), (''write_policy'', JText (ws_write_policy p)),
       (''historical_context_policy'', JText (ws_historical_context_policy p))]"

definition destination_json :: "work_destination \<Rightarrow> json" where
  "destination_json d =
     JObject ([(''platform'', JText (wd_platform d)), (''channel_id'', JText (wd_channel_id d))]
       @ json_skip ''thread_id'' JText (wd_thread_id d)
       @ json_skip ''parent_id'' JText (wd_parent_id d)
       @ json_skip ''origin_event_id'' JText (wd_origin_event_id d))"

definition agent_work_json :: "agent_work \<Rightarrow> json" where
  "agent_work_json r =
     JObject ([(''dispatch_id'', JText (aw_dispatch_id r)), (''workflow_run_id'', JText (aw_workflow_run_id r))]
       @ json_skip ''project_id'' JText (aw_project_id r)
       @ json_skip ''project_root'' JText (aw_project_root r)
       @ [(''task_id'', JText (aw_task_id r)), (''role'', JText (aw_role r)), (''agent'', JText (aw_agent r)),
          (''lease_id'', JText (aw_lease_id r)), (''lease_generation'', JNumber (aw_lease_generation r)),
          (''expected_revision'', JNumber (aw_expected_revision r)),
          (''conversation_key'', JText (aw_conversation_key r)), (''assignment'', JText (aw_assignment r)),
          (''language'', JText (aw_language r))]
       @ json_skip ''transport'' JText (aw_transport r)
       @ json_skip ''delivery_destination'' destination_json (aw_delivery_destination r)
       @ json_skip ''scope_policy'' scope_policy_json (aw_scope_policy r))"

definition acceptance_json :: "agent_work \<Rightarrow> json" where
  "acceptance_json r =
     JObject [(''workflow_run_id'', JText (aw_workflow_run_id r)), (''project_id'', json_opt (aw_project_id r)),
       (''project_root'', json_opt (aw_project_root r)), (''task_id'', JText (aw_task_id r)),
       (''role'', JText (aw_role r)), (''agent'', JText (aw_agent r)),
       (''expected_revision'', JNumber (aw_expected_revision r)),
       (''conversation_key'', JText (aw_conversation_key r)), (''assignment'', JText (aw_assignment r)),
       (''language'', JText (aw_language r)), (''transport'', json_opt (aw_transport r)),
       (''delivery_destination'',
         (case aw_delivery_destination r of None \<Rightarrow> JNull | Some d \<Rightarrow> destination_json d)),
       (''scope_policy'', (case aw_scope_policy r of None \<Rightarrow> JNull | Some p \<Rightarrow> scope_policy_json p))]"

record work_codec =
  wk_print_struct :: "json \<Rightarrow> string"
  wk_print_value :: "json \<Rightarrow> string"
  wk_sha :: "string \<Rightarrow> char list"

definition work_sha256_hex :: "work_codec \<Rightarrow> string \<Rightarrow> string" where
  "work_sha256_hex cx content = concat (List.map hex_byte (wk_sha cx content))"

definition agent_work_fingerprint :: "work_codec \<Rightarrow> agent_work \<Rightarrow> string" where
  "agent_work_fingerprint cx r = work_sha256_hex cx (wk_print_struct cx (agent_work_json r))"

definition durable_acceptance_fingerprint :: "work_codec \<Rightarrow> agent_work \<Rightarrow> string" where
  "durable_acceptance_fingerprint cx r = work_sha256_hex cx (wk_print_value cx (acceptance_json r))"

definition work_key :: "agent_work \<Rightarrow> string" where
  "work_key r = aw_agent r @ '':'' @ aw_conversation_key r @ '':'' @ aw_dispatch_id r"

subsection \<open>Responses\<close>

record work_response =
  rs_ok :: bool
  rs_message :: message
  rs_value :: "string option"
  rs_message_id :: "string option"

definition agent_work_error :: "string \<Rightarrow> message \<Rightarrow> work_response" where
  "agent_work_error code detail =
     \<lparr>rs_ok = False, rs_message = Disp code # Lit '': '' # detail, rs_value = None, rs_message_id = None\<rparr>"

definition work_accepted :: "string \<Rightarrow> work_response" where
  "work_accepted ack =
     \<lparr>rs_ok = True, rs_message = [Lit ''WORK_ACCEPTED''], rs_value = Some ack, rs_message_id = None\<rparr>"

text \<open>The \<^verbatim>\<open>Display\<close> of an error of the acceptance store.\<close>

definition accept_error_text :: "accept_error \<Rightarrow> message" where
  "accept_error_text e =
     (case e of
        AcceptStorage detail \<Rightarrow> [Lit ''native work acceptance storage failure: '', Disp detail]
      | AcceptSchemaVersion found \<Rightarrow>
          [Lit ''unsupported native work acceptance schema version '',
           Disp (if found < 0 then CHR ''-'' # dec (nat (- found)) else dec (nat found))]
      | AcceptConflict \<Rightarrow> [Lit ''dispatch_id payload differs from its accepted execution'']
      | AcceptInvalidInput field \<Rightarrow> [Lit ''invalid native work acceptance input: '', Disp field])"

subsection \<open>What the checks and the fingerprints determine\<close>

lemma error_not_ok [simp]: "\<not> rs_ok (agent_work_error code detail)" "rs_ok (work_accepted ack)"
  by (simp_all add: agent_work_error_def work_accepted_def)

lemma work_accepted_inject [simp]: "work_accepted a = work_accepted b \<longleftrightarrow> a = b"
  by (simp add: work_accepted_def)

lemma validated_tokens:
  assumes "validate_agent_work r = None"
  shows "aw_role r \<in> {''PRIMARY'', ''VERIFIER'', ''FINAL_REVIEWER''}"
    and "aw_agent r \<in> {''ArthurClaude'', ''ArthurCodex'', ''ArthurGemini''}"
    and "aw_lease_generation r \<noteq> 0" and "trim (aw_dispatch_id r) \<noteq> []"
    and "aw_scope_policy r = Some p \<Longrightarrow> ws_scope_mode p = ''BOUNDED''
           \<and> ws_write_policy p \<in> {''READ_ONLY'', ''MODIFY_ALLOWED''}
           \<and> ws_historical_context_policy p = ''ADVISORY_ONLY''"
  using assms
  by (auto simp: validate_agent_work_def validate_scope_policy_def split: if_splits option.splits)

lemma json_opt_inject [simp]: "json_opt a = json_opt b \<longleftrightarrow> a = b"
  by (simp add: json_opt_def split: option.splits)

lemma destination_json_inject [simp]: "destination_json a = destination_json b \<longleftrightarrow> a = b"
proof
  assume "destination_json a = destination_json b"
  then show "a = b"
    by (cases a; cases b) (auto simp: destination_json_def json_skip_def split: option.splits)
qed simp

lemma scope_policy_json_inject [simp]: "scope_policy_json a = scope_policy_json b \<longleftrightarrow> a = b"
  by (cases a; cases b) (auto simp: scope_policy_json_def)

lemma destination_not_null [simp]: "destination_json d \<noteq> JNull" "JNull \<noteq> destination_json d"
  by (simp_all add: destination_json_def)

text \<open>The durable fingerprint covers everything but the dispatch and the lease.\<close>

lemma acceptance_json_iff:
  "acceptance_json r = acceptance_json r' \<longleftrightarrow>
     r' = r\<lparr>aw_dispatch_id := aw_dispatch_id r', aw_lease_id := aw_lease_id r',
            aw_lease_generation := aw_lease_generation r'\<rparr>"
proof
  assume eq: "acceptance_json r = acceptance_json r'"
  have "aw_delivery_destination r = aw_delivery_destination r'"
    using eq by (auto simp: acceptance_json_def split: option.splits)
  moreover have "aw_scope_policy r = aw_scope_policy r'"
    using eq by (auto simp: acceptance_json_def scope_policy_json_def split: option.splits)
  ultimately show "r' = r\<lparr>aw_dispatch_id := aw_dispatch_id r', aw_lease_id := aw_lease_id r',
            aw_lease_generation := aw_lease_generation r'\<rparr>"
    using eq by (cases r; cases r') (simp add: acceptance_json_def)
next
  assume eq: "r' = r\<lparr>aw_dispatch_id := aw_dispatch_id r', aw_lease_id := aw_lease_id r',
            aw_lease_generation := aw_lease_generation r'\<rparr>"
  show "acceptance_json r = acceptance_json r'"
    by (subst eq) (simp add: acceptance_json_def)
qed

text \<open>That of the ledger covers the dispatch too.\<close>

lemma agent_work_json_dispatch:
  "agent_work_json r = agent_work_json r' \<Longrightarrow> aw_dispatch_id r = aw_dispatch_id r'"
  by (simp add: agent_work_json_def)

end
