(* ===== verification/Work_Admission.thy ===== *)
theory Work_Admission
  imports Dispatch_Message Work_Request
begin

section \<open>The admission port\<close>

text \<open>
  \<^verbatim>\<open>crates/openab-core/src/admission.rs\<close>: the port through which work of any transport is
  submitted to the dispatcher. The answer of the dispatcher's \<^verbatim>\<open>submit\<close> is an argument (its
  model is the theory of the dispatcher); the second result is what was given to it.
\<close>

record admission_request =
  rq_conversation :: channel_ref
  rq_sender_id :: string
  rq_message :: buffered_message
  rq_native_workflow :: "native_metadata option"
  rq_native_execution_session_key :: "string option"

record admission_ack =
  ak_admission_id :: string
  ak_conversation_key :: string
  ak_accepted :: bool
  ak_native_workflow :: "native_metadata option"

datatype dispatch_error = ConsumerDead

datatype admission_error =
    NotInstalled
  | InvalidRequest string
  | DispatchRejected dispatch_error
  | InternalError string

definition dispatch_error_text :: "dispatch_error \<Rightarrow> message" where
  "dispatch_error_text e = (case e of ConsumerDead \<Rightarrow> [Lit ''dispatch consumer exited unexpectedly''])"

definition admission_error_text :: "admission_error \<Rightarrow> message" where
  "admission_error_text e =
     (case e of
        NotInstalled \<Rightarrow> [Lit ''ADMISSION_NOT_INSTALLED: admission service is not ready'']
      | InvalidRequest reason \<Rightarrow> [Lit ''INVALID_ADMISSION_REQUEST: '', Disp reason]
      | DispatchRejected err \<Rightarrow> Lit ''DISPATCH_REJECTED: '' # dispatch_error_text err
      | InternalError reason \<Rightarrow> [Lit ''ADMISSION_INTERNAL_ERROR: '', Disp reason])"

definition admission_error_code :: "admission_error \<Rightarrow> string" where
  "admission_error_code e =
     (case e of
        NotInstalled \<Rightarrow> ''ADMISSION_NOT_INSTALLED''
      | InvalidRequest _ \<Rightarrow> ''INVALID_ADMISSION_REQUEST''
      | DispatchRejected _ \<Rightarrow> ''DISPATCH_REJECTED''
      | InternalError _ \<Rightarrow> ''ADMISSION_INTERNAL_ERROR'')"

type_synonym submission = "string \<times> channel_ref \<times> buffered_message"

text \<open>The key of the consumer that will take the message.\<close>

definition dispatch_key_of :: "batch_grouping option \<Rightarrow> admission_request \<Rightarrow> string" where
  "dispatch_key_of dispatcher q =
     (case rq_native_execution_session_key q of
        Some k \<Rightarrow> if k \<noteq> [] then k else
          (case dispatcher of
             None \<Rightarrow> session_pool_key (rq_conversation q)
           | Some g \<Rightarrow> dispatcher_key g (cr_platform (rq_conversation q)) (cr_channel_id (rq_conversation q)) (rq_sender_id q))
      | None \<Rightarrow>
          (case dispatcher of
             None \<Rightarrow> session_pool_key (rq_conversation q)
           | Some g \<Rightarrow> dispatcher_key g (cr_platform (rq_conversation q)) (cr_channel_id (rq_conversation q)) (rq_sender_id q)))"

definition dispatcher_admit_work ::
  "batch_grouping option \<Rightarrow> dispatch_error option \<Rightarrow> admission_request
     \<Rightarrow> (admission_error + admission_ack) \<times> submission option" where
  "dispatcher_admit_work dispatcher answer q =
     (let c = rq_conversation q in
      if cr_platform c = [] then (Inl (InvalidRequest ''platform is required''), None)
      else if cr_channel_id c = [] then (Inl (InvalidRequest ''conversation channel is required''), None)
      else if rq_sender_id q = [] then (Inl (InvalidRequest ''sender is required''), None)
      else
        (let conversation_key = session_pool_key c;
             sub = (dispatch_key_of dispatcher q, c,
                    (rq_message q)\<lparr>bm_native_workflow := rq_native_workflow q\<rparr>)
         in case answer of
              Some e \<Rightarrow> (Inl (DispatchRejected e), Some sub)
            | None \<Rightarrow>
                (Inr \<lparr>ak_admission_id = conversation_key @ '':'' @ rq_sender_id q,
                      ak_conversation_key = conversation_key, ak_accepted = True,
                      ak_native_workflow = rq_native_workflow q\<rparr>, Some sub)))"

text \<open>
  The handle the composition installs the port into once; before that it answers for itself.
  \<open>port\<close> is what it holds: the grouping of the dispatcher behind the port.
\<close>

definition handle_admit_work ::
  "batch_grouping option option \<Rightarrow> dispatch_error option \<Rightarrow> admission_request
     \<Rightarrow> (admission_error + admission_ack) \<times> submission option" where
  "handle_admit_work port answer q =
     (case port of
        None \<Rightarrow> (Inl NotInstalled, None)
      | Some dispatcher \<Rightarrow> dispatcher_admit_work dispatcher answer q)"

lemma admitted_submission:
  assumes "handle_admit_work port answer q = (Inr ack, sub)"
  shows "ak_admission_id ack = session_pool_key (rq_conversation q) @ '':'' @ rq_sender_id q"
    and "ak_accepted ack" and "answer = None"
    and "\<exists>key. sub = Some (key, rq_conversation q, (rq_message q)\<lparr>bm_native_workflow := rq_native_workflow q\<rparr>)
           \<and> (\<forall>k. rq_native_execution_session_key q = Some k \<longrightarrow> k \<noteq> [] \<longrightarrow> key = k)"
  using assms
  by (auto simp: handle_admit_work_def dispatcher_admit_work_def dispatch_key_of_def Let_def
      split: option.splits if_splits)

end
