(* ===== verification/Work_Ledger.thy ===== *)
theory Work_Ledger
  imports Ordered_Table
begin

section \<open>The reservation ledger\<close>

text \<open>
  \<^verbatim>\<open>AgentWorkLedger\<close> of \<^verbatim>\<open>src/ctl.rs\<close>: one slot per key, in flight or done, in order of
  insertion, and its bounded eviction. The slots are a hash map whose iteration order the code
  never uses, kept here as a table sorted by key. A \<^verbatim>\<open>tokio::sync::watch\<close> channel is the
  number under which it was created; what it holds and how many receivers it has are part of
  the ledger. Its \<^verbatim>\<open>send\<close> fails and keeps the old value when there is no receiver. A waiter
  keeps a sender of its channel, so a channel is never closed under it.
\<close>

datatype in_flight_state = Pending | DoneState | Failed

record watch_channel =
  wc_value :: in_flight_state
  wc_receivers :: nat

definition new_watch :: watch_channel where
  "new_watch = \<lparr>wc_value = Pending, wc_receivers = 0\<rparr>"

definition watch_send :: "in_flight_state \<Rightarrow> watch_channel \<Rightarrow> watch_channel" where
  "watch_send v w = (if wc_receivers w = 0 then w else w\<lparr>wc_value := v\<rparr>)"

datatype ledger_slot =
    WorkDone (slot_fingerprint: string) string
  | WorkInFlight (slot_fingerprint: string) nat

record work_ledger =
  wl_entries :: "(string \<times> ledger_slot) list"
  wl_order :: "string list"
  wl_watch :: "watch_channel list"

definition new_ledger :: work_ledger where
  "new_ledger = \<lparr>wl_entries = [], wl_order = [], wl_watch = []\<rparr>"

definition ledger_capacity :: nat where
  "ledger_capacity = 1024"

datatype reservation = ReserveFresh nat | ReserveDone string | ReserveInFlight nat | ReserveConflict

definition slot_is_done :: "ledger_slot option \<Rightarrow> bool" where
  "slot_is_done v = (case v of None \<Rightarrow> True | Some (WorkDone _ _) \<Rightarrow> True | Some (WorkInFlight _ _) \<Rightarrow> False)"

text \<open>The loop over the order: \<open>seen\<close> is what the scan has passed.\<close>

fun evict_scan :: "string list \<Rightarrow> string list \<Rightarrow> (string \<times> ledger_slot) list \<Rightarrow> string list \<times> (string \<times> ledger_slot) list" where
  "evict_scan seen [] t = (seen, t)"
| "evict_scan seen (k # ks) t =
     (if length t \<le> ledger_capacity then (seen @ k # ks, t)
      else if slot_is_done (bt_get t k) then evict_scan seen ks (bt_remove k t)
      else evict_scan (seen @ [k]) ks t)"

definition evict_if_over_capacity :: "work_ledger \<Rightarrow> work_ledger" where
  "evict_if_over_capacity l =
     (case evict_scan [] (wl_order l) (wl_entries l) of
        (order, t) \<Rightarrow> l\<lparr>wl_entries := t, wl_order := order\<rparr>)"

definition try_reserve :: "string \<Rightarrow> string \<Rightarrow> work_ledger \<Rightarrow> reservation \<times> work_ledger" where
  "try_reserve key fingerprint l =
     (case bt_get (wl_entries l) key of
        Some (WorkDone f ack) \<Rightarrow> (if f = fingerprint then ReserveDone ack else ReserveConflict, l)
      | Some (WorkInFlight f ch) \<Rightarrow> (if f = fingerprint then ReserveInFlight ch else ReserveConflict, l)
      | None \<Rightarrow>
          (let ch = length (wl_watch l)
           in (ReserveFresh ch,
               evict_if_over_capacity
                 \<lparr>wl_entries = bt_insert key (WorkInFlight fingerprint ch) (wl_entries l),
                  wl_order = wl_order l @ [key], wl_watch = wl_watch l @ [new_watch]\<rparr>)))"

definition complete_with_done :: "string \<Rightarrow> string \<Rightarrow> string \<Rightarrow> work_ledger \<Rightarrow> work_ledger" where
  "complete_with_done key fingerprint ack l =
     (case bt_get (wl_entries l) key of
        Some (WorkInFlight _ ch) \<Rightarrow>
          l\<lparr>wl_entries := bt_insert key (WorkDone fingerprint ack) (wl_entries l),
            wl_watch := (wl_watch l)[ch := watch_send DoneState (wl_watch l ! ch)]\<rparr>
      | _ \<Rightarrow> l)"

definition release_in_flight :: "string \<Rightarrow> work_ledger \<Rightarrow> bool \<times> work_ledger" where
  "release_in_flight key l =
     (case bt_get (wl_entries l) key of
        Some (WorkInFlight _ ch) \<Rightarrow>
          (True, l\<lparr>wl_entries := bt_remove key (wl_entries l),
                   wl_order := filter (\<lambda>k. k \<noteq> key) (wl_order l),
                   wl_watch := (wl_watch l)[ch := watch_send Failed (wl_watch l ! ch)]\<rparr>)
      | _ \<Rightarrow> (False, l))"

text \<open>A waiter's receiver comes and goes.\<close>

definition watch_subscribe :: "nat \<Rightarrow> work_ledger \<Rightarrow> work_ledger" where
  "watch_subscribe ch l =
     l\<lparr>wl_watch := (wl_watch l)[ch := (wl_watch l ! ch)\<lparr>wc_receivers := wc_receivers (wl_watch l ! ch) + 1\<rparr>]\<rparr>"

definition watch_leave :: "nat \<Rightarrow> work_ledger \<Rightarrow> work_ledger" where
  "watch_leave ch l =
     l\<lparr>wl_watch := (wl_watch l)[ch := (wl_watch l ! ch)\<lparr>wc_receivers := wc_receivers (wl_watch l ! ch) - 1\<rparr>]\<rparr>"

subsection \<open>The order lists the keys\<close>

definition ledger_ok :: "work_ledger \<Rightarrow> bool" where
  "ledger_ok l \<longleftrightarrow> bt_inv (wl_entries l) \<and> distinct (wl_order l)
     \<and> set (wl_order l) = dom (bt_get (wl_entries l))
     \<and> (\<forall>k f ch. bt_get (wl_entries l) k = Some (WorkInFlight f ch) \<longrightarrow> ch < length (wl_watch l))"

lemma watch_receiver [simp]:
  "wl_entries (watch_subscribe ch l) = wl_entries l" "wl_entries (watch_leave ch l) = wl_entries l"
  "length (wl_watch (watch_subscribe ch l)) = length (wl_watch l)"
  "length (wl_watch (watch_leave ch l)) = length (wl_watch l)"
  "ledger_ok (watch_subscribe ch l) = ledger_ok l" "ledger_ok (watch_leave ch l) = ledger_ok l"
  by (simp_all add: watch_subscribe_def watch_leave_def ledger_ok_def)

lemma watch_receiver_value [simp]:
  "wc_value (wl_watch (watch_subscribe ch l) ! c) = wc_value (wl_watch l ! c)"
  "wc_value (wl_watch (watch_leave ch l) ! c) = wc_value (wl_watch l ! c)"
  unfolding watch_subscribe_def watch_leave_def by (simp_all add: nth_update_value [of wc_value])

text \<open>
  Eviction drops the oldest finished keys of the order, as many as the ledger has too many,
  and nothing else.
\<close>

definition done_keys :: "(string \<times> ledger_slot) list \<Rightarrow> string list \<Rightarrow> string list" where
  "done_keys t ks = filter (\<lambda>k. slot_is_done (bt_get t k)) ks"

definition evicted :: "string list \<Rightarrow> (string \<times> ledger_slot) list \<Rightarrow> string list" where
  "evicted ks t = take (length t - ledger_capacity) (done_keys t ks)"

lemma bt_remove_length:
  assumes "bt_inv t" and "bt_get t k \<noteq> None"
  shows "length (bt_remove k t) = length t - 1"
proof -
  have "distinct (map fst t)" using assms(1) by (rule bt_inv_distinct)
  moreover have "k \<in> fst ` set t" using assms(2) by (simp add: bt_get_def map_of_eq_None_iff)
  ultimately show ?thesis unfolding bt_remove_def
  proof (induction t)
    case (Cons e t)
    have "fst e \<notin> fst ` set t \<Longrightarrow> filter (\<lambda>x. fst x \<noteq> fst e) t = t" by (rule filter_True) (metis imageI)
    then show ?case
      using Cons by (cases "fst e = k") (auto intro: Suc_pred length_pos_if_in_set)
  qed simp
qed

lemma bt_remove_nonempty: "bt_get t k \<noteq> None \<Longrightarrow> 0 < length t"
  by (cases t) (auto simp: bt_get_def)

lemma done_keys_remove: "k \<notin> set ks \<Longrightarrow> done_keys (bt_remove k t) ks = done_keys t ks"
  unfolding done_keys_def by (rule filter_cong) (auto simp: bt_get_remove)

lemma evict_scan_exact:
  assumes "bt_inv t" and "distinct (seen @ ks)" and "set ks \<subseteq> dom (bt_get t)"
  shows "evict_scan seen ks t =
    (seen @ filter (\<lambda>k. k \<notin> set (evicted ks t)) ks, filter (\<lambda>e. fst e \<notin> set (evicted ks t)) t)"
  using assms
proof (induction seen ks t rule: evict_scan.induct)
  case (1 seen t)
  then show ?case by (simp add: evicted_def done_keys_def)
next
  case (2 seen k ks t)
  have k: "k \<notin> set ks" "bt_get t k \<noteq> None" using "2.prems"(2,3) by auto
  consider "length t \<le> ledger_capacity" | (gone) "\<not> length t \<le> ledger_capacity" "slot_is_done (bt_get t k)"
    | (kept) "\<not> length t \<le> ledger_capacity" "\<not> slot_is_done (bt_get t k)" by blast
  then show ?case
  proof cases
    case 1
    then show ?thesis by (simp add: evicted_def)
  next
    case gone
    let ?t = "bt_remove k t"
    have len: "length t - ledger_capacity = Suc (length ?t - ledger_capacity)"
      using bt_remove_length [OF "2.prems"(1) k(2)] gone(1) by simp
    have ev: "evicted (k # ks) t = k # evicted ks ?t"
      unfolding evicted_def len done_keys_remove [OF k(1)] using gone(2) by (simp add: done_keys_def)
    have sub: "set ks \<subseteq> dom (bt_get ?t)" using "2.prems"(3) k(1) by (auto simp: bt_get_remove)
    have ks: "filter (\<lambda>j. j \<notin> set (evicted ks ?t)) ks = filter (\<lambda>j. j \<noteq> k \<and> j \<notin> set (evicted ks ?t)) ks"
      by (rule filter_cong) (use k(1) in auto)
    have "evict_scan seen ks ?t =
        (seen @ filter (\<lambda>j. j \<notin> set (evicted ks ?t)) ks, filter (\<lambda>e. fst e \<notin> set (evicted ks ?t)) ?t)"
      by (rule "2.IH"(1) [OF gone bt_inv_remove [OF "2.prems"(1)] _ sub]) (use "2.prems"(2) in simp)
    then show ?thesis using gone ev ks by (simp add: bt_remove_def)
  next
    case kept
    have ev: "evicted (k # ks) t = evicted ks t" using kept(2) by (simp add: evicted_def done_keys_def)
    have "k \<notin> set (evicted ks t)"
      using kept(2) unfolding evicted_def done_keys_def by (auto dest: in_set_takeD)
    moreover have "evict_scan (seen @ [k]) ks t =
        ((seen @ [k]) @ filter (\<lambda>j. j \<notin> set (evicted ks t)) ks, filter (\<lambda>e. fst e \<notin> set (evicted ks t)) t)"
      by (rule "2.IH"(2) [OF kept "2.prems"(1)]) (use "2.prems"(2,3) in auto)
    ultimately show ?thesis using kept ev by simp
  qed
qed

lemma evict_exact:
  assumes "ledger_ok l"
  shows "evict_if_over_capacity l =
    l\<lparr>wl_entries := filter (\<lambda>e. fst e \<notin> set (evicted (wl_order l) (wl_entries l))) (wl_entries l),
      wl_order := filter (\<lambda>k. k \<notin> set (evicted (wl_order l) (wl_entries l))) (wl_order l)\<rparr>"
  using evict_scan_exact [of "wl_entries l" "[]" "wl_order l"] assms
  by (simp add: evict_if_over_capacity_def ledger_ok_def)

subsection \<open>What the operations keep\<close>

lemma bt_get_without: "bt_get (filter (\<lambda>e. fst e \<notin> X) t) k = (if k \<in> X then None else bt_get t k)"
  unfolding bt_get_def by (induction t) auto

lemma evict_ok:
  assumes "ledger_ok l"
  shows "ledger_ok (evict_if_over_capacity l)"
  using assms unfolding evict_exact [OF assms]
  by (auto simp: ledger_ok_def bt_inv_filter bt_get_without dom_def split: if_splits)

lemma evict_get:
  assumes "ledger_ok l"
  shows "bt_get (wl_entries (evict_if_over_capacity l)) k = bt_get (wl_entries l) k
    \<or> (bt_get (wl_entries (evict_if_over_capacity l)) k = None \<and> slot_is_done (bt_get (wl_entries l) k))"
  unfolding evict_exact [OF assms]
  by (auto simp: bt_get_without evicted_def done_keys_def dest: in_set_takeD)

lemma evict_watch [simp]: "wl_watch (evict_if_over_capacity l) = wl_watch l"
  by (simp add: evict_if_over_capacity_def split: prod.splits)

lemma ledger_ok_new [simp]: "ledger_ok new_ledger"
  by (auto simp: ledger_ok_def new_ledger_def bt_get_def)

lemma insert_ok:
  assumes "ledger_ok l" and "bt_get (wl_entries l) key = None"
  shows "ledger_ok \<lparr>wl_entries = bt_insert key (WorkInFlight f (length (wl_watch l))) (wl_entries l),
    wl_order = wl_order l @ [key], wl_watch = wl_watch l @ [new_watch]\<rparr>"
  using assms
  by (auto simp: ledger_ok_def bt_inv_insert bt_get_insert less_Suc_eq split: if_splits)

lemma try_reserve_effect:
  assumes "try_reserve key f l = (out, l')" and "ledger_ok l"
  shows "ledger_ok l'"
    and "(case out of
            ReserveFresh ch \<Rightarrow> bt_get (wl_entries l) key = None \<and> ch = length (wl_watch l)
              \<and> bt_get (wl_entries l') key = Some (WorkInFlight f ch)
              \<and> wl_watch l' = wl_watch l @ [new_watch]
              \<and> (\<forall>k. k \<noteq> key \<longrightarrow> bt_get (wl_entries l') k = bt_get (wl_entries l) k
                   \<or> (bt_get (wl_entries l') k = None \<and> slot_is_done (bt_get (wl_entries l) k)))
          | ReserveDone ack \<Rightarrow> l' = l \<and> bt_get (wl_entries l) key = Some (WorkDone f ack)
          | ReserveInFlight ch \<Rightarrow> l' = l \<and> bt_get (wl_entries l) key = Some (WorkInFlight f ch)
          | ReserveConflict \<Rightarrow> l' = l \<and> (\<exists>v. bt_get (wl_entries l) key = Some v \<and> slot_fingerprint v \<noteq> f))"
proof -
  have "ledger_ok l' \<and> (case out of
            ReserveFresh ch \<Rightarrow> bt_get (wl_entries l) key = None \<and> ch = length (wl_watch l)
              \<and> bt_get (wl_entries l') key = Some (WorkInFlight f ch)
              \<and> wl_watch l' = wl_watch l @ [new_watch]
              \<and> (\<forall>k. k \<noteq> key \<longrightarrow> bt_get (wl_entries l') k = bt_get (wl_entries l) k
                   \<or> (bt_get (wl_entries l') k = None \<and> slot_is_done (bt_get (wl_entries l) k)))
          | ReserveDone ack \<Rightarrow> l' = l \<and> bt_get (wl_entries l) key = Some (WorkDone f ack)
          | ReserveInFlight ch \<Rightarrow> l' = l \<and> bt_get (wl_entries l) key = Some (WorkInFlight f ch)
          | ReserveConflict \<Rightarrow> l' = l \<and> (\<exists>v. bt_get (wl_entries l) key = Some v \<and> slot_fingerprint v \<noteq> f))"
  proof (cases "bt_get (wl_entries l) key")
    case None
    let ?ch = "length (wl_watch l)"
    let ?l = "\<lparr>wl_entries = bt_insert key (WorkInFlight f ?ch) (wl_entries l),
       wl_order = wl_order l @ [key], wl_watch = wl_watch l @ [new_watch]\<rparr>"
    have ok: "ledger_ok ?l" by (rule insert_ok [OF assms(2) None])
    have out: "out = ReserveFresh ?ch" "l' = evict_if_over_capacity ?l"
      using assms(1) None by (simp_all add: try_reserve_def Let_def)
    have get: "bt_get (wl_entries ?l) = (bt_get (wl_entries l))(key \<mapsto> WorkInFlight f ?ch)"
      by (simp add: bt_get_insert)
    have "bt_get (wl_entries l') key = Some (WorkInFlight f ?ch)"
      using evict_get [OF ok, of key] unfolding get out(2) by (auto simp: slot_is_done_def)
    moreover have "\<forall>k. k \<noteq> key \<longrightarrow> bt_get (wl_entries l') k = bt_get (wl_entries l) k
         \<or> (bt_get (wl_entries l') k = None \<and> slot_is_done (bt_get (wl_entries l) k))"
      using evict_get [OF ok] unfolding get out(2) by (metis fun_upd_other)
    ultimately show ?thesis using out None evict_ok [OF ok] by simp
  next
    case (Some v)
    then show ?thesis
      using assms by (cases v) (auto simp: try_reserve_def split: if_splits)
  qed
  then show "ledger_ok l'" and "(case out of
            ReserveFresh ch \<Rightarrow> bt_get (wl_entries l) key = None \<and> ch = length (wl_watch l)
              \<and> bt_get (wl_entries l') key = Some (WorkInFlight f ch)
              \<and> wl_watch l' = wl_watch l @ [new_watch]
              \<and> (\<forall>k. k \<noteq> key \<longrightarrow> bt_get (wl_entries l') k = bt_get (wl_entries l) k
                   \<or> (bt_get (wl_entries l') k = None \<and> slot_is_done (bt_get (wl_entries l) k)))
          | ReserveDone ack \<Rightarrow> l' = l \<and> bt_get (wl_entries l) key = Some (WorkDone f ack)
          | ReserveInFlight ch \<Rightarrow> l' = l \<and> bt_get (wl_entries l) key = Some (WorkInFlight f ch)
          | ReserveConflict \<Rightarrow> l' = l \<and> (\<exists>v. bt_get (wl_entries l) key = Some v \<and> slot_fingerprint v \<noteq> f))"
    by blast+
qed

lemma complete_effect:
  assumes "ledger_ok l" and "bt_get (wl_entries l) key = Some (WorkInFlight f0 ch)"
  shows "ledger_ok (complete_with_done key f ack l)"
    and "bt_get (wl_entries (complete_with_done key f ack l)) = (bt_get (wl_entries l))(key \<mapsto> WorkDone f ack)"
    and "wl_watch (complete_with_done key f ack l) = (wl_watch l)[ch := watch_send DoneState (wl_watch l ! ch)]"
  using assms
  by (auto simp: complete_with_done_def ledger_ok_def bt_inv_insert bt_get_insert split: if_splits)

lemma release_effect:
  assumes "ledger_ok l" and "bt_get (wl_entries l) key = Some (WorkInFlight f0 ch)"
  shows "ledger_ok (snd (release_in_flight key l))"
    and "bt_get (wl_entries (snd (release_in_flight key l))) = (bt_get (wl_entries l))(key := None)"
    and "wl_watch (snd (release_in_flight key l)) = (wl_watch l)[ch := watch_send Failed (wl_watch l ! ch)]"
  using assms
  by (auto simp: release_in_flight_def ledger_ok_def bt_inv_remove bt_get_remove split: if_splits)

end
