(* ===== verification/Work_Handler.thy ===== *)
theory Work_Handler
  imports Work_Admission Work_Ledger
begin

section \<open>The handler of native work\<close>

text \<open>
  \<^verbatim>\<open>RuntimeHandler::handle_agent_work\<close> of \<^verbatim>\<open>src/ctl.rs\<close>. One call per connection, any
  number at a time on one ledger and one acceptance store, so the function is cut where another
  call can come in between: at every SQL statement, every lock of the ledger, every look at a
  watch channel, and around the call of the admission port. Each piece is a definition, and
  \<open>work_phase\<close> says which pieces are left and what they need.
\<close>

record work_env =
  we_heartbeat :: bool
  we_store :: bool
  we_admission :: bool
  we_lower :: "string \<Rightarrow> string"
  we_trust :: trust_registry
  we_adapters :: "string set"
  we_codec :: work_codec
  we_accept :: accept_codec

subsection \<open>Up to the insertion of the acceptance\<close>

definition work_arrive ::
  "work_env \<Rightarrow> fault_text \<Rightarrow> agent_work option \<Rightarrow> int \<Rightarrow> accept_db \<Rightarrow> (work_response + nat) \<times> accept_db" where
  "work_arrive env fault request now db =
     (case request of
        None \<Rightarrow> (Inl (agent_work_error ''INVALID_AGENT_WORK_REQUEST'' [Lit ''missing agent.work fields'']), db)
      | Some r \<Rightarrow>
          (case validate_agent_work r of
             Some reason \<Rightarrow> (Inl (agent_work_error ''INVALID_AGENT_WORK_REQUEST'' [Lit reason]), db)
           | None \<Rightarrow>
               if \<not> we_heartbeat env
               then (Inl (agent_work_error ''HEARTBEAT_UNAVAILABLE''
                       [Lit ''lease-bound agent.work rejected: no heartbeat producer wired'']), db)
               else if \<not> we_store env
               then (Inl (agent_work_error ''DURABLE_ACCEPTANCE_UNAVAILABLE''
                       [Lit ''native agent.work rejected: durable OpenAB acceptance store is unavailable'']), db)
               else (case claim_start (we_accept env) fault (aw_dispatch_id r)
                            (durable_acceptance_fingerprint (we_codec env) r) now db of
                       (Inl e, db1) \<Rightarrow>
                         (Inl (agent_work_error ''DURABLE_ACCEPTANCE_FAILED'' (accept_error_text e)), db1)
                     | (Inr inserted, db1) \<Rightarrow> (Inr inserted, db1))))"

subsection \<open>The selection of the acceptance\<close>

definition work_select ::
  "work_env \<Rightarrow> fault_text \<Rightarrow> agent_work \<Rightarrow> nat \<Rightarrow> accept_db \<Rightarrow> work_response + acceptance" where
  "work_select env fault r inserted db =
     (case claim_finish (we_accept env) fault (aw_dispatch_id r)
             (durable_acceptance_fingerprint (we_codec env) r) inserted db of
        Inl AcceptConflict \<Rightarrow>
          Inl (agent_work_error ''DUPLICATE_DISPATCH_CONFLICT'' [Lit ''dispatch_id payload differs''])
      | Inl e \<Rightarrow> Inl (agent_work_error ''DURABLE_ACCEPTANCE_FAILED'' (accept_error_text e))
      | Inr a \<Rightarrow>
          (case na_acknowledgement a of
             Some ack \<Rightarrow> Inl (work_accepted ack)
           | None \<Rightarrow> Inr a))"

subsection \<open>The second reservation of a waiter\<close>

definition work_again :: "work_env \<Rightarrow> agent_work \<Rightarrow> work_ledger \<Rightarrow> work_response \<times> work_ledger" where
  "work_again env r l =
     (case try_reserve (work_key r) (agent_work_fingerprint (we_codec env) r) l of
        (ReserveDone ack, l1) \<Rightarrow> (work_accepted ack, l1)
      | (_, l1) \<Rightarrow> (agent_work_error ''IN_FLIGHT_RETRY'' [Lit ''concurrent dispatch released; retry''], l1))"

subsection \<open>What is checked before the admission\<close>

definition work_gate :: "work_env \<Rightarrow> agent_work \<Rightarrow> work_response + channel_ref" where
  "work_gate env r =
     (if \<not> we_admission env
      then Inl (agent_work_error ''ADMISSION_NOT_INSTALLED'' [Lit ''admission service is not ready''])
      else case aw_delivery_destination r of
        None \<Rightarrow> Inl (agent_work_error ''MISSING_DELIVERY_DESTINATION''
                  [Lit ''native agent.work requires a structured delivery_destination''])
      | Some d \<Rightarrow>
          (case validate_delivery_destination d of
             Inl reason \<Rightarrow> Inl (agent_work_error ''INVALID_DELIVERY_DESTINATION'' reason)
           | Inr _ \<Rightarrow>
               if \<not> authorize_outbound_channel_with_parent (we_lower env) (we_trust env)
                      (wd_platform d) (wd_channel_id d) (wd_parent_id d)
               then Inl (agent_work_error ''DELIVERY_DESTINATION_NOT_ALLOWED''
                      [Lit ''delivery_destination '', Disp (wd_platform d), Lit '':'', Disp (wd_channel_id d),
                       Lit '' (parent='', DbgOpt (wd_parent_id d), Lit '') is not in the platform trust allowlist''])
               else if wd_platform d \<notin> we_adapters env
               then Inl (agent_work_error ''NATIVE_DELIVERY_TARGET_UNAVAILABLE''
                      [Lit ''native delivery target platform is unavailable''])
               else Inr (channel_of_destination d)))"

text \<open>Where the status emoji go: the parent of a thread that was made from the origin message.\<close>

definition reaction_channel :: "channel_ref \<Rightarrow> channel_ref" where
  "reaction_channel c =
     (if cr_platform c = ''discord'' \<and> cr_origin_event_id c = Some (cr_channel_id c)
      then (case cr_parent_id c of
              Some parent \<Rightarrow>
                \<lparr>cr_platform = cr_platform c, cr_channel_id = parent, cr_thread_id = None,
                 cr_parent_id = None, cr_origin_event_id = cr_origin_event_id c\<rparr>
            | None \<Rightarrow> c)
      else c)"

definition work_metadata :: "agent_work \<Rightarrow> native_metadata" where
  "work_metadata r =
     \<lparr>nm_dispatch_id = aw_dispatch_id r, nm_conversation_key = aw_conversation_key r,
      nm_workflow_run_id = aw_workflow_run_id r, nm_task_id = aw_task_id r, nm_role = aw_role r,
      nm_agent = aw_agent r, nm_lease_id = aw_lease_id r, nm_lease_generation = aw_lease_generation r,
      nm_expected_revision = aw_expected_revision r, nm_language = Some (aw_language r),
      nm_project_id = aw_project_id r, nm_project_root = aw_project_root r,
      nm_native_execution_session_key = Some (format_native_dispatch_key (aw_agent r) (aw_dispatch_id r)),
      nm_transport = aw_transport r,
      nm_delivery_destination = map_option channel_of_destination (aw_delivery_destination r),
      nm_scope_policy = map_option (\<lambda>p. \<lparr>scope_mode = ws_scope_mode p, write_policy = ws_write_policy p,
         historical_context_policy = ws_historical_context_policy p\<rparr>) (aw_scope_policy r)\<rparr>"

text \<open>In the raw string literal a backslash before a quote stays.\<close>

definition bquote :: string where "bquote = [CHR 0x5C, CHR 0x22]"

definition work_sender_json :: "string \<Rightarrow> string" where
  "work_sender_json agent =
     ''{'' @ bquote @ ''schema'' @ bquote @ '':'' @ bquote @ ''openab.sender.v1'' @ bquote @ '','' @ bquote
     @ ''sender_id'' @ bquote @ '':'' @ bquote @ ''native:'' @ agent @ bquote @ '','' @ bquote
     @ ''sender_name'' @ bquote @ '':'' @ bquote @ agent @ bquote @ ''}''"

definition work_message :: "agent_work \<Rightarrow> channel_ref \<Rightarrow> int \<Rightarrow> buffered_message" where
  "work_message r c now =
     \<lparr>bm_sender_json = work_sender_json (aw_agent r), bm_sender_name = aw_agent r,
      bm_prompt = aw_assignment r, bm_extra_blocks = [],
      bm_trigger_msg = \<lparr>mr_channel = reaction_channel c,
         mr_message_id = (case cr_origin_event_id c of None \<Rightarrow> [] | Some e \<Rightarrow> e)\<rparr>,
      bm_arrived_at = now, bm_estimated_tokens = length (aw_assignment r) div 4,
      bm_other_bot_present = False, bm_recipient = None, bm_native_workflow = Some (work_metadata r),
      bm_text_attachments = [], bm_sender_is_bot = False\<rparr>"

definition work_admission_request :: "agent_work \<Rightarrow> channel_ref \<Rightarrow> int \<Rightarrow> admission_request" where
  "work_admission_request r c now =
     \<lparr>rq_conversation = c, rq_sender_id = ''native:'' @ aw_agent r, rq_message = work_message r c now,
      rq_native_workflow = Some (work_metadata r),
      rq_native_execution_session_key = Some (format_native_dispatch_key (aw_agent r) (aw_dispatch_id r))\<rparr>"

definition work_ack_json :: "agent_work \<Rightarrow> string \<Rightarrow> string \<Rightarrow> json" where
  "work_ack_json r admission_id execution_id =
     JObject [(''acknowledgement'', JText ''WORK_ACCEPTED''), (''dispatch_id'', JText (aw_dispatch_id r)),
       (''admission_id'', JText admission_id), (''openab_execution_id'', JText execution_id),
       (''workflow_run_id'', JText (aw_workflow_run_id r)), (''role'', JText (aw_role r)),
       (''conversation_key'', JText (aw_conversation_key r))]"

text \<open>The call of the port: the failure to answer with, or the acknowledgement to record.\<close>

definition work_admit ::
  "work_env \<Rightarrow> agent_work \<Rightarrow> acceptance \<Rightarrow> batch_grouping option option \<Rightarrow> dispatch_error option \<Rightarrow> int
     \<Rightarrow> work_response + string \<times> submission option" where
  "work_admit env r a port answer now =
     (case work_gate env r of
        Inl failure \<Rightarrow> Inl failure
      | Inr c \<Rightarrow>
          (case handle_admit_work port answer (work_admission_request r c now) of
             (Inr ack, sub) \<Rightarrow>
               if ak_accepted ack
               then Inr (wk_print_value (we_codec env)
                           (work_ack_json r (ak_admission_id ack) (na_execution_id a)), sub)
               else Inl (agent_work_error ''DISPATCH_REJECTED'' [Lit ''admission was not accepted''])
           | (Inl e, _) \<Rightarrow> Inl (agent_work_error (admission_error_code e) (admission_error_text e))))"

definition work_record ::
  "fault_text \<Rightarrow> agent_work \<Rightarrow> string \<Rightarrow> accept_db \<Rightarrow> work_response option \<times> accept_db" where
  "work_record fault r ack db =
     (case record_acknowledgement fault (aw_dispatch_id r) ack db of
        (Inl e, db1) \<Rightarrow> (Some (agent_work_error ''DURABLE_ACCEPTANCE_FAILED'' (accept_error_text e)), db1)
      | (Inr _, db1) \<Rightarrow> (None, db1))"

subsection \<open>Calls in progress\<close>

datatype work_phase =
    Claimed nat
  | Accepted acceptance
  | Subscribing nat
  | Waiting nat
  | Retrying nat
  | Holding acceptance
  | Admitted string
  | Recorded string
  | Dropping

text \<open>
  What happened, newest first: a request was answered; a message was taken by the dispatcher;
  an admitted request could not record its acknowledgement, or its call ended without coming
  that far; finished keys were evicted; the daemon was restarted.
\<close>

datatype work_event =
    Answered "agent_work option" work_response
  | WorkAdmitted agent_work submission
  | AckLost agent_work
  | Evicted "string list"
  | Restarted

record work_system =
  sy_db :: accept_db
  sy_ledger :: work_ledger
  sy_calls :: "nat \<rightharpoonup> agent_work \<times> work_phase"
  sy_log :: "work_event list"

datatype work_action =
    Arrive nat "agent_work option" int fault_text
  | Select nat fault_text
  | Reserve nat
  | Subscribe nat
  | Wake nat
  | TimeOut nat
  | Again nat
  | Admit nat "batch_grouping option option" "dispatch_error option" int
  | Record nat fault_text
  | Finish nat
  | DropGuard nat
  | Cancel nat
  | Restart

abbreviation say :: "work_event \<Rightarrow> work_system \<Rightarrow> work_system" where
  "say e s \<equiv> s\<lparr>sy_log := e # sy_log s\<rparr>"

abbreviation goto_phase :: "nat \<Rightarrow> agent_work \<Rightarrow> work_phase \<Rightarrow> work_system \<Rightarrow> work_system" where
  "goto_phase c r p s \<equiv> s\<lparr>sy_calls := (sy_calls s)(c \<mapsto> (r, p))\<rparr>"

abbreviation end_call :: "nat \<Rightarrow> work_system \<Rightarrow> work_system" where
  "end_call c s \<equiv> s\<lparr>sy_calls := (sy_calls s)(c := None)\<rparr>"

definition in_flight_error :: work_response where
  "in_flight_error = agent_work_error ''IN_FLIGHT_TIMEOUT''
     [Lit ''concurrent dispatch did not complete within 5s; retry'']"

definition conflict_error :: work_response where
  "conflict_error = agent_work_error ''DUPLICATE_DISPATCH_CONFLICT'' [Lit ''dispatch_id payload differs'']"

text \<open>The keys a reservation evicted.\<close>

definition evicted_by :: "work_ledger \<Rightarrow> work_ledger \<Rightarrow> string list" where
  "evicted_by l l' = filter (\<lambda>k. k \<notin> set (wl_order l')) (wl_order l)"

text \<open>The pieces of one call, by its phase.\<close>

definition do_select :: "work_env \<Rightarrow> nat \<Rightarrow> fault_text \<Rightarrow> agent_work \<Rightarrow> nat \<Rightarrow> work_system \<Rightarrow> work_system" where
  "do_select env c fault r inserted s =
     (case work_select env fault r inserted (sy_db s) of
        Inl resp \<Rightarrow> say (Answered (Some r) resp) (end_call c s)
      | Inr a \<Rightarrow> goto_phase c r (Accepted a) s)"

definition do_reserve :: "work_env \<Rightarrow> nat \<Rightarrow> agent_work \<Rightarrow> acceptance \<Rightarrow> work_system \<Rightarrow> work_system" where
  "do_reserve env c r a s =
     (case try_reserve (work_key r) (agent_work_fingerprint (we_codec env) r) (sy_ledger s) of
        (ReserveFresh _, l) \<Rightarrow>
          say (Evicted (evicted_by (sy_ledger s) l)) (goto_phase c r (Holding a) (s\<lparr>sy_ledger := l\<rparr>))
      | (ReserveDone ack, l) \<Rightarrow>
          say (Answered (Some r) (work_accepted ack)) (end_call c (s\<lparr>sy_ledger := l\<rparr>))
      | (ReserveInFlight ch, l) \<Rightarrow> goto_phase c r (Subscribing ch) (s\<lparr>sy_ledger := l\<rparr>)
      | (ReserveConflict, l) \<Rightarrow>
          say (Answered (Some r) conflict_error) (end_call c (s\<lparr>sy_ledger := l\<rparr>)))"

definition do_again :: "work_env \<Rightarrow> nat \<Rightarrow> agent_work \<Rightarrow> nat \<Rightarrow> work_system \<Rightarrow> work_system" where
  "do_again env c r ch s =
     (case work_again env r (sy_ledger s) of
        (resp, l) \<Rightarrow>
          say (Answered (Some r) resp)
            (say (Evicted (evicted_by (sy_ledger s) l)) (end_call c (s\<lparr>sy_ledger := watch_leave ch l\<rparr>))))"

definition do_admit ::
  "work_env \<Rightarrow> nat \<Rightarrow> agent_work \<Rightarrow> acceptance \<Rightarrow> batch_grouping option option \<Rightarrow> dispatch_error option \<Rightarrow> int
     \<Rightarrow> work_system \<Rightarrow> work_system" where
  "do_admit env c r a port answer now s =
     (case work_admit env r a port answer now of
        Inl failure \<Rightarrow> say (Answered (Some r) failure) (goto_phase c r Dropping s)
      | Inr (ack, None) \<Rightarrow> goto_phase c r (Admitted ack) s
      | Inr (ack, Some sub) \<Rightarrow> say (WorkAdmitted r sub) (goto_phase c r (Admitted ack) s))"

definition do_record :: "nat \<Rightarrow> fault_text \<Rightarrow> agent_work \<Rightarrow> string \<Rightarrow> work_system \<Rightarrow> work_system" where
  "do_record c fault r ack s =
     (case work_record fault r ack (sy_db s) of
        (Some failure, db) \<Rightarrow>
          say (Answered (Some r) failure) (say (AckLost r) (goto_phase c r Dropping (s\<lparr>sy_db := db\<rparr>)))
      | (None, db) \<Rightarrow> goto_phase c r (Recorded ack) (s\<lparr>sy_db := db\<rparr>))"

definition do_finish :: "work_env \<Rightarrow> nat \<Rightarrow> agent_work \<Rightarrow> string \<Rightarrow> work_system \<Rightarrow> work_system" where
  "do_finish env c r ack s =
     say (Answered (Some r) (work_accepted ack))
       (end_call c (s\<lparr>sy_ledger := complete_with_done (work_key r)
          (agent_work_fingerprint (we_codec env) r) ack (sy_ledger s)\<rparr>))"

definition do_drop :: "nat \<Rightarrow> agent_work \<Rightarrow> work_system \<Rightarrow> work_system" where
  "do_drop c r s = end_call c (s\<lparr>sy_ledger := snd (release_in_flight (work_key r) (sy_ledger s))\<rparr>)"

text \<open>
  The call is dropped at an await point, or panics: a reservation it holds is released by its
  guard; what it had not recorded is lost.
\<close>

definition do_cancel :: "nat \<Rightarrow> agent_work \<Rightarrow> work_phase \<Rightarrow> work_system \<Rightarrow> work_system" where
  "do_cancel c r p s =
     (case p of
        Holding _ \<Rightarrow> goto_phase c r Dropping s
      | Admitted _ \<Rightarrow> say (AckLost r) (goto_phase c r Dropping s)
      | Recorded _ \<Rightarrow> say (AckLost r) (goto_phase c r Dropping s)
      | Dropping \<Rightarrow> s
      | Waiting ch \<Rightarrow> end_call c (s\<lparr>sy_ledger := watch_leave ch (sy_ledger s)\<rparr>)
      | Retrying ch \<Rightarrow> end_call c (s\<lparr>sy_ledger := watch_leave ch (sy_ledger s)\<rparr>)
      | _ \<Rightarrow> end_call c s)"

definition call_step :: "work_env \<Rightarrow> nat \<Rightarrow> agent_work \<Rightarrow> work_phase \<Rightarrow> work_action \<Rightarrow> work_system \<Rightarrow> work_system" where
  "call_step env c r p act s =
     (case (act, p) of
        (Select _ fault, Claimed inserted) \<Rightarrow> do_select env c fault r inserted s
      | (Reserve _, Accepted a) \<Rightarrow> do_reserve env c r a s
      | (Subscribe _, Subscribing ch) \<Rightarrow>
          goto_phase c r
            (if wc_value (wl_watch (sy_ledger s) ! ch) \<noteq> Pending then Retrying ch else Waiting ch)
            (s\<lparr>sy_ledger := watch_subscribe ch (sy_ledger s)\<rparr>)
      | (Wake _, Waiting ch) \<Rightarrow>
          if wc_value (wl_watch (sy_ledger s) ! ch) \<noteq> Pending then goto_phase c r (Retrying ch) s else s
      | (TimeOut _, Waiting ch) \<Rightarrow>
          say (Answered (Some r) in_flight_error)
            (end_call c (s\<lparr>sy_ledger := watch_leave ch (sy_ledger s)\<rparr>))
      | (Again _, Retrying ch) \<Rightarrow> do_again env c r ch s
      | (Admit _ port answer now, Holding a) \<Rightarrow> do_admit env c r a port answer now s
      | (Record _ fault, Admitted ack) \<Rightarrow> do_record c fault r ack s
      | (Finish _, Recorded ack) \<Rightarrow> do_finish env c r ack s
      | (DropGuard _, Dropping) \<Rightarrow> do_drop c r s
      | (Cancel _, _) \<Rightarrow> do_cancel c r p s
      | _ \<Rightarrow> s)"

definition do_arrive :: "work_env \<Rightarrow> nat \<Rightarrow> agent_work option \<Rightarrow> int \<Rightarrow> fault_text \<Rightarrow> work_system \<Rightarrow> work_system" where
  "do_arrive env c request now fault s =
     (case work_arrive env fault request now (sy_db s) of
        (Inl resp, db) \<Rightarrow> say (Answered request resp) (s\<lparr>sy_db := db\<rparr>)
      | (Inr inserted, db) \<Rightarrow>
          (case request of
             None \<Rightarrow> s\<lparr>sy_db := db\<rparr>
           | Some r \<Rightarrow> goto_phase c r (Claimed inserted) (s\<lparr>sy_db := db\<rparr>)))"

text \<open>A restart keeps the acceptance store only.\<close>

definition do_restart :: "work_system \<Rightarrow> work_system" where
  "do_restart s = say Restarted (s\<lparr>sy_ledger := new_ledger, sy_calls := Map.empty\<rparr>)"

fun action_call :: "work_action \<Rightarrow> nat option" where
  "action_call (Arrive c _ _ _) = Some c"
| "action_call (Select c _) = Some c"
| "action_call (Reserve c) = Some c"
| "action_call (Subscribe c) = Some c"
| "action_call (Wake c) = Some c"
| "action_call (TimeOut c) = Some c"
| "action_call (Again c) = Some c"
| "action_call (Admit c _ _ _) = Some c"
| "action_call (Record c _) = Some c"
| "action_call (Finish c) = Some c"
| "action_call (DropGuard c) = Some c"
| "action_call (Cancel c) = Some c"
| "action_call Restart = None"

text \<open>An action that does not fit the phase of its call changes nothing.\<close>

definition work_do :: "work_env \<Rightarrow> work_system \<Rightarrow> work_action \<Rightarrow> work_system" where
  "work_do env s act =
     (case action_call act of
        None \<Rightarrow> do_restart s
      | Some c \<Rightarrow>
          (case sy_calls s c of
             None \<Rightarrow> (case act of Arrive _ request now fault \<Rightarrow> do_arrive env c request now fault s | _ \<Rightarrow> s)
           | Some (r, p) \<Rightarrow> call_step env c r p act s))"

definition empty_system :: work_system where
  "empty_system = \<lparr>sy_db = \<lparr>ad_version = 1, ad_table = Some []\<rparr>, sy_ledger = new_ledger,
     sy_calls = Map.empty, sy_log = []\<rparr>"

definition work_run :: "work_env \<Rightarrow> work_action list \<Rightarrow> work_system" where
  "work_run env acts = foldl (work_do env) empty_system acts"

end
