(* ===== verification/Work_Facts.thy ===== *)
theory Work_Facts
  imports Work_Handler
begin

section \<open>Reservations along a run\<close>

text \<open>
  The invariant of the ledger and the calls: a key in flight has at most one call that holds it,
  every call that holds a key finds it in flight, and an admission that nothing excuses is
  still covered by a finished slot or by the call that made it.
\<close>

abbreviation fp_of :: "work_env \<Rightarrow> agent_work \<Rightarrow> string" where
  "fp_of env r \<equiv> agent_work_fingerprint (we_codec env) r"

abbreviation dfp_of :: "work_env \<Rightarrow> agent_work \<Rightarrow> string" where
  "dfp_of env r \<equiv> durable_acceptance_fingerprint (we_codec env) r"

fun holding_phase :: "work_phase \<Rightarrow> bool" where
  "holding_phase (Holding _) = True"
| "holding_phase (Admitted _) = True"
| "holding_phase (Recorded _) = True"
| "holding_phase Dropping = True"
| "holding_phase _ = False"

fun admitted_phase :: "work_phase \<Rightarrow> bool" where
  "admitted_phase (Admitted _) = True"
| "admitted_phase (Recorded _) = True"
| "admitted_phase _ = False"

lemma admitted_holds: "admitted_phase p \<Longrightarrow> holding_phase p"
  by (cases p) auto

type_synonym calls = "nat \<rightharpoonup> agent_work \<times> work_phase"

definition hold_inv :: "work_env \<Rightarrow> work_ledger \<Rightarrow> calls \<Rightarrow> bool" where
  "hold_inv env l calls \<longleftrightarrow> ledger_ok l
     \<and> (\<forall>c r p. calls c = Some (r, p) \<longrightarrow> holding_phase p \<longrightarrow>
          (\<exists>ch. bt_get (wl_entries l) (work_key r) = Some (WorkInFlight (fp_of env r) ch)))
     \<and> (\<forall>c r p c' r' p'. calls c = Some (r, p) \<longrightarrow> holding_phase p \<longrightarrow>
          calls c' = Some (r', p') \<longrightarrow> holding_phase p' \<longrightarrow> work_key r = work_key r' \<longrightarrow> c = c')
     \<and> (\<forall>c r ch. calls c \<in> {Some (r, Subscribing ch), Some (r, Waiting ch)} \<longrightarrow> ch < length (wl_watch l))"

text \<open>What makes a second admission of a key possible.\<close>

fun excuses :: "string \<Rightarrow> work_event \<Rightarrow> bool" where
  "excuses k (AckLost r) = (work_key r = k)"
| "excuses k (Evicted ks) = (k \<in> set ks)"
| "excuses k Restarted = True"
| "excuses k _ = False"

fun open_admission :: "string \<Rightarrow> work_event list \<Rightarrow> bool" where
  "open_admission k [] = False"
| "open_admission k (e # log) =
     (\<not> excuses k e \<and> ((case e of WorkAdmitted r _ \<Rightarrow> work_key r = k | _ \<Rightarrow> False) \<or> open_admission k log))"

fun admissions_excused :: "work_event list \<Rightarrow> bool" where
  "admissions_excused [] = True"
| "admissions_excused (e # log) =
     ((case e of WorkAdmitted r _ \<Rightarrow> \<not> open_admission (work_key r) log | _ \<Rightarrow> True) \<and> admissions_excused log)"

definition open_inv :: "work_ledger \<Rightarrow> calls \<Rightarrow> work_event list \<Rightarrow> bool" where
  "open_inv l calls log \<longleftrightarrow> admissions_excused log
     \<and> (\<forall>k. open_admission k log \<longrightarrow>
          (\<exists>f ack. bt_get (wl_entries l) k = Some (WorkDone f ack))
          \<or> (\<exists>c r p. calls c = Some (r, p) \<and> admitted_phase p \<and> work_key r = k))"

lemma open_inv_receiver [simp]:
  "open_inv (watch_subscribe ch l) calls log = open_inv l calls log"
  "open_inv (watch_leave ch l) calls log = open_inv l calls log"
  by (simp_all add: open_inv_def)

subsection \<open>Holders\<close>

lemma hold_inv_slot:
  "hold_inv env l calls \<Longrightarrow> calls c = Some (r, p) \<Longrightarrow> holding_phase p \<Longrightarrow>
     \<exists>ch. bt_get (wl_entries l) (work_key r) = Some (WorkInFlight (fp_of env r) ch)"
  unfolding hold_inv_def by blast

lemma hold_inv_unique:
  "hold_inv env l calls \<Longrightarrow> calls c = Some (r, p) \<Longrightarrow> holding_phase p \<Longrightarrow>
     calls c' = Some (r', p') \<Longrightarrow> holding_phase p' \<Longrightarrow> work_key r = work_key r' \<Longrightarrow> c' = c"
  unfolding hold_inv_def by blast

lemma hold_inv_ok: "hold_inv env l calls \<Longrightarrow> ledger_ok l"
  unfolding hold_inv_def by blast

text \<open>A call moves on without touching the ledger: it may give up holding but not start to.\<close>

lemma hold_inv_move:
  assumes "hold_inv env l calls" and "calls c = Some (r, p)" and "holding_phase p' \<longrightarrow> holding_phase p"
    and "\<And>ch. p' = Subscribing ch \<or> p' = Waiting ch \<Longrightarrow> ch < length (wl_watch l)"
  shows "hold_inv env l (calls(c \<mapsto> (r, p')))"
proof -
  let ?t = "calls(c \<mapsto> (r, p'))"
  have was: "\<exists>p0. calls d = Some (q, p0) \<and> holding_phase p0" if "?t d = Some (q, u)" "holding_phase u" for d q u
    using that assms(2,3) by (cases "d = c") auto
  show ?thesis
    unfolding hold_inv_def
  proof (intro conjI allI impI)
    show "ledger_ok l" using hold_inv_ok [OF assms(1)] .
    show "\<exists>ch. bt_get (wl_entries l) (work_key q) = Some (WorkInFlight (fp_of env q) ch)"
      if "?t d = Some (q, u)" "holding_phase u" for d q u
      using was [OF that] hold_inv_slot [OF assms(1)] by auto
    show "d = d'" if "?t d = Some (q, u)" "holding_phase u" "?t d' = Some (q', u')" "holding_phase u'"
      "work_key q = work_key q'" for d q u d' q' u'
      using was [OF that(1,2)] was [OF that(3,4)] hold_inv_unique [OF assms(1)] that(5) by metis
    show "ch < length (wl_watch l)" if "?t d \<in> {Some (q, Subscribing ch), Some (q, Waiting ch)}" for d q ch
      using that assms(1,4) by (cases "d = c") (auto simp: hold_inv_def)
  qed
qed

lemma hold_inv_end: "hold_inv env l calls \<Longrightarrow> hold_inv env l (calls(c := None))"
  unfolding hold_inv_def by (auto split: if_splits)

lemma hold_inv_start:
  "hold_inv env l calls \<Longrightarrow> calls c = None \<Longrightarrow> hold_inv env l (calls(c \<mapsto> (r, Claimed n)))"
  unfolding hold_inv_def by (auto split: if_splits)

text \<open>The ledger changes, but at no key that is held, and its channels only get more.\<close>

lemma hold_inv_ledger:
  assumes "hold_inv env l calls" and "ledger_ok l'" and "length (wl_watch l) \<le> length (wl_watch l')"
    and "\<And>d q u. calls d = Some (q, u) \<Longrightarrow> holding_phase u \<Longrightarrow>
           bt_get (wl_entries l') (work_key q) = bt_get (wl_entries l) (work_key q)"
  shows "hold_inv env l' calls"
proof -
  have "\<exists>ch. bt_get (wl_entries l') (work_key q) = Some (WorkInFlight (fp_of env q) ch)"
    if "calls d = Some (q, u)" "holding_phase u" for d q u
    using hold_inv_slot [OF assms(1) that] assms(4) [OF that] by simp
  then show ?thesis
    using assms(1-3) unfolding hold_inv_def by (fastforce simp: order_less_le_trans)
qed

lemma hold_inv_receiver [simp]:
  "hold_inv env (watch_subscribe ch l) calls = hold_inv env l calls"
  "hold_inv env (watch_leave ch l) calls = hold_inv env l calls"
  by (simp_all add: hold_inv_def)

lemma reserve_keeps_held:
  assumes "try_reserve key f l = (out, l')" and "hold_inv env l calls"
    and "calls d = Some (q, u)" and "holding_phase u"
  shows "bt_get (wl_entries l') (work_key q) = bt_get (wl_entries l) (work_key q)"
proof -
  obtain ch where slot: "bt_get (wl_entries l) (work_key q) = Some (WorkInFlight (fp_of env q) ch)"
    using hold_inv_slot [OF assms(2,3,4)] by blast
  note eff = try_reserve_effect [OF assms(1) hold_inv_ok [OF assms(2)]]
  show ?thesis
    using eff(2) slot by (cases out; cases "work_key q = key") (auto simp: slot_is_done_def)
qed

lemma hold_inv_reserve:
  assumes "try_reserve key f l = (out, l')" and "hold_inv env l calls"
  shows "hold_inv env l' calls"
proof -
  note eff = try_reserve_effect [OF assms(1) hold_inv_ok [OF assms(2)]]
  have "length (wl_watch l) \<le> length (wl_watch l')" using eff(2) by (cases out) auto
  then show ?thesis
    using hold_inv_ledger [OF assms(2) eff(1)] reserve_keeps_held [OF assms] by blast
qed

lemma hold_inv_fresh:
  assumes "try_reserve (work_key r) (fp_of env r) l = (ReserveFresh ch, l')" and "hold_inv env l calls"
  shows "hold_inv env l' (calls(c \<mapsto> (r, Holding a)))"
proof -
  have inv: "hold_inv env l' calls" by (rule hold_inv_reserve [OF assms])
  note eff = try_reserve_effect(2) [OF assms(1) hold_inv_ok [OF assms(2)], simplified]
  have none: "\<not> holding_phase u" if "calls d = Some (q, u)" "work_key q = work_key r" for d q u
    using hold_inv_slot [OF assms(2) that(1)] eff that(2) by auto
  show ?thesis
    using inv eff none unfolding hold_inv_def by (auto split: if_splits)
qed

text \<open>The holder gives its key up, as finished or as free.\<close>

lemma hold_inv_leave:
  assumes "hold_inv env l calls" and "calls c = Some (r, p)" and "holding_phase p" and "ledger_ok l'"
    and "length (wl_watch l') = length (wl_watch l)"
    and "\<And>k. k \<noteq> work_key r \<Longrightarrow> bt_get (wl_entries l') k = bt_get (wl_entries l) k"
  shows "hold_inv env l' (calls(c := None))"
proof (rule hold_inv_ledger [OF hold_inv_end [OF assms(1)] assms(4)])
  show "length (wl_watch l) \<le> length (wl_watch l')" using assms(5) by simp
  fix d q u assume d: "(calls(c := None)) d = Some (q, u)" "holding_phase u"
  then have "d \<noteq> c" "calls d = Some (q, u)" by (auto split: if_splits)
  then have "work_key q \<noteq> work_key r" using hold_inv_unique [OF assms(1) assms(2,3) _ d(2)] by metis
  then show "bt_get (wl_entries l') (work_key q) = bt_get (wl_entries l) (work_key q)" using assms(6) by simp
qed

lemma leave_ledger:
  assumes "hold_inv env l calls" and "calls c = Some (r, p)" and "holding_phase p"
  shows "hold_inv env (complete_with_done (work_key r) f ack l) (calls(c := None))"
    and "bt_get (wl_entries (complete_with_done (work_key r) f ack l)) = (bt_get (wl_entries l))(work_key r \<mapsto> WorkDone f ack)"
    and "hold_inv env (snd (release_in_flight (work_key r) l)) (calls(c := None))"
    and "bt_get (wl_entries (snd (release_in_flight (work_key r) l))) = (bt_get (wl_entries l))(work_key r := None)"
proof -
  obtain ch where slot: "bt_get (wl_entries l) (work_key r) = Some (WorkInFlight (fp_of env r) ch)"
    using hold_inv_slot [OF assms] by blast
  note c = complete_effect [OF hold_inv_ok [OF assms(1)] slot, of f ack]
  note d = release_effect [OF hold_inv_ok [OF assms(1)] slot]
  show "bt_get (wl_entries (complete_with_done (work_key r) f ack l)) = (bt_get (wl_entries l))(work_key r \<mapsto> WorkDone f ack)"
    and "bt_get (wl_entries (snd (release_in_flight (work_key r) l))) = (bt_get (wl_entries l))(work_key r := None)"
    using c(2) d(2) by simp_all
  show "hold_inv env (complete_with_done (work_key r) f ack l) (calls(c := None))"
    by (rule hold_inv_leave [OF assms c(1)]) (simp_all add: c(2,3))
  show "hold_inv env (snd (release_in_flight (work_key r) l)) (calls(c := None))"
    by (rule hold_inv_leave [OF assms d(1)]) (simp_all add: d(2,3))
qed

abbreviation sys_hold :: "work_env \<Rightarrow> work_system \<Rightarrow> bool" where
  "sys_hold env s \<equiv> hold_inv env (sy_ledger s) (sy_calls s)"

lemma hold_inv_call:
  assumes inv: "sys_hold env s" and call: "sy_calls s c = Some (r, p)"
  shows "sys_hold env (call_step env c r p act s)"
proof -
  note stay = hold_inv_move [OF inv call] and over = hold_inv_end [OF inv, of c]
  obtain out l where res: "try_reserve (work_key r) (fp_of env r) (sy_ledger s) = (out, l)" by force
  have inv': "hold_inv env l (sy_calls s)" by (rule hold_inv_reserve [OF res inv])
  note eff = try_reserve_effect [OF res hold_inv_ok [OF inv]]
  show ?thesis
  proof (cases p)
    case (Claimed n)
    then show ?thesis
      using over inv
      by (cases act) (auto simp: call_step_def do_select_def do_cancel_def split: sum.splits intro: stay)
  next
    case (Accepted a)
    have "sys_hold env (do_reserve env c r a s)"
    proof (cases out)
      case (ReserveFresh ch)
      then show ?thesis using hold_inv_fresh [OF res [unfolded ReserveFresh] inv] res by (simp add: do_reserve_def)
    next
      case (ReserveInFlight ch)
      have "ch < length (wl_watch l)" using eff ReserveInFlight by (auto simp: ledger_ok_def)
      then show ?thesis
        using hold_inv_move [OF inv' call, of "Subscribing ch"] res ReserveInFlight by (simp add: do_reserve_def)
    qed (use hold_inv_end [OF inv'] res in \<open>simp_all add: do_reserve_def\<close>)
    then show ?thesis
      using Accepted over inv by (cases act) (auto simp: call_step_def do_cancel_def)
  next
    case (Subscribing ch)
    have "ch < length (wl_watch (sy_ledger s))" using inv call Subscribing unfolding hold_inv_def by blast
    then show ?thesis
      using Subscribing over inv by (cases act) (auto simp: call_step_def do_cancel_def intro: stay)
  next
    case (Waiting ch)
    then show ?thesis
      using over inv by (cases act) (auto simp: call_step_def do_cancel_def intro: stay)
  next
    case (Retrying ch)
    have "sys_hold env (do_again env c r ch s)"
      using hold_inv_end [OF inv', of c] res by (cases out) (simp_all add: do_again_def work_again_def)
    then show ?thesis
      using Retrying over inv by (cases act) (auto simp: call_step_def do_cancel_def)
  next
    case (Holding a)
    then show ?thesis
      using inv
      by (cases act) (auto simp: call_step_def do_cancel_def do_admit_def split: sum.splits option.splits intro: stay)
  next
    case (Admitted ack)
    then show ?thesis
      using inv
      by (cases act) (auto simp: call_step_def do_cancel_def do_record_def split: prod.splits option.splits intro: stay)
  next
    case (Recorded ack)
    then show ?thesis
      using inv leave_ledger(1) [OF inv call]
      by (cases act) (auto simp: call_step_def do_cancel_def do_finish_def intro: stay)
  next
    case Dropping
    then show ?thesis
      using inv leave_ledger(3) [OF inv call]
      by (cases act) (auto simp: call_step_def do_cancel_def do_drop_def)
  qed
qed

lemma hold_inv_arrive:
  "sys_hold env s \<Longrightarrow> sy_calls s c = None \<Longrightarrow> sys_hold env (do_arrive env c request now fault s)"
  by (auto simp: do_arrive_def hold_inv_start split: prod.splits sum.splits option.splits)

lemma hold_inv_restart: "sys_hold env (do_restart s)"
  by (simp add: hold_inv_def do_restart_def)

lemma hold_inv_do: "sys_hold env s \<Longrightarrow> sys_hold env (work_do env s act)"
  using hold_inv_call hold_inv_arrive hold_inv_restart
  by (auto simp: work_do_def split: option.splits work_action.splits)


subsection \<open>Admissions\<close>

fun is_admission :: "work_event \<Rightarrow> bool" where
  "is_admission (WorkAdmitted _ _) = True"
| "is_admission _ = False"

lemma open_admission_append:
  assumes "\<forall>e\<in>set es. \<not> is_admission e"
  shows "open_admission k (es @ log) \<longleftrightarrow> (\<forall>e\<in>set es. \<not> excuses k e) \<and> open_admission k log"
  using assms by (induction es) (auto split: work_event.splits)

lemma admissions_excused_append:
  "\<forall>e\<in>set es. \<not> is_admission e \<Longrightarrow> admissions_excused (es @ log) = admissions_excused log"
  by (induction es) (auto split: work_event.splits)

text \<open>
  A step without an admission: it may take a finished slot away, or a call that was admitted
  out of its phase, only with an excuse.
\<close>

lemma open_inv_change:
  assumes "open_inv l calls log" and "\<forall>e\<in>set es. \<not> is_admission e"
    and "\<And>k f ack. bt_get (wl_entries l) k = Some (WorkDone f ack) \<Longrightarrow>
           (\<exists>f ack. bt_get (wl_entries l') k = Some (WorkDone f ack)) \<or> (\<exists>e\<in>set es. excuses k e)"
    and "\<And>c r p. calls c = Some (r, p) \<Longrightarrow> admitted_phase p \<Longrightarrow>
           (\<exists>d q u. calls' d = Some (q, u) \<and> admitted_phase u \<and> work_key q = work_key r)
           \<or> (\<exists>f ack. bt_get (wl_entries l') (work_key r) = Some (WorkDone f ack))
           \<or> (\<exists>e\<in>set es. excuses (work_key r) e)"
  shows "open_inv l' calls' (es @ log)"
  unfolding open_inv_def open_admission_append [OF assms(2)] admissions_excused_append [OF assms(2)]
proof (intro conjI allI impI)
  show "admissions_excused log" using assms(1) by (simp add: open_inv_def)
  fix k assume k: "(\<forall>e\<in>set es. \<not> excuses k e) \<and> open_admission k log"
  then consider f ack where "bt_get (wl_entries l) k = Some (WorkDone f ack)"
    | c r p where "calls c = Some (r, p)" "admitted_phase p" "work_key r = k"
    using assms(1) unfolding open_inv_def by blast
  then show "(\<exists>f ack. bt_get (wl_entries l') k = Some (WorkDone f ack))
      \<or> (\<exists>c r p. calls' c = Some (r, p) \<and> admitted_phase p \<and> work_key r = k)"
    using assms(3,4) k by cases metis+
qed

text \<open>Most steps touch one call that was not admitted, and no slot.\<close>

lemma open_inv_other:
  assumes "open_inv l calls log" and "\<And>r p. calls c = Some (r, p) \<Longrightarrow> \<not> admitted_phase p"
    and "\<forall>e\<in>set es. \<not> is_admission e"
  shows "open_inv l (calls(c := v)) (es @ log)"
proof (rule open_inv_change [OF assms(1,3)])
  fix d r p assume d: "calls d = Some (r, p)" "admitted_phase p"
  then have "d \<noteq> c" using assms(2) by blast
  then show "(\<exists>e q u. (calls(c := v)) e = Some (q, u) \<and> admitted_phase u \<and> work_key q = work_key r)
      \<or> (\<exists>f ack. bt_get (wl_entries l) (work_key r) = Some (WorkDone f ack))
      \<or> (\<exists>e\<in>set es. excuses (work_key r) e)"
    using d by (metis fun_upd_other)
qed blast

lemma open_inv_reserve:
  assumes "open_inv l calls log" and "try_reserve key f l = (out, l')" and "ledger_ok l"
    and "\<And>r p. calls c = Some (r, p) \<Longrightarrow> \<not> admitted_phase p"
    and "\<forall>e\<in>set es. \<not> is_admission e" and "Evicted (evicted_by l l') \<in> set es \<or> l' = l"
  shows "open_inv l' (calls(c := v)) (es @ log)"
proof (rule open_inv_change [OF assms(1,5)])
  fix k g ack assume k: "bt_get (wl_entries l) k = Some (WorkDone g ack)"
  note eff = try_reserve_effect [OF assms(2,3)]
  show "(\<exists>f ack. bt_get (wl_entries l') k = Some (WorkDone f ack)) \<or> (\<exists>e\<in>set es. excuses k e)"
  proof (cases "bt_get (wl_entries l') k")
    case None
    have "k \<in> set (wl_order l)" "k \<notin> set (wl_order l')"
      using k None assms(3) eff(1) by (auto simp: ledger_ok_def)
    then show ?thesis using assms(6) k None by (auto simp: evicted_by_def intro!: bexI [rotated])
  next
    case (Some u)
    have "bt_get (wl_entries l') k = bt_get (wl_entries l) k"
      using eff(2) k Some by (cases out; cases "k = key") auto
    then show ?thesis using k by simp
  qed
next
  fix d r p assume d: "calls d = Some (r, p)" "admitted_phase p"
  then have "d \<noteq> c" using assms(4) by blast
  then show "(\<exists>e q u. (calls(c := v)) e = Some (q, u) \<and> admitted_phase u \<and> work_key q = work_key r)
      \<or> (\<exists>f ack. bt_get (wl_entries l') (work_key r) = Some (WorkDone f ack))
      \<or> (\<exists>e\<in>set es. excuses (work_key r) e)"
    using d by (metis fun_upd_other)
qed

text \<open>The admission itself: its call holds the key, so nothing is open.\<close>

lemma open_inv_admit:
  assumes "open_inv l calls log" and "hold_inv env l calls" and "calls c = Some (r, Holding a)"
  shows "open_inv l (calls(c \<mapsto> (r, Admitted ack))) (WorkAdmitted r sub # log)"
proof -
  obtain ch where slot: "bt_get (wl_entries l) (work_key r) = Some (WorkInFlight (fp_of env r) ch)"
    using hold_inv_slot [OF assms(2,3)] by auto
  have closed: "\<not> open_admission (work_key r) log"
  proof
    assume "open_admission (work_key r) log"
    then obtain d q p where d: "calls d = Some (q, p)" "admitted_phase p" "work_key q = work_key r"
      using assms(1) slot unfolding open_inv_def by fastforce
    then have "d = c" using hold_inv_unique [OF assms(2,3) _ d(1) admitted_holds [OF d(2)]] by simp
    then show False using d assms(3) by auto
  qed
  have other: "open_inv l (calls(c \<mapsto> (r, Admitted ack))) ([] @ log)"
    by (rule open_inv_other [OF assms(1)]) (use assms(3) in auto)
  show ?thesis
    using other closed unfolding open_inv_def by (auto 0 3)
qed

abbreviation sys_open :: "work_system \<Rightarrow> bool" where
  "sys_open s \<equiv> open_inv (sy_ledger s) (sy_calls s) (sy_log s)"

lemma open_inv_call:
  assumes inv: "sys_hold env s" and op: "sys_open s" and call: "sy_calls s c = Some (r, p)"
  shows "sys_open (call_step env c r p act s)"
proof -
  obtain out l where res: "try_reserve (work_key r) (fp_of env r) (sy_ledger s) = (out, l)" by force
  note eff = try_reserve_effect [OF res hold_inv_ok [OF inv]]
  have other: "open_inv (sy_ledger s) ((sy_calls s)(c := v)) (es @ sy_log s)"
    if "\<not> admitted_phase p" "\<forall>e\<in>set es. \<not> is_admission e" for v es
    by (rule open_inv_other [OF op _ that(2)]) (use call that(1) in auto)
  note other0 = other [where es = "[]", simplified] and other1 = other [where es = "[e]" for e, simplified]
  have reserve: "open_inv l ((sy_calls s)(c := v)) (es @ sy_log s)"
    if "\<not> admitted_phase p" "\<forall>e\<in>set es. \<not> is_admission e" "Evicted (evicted_by (sy_ledger s) l) \<in> set es \<or> l = sy_ledger s" for v es
    by (rule open_inv_reserve [OF op res hold_inv_ok [OF inv] _ that(2,3)]) (use call that(1) in auto)
  note reserve0 = reserve [where es = "[]", simplified] and reserve1 = reserve [where es = "[e]" for e, simplified]
    and reserve2 = reserve [where es = "[e, e']" for e e', simplified]
  have lost: "open_inv (sy_ledger s) ((sy_calls s)(c \<mapsto> (r, Dropping))) (es @ sy_log s)"
    if "AckLost r \<in> set es" "\<forall>e\<in>set es. \<not> is_admission e" for es
  proof (rule open_inv_change [OF op that(2)])
    fix d q u assume d: "sy_calls s d = Some (q, u)" "admitted_phase u"
    show "(\<exists>e q' u. ((sy_calls s)(c \<mapsto> (r, Dropping))) e = Some (q', u) \<and> admitted_phase u \<and> work_key q' = work_key q)
      \<or> (\<exists>f ack. bt_get (wl_entries (sy_ledger s)) (work_key q) = Some (WorkDone f ack))
      \<or> (\<exists>e\<in>set es. excuses (work_key q) e)"
    proof (cases "d = c")
      case True
      then show ?thesis using d call that(1) by (auto intro!: bexI [of _ "AckLost r"])
    next
      case False
      then show ?thesis using d by (metis fun_upd_other)
    qed
  qed blast
  note lost1 = lost [where es = "[e]" for e, simplified] and lost2 = lost [where es = "[e, e']" for e e', simplified]
  show ?thesis
  proof (cases p)
    case (Claimed n)
    then show ?thesis
      using op by (cases act)
        (auto simp: call_step_def do_select_def do_cancel_def split: sum.splits intro: other0 other1)
  next
    case (Accepted a)
    have "sys_open (do_reserve env c r a s)"
      using res eff Accepted by (cases out) (auto simp: do_reserve_def intro: reserve0 reserve1 other0 other1)
    then show ?thesis
      using op Accepted by (cases act) (auto simp: call_step_def do_cancel_def intro: other0)
  next
    case (Subscribing ch)
    then show ?thesis
      using op by (cases act) (auto simp: call_step_def do_cancel_def intro: other0)
  next
    case (Waiting ch)
    then show ?thesis
      using op by (cases act) (auto simp: call_step_def do_cancel_def intro: other0 other1)
  next
    case (Retrying ch)
    have "sys_open (do_again env c r ch s)"
      using res Retrying by (cases out) (auto simp: do_again_def work_again_def intro: reserve2)
    then show ?thesis
      using op Retrying by (cases act) (auto simp: call_step_def do_cancel_def intro: other0)
  next
    case (Holding a)
    then show ?thesis
      using op open_inv_admit [OF op inv] call by (cases act)
        (auto simp: call_step_def do_cancel_def do_admit_def split: sum.splits option.splits intro: other0 other1)
  next
    case (Admitted ack)
    have "open_inv (sy_ledger s) ((sy_calls s)(c \<mapsto> (r, Recorded ack))) ([] @ sy_log s)"
    proof (rule open_inv_change [OF op])
      fix d q u assume d: "sy_calls s d = Some (q, u)" "admitted_phase u"
      show "(\<exists>e q' u. ((sy_calls s)(c \<mapsto> (r, Recorded ack))) e = Some (q', u) \<and> admitted_phase u \<and> work_key q' = work_key q)
        \<or> (\<exists>f ack. bt_get (wl_entries (sy_ledger s)) (work_key q) = Some (WorkDone f ack))
        \<or> (\<exists>e\<in>set []. excuses (work_key q) e)"
      proof (cases "d = c")
        case True
        then show ?thesis using d call by (auto intro!: exI [of _ c])
      next
        case False
        then show ?thesis using d by (metis fun_upd_other)
      qed
    qed auto
    then show ?thesis
      using op Admitted by (cases act)
        (auto simp: call_step_def do_cancel_def do_record_def split: prod.splits option.splits intro: lost1 lost2)
  next
    case (Recorded ack)
    note fin = leave_ledger(2) [OF inv call, unfolded Recorded holding_phase.simps, OF TrueI, of "fp_of env r" ack]
    have "open_inv (complete_with_done (work_key r) (fp_of env r) ack (sy_ledger s)) ((sy_calls s)(c := None))
        ([Answered (Some r) (work_accepted ack)] @ sy_log s)"
    proof (rule open_inv_change [OF op])
      fix d q u assume d: "sy_calls s d = Some (q, u)" "admitted_phase u"
      show "(\<exists>e q' u. ((sy_calls s)(c := None)) e = Some (q', u) \<and> admitted_phase u \<and> work_key q' = work_key q)
        \<or> (\<exists>f ack'. bt_get (wl_entries (complete_with_done (work_key r) (fp_of env r) ack (sy_ledger s))) (work_key q)
              = Some (WorkDone f ack'))
        \<or> (\<exists>e\<in>set [Answered (Some r) (work_accepted ack)]. excuses (work_key q) e)"
        unfolding fin using d call by (cases "d = c") (auto intro!: exI [of _ d])
    qed (auto simp: fin)
    then show ?thesis
      using op Recorded by (cases act) (auto simp: call_step_def do_cancel_def do_finish_def intro: lost1)
  next
    case Dropping
    note rel = leave_ledger(4) [OF inv call, unfolded Dropping holding_phase.simps, OF TrueI]
    obtain ch where slot: "bt_get (wl_entries (sy_ledger s)) (work_key r) = Some (WorkInFlight (fp_of env r) ch)"
      using hold_inv_slot [OF inv call] Dropping by auto
    have "open_inv (snd (release_in_flight (work_key r) (sy_ledger s))) ((sy_calls s)(c := None)) ([] @ sy_log s)"
    proof (rule open_inv_change [OF op])
      fix d q u assume d: "sy_calls s d = Some (q, u)" "admitted_phase u"
      show "(\<exists>e q' u. ((sy_calls s)(c := None)) e = Some (q', u) \<and> admitted_phase u \<and> work_key q' = work_key q)
        \<or> (\<exists>f ack'. bt_get (wl_entries (snd (release_in_flight (work_key r) (sy_ledger s)))) (work_key q)
              = Some (WorkDone f ack'))
        \<or> (\<exists>e\<in>set []. excuses (work_key q) e)"
        using d call Dropping by (cases "d = c") (auto intro!: exI [of _ d])
    qed (auto simp: rel slot)
    then show ?thesis
      using op Dropping by (cases act) (auto simp: call_step_def do_cancel_def do_drop_def)
  qed
qed

lemma open_inv_arrive:
  assumes "sys_open s" and "sy_calls s c = None"
  shows "sys_open (do_arrive env c request now fault s)"
proof -
  have start: "open_inv (sy_ledger s) ((sy_calls s)(c := v)) ([] @ sy_log s)" for v
    by (rule open_inv_other [OF assms(1)]) (use assms(2) in auto)
  have answer: "open_inv (sy_ledger s) ((sy_calls s)(c := None)) ([Answered q resp] @ sy_log s)" for q resp
    by (rule open_inv_other [OF assms(1)]) (use assms(2) in auto)
  have "(sy_calls s)(c := None) = sy_calls s" using assms(2) by (simp add: fun_upd_idem)
  then show ?thesis
    using assms(1) start answer
    by (auto simp: do_arrive_def split: prod.splits sum.splits option.splits)
qed

lemma open_inv_restart: "sys_open s \<Longrightarrow> sys_open (do_restart s)"
  by (auto simp: open_inv_def do_restart_def)

lemma open_inv_do: "sys_hold env s \<Longrightarrow> sys_open s \<Longrightarrow> sys_open (work_do env s act)"
  using open_inv_call open_inv_arrive open_inv_restart
  by (auto simp: work_do_def split: option.splits work_action.splits)

text \<open>Two admissions of a key have an excuse between them.\<close>

lemma admissions_excused_split:
  assumes "admissions_excused (newer @ WorkAdmitted r' sub' # mid @ WorkAdmitted r sub # older)"
    and "work_key r' = work_key r"
  shows "\<exists>e\<in>set mid. excuses (work_key r) e"
proof -
  have "admissions_excused (WorkAdmitted r' sub' # mid @ WorkAdmitted r sub # older)"
    using assms(1) by (induction newer) auto
  then have "\<not> open_admission (work_key r) (mid @ WorkAdmitted r sub # older)" using assms(2) by simp
  then show ?thesis by (induction mid) (auto split: work_event.splits)
qed

end
