(* ===== verification/Work_Answers.thy ===== *)
theory Work_Answers
  imports Work_Facts
begin

section \<open>Answers along a run\<close>

text \<open>
  The invariant of what is stored and answered: a row that has an acknowledgement has the one
  its dispatch determines, and its work was admitted; a finished slot and an accepted answer
  repeat the acknowledgement of the row; everything admitted passed the gate.
\<close>

definition arrived_ok :: "work_env \<Rightarrow> agent_work \<Rightarrow> bool" where
  "arrived_ok env r \<longleftrightarrow> validate_agent_work r = None \<and> we_heartbeat env \<and> we_store env"

text \<open>The acknowledgement of an admitted request.\<close>

definition the_ack :: "work_env \<Rightarrow> agent_work \<Rightarrow> string" where
  "the_ack env r =
     wk_print_value (we_codec env)
       (work_ack_json r
          (session_pool_key (channel_of_destination (the (aw_delivery_destination r))) @ '':'' @ ''native:'' @ aw_agent r)
          (execution_id_of (aw_dispatch_id r)))"

definition admitted_ok :: "work_env \<Rightarrow> agent_work \<Rightarrow> submission \<Rightarrow> bool" where
  "admitted_ok env r sub \<longleftrightarrow> arrived_ok env r \<and> we_admission env
     \<and> (\<exists>d now. aw_delivery_destination r = Some d \<and> validate_delivery_destination d = Inr ()
          \<and> authorize_outbound_channel_with_parent (we_lower env) (we_trust env)
              (wd_platform d) (wd_channel_id d) (wd_parent_id d)
          \<and> wd_platform d \<in> we_adapters env
          \<and> sub = (format_native_dispatch_key (aw_agent r) (aw_dispatch_id r), channel_of_destination d,
                   work_message r (channel_of_destination d) now))"

text \<open>
  Equal fingerprints mean equal contents among the requests that arrive: SHA-256 has no
  collision on them and the printer is faithful.
\<close>

definition fingerprints_ok :: "work_env \<Rightarrow> agent_work set \<Rightarrow> bool" where
  "fingerprints_ok env R \<longleftrightarrow>
     (\<forall>r\<in>R. \<forall>r'\<in>R. (dfp_of env r = dfp_of env r' \<longrightarrow> acceptance_json r = acceptance_json r')
        \<and> (fp_of env r = fp_of env r' \<longrightarrow> agent_work_json r = agent_work_json r'))"

lemma the_ack_cong:
  assumes "acceptance_json r = acceptance_json r'" and "aw_dispatch_id r = aw_dispatch_id r'"
  shows "the_ack env r = the_ack env r'"
proof -
  have "r' = r\<lparr>aw_lease_id := aw_lease_id r', aw_lease_generation := aw_lease_generation r'\<rparr>"
    using assms unfolding acceptance_json_iff by (metis agent_work.surjective agent_work.update_convs(1))
  then have "the_ack env r' = the_ack env (r\<lparr>aw_lease_id := aw_lease_id r', aw_lease_generation := aw_lease_generation r'\<rparr>)"
    by simp
  then show ?thesis by (simp add: the_ack_def work_ack_json_def)
qed

lemma format_key_nonempty [simp]: "format_native_dispatch_key a d \<noteq> []"
  by (simp add: format_native_dispatch_key_def native_dispatch_key_prefix_def)

lemma work_admit_effect:
  assumes "work_admit env r a port answer now = Inr (ack, sub)" and "arrived_ok env r"
    and "na_execution_id a = execution_id_of (aw_dispatch_id r)"
  shows "ack = the_ack env r" and "\<exists>su. sub = Some su \<and> admitted_ok env r su"
proof -
  obtain c k where g: "work_gate env r = Inr c"
      and h: "handle_admit_work port answer (work_admission_request r c now) = (Inr k, sub)"
      and ack: "ack = wk_print_value (we_codec env) (work_ack_json r (ak_admission_id k) (na_execution_id a))"
    using assms(1) by (auto simp: work_admit_def split: sum.splits prod.splits if_splits)
  obtain d where d: "aw_delivery_destination r = Some d" "validate_delivery_destination d = Inr ()"
      "authorize_outbound_channel_with_parent (we_lower env) (we_trust env) (wd_platform d) (wd_channel_id d) (wd_parent_id d)"
      "wd_platform d \<in> we_adapters env" "c = channel_of_destination d" "we_admission env"
    using g by (auto simp: work_gate_def split: if_splits option.splits sum.splits)
  note adm = admitted_submission [OF h]
  show "ack = the_ack env r"
    using ack adm(1) assms(3) d(1,5) by (simp add: the_ack_def work_admission_request_def)
  have "sub = Some (format_native_dispatch_key (aw_agent r) (aw_dispatch_id r), c, work_message r c now)"
    using adm(4) by (auto simp: work_admission_request_def work_message_def)
  then show "\<exists>su. sub = Some su \<and> admitted_ok env r su"
    using assms(2) d by (auto simp: admitted_ok_def)
qed

subsection \<open>Rows\<close>

definition row_for :: "work_env \<Rightarrow> accept_db \<Rightarrow> agent_work \<Rightarrow> bool" where
  "row_for env db r \<longleftrightarrow>
     (\<exists>row\<in>set (rows_of db). ar_dispatch_id row = aw_dispatch_id r \<and> ar_fingerprint row = dfp_of env r)"

definition acked_row :: "work_env \<Rightarrow> accept_db \<Rightarrow> agent_work \<Rightarrow> string \<Rightarrow> bool" where
  "acked_row env db r ack \<longleftrightarrow> ack \<noteq> [] \<and>
     (\<exists>row\<in>set (rows_of db). ar_dispatch_id row = aw_dispatch_id r \<and> ar_fingerprint row = dfp_of env r
        \<and> ar_acknowledgement row = ack)"

definition admitted_in :: "work_event list \<Rightarrow> string \<Rightarrow> bool" where
  "admitted_in log d \<longleftrightarrow> (\<exists>q sub. WorkAdmitted q sub \<in> set log \<and> aw_dispatch_id q = d)"

lemma admitted_in_mono: "set log \<subseteq> set log' \<Longrightarrow> admitted_in log d \<Longrightarrow> admitted_in log' d"
  unfolding admitted_in_def by blast

lemma row_for_grow: "rows_grow (rows_of db) (rows_of db') \<Longrightarrow> row_for env db r \<Longrightarrow> row_for env db' r"
  unfolding row_for_def same_row_def by (metis rows_grow_row same_row_def)

lemma acked_row_grow: "rows_grow (rows_of db) (rows_of db') \<Longrightarrow> acked_row env db r ack \<Longrightarrow> acked_row env db' r ack"
  unfolding acked_row_def by (metis rows_grow_row same_row_def)

lemma acked_row_for: "acked_row env db r ack \<Longrightarrow> row_for env db r"
  unfolding acked_row_def row_for_def by blast

lemma rows_ok_unique:
  "rows_ok rows \<Longrightarrow> a \<in> set rows \<Longrightarrow> b \<in> set rows \<Longrightarrow> ar_dispatch_id a = ar_dispatch_id b \<Longrightarrow> a = b"
  unfolding rows_ok_def by (metis distinct_map inj_onD)

text \<open>An acknowledgement of one request of a dispatch is one of every other that has the row.\<close>

lemma acked_row_same:
  assumes "rows_ok (rows_of db)" and "acked_row env db q ack" and "row_for env db r"
    and "aw_dispatch_id q = aw_dispatch_id r"
  shows "acked_row env db r ack"
  using assms unfolding acked_row_def row_for_def by (metis rows_ok_unique)

lemma acked_row_unique:
  "rows_ok (rows_of db) \<Longrightarrow> acked_row env db r a \<Longrightarrow> acked_row env db r' b \<Longrightarrow>
     aw_dispatch_id r = aw_dispatch_id r' \<Longrightarrow> a = b"
  unfolding acked_row_def by (metis rows_ok_unique)

definition acks_inv :: "work_env \<Rightarrow> agent_work set \<Rightarrow> accept_db \<Rightarrow> work_event list \<Rightarrow> bool" where
  "acks_inv env R db log \<longleftrightarrow>
     (\<forall>row\<in>set (rows_of db). ar_acknowledgement row \<noteq> [] \<longrightarrow>
        (\<exists>r\<in>R. aw_dispatch_id r = ar_dispatch_id row \<and> dfp_of env r = ar_fingerprint row
           \<and> ar_acknowledgement row = the_ack env r) \<and> admitted_in log (ar_dispatch_id row))"

definition slots_inv :: "work_env \<Rightarrow> agent_work set \<Rightarrow> accept_db \<Rightarrow> work_ledger \<Rightarrow> bool" where
  "slots_inv env R db l \<longleftrightarrow>
     (\<forall>k f ack. bt_get (wl_entries l) k = Some (WorkDone f ack) \<longrightarrow>
        (\<exists>r\<in>R. work_key r = k \<and> f = fp_of env r \<and> acked_row env db r ack))"

fun event_ok :: "work_env \<Rightarrow> agent_work set \<Rightarrow> accept_db \<Rightarrow> work_event \<Rightarrow> bool" where
  "event_ok env R db (Answered None resp) = (\<not> rs_ok resp)"
| "event_ok env R db (Answered (Some r) resp) = (rs_ok resp \<longrightarrow> (\<exists>ack. resp = work_accepted ack \<and> acked_row env db r ack))"
| "event_ok env R db (WorkAdmitted r sub) = (r \<in> R \<and> admitted_ok env r sub \<and> row_for env db r)"
| "event_ok env R db _ = True"

fun phase_ok :: "work_env \<Rightarrow> accept_db \<Rightarrow> work_event list \<Rightarrow> agent_work \<Rightarrow> work_phase \<Rightarrow> bool" where
  "phase_ok env db log r (Claimed n) = True"
| "phase_ok env db log r (Accepted a) = (row_for env db r \<and> na_execution_id a = execution_id_of (aw_dispatch_id r))"
| "phase_ok env db log r (Holding a) = (row_for env db r \<and> na_execution_id a = execution_id_of (aw_dispatch_id r))"
| "phase_ok env db log r (Admitted ack) = (row_for env db r \<and> ack = the_ack env r \<and> admitted_in log (aw_dispatch_id r))"
| "phase_ok env db log r (Recorded ack) = acked_row env db r ack"
| "phase_ok env db log r _ = row_for env db r"

definition calls_inv :: "work_env \<Rightarrow> agent_work set \<Rightarrow> accept_db \<Rightarrow> work_event list \<Rightarrow> calls \<Rightarrow> bool" where
  "calls_inv env R db log calls \<longleftrightarrow>
     (\<forall>c r p. calls c = Some (r, p) \<longrightarrow> r \<in> R \<and> arrived_ok env r \<and> phase_ok env db log r p)"

definition answers_inv :: "work_env \<Rightarrow> agent_work set \<Rightarrow> accept_db \<Rightarrow> work_ledger \<Rightarrow> calls \<Rightarrow> work_event list \<Rightarrow> bool" where
  "answers_inv env R db l calls log \<longleftrightarrow> rows_ok (rows_of db) \<and> acks_inv env R db log
     \<and> slots_inv env R db l \<and> calls_inv env R db log calls \<and> list_all (event_ok env R db) log"

lemma event_ok_grow: "rows_grow (rows_of db) (rows_of db') \<Longrightarrow> event_ok env R db e \<Longrightarrow> event_ok env R db' e"
proof (cases e)
  case (Answered q resp)
  assume "rows_grow (rows_of db) (rows_of db')" "event_ok env R db e"
  then show ?thesis using Answered acked_row_grow by (cases q) auto
qed (use row_for_grow in auto)

lemma phase_ok_grow:
  "rows_grow (rows_of db) (rows_of db') \<Longrightarrow> set log \<subseteq> set log' \<Longrightarrow> phase_ok env db log r p \<Longrightarrow> phase_ok env db' log' r p"
  using row_for_grow acked_row_grow admitted_in_mono by (cases p) auto

text \<open>One step: the rows grow, one call changes, and events are added.\<close>

lemma answers_inv_step:
  assumes "answers_inv env R db l calls log" and "rows_grow (rows_of db) (rows_of db')" and "rows_ok (rows_of db')"
    and "acks_inv env R db' (es @ log)" and "slots_inv env R db' l'" and "list_all (event_ok env R db') es"
    and "\<And>r p. v = Some (r, p) \<Longrightarrow> r \<in> R \<and> arrived_ok env r \<and> phase_ok env db' (es @ log) r p"
  shows "answers_inv env R db' l' (calls(c := v)) (es @ log)"
proof -
  have "calls_inv env R db' (es @ log) (calls(c := v))"
    unfolding calls_inv_def
  proof (intro allI impI)
    fix d r p assume d: "(calls(c := v)) d = Some (r, p)"
    show "r \<in> R \<and> arrived_ok env r \<and> phase_ok env db' (es @ log) r p"
    proof (cases "d = c")
      case True
      then show ?thesis using d assms(7) by simp
    next
      case False
      then have "r \<in> R \<and> arrived_ok env r \<and> phase_ok env db log r p"
        using d assms(1) by (auto simp: answers_inv_def calls_inv_def)
      then show ?thesis using phase_ok_grow [OF assms(2), of log "es @ log"] by auto
    qed
  qed
  moreover have "list_all (event_ok env R db') log"
    using assms(1) event_ok_grow [OF assms(2)] by (auto simp: answers_inv_def list_all_iff)
  ultimately show ?thesis using assms(3-6) by (simp add: answers_inv_def)
qed

lemma acks_inv_log: "acks_inv env R db log \<Longrightarrow> acks_inv env R db (es @ log)"
  unfolding acks_inv_def using admitted_in_mono [of log "es @ log"] by auto

lemma slots_inv_grow:
  "slots_inv env R db l \<Longrightarrow> rows_grow (rows_of db) (rows_of db') \<Longrightarrow> slots_inv env R db' l"
  unfolding slots_inv_def using acked_row_grow by blast

lemma slots_inv_receiver [simp]:
  "slots_inv env R db (watch_subscribe ch l) = slots_inv env R db l"
  "slots_inv env R db (watch_leave ch l) = slots_inv env R db l"
  by (simp_all add: slots_inv_def)

lemma answers_inv_receiver [simp]:
  "answers_inv env R db (watch_subscribe ch l) calls log = answers_inv env R db l calls log"
  "answers_inv env R db (watch_leave ch l) calls log = answers_inv env R db l calls log"
  by (simp_all add: answers_inv_def)

text \<open>Steps that leave the database alone.\<close>

lemma answers_inv_same:
  assumes "answers_inv env R db l calls log" and "slots_inv env R db l'" and "list_all (event_ok env R db) es"
    and "\<And>r p. v = Some (r, p) \<Longrightarrow> r \<in> R \<and> arrived_ok env r \<and> phase_ok env db (es @ log) r p"
  shows "answers_inv env R db l' (calls(c := v)) (es @ log)"
  using answers_inv_step [OF assms(1) rows_grow_refl _ _ assms(2,3,4)] assms(1) acks_inv_log
  by (auto simp: answers_inv_def)

subsection \<open>The statements\<close>

lemma claim_start_acks:
  assumes "claim_start cx fault d f now db = (res, db')" and "row \<in> set (rows_of db')"
  shows "row \<in> set (rows_of db) \<or> ar_acknowledgement row = []"
  using assms
  by (auto simp: claim_start_def statement_def insert_or_ignore_def rows_of_def split: if_splits option.splits)

lemma acks_inv_claim:
  "claim_start cx fault d f now db = (res, db') \<Longrightarrow> acks_inv env R db log \<Longrightarrow> acks_inv env R db' log"
  unfolding acks_inv_def using claim_start_acks by fastforce

lemma work_select_effect:
  assumes "work_select env fault r n db = res" and "rows_ok (rows_of db)"
  shows "(case res of
      Inl resp \<Rightarrow> rs_ok resp \<longrightarrow> (\<exists>ack. resp = work_accepted ack \<and> acked_row env db r ack)
    | Inr a \<Rightarrow> row_for env db r \<and> na_execution_id a = execution_id_of (aw_dispatch_id r))"
proof (cases "claim_finish (we_accept env) fault (aw_dispatch_id r) (dfp_of env r) n db")
  case (Inl e)
  then show ?thesis using assms(1) by (cases e) (auto simp: work_select_def)
next
  case (Inr a)
  note fin = claim_finish_effect [OF Inr]
  obtain row where row: "row \<in> set (rows_of db)" "reads_as (we_accept env) row a" using fin(1) by blast
  have id: "ar_dispatch_id row = aw_dispatch_id r" "ar_fingerprint row = dfp_of env r"
    using row(2) fin(2,3) by (simp_all add: reads_as_def)
  have exe: "na_execution_id a = execution_id_of (aw_dispatch_id r)"
    using row assms(2) id(1) by (auto simp: reads_as_def rows_ok_def)
  have ack: "na_acknowledgement a = Some ack \<Longrightarrow> ar_acknowledgement row = ack \<and> ack \<noteq> []" for ack
  proof -
    assume some: "na_acknowledgement a = Some ack"
    obtain rows row' a0 where t: "ad_table db = Some rows" "List.find (\<lambda>r'. ar_dispatch_id r' = aw_dispatch_id r) rows = Some row'"
        "read_row (we_accept env) row' = Inr a0" "a = a0\<lparr>na_reused := (n = 0)\<rparr>"
      using Inr by (auto simp: claim_finish_def statement_def select_row_def split: option.splits sum.splits if_splits)
    have "row' \<in> set (rows_of db)" "ar_dispatch_id row' = aw_dispatch_id r"
      using find_Some_in [OF t(2)] t(1) by (auto simp: rows_of_def)
    then have "row' = row" using rows_ok_unique [OF assms(2)] row(1) id(1) by metis
    then show "ar_acknowledgement row = ack \<and> ack \<noteq> []"
      using some t(3,4) by (auto simp: read_row_def split: sum.splits if_splits)
  qed
  show ?thesis
  proof (cases "na_acknowledgement a")
    case None
    then show ?thesis using assms(1) Inr row(1) id exe by (auto simp: work_select_def row_for_def)
  next
    case (Some x)
    then show ?thesis using assms(1) Inr row(1) id ack [OF Some] by (auto simp: work_select_def acked_row_def)
  qed
qed

lemma trim_nothing: "trim [] = []"
  by code_simp

text \<open>Recording an acknowledgement: the row has it, or has had it already.\<close>

lemma record_effect:
  assumes "record_acknowledgement fault d ack db = (Inr u, db')" and "rows_ok (rows_of db)"
  shows "ack \<noteq> []"
    and "\<And>row. row \<in> set (rows_of db') \<Longrightarrow> \<exists>old\<in>set (rows_of db). same_row old row
           \<and> (ar_dispatch_id row = d \<longrightarrow> ar_acknowledgement row =
                (if ar_acknowledgement old = [] then ack else ar_acknowledgement old))
           \<and> (ar_dispatch_id row \<noteq> d \<longrightarrow> row = old)"
    and "\<And>old. old \<in> set (rows_of db) \<Longrightarrow> ar_dispatch_id old = d \<Longrightarrow>
           \<exists>row\<in>set (rows_of db'). same_row old row \<and> ar_acknowledgement row =
             (if ar_acknowledgement old = [] then ack else ar_acknowledgement old)"
proof -
  let ?g = "\<lambda>r. if ar_dispatch_id r = d then (if ar_acknowledgement r = [] then r\<lparr>ar_acknowledgement := ack\<rparr> else r) else r"
  have t: "trim ack \<noteq> []" "rows_of db' = map ?g (rows_of db)"
    using assms(1)
    by (auto simp: record_acknowledgement_def statement_def acknowledge_rows_def rows_of_def
        split: option.splits if_splits)
  show "ack \<noteq> []" using t(1) trim_nothing by metis
  show "\<exists>old\<in>set (rows_of db). same_row old row
           \<and> (ar_dispatch_id row = d \<longrightarrow> ar_acknowledgement row =
                (if ar_acknowledgement old = [] then ack else ar_acknowledgement old))
           \<and> (ar_dispatch_id row \<noteq> d \<longrightarrow> row = old)" if "row \<in> set (rows_of db')" for row
    using that unfolding t(2) by (auto simp: same_row_def)
  show "\<exists>row\<in>set (rows_of db'). same_row old row \<and> ar_acknowledgement row =
             (if ar_acknowledgement old = [] then ack else ar_acknowledgement old)"
    if "old \<in> set (rows_of db)" "ar_dispatch_id old = d" for old
    by (rule bexI [of _ "?g old"]) (use that in \<open>auto simp: t(2) same_row_def\<close>)
qed

lemma filter_single:
  "distinct (map f xs) \<Longrightarrow> x \<in> set xs \<Longrightarrow> length (filter (\<lambda>y. f y = f x) xs) = 1"
  by (induction xs) (auto simp: filter_empty_conv image_iff)

lemma record_failure:
  assumes "record_acknowledgement fault (aw_dispatch_id r) ack db = (Inl e, db')" and "rows_ok (rows_of db)"
    and "row_for env db r"
  shows "db' = db"
proof -
  obtain row where "row \<in> set (rows_of db)" "ar_dispatch_id row = aw_dispatch_id r"
    using assms(3) unfolding row_for_def by blast
  then have "length (filter (\<lambda>x. ar_dispatch_id x = aw_dispatch_id r) (rows_of db)) = 1"
    using filter_single [of ar_dispatch_id "rows_of db" row] assms(2) by (simp add: rows_ok_def)
  then show ?thesis
    using assms(1)
    by (auto simp: record_acknowledgement_def statement_def acknowledge_rows_def rows_of_def
        split: option.splits if_splits)
qed

lemma record_keeps:
  assumes rec: "record_acknowledgement fault (aw_dispatch_id r) (the_ack env r) db = (Inr u, db')"
    and inv: "rows_ok (rows_of db)" "acks_inv env R db log" and row: "row_for env db r"
    and adm: "admitted_in log (aw_dispatch_id r)" and R: "r \<in> R" "fingerprints_ok env R"
  shows "acks_inv env R db' log" and "acked_row env db' r (the_ack env r)"
proof -
  note eff = record_effect [OF rec inv(1)]
  have known: "ar_acknowledgement old = the_ack env r"
    if old: "old \<in> set (rows_of db)" "ar_dispatch_id old = aw_dispatch_id r" "ar_acknowledgement old \<noteq> []" for old
  proof -
    obtain q where q: "q \<in> R" "aw_dispatch_id q = aw_dispatch_id r" "dfp_of env q = ar_fingerprint old"
        "ar_acknowledgement old = the_ack env q"
      using inv(2) [unfolded acks_inv_def, rule_format, OF old(1,3)] old(2) by auto
    have "ar_fingerprint old = dfp_of env r" using row old(1,2) rows_ok_unique [OF inv(1)] unfolding row_for_def by metis
    then have "acceptance_json q = acceptance_json r" using R q(1,3) unfolding fingerprints_ok_def by metis
    then show ?thesis using the_ack_cong [OF _ q(2)] q(4) by simp
  qed
  obtain old where old: "old \<in> set (rows_of db)" "ar_dispatch_id old = aw_dispatch_id r" "ar_fingerprint old = dfp_of env r"
    using row unfolding row_for_def by blast
  show "acked_row env db' r (the_ack env r)"
  proof -
    obtain row where row: "row \<in> set (rows_of db')" "same_row old row" "ar_acknowledgement row =
        (if ar_acknowledgement old = [] then the_ack env r else ar_acknowledgement old)"
      using eff(3) [OF old(1,2)] by blast
    then have "ar_acknowledgement row = the_ack env r" using known [OF old(1,2)] by (auto split: if_splits)
    then show ?thesis using row(1,2) old eff(1) by (auto simp: acked_row_def same_row_def)
  qed
  show "acks_inv env R db' log"
    unfolding acks_inv_def
  proof (intro ballI impI)
    fix x assume x: "x \<in> set (rows_of db')" "ar_acknowledgement x \<noteq> []"
    obtain was where was: "was \<in> set (rows_of db)" "same_row was x"
        "ar_dispatch_id x = aw_dispatch_id r \<longrightarrow> ar_acknowledgement x =
           (if ar_acknowledgement was = [] then the_ack env r else ar_acknowledgement was)"
        "ar_dispatch_id x \<noteq> aw_dispatch_id r \<longrightarrow> x = was"
      using eff(2) [OF x(1)] by blast
    show "(\<exists>q\<in>R. aw_dispatch_id q = ar_dispatch_id x \<and> dfp_of env q = ar_fingerprint x
           \<and> ar_acknowledgement x = the_ack env q) \<and> admitted_in log (ar_dispatch_id x)"
    proof (cases "ar_dispatch_id x = aw_dispatch_id r")
      case True
      have "ar_dispatch_id was = aw_dispatch_id r" using was(2) True by (simp add: same_row_def)
      then have "was = old" using rows_ok_unique [OF inv(1) was(1) old(1)] old(2) by simp
      then have "ar_fingerprint x = dfp_of env r" "ar_acknowledgement x = the_ack env r"
        using was(2,3) old known [OF old(1,2)] True by (auto simp: same_row_def split: if_splits)
      then show ?thesis using True adm R(1) by auto
    next
      case False
      then show ?thesis using was(1,4) x(2) inv(2) unfolding acks_inv_def by blast
    qed
  qed
qed

subsection \<open>Every step keeps it\<close>

abbreviation sys_answers :: "work_env \<Rightarrow> agent_work set \<Rightarrow> work_system \<Rightarrow> bool" where
  "sys_answers env R s \<equiv> answers_inv env R (sy_db s) (sy_ledger s) (sy_calls s) (sy_log s)"

lemma slots_inv_reserve:
  assumes "try_reserve key f l = (out, l')" and "ledger_ok l" and "slots_inv env R db l"
  shows "slots_inv env R db l'"
  unfolding slots_inv_def
proof (intro allI impI)
  fix k g ack assume "bt_get (wl_entries l') k = Some (WorkDone g ack)"
  then have "bt_get (wl_entries l) k = Some (WorkDone g ack)"
    using try_reserve_effect(2) [OF assms(1,2)] by (cases out; cases "k = key") auto
  then show "\<exists>r\<in>R. work_key r = k \<and> g = fp_of env r \<and> acked_row env db r ack"
    using assms(3) unfolding slots_inv_def by blast
qed

text \<open>A finished slot under the fingerprint of a request is the acknowledgement of its row.\<close>

lemma done_slot_answer:
  assumes "slots_inv env R db l" and "bt_get (wl_entries l) (work_key r) = Some (WorkDone (fp_of env r) ack)"
    and "rows_ok (rows_of db)" and "row_for env db r" and "r \<in> R" and "fingerprints_ok env R"
  shows "acked_row env db r ack"
proof -
  obtain q where q: "q \<in> R" "fp_of env r = fp_of env q" "acked_row env db q ack"
    using assms(1,2) unfolding slots_inv_def by blast
  then have "aw_dispatch_id q = aw_dispatch_id r"
    using assms(5,6) agent_work_json_dispatch unfolding fingerprints_ok_def by metis
  then show ?thesis using acked_row_same assms(3,4) q(3) by blast
qed

lemma answers_inv_call:
  assumes hold: "sys_hold env s" and inv: "sys_answers env R s" and call: "sy_calls s c = Some (r, p)"
    and fps: "fingerprints_ok env R"
  shows "sys_answers env R (call_step env c r p act s)"
proof -
  have here: "r \<in> R" "arrived_ok env r" "phase_ok env (sy_db s) (sy_log s) r p"
    using inv call unfolding answers_inv_def calls_inv_def by blast+
  have parts: "rows_ok (rows_of (sy_db s))" "acks_inv env R (sy_db s) (sy_log s)" "slots_inv env R (sy_db s) (sy_ledger s)"
    using inv by (simp_all add: answers_inv_def)
  have move: "answers_inv env R (sy_db s) (sy_ledger s) ((sy_calls s)(c := v)) (es @ sy_log s)"
    if "list_all (event_ok env R (sy_db s)) es" "\<And>q u. v = Some (q, u) \<Longrightarrow> q = r \<and> phase_ok env (sy_db s) (es @ sy_log s) r u" for v es
    by (rule answers_inv_same [OF inv parts(3) that(1)]) (use that(2) here in blast)
  note move0 = move [where es = "[]", simplified] and move1 = move [where es = "[e]" for e, simplified]
    and move2 = move [where es = "[e, e']" for e e', simplified]
  obtain out l where res: "try_reserve (work_key r) (fp_of env r) (sy_ledger s) = (out, l)" by force
  have slots: "slots_inv env R (sy_db s) l"
    by (rule slots_inv_reserve [OF res hold_inv_ok [OF hold] parts(3)])
  note eff = try_reserve_effect [OF res hold_inv_ok [OF hold]]
  have shift: "answers_inv env R (sy_db s) l ((sy_calls s)(c := v)) (es @ sy_log s)"
    if "list_all (event_ok env R (sy_db s)) es" "\<And>q u. v = Some (q, u) \<Longrightarrow> q = r \<and> phase_ok env (sy_db s) (es @ sy_log s) r u" for v es
    by (rule answers_inv_same [OF inv slots that(1)]) (use that(2) here in blast)
  note shift0 = shift [where es = "[]", simplified] and shift1 = shift [where es = "[e]" for e, simplified]
    and shift2 = shift [where es = "[e, e']" for e e', simplified]
  have finished: "row_for env (sy_db s) r \<Longrightarrow> out = ReserveDone ack \<Longrightarrow> acked_row env (sy_db s) r ack" for ack
    using done_slot_answer [OF parts(3) _ parts(1) _ here(1) fps] eff(2) by simp
  show ?thesis
  proof (cases p)
    case (Claimed n)
    have "sys_answers env R (do_select env c fault r n s)" for fault
    proof (cases "work_select env fault r n (sy_db s)")
      case (Inl resp)
      then show ?thesis
        using move1 [of "Answered (Some r) resp" None] work_select_effect [OF Inl parts(1)] by (simp add: do_select_def)
    next
      case (Inr a)
      then show ?thesis
        using move0 [of "Some (r, Accepted a)"] work_select_effect [OF Inr parts(1)] by (simp add: do_select_def)
    qed
    then show ?thesis
      using inv move0 [of None] Claimed by (cases act) (auto simp: call_step_def do_cancel_def)
  next
    case (Accepted a)
    have "sys_answers env R (do_reserve env c r a s)"
    proof (cases out)
      case (ReserveFresh ch)
      then show ?thesis
        using shift1 [of "Evicted (evicted_by (sy_ledger s) l)" "Some (r, Holding a)"] res here(3) Accepted
        by (simp add: do_reserve_def)
    next
      case (ReserveDone ack)
      then show ?thesis
        using shift1 [of "Answered (Some r) (work_accepted ack)" None] res here(3) Accepted finished
        by (simp add: do_reserve_def)
    next
      case (ReserveInFlight ch)
      then show ?thesis
        using shift0 [of "Some (r, Subscribing ch)"] res here(3) Accepted by (simp add: do_reserve_def)
    next
      case ReserveConflict
      then show ?thesis
        using shift1 [of "Answered (Some r) conflict_error" None] res by (simp add: do_reserve_def conflict_error_def)
    qed
    then show ?thesis
      using inv move0 [of None] Accepted by (cases act) (auto simp: call_step_def do_cancel_def)
  next
    case (Subscribing ch)
    then show ?thesis
      using inv move0 [of None] move0 [of "Some (r, Retrying ch)"] move0 [of "Some (r, Waiting ch)"] here(3)
      by (cases act) (auto simp: call_step_def do_cancel_def)
  next
    case (Waiting ch)
    then show ?thesis
      using inv move0 [of None] move0 [of "Some (r, Retrying ch)"] here(3)
        move1 [of "Answered (Some r) in_flight_error" None]
      by (cases act) (auto simp: call_step_def do_cancel_def in_flight_error_def)
  next
    case (Retrying ch)
    have "sys_answers env R (do_again env c r ch s)"
    proof -
      obtain resp where resp: "work_again env r (sy_ledger s) = (resp, l)"
          "rs_ok resp \<longrightarrow> (\<exists>ack. resp = work_accepted ack \<and> acked_row env (sy_db s) r ack)"
        using res finished here(3) Retrying by (cases out) (auto simp: work_again_def)
      then show ?thesis
        using shift2 [of "Answered (Some r) resp" "Evicted (evicted_by (sy_ledger s) l)" None]
        by (simp add: do_again_def)
    qed
    then show ?thesis
      using inv move0 [of None] Retrying by (cases act) (auto simp: call_step_def do_cancel_def)
  next
    case (Holding a)
    have row: "row_for env (sy_db s) r" using here(3) Holding by simp
    have "sys_answers env R (do_admit env c r a port answer now s)" for port answer now
    proof (cases "work_admit env r a port answer now")
      case (Inl failure)
      have "\<not> rs_ok failure"
        using Inl by (auto simp: work_admit_def work_gate_def split: sum.splits prod.splits if_splits option.splits)
      then show ?thesis
        using Inl move1 [of "Answered (Some r) failure" "Some (r, Dropping)"] row by (simp add: do_admit_def)
    next
      case (Inr x)
      obtain ack sub where x: "x = (ack, sub)" by force
      have exe: "na_execution_id a = execution_id_of (aw_dispatch_id r)" using here(3) Holding by simp
      obtain su where a: "ack = the_ack env r" "sub = Some su" "admitted_ok env r su"
        using work_admit_effect [OF Inr [unfolded x] here(2) exe] by blast
      have "admitted_in (WorkAdmitted r su # sy_log s) (aw_dispatch_id r)"
        unfolding admitted_in_def using list.set_intros(1) by metis
      then show ?thesis
        using Inr x a row here(1) move1 [of "WorkAdmitted r su" "Some (r, Admitted ack)"] by (simp add: do_admit_def)
    qed
    then show ?thesis
      using inv move0 [of "Some (r, Dropping)"] Holding row by (cases act) (auto simp: call_step_def do_cancel_def)
  next
    case (Admitted ack)
    have p: "row_for env (sy_db s) r" "ack = the_ack env r" "admitted_in (sy_log s) (aw_dispatch_id r)"
      using here(3) Admitted by simp_all
    have "sys_answers env R (do_record c fault r ack s)" for fault
    proof (cases "record_acknowledgement fault (aw_dispatch_id r) ack (sy_db s)")
      case (Pair out db)
      note grow = acknowledge_effect [OF Pair parts(1)]
      show ?thesis
      proof (cases out)
        case (Inl e)
        have "db = sy_db s" by (rule record_failure [OF Pair [unfolded Inl] parts(1) p(1)])
        then show ?thesis
          using Pair Inl p(1) move2 [of "Answered (Some r) f" "AckLost r" "Some (r, Dropping)" for f]
          by (simp add: do_record_def work_record_def)
      next
        case (Inr u)
        note keep = record_keeps [OF Pair [unfolded Inr p(2)] parts(1,2) p(1,3) here(1) fps]
        have "answers_inv env R db (sy_ledger s) ((sy_calls s)(c := Some (r, Recorded ack))) ([] @ sy_log s)"
          by (rule answers_inv_step [OF inv grow]) (use keep slots_inv_grow [OF parts(3) grow(1)] here p(2) in auto)
        then show ?thesis using Pair Inr by (simp add: do_record_def work_record_def)
      qed
    qed
    then show ?thesis
      using inv move1 [of "AckLost r" "Some (r, Dropping)"] Admitted p by (cases act) (auto simp: call_step_def do_cancel_def)
  next
    case (Recorded ack)
    have p: "acked_row env (sy_db s) r ack" using here(3) Recorded by simp
    note fin = leave_ledger(2) [OF hold call, unfolded Recorded holding_phase.simps, OF TrueI, of "fp_of env r" ack]
    have "slots_inv env R (sy_db s) (complete_with_done (work_key r) (fp_of env r) ack (sy_ledger s))"
      using parts(3) p here(1) unfolding slots_inv_def fin by auto
    then have "sys_answers env R (do_finish env c r ack s)"
      using answers_inv_same [OF inv, of _ "[Answered (Some r) (work_accepted ack)]" None c] p
      by (simp add: do_finish_def)
    then show ?thesis
      using inv move1 [of "AckLost r" "Some (r, Dropping)"] Recorded acked_row_for [OF p]
      by (cases act) (auto simp: call_step_def do_cancel_def)
  next
    case Dropping
    note rel = leave_ledger(4) [OF hold call, unfolded Dropping holding_phase.simps, OF TrueI]
    have "slots_inv env R (sy_db s) (snd (release_in_flight (work_key r) (sy_ledger s)))"
      using parts(3) unfolding slots_inv_def rel by auto
    then have "sys_answers env R (do_drop c r s)"
      using answers_inv_same [OF inv, of _ "[]" None c] by (simp add: do_drop_def)
    then show ?thesis
      using inv Dropping by (cases act) (auto simp: call_step_def do_cancel_def)
  qed
qed


lemma answers_inv_arrive:
  assumes "sys_answers env R s" and "\<And>r. request = Some r \<Longrightarrow> r \<in> R" and "sy_calls s c = None"
  shows "sys_answers env R (do_arrive env c request now fault s)"
proof (cases "work_arrive env fault request now (sy_db s)")
  case (Pair out db)
  have grow: "rows_grow (rows_of (sy_db s)) (rows_of db) \<and> rows_ok (rows_of db) \<and> acks_inv env R db (sy_log s)"
  proof (cases "\<exists>r f d. request = Some r \<and> claim_start (we_accept env) fault (aw_dispatch_id r) (dfp_of env r) now (sy_db s) = (f, d)
      \<and> db = d")
    case True
    then obtain r f where "claim_start (we_accept env) fault (aw_dispatch_id r) (dfp_of env r) now (sy_db s) = (f, db)" by blast
    then show ?thesis
      using claim_start_effect(1,2) acks_inv_claim assms(1) unfolding answers_inv_def by metis
  next
    case False
    then have "db = sy_db s"
      using Pair by (auto simp: work_arrive_def split: option.splits if_splits prod.splits sum.splits)
    then show ?thesis using assms(1) by (simp add: answers_inv_def)
  qed
  have slots: "slots_inv env R db (sy_ledger s)"
    using assms(1) slots_inv_grow grow unfolding answers_inv_def by blast
  have step: "answers_inv env R db (sy_ledger s) ((sy_calls s)(c := v)) (es @ sy_log s)"
    if "list_all (event_ok env R db) es" "\<And>r p. v = Some (r, p) \<Longrightarrow> r \<in> R \<and> arrived_ok env r \<and> phase_ok env db (es @ sy_log s) r p" for v es
    using answers_inv_step [OF assms(1) _ _ acks_inv_log slots that] grow by blast
  have idem: "(sy_calls s)(c := None) = sy_calls s" using assms(3) by (simp add: fun_upd_idem)
  show ?thesis
  proof (cases out)
    case (Inl resp)
    have no: "\<not> rs_ok resp"
      using Pair Inl by (auto simp: work_arrive_def split: option.splits if_splits prod.splits sum.splits)
    then have "event_ok env R db (Answered request resp)" by (cases request) auto
    then show ?thesis
      using step [of "[Answered request resp]" None] Pair Inl by (simp add: do_arrive_def idem)
  next
    case (Inr n)
    then obtain r where r: "request = Some r" "arrived_ok env r"
      using Pair by (auto simp: work_arrive_def arrived_ok_def split: option.splits if_splits prod.splits sum.splits)
    then show ?thesis
      using step [of "[]" "Some (r, Claimed n)"] Pair Inr assms(2) by (simp add: do_arrive_def)
  qed
qed

lemma answers_inv_restart: "sys_answers env R s \<Longrightarrow> sys_answers env R (do_restart s)"
  using acks_inv_log [of env R "sy_db s" "sy_log s" "[Restarted]"]
  by (auto simp: answers_inv_def do_restart_def slots_inv_def calls_inv_def new_ledger_def bt_get_def)

text \<open>The requests of an action.\<close>

fun arrives_in :: "agent_work set \<Rightarrow> work_action \<Rightarrow> bool" where
  "arrives_in R (Arrive _ (Some r) _ _) = (r \<in> R)"
| "arrives_in R _ = True"

lemma arrives_in_request: "arrives_in R (Arrive c (Some r) now fault) \<Longrightarrow> r \<in> R"
  by simp

definition work_inv :: "work_env \<Rightarrow> agent_work set \<Rightarrow> work_system \<Rightarrow> bool" where
  "work_inv env R s \<longleftrightarrow> sys_hold env s \<and> sys_open s \<and> sys_answers env R s"

lemma work_inv_do:
  assumes "work_inv env R s" and "arrives_in R act" and "fingerprints_ok env R"
  shows "work_inv env R (work_do env s act)"
proof -
  have "sys_answers env R (work_do env s act)"
    using assms answers_inv_call answers_inv_restart unfolding work_inv_def
    by (auto simp: work_do_def split: option.splits work_action.splits intro!: answers_inv_arrive)
  then show ?thesis
    using assms(1) hold_inv_do open_inv_do unfolding work_inv_def by blast
qed

lemma new_ledger_get: "bt_get (wl_entries new_ledger) k = None"
  by (simp add: new_ledger_def bt_get_def)

lemma work_inv_empty: "work_inv env R empty_system"
  by (simp add: work_inv_def hold_inv_def open_inv_def answers_inv_def empty_system_def rows_of_def rows_ok_def
      acks_inv_def slots_inv_def calls_inv_def new_ledger_get)

text \<open>Steps with requests of a set, as a relation.\<close>

definition work_step :: "work_env \<Rightarrow> agent_work set \<Rightarrow> work_system \<Rightarrow> work_system \<Rightarrow> bool" where
  "work_step env R s t \<longleftrightarrow> fingerprints_ok env R \<and> (\<exists>act. arrives_in R act \<and> t = work_do env s act)"

interpretation work: preserved "work_step env R" "work_inv env R" for env R
  by unfold_locales (auto simp: work_step_def work_inv_do)

text \<open>The requests of a list of actions, and what holds after it.\<close>

fun requests_of :: "work_action list \<Rightarrow> agent_work set" where
  "requests_of [] = {}"
| "requests_of (Arrive _ (Some r) _ _ # acts) = insert r (requests_of acts)"
| "requests_of (_ # acts) = requests_of acts"

lemma arrives_in_requests: "act \<in> set acts \<Longrightarrow> arrives_in (requests_of acts) act"
proof (induction acts rule: requests_of.induct)
  case (2 c r now fault acts)
  then show ?case by (cases "(requests_of acts, act)" rule: arrives_in.cases) auto
qed auto

lemma work_run_steps:
  assumes "fingerprints_ok env R" and "\<forall>act\<in>set acts. arrives_in R act"
  shows "(work_step env R)\<^sup>*\<^sup>* s (foldl (work_do env) s acts)"
  using assms(2)
proof (induction acts arbitrary: s)
  case (Cons act acts)
  have "work_step env R s (work_do env s act)" using assms(1) Cons.prems by (auto simp: work_step_def)
  then show ?case using Cons by (simp add: converse_rtranclp_into_rtranclp)
qed simp

lemma work_run_inv:
  assumes "fingerprints_ok env (requests_of acts)"
  shows "work_inv env (requests_of acts) (work_run env acts)"
  using work.run_inv [OF work_run_steps [OF assms] work_inv_empty] arrives_in_requests
  by (simp add: work_run_def)

lemma hold_run: "sys_hold env (work_run env acts)"
proof -
  have "sys_hold env s \<Longrightarrow> sys_hold env (foldl (work_do env) s acts)" for s
    by (induction acts arbitrary: s) (auto simp: hold_inv_do)
  then show ?thesis using work_inv_empty [of env "{}"] by (simp add: work_run_def work_inv_def)
qed

end
