(* ===== verification/Work_Fence.thy ===== *)
theory Work_Fence
  imports Work_Answers
begin

section \<open>What an acknowledgement and the gate exclude\<close>

text \<open>
  Two more invariants of the calls of native work. Once the row of a dispatch has its
  acknowledgement and no call of it has come past its selection, none will; and whatever is
  admitted has passed the checks, whatever the fingerprints are.
\<close>

subsection \<open>The acceptance store along a run\<close>

definition db_moves :: "accept_db \<Rightarrow> accept_db \<Rightarrow> bool" where
  "db_moves db db' \<longleftrightarrow> (rows_ok (rows_of db) \<longrightarrow> rows_grow (rows_of db) (rows_of db') \<and> rows_ok (rows_of db'))
     \<and> (ad_table db \<noteq> None \<longrightarrow> ad_table db' \<noteq> None)"

lemma db_moves_refl [simp]: "db_moves db db"
  by (simp add: db_moves_def)

lemma statement_table: "statement fault g db = (out, db') \<Longrightarrow> ad_table db \<noteq> None \<Longrightarrow> ad_table db' \<noteq> None"
  by (auto simp: statement_def split: option.splits prod.splits)

lemma db_moves_record: "record_acknowledgement fault d ack db = (out, db') \<Longrightarrow> db_moves db db'"
  using acknowledge_effect [of fault d ack db out db']
  by (auto simp: db_moves_def record_acknowledgement_def split: if_splits prod.splits sum.splits dest: statement_table)

lemma db_moves_claim: "claim_start cx fault d f now db = (out, db') \<Longrightarrow> db_moves db db'"
  using claim_start_effect(1,2) [of cx fault d f now db out db'] statement_table
  by (fastforce simp: db_moves_def claim_start_def split: if_splits)

lemma db_moves_call: "db_moves (sy_db s) (sy_db (call_step env c r p act s))"
  by (cases act; cases p)
     (auto simp: call_step_def do_cancel_def do_select_def do_admit_def do_record_def work_record_def do_finish_def
        do_drop_def do_reserve_def do_again_def split: sum.splits option.splits prod.splits reservation.splits
        intro: db_moves_record)

lemma db_moves_arrive: "db_moves (sy_db s) (sy_db (do_arrive env c request now fault s))"
  by (auto simp: do_arrive_def work_arrive_def split: sum.splits option.splits prod.splits if_splits
      intro: db_moves_claim)

lemma db_moves_do: "db_moves (sy_db s) (sy_db (work_do env s act))"
  using db_moves_call db_moves_arrive
  by (auto simp: work_do_def do_restart_def split: option.splits work_action.splits)

lemma db_run: "rows_ok (rows_of (sy_db (work_run env acts))) \<and> ad_table (sy_db (work_run env acts)) \<noteq> None"
proof -
  have "rows_ok (rows_of (sy_db s)) \<and> ad_table (sy_db s) \<noteq> None \<Longrightarrow>
      rows_ok (rows_of (sy_db (foldl (work_do env) s acts))) \<and> ad_table (sy_db (foldl (work_do env) s acts)) \<noteq> None" for s
    using db_moves_do [unfolded db_moves_def] by (induction acts arbitrary: s) auto
  moreover have "rows_ok (rows_of (sy_db empty_system)) \<and> ad_table (sy_db empty_system) \<noteq> None"
    by (simp add: empty_system_def rows_of_def rows_ok_def)
  ultimately show ?thesis unfolding work_run_def by blast
qed

subsection \<open>An acknowledged dispatch\<close>

text \<open>Only calls that have not selected yet are under way for the dispatch.\<close>

definition fenced :: "string \<Rightarrow> accept_db \<Rightarrow> calls \<Rightarrow> bool" where
  "fenced d db calls \<longleftrightarrow> rows_ok (rows_of db)
     \<and> (\<exists>row\<in>set (rows_of db). ar_dispatch_id row = d \<and> ar_acknowledgement row \<noteq> [])
     \<and> (\<forall>c r p. calls c = Some (r, p) \<longrightarrow> aw_dispatch_id r = d \<longrightarrow> (\<exists>n. p = Claimed n))"

lemma fenced_select:
  assumes "fenced (aw_dispatch_id r) db calls"
  shows "\<exists>resp. work_select env fault r n db = Inl resp"
proof (rule ccontr)
  assume "\<not> ?thesis"
  then obtain a where a: "work_select env fault r n db = Inr a" by (cases "work_select env fault r n db") auto
  then obtain a0 rows row where q: "ad_table db = Some rows" "List.find (\<lambda>r'. ar_dispatch_id r' = aw_dispatch_id r) rows = Some row"
      "read_row (we_accept env) row = Inr a0" "na_acknowledgement a0 = None"
    by (auto simp: work_select_def claim_finish_def statement_def select_row_def
        split: sum.splits option.splits accept_error.splits if_splits prod.splits)
  then have row: "row \<in> set (rows_of db)" "ar_dispatch_id row = aw_dispatch_id r" "ar_acknowledgement row = []"
    using find_Some_in [OF q(2)] by (auto simp: rows_of_def read_row_def split: sum.splits if_splits)
  then show False using assms rows_ok_unique unfolding fenced_def by metis
qed

lemma fenced_db:
  assumes "fenced d db calls" and "db_moves db db'"
  shows "fenced d db' calls"
proof -
  obtain row where row: "row \<in> set (rows_of db)" "ar_dispatch_id row = d" "ar_acknowledgement row \<noteq> []"
    using assms(1) unfolding fenced_def by blast
  have grow: "rows_grow (rows_of db) (rows_of db')" "rows_ok (rows_of db')"
    using assms unfolding fenced_def db_moves_def by blast+
  obtain row' where "row' \<in> set (rows_of db')" "same_row row row'" using rows_grow_row [OF grow(1) row(1)] by blast
  then show ?thesis using assms(1) grow(2) row by (auto simp: fenced_def same_row_def)
qed

lemma fenced_move:
  "fenced d db calls \<Longrightarrow> (\<And>r p. v = Some (r, p) \<Longrightarrow> aw_dispatch_id r = d \<Longrightarrow> \<exists>n. p = Claimed n) \<Longrightarrow>
     fenced d db (calls(c := v))"
  unfolding fenced_def by auto

text \<open>A step of one call changes that call only, keeps its request, and admits only that.\<close>

lemma call_step_local:
  assumes "sy_calls s c = Some (r, p)"
  shows "\<exists>v. sy_calls (call_step env c r p act s) = (sy_calls s)(c := v) \<and> (\<forall>q u. v = Some (q, u) \<longrightarrow> q = r)"
proof -
  have idem: "sy_calls s = (sy_calls s)(c := Some (r, p))" using assms by (simp add: fun_upd_idem)
  have "call_step env c r p act s = s \<or> sy_calls (call_step env c r p act s) = (sy_calls s)(c := None)
      \<or> (\<exists>u. sy_calls (call_step env c r p act s) = (sy_calls s)(c := Some (r, u)))"
    by (cases act; cases p)
       (auto simp: call_step_def do_cancel_def do_select_def do_admit_def do_record_def do_finish_def
          do_drop_def do_reserve_def do_again_def split: sum.splits option.splits prod.splits reservation.splits)
  then show ?thesis using idem by (metis Pair_inject option.inject option.distinct(1))
qed

lemma call_step_admits:
  "\<exists>es. sy_log (call_step env c r p act s) = es @ sy_log s
     \<and> (\<forall>e\<in>set es. is_admission e \<longrightarrow> (\<exists>a port answer now ack su. p = Holding a
          \<and> work_admit env r a port answer now = Inr (ack, Some su) \<and> e = WorkAdmitted r su))"
proof -
  let ?Q = "\<lambda>es. \<forall>e\<in>set es. is_admission e \<longrightarrow> (\<exists>a port answer now ack su. p = Holding a
          \<and> work_admit env r a port answer now = Inr (ack, Some su) \<and> e = WorkAdmitted r su)"
  have "sy_log (call_step env c r p act s) = sy_log s
      \<or> (\<exists>e. sy_log (call_step env c r p act s) = e # sy_log s \<and> ?Q [e])
      \<or> (\<exists>e e'. sy_log (call_step env c r p act s) = e # e' # sy_log s \<and> ?Q [e, e'])"
    by (cases act; cases p)
       (auto simp: call_step_def do_cancel_def do_select_def do_admit_def do_record_def do_finish_def
          do_drop_def do_reserve_def do_again_def split: sum.splits option.splits prod.splits reservation.splits)
  then show ?thesis by (metis append_Nil append_Cons empty_iff list.set(1))
qed

lemma fenced_call:
  assumes "fenced d (sy_db s) (sy_calls s)" and "sy_calls s c = Some (r, p)"
  shows "fenced d (sy_db (call_step env c r p act s)) (sy_calls (call_step env c r p act s))"
proof -
  obtain v where v: "sy_calls (call_step env c r p act s) = (sy_calls s)(c := v)" "\<forall>q u. v = Some (q, u) \<longrightarrow> q = r"
    using call_step_local [OF assms(2)] by blast
  have "\<exists>n. u = Claimed n" if u: "v = Some (q, u)" "aw_dispatch_id q = d" for q u
  proof -
    have q: "q = r" using v(2) u(1) by blast
    obtain n where p: "p = Claimed n" using assms u(2) q unfolding fenced_def by blast
    have new: "sy_calls (call_step env c r p act s) c = Some (r, u)" using v(1) u(1) q by simp
    have "work_select env fault r n (sy_db s) \<noteq> Inr a" for fault a
      using fenced_select [of r "sy_db s" "sy_calls s" env fault n] assms(1) u(2) q by auto
    then have "sy_calls (call_step env c r p act s) c = None \<or> call_step env c r p act s = s"
      unfolding p by (cases act) (auto simp: call_step_def do_select_def do_cancel_def split: sum.splits)
    then show ?thesis using new p assms(2) by auto
  qed
  then show ?thesis
    unfolding v(1) by (intro fenced_move fenced_db [OF assms(1) db_moves_call])
qed

lemma fenced_do:
  assumes "fenced d (sy_db s) (sy_calls s)"
  shows "fenced d (sy_db (work_do env s act)) (sy_calls (work_do env s act))
    \<and> (\<exists>es. sy_log (work_do env s act) = es @ sy_log s
         \<and> (\<forall>q sub. WorkAdmitted q sub \<in> set es \<longrightarrow> aw_dispatch_id q \<noteq> d))"
proof (cases "action_call act")
  case None
  then have "work_do env s act = do_restart s" by (simp add: work_do_def)
  then show ?thesis using assms by (auto simp: do_restart_def fenced_def)
next
  case (Some c)
  show ?thesis
  proof (cases "sy_calls s c")
    case None
    have "fenced d (sy_db (do_arrive env c request now fault s)) (sy_calls (do_arrive env c request now fault s))" for request now fault
    proof -
      have "fenced d (sy_db (do_arrive env c request now fault s)) (sy_calls s)"
        by (rule fenced_db [OF assms db_moves_arrive])
      then show ?thesis
        by (auto simp: do_arrive_def split: prod.splits sum.splits option.splits intro: fenced_move)
    qed
    moreover have "\<exists>es. sy_log (do_arrive env c request now fault s) = es @ sy_log s
         \<and> (\<forall>q sub. WorkAdmitted q sub \<in> set es \<longrightarrow> aw_dispatch_id q \<noteq> d)" for request now fault
      by (auto simp: do_arrive_def split: prod.splits sum.splits option.splits)
    ultimately show ?thesis
      using assms Some None by (cases act) (auto simp: work_do_def)
  next
    case call: (Some rp)
    obtain r p where rp: "rp = (r, p)" by force
    have step: "work_do env s act = call_step env c r p act s" using Some call rp by (simp add: work_do_def)
    obtain es where es: "sy_log (call_step env c r p act s) = es @ sy_log s"
        "\<And>e. e \<in> set es \<Longrightarrow> is_admission e \<Longrightarrow> (\<exists>a su. p = Holding a \<and> e = WorkAdmitted r su)"
      using call_step_admits by meson
    have "aw_dispatch_id q \<noteq> d" if "WorkAdmitted q sub \<in> set es" for q sub
      using es(2) [OF that] assms call rp unfolding fenced_def by fastforce
    then show ?thesis
      unfolding step using fenced_call [OF assms call [unfolded rp]] es(1) by blast
  qed
qed

lemma fenced_steps:
  assumes "fenced d (sy_db s) (sy_calls s)"
  shows "\<exists>newer. sy_log (foldl (work_do env) s acts) = newer @ sy_log s
    \<and> (\<forall>q sub. WorkAdmitted q sub \<in> set newer \<longrightarrow> aw_dispatch_id q \<noteq> d)"
  using assms
proof (induction acts arbitrary: s)
  case (Cons act acts)
  note one = fenced_do [OF Cons.prems, of env act]
  obtain es where es: "sy_log (work_do env s act) = es @ sy_log s"
      "\<forall>q sub. WorkAdmitted q sub \<in> set es \<longrightarrow> aw_dispatch_id q \<noteq> d"
    using one by blast
  obtain newer where "sy_log (foldl (work_do env) (work_do env s act) acts) = newer @ sy_log (work_do env s act)"
      "\<forall>q sub. WorkAdmitted q sub \<in> set newer \<longrightarrow> aw_dispatch_id q \<noteq> d"
    using Cons.IH one by blast
  then have "sy_log (foldl (work_do env) s (act # acts)) = (newer @ es) @ sy_log s"
      "\<forall>q sub. WorkAdmitted q sub \<in> set (newer @ es) \<longrightarrow> aw_dispatch_id q \<noteq> d"
    using es by (simp, metis Un_iff set_append)
  then show ?case by blast
qed simp

text \<open>A call that no action names is not under way.\<close>

lemma other_calls_do:
  assumes "action_call act \<noteq> Some c" and "sy_calls s c = None"
  shows "sy_calls (work_do env s act) c = None"
proof (cases "action_call act")
  case None
  then show ?thesis by (simp add: work_do_def do_restart_def)
next
  case (Some d)
  then have dc: "d \<noteq> c" using assms(1) by simp
  show ?thesis
  proof (cases "sy_calls s d")
    case None
    then show ?thesis
      using Some assms(2) dc
      by (cases act) (auto simp: work_do_def do_arrive_def split: prod.splits sum.splits option.splits)
  next
    case call: (Some rp)
    obtain r p where rp: "rp = (r, p)" by force
    then show ?thesis
      using call_step_local [OF call [unfolded rp], of env act] Some call assms(2) dc by (auto simp: work_do_def)
  qed
qed

lemma other_calls_run: "\<forall>act\<in>set acts. action_call act \<noteq> Some c \<Longrightarrow> sy_calls (work_run env acts) c = None"
proof -
  have "\<forall>act\<in>set acts. action_call act \<noteq> Some c \<Longrightarrow> sy_calls s c = None \<Longrightarrow> sy_calls (foldl (work_do env) s acts) c = None" for s
    by (induction acts arbitrary: s) (auto simp: other_calls_do)
  then show "\<forall>act\<in>set acts. action_call act \<noteq> Some c \<Longrightarrow> sy_calls (work_run env acts) c = None"
    by (simp add: work_run_def empty_system_def)
qed

subsection \<open>The gate\<close>

fun authorized :: "work_env \<Rightarrow> work_event \<Rightarrow> bool" where
  "authorized env (WorkAdmitted r sub) = admitted_ok env r sub"
| "authorized env _ = True"

lemma not_admission_authorized: "\<not> is_admission e \<Longrightarrow> authorized env e"
  by (cases e) auto

definition gate_inv :: "work_env \<Rightarrow> work_system \<Rightarrow> bool" where
  "gate_inv env s \<longleftrightarrow> list_all (authorized env) (sy_log s)
     \<and> (\<forall>c r p. sy_calls s c = Some (r, p) \<longrightarrow> arrived_ok env r)"

lemma work_admit_passes:
  assumes "work_admit env r a port answer now = Inr (ack, Some su)" and "arrived_ok env r"
  shows "admitted_ok env r su"
proof -
  let ?a = "a\<lparr>na_execution_id := execution_id_of (aw_dispatch_id r)\<rparr>"
  obtain ack' where "work_admit env r ?a port answer now = Inr (ack', Some su)"
    using assms(1) by (auto simp: work_admit_def split: sum.splits prod.splits if_splits)
  then show ?thesis using work_admit_effect(2) [OF _ assms(2)] by fastforce
qed

text \<open>Behind the gate, a dispatcher that takes the message leads to the acknowledgement.\<close>

lemma gate_channel:
  assumes "work_gate env r = Inr c"
  shows "cr_platform c \<noteq> []" and "cr_channel_id c \<noteq> []"
  using assms trim_nothing
  by (auto simp: work_gate_def channel_of_destination_def validate_delivery_destination_def Let_def
      split: if_splits option.splits sum.splits)

lemma work_admit_accepts:
  assumes "work_gate env r = Inr c" and "arrived_ok env r" and "na_execution_id a = execution_id_of (aw_dispatch_id r)"
  shows "\<exists>sub. work_admit env r a (Some g) None now = Inr (the_ack env r, Some sub)"
proof -
  note parts = gate_channel [OF assms(1)]
  obtain k sub where "handle_admit_work (Some g) None (work_admission_request r c now) = (Inr k, Some sub)" "ak_accepted k"
    using parts by (simp add: handle_admit_work_def dispatcher_admit_work_def Let_def work_admission_request_def)
  then obtain ack where "work_admit env r a (Some g) None now = Inr (ack, Some sub)"
    using assms(1) by (simp add: work_admit_def)
  then show ?thesis using work_admit_effect(1) [OF _ assms(2,3)] by blast
qed

lemma gate_inv_do:
  assumes "gate_inv env s"
  shows "gate_inv env (work_do env s act)"
proof -
  have arrive: "gate_inv env (do_arrive env c request now fault s)" for c request now fault
    using assms
    by (auto simp: gate_inv_def do_arrive_def work_arrive_def arrived_ok_def
        split: prod.splits sum.splits option.splits if_splits)
  have step: "gate_inv env (call_step env c r p act s)" if call: "sy_calls s c = Some (r, p)" for c r p
  proof -
    have ok: "arrived_ok env r" using assms call by (auto simp: gate_inv_def)
    obtain v where v: "sy_calls (call_step env c r p act s) = (sy_calls s)(c := v)" "\<forall>q u. v = Some (q, u) \<longrightarrow> q = r"
      using call_step_local [OF call] by blast
    obtain es where es: "sy_log (call_step env c r p act s) = es @ sy_log s"
        "\<And>e. e \<in> set es \<Longrightarrow> is_admission e \<Longrightarrow> (\<exists>a port answer now ack su. p = Holding a
          \<and> work_admit env r a port answer now = Inr (ack, Some su) \<and> e = WorkAdmitted r su)"
      using call_step_admits by meson
    have "authorized env e" if "e \<in> set es" for e
      using es(2) [OF that] work_admit_passes [OF _ ok] not_admission_authorized by (cases "is_admission e") auto
    then have "list_all (authorized env) es" by (simp add: list_all_iff)
    then show ?thesis
      unfolding gate_inv_def es(1) v(1) using assms v(2) ok by (auto simp: gate_inv_def split: if_splits)
  qed
  show ?thesis
    using assms arrive step
    by (auto simp: work_do_def gate_inv_def do_restart_def split: option.splits work_action.splits)
qed

interpretation gate: preserved "\<lambda>s t. \<exists>act. t = work_do env s act" "gate_inv env" for env
  by unfold_locales (auto simp: gate_inv_do)

lemma work_run_reaches: "(\<lambda>s t. \<exists>act. t = work_do env s act)\<^sup>*\<^sup>* empty_system (work_run env acts)"
proof -
  have "(\<lambda>s t. \<exists>act. t = work_do env s act)\<^sup>*\<^sup>* s (foldl (work_do env) s acts)" for s
    by (induction acts arbitrary: s) (auto intro: converse_rtranclp_into_rtranclp)
  then show ?thesis by (simp add: work_run_def)
qed

lemma gate_run: "gate_inv env (work_run env acts)"
  by (rule gate.run_inv [OF work_run_reaches]) (simp add: gate_inv_def empty_system_def)

end
