(* ===== verification/Work_Wedge.thy ===== *)
theory Work_Wedge
  imports Work_Facts
begin

section \<open>A reservation without a holder, a channel without a sender\<close>

text \<open>
  A key that is in flight with no call to finish or release it stays so until a restart: the
  invariant behind the leak of a waiter's second reservation. A channel that no slot has any
  more keeps its value: the one behind a waiter that subscribes too late.
\<close>

definition wedged :: "string \<Rightarrow> nat \<Rightarrow> work_ledger \<Rightarrow> calls \<Rightarrow> bool" where
  "wedged k ch l calls \<longleftrightarrow> ch < length (wl_watch l) \<and> wc_value (wl_watch l ! ch) = Pending
     \<and> (\<exists>f. bt_get (wl_entries l) k = Some (WorkInFlight f ch))
     \<and> (\<forall>k' f. bt_get (wl_entries l) k' = Some (WorkInFlight f ch) \<longrightarrow> k' = k)
     \<and> (\<forall>c r p. calls c = Some (r, p) \<longrightarrow> holding_phase p \<longrightarrow> work_key r \<noteq> k)"

definition admits :: "string \<Rightarrow> work_event \<Rightarrow> bool" where
  "admits k e = (case e of WorkAdmitted r _ \<Rightarrow> work_key r = k | _ \<Rightarrow> False)"

abbreviation sys_wedged :: "string \<Rightarrow> nat \<Rightarrow> work_system \<Rightarrow> bool" where
  "sys_wedged k ch s \<equiv> wedged k ch (sy_ledger s) (sy_calls s)"

lemma wedged_receiver [simp]:
  "wedged k ch (watch_subscribe c l) calls = wedged k ch l calls"
  "wedged k ch (watch_leave c l) calls = wedged k ch l calls"
  by (simp_all add: wedged_def)

lemma wedged_move:
  "wedged k ch l calls \<Longrightarrow> (\<And>r p. v = Some (r, p) \<Longrightarrow> holding_phase p \<Longrightarrow> work_key r \<noteq> k) \<Longrightarrow>
     wedged k ch l (calls(c := v))"
  unfolding wedged_def by (auto split: if_splits)

lemma wedged_reserve:
  assumes "wedged k ch l calls" and "try_reserve key f l = (out, l')" and "ledger_ok l"
  shows "wedged k ch l' calls" and "out = ReserveFresh ch' \<Longrightarrow> key \<noteq> k"
proof -
  obtain g where slot: "bt_get (wl_entries l) k = Some (WorkInFlight g ch)"
    using assms(1) by (auto simp: wedged_def)
  note eff = try_reserve_effect(2) [OF assms(2,3)]
  show "key \<noteq> k" if "out = ReserveFresh ch'" using eff slot that by auto
  show "wedged k ch l' calls"
  proof (cases out)
    case (ReserveFresh c)
    note e = eff [unfolded ReserveFresh reservation.case]
    have "bt_get (wl_entries l') k = Some (WorkInFlight g ch)"
      using e slot by (cases "k = key") (auto simp: slot_is_done_def)
    moreover have only: "k' = k" if "bt_get (wl_entries l') k' = Some (WorkInFlight h ch)" for k' h
    proof (cases "k' = key")
      case True
      then show ?thesis using e that assms(1) by (auto simp: wedged_def)
    next
      case False
      then have "bt_get (wl_entries l) k' = Some (WorkInFlight h ch)"
        using e that by (metis option.distinct(1))
      then show ?thesis using assms(1) unfolding wedged_def by blast
    qed
    moreover have "ch < length (wl_watch l')" "wc_value (wl_watch l' ! ch) = Pending"
      using e assms(1) by (auto simp: wedged_def nth_append)
    moreover have "\<forall>c r p. calls c = Some (r, p) \<longrightarrow> holding_phase p \<longrightarrow> work_key r \<noteq> k"
      using assms(1) unfolding wedged_def by blast
    ultimately show ?thesis unfolding wedged_def by blast
  qed (use eff assms(1) in auto)
qed

text \<open>The holder of another key gives it up.\<close>

lemma wedged_leave:
  assumes "wedged k ch l calls" and "hold_inv env l calls" and "calls c = Some (r, p)" and "holding_phase p"
  shows "wedged k ch (complete_with_done (work_key r) f ack l) (calls(c := None))"
    and "wedged k ch (snd (release_in_flight (work_key r) l)) (calls(c := None))"
proof -
  have ok: "ledger_ok l" by (rule hold_inv_ok [OF assms(2)])
  have key: "work_key r \<noteq> k" using assms(1,3,4) unfolding wedged_def by blast
  obtain c' where slot: "bt_get (wl_entries l) (work_key r) = Some (WorkInFlight (fp_of env r) c')"
    using hold_inv_slot [OF assms(2,3,4)] by blast
  then have "c' \<noteq> ch" using assms(1) key unfolding wedged_def by blast
  then show "wedged k ch (complete_with_done (work_key r) f ack l) (calls(c := None))"
    and "wedged k ch (snd (release_in_flight (work_key r) l)) (calls(c := None))"
    using assms(1) key complete_effect(2,3) [OF ok slot, of f ack] release_effect(2,3) [OF ok slot]
    by (auto simp: wedged_def split: if_splits)
qed

text \<open>A waiter whose second reservation is fresh leaves such a key behind.\<close>

lemma wedged_start:
  assumes "hold_inv env l calls" and "try_reserve (work_key r) f l = (ReserveFresh ch, l')"
  shows "wedged (work_key r) ch l' (calls(c := None))"
proof -
  have ok: "ledger_ok l" by (rule hold_inv_ok [OF assms(1)])
  note e = try_reserve_effect(2) [OF assms(2) ok, simplified]
  have "k' = work_key r" if "bt_get (wl_entries l') k' = Some (WorkInFlight g ch)" for k' g
    using e that ok unfolding ledger_ok_def by (metis less_irrefl option.simps(3))
  moreover have "work_key q \<noteq> work_key r" if "(calls(c := None)) d = Some (q, p)" "holding_phase p" for d q p
    using hold_inv_slot [OF hold_inv_end [OF assms(1)] that] e by auto
  moreover have "ch < length (wl_watch l')" "wc_value (wl_watch l' ! ch) = Pending"
      "bt_get (wl_entries l') (work_key r) = Some (WorkInFlight f ch)"
    using e by (simp_all add: new_watch_def)
  ultimately show ?thesis unfolding wedged_def by blast
qed

text \<open>Every step but a restart keeps it, and admits nothing under the key.\<close>

definition no_new :: "string \<Rightarrow> work_event list \<Rightarrow> work_event list \<Rightarrow> bool" where
  "no_new k log log' \<longleftrightarrow> (\<exists>es. log' = es @ log \<and> \<not> list_ex (admits k) es)"

definition stays_wedged :: "string \<Rightarrow> nat \<Rightarrow> work_system \<Rightarrow> work_system \<Rightarrow> bool" where
  "stays_wedged k ch s t \<longleftrightarrow> sys_wedged k ch t \<and> no_new k (sy_log s) (sy_log t)"

lemma no_new_refl [simp]: "no_new k log log"
  by (simp add: no_new_def)

lemma no_new_Cons [intro!]: "no_new k log log' \<Longrightarrow> \<not> admits k e \<Longrightarrow> no_new k log (e # log')"
  unfolding no_new_def by (metis append_Cons list_ex_iff set_ConsD)

lemma no_new_trans: "no_new k a b \<Longrightarrow> no_new k b c \<Longrightarrow> no_new k a c"
  unfolding no_new_def by (metis append.assoc list_ex_append)

lemma admits_simps [simp]:
  "admits k (WorkAdmitted r sub) \<longleftrightarrow> work_key r = k" "\<not> admits k (Answered q resp)" "\<not> admits k (AckLost r)"
  "\<not> admits k (Evicted ks)" "\<not> admits k Restarted"
  by (simp_all add: admits_def)

lemma wedged_call:
  assumes w: "sys_wedged k ch s" and inv: "sys_hold env s" and call: "sy_calls s c = Some (r, p)"
  shows "stays_wedged k ch s (call_step env c r p act s)"
proof -
  have key: "holding_phase p \<Longrightarrow> work_key r \<noteq> k" using w call unfolding wedged_def by blast
  have move: "wedged k ch (sy_ledger s) ((sy_calls s)(c := None))"
      "\<not> holding_phase u \<or> holding_phase p \<Longrightarrow> wedged k ch (sy_ledger s) ((sy_calls s)(c \<mapsto> (r, u)))" for u
    using key by (auto intro: wedged_move [OF w])
  obtain out l where res: "try_reserve (work_key r) (fp_of env r) (sy_ledger s) = (out, l)" by force
  note fresh = wedged_reserve(2) [OF w res hold_inv_ok [OF inv]]
  have move': "wedged k ch l ((sy_calls s)(c := None))"
      "\<not> holding_phase u \<or> work_key r \<noteq> k \<Longrightarrow> wedged k ch l ((sy_calls s)(c \<mapsto> (r, u)))" for u
    by (auto intro: wedged_move [OF wedged_reserve(1) [OF w res hold_inv_ok [OF inv]]])
  note here = w move stays_wedged_def call_step_def do_cancel_def
  show ?thesis
  proof (cases p)
    case (Claimed n)
    then show ?thesis by (cases act) (auto simp: here do_select_def split: sum.splits)
  next
    case (Accepted a)
    then show ?thesis
      using res fresh move' by (cases act; cases out) (auto simp: here do_reserve_def)
  next
    case (Retrying x)
    then show ?thesis
      using res move' by (cases act; cases out) (auto simp: here do_again_def work_again_def)
  next
    case (Holding a)
    then show ?thesis
      using key by (cases act) (auto simp: here do_admit_def split: sum.splits option.splits)
  next
    case (Admitted ack)
    then show ?thesis
      by (cases act) (auto simp: here do_record_def split: prod.splits option.splits)
  next
    case (Recorded ack)
    then show ?thesis
      using wedged_leave(1) [OF w inv call] by (cases act) (auto simp: here do_finish_def)
  next
    case Dropping
    then show ?thesis
      using wedged_leave(2) [OF w inv call] by (cases act) (auto simp: here do_drop_def)
  qed (cases act; auto simp: here)+
qed

lemma wedged_do:
  assumes w: "sys_wedged k ch s" and inv: "sys_hold env s" and act: "act \<noteq> Restart"
  shows "stays_wedged k ch s (work_do env s act)"
proof -
  have same: "stays_wedged k ch s s" using w by (simp add: stays_wedged_def)
  have "stays_wedged k ch s (do_arrive env c request now fault s)" for c request now fault
    using w
    by (auto simp: do_arrive_def stays_wedged_def split: prod.splits sum.splits option.splits intro: wedged_move)
  then show ?thesis
    using same act wedged_call [OF w inv] unfolding work_do_def
    by (cases act) (auto split: option.splits)
qed

lemma stays_wedged_trans: "stays_wedged k ch s t \<Longrightarrow> stays_wedged k ch t u \<Longrightarrow> stays_wedged k ch s u"
  using no_new_trans unfolding stays_wedged_def by blast

lemma wedged_steps:
  assumes "sys_wedged k ch s" and "sys_hold env s" and "Restart \<notin> set acts"
  shows "stays_wedged k ch s (foldl (work_do env) s acts)"
  using assms
proof (induction acts arbitrary: s)
  case Nil
  then show ?case by (simp add: stays_wedged_def)
next
  case (Cons act acts)
  have one: "stays_wedged k ch s (work_do env s act)" using wedged_do Cons.prems by auto
  have "stays_wedged k ch (work_do env s act) (foldl (work_do env) (work_do env s act) acts)"
    using one Cons.prems hold_inv_do by (intro Cons.IH) (auto simp: stays_wedged_def)
  then show ?case using stays_wedged_trans [OF one] by simp
qed

subsection \<open>The ledger by itself\<close>

text \<open>What any step does to the ledger is a few of its operations.\<close>

inductive reservation_step :: "work_ledger \<Rightarrow> work_ledger \<Rightarrow> bool" where
  reserves: "try_reserve key f l = (out, l') \<Longrightarrow> reservation_step l l'"
| completes: "reservation_step l (complete_with_done key f ack l)"
| releases: "reservation_step l (snd (release_in_flight key l))"
| subscribes: "reservation_step l (watch_subscribe ch l)"
| leaves: "reservation_step l (watch_leave ch l)"

lemma reserves_and_leaves: "try_reserve key f l = (out, l') \<Longrightarrow> reservation_step\<^sup>*\<^sup>* l (watch_leave ch l')"
  by (meson reservation_step.intros r_into_rtranclp rtranclp.rtrancl_into_rtrancl)

lemma reserves_only: "try_reserve key f l = (out, l') \<Longrightarrow> reservation_step\<^sup>*\<^sup>* l l'"
  by (meson reserves r_into_rtranclp)

lemmas reservation_step_rtrancl =
  reserves_only reserves_and_leaves r_into_rtranclp [where r = reservation_step, OF completes] r_into_rtranclp [where r = reservation_step, OF releases]
  r_into_rtranclp [where r = reservation_step, OF subscribes] r_into_rtranclp [where r = reservation_step, OF leaves]

lemma call_step_ledger: "reservation_step\<^sup>*\<^sup>* (sy_ledger s) (sy_ledger (call_step env c r p act s))"
  by (cases act; cases p)
     (auto simp: call_step_def do_cancel_def do_select_def do_admit_def do_record_def do_finish_def do_drop_def
        do_reserve_def do_again_def work_again_def split: sum.splits option.splits prod.splits reservation.splits
        intro: reservation_step_rtrancl)

lemma complete_with_done_cases:
  "complete_with_done key f ack l = l \<or> (\<exists>g c. bt_get (wl_entries l) key = Some (WorkInFlight g c))"
  by (auto simp: complete_with_done_def split: option.splits ledger_slot.splits)

lemma release_in_flight_cases:
  "snd (release_in_flight key l) = l \<or> (\<exists>g c. bt_get (wl_entries l) key = Some (WorkInFlight g c))"
  by (auto simp: release_in_flight_def split: option.splits ledger_slot.splits)

text \<open>Every slot in flight has a channel of its own, on which nothing was sent.\<close>

definition channels_ok :: "work_ledger \<Rightarrow> bool" where
  "channels_ok l \<longleftrightarrow> ledger_ok l
     \<and> (\<forall>k f ch. bt_get (wl_entries l) k = Some (WorkInFlight f ch) \<longrightarrow> wc_value (wl_watch l ! ch) = Pending
          \<and> (\<forall>k' f'. bt_get (wl_entries l) k' = Some (WorkInFlight f' ch) \<longrightarrow> k' = k))"

lemma channels_ok_receiver [simp]:
  "channels_ok (watch_subscribe ch l) = channels_ok l" "channels_ok (watch_leave ch l) = channels_ok l"
  by (simp_all add: channels_ok_def)

lemma channels_ok_reserve:
  assumes "channels_ok l" and "try_reserve key f l = (out, l')"
  shows "channels_ok l'"
proof -
  have ok: "ledger_ok l" using assms(1) by (simp add: channels_ok_def)
  note eff = try_reserve_effect [OF assms(2) ok]
  show ?thesis
  proof (cases out)
    case (ReserveFresh c)
    note e = eff(2) [unfolded ReserveFresh reservation.case]
    have was: "(k = key \<and> ch = c) \<or> (k \<noteq> key \<and> ch < c \<and> bt_get (wl_entries l) k = Some (WorkInFlight g ch))"
      if "bt_get (wl_entries l') k = Some (WorkInFlight g ch)" for k g ch
      using that e ok unfolding ledger_ok_def by (metis ledger_slot.inject(2) option.distinct(1) option.inject)
    have "wc_value (wl_watch l' ! ch) = Pending \<and> (\<forall>k' g'. bt_get (wl_entries l') k' = Some (WorkInFlight g' ch) \<longrightarrow> k' = k)"
      if k: "bt_get (wl_entries l') k = Some (WorkInFlight g ch)" for k g ch
    proof (cases "ch = c")
      case True
      have "k' = key" if "bt_get (wl_entries l') k' = Some (WorkInFlight g' c)" for k' g'
        using was [OF that] by blast
      moreover have "wc_value (wl_watch l' ! c) = Pending" using e by (simp add: new_watch_def)
      ultimately show ?thesis using True k by metis
    next
      case False
      then have old: "bt_get (wl_entries l) k = Some (WorkInFlight g ch)" "ch < c" using was [OF k] by auto
      then have "wc_value (wl_watch l' ! ch) = Pending" using e assms(1) by (simp add: channels_ok_def nth_append)
      moreover have "k' = k" if "bt_get (wl_entries l') k' = Some (WorkInFlight g' ch)" for k' g'
        using was [OF that] old assms(1) False unfolding channels_ok_def by blast
      ultimately show ?thesis by blast
    qed
    then show ?thesis using eff(1) unfolding channels_ok_def by blast
  qed (use eff assms(1) in auto)
qed

lemma channels_ok_complete: "channels_ok l \<Longrightarrow> channels_ok (complete_with_done key f ack l)"
proof -
  assume o: "channels_ok l"
  show ?thesis
  proof (cases "complete_with_done key f ack l = l")
    case False
    then obtain g c where slot: "bt_get (wl_entries l) key = Some (WorkInFlight g c)"
      using complete_with_done_cases by metis
    have ok: "ledger_ok l" using o by (simp add: channels_ok_def)
    have "c \<noteq> ch" if "bt_get (wl_entries l) k = Some (WorkInFlight f' ch)" "k \<noteq> key" for k f' ch
      using o slot that unfolding channels_ok_def by blast
    then show ?thesis
      using o complete_effect [OF ok slot, of f ack] unfolding channels_ok_def by (auto split: if_splits)
  qed (simp add: o)
qed

lemma channels_ok_release: "channels_ok l \<Longrightarrow> channels_ok (snd (release_in_flight key l))"
proof -
  assume o: "channels_ok l"
  show ?thesis
  proof (cases "snd (release_in_flight key l) = l")
    case False
    then obtain g c where slot: "bt_get (wl_entries l) key = Some (WorkInFlight g c)"
      using release_in_flight_cases by metis
    have ok: "ledger_ok l" using o by (simp add: channels_ok_def)
    have "c \<noteq> ch" if "bt_get (wl_entries l) k = Some (WorkInFlight f' ch)" "k \<noteq> key" for k f' ch
      using o slot that unfolding channels_ok_def by blast
    then show ?thesis
      using o release_effect [OF ok slot] unfolding channels_ok_def by (auto split: if_splits)
  qed (simp add: o)
qed

interpretation channels: preserved reservation_step channels_ok
proof
  show "channels_ok t" if "reservation_step s t" "channels_ok s" for s t
    using that
    by cases (auto intro: channels_ok_reserve channels_ok_complete channels_ok_release)
qed

lemma channels_ok_new [simp]: "channels_ok new_ledger"
  by (simp add: channels_ok_def) (simp add: new_ledger_def bt_get_def)

lemma channels_ok_do: "channels_ok (sy_ledger s) \<Longrightarrow> channels_ok (sy_ledger (work_do env s act))"
  using channels.run_inv [OF call_step_ledger]
  by (auto simp: work_do_def do_restart_def do_arrive_def
      split: option.splits work_action.splits prod.splits sum.splits)

lemma channels_run: "channels_ok (sy_ledger (work_run env acts))"
proof -
  have "channels_ok (sy_ledger s) \<Longrightarrow> channels_ok (sy_ledger (foldl (work_do env) s acts))" for s
    by (induction acts arbitrary: s) (auto simp: channels_ok_do)
  moreover have "channels_ok (sy_ledger empty_system)"
    by (simp add: empty_system_def)
  ultimately show ?thesis by (simp add: work_run_def)
qed

subsection \<open>Late subscribers\<close>

definition orphan :: "nat \<Rightarrow> work_ledger \<Rightarrow> bool" where
  "orphan ch l \<longleftrightarrow> ledger_ok l \<and> ch < length (wl_watch l) \<and> wc_value (wl_watch l ! ch) = Pending
     \<and> (\<forall>k f. bt_get (wl_entries l) k \<noteq> Some (WorkInFlight f ch))"

lemma orphan_receiver [simp]:
  "orphan ch (watch_subscribe c l) = orphan ch l" "orphan ch (watch_leave c l) = orphan ch l"
  by (simp_all add: orphan_def)

lemma orphan_reserve:
  assumes "orphan ch l" and "try_reserve key f l = (out, l')"
  shows "orphan ch l'"
proof -
  have ok: "ledger_ok l" using assms(1) by (simp add: orphan_def)
  note eff = try_reserve_effect [OF assms(2) ok]
  show ?thesis
  proof (cases out)
    case (ReserveFresh c)
    note e = eff(2) [unfolded ReserveFresh reservation.case]
    have "bt_get (wl_entries l') k \<noteq> Some (WorkInFlight g ch)" for k g
      using e assms(1) unfolding orphan_def by (metis less_irrefl option.inject option.simps(3) ledger_slot.inject(2))
    then show ?thesis using e eff(1) assms(1) by (simp add: orphan_def nth_append)
  qed (use eff assms(1) in auto)
qed

lemma orphan_complete: "orphan ch l \<Longrightarrow> orphan ch (complete_with_done key f ack l)"
proof (cases "\<exists>g c. bt_get (wl_entries l) key = Some (WorkInFlight g c)")
  case True
  assume o: "orphan ch l"
  obtain g c where slot: "bt_get (wl_entries l) key = Some (WorkInFlight g c)" using True by blast
  then have "c \<noteq> ch" using o by (auto simp: orphan_def)
  then show ?thesis
    using o complete_effect [OF _ slot, of f ack] by (auto simp: orphan_def split: if_splits)
qed (auto simp: complete_with_done_def split: option.splits ledger_slot.splits)

lemma orphan_release: "orphan ch l \<Longrightarrow> orphan ch (snd (release_in_flight key l))"
proof (cases "\<exists>g c. bt_get (wl_entries l) key = Some (WorkInFlight g c)")
  case True
  assume o: "orphan ch l"
  obtain g c where slot: "bt_get (wl_entries l) key = Some (WorkInFlight g c)" using True by blast
  then have "c \<noteq> ch" using o by (auto simp: orphan_def)
  then show ?thesis
    using o release_effect [OF _ slot] by (auto simp: orphan_def split: if_splits)
qed (auto simp: release_in_flight_def split: option.splits ledger_slot.splits)

interpretation orphans: preserved reservation_step "orphan ch" for ch
proof
  show "orphan ch t" if "reservation_step s t" "orphan ch s" for s t
    using that by cases (auto intro: orphan_reserve orphan_complete orphan_release)
qed

lemma orphan_call: "orphan ch (sy_ledger s) \<Longrightarrow> orphan ch (sy_ledger (call_step env c r p act s))"
  by (rule orphans.run_inv [OF call_step_ledger])

text \<open>The call waits on: only its time-out, its cancellation or a restart ends it.\<close>

definition waits_on :: "nat \<Rightarrow> nat \<Rightarrow> agent_work \<Rightarrow> work_system \<Rightarrow> bool" where
  "waits_on ch c r s \<longleftrightarrow> orphan ch (sy_ledger s)
     \<and> (sy_calls s c = Some (r, Subscribing ch) \<or> sy_calls s c = Some (r, Waiting ch))"

lemma other_call_stays: "d \<noteq> c \<Longrightarrow> sy_calls (call_step env c r p act s) d = sy_calls s d"
  by (cases act; cases p)
     (auto simp: call_step_def do_cancel_def do_select_def do_admit_def do_record_def do_finish_def do_drop_def
        do_reserve_def do_again_def split: sum.splits option.splits prod.splits reservation.splits)

lemma waits_on_do:
  assumes w: "waits_on ch c r s" and act: "act \<notin> {Restart, TimeOut c, Cancel c}"
  shows "waits_on ch c r (work_do env s act)"
proof -
  have o: "orphan ch (sy_ledger s)" and v: "wc_value (wl_watch (sy_ledger s) ! ch) = Pending"
    using w by (simp_all add: waits_on_def orphan_def)
  obtain d where d: "action_call act = Some d" using act by (cases act) auto
  have arrive: "waits_on ch c r (do_arrive env d request now fault s)" if "sy_calls s d = None" for request now fault
    using w that by (auto simp: do_arrive_def waits_on_def split: prod.splits sum.splits option.splits)
  show ?thesis
  proof (cases "d = c")
    case True
    then show ?thesis
      using w d act v by (cases act) (auto simp: work_do_def waits_on_def call_step_def)
  next
    case False
    have "waits_on ch c r (call_step env d q p act s)" for q p
      using w False orphan_call [OF o] other_call_stays [of c d] by (auto simp: waits_on_def)
    then show ?thesis
      using w d arrive by (auto simp: work_do_def split: option.splits work_action.splits)
  qed
qed

lemma waits_on_steps:
  "waits_on ch c r s \<Longrightarrow> set acts \<inter> {Restart, TimeOut c, Cancel c} = {} \<Longrightarrow> waits_on ch c r (foldl (work_do env) s acts)"
  by (induction acts arbitrary: s) (auto simp: waits_on_do)

end
