(* ===== verification/Work_Properties.thy ===== *)
theory Work_Properties
  imports Work_Answers Work_Fence Work_Wedge
begin

section \<open>Properties of the admission of native work\<close>

text \<open>
  What runs of the handler of native work, with cancellations, failing statements and restarts
  anywhere, can and cannot do, with concrete runs as witnesses.
\<close>

subsection \<open>Concrete calls of the handler of native work\<close>

text \<open>
  A daemon with one Discord channel and a codec that prints a JSON object as the text of its
  first field, a request, and runs of it that the witnesses of the properties use.
\<close>

definition w_print :: "json \<Rightarrow> string" where
  "w_print j = (case j of JObject ((_, JText v) # _) \<Rightarrow> v | _ \<Rightarrow> ''json'')"

definition w_env :: work_env where
  "w_env = \<lparr>we_heartbeat = True, we_store = True, we_admission = True, we_lower = (\<lambda>s. s),
     we_trust = insert_platform (\<lambda>s. s) new_registry ''discord'' default_trust,
     we_adapters = {''discord''},
     we_codec = \<lparr>wk_print_struct = w_print, wk_print_value = w_print, wk_sha = (\<lambda>s. s)\<rparr>,
     we_accept = \<lparr>ax_rfc3339 = (\<lambda>_. ''now''), ax_parse_time = (\<lambda>s. if s = ''now'' then Inr 7 else Inl ''bad'')\<rparr>\<rparr>"

definition w_request :: agent_work where
  "w_request = \<lparr>aw_dispatch_id = ''d'', aw_workflow_run_id = ''w'', aw_project_id = None, aw_project_root = None,
     aw_task_id = ''t'', aw_role = ''PRIMARY'', aw_agent = ''ArthurCodex'', aw_lease_id = ''l'',
     aw_lease_generation = 1, aw_expected_revision = 2, aw_conversation_key = ''k'', aw_assignment = ''go'',
     aw_language = ''en'', aw_transport = None,
     aw_delivery_destination = Some \<lparr>wd_platform = ''discord'', wd_channel_id = ''7'', wd_thread_id = None,
       wd_parent_id = None, wd_origin_event_id = None\<rparr>,
     aw_scope_policy = None\<rparr>"

definition w_channel :: channel_ref where
  "w_channel = \<lparr>cr_platform = ''discord'', cr_channel_id = ''7'', cr_thread_id = None, cr_parent_id = None,
     cr_origin_event_id = None\<rparr>"

definition w_submission :: submission where
  "w_submission = (''native-dispatch:ArthurCodex:d'', w_channel, work_message w_request w_channel 9)"

definition w_port :: "batch_grouping option option" where "w_port = Some (Some ThreadGrouping)"

text \<open>One call from its arrival to its admission, and to its end.\<close>

definition w_admission :: "nat \<Rightarrow> work_action list" where
  "w_admission c = [Arrive c (Some w_request) 7 None, Select c None, Reserve c, Admit c w_port None 9]"

definition w_call :: "nat \<Rightarrow> work_action list" where
  "w_call c = w_admission c @ [Record c None, Finish c]"

lemma w_fingerprints: "requests_of acts \<subseteq> {w_request} \<Longrightarrow> fingerprints_ok w_env (requests_of acts)"
  by (auto simp: fingerprints_ok_def)

lemma w_call_log: "sy_log (work_run w_env (w_call 1)) =
    [Answered (Some w_request) (work_accepted ''WORK_ACCEPTED''), WorkAdmitted w_request w_submission, Evicted []]"
  by code_simp

subsection \<open>Runs of the handler\<close>

lemma work_run_append: "work_run env (acts @ later) = foldl (work_do env) (work_run env acts) later"
  by (simp add: work_run_def)

lemma log_event_ok:
  assumes "fingerprints_ok env (requests_of acts)" and "e \<in> set (sy_log (work_run env acts))"
  shows "event_ok env (requests_of acts) (sy_db (work_run env acts)) e"
  using work_run_inv [OF assms(1)] assms(2) by (auto simp: work_inv_def answers_inv_def list_all_iff)

lemma run_rows_ok: "fingerprints_ok env (requests_of acts) \<Longrightarrow> rows_ok (rows_of (sy_db (work_run env acts)))"
  using work_run_inv by (auto simp: work_inv_def answers_inv_def)

text \<open>C4: However the calls of the handler interleave, a dispatch is admitted a second time only
  after a restart of the daemon, the eviction of its finished key, or the loss of an
  acknowledgement (its recording failed, or the call was cancelled after the admission).\<close>

theorem work_admitted_once:
  assumes "fingerprints_ok env (requests_of acts)"
    and "sy_log (work_run env acts) = newer @ WorkAdmitted r' sub' # mid @ WorkAdmitted r sub # older"
    and "aw_dispatch_id r' = aw_dispatch_id r"
  shows "\<exists>e\<in>set mid. excuses (work_key r) e"
proof -
  let ?s = "work_run env acts"
  have ev: "event_ok env (requests_of acts) (sy_db ?s) (WorkAdmitted r sub)"
      "event_ok env (requests_of acts) (sy_db ?s) (WorkAdmitted r' sub')"
    by (rule log_event_ok [OF assms(1)], simp add: assms(2))+
  then have "dfp_of env r = dfp_of env r'"
    using rows_ok_unique [OF run_rows_ok [OF assms(1)]] assms(3) by (auto simp: row_for_def) metis
  then have "acceptance_json r = acceptance_json r'"
    using ev assms(1) unfolding fingerprints_ok_def by auto
  then have key: "work_key r' = work_key r"
    using assms(3) unfolding acceptance_json_iff by (metis agent_work.surjective agent_work.update_convs(1,8,9)
        agent_work.select_convs(7,11) work_key_def)
  have "sys_open ?s" using work_run_inv [OF assms(1)] by (simp add: work_inv_def)
  then have "admissions_excused (newer @ WorkAdmitted r' sub' # mid @ WorkAdmitted r sub # older)"
    by (simp add: open_inv_def assms(2))
  then show ?thesis by (rule admissions_excused_split [OF _ key])
qed

definition w_twice :: "work_action list" where
  "w_twice = w_admission 1 @ Restart # w_admission 2"

lemma w_twice_log: "sy_log (work_run w_env w_twice) =
    [] @ WorkAdmitted w_request w_submission # [Evicted [], Restarted] @ WorkAdmitted w_request w_submission # [Evicted []]"
  by code_simp

theorem work_admitted_once_witness:
  "\<exists>e\<in>set [Evicted [], Restarted]. excuses (work_key w_request) e"
  by (rule work_admitted_once [OF w_fingerprints w_twice_log refl])
     (simp add: w_twice_def w_admission_def)

text \<open>C14: All accepted answers to the calls of one dispatch are equal, over restarts and evictions
  too: they are the acknowledgement that the row of the dispatch holds, and they are the one of
  a request of the dispatch that the dispatcher took.\<close>

theorem accepted_answers_agree:
  assumes "fingerprints_ok env (requests_of acts)"
    and "Answered (Some r) resp \<in> set (sy_log (work_run env acts))" and "rs_ok resp"
    and "Answered (Some r') resp' \<in> set (sy_log (work_run env acts))" and "rs_ok resp'"
    and "aw_dispatch_id r' = aw_dispatch_id r"
  shows "resp' = resp
    \<and> (\<exists>row\<in>set (rows_of (sy_db (work_run env acts))). ar_dispatch_id row = aw_dispatch_id r
           \<and> resp = work_accepted (ar_acknowledgement row))
    \<and> (\<exists>q sub. WorkAdmitted q sub \<in> set (sy_log (work_run env acts)) \<and> aw_dispatch_id q = aw_dispatch_id r
           \<and> resp = work_accepted (the_ack env q))"
proof -
  let ?s = "work_run env acts" and ?R = "requests_of acts"
  note rows = run_rows_ok [OF assms(1)]
  obtain ack ack' where a: "resp = work_accepted ack" "acked_row env (sy_db ?s) r ack"
      "resp' = work_accepted ack'" "acked_row env (sy_db ?s) r' ack'"
    using log_event_ok [OF assms(1,2)] log_event_ok [OF assms(1,4)] assms(3,5) by auto
  have same: "ack' = ack" by (rule acked_row_unique [OF rows a(4,2) assms(6)])
  obtain row where row: "row \<in> set (rows_of (sy_db ?s))" "ar_dispatch_id row = aw_dispatch_id r"
      "ar_acknowledgement row = ack" "ack \<noteq> []"
    using a(2) unfolding acked_row_def by blast
  have "acks_inv env ?R (sy_db ?s) (sy_log ?s)" using work_run_inv [OF assms(1)] by (simp add: work_inv_def answers_inv_def)
  then obtain p where p: "p \<in> ?R" "aw_dispatch_id p = aw_dispatch_id r" "dfp_of env p = ar_fingerprint row"
      "ack = the_ack env p" "admitted_in (sy_log ?s) (aw_dispatch_id r)"
    using row unfolding acks_inv_def by metis
  obtain q sub where q: "WorkAdmitted q sub \<in> set (sy_log ?s)" "aw_dispatch_id q = aw_dispatch_id r"
    using p(5) unfolding admitted_in_def by blast
  have qr: "q \<in> ?R" "row_for env (sy_db ?s) q" using log_event_ok [OF assms(1) q(1)] by simp_all
  then have "dfp_of env q = dfp_of env p"
    using rows_ok_unique [OF rows row(1)] row(2) q(2) p(3) unfolding row_for_def by metis
  then have "acceptance_json q = acceptance_json p" using assms(1) qr(1) p(1) unfolding fingerprints_ok_def by blast
  then have "the_ack env q = ack" using the_ack_cong p(2,4) q(2) by metis
  then have "resp = work_accepted (the_ack env q)" "resp' = resp" "resp = work_accepted (ar_acknowledgement row)"
    using a(1,3) same row(3) by simp_all
  then show ?thesis using row(1,2) q by blast
qed

definition w_answers :: "work_action list" where
  "w_answers = w_call 1 @ Restart # [Arrive 2 (Some w_request) 7 None, Select 2 None]"

lemma w_answers_log: "sy_log (work_run w_env w_answers) =
    [Answered (Some w_request) (work_accepted ''WORK_ACCEPTED''), Restarted,
     Answered (Some w_request) (work_accepted ''WORK_ACCEPTED''), WorkAdmitted w_request w_submission, Evicted []]"
  by code_simp

lemma w_answers_fingerprints: "fingerprints_ok w_env (requests_of w_answers)"
  by (rule w_fingerprints) (simp add: w_answers_def w_call_def w_admission_def)

theorem accepted_answers_agree_witness:
  "\<exists>q sub. WorkAdmitted q sub \<in> set (sy_log (work_run w_env w_answers)) \<and> aw_dispatch_id q = aw_dispatch_id w_request
     \<and> work_accepted ''WORK_ACCEPTED'' = work_accepted (the_ack w_env q)"
  using accepted_answers_agree [OF w_answers_fingerprints, of w_request "work_accepted ''WORK_ACCEPTED''" w_request
      "work_accepted ''WORK_ACCEPTED''"] w_answers_log by simp

text \<open>C18: After an accepted answer to a dispatch, once the calls of it that had come past their
  selection have ended, no later call admits it again, whatever is requested, fails, is
  evicted or is restarted afterwards.\<close>

theorem acknowledged_work_is_not_admitted:
  assumes "fingerprints_ok env (requests_of acts)"
    and "Answered (Some r) resp \<in> set (sy_log (work_run env acts))" and "rs_ok resp"
    and "\<forall>c q p. sy_calls (work_run env acts) c = Some (q, p) \<longrightarrow> aw_dispatch_id q = aw_dispatch_id r \<longrightarrow>
           (\<exists>n. p = Claimed n)"
  shows "\<exists>newer. sy_log (work_run env (acts @ later)) = newer @ sy_log (work_run env acts)
    \<and> (\<forall>q sub. WorkAdmitted q sub \<in> set newer \<longrightarrow> aw_dispatch_id q \<noteq> aw_dispatch_id r)"
proof -
  obtain ack where "acked_row env (sy_db (work_run env acts)) r ack"
    using log_event_ok [OF assms(1,2)] assms(3) by auto
  then have "fenced (aw_dispatch_id r) (sy_db (work_run env acts)) (sy_calls (work_run env acts))"
    using run_rows_ok [OF assms(1)] assms(4) unfolding fenced_def acked_row_def by blast
  then show ?thesis unfolding work_run_append by (rule fenced_steps)
qed

lemma w_answers_calls: "sy_calls (work_run w_env w_answers) c = None"
proof -
  have "sy_calls (work_run w_env w_answers) 1 = None" "sy_calls (work_run w_env w_answers) 2 = None"
    by code_simp+
  moreover have "c \<noteq> 1 \<Longrightarrow> c \<noteq> 2 \<Longrightarrow> sy_calls (work_run w_env w_answers) c = None"
    by (rule other_calls_run) (simp add: w_answers_def w_call_def w_admission_def)
  ultimately show ?thesis by metis
qed

theorem acknowledged_work_is_not_admitted_witness:
  "\<exists>newer. sy_log (work_run w_env (w_answers @ Restart # w_admission 3)) = newer @ sy_log (work_run w_env w_answers)
    \<and> (\<forall>q sub. WorkAdmitted q sub \<in> set newer \<longrightarrow> aw_dispatch_id q \<noteq> aw_dispatch_id w_request)"
  by (rule acknowledged_work_is_not_admitted [OF w_answers_fingerprints, of w_request "work_accepted ''WORK_ACCEPTED''"])
     (simp_all add: w_answers_log w_answers_calls)

text \<open>C20: Whatever is submitted to the dispatcher for native work comes from a request with a known
  role and agent and a lease, on a daemon with a heartbeat and a store, for a Discord
  destination that the platform's trust configuration lists and an adapter serves; it is
  submitted under the session key of the dispatch, to that destination, with the assignment
  as its prompt and the metadata of the request.\<close>

theorem admission_is_authorized:
  assumes "WorkAdmitted r sub \<in> set (sy_log (work_run env acts))"
  shows "aw_role r \<in> {''PRIMARY'', ''VERIFIER'', ''FINAL_REVIEWER''}
    \<and> aw_agent r \<in> {''ArthurClaude'', ''ArthurCodex'', ''ArthurGemini''} \<and> aw_lease_generation r \<noteq> 0
    \<and> we_heartbeat env \<and> we_store env
    \<and> (\<exists>d msg. aw_delivery_destination r = Some d \<and> wd_platform d = ''discord'' \<and> ''discord'' \<in> we_adapters env
         \<and> authorize_outbound_channel_with_parent (we_lower env) (we_trust env) ''discord'' (wd_channel_id d) (wd_parent_id d)
         \<and> sub = (format_native_dispatch_key (aw_agent r) (aw_dispatch_id r), channel_of_destination d, msg)
         \<and> bm_prompt msg = aw_assignment r \<and> bm_native_workflow msg = Some (work_metadata r))"
proof -
  have ok: "admitted_ok env r sub" using gate_run [of env acts] assms by (auto simp: gate_inv_def list_all_iff)
  then obtain d now where d: "aw_delivery_destination r = Some d" "validate_delivery_destination d = Inr ()"
      "authorize_outbound_channel_with_parent (we_lower env) (we_trust env) (wd_platform d) (wd_channel_id d) (wd_parent_id d)"
      "wd_platform d \<in> we_adapters env"
      "sub = (format_native_dispatch_key (aw_agent r) (aw_dispatch_id r), channel_of_destination d,
              work_message r (channel_of_destination d) now)"
    unfolding admitted_ok_def by blast
  have arr: "validate_agent_work r = None" "we_heartbeat env" "we_store env"
    using ok by (simp_all add: admitted_ok_def arrived_ok_def)
  have "wd_platform d = ''discord''" using d(2) by (auto simp: validate_delivery_destination_def split: if_splits)
  moreover have "bm_prompt (work_message r c now) = aw_assignment r"
      "bm_native_workflow (work_message r c now) = Some (work_metadata r)" for c
    by (simp_all add: work_message_def)
  ultimately show ?thesis using d validated_tokens(1-3) [OF arr(1)] arr(2,3) by auto
qed

theorem admission_is_authorized_witness:
  "authorize_outbound_channel_with_parent (we_lower w_env) (we_trust w_env) ''discord'' ''7'' None"
proof -
  have "WorkAdmitted w_request w_submission \<in> set (sy_log (work_run w_env (w_call 1)))"
    unfolding w_call_log by simp
  from admission_is_authorized [OF this] show ?thesis by (auto simp: w_request_def)
qed

text \<open>C26: When the holder of a dispatch fails before a waiter looks again, the waiter's second
  reservation leaks: the waiter is told to retry, the dispatch stays in flight with no call
  to finish or release it, no channel message ever comes, and nothing is admitted under its
  key before the next restart.\<close>

theorem waiter_wedges_dispatch:
  assumes "sy_calls (work_run env before) c = Some (r, Retrying x)"
    and "bt_get (wl_entries (sy_ledger (work_run env before))) (work_key r) = None"
    and "Restart \<notin> set later"
  shows "let t = work_run env (before @ Again c # later) in
    (\<exists>f ch. bt_get (wl_entries (sy_ledger t)) (work_key r) = Some (WorkInFlight f ch)
        \<and> wc_value (wl_watch (sy_ledger t) ! ch) = Pending)
    \<and> (\<forall>d q p. sy_calls t d = Some (q, p) \<longrightarrow> holding_phase p \<longrightarrow> work_key q \<noteq> work_key r)
    \<and> (\<exists>newer. sy_log t = newer @ sy_log (work_run env before) \<and> \<not> list_ex (admits (work_key r)) newer)"
proof -
  let ?s = "work_run env before" and ?u = "work_do env (work_run env before) (Again c)"
  have hold: "sys_hold env ?s" by (rule hold_run)
  obtain ch l where res: "try_reserve (work_key r) (fp_of env r) (sy_ledger ?s) = (ReserveFresh ch, l)"
    using assms(2) by (auto simp: try_reserve_def Let_def)
  have step: "?u = do_again env c r x ?s" using assms(1) by (simp add: work_do_def call_step_def)
  then have u: "sy_ledger ?u = watch_leave x l" "sy_calls ?u = (sy_calls ?s)(c := None)"
      "no_new (work_key r) (sy_log ?s) (sy_log ?u)"
    using res by (auto simp: do_again_def work_again_def)
  have w: "sys_wedged (work_key r) ch ?u" using wedged_start [OF hold res] u by simp
  have stay: "stays_wedged (work_key r) ch ?u (foldl (work_do env) ?u later)"
    by (rule wedged_steps [OF w hold_inv_do [OF hold] assms(3)])
  have run: "work_run env (before @ Again c # later) = foldl (work_do env) ?u later" by (simp add: work_run_append)
  show ?thesis
    unfolding run Let_def using stay no_new_trans [OF u(3)]
    by (auto simp: stays_wedged_def wedged_def no_new_def)
qed

definition w_wedge :: "work_action list" where
  "w_wedge = [Arrive 1 (Some w_request) 7 None, Select 1 None, Reserve 1,
     Arrive 2 (Some w_request) 8 None, Select 2 None, Reserve 2, Subscribe 2,
     Admit 1 None None 9, DropGuard 1, Wake 2]"

lemma w_wedge_state:
  "sy_calls (work_run w_env w_wedge) 2 = Some (w_request, Retrying 0)"
  "bt_get (wl_entries (sy_ledger (work_run w_env w_wedge))) (work_key w_request) = None"
  by code_simp+

theorem waiter_wedges_dispatch_witness:
  "\<exists>f ch. bt_get (wl_entries (sy_ledger (work_run w_env (w_wedge @ Again 2 # w_call 3)))) (work_key w_request)
     = Some (WorkInFlight f ch)"
  using waiter_wedges_dispatch [OF w_wedge_state, of "w_call 3"]
  by (auto simp: Let_def w_call_def w_admission_def)

text \<open>C39: A waiter that subscribes after the holder has finished, when nobody else listened, never
  learns of it: the channel keeps its first value, and although the finished slot is there,
  only the waiter's time-out, its cancellation or a restart ends its call.\<close>

theorem late_subscriber_waits:
  assumes "sy_calls (work_run env before) a = Some (q, Recorded ack)"
    and "sy_calls (work_run env before) c = Some (r, Subscribing ch)"
    and "bt_get (wl_entries (sy_ledger (work_run env before))) (work_key q) = Some (WorkInFlight f ch)"
    and "wc_receivers (wl_watch (sy_ledger (work_run env before)) ! ch) = 0"
    and "set later \<inter> {Restart, TimeOut c, Cancel c} = {}"
  shows "bt_get (wl_entries (sy_ledger (work_run env (before @ [Finish a])))) (work_key q) = Some (WorkDone (fp_of env q) ack)
    \<and> sy_calls (work_run env (before @ Finish a # later)) c \<in> {Some (r, Subscribing ch), Some (r, Waiting ch)}"
proof -
  let ?s = "work_run env before" and ?u = "work_do env (work_run env before) (Finish a)"
  have hold: "sys_hold env ?s" by (rule hold_run)
  have ch: "channels_ok (sy_ledger ?s)" by (rule channels_run)
  then have ok: "ledger_ok (sy_ledger ?s)" by (simp add: channels_ok_def)
  have step: "?u = do_finish env a q ack ?s" using assms(1) by (simp add: work_do_def call_step_def)
  note eff = complete_effect [OF ok assms(3), of "fp_of env q" ack]
  have watch: "wl_watch (sy_ledger ?u) = wl_watch (sy_ledger ?s)"
    using eff(3) assms(4) by (simp add: step do_finish_def watch_send_def)
  have "ch < length (wl_watch (sy_ledger ?s))" "wc_value (wl_watch (sy_ledger ?s) ! ch) = Pending"
    using ok ch assms(3) unfolding ledger_ok_def channels_ok_def by blast+
  moreover have "bt_get (wl_entries (sy_ledger ?u)) k \<noteq> Some (WorkInFlight g ch)" for k g
    using ch assms(3) eff(2) by (auto simp: step do_finish_def channels_ok_def split: if_splits)
  ultimately have "orphan ch (sy_ledger ?u)" using eff(1) watch by (simp add: orphan_def step do_finish_def)
  moreover have "a \<noteq> c" using assms(1,2) by auto
  ultimately have "waits_on ch c r ?u" using assms(2) by (simp add: waits_on_def step do_finish_def)
  from waits_on_steps [OF this assms(5), of env]
  show ?thesis using eff(2) by (auto simp: work_run_append waits_on_def step do_finish_def)
qed

definition w_late :: "work_action list" where
  "w_late = w_admission 1 @ [Arrive 2 (Some w_request) 8 None, Select 2 None, Reserve 2, Record 1 None]"

lemma w_late_state:
  "sy_calls (work_run w_env w_late) 1 = Some (w_request, Recorded ''WORK_ACCEPTED'')"
  "sy_calls (work_run w_env w_late) 2 = Some (w_request, Subscribing 0)"
  "bt_get (wl_entries (sy_ledger (work_run w_env w_late))) (work_key w_request)
     = Some (WorkInFlight (fp_of w_env w_request) 0)"
  "wc_receivers (wl_watch (sy_ledger (work_run w_env w_late)) ! 0) = 0"
  by code_simp+

theorem late_subscriber_waits_witness:
  "sy_calls (work_run w_env (w_late @ Finish 1 # [Subscribe 2, Wake 2])) 2
     \<in> {Some (w_request, Subscribing 0), Some (w_request, Waiting 0)}"
  using late_subscriber_waits [OF w_late_state, of "[Subscribe 2, Wake 2]"] by auto

text \<open>A valid request for an allowed destination whose dispatch was not seen before, with a
  dispatcher that takes messages and no failing statement, is answered with its
  acknowledgement at the end of its own six steps: its work was submitted once, its row has
  the acknowledgement and its key is kept as finished.\<close>

theorem fresh_work_is_accepted:
  assumes "validate_agent_work r = None" and "we_heartbeat env" and "we_store env" and "work_gate env r = Inr ch"
    and "trim (dfp_of env r) \<noteq> []" and "trim (the_ack env r) \<noteq> []"
    and "ax_parse_time (we_accept env) (ax_rfc3339 (we_accept env) now) = Inr time"
    and "\<forall>row\<in>set (rows_of (sy_db (work_run env acts))). ar_dispatch_id row \<noteq> aw_dispatch_id r"
    and "bt_get (wl_entries (sy_ledger (work_run env acts))) (work_key r) = None"
    and "sy_calls (work_run env acts) c = None"
  shows "let t = work_run env (acts @ [Arrive c (Some r) now None, Select c None, Reserve c,
             Admit c (Some g) None later, Record c None, Finish c])
    in (\<exists>sub gone. sy_log t = Answered (Some r) (work_accepted (the_ack env r)) # WorkAdmitted r sub # Evicted gone
              # sy_log (work_run env acts))
       \<and> acked_row env (sy_db t) r (the_ack env r)
       \<and> bt_get (wl_entries (sy_ledger t)) (work_key r) = Some (WorkDone (fp_of env r) (the_ack env r))
       \<and> sy_calls t c = None"
proof -
  let ?s = "work_run env acts" and ?d = "aw_dispatch_id r"
  let ?row = "\<lparr>ar_dispatch_id = ?d, ar_fingerprint = dfp_of env r, ar_execution_id = execution_id_of ?d,
     ar_accepted_at = ax_rfc3339 (we_accept env) now, ar_acknowledgement = []\<rparr>"
  obtain rows where rows: "ad_table (sy_db ?s) = Some rows" "rows_ok rows" "\<forall>row\<in>set rows. ar_dispatch_id row \<noteq> ?d"
    using db_run [of env acts] assms(8) by (auto simp: rows_of_def)
  let ?db = "(sy_db ?s)\<lparr>ad_table := Some (rows @ [?row])\<rparr>"
  let ?a = "\<lparr>na_dispatch_id = ?d, na_fingerprint = dfp_of env r, na_execution_id = execution_id_of ?d,
     na_accepted_at = time, na_acknowledgement = None, na_reused = False\<rparr>"
  let ?done = "(sy_db ?s)\<lparr>ad_table := Some (rows @ [?row\<lparr>ar_acknowledgement := the_ack env r\<rparr>])\<rparr>"
  have absent: "List.find (\<lambda>q. ar_dispatch_id q = ?d \<or> ar_execution_id q = execution_id_of ?d) rows = None"
      "List.find (\<lambda>q. ar_dispatch_id q = ?d) rows = None" "filter (\<lambda>q. ar_dispatch_id q = ?d) rows = []"
    using rows(2,3) by (auto simp: find_None_iff rows_ok_def filter_empty_conv)
  have disp: "trim ?d \<noteq> []" using validated_tokens(4) [OF assms(1)] .
  have arrive: "work_arrive env None (Some r) now (sy_db ?s) = (Inr 1, ?db)"
    using assms(1-3,5) disp rows(1) absent(1)
    by (simp add: work_arrive_def claim_start_def statement_def insert_or_ignore_def)
  have select: "work_select env None r 1 ?db = Inr ?a"
    using assms(7) absent(2)
    by (simp add: work_select_def claim_finish_def statement_def select_row_def find_append read_row_def)
  obtain l fr where res: "try_reserve (work_key r) (fp_of env r) (sy_ledger ?s) = (ReserveFresh fr, l)"
    using assms(9) by (auto simp: try_reserve_def Let_def)
  have "arrived_ok env r" using assms(1-3) by (simp add: arrived_ok_def)
  then obtain sub where admit: "work_admit env r ?a (Some g) None later = Inr (the_ack env r, Some sub)"
    using work_admit_accepts [OF assms(4), of ?a g later] by (metis acceptance.select_convs(3))
  have same: "map (\<lambda>q. if ar_dispatch_id q = ?d then (if ar_acknowledgement q = [] then q\<lparr>ar_acknowledgement := the_ack env r\<rparr> else q)
      else q) rows = rows"
    using rows(3) by (intro map_idI) auto
  have recorded: "work_record None r (the_ack env r) ?db = (None, ?done)"
    using assms(6) absent(3) same
    by (simp add: work_record_def record_acknowledgement_def statement_def acknowledge_rows_def)
  have hold: "sys_hold env ?s" by (rule hold_run)
  note eff = try_reserve_effect [OF res hold_inv_ok [OF hold], simplified]
  note fin = complete_effect(2) [OF eff(1), of "work_key r" "fp_of env r" fr "fp_of env r" "the_ack env r"]
  have "the_ack env r \<noteq> []" using assms(6) trim_nothing by metis
  moreover obtain key to msg where "sub = (key, to, msg)" by (rule prod_cases3)
  ultimately show ?thesis
    unfolding work_run_append Let_def
    using assms(10) arrive select res admit recorded eff fin
    by (simp add: work_do_def call_step_def do_arrive_def do_select_def do_reserve_def do_admit_def do_record_def
        do_finish_def acked_row_def rows_of_def)
qed

theorem fresh_work_is_accepted_witness:
  "acked_row w_env (sy_db (work_run w_env (w_call 1))) w_request ''WORK_ACCEPTED''"
proof -
  have "validate_agent_work w_request = None" "we_heartbeat w_env" "we_store w_env"
    "work_gate w_env w_request = Inr w_channel" "trim (dfp_of w_env w_request) \<noteq> []"
    "trim (the_ack w_env w_request) \<noteq> []" "the_ack w_env w_request = ''WORK_ACCEPTED''"
    "ax_parse_time (we_accept w_env) (ax_rfc3339 (we_accept w_env) 7) = Inr 7"
    by code_simp+
  then show ?thesis
    using fresh_work_is_accepted [of w_request w_env w_channel 7 7 "[]" 1 "Some ThreadGrouping" 9]
    by (simp add: Let_def w_call_def w_admission_def w_port_def work_run_def empty_system_def rows_of_def new_ledger_get)
qed

end
