(* ===== verification/Dispatch_Lane.thy ===== *)
theory Dispatch_Lane
  imports Dispatch_Message
begin

section \<open>One consumer and its channel\<close>

text \<open>
  \<^verbatim>\<open>consumer_loop\<close> of \<^verbatim>\<open>crates/openab-core/src/dispatch.rs\<close> with the bounded channel it
  receives from, as one record: a lane. The loop is cut where a sender can come in between: at
  every \<^verbatim>\<open>recv\<close> and \<^verbatim>\<open>try_recv\<close>, around the dispatch of a batch, and between its end and the
  drop of the receiver. A message travels with the number of its submission. What was sent, the
  batches that were dispatched and what was dropped with the receiver are kept as history.
\<close>

type_synonym parcel = "nat \<times> buffered_message"

definition is_native :: "parcel \<Rightarrow> bool" where
  "is_native m \<longleftrightarrow> bm_native_workflow (snd m) \<noteq> None"

definition tokens_of :: "parcel \<Rightarrow> nat" where
  "tokens_of m = bm_estimated_tokens (snd m)"

text \<open>How a consumer came to its end.\<close>

datatype ending = ByTimeout | ByClose | ByAbort | ByPanic

datatype consumer_phase =
    AtHead "parcel option"
  | Draining "parcel list" nat
  | Dispatching "parcel list" "parcel option"
  | Leaving ending
  | Dropped ending
  | Finished ending

record lane =
  ln_key :: string
  ln_generation :: nat
  ln_queue :: "parcel list"
  ln_phase :: consumer_phase
  ln_aborted :: bool
  ln_sent :: "parcel list"
  ln_batches :: "parcel list list"
  ln_lost :: "parcel list"

record dispatch_config =
  dc_max_buffered :: nat
  dc_max_tokens :: nat
  dc_grouping :: batch_grouping

definition new_lane :: "string \<Rightarrow> nat \<Rightarrow> lane" where
  "new_lane key g =
     \<lparr>ln_key = key, ln_generation = g, ln_queue = [], ln_phase = AtHead None, ln_aborted = False,
      ln_sent = [], ln_batches = [], ln_lost = []\<rparr>"

fun rx_dropped :: "consumer_phase \<Rightarrow> bool" where
  "rx_dropped (Dropped _) = True"
| "rx_dropped (Finished _) = True"
| "rx_dropped _ = False"

fun is_finished :: "consumer_phase \<Rightarrow> bool" where
  "is_finished (Finished _) = True"
| "is_finished _ = False"

subsection \<open>The sending side\<close>

datatype send_result = Sent | SendError | Parked

definition lane_send :: "dispatch_config \<Rightarrow> parcel \<Rightarrow> lane \<Rightarrow> send_result \<times> lane" where
  "lane_send cfg m l =
     (if rx_dropped (ln_phase l) then (SendError, l)
      else if length (ln_queue l) < dc_max_buffered cfg
      then (Sent, l\<lparr>ln_queue := ln_queue l @ [m], ln_sent := ln_sent l @ [m]\<rparr>)
      else (Parked, l))"

subsection \<open>The loop\<close>

definition dispatch_now :: "parcel list \<Rightarrow> parcel option \<Rightarrow> lane \<Rightarrow> lane" where
  "dispatch_now batch pending l =
     l\<lparr>ln_phase := Dispatching batch pending, ln_batches := ln_batches l @ [batch]\<rparr>"

text \<open>The first message of a batch: a native one is dispatched alone.\<close>

definition start_batch :: "parcel \<Rightarrow> lane \<Rightarrow> lane" where
  "start_batch m l =
     (if is_native m then dispatch_now [m] None l else l\<lparr>ln_phase := Draining [m] (tokens_of m)\<rparr>)"

definition lane_receive :: "bool \<Rightarrow> lane \<Rightarrow> lane" where
  "lane_receive senders_gone l =
     (case ln_phase l of
        AtHead (Some m) \<Rightarrow> start_batch m l
      | AtHead None \<Rightarrow>
          (case ln_queue l of
             m # rest \<Rightarrow> start_batch m (l\<lparr>ln_queue := rest\<rparr>)
           | [] \<Rightarrow> if senders_gone then l\<lparr>ln_phase := Leaving ByClose\<rparr> else l)
      | _ \<Rightarrow> l)"

text \<open>The idle time-out fires only while \<^verbatim>\<open>recv\<close> has nothing.\<close>

definition lane_timeout :: "lane \<Rightarrow> lane" where
  "lane_timeout l =
     (if ln_phase l = AtHead None \<and> ln_queue l = [] then l\<lparr>ln_phase := Leaving ByTimeout\<rparr> else l)"

text \<open>One round of the greedy drain.\<close>

definition lane_drain :: "dispatch_config \<Rightarrow> lane \<Rightarrow> lane" where
  "lane_drain cfg l =
     (case ln_phase l of
        Draining batch t \<Rightarrow>
          (if length batch < dc_max_buffered cfg
           then (case ln_queue l of
                   [] \<Rightarrow> dispatch_now batch None l
                 | m # rest \<Rightarrow>
                     (if is_native m then dispatch_now batch (Some m) (l\<lparr>ln_queue := rest\<rparr>)
                      else if dc_max_tokens cfg < t + tokens_of m
                      then dispatch_now batch (Some m) (l\<lparr>ln_queue := rest\<rparr>)
                      else l\<lparr>ln_queue := rest, ln_phase := Draining (batch @ [m]) (t + tokens_of m)\<rparr>))
           else dispatch_now batch None l)
      | _ \<Rightarrow> l)"

text \<open>The dispatch of the batch returns: back to the head of the loop.\<close>

definition lane_return :: "lane \<Rightarrow> lane" where
  "lane_return l =
     (case ln_phase l of
        Dispatching _ pending \<Rightarrow> l\<lparr>ln_phase := AtHead pending\<rparr>
      | _ \<Rightarrow> l)"

fun pending_of :: "consumer_phase \<Rightarrow> parcel list" where
  "pending_of (AtHead (Some m)) = [m]"
| "pending_of (Dispatching _ (Some m)) = [m]"
| "pending_of _ = []"

lemma pending_dispatching [simp]: "pending_of (Dispatching b p) = pending_of (AtHead p)"
  by (cases p) simp_all

text \<open>The receiver goes, with the parked message and the queue.\<close>

definition drop_receiver :: "ending \<Rightarrow> lane \<Rightarrow> lane" where
  "drop_receiver e l =
     l\<lparr>ln_phase := Dropped e, ln_queue := [], ln_lost := pending_of (ln_phase l) @ ln_queue l\<rparr>"

definition lane_exit :: "lane \<Rightarrow> lane" where
  "lane_exit l = (case ln_phase l of Leaving e \<Rightarrow> drop_receiver e l | _ \<Rightarrow> l)"

text \<open>The task is done a moment after its receiver is gone.\<close>

definition lane_finish :: "lane \<Rightarrow> lane" where
  "lane_finish l = (case ln_phase l of Dropped e \<Rightarrow> l\<lparr>ln_phase := Finished e\<rparr> | _ \<Rightarrow> l)"

text \<open>An aborted task is dropped at an await point; a panic can only come out of a dispatch.\<close>

definition lane_reap :: "lane \<Rightarrow> lane" where
  "lane_reap l =
     (if ln_aborted l
      then (case ln_phase l of
              AtHead None \<Rightarrow> drop_receiver ByAbort l
            | Dispatching _ _ \<Rightarrow> drop_receiver ByAbort l
            | _ \<Rightarrow> l)
      else l)"

definition lane_panic :: "lane \<Rightarrow> lane" where
  "lane_panic l = (case ln_phase l of Dispatching _ _ \<Rightarrow> drop_receiver ByPanic l | _ \<Rightarrow> l)"

definition lane_abort :: "lane \<Rightarrow> lane" where
  "lane_abort l = l\<lparr>ln_aborted := True\<rparr>"

text \<open>A lane by itself: what can happen to it.\<close>

inductive lane_step :: "dispatch_config \<Rightarrow> lane \<Rightarrow> lane \<Rightarrow> bool" for cfg where
  sends: "lane_step cfg l (snd (lane_send cfg m l))"
| receives: "lane_step cfg l (lane_receive gone l)"
| times_out: "lane_step cfg l (lane_timeout l)"
| drains: "lane_step cfg l (lane_drain cfg l)"
| returns: "lane_step cfg l (lane_return l)"
| exits: "lane_step cfg l (lane_exit l)"
| finishes: "lane_step cfg l (lane_finish l)"
| reaps: "lane_step cfg l (lane_reap l)"
| panics: "lane_step cfg l (lane_panic l)"
| aborts: "lane_step cfg l (lane_abort l)"

subsection \<open>What a lane keeps\<close>

text \<open>What may be dispatched together.\<close>

definition batch_ok :: "dispatch_config \<Rightarrow> parcel list \<Rightarrow> bool" where
  "batch_ok cfg b \<longleftrightarrow> b \<noteq> [] \<and>
     (length b = 1 \<or> (length b \<le> dc_max_buffered cfg \<and> sum_list (map tokens_of b) \<le> dc_max_tokens cfg
        \<and> list_all (\<lambda>m. \<not> is_native m) b))"

fun gathering :: "consumer_phase \<Rightarrow> parcel list" where
  "gathering (Draining b _) = b"
| "gathering _ = []"

fun gather_ok :: "dispatch_config \<Rightarrow> consumer_phase \<Rightarrow> bool" where
  "gather_ok cfg (Draining b t) =
     (batch_ok cfg b \<and> t = sum_list (map tokens_of b) \<and> list_all (\<lambda>m. \<not> is_native m) b)"
| "gather_ok cfg _ = True"

text \<open>Everything sent is, in its order, dispatched, being gathered, parked, queued or lost.\<close>

definition lane_ok :: "dispatch_config \<Rightarrow> lane \<Rightarrow> bool" where
  "lane_ok cfg l \<longleftrightarrow>
     ln_sent l = concat (ln_batches l) @ gathering (ln_phase l) @ pending_of (ln_phase l) @ ln_queue l @ ln_lost l
     \<and> list_all (batch_ok cfg) (ln_batches l) \<and> gather_ok cfg (ln_phase l)
     \<and> length (ln_queue l) \<le> dc_max_buffered cfg
     \<and> (if rx_dropped (ln_phase l) then ln_queue l = [] else ln_lost l = [])"

lemma lane_ok_new [simp]: "lane_ok cfg (new_lane key g)"
  by (simp add: lane_ok_def new_lane_def)

lemma dispatch_now_ok:
  assumes "ln_sent l = concat (ln_batches l) @ b @ (case p of None \<Rightarrow> [] | Some m \<Rightarrow> [m]) @ ln_queue l"
    and "list_all (batch_ok cfg) (ln_batches l)" and "batch_ok cfg b"
    and "length (ln_queue l) \<le> dc_max_buffered cfg" and "ln_lost l = []"
  shows "lane_ok cfg (dispatch_now b p l)"
  using assms by (cases p) (simp_all add: lane_ok_def dispatch_now_def)

lemma single_ok [simp]: "batch_ok cfg [m]"
  by (simp add: batch_ok_def)

lemma start_batch_ok:
  assumes "ln_sent l = concat (ln_batches l) @ m # ln_queue l" and "list_all (batch_ok cfg) (ln_batches l)"
    and "length (ln_queue l) \<le> dc_max_buffered cfg" and "ln_lost l = []"
  shows "lane_ok cfg (start_batch m l)"
  using assms dispatch_now_ok [where p = None and b = "[m]" and l = l]
  by (simp add: start_batch_def lane_ok_def)

lemma batch_grows:
  "batch_ok cfg b \<Longrightarrow> length b < dc_max_buffered cfg \<Longrightarrow> sum_list (map tokens_of b) + tokens_of m \<le> dc_max_tokens cfg \<Longrightarrow>
     list_all (\<lambda>m. \<not> is_native m) b \<Longrightarrow> \<not> is_native m \<Longrightarrow> batch_ok cfg (b @ [m])"
  by (auto simp: batch_ok_def)

lemma drop_receiver_ok: "lane_ok cfg l \<Longrightarrow> gathering (ln_phase l) = [] \<Longrightarrow> \<not> rx_dropped (ln_phase l) \<Longrightarrow> lane_ok cfg (drop_receiver e l)"
  by (simp add: lane_ok_def drop_receiver_def)

lemma lane_step_ok: "lane_step cfg l l' \<Longrightarrow> lane_ok cfg l \<Longrightarrow> lane_ok cfg l'"
proof (induction rule: lane_step.cases)
  case (sends l m)
  then show ?case by (auto simp: lane_send_def lane_ok_def)
next
  case (receives l gone)
  then show ?case
    by (auto simp: lane_receive_def split: consumer_phase.splits option.splits list.splits intro!: start_batch_ok)
       (auto simp: lane_ok_def)
next
  case (drains l)
  show ?case
  proof (cases "ln_phase l")
    case (Draining b t)
    then show ?thesis
      using drains
      by (auto simp: lane_drain_def not_less split: list.splits intro!: dispatch_now_ok)
         (auto simp: lane_ok_def intro: batch_grows)
  qed (use drains in \<open>auto simp: lane_drain_def\<close>)
next
  case (returns l)
  then show ?case
    by (cases "ln_phase l") (auto simp: lane_return_def lane_ok_def split: option.splits elim: pending_of.elims)
next
  case (exits l)
  then show ?case by (cases "ln_phase l") (auto simp: lane_exit_def intro!: drop_receiver_ok)
next
  case (reaps l)
  then show ?case
    by (cases "ln_phase l") (auto simp: lane_reap_def split: option.splits intro!: drop_receiver_ok)
next
  case (panics l)
  then show ?case by (cases "ln_phase l") (auto simp: lane_panic_def intro!: drop_receiver_ok)
qed (auto simp: lane_timeout_def lane_finish_def lane_abort_def lane_ok_def split: consumer_phase.splits)

interpretation lane: preserved "lane_step cfg" "lane_ok cfg" for cfg
  by unfold_locales (rule lane_step_ok)

end
