(* ===== verification/Dispatch_Submit.thy ===== *)
theory Dispatch_Submit
  imports Dispatch_Lane Ordered_Table
begin

section \<open>The dispatcher\<close>

text \<open>
  \<^verbatim>\<open>Dispatcher\<close> of \<^verbatim>\<open>crates/openab-core/src/dispatch.rs\<close>: the map from keys to the handles of
  consumers, \<^verbatim>\<open>submit\<close> cut at every lock of the map and every send, cancellation, the sweep and
  the shutdown. Lanes and submissions are numbered in the order in which they are made and stay
  in their lists; a sender of a channel is a handle in the map or a clone that a submission holds.
  The counter of generations is 64 bits wide and never comes near its end.
\<close>

record thread_handle =
  th_lane :: nat
  th_generation :: nat

datatype submit_phase =
    Locking bool nat
  | Sending bool nat nat
  | Evicting bool nat
  | Refetching
  | Returned bool
  | Forgotten

record submission_state =
  sb_key :: string
  sb_message :: buffered_message
  sb_phase :: submit_phase
  sb_clones :: "nat list"

record dispatcher =
  dp_lanes :: "lane list"
  dp_threads :: "(string \<times> thread_handle) list"
  dp_next_generation :: nat
  dp_submits :: "submission_state list"

definition empty_dispatcher :: dispatcher where
  "empty_dispatcher = \<lparr>dp_lanes = [], dp_threads = [], dp_next_generation = 0, dp_submits = []\<rparr>"

abbreviation lane_at :: "nat \<Rightarrow> dispatcher \<Rightarrow> lane" where
  "lane_at i d \<equiv> dp_lanes d ! i"

abbreviation change_lane :: "nat \<Rightarrow> (lane \<Rightarrow> lane) \<Rightarrow> dispatcher \<Rightarrow> dispatcher" where
  "change_lane i f d \<equiv> d\<lparr>dp_lanes := (dp_lanes d)[i := f (dp_lanes d ! i)]\<rparr>"

abbreviation change_submit :: "nat \<Rightarrow> (submission_state \<Rightarrow> submission_state) \<Rightarrow> dispatcher \<Rightarrow> dispatcher" where
  "change_submit c f d \<equiv> d\<lparr>dp_submits := (dp_submits d)[c := f (dp_submits d ! c)]\<rparr>"

text \<open>No sender of a lane is left.\<close>

definition senders_gone :: "nat \<Rightarrow> dispatcher \<Rightarrow> bool" where
  "senders_gone i d \<longleftrightarrow> \<not> list_ex (\<lambda>(_, h). th_lane h = i) (dp_threads d)
     \<and> \<not> list_ex (\<lambda>s. i \<in> set (sb_clones s)) (dp_submits d)"

subsection \<open>Under the lock\<close>

definition drop_finished :: "string \<Rightarrow> dispatcher \<Rightarrow> dispatcher" where
  "drop_finished key d =
     (case bt_get (dp_threads d) key of
        None \<Rightarrow> d
      | Some h \<Rightarrow>
          (if is_finished (ln_phase (lane_at (th_lane h) d))
           then d\<lparr>dp_threads := bt_remove key (dp_threads d)\<rparr> else d))"

definition or_insert :: "string \<Rightarrow> nat \<Rightarrow> dispatcher \<Rightarrow> thread_handle \<times> dispatcher" where
  "or_insert key g d =
     (case bt_get (dp_threads d) key of
        Some h \<Rightarrow> (h, d)
      | None \<Rightarrow>
          (let h = \<lparr>th_lane = length (dp_lanes d), th_generation = g\<rparr>
           in (h, d\<lparr>dp_lanes := dp_lanes d @ [new_lane key g], dp_threads := bt_insert key h (dp_threads d)\<rparr>)))"

definition try_evict_locked :: "string \<Rightarrow> nat \<Rightarrow> dispatcher \<Rightarrow> bool \<times> dispatcher" where
  "try_evict_locked key g d =
     (case bt_get (dp_threads d) key of
        None \<Rightarrow> (False, d)
      | Some h \<Rightarrow>
          (if th_generation h = g then (True, d\<lparr>dp_threads := bt_remove key (dp_threads d)\<rparr>)
           else (False, d)))"

subsection \<open>A submission\<close>

text \<open>The generation is fetched before the lock is taken.\<close>

definition submit_start :: "string \<Rightarrow> buffered_message \<Rightarrow> dispatcher \<Rightarrow> dispatcher" where
  "submit_start key msg d =
     d\<lparr>dp_next_generation := dp_next_generation d + 1,
       dp_submits := dp_submits d @ [\<lparr>sb_key = key, sb_message = msg,
         sb_phase = Locking False (dp_next_generation d), sb_clones = []\<rparr>]\<rparr>"

text \<open>The first time a finished consumer is removed first; the retry does not look.\<close>

definition submit_lock :: "nat \<Rightarrow> bool \<Rightarrow> nat \<Rightarrow> dispatcher \<Rightarrow> dispatcher" where
  "submit_lock c retry g d =
     (let key = sb_key (dp_submits d ! c)
      in case or_insert key g (if retry then d else drop_finished key d) of
           (h, d1) \<Rightarrow>
             change_submit c (\<lambda>s. s\<lparr>sb_phase := Sending retry (th_lane h) (th_generation h),
                                    sb_clones := sb_clones s @ [th_lane h]\<rparr>) d1)"

definition submit_send :: "dispatch_config \<Rightarrow> nat \<Rightarrow> bool \<Rightarrow> nat \<Rightarrow> nat \<Rightarrow> dispatcher \<Rightarrow> dispatcher" where
  "submit_send cfg c retry i g d =
     (case lane_send cfg (c, sb_message (dp_submits d ! c)) (lane_at i d) of
        (Sent, l) \<Rightarrow>
          change_submit c (\<lambda>s. s\<lparr>sb_phase := Returned True, sb_clones := []\<rparr>) (change_lane i (\<lambda>_. l) d)
      | (SendError, _) \<Rightarrow> change_submit c (\<lambda>s. s\<lparr>sb_phase := Evicting retry g\<rparr>) d
      | (Parked, _) \<Rightarrow> d)"

text \<open>
  After the second failure the user is told (a reaction and a message through the adapter) and
  the error is returned.
\<close>

definition submit_evict :: "nat \<Rightarrow> bool \<Rightarrow> nat \<Rightarrow> dispatcher \<Rightarrow> dispatcher" where
  "submit_evict c retry g d =
     (case try_evict_locked (sb_key (dp_submits d ! c)) g d of
        (_, d1) \<Rightarrow>
          (if retry then change_submit c (\<lambda>s. s\<lparr>sb_phase := Returned False, sb_clones := []\<rparr>) d1
           else change_submit c (\<lambda>s. s\<lparr>sb_phase := Refetching\<rparr>) d1))"

definition submit_refetch :: "nat \<Rightarrow> dispatcher \<Rightarrow> dispatcher" where
  "submit_refetch c d =
     change_submit c (\<lambda>s. s\<lparr>sb_phase := Locking True (dp_next_generation d)\<rparr>)
       (d\<lparr>dp_next_generation := dp_next_generation d + 1\<rparr>)"

text \<open>The future of a submission is dropped at an await point.\<close>

definition submit_forget :: "nat \<Rightarrow> dispatcher \<Rightarrow> dispatcher" where
  "submit_forget c d = change_submit c (\<lambda>s. s\<lparr>sb_phase := Forgotten, sb_clones := []\<rparr>) d"

text \<open>The next piece of a submission.\<close>

definition submit_next :: "dispatch_config \<Rightarrow> nat \<Rightarrow> dispatcher \<Rightarrow> dispatcher" where
  "submit_next cfg c d =
     (case sb_phase (dp_submits d ! c) of
        Locking retry g \<Rightarrow> submit_lock c retry g d
      | Sending retry i g \<Rightarrow> submit_send cfg c retry i g d
      | Evicting retry g \<Rightarrow> submit_evict c retry g d
      | Refetching \<Rightarrow> submit_refetch c d
      | _ \<Rightarrow> d)"

subsection \<open>Cancellation, sweep and shutdown\<close>

text \<open>
  The number of dropped messages is read off the free slots of the channel, approximately, as the code
  says; here it is the length of the queue. The fields of a handle that are only logged are left out.
\<close>

definition belongs_to :: "string \<Rightarrow> string \<Rightarrow> string \<Rightarrow> bool" where
  "belongs_to platform thread_id k \<longleftrightarrow>
     k = platform @ '':'' @ thread_id \<or> strip_prefix (platform @ '':'' @ thread_id @ '':'') k \<noteq> None"

definition cancel_one :: "string \<Rightarrow> nat \<times> dispatcher \<Rightarrow> nat \<times> dispatcher" where
  "cancel_one k = (\<lambda>(dropped, d).
     case bt_get (dp_threads d) k of
       None \<Rightarrow> (dropped, d)
     | Some h \<Rightarrow>
         (dropped + length (ln_queue (lane_at (th_lane h) d)),
          change_lane (th_lane h) lane_abort (d\<lparr>dp_threads := bt_remove k (dp_threads d)\<rparr>)))"

definition cancel_buffered_thread :: "string \<Rightarrow> string \<Rightarrow> dispatcher \<Rightarrow> nat \<times> dispatcher" where
  "cancel_buffered_thread platform thread_id d =
     fold cancel_one (filter (belongs_to platform thread_id) (map fst (dp_threads d))) (0, d)"

definition sweep_stale :: "dispatcher \<Rightarrow> nat \<times> dispatcher" where
  "sweep_stale d =
     (let kept = filter (\<lambda>(_, h). \<not> is_finished (ln_phase (lane_at (th_lane h) d))) (dp_threads d)
      in (length (dp_threads d) - length kept, d\<lparr>dp_threads := kept\<rparr>))"

definition shutdown :: "dispatcher \<Rightarrow> dispatcher" where
  "shutdown d =
     (fold (\<lambda>(_, h). change_lane (th_lane h) lane_abort) (dp_threads d) d)\<lparr>dp_threads := []\<rparr>"

subsection \<open>Parameters\<close>

datatype processing_mode = PerMessage | PerThread | PerLane

definition default_consumer_idle_timeout :: nat where "default_consumer_idle_timeout = 300"

definition per_message_consumer_idle_timeout :: nat where "per_message_consumer_idle_timeout = 10"

definition dispatch_params :: "processing_mode \<Rightarrow> nat \<Rightarrow> nat \<times> batch_grouping \<times> nat" where
  "dispatch_params mode max_buffered =
     (case mode of
        PerMessage \<Rightarrow> (1, ThreadGrouping, per_message_consumer_idle_timeout)
      | PerThread \<Rightarrow> (max_buffered, ThreadGrouping, default_consumer_idle_timeout)
      | PerLane \<Rightarrow> (max_buffered, LaneGrouping, default_consumer_idle_timeout))"

subsection \<open>Runs\<close>

datatype dispatch_action =
    SubmitStart string buffered_message
  | SubmitNext nat
  | SubmitForget nat
  | Receive nat
  | IdleTimeout nat
  | Drain nat
  | BatchDone nat
  | BatchPanic nat
  | ExitLoop nat
  | Reap nat
  | FinishTask nat
  | CancelThread string string
  | SweepStale
  | Shutdown

definition on_lane :: "nat \<Rightarrow> (lane \<Rightarrow> lane) \<Rightarrow> dispatcher \<Rightarrow> dispatcher" where
  "on_lane i f d = (if i < length (dp_lanes d) then change_lane i f d else d)"

definition dispatch_do :: "dispatch_config \<Rightarrow> dispatcher \<Rightarrow> dispatch_action \<Rightarrow> dispatcher" where
  "dispatch_do cfg d act =
     (case act of
        SubmitStart key msg \<Rightarrow> submit_start key msg d
      | SubmitNext c \<Rightarrow> if c < length (dp_submits d) then submit_next cfg c d else d
      | SubmitForget c \<Rightarrow>
          (if c < length (dp_submits d)
           then (case sb_phase (dp_submits d ! c) of Sending _ _ _ \<Rightarrow> submit_forget c d | _ \<Rightarrow> d) else d)
      | Receive i \<Rightarrow> on_lane i (lane_receive (senders_gone i d)) d
      | IdleTimeout i \<Rightarrow> on_lane i lane_timeout d
      | Drain i \<Rightarrow> on_lane i (lane_drain cfg) d
      | BatchDone i \<Rightarrow> on_lane i lane_return d
      | BatchPanic i \<Rightarrow> on_lane i lane_panic d
      | ExitLoop i \<Rightarrow> on_lane i lane_exit d
      | Reap i \<Rightarrow> on_lane i lane_reap d
      | FinishTask i \<Rightarrow> on_lane i lane_finish d
      | CancelThread platform thread_id \<Rightarrow> snd (cancel_buffered_thread platform thread_id d)
      | SweepStale \<Rightarrow> snd (sweep_stale d)
      | Shutdown \<Rightarrow> shutdown d)"

definition dispatch_run :: "dispatch_config \<Rightarrow> dispatch_action list \<Rightarrow> dispatcher" where
  "dispatch_run cfg acts = foldl (dispatch_do cfg) empty_dispatcher acts"

end
