(* ===== verification/Dispatch_Facts.thy ===== *)
theory Dispatch_Facts
  imports Dispatch_Submit
begin

section \<open>What the dispatcher keeps\<close>

text \<open>
  The invariant of a run of the dispatcher, in parts: the lanes by themselves, the map and the
  generations, where a consumer that is alive is found, and where a submitted message is.
\<close>

type_synonym threads = "(string \<times> thread_handle) list"

text \<open>A handle leads to a lane of its key and generation.\<close>

definition threads_inv :: "lane list \<Rightarrow> threads \<Rightarrow> bool" where
  "threads_inv L T \<longleftrightarrow> bt_inv T \<and> (\<forall>k h. bt_get T k = Some h \<longrightarrow>
     th_lane h < length L \<and> ln_key (L ! th_lane h) = k \<and> ln_generation (L ! th_lane h) = th_generation h)"

text \<open>No generation is used twice.\<close>

definition gens_inv :: "lane list \<Rightarrow> nat \<Rightarrow> submission_state list \<Rightarrow> bool" where
  "gens_inv L n S \<longleftrightarrow> distinct (map ln_generation L) \<and> (\<forall>l\<in>set L. ln_generation l < n)
     \<and> (\<forall>c<length S. \<forall>r g. sb_phase (S ! c) = Locking r g \<longrightarrow> g < n \<and> g \<notin> ln_generation ` set L
          \<and> (\<forall>c'<length S. \<forall>r'. sb_phase (S ! c') = Locking r' g \<longrightarrow> c' = c))"

text \<open>A submission sends to a lane of its key; one that evicts has found its receiver gone.\<close>

fun submit_ok :: "lane list \<Rightarrow> submission_state \<Rightarrow> bool" where
  "submit_ok L s =
     ((\<forall>i\<in>set (sb_clones s). i < length L)
      \<and> (case sb_phase s of
           Sending r i g \<Rightarrow> i < length L \<and> ln_key (L ! i) = sb_key s \<and> ln_generation (L ! i) = g \<and> i \<in> set (sb_clones s)
         | Evicting r g \<Rightarrow> (\<exists>l\<in>set L. ln_generation l = g \<and> rx_dropped (ln_phase l))
         | _ \<Rightarrow> True))"

definition alive :: "lane \<Rightarrow> bool" where
  "alive l \<longleftrightarrow> \<not> rx_dropped (ln_phase l) \<and> \<not> ln_aborted l"

text \<open>A consumer that is alive is the one in the map.\<close>

definition live_inv :: "lane list \<Rightarrow> threads \<Rightarrow> bool" where
  "live_inv L T \<longleftrightarrow> (\<forall>i<length L. alive (L ! i) \<longrightarrow>
     bt_get T (ln_key (L ! i)) = Some \<lparr>th_lane = i, th_generation = ln_generation (L ! i)\<rparr>)"

text \<open>The messages sent are those of the submissions that returned success.\<close>

definition sent_inv :: "lane list \<Rightarrow> submission_state list \<Rightarrow> bool" where
  "sent_inv L S \<longleftrightarrow> distinct (map fst (concat (map ln_sent L)))
     \<and> (\<forall>l\<in>set L. \<forall>m\<in>set (ln_sent l). fst m < length S \<and> sb_phase (S ! fst m) = Returned True
          \<and> snd m = sb_message (S ! fst m) \<and> ln_key l = sb_key (S ! fst m))
     \<and> (\<forall>c<length S. sb_phase (S ! c) = Returned True \<longrightarrow> c \<in> fst ` set (concat (map ln_sent L)))"

text \<open>A consumer that ended because every sender was gone has lost nothing.\<close>

fun ended_by :: "consumer_phase \<Rightarrow> ending \<Rightarrow> bool" where
  "ended_by (Leaving e) e' = (e = e')"
| "ended_by (Dropped e) e' = (e = e')"
| "ended_by (Finished e) e' = (e = e')"
| "ended_by _ _ = False"

definition no_sender :: "nat \<Rightarrow> threads \<Rightarrow> submission_state list \<Rightarrow> bool" where
  "no_sender i T S \<longleftrightarrow> (\<forall>k h. bt_get T k = Some h \<longrightarrow> th_lane h \<noteq> i) \<and> (\<forall>s\<in>set S. i \<notin> set (sb_clones s))"

definition close_inv :: "lane list \<Rightarrow> threads \<Rightarrow> submission_state list \<Rightarrow> bool" where
  "close_inv L T S \<longleftrightarrow> (\<forall>i<length L. (ended_by (ln_phase (L ! i)) ByClose \<longrightarrow>
       no_sender i T S \<and> ln_queue (L ! i) = [] \<and> ln_lost (L ! i) = [])
     \<and> (ended_by (ln_phase (L ! i)) ByAbort \<longrightarrow> ln_aborted (L ! i)))"

definition disp_inv :: "dispatch_config \<Rightarrow> lane list \<Rightarrow> threads \<Rightarrow> nat \<Rightarrow> submission_state list \<Rightarrow> bool" where
  "disp_inv cfg L T n S \<longleftrightarrow> list_all (lane_ok cfg) L \<and> threads_inv L T \<and> gens_inv L n S
     \<and> list_all (submit_ok L) S \<and> live_inv L T \<and> sent_inv L S \<and> close_inv L T S"

abbreviation disp_ok :: "dispatch_config \<Rightarrow> dispatcher \<Rightarrow> bool" where
  "disp_ok cfg d \<equiv> disp_inv cfg (dp_lanes d) (dp_threads d) (dp_next_generation d) (dp_submits d)"

subsection \<open>Steps of a consumer\<close>

text \<open>What a step of the loop leaves of its lane.\<close>

definition inner :: "lane \<Rightarrow> lane \<Rightarrow> bool" where
  "inner l l' \<longleftrightarrow> ln_key l' = ln_key l \<and> ln_generation l' = ln_generation l \<and> ln_sent l' = ln_sent l
     \<and> (rx_dropped (ln_phase l) \<longrightarrow> rx_dropped (ln_phase l')) \<and> (ln_aborted l \<longrightarrow> ln_aborted l')"

lemma inner_loop [simp]:
  "inner l (lane_receive gone l)" "inner l (lane_timeout l)" "inner l (lane_drain cfg l)" "inner l (lane_return l)"
  "inner l (lane_exit l)" "inner l (lane_finish l)" "inner l (lane_reap l)" "inner l (lane_panic l)" "inner l (lane_abort l)"
  by (auto simp: inner_def lane_receive_def lane_timeout_def lane_drain_def lane_return_def lane_exit_def lane_finish_def
      lane_reap_def lane_panic_def lane_abort_def start_batch_def dispatch_now_def drop_receiver_def
      split: consumer_phase.splits option.splits list.splits)

lemma inner_alive: "inner l l' \<Longrightarrow> alive l' \<Longrightarrow> alive l"
  by (auto simp: inner_def alive_def)

lemma submit_ok_update:
  assumes "submit_ok L s" and "ln_key l = ln_key (L ! i)" and "ln_generation l = ln_generation (L ! i)"
    and "rx_dropped (ln_phase (L ! i)) \<Longrightarrow> rx_dropped (ln_phase l)" and "i < length L"
  shows "submit_ok (L[i := l]) s"
proof -
  have "\<exists>x\<in>set (L[i := l]). ln_generation x = g \<and> rx_dropped (ln_phase x)"
    if x: "x \<in> set L" "ln_generation x = g" "rx_dropped (ln_phase x)" for x g
  proof -
    obtain j where j: "j < length L" "L ! j = x" using x(1) by (auto simp: in_set_conv_nth)
    show ?thesis
    proof (cases "j = i")
      case True
      then show ?thesis
        using x j assms(3-5) by (auto intro!: bexI [of _ l] set_update_memI)
    next
      case False
      then have "L[i := l] ! j = x" using j by simp
      then show ?thesis using x j(1) by (metis length_list_update nth_mem)
    qed
  qed
  then show ?thesis
    using assms(1-3) by (auto simp: nth_update_value split: submit_phase.splits)
qed

lemma disp_inv_lane:
  assumes inv: "disp_inv cfg L T n S" and step: "inner (L ! i) l" and ok: "lane_ok cfg l" and i: "i < length L"
    and close: "ended_by (ln_phase l) ByClose \<Longrightarrow> no_sender i T S \<and> ln_queue l = [] \<and> ln_lost l = []"
    and abort: "ended_by (ln_phase l) ByAbort \<Longrightarrow> ln_aborted l"
  shows "disp_inv cfg (L[i := l]) T n S"
proof -
  note parts = inv [unfolded disp_inv_def]
  have same: "ln_key l = ln_key (L ! i)" "ln_generation l = ln_generation (L ! i)" "ln_sent l = ln_sent (L ! i)"
    using step by (simp_all add: inner_def)
  have maps: "map ln_generation (L[i := l]) = map ln_generation L" "map ln_sent (L[i := l]) = map ln_sent L"
    using same(2,3) by (simp_all add: map_update_value)
  have nth: "ln_key (L[i := l] ! j) = ln_key (L ! j)" "ln_generation (L[i := l] ! j) = ln_generation (L ! j)" for j
    using same(1,2) by (simp_all add: nth_update_value)
  have "list_all (lane_ok cfg) (L[i := l])"
    using parts ok set_update_subset_insert [of L i l] by (auto simp: list_all_iff)
  moreover have "threads_inv (L[i := l]) T"
    using parts by (simp add: threads_inv_def nth)
  moreover have "gens_inv (L[i := l]) n S"
  proof -
    have "ln_generation ` set (L[i := l]) = ln_generation ` set L" using maps(1) by (metis list.set_map)
    then show ?thesis using parts maps(1) unfolding gens_inv_def by (metis imageE imageI)
  qed
  moreover have "list_all (submit_ok (L[i := l])) S"
    using parts submit_ok_update [OF _ same(1,2) _ i] step by (auto simp: list_all_iff inner_def simp del: submit_ok.simps)
  moreover have "live_inv (L[i := l]) T"
    unfolding live_inv_def
  proof (intro allI impI)
    fix j assume j: "j < length (L[i := l])" "alive (L[i := l] ! j)"
    then have "alive (L ! j)" using inner_alive [OF step] by (cases "j = i") auto
    then show "bt_get T (ln_key (L[i := l] ! j)) = Some \<lparr>th_lane = j, th_generation = ln_generation (L[i := l] ! j)\<rparr>"
      using parts j(1) by (simp add: live_inv_def nth)
  qed
  moreover have "sent_inv (L[i := l]) S"
  proof -
    have "fst m < length S \<and> sb_phase (S ! fst m) = Returned True \<and> snd m = sb_message (S ! fst m) \<and> ln_key x = sb_key (S ! fst m)"
      if "x \<in> set (L[i := l])" "m \<in> set (ln_sent x)" for x m
      using that same parts set_update_subset_insert [of L i l] nth_mem [OF i] unfolding sent_inv_def by auto
    then show ?thesis using parts unfolding sent_inv_def maps(2) by blast
  qed
  moreover have "close_inv (L[i := l]) T S"
    using parts close abort i by (auto simp: close_inv_def nth_list_update)
  ultimately show ?thesis by (simp add: disp_inv_def)
qed

subsection \<open>Steps of a submission\<close>

text \<open>A submission moves on while the lanes and the map stay.\<close>

lemma disp_inv_submit:
  assumes inv: "disp_inv cfg L T n S" and c: "c < length S" and ok: "submit_ok L s"
    and same: "sb_key s = sb_key (S ! c)" "sb_message s = sb_message (S ! c)"
    and phase: "sb_phase (S ! c) \<noteq> Returned True" "sb_phase s \<noteq> Returned True"
    and lock: "\<And>r g. sb_phase s = Locking r g \<Longrightarrow> n \<le> g \<and> g < n'" and n: "n \<le> n'"
    and clones: "\<And>i. i \<in> set (sb_clones s) \<Longrightarrow> i \<in> set (sb_clones (S ! c)) \<or> (\<exists>k h. bt_get T k = Some h \<and> th_lane h = i)"
  shows "disp_inv cfg L T n' (S[c := s])"
proof -
  note parts = inv [unfolded disp_inv_def]
  have "gens_inv L n' (S[c := s])"
    unfolding gens_inv_def
  proof (intro conjI allI impI ballI)
    note g = parts [THEN conjunct2, THEN conjunct2, THEN conjunct1, unfolded gens_inv_def]
    show "distinct (map ln_generation L)" using g by blast
    show "ln_generation l < n'" if "l \<in> set L" for l using g that n by (meson less_le_trans)
    fix c1 r1 g1 assume 1: "c1 < length (S[c := s])" "sb_phase (S[c := s] ! c1) = Locking r1 g1"
    have a: "g1 < n' \<and> g1 \<notin> ln_generation ` set L \<and> (c1 = c \<longleftrightarrow> n \<le> g1)"
    proof (cases "c1 = c")
      case True
      then have "n \<le> g1" "g1 < n'" using 1 lock c by auto
      then show ?thesis using g True by auto
    next
      case False
      then have "g1 < n" "g1 \<notin> ln_generation ` set L" using 1 g by auto
      then show ?thesis using n False by auto
    qed
    then show "g1 < n'" "g1 \<notin> ln_generation ` set L" by blast+
    fix c2 r2 assume 2: "c2 < length (S[c := s])" "sb_phase (S[c := s] ! c2) = Locking r2 g1"
    show "c2 = c1"
    proof (cases "c1 = c \<or> c2 = c")
      case True
      have "c2 = c \<longleftrightarrow> n \<le> g1"
      proof (cases "c2 = c")
        case t: True
        then show ?thesis using 2 lock c by auto
      next
        case False
        then have "g1 < n" using 2 g by auto
        then show ?thesis using False by simp
      qed
      then show ?thesis using a True by blast
    next
      case False
      then show ?thesis using 1 2 g by (metis length_list_update nth_list_update_neq)
    qed
  qed
  moreover have "list_all (submit_ok L) (S[c := s])"
    using parts ok set_update_subset_insert [of S c s] by (auto simp: list_all_iff simp del: submit_ok.simps)
  moreover have "sent_inv L (S[c := s])"
  proof -
    have "fst m \<noteq> c" if "l \<in> set L" "m \<in> set (ln_sent l)" for l m
      using parts that phase(1) unfolding sent_inv_def by metis
    then show ?thesis using parts phase(2) c by (auto simp: sent_inv_def nth_list_update)
  qed
  moreover have "close_inv L T (S[c := s])"
  proof -
    have "no_sender i T (S[c := s])" if "no_sender i T S" for i
      using that clones c set_update_subset_insert [of S c s] unfolding no_sender_def by (metis insert_iff nth_mem subsetD)
    then show ?thesis using parts by (auto simp: close_inv_def)
  qed
  ultimately show ?thesis using parts by (simp add: disp_inv_def)
qed

lemma submit_start_ok:
  assumes "disp_ok cfg d"
  shows "disp_ok cfg (submit_start key msg d)"
proof -
  let ?L = "dp_lanes d" and ?T = "dp_threads d" and ?n = "dp_next_generation d" and ?S = "dp_submits d"
  let ?s = "\<lparr>sb_key = key, sb_message = msg, sb_phase = Locking False ?n, sb_clones = []\<rparr>"
  note parts = assms [unfolded disp_inv_def]
  have "gens_inv ?L (?n + 1) (?S @ [?s])"
    using parts unfolding gens_inv_def
    by (auto simp: nth_append less_Suc_eq split: if_splits)
  moreover have "sent_inv ?L (?S @ [?s])"
    using parts by (auto simp: sent_inv_def nth_append less_Suc_eq)
  moreover have "close_inv ?L ?T (?S @ [?s])"
    using parts by (auto simp: close_inv_def no_sender_def)
  ultimately show ?thesis using parts by (simp add: disp_inv_def submit_start_def)
qed

text \<open>A handle whose consumer is not alive may go.\<close>

lemma disp_inv_remove:
  assumes inv: "disp_inv cfg L T n S" and h: "bt_get T k = Some h" "\<not> alive (L ! th_lane h)"
  shows "disp_inv cfg L (bt_remove k T) n S"
proof -
  note parts = inv [unfolded disp_inv_def]
  have "threads_inv L (bt_remove k T)" using parts by (auto simp: threads_inv_def bt_inv_remove split: if_splits)
  moreover have "live_inv L (bt_remove k T)"
    unfolding live_inv_def
  proof (intro allI impI)
    fix i assume i: "i < length L" "alive (L ! i)"
    then have get: "bt_get T (ln_key (L ! i)) = Some \<lparr>th_lane = i, th_generation = ln_generation (L ! i)\<rparr>"
      using parts by (simp add: live_inv_def)
    then have "ln_key (L ! i) \<noteq> k" using h i(2) by auto
    then show "bt_get (bt_remove k T) (ln_key (L ! i)) = Some \<lparr>th_lane = i, th_generation = ln_generation (L ! i)\<rparr>"
      using get by simp
  qed
  moreover have "close_inv L (bt_remove k T) S"
    using parts by (auto simp: close_inv_def no_sender_def split: if_splits)
  ultimately show ?thesis using parts by (simp add: disp_inv_def)
qed

lemma finished_not_alive: "is_finished (ln_phase l) \<Longrightarrow> \<not> alive l"
  by (cases "ln_phase l") (auto simp: alive_def)

lemma drop_finished_ok:
  "disp_ok cfg d \<Longrightarrow> disp_ok cfg (drop_finished key d)"
  using disp_inv_remove finished_not_alive by (auto simp: drop_finished_def split: option.splits)

lemma drop_finished_same [simp]:
  "dp_lanes (drop_finished key d) = dp_lanes d" "dp_submits (drop_finished key d) = dp_submits d"
  "dp_next_generation (drop_finished key d) = dp_next_generation d"
  by (simp_all add: drop_finished_def split: option.splits)

text \<open>A new consumer under the generation that its submission has fetched.\<close>

lemma disp_inv_spawn:
  assumes inv: "disp_inv cfg L T n S" and c: "c < length S" and was: "sb_phase (S ! c) = Locking r g"
    and none: "bt_get T (sb_key (S ! c)) = None"
  defines "key \<equiv> sb_key (S ! c)"
  defines "s \<equiv> (S ! c)\<lparr>sb_phase := Sending r (length L) g, sb_clones := sb_clones (S ! c) @ [length L]\<rparr>"
  shows "disp_inv cfg (L @ [new_lane key g]) (bt_insert key \<lparr>th_lane = length L, th_generation = g\<rparr> T) n (S[c := s])"
proof -
  let ?L = "L @ [new_lane key g]" and ?T = "bt_insert key \<lparr>th_lane = length L, th_generation = g\<rparr> T"
  note parts = inv [unfolded disp_inv_def]
  have lane: "ln_key (new_lane key g) = key" "ln_generation (new_lane key g) = g" "ln_sent (new_lane key g) = []"
      "ln_phase (new_lane key g) = AtHead None"
    by (simp_all add: new_lane_def)
  have g: "g < n" "g \<notin> ln_generation ` set L" "\<And>c' r'. c' < length S \<Longrightarrow> sb_phase (S ! c') = Locking r' g \<Longrightarrow> c' = c"
    using parts c was unfolding gens_inv_def by blast+
  have old: "ln_key l \<noteq> key" if "l \<in> set L" "alive l" for l
    using parts that none unfolding live_inv_def key_def by (metis in_set_conv_nth option.distinct(1))
  have "threads_inv ?L ?T"
    using parts lane by (auto simp: threads_inv_def bt_inv_insert nth_append less_Suc_eq split: if_splits)
  moreover have "gens_inv ?L n (S[c := s])"
    using parts lane g c unfolding gens_inv_def s_def by (auto simp: nth_list_update split: if_splits)
  moreover have "list_all (submit_ok ?L) (S[c := s])"
  proof -
    have "submit_ok ?L x" if "submit_ok L x" for x
      using that by (auto simp: nth_append less_Suc_eq split: submit_phase.splits)
    moreover have "submit_ok ?L s"
    proof -
      have "submit_ok L (S ! c)" using parts c by (simp add: list_all_iff del: submit_ok.simps)
      then show ?thesis using lane(1,2) by (auto simp: s_def key_def nth_append less_Suc_eq)
    qed
    ultimately show ?thesis
      using parts set_update_subset_insert [of S c s] by (auto simp: list_all_iff simp del: submit_ok.simps)
  qed
  moreover have "live_inv ?L ?T"
    using parts lane old by (auto simp: live_inv_def nth_append less_Suc_eq split: if_splits)
  moreover have "sent_inv ?L (S[c := s])"
  proof -
    have "fst m \<noteq> c" if "l \<in> set L" "m \<in> set (ln_sent l)" for l m
      using parts that was unfolding sent_inv_def by (metis submit_phase.distinct(7))
    then show ?thesis using parts lane c by (auto simp: sent_inv_def s_def nth_list_update)
  qed
  moreover have "close_inv ?L ?T (S[c := s])"
  proof -
    have "no_sender i ?T (S[c := s])" if "no_sender i T S" "i < length L" for i
      using that c set_update_subset_insert [of S c s] unfolding no_sender_def
      by (auto simp: s_def split: if_splits dest!: subsetD) 
    then show ?thesis using parts lane by (auto simp: close_inv_def nth_append less_Suc_eq)
  qed
  ultimately show ?thesis using parts by (simp add: disp_inv_def)
qed

text \<open>A message is taken by a channel.\<close>

lemma concat_sent_update:
  assumes "i < length L" and "ln_sent l = ln_sent (L ! i) @ [m]" and "distinct (map fst (concat (map ln_sent L)))"
    and "fst m \<notin> fst ` set (concat (map ln_sent L))"
  shows "distinct (map fst (concat (map ln_sent (L[i := l]))))"
    and "set (concat (map ln_sent (L[i := l]))) = insert m (set (concat (map ln_sent L)))"
proof -
  have L: "L = take i L @ L ! i # drop (Suc i) L" by (rule id_take_nth_drop [OF assms(1)])
  have L': "L[i := l] = take i L @ l # drop (Suc i) L" by (rule upd_conv_take_nth_drop [OF assms(1)])
  let ?A = "concat (map ln_sent (take i L)) @ ln_sent (L ! i)" and ?B = "concat (map ln_sent (drop (Suc i) L))"
  have old: "concat (map ln_sent L) = ?A @ ?B" by (subst L) simp
  have new: "concat (map ln_sent (L[i := l])) = ?A @ [m] @ ?B" by (subst L') (simp add: assms(2))
  show "distinct (map fst (concat (map ln_sent (L[i := l]))))"
    using assms(3,4) unfolding old new by auto
  show "set (concat (map ln_sent (L[i := l]))) = insert m (set (concat (map ln_sent L)))"
    unfolding old new by auto
qed

lemma gens_inv_unlock:
  assumes "gens_inv L n S" and "\<And>r g. sb_phase s \<noteq> Locking r g"
  shows "gens_inv L n (S[c := s])"
proof -
  have "sb_phase (S ! d) = Locking r g" if "sb_phase (S[c := s] ! d) = Locking r g" "d < length S" for d r g
    using that assms(2) by (cases "d = c") auto
  then show ?thesis using assms(1) unfolding gens_inv_def length_list_update by blast
qed

lemma no_sender_shrink:
  "no_sender i T S \<Longrightarrow> set (sb_clones s) \<subseteq> set (sb_clones (S ! c)) \<Longrightarrow> c < length S \<Longrightarrow> no_sender i T (S[c := s])"
  using set_update_subset_insert [of S c s] nth_mem [of c S] unfolding no_sender_def by blast

lemma disp_inv_sent:
  assumes inv: "disp_inv cfg L T n S" and c: "c < length S" and was: "sb_phase (S ! c) = Sending r i g"
    and send: "lane_send cfg (c, sb_message (S ! c)) (L ! i) = (Sent, l)"
  defines "s \<equiv> (S ! c)\<lparr>sb_phase := Returned True, sb_clones := []\<rparr>"
  shows "disp_inv cfg (L[i := l]) T n (S[c := s])"
proof -
  let ?m = "(c, sb_message (S ! c))"
  note parts = inv [unfolded disp_inv_def]
  have ok: "submit_ok L (S ! c)" using parts c by (simp add: list_all_iff del: submit_ok.simps)
  then have i: "i < length L" "ln_key (L ! i) = sb_key (S ! c)" "i \<in> set (sb_clones (S ! c))" using was by auto
  have l: "ln_sent l = ln_sent (L ! i) @ [?m]" "ln_key l = ln_key (L ! i)" "ln_generation l = ln_generation (L ! i)"
      "ln_phase l = ln_phase (L ! i)" "ln_aborted l = ln_aborted (L ! i)" "ln_lost l = ln_lost (L ! i)"
      "\<not> rx_dropped (ln_phase (L ! i))"
    using send by (auto simp: lane_send_def split: if_splits)
  have nth: "ln_key (L[i := l] ! j) = ln_key (L ! j)" "ln_generation (L[i := l] ! j) = ln_generation (L ! j)"
      "ln_phase (L[i := l] ! j) = ln_phase (L ! j)" "ln_aborted (L[i := l] ! j) = ln_aborted (L ! j)"
      "ln_lost (L[i := l] ! j) = ln_lost (L ! j)" for j
    using l(2-6) by (simp_all add: nth_update_value)
  have gens: "map ln_generation (L[i := l]) = map ln_generation L" using l(3) by (simp add: map_update_value)
  have fresh: "c \<noteq> fst m" if "x \<in> set L" "m \<in> set (ln_sent x)" for x m
    using parts that was unfolding sent_inv_def by auto
  then have fresh': "fst ?m \<notin> fst ` set (concat (map ln_sent L))" by fastforce
  have dist: "distinct (map fst (concat (map ln_sent L)))" using parts by (simp add: sent_inv_def)
  note conc = concat_sent_update [OF i(1) l(1) dist fresh']
  have "lane_ok cfg l"
    using lane_step_ok [OF sends [of cfg "L ! i" ?m]] parts i(1) send by (simp add: list_all_length)
  then have "list_all (lane_ok cfg) (L[i := l])"
    using parts set_update_subset_insert [of L i l] by (auto simp: list_all_iff)
  moreover have "threads_inv (L[i := l]) T" using parts by (simp add: threads_inv_def nth)
  moreover have "gens_inv (L[i := l]) n (S[c := s])"
  proof -
    have "ln_generation ` set (L[i := l]) = ln_generation ` set L" using gens by (metis list.set_map)
    then have "gens_inv (L[i := l]) n S" using parts gens unfolding gens_inv_def by (metis imageE imageI)
    then show ?thesis by (rule gens_inv_unlock) (simp add: s_def)
  qed
  moreover have "list_all (submit_ok (L[i := l])) (S[c := s])"
  proof -
    have "submit_ok (L[i := l]) x" if "submit_ok L x" for x
      using submit_ok_update [OF that l(2,3) _ i(1)] l(4) by simp
    moreover have "submit_ok (L[i := l]) s" by (simp add: s_def)
    ultimately show ?thesis
      using parts set_update_subset_insert [of S c s] by (auto simp: list_all_iff simp del: submit_ok.simps)
  qed
  moreover have "live_inv (L[i := l]) T"
    using parts by (simp add: live_inv_def nth alive_def)
  moreover have "sent_inv (L[i := l]) (S[c := s])"
  proof -
    have "fst m < length S \<and> sb_phase (S[c := s] ! fst m) = Returned True \<and> snd m = sb_message (S[c := s] ! fst m)
        \<and> ln_key x = sb_key (S[c := s] ! fst m)" if x: "x \<in> set (L[i := l])" "m \<in> set (ln_sent x)" for x m
    proof (cases "m = ?m")
      case True
      obtain j where j: "j < length L" "x = L[i := l] ! j" using x(1) by (auto simp: in_set_conv_nth)
      have "j = i"
      proof (rule ccontr)
        assume "j \<noteq> i"
        then show False using fresh [of x m] j x(2) True by simp
      qed
      then show ?thesis using j True l(2) i(1,2) c by (simp add: s_def)
    next
      case False
      have "\<exists>y\<in>set L. m \<in> set (ln_sent y) \<and> ln_key y = ln_key x"
      proof (cases "x \<in> set L")
        case False
        then have "x = l" using x(1) set_update_subset_insert [of L i l] by auto
        then show ?thesis using x(2) l(1,2) \<open>m \<noteq> ?m\<close> nth_mem [OF i(1)] by auto
      qed (use x in blast)
      then obtain y where y: "y \<in> set L" "m \<in> set (ln_sent y)" "ln_key y = ln_key x" by blast
      then show ?thesis using parts fresh [OF y(1,2)] c unfolding sent_inv_def by auto
    qed
    moreover have "c' \<in> fst ` set (concat (map ln_sent (L[i := l])))"
      if "c' < length S" "sb_phase (S[c := s] ! c') = Returned True" for c'
      using that parts unfolding conc(2) sent_inv_def by (cases "c' = c") auto
    ultimately show ?thesis using conc(1) by (simp add: sent_inv_def)
  qed
  moreover have "close_inv (L[i := l]) T (S[c := s])"
    unfolding close_inv_def
  proof (intro allI impI conjI)
    fix j assume j: "j < length (L[i := l])"
    show "no_sender j T (S[c := s])" "ln_queue (L[i := l] ! j) = []" "ln_lost (L[i := l] ! j) = []"
      if "ended_by (ln_phase (L[i := l] ! j)) ByClose"
    proof -
      have old: "no_sender j T S" "ln_queue (L ! j) = []" "ln_lost (L ! j) = []"
        using that parts j unfolding close_inv_def nth by simp_all
      have "j \<noteq> i" using old(1) i(3) c unfolding no_sender_def by (metis nth_mem)
      then show "no_sender j T (S[c := s])" "ln_queue (L[i := l] ! j) = []" "ln_lost (L[i := l] ! j) = []"
        using old c by (simp_all add: no_sender_shrink s_def)
    qed
    show "ln_aborted (L[i := l] ! j)" if "ended_by (ln_phase (L[i := l] ! j)) ByAbort"
      using that parts j unfolding close_inv_def nth by simp
  qed
  ultimately show ?thesis by (simp add: disp_inv_def)
qed

subsection \<open>Every operation\<close>

lemma or_insert_ok:
  assumes inv: "disp_ok cfg d" and c: "c < length (dp_submits d)" and was: "sb_phase (dp_submits d ! c) = Locking r g"
    and res: "or_insert (sb_key (dp_submits d ! c)) g d = (h, d1)"
  shows "disp_ok cfg (change_submit c (\<lambda>s. s\<lparr>sb_phase := Sending r (th_lane h) (th_generation h),
           sb_clones := sb_clones s @ [th_lane h]\<rparr>) d1)"
proof (cases "bt_get (dp_threads d) (sb_key (dp_submits d ! c))")
  case None
  then show ?thesis
    using disp_inv_spawn [OF inv c was None] res by (auto simp: or_insert_def Let_def)
next
  case (Some h0)
  let ?S = "dp_submits d"
  let ?s = "(?S ! c)\<lparr>sb_phase := Sending r (th_lane h) (th_generation h), sb_clones := sb_clones (?S ! c) @ [th_lane h]\<rparr>"
  have h: "h0 = h" "d1 = d" using res Some by (simp_all add: or_insert_def)
  have "submit_ok (dp_lanes d) (?S ! c)" using inv c by (simp add: disp_inv_def list_all_iff del: submit_ok.simps)
  then have "submit_ok (dp_lanes d) ?s"
    using inv Some h by (auto simp: disp_inv_def threads_inv_def)
  then have "disp_inv cfg (dp_lanes d) (dp_threads d) (dp_next_generation d) (?S[c := ?s])"
    using disp_inv_submit [OF inv c, of ?s "dp_next_generation d"] was Some h by auto
  then show ?thesis using h by simp
qed

lemma submit_lock_ok:
  assumes "disp_ok cfg d" and "c < length (dp_submits d)" and "sb_phase (dp_submits d ! c) = Locking r g"
  shows "disp_ok cfg (submit_lock c r g d)"
proof -
  let ?d = "if r then d else drop_finished (sb_key (dp_submits d ! c)) d"
  have d: "disp_ok cfg ?d" "dp_submits ?d = dp_submits d" using assms(1) drop_finished_ok by auto
  obtain h d1 where res: "or_insert (sb_key (dp_submits d ! c)) g ?d = (h, d1)" by force
  show ?thesis
    using or_insert_ok [OF d(1), of c r g h d1] assms(2,3) d(2) res by (simp add: submit_lock_def Let_def)
qed

lemma submit_send_ok:
  assumes inv: "disp_ok cfg d" and c: "c < length (dp_submits d)" and was: "sb_phase (dp_submits d ! c) = Sending r i g"
  shows "disp_ok cfg (submit_send cfg c r i g d)"
proof -
  obtain res l where send: "lane_send cfg (c, sb_message (dp_submits d ! c)) (lane_at i d) = (res, l)" by force
  show ?thesis
  proof (cases res)
    case Sent
    then show ?thesis
      using disp_inv_sent [OF inv c was] send by (simp add: submit_send_def)
  next
    case SendError
    let ?s = "(dp_submits d ! c)\<lparr>sb_phase := Evicting r g\<rparr>"
    have "submit_ok (dp_lanes d) (dp_submits d ! c)" using inv c by (simp add: disp_inv_def list_all_iff del: submit_ok.simps)
    moreover have "rx_dropped (ln_phase (lane_at i d))" using send SendError by (auto simp: lane_send_def split: if_splits)
    ultimately have "submit_ok (dp_lanes d) ?s" using was nth_mem by auto
    then have "disp_inv cfg (dp_lanes d) (dp_threads d) (dp_next_generation d) ((dp_submits d)[c := ?s])"
      using disp_inv_submit [OF inv c, of ?s "dp_next_generation d"] was by auto
    then show ?thesis using send SendError by (simp add: submit_send_def)
  qed (use inv send in \<open>simp add: submit_send_def\<close>)
qed

lemma evicted_not_alive:
  assumes inv: "disp_inv cfg L T n S" and c: "c < length S" and was: "sb_phase (S ! c) = Evicting r g"
    and h: "bt_get T k = Some h" "th_generation h = g"
  shows "\<not> alive (L ! th_lane h)"
proof -
  note parts = inv [unfolded disp_inv_def]
  have "submit_ok L (S ! c)" using parts c by (simp add: list_all_iff del: submit_ok.simps)
  then obtain l where l: "l \<in> set L" "ln_generation l = g" "rx_dropped (ln_phase l)" using was by auto
  obtain j where j: "j < length L" "L ! j = l" using l(1) by (auto simp: in_set_conv_nth)
  have lane: "th_lane h < length L" "ln_generation (L ! th_lane h) = g" using parts h by (auto simp: threads_inv_def)
  have "distinct (map ln_generation L)" using parts by (simp add: gens_inv_def)
  then have "th_lane h = j" using lane j l(2) by (auto simp: distinct_conv_nth)
  then show ?thesis using j l(3) by (simp add: alive_def)
qed

lemma try_evict_ok:
  assumes "disp_ok cfg d" and "c < length (dp_submits d)" and "sb_phase (dp_submits d ! c) = Evicting r g"
  shows "disp_ok cfg (snd (try_evict_locked k g d))"
  using assms(1) disp_inv_remove evicted_not_alive [OF assms]
  by (auto simp: try_evict_locked_def split: option.splits)

lemma try_evict_same [simp]:
  "dp_lanes (snd (try_evict_locked k g d)) = dp_lanes d" "dp_submits (snd (try_evict_locked k g d)) = dp_submits d"
  "dp_next_generation (snd (try_evict_locked k g d)) = dp_next_generation d"
  by (simp_all add: try_evict_locked_def split: option.splits)

lemma submit_moves_ok:
  assumes inv: "disp_ok cfg d" and c: "c < length (dp_submits d)" and was: "sb_phase (dp_submits d ! c) \<noteq> Returned True"
    and s: "sb_key s = sb_key (dp_submits d ! c)" "sb_message s = sb_message (dp_submits d ! c)"
      "sb_phase s \<in> {Returned False, Refetching, Forgotten}" "sb_clones s = [] \<or> sb_clones s = sb_clones (dp_submits d ! c)"
  shows "disp_ok cfg (change_submit c (\<lambda>_. s) d)"
proof -
  have "submit_ok (dp_lanes d) (dp_submits d ! c)" using inv c by (simp add: disp_inv_def list_all_iff del: submit_ok.simps)
  then have "submit_ok (dp_lanes d) s" using s(3,4) by auto
  then show ?thesis using disp_inv_submit [OF inv c, of s "dp_next_generation d"] was s by auto
qed

lemma submit_evict_ok:
  assumes "disp_ok cfg d" and "c < length (dp_submits d)" and "sb_phase (dp_submits d ! c) = Evicting r g"
  shows "disp_ok cfg (submit_evict c r g d)"
proof -
  let ?d = "snd (try_evict_locked (sb_key (dp_submits d ! c)) g d)"
  have d: "disp_ok cfg ?d" by (rule try_evict_ok [OF assms])
  show ?thesis
    using submit_moves_ok [OF d, of c "(dp_submits d ! c)\<lparr>sb_phase := Returned False, sb_clones := []\<rparr>"]
      submit_moves_ok [OF d, of c "(dp_submits d ! c)\<lparr>sb_phase := Refetching\<rparr>"] assms(2,3)
    by (auto simp: submit_evict_def case_prod_beta)
qed

lemma submit_refetch_ok:
  assumes inv: "disp_ok cfg d" and c: "c < length (dp_submits d)" and was: "sb_phase (dp_submits d ! c) = Refetching"
  shows "disp_ok cfg (submit_refetch c d)"
proof -
  let ?s = "(dp_submits d ! c)\<lparr>sb_phase := Locking True (dp_next_generation d)\<rparr>"
  have "submit_ok (dp_lanes d) (dp_submits d ! c)" using inv c by (simp add: disp_inv_def list_all_iff del: submit_ok.simps)
  then have "submit_ok (dp_lanes d) ?s" by auto
  then have "disp_inv cfg (dp_lanes d) (dp_threads d) (dp_next_generation d + 1) ((dp_submits d)[c := ?s])"
    using disp_inv_submit [OF inv c, of ?s "dp_next_generation d + 1"] was by auto
  then show ?thesis by (simp add: submit_refetch_def)
qed

lemma submit_next_ok: "disp_ok cfg d \<Longrightarrow> c < length (dp_submits d) \<Longrightarrow> disp_ok cfg (submit_next cfg c d)"
  using submit_lock_ok submit_send_ok submit_evict_ok submit_refetch_ok
  by (auto simp: submit_next_def split: submit_phase.splits)

subsection \<open>The consumers\<close>

lemma senders_gone_iff: "threads_inv L (dp_threads d) \<Longrightarrow> senders_gone i d \<longleftrightarrow> no_sender i (dp_threads d) (dp_submits d)"
  unfolding senders_gone_def no_sender_def list_ex_iff threads_inv_def using bt_rows_get by fastforce

text \<open>Only a receive ends by the closing of the channel, only a reap by an abort.\<close>

definition ends_plainly :: "lane \<Rightarrow> lane \<Rightarrow> bool" where
  "ends_plainly l l' \<longleftrightarrow>
     (ended_by (ln_phase l') ByClose \<longrightarrow> ended_by (ln_phase l) ByClose
        \<and> (ln_queue l = [] \<longrightarrow> ln_lost l = [] \<longrightarrow> ln_queue l' = [] \<and> ln_lost l' = []))
     \<and> (ended_by (ln_phase l') ByAbort \<longrightarrow> ended_by (ln_phase l) ByAbort \<or> ln_aborted l')"

lemma ends_plainly_loop [simp]:
  "ends_plainly l (lane_timeout l)" "ends_plainly l (lane_drain cfg l)" "ends_plainly l (lane_return l)"
  "ends_plainly l (lane_exit l)" "ends_plainly l (lane_finish l)" "ends_plainly l (lane_reap l)"
  "ends_plainly l (lane_panic l)" "ends_plainly l (lane_abort l)"
  by (auto simp: ends_plainly_def lane_timeout_def lane_drain_def lane_return_def lane_exit_def lane_finish_def
      lane_reap_def lane_panic_def lane_abort_def dispatch_now_def drop_receiver_def
      split: consumer_phase.splits option.splits list.splits)

lemma plain_step_ok:
  assumes inv: "disp_inv cfg L T n S" and i: "i < length L" and step: "lane_step cfg (L ! i) l"
    and inner: "inner (L ! i) l" and plain: "ends_plainly (L ! i) l"
  shows "disp_inv cfg (L[i := l]) T n S"
proof (rule disp_inv_lane [OF inv inner _ i])
  note parts = inv [unfolded disp_inv_def]
  show "lane_ok cfg l" using lane_step_ok [OF step] parts i by (simp add: list_all_length)
  have "close_inv L T S" using parts by blast
  then have c: "ended_by (ln_phase (L ! i)) ByClose \<longrightarrow> no_sender i T S \<and> ln_queue (L ! i) = [] \<and> ln_lost (L ! i) = []"
      "ended_by (ln_phase (L ! i)) ByAbort \<longrightarrow> ln_aborted (L ! i)"
    using i unfolding close_inv_def by blast+
  show "no_sender i T S \<and> ln_queue l = [] \<and> ln_lost l = []" if "ended_by (ln_phase l) ByClose"
    using that c plain by (simp add: ends_plainly_def)
  show "ln_aborted l" if "ended_by (ln_phase l) ByAbort"
    using that c plain inner by (auto simp: ends_plainly_def inner_def)
qed

lemma receive_ok:
  assumes inv: "disp_ok cfg d" and i: "i < length (dp_lanes d)"
  shows "disp_ok cfg (change_lane i (lane_receive (senders_gone i d)) d)"
proof -
  let ?l = "lane_at i d" and ?r = "lane_receive (senders_gone i d) (lane_at i d)"
  note parts = inv [unfolded disp_inv_def]
  have ok: "lane_ok cfg ?l" using parts i by (simp add: list_all_length)
  have close: "close_inv (dp_lanes d) (dp_threads d) (dp_submits d)" using parts by blast
  have gone: "senders_gone i d \<longleftrightarrow> no_sender i (dp_threads d) (dp_submits d)" using parts senders_gone_iff by blast
  have "disp_inv cfg ((dp_lanes d)[i := ?r]) (dp_threads d) (dp_next_generation d) (dp_submits d)"
  proof (rule disp_inv_lane [OF inv _ _ i])
    show "lane_ok cfg ?r" by (rule lane_step_ok [OF receives ok])
    have "ended_by (ln_phase ?r) ByClose \<Longrightarrow> (?r = ?l) \<or> (senders_gone i d \<and> ln_queue ?r = [] \<and> ln_lost ?r = [])"
      using ok
      by (auto simp: lane_receive_def start_batch_def dispatch_now_def lane_ok_def
          split: consumer_phase.splits option.splits list.splits if_splits)
    then show "no_sender i (dp_threads d) (dp_submits d) \<and> ln_queue ?r = [] \<and> ln_lost ?r = []"
      if "ended_by (ln_phase ?r) ByClose"
      using that close i gone unfolding close_inv_def by metis
    have "ended_by (ln_phase ?r) ByAbort \<Longrightarrow> ?r = ?l"
      by (auto simp: lane_receive_def start_batch_def dispatch_now_def
          split: consumer_phase.splits option.splits list.splits if_splits)
    then show "ln_aborted ?r" if "ended_by (ln_phase ?r) ByAbort"
      using that close i unfolding close_inv_def by metis
  qed simp
  then show ?thesis by simp
qed

text \<open>Cancellation and shutdown abort, and take the handles away.\<close>

lemma cancel_one_ok:
  assumes "disp_ok cfg d"
  shows "disp_ok cfg (snd (cancel_one k (x, d)))"
proof (cases "bt_get (dp_threads d) k")
  case None
  then show ?thesis using assms by (simp add: cancel_one_def)
next
  case (Some h)
  let ?i = "th_lane h"
  have i: "?i < length (dp_lanes d)" using assms Some by (auto simp: disp_inv_def threads_inv_def)
  have "disp_inv cfg ((dp_lanes d)[?i := lane_abort (lane_at ?i d)]) (dp_threads d) (dp_next_generation d) (dp_submits d)"
    by (rule plain_step_ok [OF assms i aborts]) simp_all
  then have "disp_inv cfg ((dp_lanes d)[?i := lane_abort (lane_at ?i d)]) (bt_remove k (dp_threads d))
      (dp_next_generation d) (dp_submits d)"
    by (rule disp_inv_remove [OF _ Some]) (simp add: i alive_def lane_abort_def)
  then show ?thesis using Some by (simp add: cancel_one_def)
qed

lemma cancel_ok: "disp_ok cfg d \<Longrightarrow> disp_ok cfg (snd (cancel_buffered_thread platform thread_id d))"
proof -
  have "disp_ok cfg d \<Longrightarrow> disp_ok cfg (snd (fold cancel_one ks (x, d)))" for ks x d
  proof (induction ks arbitrary: x d)
    case (Cons k ks)
    obtain y e where "cancel_one k (x, d) = (y, e)" by force
    then show ?case using Cons cancel_one_ok [OF Cons.prems, of k x] by simp
  qed simp
  then show "disp_ok cfg d \<Longrightarrow> disp_ok cfg (snd (cancel_buffered_thread platform thread_id d))"
    by (simp add: cancel_buffered_thread_def)
qed

lemma sweep_ok:
  assumes "disp_ok cfg d"
  shows "disp_ok cfg (snd (sweep_stale d))"
proof -
  let ?L = "dp_lanes d" and ?T = "dp_threads d" and ?S = "dp_submits d"
  let ?P = "\<lambda>h. \<not> is_finished (ln_phase (?L ! th_lane h))"
  let ?F = "filter (\<lambda>e. ?P (snd e)) ?T"
  note parts = assms [unfolded disp_inv_def]
  have bt: "bt_inv ?T" using parts by (simp add: threads_inv_def)
  have get: "bt_get ?F k = Some h \<longleftrightarrow> bt_get ?T k = Some h \<and> ?P h" for k h
    using bt_get_filter [OF bt, of ?P k] by (auto split: option.splits if_splits)
  have "threads_inv ?L ?F" using parts by (auto simp: threads_inv_def bt_inv_filter get)
  moreover have "live_inv ?L ?F"
    using parts finished_not_alive by (fastforce simp: live_inv_def get)
  moreover have "close_inv ?L ?F ?S" using parts by (auto simp: close_inv_def no_sender_def get)
  ultimately have "disp_inv cfg ?L ?F (dp_next_generation d) ?S" using parts by (simp add: disp_inv_def)
  moreover have "filter (\<lambda>(_, h). ?P h) ?T = ?F" by (rule filter_cong) auto
  ultimately show ?thesis by (simp add: sweep_stale_def Let_def)
qed

lemma shutdown_fold:
  "disp_ok cfg d \<Longrightarrow> \<forall>(k, h)\<in>set hs. th_lane h < length (dp_lanes d) \<Longrightarrow>
     (let e = fold (\<lambda>(_, h). change_lane (th_lane h) lane_abort) hs d
      in disp_ok cfg e \<and> dp_threads e = dp_threads d \<and> length (dp_lanes e) = length (dp_lanes d)
         \<and> (\<forall>i < length (dp_lanes d).
              ln_aborted (lane_at i e) = (ln_aborted (lane_at i d) \<or> i \<in> (th_lane \<circ> snd) ` set hs)))"
proof (induction hs arbitrary: d)
  case (Cons x hs)
  obtain k h where x: "x = (k, h)" by force
  let ?d = "change_lane (th_lane h) lane_abort d"
  have i: "th_lane h < length (dp_lanes d)" using Cons.prems(2) x by auto
  have d: "disp_ok cfg ?d" using plain_step_ok [OF Cons.prems(1) i aborts] by simp
  have hs: "\<forall>(k, h)\<in>set hs. th_lane h < length (dp_lanes ?d)" using Cons.prems(2) by auto
  have "ln_aborted (lane_at j ?d) = (ln_aborted (lane_at j d) \<or> j = th_lane h)" if "j < length (dp_lanes d)" for j
    using that i by (cases "j = th_lane h") (simp_all add: lane_abort_def)
  then show ?case using Cons.IH [OF d hs] x by (auto simp: Let_def)
qed (simp add: Let_def)

lemma shutdown_ok:
  assumes "disp_ok cfg d"
  shows "disp_ok cfg (shutdown d)"
proof -
  let ?e = "fold (\<lambda>(_, h). change_lane (th_lane h) lane_abort) (dp_threads d) d"
  have t: "threads_inv (dp_lanes d) (dp_threads d)" using assms by (simp add: disp_inv_def)
  have hs: "\<forall>(k, h)\<in>set (dp_threads d). th_lane h < length (dp_lanes d)"
    using t bt_rows_get by (fastforce simp: threads_inv_def)
  note e = shutdown_fold [OF assms hs, unfolded Let_def]
  then have now: "disp_ok cfg ?e" by blast
  have dead: "\<not> alive (lane_at i ?e)" if i: "i < length (dp_lanes ?e)" for i
  proof
    assume a: "alive (lane_at i ?e)"
    let ?h = "\<lparr>th_lane = i, th_generation = ln_generation (lane_at i ?e)\<rparr>"
    have "bt_get (dp_threads ?e) (ln_key (lane_at i ?e)) = Some ?h"
      using now a i by (simp add: disp_inv_def live_inv_def)
    moreover have "dp_threads ?e = dp_threads d" using e by blast
    ultimately have "bt_get (dp_threads d) (ln_key (lane_at i ?e)) = Some ?h" by (simp only:)
    moreover have "bt_inv (dp_threads d)" using t by (simp add: threads_inv_def)
    ultimately have "(ln_key (lane_at i ?e), ?h) \<in> set (dp_threads d)" by (simp only: bt_rows_get)
    then have "i \<in> (th_lane \<circ> snd) ` set (dp_threads d)" by (rule rev_image_eqI) simp
    then have "ln_aborted (lane_at i ?e)" using e i by simp
    then show False using a by (simp add: alive_def)
  qed
  have "threads_inv (dp_lanes ?e) []" by (simp add: threads_inv_def)
  moreover have "live_inv (dp_lanes ?e) []" using dead by (simp add: live_inv_def)
  moreover have "close_inv (dp_lanes ?e) [] (dp_submits ?e)"
    using now by (auto simp: disp_inv_def close_inv_def no_sender_def)
  ultimately show ?thesis using now by (simp add: shutdown_def disp_inv_def)
qed

subsection \<open>Runs\<close>

lemma disp_do_ok:
  assumes "disp_ok cfg d"
  shows "disp_ok cfg (dispatch_do cfg d act)"
proof -
  have plain: "disp_ok cfg (on_lane i f d)"
    if "\<And>l. lane_step cfg l (f l)" "\<And>l. inner l (f l)" "\<And>l. ends_plainly l (f l)" for i f
    using plain_step_ok [OF assms, of i "f (lane_at i d)"] that assms by (simp add: on_lane_def)
  have receive: "disp_ok cfg (on_lane i (lane_receive (senders_gone i d)) d)" for i
    using receive_ok [OF assms] assms by (simp add: on_lane_def)
  have forget: "disp_ok cfg (submit_forget c d)" if "c < length (dp_submits d)" "sb_phase (dp_submits d ! c) = Sending r i g" for c r i g
    using submit_moves_ok [OF assms that(1), of "(dp_submits d ! c)\<lparr>sb_phase := Forgotten, sb_clones := []\<rparr>"] that(2)
    by (simp add: submit_forget_def)
  show ?thesis
    using assms submit_start_ok submit_next_ok receive forget cancel_ok sweep_ok shutdown_ok
      plain [OF times_out inner_loop(2) ends_plainly_loop(1)] plain [OF drains inner_loop(3) ends_plainly_loop(2)]
      plain [OF returns inner_loop(4) ends_plainly_loop(3)] plain [OF exits inner_loop(5) ends_plainly_loop(4)]
      plain [OF finishes inner_loop(6) ends_plainly_loop(5)] plain [OF reaps inner_loop(7) ends_plainly_loop(6)]
      plain [OF panics inner_loop(8) ends_plainly_loop(7)]
    by (cases act) (auto simp: dispatch_do_def split: submit_phase.splits)
qed

interpretation dispatch: preserved "\<lambda>d e. \<exists>act. e = dispatch_do cfg d act" "disp_ok cfg" for cfg
  by unfold_locales (auto simp: disp_do_ok)

lemma dispatch_run_steps: "(\<lambda>d e. \<exists>act. e = dispatch_do cfg d act)\<^sup>*\<^sup>* d (foldl (dispatch_do cfg) d acts)"
  by (induction acts arbitrary: d) (auto intro: converse_rtranclp_into_rtranclp)

lemma disp_run_ok: "disp_ok cfg (dispatch_run cfg acts)"
proof -
  have "disp_ok cfg empty_dispatcher"
    by (simp add: empty_dispatcher_def disp_inv_def threads_inv_def gens_inv_def live_inv_def sent_inv_def close_inv_def)
  then show ?thesis
    unfolding dispatch_run_def by (rule dispatch.run_inv [OF dispatch_run_steps])
qed

end
