(* ===== verification/Dispatch_Properties.thy ===== *)
theory Dispatch_Properties
  imports Dispatch_Facts
begin

section \<open>Properties of the dispatcher\<close>

text \<open>
  What a run of the dispatcher does with the messages submitted to it, for any interleaving of
  submissions, consumers, cancellations and sweeps, and what its consumers do when they are left alone.
\<close>

subsection \<open>Every lane of a run moves by its own steps\<close>

definition lanes_move :: "dispatch_config \<Rightarrow> dispatcher \<Rightarrow> dispatcher \<Rightarrow> bool" where
  "lanes_move cfg d e \<longleftrightarrow> length (dp_lanes d) \<le> length (dp_lanes e)
     \<and> (\<forall>i < length (dp_lanes d). (lane_step cfg)\<^sup>*\<^sup>* (lane_at i d) (lane_at i e))"

lemma lanes_move_refl [simp]: "lanes_move cfg d d"
  by (simp add: lanes_move_def)

lemma lanes_move_same [simp]: "dp_lanes e = dp_lanes d \<Longrightarrow> lanes_move cfg d e"
  by (simp add: lanes_move_def)

lemma lanes_move_trans: "lanes_move cfg d e \<Longrightarrow> lanes_move cfg e f \<Longrightarrow> lanes_move cfg d f"
  unfolding lanes_move_def by (meson le_trans less_le_trans rtranclp_trans)

lemma lanes_move_one: "lane_step cfg (lane_at i d) l \<Longrightarrow> dp_lanes e = (dp_lanes d)[i := l] \<Longrightarrow> lanes_move cfg d e"
proof -
  assume step: "lane_step cfg (lane_at i d) l" and e: "dp_lanes e = (dp_lanes d)[i := l]"
  have "(lane_step cfg)\<^sup>*\<^sup>* (lane_at j d) (lane_at j e)" if "j < length (dp_lanes d)" for j
    using step e that by (cases "j = i") auto
  then show ?thesis using e by (simp add: lanes_move_def)
qed

lemma lanes_move_new: "dp_lanes e = dp_lanes d @ [l] \<Longrightarrow> lanes_move cfg d e"
  by (auto simp: lanes_move_def nth_append)

lemma lanes_move_or_insert: "lanes_move cfg d (snd (or_insert k g d))"
  by (auto simp: or_insert_def Let_def lanes_move_new split: option.split)

lemma dp_lanes_drop_finished [simp]: "dp_lanes (drop_finished k d) = dp_lanes d"
  by (simp add: drop_finished_def split: option.split)

lemma lanes_move_submit: "lanes_move cfg d (submit_next cfg c d)"
proof (cases "sb_phase (dp_submits d ! c)")
  case (Locking r g)
  let ?d = "if r then d else drop_finished (sb_key (dp_submits d ! c)) d"
  have "lanes_move cfg d ?d" by simp
  moreover have "lanes_move cfg ?d (snd (or_insert (sb_key (dp_submits d ! c)) g ?d))" by (rule lanes_move_or_insert)
  moreover have "dp_lanes (submit_next cfg c d) = dp_lanes (snd (or_insert (sb_key (dp_submits d ! c)) g ?d))"
    using Locking by (simp add: submit_next_def submit_lock_def Let_def case_prod_beta)
  ultimately show ?thesis by (meson lanes_move_same lanes_move_trans)
next
  case (Sending r i g)
  let ?m = "(c, sb_message (dp_submits d ! c))"
  obtain res l where send: "lane_send cfg ?m (lane_at i d) = (res, l)" by force
  then have "lane_step cfg (lane_at i d) l" using sends [of cfg "lane_at i d" ?m] by simp
  then show ?thesis
    using Sending send by (cases res) (auto simp: submit_next_def submit_send_def intro!: lanes_move_one)
next
  case (Evicting r g)
  then show ?thesis by (intro lanes_move_same) (simp add: submit_next_def submit_evict_def case_prod_beta)
qed (simp_all add: submit_next_def submit_refetch_def)

lemma lanes_move_fold:
  assumes "\<And>x d. lanes_move cfg d (f x d)"
  shows "lanes_move cfg d (fold f xs d)"
  by (induction xs arbitrary: d) (auto intro: lanes_move_trans assms)

lemma lanes_move_cancel: "lanes_move cfg d (snd (cancel_buffered_thread platform thread_id d))"
proof -
  have one: "lanes_move cfg (snd x) (snd (cancel_one k x))" for k x
    by (auto simp: cancel_one_def case_prod_beta split: option.split intro: lanes_move_one [OF aborts])
  have "lanes_move cfg (snd x) (snd (fold cancel_one ks x))" for ks x
  proof (induction ks arbitrary: x)
    case (Cons k ks)
    show ?case using lanes_move_trans [OF one Cons.IH [of "cancel_one k x"]] by simp
  qed simp
  then show ?thesis unfolding cancel_buffered_thread_def by (metis snd_conv)
qed

lemma lanes_move_shutdown: "lanes_move cfg d (shutdown d)"
proof -
  have "lanes_move cfg d (fold (\<lambda>(_, h). change_lane (th_lane h) lane_abort) (dp_threads d) d)"
    by (rule lanes_move_fold) (auto intro: lanes_move_one [OF aborts])
  then show ?thesis unfolding shutdown_def lanes_move_def by simp
qed

lemma lanes_move_on_lane:
  assumes "lane_step cfg (lane_at i d) (f (lane_at i d))"
  shows "lanes_move cfg d (on_lane i f d)"
  using assms by (auto simp: on_lane_def intro: lanes_move_one)

lemma lanes_move_do: "lanes_move cfg d (dispatch_do cfg d act)"
  using lanes_move_submit lanes_move_cancel lanes_move_shutdown
  by (cases act)
     (auto simp: dispatch_do_def submit_start_def submit_forget_def sweep_stale_def Let_def
       split: submit_phase.split intro: lanes_move_on_lane lane_step.intros)

interpretation dispatch_lanes: preserved "\<lambda>d e. \<exists>act. e = dispatch_do cfg d act" "lanes_move cfg d0" for cfg d0
  by unfold_locales (auto intro: lanes_move_trans lanes_move_do)

lemma lanes_move_run: "lanes_move cfg d (foldl (dispatch_do cfg) d acts)"
  by (rule dispatch_lanes.run_inv [OF dispatch_run_steps]) simp

subsection \<open>A consumer that has left\<close>

fun has_left :: "consumer_phase \<Rightarrow> bool" where
  "has_left (Leaving _) = True"
| "has_left (Dropped _) = True"
| "has_left (Finished _) = True"
| "has_left _ = False"

text \<open>It never dispatches again; what was sent to it stays sent to it.\<close>

lemma lane_step_left:
  "lane_step cfg l l' \<Longrightarrow> has_left (ln_phase l) \<Longrightarrow> has_left (ln_phase l') \<and> ln_batches l' = ln_batches l"
  by (induction rule: lane_step.cases; cases "ln_phase l")
     (auto simp: lane_send_def lane_receive_def lane_timeout_def lane_drain_def lane_return_def lane_exit_def lane_finish_def
       lane_reap_def lane_panic_def lane_abort_def drop_receiver_def)

lemma lane_step_sent: "lane_step cfg l l' \<Longrightarrow> \<exists>ms. ln_sent l' = ln_sent l @ ms"
proof (induction rule: lane_step.cases)
  case (receives l gone)
  then show ?case using inner_loop(1) [of l gone] by (simp add: inner_def)
qed (use inner_loop in \<open>auto simp: inner_def lane_send_def\<close>)

interpretation left: preserved "lane_step cfg" "\<lambda>l. has_left (ln_phase l) \<and> ln_batches l = bs" for cfg bs
  by unfold_locales (use lane_step_left in blast)

interpretation sent: preserved "lane_step cfg" "\<lambda>l. \<exists>ms. ln_sent l = ms0 @ ms" for cfg ms0
  by unfold_locales (use lane_step_sent in fastforce)

text \<open>What a lane dispatched, it was sent.\<close>

lemma batch_sent: "lane_ok cfg l \<Longrightarrow> b \<in> set (ln_batches l) \<Longrightarrow> m \<in> set b \<Longrightarrow> m \<in> set (ln_sent l)"
  by (auto simp: lane_ok_def)

lemma sent_once:
  assumes "distinct (map fst (concat (map ln_sent L)))" and "i < length L" and "j < length L" and "i \<noteq> j"
    and "m \<in> set (ln_sent (L ! i))" and "m' \<in> set (ln_sent (L ! j))"
  shows "fst m \<noteq> fst m'"
proof -
  have *: "fst m \<noteq> fst m'" if d: "distinct (map fst (concat (map ln_sent L)))" and ij: "i < j" "j < length L"
    and m: "m \<in> set (ln_sent (L ! i))" "m' \<in> set (ln_sent (L ! j))" for i j and m m' :: parcel
  proof -
    have "L = take j L @ drop j L" by simp
    then have "distinct (map fst (concat (map ln_sent (take j L))) @ map fst (concat (map ln_sent (drop j L))))"
      using d by (metis concat_append map_append)
    moreover have "L ! i \<in> set (take j L)" using ij by (auto simp: in_set_conv_nth intro!: exI [of _ i])
    moreover have "L ! j \<in> set (drop j L)" using ij by (auto simp: in_set_conv_nth intro!: exI [of _ 0])
    ultimately show ?thesis using m by force
  qed
  show ?thesis using *[of i j m m'] *[of j i m' m] assms by (metis nat_neq_iff)
qed

subsection \<open>A consumer left alone\<close>



definition lane_round :: "dispatch_config \<Rightarrow> bool \<Rightarrow> lane \<Rightarrow> lane" where
  "lane_round cfg gone l = lane_receive gone (lane_return (lane_drain cfg l))"


lemma senders_gone_lane [simp]: "senders_gone i (d\<lparr>dp_lanes := ls\<rparr>) = senders_gone i d"
  by (simp add: senders_gone_def)




lemma receive_idle: "(\<And>p. ln_phase l \<noteq> AtHead p) \<Longrightarrow> lane_receive gone l = l"
  by (cases "ln_phase l") (auto simp: lane_receive_def)





lemma lane_round_sent [simp]: "ln_sent (lane_round cfg gone l) = ln_sent l"
  unfolding lane_round_def using inner_loop inner_def by simp




lemma dispatched_distinct:
  "distinct (map fst (concat (map ln_sent L))) \<Longrightarrow> list_all (lane_ok cfg) L \<Longrightarrow>
     distinct (map fst (concat (map (concat \<circ> ln_batches) L)))"
proof (induction L)
  case (Cons l L)
  have l: "lane_ok cfg l" and L: "list_all (lane_ok cfg) L" using Cons.prems(2) by simp_all
  have "set (concat (ln_batches l)) \<subseteq> set (ln_sent l)" using batch_sent [OF l] by auto
  moreover have "set (concat (map (concat \<circ> ln_batches) L)) \<subseteq> set (concat (map ln_sent L))"
    using L batch_sent by (fastforce simp: list_all_iff)
  moreover have "distinct (map fst (concat (ln_batches l)))"
    using l Cons.prems(1) by (auto simp: lane_ok_def)
  moreover have "distinct (map fst (concat (map (concat \<circ> ln_batches) L)))" using Cons.IH Cons.prems(1) L by (simp add: comp_def)
  moreover have "fst ` set (ln_sent l) \<inter> fst ` set (concat (map ln_sent L)) = {}" using Cons.prems(1) by auto
  ultimately have "fst ` set (concat (ln_batches l)) \<inter> fst ` set (concat (map (concat \<circ> ln_batches) L)) = {}"
    by (meson disjoint_iff image_mono subsetD)
  then show ?case using \<open>distinct (map fst (concat (ln_batches l)))\<close>
      \<open>distinct (map fst (concat (map (concat \<circ> ln_batches) L)))\<close> by (simp add: comp_def)
qed simp

lemma sending_lane:
  assumes "disp_ok cfg d" and "c < length (dp_submits d)" and "sb_phase (dp_submits d ! c) = Sending r i g"
  shows "i < length (dp_lanes d)" and "i \<in> set (sb_clones (dp_submits d ! c))" and "lane_ok cfg (lane_at i d)"
    and "c \<notin> fst ` set (ln_sent (lane_at i d))"
proof -
  have "submit_ok (dp_lanes d) (dp_submits d ! c)"
    using assms(1,2) by (simp add: disp_inv_def list_all_length del: submit_ok.simps)
  then show i: "i < length (dp_lanes d)" and "i \<in> set (sb_clones (dp_submits d ! c))" using assms(3) by simp_all
  show "lane_ok cfg (lane_at i d)" using assms(1) i by (simp add: disp_inv_def list_all_length)
  have "sent_inv (dp_lanes d) (dp_submits d)" using assms(1) by (simp add: disp_inv_def)
  then show "c \<notin> fst ` set (ln_sent (lane_at i d))" using nth_mem [OF i] assms(3) by (fastforce simp: sent_inv_def)
qed

subsection \<open>Examples\<close>

text \<open>The examples: messages of one thread, at most two in the channel, at most ten tokens in a batch.\<close>

definition d_metadata :: native_metadata where
  "d_metadata =
     \<lparr>nm_dispatch_id = ''d1'', nm_conversation_key = ''k'', nm_workflow_run_id = ''w'', nm_task_id = ''t'',
      nm_role = ''PRIMARY'', nm_agent = ''a'', nm_lease_id = ''l'', nm_lease_generation = 1, nm_expected_revision = 1,
      nm_language = None, nm_project_id = None, nm_project_root = None, nm_native_execution_session_key = None,
      nm_transport = None, nm_delivery_destination = None, nm_scope_policy = None\<rparr>"

definition d_message :: "nat \<Rightarrow> native_metadata option \<Rightarrow> buffered_message" where
  "d_message n w =
     \<lparr>bm_sender_json = ''{}'', bm_sender_name = ''u'', bm_prompt = ''hello'', bm_extra_blocks = [],
      bm_trigger_msg = \<lparr>mr_channel = \<lparr>cr_platform = ''slack'', cr_channel_id = ''c'', cr_thread_id = None, cr_parent_id = None,
        cr_origin_event_id = None\<rparr>, mr_message_id = ''m''\<rparr>,
      bm_arrived_at = 0, bm_estimated_tokens = n, bm_other_bot_present = False, bm_recipient = None,
      bm_native_workflow = w, bm_text_attachments = [], bm_sender_is_bot = False\<rparr>"

definition d_config :: dispatch_config where
  "d_config = \<lparr>dc_max_buffered = 2, dc_max_tokens = 10, dc_grouping = ThreadGrouping\<rparr>"

text \<open>Two messages are dispatched together, the native one after them alone.\<close>

definition d_run :: "dispatch_action list" where
  "d_run =
     [SubmitStart ''slack:c'' (d_message 3 None), SubmitStart ''slack:c'' (d_message 4 None),
      SubmitStart ''slack:c'' (d_message 1 (Some d_metadata)), SubmitNext 0, SubmitNext 0, SubmitNext 1, SubmitNext 1,
      Receive 0, Drain 0, SubmitNext 2, SubmitNext 2, Drain 0, BatchDone 0, Receive 0]"

lemma d_run_state:
  "length (dp_lanes (dispatch_run d_config d_run)) = 1 \<and> length (dp_submits (dispatch_run d_config d_run)) = 3
     \<and> map (map fst) (ln_batches (lane_at 0 (dispatch_run d_config d_run))) = [[0, 1], [2]]
     \<and> \<not> rx_dropped (ln_phase (lane_at 0 (dispatch_run d_config d_run)))
     \<and> \<not> ln_aborted (lane_at 0 (dispatch_run d_config d_run))"
  by code_simp

text \<open>The idle time-out fires between the lock of a submission and its send.\<close>

definition d_late :: "dispatch_action list" where
  "d_late = [SubmitStart ''slack:c'' (d_message 3 None), SubmitNext 0, IdleTimeout 0]"

lemma d_late_state:
  "length (dp_submits (dispatch_run d_config d_late)) = 1
     \<and> sb_phase (dp_submits (dispatch_run d_config d_late) ! 0) = Sending False 0 0
     \<and> ln_phase (lane_at 0 (dispatch_run d_config d_late)) = Leaving ByTimeout
     \<and> length (ln_queue (lane_at 0 (dispatch_run d_config d_late))) < dc_max_buffered d_config"
  by code_simp

definition d_lost :: "dispatch_action list" where
  "d_lost = d_late @ [SubmitNext 0, ExitLoop 0]"

lemma d_lost_state:
  "length (dp_lanes (dispatch_run d_config d_lost)) = 1 \<and> ln_lost (lane_at 0 (dispatch_run d_config d_lost)) \<noteq> []"
  by code_simp



subsection \<open>The properties\<close>

text \<open>C10: First in, first out: in every run, each consumer's messages are, in the order in which they
  were sent, those of its batches, then those it gathers, the parked one, the queue and what was
  lost; a batch is one message, or at most \<open>max_buffered\<close> of them within the token limit and none native.\<close>

theorem lane_is_fifo:
  assumes "l \<in> set (dp_lanes (dispatch_run cfg acts))"
  shows "ln_sent l = concat (ln_batches l) @ gathering (ln_phase l) @ pending_of (ln_phase l) @ ln_queue l @ ln_lost l
    \<and> (\<forall>b\<in>set (ln_batches l). b \<noteq> [] \<and> (length b = 1 \<or>
          (length b \<le> dc_max_buffered cfg \<and> sum_list (map tokens_of b) \<le> dc_max_tokens cfg \<and> (\<forall>m\<in>set b. \<not> is_native m))))
    \<and> length (ln_queue l) \<le> dc_max_buffered cfg"
proof -
  have "lane_ok cfg l" using assms disp_run_ok [of cfg acts] by (simp add: disp_inv_def list_all_iff)
  then show ?thesis by (auto simp: lane_ok_def batch_ok_def list_all_iff)
qed

theorem lane_is_fifo_witness:
  "map fst (ln_sent (lane_at 0 (dispatch_run d_config d_run))) =
     [0, 1, 2] @ map fst (gathering (ln_phase (lane_at 0 (dispatch_run d_config d_run)))
       @ pending_of (ln_phase (lane_at 0 (dispatch_run d_config d_run))) @ ln_queue (lane_at 0 (dispatch_run d_config d_run))
       @ ln_lost (lane_at 0 (dispatch_run d_config d_run)))"
proof -
  have "lane_at 0 (dispatch_run d_config d_run) \<in> set (dp_lanes (dispatch_run d_config d_run))"
    using d_run_state by (simp add: nth_mem)
  from lane_is_fifo [OF this] show ?thesis using d_run_state by (simp add: map_concat)
qed

text \<open>C5: A submission has returned success exactly when its message was sent, under its key, to one
  of the consumers; and no message is dispatched twice, by one consumer or by two.\<close>

theorem message_dispatched_once:
  assumes "e = dispatch_run cfg acts" and "c < length (dp_submits e)"
  shows "(sb_phase (dp_submits e ! c) = Returned True \<longleftrightarrow>
           (\<exists>l\<in>set (dp_lanes e). ln_key l = sb_key (dp_submits e ! c) \<and> (c, sb_message (dp_submits e ! c)) \<in> set (ln_sent l)))
    \<and> distinct (map fst (concat (map ln_sent (dp_lanes e))))
    \<and> distinct (map fst (concat (map (concat \<circ> ln_batches) (dp_lanes e))))"
proof (intro conjI)
  have ok: "sent_inv (dp_lanes e) (dp_submits e)" "list_all (lane_ok cfg) (dp_lanes e)"
    using disp_run_ok [of cfg acts] by (simp_all add: assms(1) disp_inv_def)
  then show "distinct (map fst (concat (map ln_sent (dp_lanes e))))" by (simp add: sent_inv_def)
  then show "distinct (map fst (concat (map (concat \<circ> ln_batches) (dp_lanes e))))" using ok(2) by (rule dispatched_distinct)
  show "sb_phase (dp_submits e ! c) = Returned True \<longleftrightarrow>
      (\<exists>l\<in>set (dp_lanes e). ln_key l = sb_key (dp_submits e ! c) \<and> (c, sb_message (dp_submits e ! c)) \<in> set (ln_sent l))"
    (is "?ret \<longleftrightarrow> ?sent")
  proof
    assume ?ret
    then have "c \<in> fst ` set (concat (map ln_sent (dp_lanes e)))" using ok(1) assms(2) by (simp add: sent_inv_def)
    then obtain l m where lm: "l \<in> set (dp_lanes e)" "m \<in> set (ln_sent l)" "fst m = c" by auto
    then have "snd m = sb_message (dp_submits e ! c)" "ln_key l = sb_key (dp_submits e ! c)"
      using ok(1) unfolding sent_inv_def by blast+
    then show ?sent using lm by (metis prod.collapse)
  next
    assume ?sent
    then show ?ret using ok(1) by (fastforce simp: sent_inv_def)
  qed
qed

theorem message_dispatched_once_witness:
  "(sb_phase (dp_submits (dispatch_run d_config d_run) ! 2) = Returned True \<longleftrightarrow>
      (\<exists>l\<in>set (dp_lanes (dispatch_run d_config d_run)). ln_key l = sb_key (dp_submits (dispatch_run d_config d_run) ! 2)
         \<and> (2, sb_message (dp_submits (dispatch_run d_config d_run) ! 2)) \<in> set (ln_sent l)))
   \<and> distinct (map fst (concat (map (concat \<circ> ln_batches) (dp_lanes (dispatch_run d_config d_run)))))"
  using message_dispatched_once [OF refl, of 2 d_config d_run] d_run_state by simp

text \<open>C13: At any time at most one consumer of a key still receives without being aborted, and it is
  the one whose handle the map holds: neither the eviction after a failed send nor the sweep ever
  cuts off a consumer that still runs.\<close>

theorem one_consumer_per_key:
  assumes "e = dispatch_run cfg acts"
    and "i < length (dp_lanes e)" and "\<not> rx_dropped (ln_phase (lane_at i e))" and "\<not> ln_aborted (lane_at i e)"
  shows "bt_get (dp_threads e) (ln_key (lane_at i e)) = Some \<lparr>th_lane = i, th_generation = ln_generation (lane_at i e)\<rparr>
    \<and> (\<forall>j < length (dp_lanes e). ln_key (lane_at j e) = ln_key (lane_at i e) \<longrightarrow> j \<noteq> i \<longrightarrow>
           rx_dropped (ln_phase (lane_at j e)) \<or> ln_aborted (lane_at j e))"
proof -
  have "live_inv (dp_lanes e) (dp_threads e)" using disp_run_ok [of cfg acts] by (simp add: assms(1) disp_inv_def)
  then have here: "bt_get (dp_threads e) (ln_key (lane_at j e)) = Some \<lparr>th_lane = j, th_generation = ln_generation (lane_at j e)\<rparr>"
    if "j < length (dp_lanes e)" "\<not> rx_dropped (ln_phase (lane_at j e))" "\<not> ln_aborted (lane_at j e)" for j
    using that by (simp add: live_inv_def alive_def)
  have "j = i" if "j < length (dp_lanes e)" "ln_key (lane_at j e) = ln_key (lane_at i e)"
    "\<not> rx_dropped (ln_phase (lane_at j e))" "\<not> ln_aborted (lane_at j e)" for j
    using here [of i] here [of j] assms(2-4) that by simp
  then show ?thesis using here assms(2-4) by blast
qed

theorem one_consumer_per_key_witness:
  "bt_get (dp_threads (dispatch_run d_config d_run)) (ln_key (lane_at 0 (dispatch_run d_config d_run))) =
     Some \<lparr>th_lane = 0, th_generation = ln_generation (lane_at 0 (dispatch_run d_config d_run))\<rparr>"
  using one_consumer_per_key [OF refl, of 0 d_config d_run] d_run_state by simp

text \<open>C24: Messages are lost only with a consumer that was aborted, that panicked, or that left because
  it was idle: one that leaves because all senders are gone has dispatched everything.\<close>

theorem lost_only_by_ending:
  assumes "l \<in> set (dp_lanes (dispatch_run cfg acts))" and "ln_lost l \<noteq> []"
  shows "(\<exists>x. ln_phase l = Dropped x \<or> ln_phase l = Finished x)
    \<and> (ended_by (ln_phase l) ByTimeout \<or> ended_by (ln_phase l) ByPanic \<or> (ended_by (ln_phase l) ByAbort \<and> ln_aborted l))"
proof -
  obtain i where i: "i < length (dp_lanes (dispatch_run cfg acts))" "l = lane_at i (dispatch_run cfg acts)"
    using assms(1) by (auto simp: in_set_conv_nth)
  have inv: "list_all (lane_ok cfg) (dp_lanes (dispatch_run cfg acts))"
      "close_inv (dp_lanes (dispatch_run cfg acts)) (dp_threads (dispatch_run cfg acts)) (dp_submits (dispatch_run cfg acts))"
    using disp_run_ok [of cfg acts] by (simp_all add: disp_inv_def)
  have "lane_ok cfg l" using inv(1) assms(1) by (simp add: list_all_iff)
  then have "rx_dropped (ln_phase l)" using assms(2) by (auto simp: lane_ok_def split: if_splits)
  then obtain x where x: "ln_phase l = Dropped x \<or> ln_phase l = Finished x" by (cases "ln_phase l") auto
  have "\<not> ended_by (ln_phase l) ByClose" "ended_by (ln_phase l) ByAbort \<longrightarrow> ln_aborted l"
    using inv(2) i assms(2) unfolding close_inv_def by blast+
  then show ?thesis using x by (cases x) auto
qed

theorem lost_only_by_ending_witness:
  "\<exists>x. ln_phase (lane_at 0 (dispatch_run d_config d_lost)) = Dropped x
     \<or> ln_phase (lane_at 0 (dispatch_run d_config d_lost)) = Finished x"
proof -
  have "lane_at 0 (dispatch_run d_config d_lost) \<in> set (dp_lanes (dispatch_run d_config d_lost))"
    using d_lost_state by (simp add: nth_mem)
  from lost_only_by_ending [OF this] show ?thesis using d_lost_state by blast
qed

text \<open>C22: A send that reaches a consumer between its idle time-out and the drop of its receiver succeeds
  and its message is never dispatched: the submission returns success, and no continuation of the
  run has the message in a batch.\<close>

theorem late_send_is_lost:
  assumes "d = dispatch_run cfg acts" and "c < length (dp_submits d)"
    and "sb_phase (dp_submits d ! c) = Sending r i g" and "ln_phase (lane_at i d) = Leaving ByTimeout"
    and "length (ln_queue (lane_at i d)) < dc_max_buffered cfg"
  shows "sb_phase (dp_submits (dispatch_do cfg d (SubmitNext c)) ! c) = Returned True
    \<and> c \<notin> fst ` set (concat (map (concat \<circ> ln_batches) (dp_lanes (dispatch_run cfg (acts @ SubmitNext c # acts')))))"
proof (intro conjI notI)
  let ?e = "dispatch_do cfg d (SubmitNext c)" and ?f = "dispatch_run cfg (acts @ SubmitNext c # acts')"
  let ?m = "(c, sb_message (dp_submits d ! c))"
  note lane = sending_lane [OF disp_run_ok [of cfg acts, folded assms(1)] assms(2,3)]
  note i = lane(1) and ok = lane(3) and unsent = lane(4)
  have e: "?e = change_submit c (\<lambda>s. s\<lparr>sb_phase := Returned True, sb_clones := []\<rparr>)
      (change_lane i (\<lambda>l. l\<lparr>ln_queue := ln_queue l @ [?m], ln_sent := ln_sent l @ [?m]\<rparr>) d)"
    using assms(2-5) by (simp add: dispatch_do_def submit_next_def submit_send_def lane_send_def)
  then show "sb_phase (dp_submits ?e ! c) = Returned True" using assms(2) by simp
  have f: "?f = foldl (dispatch_do cfg) ?e acts'" by (simp add: dispatch_run_def assms(1))
  have "lanes_move cfg ?e ?f" unfolding f by (rule lanes_move_run)
  then have move: "(lane_step cfg)\<^sup>*\<^sup>* (lane_at i ?e) (lane_at i ?f)" and len: "i < length (dp_lanes ?f)"
    using i e by (auto simp: lanes_move_def)
  have "ln_batches (lane_at i ?f) = ln_batches (lane_at i d)"
    using left.run_inv [OF move, of "ln_batches (lane_at i d)"] e i assms(4) by simp
  moreover have "\<exists>ms. ln_sent (lane_at i ?f) = (ln_sent (lane_at i d) @ [?m]) @ ms"
    using sent.run_inv [OF move, of "ln_sent (lane_at i d) @ [?m]"] e i by simp
  ultimately have here: "?m \<in> set (ln_sent (lane_at i ?f))"
      and none: "\<forall>b\<in>set (ln_batches (lane_at i ?f)). c \<notin> fst ` set b"
    using unsent batch_sent [OF ok] by auto
  assume "c \<in> fst ` set (concat (map (concat \<circ> ln_batches) (dp_lanes ?f)))"
  then obtain l b m where l: "l \<in> set (dp_lanes ?f)" and b: "b \<in> set (ln_batches l)" and m: "m \<in> set b" "fst m = c"
    by auto
  obtain j where j: "j < length (dp_lanes ?f)" "l = lane_at j ?f" using l by (auto simp: in_set_conv_nth)
  have okf: "list_all (lane_ok cfg) (dp_lanes ?f)" "distinct (map fst (concat (map ln_sent (dp_lanes ?f))))"
    using disp_run_ok [of cfg "acts @ SubmitNext c # acts'"] by (simp_all add: disp_inv_def sent_inv_def)
  have "lane_ok cfg l" using okf(1) l by (simp add: list_all_iff)
  then have "m \<in> set (ln_sent l)" using b m(1) by (rule batch_sent)
  then have "j = i" using sent_once [OF okf(2) len j(1), of ?m m] here j m(2) by auto
  then show False using none b j m by force
qed

theorem late_send_is_lost_witness:
  "sb_phase (dp_submits (dispatch_do d_config (dispatch_run d_config d_late) (SubmitNext 0)) ! 0) = Returned True
   \<and> 0 \<notin> fst ` set (concat (map (concat \<circ> ln_batches)
       (dp_lanes (dispatch_run d_config (d_late @ SubmitNext 0 # [ExitLoop 0, FinishTask 0, SweepStale])))))"
  using late_send_is_lost [OF refl, of 0 d_config d_late False 0 0 "[ExitLoop 0, FinishTask 0, SweepStale]"] d_late_state by simp



end
