(* ===== verification/Spec2Isabelle.thy ===== *)
theory Spec2Isabelle
  imports Workflow_Properties Workflow_Store_Properties Workflow_Decision_Properties
    Cp_Run_Properties Cp_Operation_Properties Cp_Bound_Properties Delivery_Properties Guard_Properties Native_Properties Work_Properties Dispatch_Properties
begin

text \<open>
  This development verifies the parts of OpenAB (a Rust broker between chat platforms and coding
  agents) that decide something for themselves: the trusted workflow controller of
  \<^verbatim>\<open>crates/openab-core/src/workflow\<close>, which moves a project through its stages on the
  word of untrusted agents, the agent control plane of \<^verbatim>\<open>crates/openab-cp\<close>, which
  routes delegations between connected agents, the durable delivery of final answers of
  \<^verbatim>\<open>crates/openab-core/src/terminal_delivery*.rs\<close>, the acceptance and the durable completion of
  native work, and the guards in front of an agent. Each is modelled as it is written, one definition
  per function, and the properties are stated over these definitions.

  \<^bold>\<open>The workflow controller.\<close> An agent ends its turn with a text. The service
  (\<^verbatim>\<open>service.rs\<close>, theory \<open>Workflow_Service\<close>) loads the assignment of the project
  (\<^verbatim>\<open>assignment.rs\<close>, \<open>Workflow_Assignment\<close>), asks who this daemon is
  (\<^verbatim>\<open>identity.rs\<close>, \<open>Workflow_Identity\<close>), parses the claim block of the text
  (\<^verbatim>\<open>completion.rs\<close>, \<open>Workflow_Completion\<close>), lets the validator decide
  (\<^verbatim>\<open>validator.rs\<close>, \<open>Workflow_Validator\<close>, over the stages and the transition
  table of \<^verbatim>\<open>state.rs\<close> and \<^verbatim>\<open>transition_id.rs\<close>, \<open>Workflow_State\<close>)
  and runs the commit protocol: reserve a row in the ledger (\<^verbatim>\<open>ledger.rs\<close>,
  \<open>Workflow_Ledger\<close>), mark it pending, send the activation of the next agent
  (\<^verbatim>\<open>handoff.rs\<close>, \<open>Workflow_Handoff\<close>), save the assignment, mark the row
  delivered. After a crash
  \<^verbatim>\<open>recovery.rs\<close> (\<open>Workflow_Recovery\<close>) classifies every row. The role gate and the
  context snapshot that go in front of a turn are \<^verbatim>\<open>context.rs\<close>
  (\<open>Workflow_Context\<close>). All of them act on a \<open>world\<close> (theory \<open>Host\<close>): files,
  directories, clock, outbox, and a schedule of I/O results, so that every call on the host may
  fail at any point; \<^verbatim>\<open>Host.write_atomic\<close> is the write of a temporary sibling and the
  rename over the target.

  The facts about it: \<open>Workflow_Turns\<close> follows a turn along
  the commit protocol and shows the only message it can send and the only content it can leave in
  the assignment file; \<open>Workflow_Progress\<close> is the other half, a turn on a host where nothing
  fails; \<open>Workflow_Recovery_Facts\<close> gives every row of the ledger its verdict.
  The properties are in
  \<open>Workflow_Properties\<close> (the abstract machine, its refinement by the service, the bound on
  the number of accepted turns, recovery), \<open>Workflow_Store_Properties\<close> (crash safety and
  round trips of the two files, the ledger as a state machine) and \<open>Workflow_Decision_Properties\<close> (validator, parser, gate);
  their witnesses run the model on the project of \<open>Workflow_Example\<close>.

  \<^bold>\<open>The control plane.\<close> An agent connects over a socket, registers an instance and then
  delegates work to other instances of its namespace. \<open>Cp_Proto\<close> has the frames and error codes
  (\<^verbatim>\<open>proto.rs\<close>), \<open>Cp_Config\<close> the configuration and its checks
  (\<^verbatim>\<open>config.rs\<close>), \<open>Cp_Policy\<close> the checks on one delegation
  (\<^verbatim>\<open>policy.rs\<close>), \<open>Cp_Registry\<close> the instances and their bounded outbound queues
  (\<^verbatim>\<open>registry.rs\<close>), \<open>Cp_Router\<close> admission, completion, cancellation and expiry of
  delegations (\<^verbatim>\<open>router.rs\<close>), \<open>Cp_Server\<close> the connection quota, the handshake, the
  dispatch of frames and the periodic sweeps (\<^verbatim>\<open>server.rs\<close>). The tables are
  \<^verbatim>\<open>BTreeMap\<close>s (theory \<open>Ordered_Table\<close>).

  Every critical section of the code, the body of one lock of the state, is one definition.
  \<open>Cp_Steps\<close> makes them the steps of a relation, in any order and with other steps between the
  delivery and the commit of a completion; \<open>Cp_Links\<close> does the same for the server with its
  open sockets. \<open>Cp_Router_Facts\<close>, \<open>Cp_Admission\<close> and \<open>Cp_Endings\<close> prove that each
  operation keeps the invariant (session counts, admission tokens, chains, capacity),
  \<open>Cp_Effects\<close> says what each operation does
  to the in-flight table and whom it tells, \<open>Cp_Links_Facts\<close> and \<open>Cp_Links_Steps\<close> carry
  the invariant of the server. The properties are in \<open>Cp_Run_Properties\<close>
  (which follows one admission along a run),
  \<open>Cp_Operation_Properties\<close> and \<open>Cp_Bound_Properties\<close>; their witnesses run on
  \<open>Cp_Example\<close>.

  \<^bold>\<open>Terminal delivery.\<close> A final answer that a user is owed becomes a durable record
  (\<^verbatim>\<open>terminal_delivery.rs\<close>): \<open>Delivery_Record\<close> has its eight states, the table of legal
  moves, its identity and the checks on its fields, \<open>Delivery_Store\<close> the repository, one
  definition per method, over the two tables of the database. The worker and the reconciliation manager
  (\<^verbatim>\<open>terminal_delivery_worker.rs\<close>) are async functions that alternate transactions and
  calls to the chat platform; \<open>Delivery_Worker\<close> models such a function as a tree of these
  (\<open>task\<close>) and \<open>Delivery_Actions\<close> translates claim, send, recording of the answer, recovery,
  verification of ambiguous sends and the scan. \<open>Delivery_System\<close> lets any number of captures and
  scans run on one database, interleaved at every node and crashing anywhere.

  \<open>Delivery_Store_Facts\<close> and \<open>Delivery_Audit\<close> prove that every method takes the database one
  step of a relation that keeps keys, slots and message ids unique and the audit log equal to the history
  of the rows. \<open>Delivery_Discipline\<close> states what a worker may do in which phase (idle, claimed,
  answered, granted a read) as a predicate on tasks, \<open>Delivery_Compliance\<close> proves that every
  function follows it, and \<open>Delivery_Runs\<close> that tasks which follow it keep the invariant of the
  system: only the holder of a claim that failed without acceptance makes a record sendable again.
  \<open>Delivery_Outcomes\<close> is the other half, the worker when nobody interferes, \<open>Delivery_Bounds\<close>
  how long it can take. The properties are in \<open>Delivery_Properties\<close>, with their witnesses. The release of a record from \<^verbatim>\<open>OPERATOR_HOLD\<close> is in the
  table of moves but has no caller in the code, so it is not a step of the system.

  \<^bold>\<open>Native work.\<close> A scheduler outside the repository dispatches work to an agent and wants to hear
  how it ended. \<open>Native_Acceptance\<close> (\<^verbatim>\<open>native_work_acceptance.rs\<close>) is the fence that accepts
  a dispatch once: a table keyed by the dispatch, each SQL statement one step, with its run over any
  number of connections and their crashes. When the turn ends, \<open>Native_Turn\<close> (the hook of
  \<^verbatim>\<open>dispatch.rs\<close>) reads the outcome from the text by the strict parser of \<open>Native_Blocks\<close>
  (\<^verbatim>\<open>role_completion_block.rs\<close> and the resolvers of \<^verbatim>\<open>native_completion.rs\<close>) against the
  trusted metadata (\<open>Dispatch_Message\<close>, \<^verbatim>\<open>admission.rs\<close>), and hands it to the durable
  port. \<open>Native_Completion\<close> (the rest of \<^verbatim>\<open>native_completion.rs\<close>) is that port: the outbox in
  its file, the HTTP port with its retries, the replay after a restart. \<open>Native_Blocks_Facts\<close>
  characterises the parser and relates it to that of the workflow path; \<open>Native_Effects\<close> says what
  one operation leaves in the file; \<open>Native_Outbox\<close> lets captures, settlements, failing calls, crashes
  and restarts follow in any order and keeps the invariant of the file; \<open>Native_Port\<close> states what
  a client of a completion port may rely on as a locale, interpreted by the HTTP port, and computes the
  number of its requests. The properties are in \<open>Native_Properties\<close>.

  \<^bold>\<open>Guards.\<close> Three small state machines in front of the agents: \<open>Guard_Breaker\<close>
  (\<^verbatim>\<open>breaker.rs\<close> of the MCP crate) stops calling a server that fails, \<open>Guard_Turns\<close>
  (\<^verbatim>\<open>bot_turns.rs\<close>) ends conversations of bots among themselves, \<open>Guard_Trust\<close>
  (\<^verbatim>\<open>trust.rs\<close>) decides who may talk to the agent and where it may write; their properties are in
  \<open>Guard_Properties\<close>.

  \<^bold>\<open>Admission of native work.\<close> The other end of native work, the request \<^verbatim>\<open>agent.work\<close> of
  the control socket (\<^verbatim>\<open>src/ctl.rs\<close>): \<open>Work_Request\<close> has the request, its checks and
  fingerprints, \<open>Work_Ledger\<close> the process-local table of reservations with its eviction and its
  \<^verbatim>\<open>watch\<close> channels, \<open>Dispatch_Message\<close> and \<open>Work_Admission\<close> what is handed to the dispatcher
  through the admission port (\<^verbatim>\<open>admission.rs\<close>), and \<open>Work_Handler\<close> the handler: an async function,
  cut at every statement, lock and look at a channel, so that any number of calls, cancelled anywhere,
  and restarts of the daemon interleave on one ledger and one acceptance store. \<open>Work_Facts\<close> proves
  that a reservation has one holder and that a second admission of a key has an excuse in between,
  \<open>Work_Answers\<close> that rows, finished slots and answers agree, \<open>Work_Fence\<close> what a stored
  acknowledgement and the gate exclude, \<open>Work_Wedge\<close> what a leaked reservation and a missed
  completion do; the properties are in \<open>Work_Properties\<close>. That
  equal fingerprints mean equal contents is a hypothesis (\<open>fingerprints_ok\<close>) on the requests of the run.

  \<^bold>\<open>The dispatcher.\<close> What stands between the adapters and the agents (\<^verbatim>\<open>dispatch.rs\<close>):
  \<open>Dispatch_Lane\<close> is one consumer with its bounded channel (\<^verbatim>\<open>consumer_loop\<close>), cut at every
  receive, around the dispatch of a batch and between its end and the drop of its receiver;
  \<open>Dispatch_Submit\<close> is the \<^verbatim>\<open>Dispatcher\<close>: the map of consumers, \<^verbatim>\<open>submit\<close> cut at every
  lock and send with its retry, eviction by generation, cancellation, sweep and shutdown. Any number of
  submissions and consumers interleave; any may be cancelled, aborted, time out or panic.
  \<open>Dispatch_Facts\<close> keeps the invariant of a run, \<open>Dispatch_Properties\<close> adds that every consumer
  moves by its own steps, a measure of what a consumer has left to do, and the properties. The body of
  \<^verbatim>\<open>dispatch_batch\<close>, which calls the agent, is a step that returns or panics; that it returns is
  the assumption of the liveness property (the rounds contain its return). Channel capacity is at least
  one, as \<^verbatim>\<open>config.rs\<close> checks; generations and token sums are unbounded, the counters of the code
  being 64 bits wide.

  \<^bold>\<open>How the code is read.\<close> A Rust string is the list of its UTF-8 bytes (\<open>Rust_Text\<close> has
  the operations of \<^verbatim>\<open>core::str\<close> the code calls, on those bytes). \<^verbatim>\<open>u64\<close>
  and \<^verbatim>\<open>u32\<close> are words, \<^verbatim>\<open>usize\<close> and lengths are naturals; additions the
  code checks or saturates are written out, and the three counters it increments unchecked (the
  registry's handles, the depth of a chain against \<^verbatim>\<open>max_depth\<close>, the admission tokens) are
  words, with "this counter has not run out" as an explicit condition of the step or property that
  needs it. The revision of an assignment is a word as well, incremented once per accepted turn:
  \<open>at_most_six_transitions\<close> bounds these, so a workflow that started at 0 never comes near
  the wrap.
  Errors are the left side of a sum, or a datatype of outcomes with the source's constructors.
  Loops are recursions on the list they run over, or on the number of attempts left; no definition needs
  fuel. A SQL statement is read as an operation on the list of rows; a transaction is one step and a
  failing SQLite call aborts it. Times are nanoseconds since the epoch and the database keeps
  microseconds, ordered as numbers, which is the order of the stored texts for the years 0 to 9999.

  \<^bold>\<open>Parameters.\<close> What is not under \<^verbatim>\<open>src\<close> is an argument of the definitions that use
  it: the JSON printer and reader (a \<open>codec\<close>; a round trip is a named hypothesis where a property
  needs one), SHA-256, the lower-casing of non-ASCII characters, the TOML reader, the chat adapter (a
  function from the message to its id or an error, which may change from call to call), the
  encoding of a frame on the wire, the failures of SQLite and its clock readings, the answers of the chat
  platform to a send or a read, and the iteration order of a \<^verbatim>\<open>HashMap\<close>. The witnesses
  instantiate each with a concrete function.

  \<^bold>\<open>Not modelled.\<close> Logging and tracing. The socket loop of \<^verbatim>\<open>handle_connection\<close> (reads,
  writes, ping and the timeouts of tokio); its decisions, registration, dispatch of a frame, teardown
  and the two sweeps, are modelled. Serde attributes: the shapes of the JSON texts are behind the
  codec. The chat platform adapters, the ACP process pool, the
  gateway's webhook adapters, the MCP runtime and the operator are I/O around third-party clients;
  the manifest lists them as components that are not modelled.
\<close>

end
